(* ===== verification/Lifecycle.thy ===== *)
theory Lifecycle
  imports Prelude
begin

text \<open>
  The canonical workload state machine of \<^verbatim>\<open>internal/core/statemachine.go\<close> and the
  identity checks of \<^verbatim>\<open>internal/core/types.go\<close>. A phase is a Go string type, so a
  state may hold any string; \<open>phase_valid\<close> is the code's own membership test.
\<close>

section \<open>Phases and the transition table\<close>

type_synonym phase = string

abbreviation PhaseDeclared :: phase where "PhaseDeclared \<equiv> ''Declared''"
abbreviation PhasePlanned :: phase where "PhasePlanned \<equiv> ''Planned''"
abbreviation PhaseBuilding :: phase where "PhaseBuilding \<equiv> ''Building''"
abbreviation PhaseBuilt :: phase where "PhaseBuilt \<equiv> ''Built''"
abbreviation PhasePublishing :: phase where "PhasePublishing \<equiv> ''Publishing''"
abbreviation PhasePublished :: phase where "PhasePublished \<equiv> ''Published''"
abbreviation PhaseDeploying :: phase where "PhaseDeploying \<equiv> ''Deploying''"
abbreviation PhaseRunning :: phase where "PhaseRunning \<equiv> ''Running''"
abbreviation PhaseStopping :: phase where "PhaseStopping \<equiv> ''Stopping''"
abbreviation PhaseStopped :: phase where "PhaseStopped \<equiv> ''Stopped''"
abbreviation PhaseDeleting :: phase where "PhaseDeleting \<equiv> ''Deleting''"
abbreviation PhaseDeleted :: phase where "PhaseDeleted \<equiv> ''Deleted''"
abbreviation PhaseFailed :: phase where "PhaseFailed \<equiv> ''Failed''"
abbreviation PhaseUnknown :: phase where "PhaseUnknown \<equiv> ''Unknown''"

definition phases :: "phase list" where
  "phases = [PhaseDeclared, PhasePlanned, PhaseBuilding, PhaseBuilt, PhasePublishing,
     PhasePublished, PhaseDeploying, PhaseRunning, PhaseStopping, PhaseStopped,
     PhaseDeleting, PhaseDeleted, PhaseFailed, PhaseUnknown]"

definition phase_valid :: "phase \<Rightarrow> bool" where
  "phase_valid p \<longleftrightarrow> p \<in> set phases"

record TransitionRule =
  tr_From :: phase
  tr_To :: phase
  tr_Idempotent :: bool
  tr_Compensation :: string

definition rule :: "phase \<Rightarrow> phase \<Rightarrow> bool \<Rightarrow> string \<Rightarrow> TransitionRule" where
  "rule f t i c = \<lparr>tr_From = f, tr_To = t, tr_Idempotent = i, tr_Compensation = c\<rparr>"

definition base_transitions :: "TransitionRule list" where
  "base_transitions = [
    rule PhaseDeclared PhasePlanned True '''',
    rule PhaseDeclared PhaseFailed True '''',
    rule PhasePlanned PhaseBuilding True '''',
    rule PhasePlanned PhaseFailed True '''',
    rule PhaseBuilding PhaseBuilt False
      ''a build that crashed mid-write may have left a partial artifact on disk or in the build cache; discard it and re-run Building from Planned rather than trusting a half-written output'',
    rule PhaseBuilding PhaseFailed True ''discard any partially written build output'',
    rule PhaseBuilt PhasePublishing True '''',
    rule PhasePublishing PhasePublished False
      ''a publish that crashed mid-upload may have left a partial or unverified artifact at the registry; re-verify by digest (never trust a previous 'published' claim) or re-upload before considering it Published'',
    rule PhasePublishing PhaseFailed True
      ''an interrupted upload should be left for the registry's own garbage collection by digest, not deleted by this caller - a concurrent reader may already be resolving the same digest'',
    rule PhasePublished PhaseDeploying True '''',
    rule PhaseDeploying PhaseRunning False
      ''a deploy that crashed mid-apply may have partially created the workload at the backend; reconcile against the backend's own observed state (Kubernetes/KubeVirt/containerd) before retrying - never assume nothing was created'',
    rule PhaseDeploying PhaseFailed True
      ''reconcile against the backend's observed state and tear down whatever was partially created'',
    rule PhaseRunning PhaseStopping True '''',
    rule PhaseStopping PhaseStopped True '''',
    rule PhaseStopping PhaseFailed True
      ''a workload that failed to stop cleanly needs the same reconciliation as a failed Deploying transition'',
    rule PhaseRunning PhaseDeleting True '''',
    rule PhaseStopped PhaseDeleting True '''',
    rule PhaseFailed PhaseDeleting True '''',
    rule PhaseDeleting PhaseDeleted True
      ''deleting an already-deleted resource must be treated as success, not an error - this is what makes Deleting -> Deleted safe to repeat verbatim'',
    rule PhaseFailed PhaseDeclared True ''retry the whole workload from scratch'']"

text \<open>\<^verbatim>\<open>init()\<close> appends the degradations to and the recoveries from \<^verbatim>\<open>Unknown\<close>.\<close>

definition transitions :: "TransitionRule list" where
  "transitions = base_transitions
     @ map (\<lambda>p. rule p PhaseUnknown True '''')
         [PhaseDeclared, PhasePlanned, PhaseBuilding, PhaseBuilt, PhasePublishing,
          PhasePublished, PhaseDeploying, PhaseRunning, PhaseStopping, PhaseStopped,
          PhaseDeleting, PhaseDeleted, PhaseFailed]
     @ map (\<lambda>p. rule PhaseUnknown p True '''')
         [PhaseDeclared, PhaseBuilding, PhaseBuilt, PhasePublished, PhaseDeploying,
          PhaseRunning, PhaseStopped, PhaseDeleted, PhaseFailed]"

definition LookupTransition :: "phase \<Rightarrow> phase \<Rightarrow> TransitionRule option" where
  "LookupTransition from to = List.find (\<lambda>t. tr_From t = from \<and> tr_To t = to) transitions"

definition CanTransition :: "phase \<Rightarrow> phase \<Rightarrow> bool" where
  "CanTransition from to = (LookupTransition from to \<noteq> None)"

record RuntimeState =
  rs_Phase :: phase

datatype transition_error = UnrecognizedPhase phase | NoTransition phase phase

definition TransitionTo :: "RuntimeState \<Rightarrow> phase \<Rightarrow> transition_error + RuntimeState" where
  "TransitionTo s to =
     (if \<not> phase_valid to then Inl (UnrecognizedPhase to)
      else if rs_Phase s = [] \<and> to = PhaseDeclared then Inr \<lparr>rs_Phase = PhaseDeclared\<rparr>
      else if \<not> phase_valid (rs_Phase s) then Inl (UnrecognizedPhase (rs_Phase s))
      else if \<not> CanTransition (rs_Phase s) to then Inl (NoTransition (rs_Phase s) to)
      else Inr \<lparr>rs_Phase = to\<rparr>)"

section \<open>What the table allows\<close>

definition edges :: "(phase \<times> phase) list" where
  "edges = map (\<lambda>t. (tr_From t, tr_To t)) transitions"

lemma CanTransition_iff: "CanTransition f t \<longleftrightarrow> (f, t) \<in> set edges"
  by (auto simp: CanTransition_def LookupTransition_def edges_def find_None_iff)

lemmas table_simps = CanTransition_iff edges_def transitions_def base_transitions_def rule_def

lemma CanTransition_valid: "CanTransition f t \<Longrightarrow> phase_valid f \<and> phase_valid t"
  by (auto simp: table_simps phase_valid_def phases_def)

lemma phase_valid_nonempty: "phase_valid p \<Longrightarrow> p \<noteq> []"
  by (auto simp: phase_valid_def phases_def)

lemma phase_valid_Declared: "phase_valid PhaseDeclared"
  by (simp add: phase_valid_def phases_def)

lemma TransitionTo_Inr:
  "TransitionTo s to = Inr s' \<longleftrightarrow>
     rs_Phase s' = to \<and> (CanTransition (rs_Phase s) to \<or> rs_Phase s = [] \<and> to = PhaseDeclared)"
  using CanTransition_valid [of "rs_Phase s" to] phase_valid_nonempty [of "rs_Phase s"]
  by (cases s') (auto simp: TransitionTo_def phase_valid_Declared)

text \<open>The phases with a single predecessor outside \<^verbatim>\<open>Unknown\<close>.\<close>

lemma predecessors:
  "CanTransition q PhaseRunning \<longleftrightarrow> q = PhaseDeploying \<or> q = PhaseUnknown"
  "CanTransition q PhaseDeploying \<longleftrightarrow> q = PhasePublished \<or> q = PhaseUnknown"
  "CanTransition q PhasePublished \<longleftrightarrow> q = PhasePublishing \<or> q = PhaseUnknown"
  "CanTransition q PhasePublishing \<longleftrightarrow> q = PhaseBuilt"
  "CanTransition q PhaseBuilt \<longleftrightarrow> q = PhaseBuilding \<or> q = PhaseUnknown"
  "CanTransition q PhaseBuilding \<longleftrightarrow> q = PhasePlanned \<or> q = PhaseUnknown"
  "CanTransition q PhasePlanned \<longleftrightarrow> q = PhaseDeclared"
  by (simp_all add: table_simps)

section \<open>Histories\<close>

text \<open>
  A history lists the phases a workload went through, newest first, each move made
  by \<open>TransitionTo\<close> from the previous state; it starts from the empty phase.
\<close>

inductive history :: "phase list \<Rightarrow> bool" where
  start: "TransitionTo \<lparr>rs_Phase = []\<rparr> p = Inr s \<Longrightarrow> history [rs_Phase s]"
| move: "history (p # ps) \<Longrightarrow> TransitionTo \<lparr>rs_Phase = p\<rparr> q = Inr s \<Longrightarrow> history (rs_Phase s # p # ps)"

inductive_simps history_start: "history [p]"
inductive_simps history_Cons: "history (q # p # ps)"

lemma history_start_iff: "history [p] \<longleftrightarrow> p = PhaseDeclared"
proof -
  have "\<not> CanTransition [] q" for q
    by (auto dest: CanTransition_valid phase_valid_nonempty)
  then show ?thesis
    by (auto simp: history_start TransitionTo_Inr intro!: exI [of _ "\<lparr>rs_Phase = PhaseDeclared\<rparr>"])
qed

lemma history_valid: "history ps \<Longrightarrow> p \<in> set ps \<Longrightarrow> phase_valid p"
proof (induction rule: history.induct)
  case (start p s)
  then show ?case by (auto simp: TransitionTo_def split: if_splits)
next
  case (move p ps q s)
  then show ?case by (auto simp: TransitionTo_def split: if_splits)
qed

lemma history_Cons_iff:
  "history (q # p # ps) \<longleftrightarrow> history (p # ps) \<and> CanTransition p q"
  using history_valid [of "p # ps" p] phase_valid_nonempty [of p]
  by (auto simp: history_Cons TransitionTo_Inr intro!: exI [of _ "\<lparr>rs_Phase = q\<rparr>"])

text \<open>One step back along a history, away from \<^verbatim>\<open>Unknown\<close> and from the start.\<close>

lemma history_back:
  assumes "history (q # ps)" and "PhaseUnknown \<notin> set ps" and "q \<noteq> PhaseDeclared"
    and "\<And>p. CanTransition p q \<Longrightarrow> p = r \<or> p = PhaseUnknown"
  obtains ps' where "ps = r # ps'" "history (r # ps')" "PhaseUnknown \<notin> set ps'"
proof (cases ps)
  case Nil
  with assms(1,3) show ?thesis by (simp add: history_start_iff)
next
  case (Cons p ps')
  with assms(1) have "CanTransition p q" and "history (p # ps')"
    by (simp_all add: history_Cons_iff)
  with assms(2,4) Cons show ?thesis by (intro that [of ps']) auto
qed

definition path_to_running :: "phase list" where
  "path_to_running = [PhaseDeploying, PhasePublished, PhasePublishing, PhaseBuilt,
     PhaseBuilding, PhasePlanned, PhaseDeclared]"

text \<open>
  C1: A workload that is Running and was never Unknown got there through every
  build, publish and deploy phase, in order, from Declared.
\<close>

theorem running_only_after_publication:
  assumes h: "history (PhaseRunning # ps)" and u: "PhaseUnknown \<notin> set ps"
  shows "\<exists>older. ps = path_to_running @ older"
proof -
  obtain p1 where 1: "ps = PhaseDeploying # p1" "history (PhaseDeploying # p1)" "PhaseUnknown \<notin> set p1"
    by (rule history_back [OF h u, of PhaseDeploying]) (simp_all add: predecessors)
  obtain p2 where 2: "p1 = PhasePublished # p2" "history (PhasePublished # p2)" "PhaseUnknown \<notin> set p2"
    by (rule history_back [OF 1(2,3), of PhasePublished]) (simp_all add: predecessors)
  obtain p3 where 3: "p2 = PhasePublishing # p3" "history (PhasePublishing # p3)" "PhaseUnknown \<notin> set p3"
    by (rule history_back [OF 2(2,3), of PhasePublishing]) (simp_all add: predecessors)
  obtain p4 where 4: "p3 = PhaseBuilt # p4" "history (PhaseBuilt # p4)" "PhaseUnknown \<notin> set p4"
    by (rule history_back [OF 3(2,3), of PhaseBuilt]) (simp_all add: predecessors)
  obtain p5 where 5: "p4 = PhaseBuilding # p5" "history (PhaseBuilding # p5)" "PhaseUnknown \<notin> set p5"
    by (rule history_back [OF 4(2,3), of PhaseBuilding]) (simp_all add: predecessors)
  obtain p6 where 6: "p5 = PhasePlanned # p6" "history (PhasePlanned # p6)" "PhaseUnknown \<notin> set p6"
    by (rule history_back [OF 5(2,3), of PhasePlanned]) (simp_all add: predecessors)
  obtain p7 where 7: "p6 = PhaseDeclared # p7"
    by (rule history_back [OF 6(2,3), of PhaseDeclared]) (simp_all add: predecessors)
  show ?thesis
    by (simp add: path_to_running_def 1 2 3 4 5 6 7)
qed

theorem running_only_after_publication_witness:
  "history (PhaseRunning # path_to_running)
     \<and> (\<exists>older. path_to_running = path_to_running @ older)"
proof -
  have h: "history (PhaseRunning # path_to_running)"
    by (simp add: path_to_running_def history_Cons_iff history_start_iff table_simps)
  have u: "PhaseUnknown \<notin> set path_to_running"
    by (simp add: path_to_running_def)
  from h running_only_after_publication [OF h u] show ?thesis by blast
qed

text \<open>
  The table is a function of the pair of phases: no rule shadows another, every
  rule relates recognized phases, and \<open>LookupTransition\<close> finds exactly the rules of
  the table. The only moves that are not safe to repeat are the three that commit
  external work, and each of them documents its compensation.
\<close>

theorem transition_table_sound:
  "distinct edges
   \<and> list_all (\<lambda>r. phase_valid (tr_From r) \<and> phase_valid (tr_To r)) transitions
   \<and> (LookupTransition f t = Some r \<longleftrightarrow> r \<in> set transitions \<and> tr_From r = f \<and> tr_To r = t)
   \<and> list_all (\<lambda>r. (\<not> tr_Idempotent r) = (tr_Compensation r \<noteq> [] \<and>
        (tr_From r, tr_To r) \<in> {(PhaseBuilding, PhaseBuilt), (PhasePublishing, PhasePublished),
                                (PhaseDeploying, PhaseRunning)})) transitions"
proof (intro conjI)
  show d: "distinct edges" by code_simp
  show "list_all (\<lambda>r. phase_valid (tr_From r) \<and> phase_valid (tr_To r)) transitions" by code_simp
  have inj: "r1 = r2" if "r1 \<in> set transitions" "r2 \<in> set transitions"
    "tr_From r1 = tr_From r2" "tr_To r1 = tr_To r2" for r1 r2
    using d that by (auto simp: edges_def distinct_map dest!: inj_onD)
  show "LookupTransition f t = Some r \<longleftrightarrow> r \<in> set transitions \<and> tr_From r = f \<and> tr_To r = t"
  proof
    assume "LookupTransition f t = Some r"
    then show "r \<in> set transitions \<and> tr_From r = f \<and> tr_To r = t"
      by (auto simp: LookupTransition_def find_Some_iff)
  next
    assume r: "r \<in> set transitions \<and> tr_From r = f \<and> tr_To r = t"
    then obtain r' where "LookupTransition f t = Some r'"
      by (cases "LookupTransition f t") (auto simp: LookupTransition_def find_None_iff)
    with r inj show "LookupTransition f t = Some r"
      by (auto simp: LookupTransition_def find_Some_iff)
  qed
  show "list_all (\<lambda>r. (\<not> tr_Idempotent r) = (tr_Compensation r \<noteq> [] \<and>
        (tr_From r, tr_To r) \<in> {(PhaseBuilding, PhaseBuilt), (PhasePublishing, PhasePublished),
                                (PhaseDeploying, PhaseRunning)})) transitions"
    by code_simp
qed

lemma to_Unknown: "phase_valid p \<Longrightarrow> CanTransition\<^sup>*\<^sup>* p PhaseUnknown"
proof -
  have "list_all (\<lambda>p. p = PhaseUnknown \<or> CanTransition p PhaseUnknown) phases" by code_simp
  then show "phase_valid p \<Longrightarrow> CanTransition\<^sup>*\<^sup>* p PhaseUnknown"
    by (auto simp: list_all_iff phase_valid_def)
qed

lemma from_Unknown: "phase_valid p \<Longrightarrow> CanTransition\<^sup>*\<^sup>* PhaseUnknown p"
proof -
  let ?direct = "\<lambda>p. p = PhaseUnknown \<or> CanTransition PhaseUnknown p"
  have "list_all (\<lambda>p. ?direct p \<or> list_ex (\<lambda>q. ?direct q \<and>
          (CanTransition q p \<or> list_ex (\<lambda>r. CanTransition q r \<and> CanTransition r p) phases)) phases) phases"
    by code_simp
  moreover assume "phase_valid p"
  ultimately have "?direct p \<or> (\<exists>q. ?direct q \<and> (CanTransition q p \<or> (\<exists>r. CanTransition q r \<and> CanTransition r p)))"
    by (auto simp: list_all_iff list_ex_iff phase_valid_def)
  then show ?thesis
    by (auto intro: rtranclp.rtrancl_into_rtrancl)
qed

text \<open>
  No phase is a dead end: from every recognized phase some sequence of allowed
  moves reaches every recognized phase, and \<^verbatim>\<open>Deleted\<close> can only be left through
  \<^verbatim>\<open>Unknown\<close>, that is after the external system failed to confirm it.
\<close>

theorem no_dead_end:
  "(phase_valid p \<and> phase_valid q \<longrightarrow> CanTransition\<^sup>*\<^sup>* p q)
   \<and> (CanTransition PhaseDeleted q \<longleftrightarrow> q = PhaseUnknown)"
proof (intro conjI impI)
  assume "phase_valid p \<and> phase_valid q"
  then show "CanTransition\<^sup>*\<^sup>* p q"
    by (blast intro: rtranclp_trans to_Unknown from_Unknown)
next
  show "CanTransition PhaseDeleted q \<longleftrightarrow> q = PhaseUnknown"
    by (auto simp: table_simps)
qed

theorem no_dead_end_witness:
  "phase_valid PhaseFailed \<and> phase_valid PhaseRunning \<and> CanTransition\<^sup>*\<^sup>* PhaseFailed PhaseRunning"
proof -
  have v: "phase_valid PhaseFailed \<and> phase_valid PhaseRunning"
    by (simp add: phase_valid_def phases_def)
  with no_dead_end [of PhaseFailed PhaseRunning] show ?thesis by blast
qed

end
