(* ===== verification/Durable_Files.thy ===== *)
theory Durable_Files
  imports Prelude
begin

text \<open>
  The directories the durable stores write to. A directory is a Go map from entry
  names to entries; a regular file holds the document \<^verbatim>\<open>strictjson.Decode\<close> reads
  from its bytes, or no document when those bytes are refused (truncated, unknown
  fields, trailing content); \<open>Special\<close> stands for symbolic links and the other
  entries that are neither regular files nor directories. \<open>Write\<close> is \<^verbatim>\<open>internal/atomicfile\<close>: its result depends on
  which system call fails, which the environment decides.
\<close>

datatype 'd entry = File "'d option" | Directory | Special

type_synonym 'd dir = "(string, 'd entry) gomap"

text \<open>
  \<^verbatim>\<open>os.Lstat(filepath.Join(root, name))\<close>: the names \<^verbatim>\<open>.\<close> and \<^verbatim>\<open>..\<close> resolve to
  directories and are never listed by \<^verbatim>\<open>os.ReadDir\<close>.
\<close>

definition lstat :: "'d dir \<Rightarrow> string \<Rightarrow> 'd entry option" where
  "lstat d name = (if name = ''.'' \<or> name = ''..'' then Some Directory else gm_get d name)"

datatype io_error = NotExist | Exist | OtherIO

text \<open>Go's \<^verbatim>\<open>filepath.Base\<close>.\<close>

definition filepath_Base :: "string \<Rightarrow> string" where
  "filepath_Base s =
     (if s = [] then ''.''
      else let t = rev (dropWhile (\<lambda>c. c = CHR ''/'') (rev s))
           in if t = [] then ''/'' else rev (takeWhile (\<lambda>c. c \<noteq> CHR ''/'') (rev t)))"

text \<open>
  The faults of \<^verbatim>\<open>atomicfile.Write\<close>: any call up to and including the rename fails,
  or opening or syncing the directory fails after the rename took effect.
\<close>

datatype write_fault = WriteOk | FailsBeforeRename | FailsAfterRename

definition Write :: "'d dir \<Rightarrow> string \<Rightarrow> 'd \<Rightarrow> write_fault \<Rightarrow> io_error option \<times> 'd dir" where
  "Write d name data fault =
     (if name = [] \<or> filepath_Base name \<noteq> name then (Some OtherIO, d)
      else if fault = FailsBeforeRename \<or> lstat d name = Some Directory then (Some OtherIO, d)
      else (if fault = FailsAfterRename then Some OtherIO else None,
            gm_put name (File (Some data)) d))"

lemma filepath_Base_flat: "name \<noteq> [] \<Longrightarrow> CHR ''/'' \<notin> set name \<Longrightarrow> filepath_Base name = name"
proof -
  assume n: "name \<noteq> []" and s: "CHR ''/'' \<notin> set name"
  have d: "dropWhile (\<lambda>c. c = CHR ''/'') (rev name) = rev name"
    using s n by (metis dropWhile_eq_self_iff last_in_set hd_rev)
  have t: "takeWhile (\<lambda>c. c \<noteq> CHR ''/'') (rev name) = rev name"
    using s by (auto simp: takeWhile_eq_all_conv)
  show ?thesis using n by (simp add: filepath_Base_def d t)
qed

lemma lstat_put:
  "name \<noteq> ''.'' \<Longrightarrow> name \<noteq> ''..'' \<Longrightarrow>
     lstat (gm_put name e d) n = (if n = name then Some e else lstat d n)"
  by (simp add: lstat_def)

lemma lstat_put_mono: "lstat d n \<noteq> None \<Longrightarrow> lstat (gm_put name e d) n \<noteq> None"
  by (auto simp: lstat_def)

lemma lstat_None_name: "lstat d n = None \<Longrightarrow> n \<noteq> ''.'' \<and> n \<noteq> ''..''"
  by (auto simp: lstat_def split: if_splits)

text \<open>A write never removes an entry, and succeeds only by installing the whole document.\<close>

lemma Write_keeps: "lstat d n \<noteq> None \<Longrightarrow> lstat (snd (Write d name data f)) n \<noteq> None"
  using lstat_put_mono [of d n name] by (auto simp: Write_def)

lemma Write_frame: "n \<noteq> name \<Longrightarrow> lstat (snd (Write d name data f)) n = lstat d n"
  by (auto simp: Write_def lstat_def)

lemma Write_None: "Write d name data f = (None, d') \<Longrightarrow> lstat d' name = Some (File (Some data))"
  by (auto simp: Write_def lstat_def split: if_splits)

lemma Write_entry:
  "lstat (snd (Write d name data f)) name \<in> {lstat d name, Some (File (Some data))}"
  by (auto simp: Write_def lstat_def)

end
