(* ===== verification/Journal.thy ===== *)
theory Journal
  imports Durable_Files
begin

text \<open>
  The operation journals: \<^verbatim>\<open>internal/core/idempotency.go\<close> (records, identity rule,
  the \<^verbatim>\<open>OperationJournal\<close> port), \<^verbatim>\<open>internal/idempotency/memory.go\<close> and
  \<^verbatim>\<open>internal/idempotency/file.go\<close>. The port is the locale \<open>operation_journal\<close>; both
  journals interpret it. The file journal is a cache in one process over a directory
  that several processes share, so its operations take and return both. Here a method runs
  without interference from other processes; \<^verbatim>\<open>Shared_Journal\<close> takes the methods apart
  into system calls and shows that a method that is not interrupted does what is defined here.
\<close>

section \<open>Records and identities\<close>

abbreviation OperationStarted :: string where "OperationStarted \<equiv> ''started''"
abbreviation OperationCompleted :: string where "OperationCompleted \<equiv> ''completed''"
abbreviation OperationFailed :: string where "OperationFailed \<equiv> ''failed''"

record OperationRecord =
  op_ID :: string
  op_Status :: string
  op_Scope :: string

text \<open>
  The Go loop ranges over runes; a byte above \<^verbatim>\<open>0x7f\<close> starts a rune above 126 or
  decodes to \<^verbatim>\<open>U+FFFD\<close>, so the byte test below accepts the same strings.
\<close>

definition valid_id_char :: "char \<Rightarrow> bool" where
  "valid_id_char c \<longleftrightarrow> CHR '' '' \<le> c \<and> c \<le> CHR ''~'' \<and> c \<noteq> CHR ''/''
     \<and> c \<noteq> CHR 0x5C \<and> c \<noteq> CHR '':''"

definition ValidOperationID :: "string \<Rightarrow> bool" where
  "ValidOperationID i \<longleftrightarrow> i \<noteq> [] \<and> list_all valid_id_char i"

datatype journal_error =
    IdAndScopeRequired | InvalidOperationID string | ScopeRequired
  | ScopeCollision string | NeverStarted string | AlreadyFinished string string
  | PersistFailed | LoadFailed

section \<open>The in-memory journal\<close>

type_synonym MemoryJournal = "(string, OperationRecord) gomap"

definition NewMemoryJournal :: MemoryJournal where
  "NewMemoryJournal = []"

definition memory_Lookup :: "MemoryJournal \<Rightarrow> string \<Rightarrow> OperationRecord option" where
  "memory_Lookup j i = gm_get j i"

definition memory_Start :: "MemoryJournal \<Rightarrow> string \<Rightarrow> string \<Rightarrow> (journal_error + bool) \<times> MemoryJournal" where
  "memory_Start j i scope =
     (if \<not> ValidOperationID i \<or> scope = [] then (Inl IdAndScopeRequired, j)
      else case gm_get j i of
        Some existing \<Rightarrow>
          (if op_Scope existing \<noteq> scope then (Inl (ScopeCollision i), j) else (Inr False, j))
      | None \<Rightarrow>
          (Inr True,
           gm_put i \<lparr>op_ID = i, op_Status = OperationStarted, op_Scope = scope\<rparr> j))"

definition memory_finish :: "MemoryJournal \<Rightarrow> string \<Rightarrow> string \<Rightarrow> journal_error option \<times> MemoryJournal" where
  "memory_finish j i status =
     (case gm_get j i of
        None \<Rightarrow> (Some (NeverStarted i), j)
      | Some r \<Rightarrow>
          (if op_Status r \<noteq> OperationStarted then (Some (AlreadyFinished i (op_Status r)), j)
           else (None, gm_put i (r\<lparr>op_Status := status\<rparr>) j)))"

definition memory_Complete :: "MemoryJournal \<Rightarrow> string \<Rightarrow> journal_error option \<times> MemoryJournal" where
  "memory_Complete j i = memory_finish j i OperationCompleted"

definition memory_Fail :: "MemoryJournal \<Rightarrow> string \<Rightarrow> journal_error option \<times> MemoryJournal" where
  "memory_Fail j i = memory_finish j i OperationFailed"

section \<open>The file journal\<close>

record FileJournal =
  fj_records :: "(string, OperationRecord) gomap"

text \<open>
  The state one process sees: its own cache and the shared directory, whose files
  decode to \<^verbatim>\<open>persistedOperationRecord\<close>, a structure with the fields of a record.
\<close>

type_synonym disk = "OperationRecord dir"
type_synonym fj_state = "FileJournal \<times> disk"

definition known_status :: "string \<Rightarrow> bool" where
  "known_status st \<longleftrightarrow> st = OperationStarted \<or> st = OperationCompleted \<or> st = OperationFailed"

definition isValidOperationFile :: "string \<Rightarrow> bool" where
  "isValidOperationFile name = ValidOperationID name"

text \<open>\<open>read_fault\<close>: the environment makes \<^verbatim>\<open>Lstat\<close> or \<^verbatim>\<open>ReadFile\<close> fail.\<close>

definition loadRecord :: "disk \<Rightarrow> string \<Rightarrow> bool \<Rightarrow> io_error + OperationRecord" where
  "loadRecord d i read_fault =
     (if read_fault then Inl OtherIO
      else case lstat d i of
        None \<Rightarrow> Inl NotExist
      | Some (File (Some stored)) \<Rightarrow>
          (if op_ID stored \<noteq> i \<or> op_Scope stored = [] then Inl OtherIO
           else if \<not> known_status (op_Status stored) then Inl OtherIO
           else Inr \<lparr>op_ID = i, op_Status = op_Status stored, op_Scope = op_Scope stored\<rparr>)
      | Some _ \<Rightarrow> Inl OtherIO)"

fun load_entries :: "(string \<Rightarrow> bool) \<Rightarrow> (string, OperationRecord) gomap \<Rightarrow> disk \<Rightarrow> journal_error + (string, OperationRecord) gomap" where
  "load_entries rf recs [] = Inr recs"
| "load_entries rf recs ((name, e) # es) =
     (if e = Directory \<or> \<not> isValidOperationFile name then load_entries rf recs es
      else if rf name then Inl LoadFailed
      else case e of
        File (Some stored) \<Rightarrow>
          (if op_ID stored \<noteq> name then Inl LoadFailed
           else if \<not> known_status (op_Status stored) then Inl LoadFailed
           else load_entries rf
             (gm_put name \<lparr>op_ID = op_ID stored, op_Status = op_Status stored, op_Scope = op_Scope stored\<rparr> recs) es)
      | _ \<Rightarrow> Inl LoadFailed)"

text \<open>
  \<^verbatim>\<open>NewFileJournal\<close> on an existing private directory: load every record, or fail;
  \<open>rf\<close> names the files the environment cannot read.
\<close>

definition NewFileJournal :: "(string \<Rightarrow> bool) \<Rightarrow> disk \<Rightarrow> journal_error + FileJournal" where
  "NewFileJournal rf d =
     (case load_entries rf [] d of Inl e \<Rightarrow> Inl e | Inr recs \<Rightarrow> Inr \<lparr>fj_records = recs\<rparr>)"

text \<open>
  \<open>claim\<close>: write a temporary file, then publish it with a hard link, which fails when
  the name exists. \<^verbatim>\<open>CreateTemp\<close> opens with \<^verbatim>\<open>O_EXCL\<close>, so it never takes an existing
  name. A fault before the link leaves nothing behind; when removing the temporary
  file fails it stays under its name.
\<close>

datatype claim_fault = ClaimOk | FailsBeforeLink | RemoveFails | SyncFails

definition claim :: "disk \<Rightarrow> OperationRecord \<Rightarrow> string \<Rightarrow> claim_fault \<Rightarrow> io_error option \<times> disk" where
  "claim d r tmp fault =
     (if fault = FailsBeforeLink \<or> lstat d tmp \<noteq> None then (Some OtherIO, d)
      else if lstat d (op_ID r) \<noteq> None \<or> op_ID r = tmp then (Some Exist, d)
      else let d' = gm_put (op_ID r) (File (Some r)) d in
        (case fault of
           RemoveFails \<Rightarrow> (Some OtherIO, gm_put tmp (File (Some r)) d')
         | SyncFails \<Rightarrow> (Some OtherIO, d')
         | _ \<Rightarrow> (None, d')))"

text \<open>What the environment decides during one call on the file journal.\<close>

record journal_env =
  env_tmp :: string
  env_claim :: claim_fault
  env_read :: bool
  env_write :: write_fault

definition fj_Lookup :: "journal_env \<Rightarrow> fj_state \<Rightarrow> string \<Rightarrow> OperationRecord option \<times> fj_state" where
  "fj_Lookup env s i =
     (case loadRecord (snd s) i (env_read env) of
        Inl _ \<Rightarrow> (None, s)
      | Inr r \<Rightarrow> (Some r, ((fst s)\<lparr>fj_records := gm_put i r (fj_records (fst s))\<rparr>, snd s)))"

definition fj_Start :: "journal_env \<Rightarrow> fj_state \<Rightarrow> string \<Rightarrow> string \<Rightarrow> (journal_error + bool) \<times> fj_state" where
  "fj_Start env s i scope =
     (if \<not> isValidOperationFile i then (Inl (InvalidOperationID i), s)
      else if scope = [] then (Inl ScopeRequired, s)
      else case gm_get (fj_records (fst s)) i of
        Some existing \<Rightarrow>
          (if op_Scope existing \<noteq> scope then (Inl (ScopeCollision i), s) else (Inr False, s))
      | None \<Rightarrow>
          (let r = \<lparr>op_ID = i, op_Status = OperationStarted, op_Scope = scope\<rparr>;
               put = (\<lambda>x. (fst s)\<lparr>fj_records := gm_put i x (fj_records (fst s))\<rparr>)
           in case claim (snd s) r (env_tmp env) (env_claim env) of
                (None, d) \<Rightarrow> (Inr True, (put r, d))
              | (Some Exist, d) \<Rightarrow>
                  (case loadRecord d i (env_read env) of
                     Inl _ \<Rightarrow> (Inl LoadFailed, (fst s, d))
                   | Inr existing \<Rightarrow>
                       (if op_Scope existing \<noteq> scope then (Inl (ScopeCollision i), (put existing, d))
                        else (Inr False, (put existing, d))))
              | (Some _, d) \<Rightarrow> (Inl PersistFailed, (fst s, d))))"

definition fj_finish :: "journal_env \<Rightarrow> fj_state \<Rightarrow> string \<Rightarrow> string \<Rightarrow> journal_error option \<times> fj_state" where
  "fj_finish env s i status =
     (case loadRecord (snd s) i (env_read env) of
        Inl NotExist \<Rightarrow> (Some (NeverStarted i), s)
      | Inl _ \<Rightarrow> (Some LoadFailed, s)
      | Inr existing \<Rightarrow>
          (if op_Status existing \<noteq> OperationStarted
           then (Some (AlreadyFinished i (op_Status existing)), s)
           else let terminal = \<lparr>op_ID = i, op_Status = status, op_Scope = op_Scope existing\<rparr> in
             case Write (snd s) i terminal (env_write env) of
               (Some _, d) \<Rightarrow> (Some PersistFailed, (fst s, d))
             | (None, d) \<Rightarrow>
                 (None, ((fst s)\<lparr>fj_records := gm_put i terminal (fj_records (fst s))\<rparr>, d))))"

definition fj_Complete :: "journal_env \<Rightarrow> fj_state \<Rightarrow> string \<Rightarrow> journal_error option \<times> fj_state" where
  "fj_Complete env s i = fj_finish env s i OperationCompleted"

definition fj_Fail :: "journal_env \<Rightarrow> fj_state \<Rightarrow> string \<Rightarrow> journal_error option \<times> fj_state" where
  "fj_Fail env s i = fj_finish env s i OperationFailed"

section \<open>The port\<close>

text \<open>
  \<^verbatim>\<open>core.OperationJournal\<close> as an interface. \<open>'e\<close> is what the environment decides
  during a call, \<open>claimed\<close> says that a durable claim for the identity exists and
  \<open>stored\<close> reads the durable record. The laws are the comments of the port: Start is
  an atomic claim, a terminal state is written exactly once.
\<close>

locale operation_journal =
  fixes lookup :: "'e \<Rightarrow> 's \<Rightarrow> string \<Rightarrow> OperationRecord option \<times> 's"
    and start :: "'e \<Rightarrow> 's \<Rightarrow> string \<Rightarrow> string \<Rightarrow> (journal_error + bool) \<times> 's"
    and complete :: "'e \<Rightarrow> 's \<Rightarrow> string \<Rightarrow> journal_error option \<times> 's"
    and fail :: "'e \<Rightarrow> 's \<Rightarrow> string \<Rightarrow> journal_error option \<times> 's"
    and claimed :: "'s \<Rightarrow> string \<Rightarrow> bool"
    and stored :: "'s \<Rightarrow> string \<Rightarrow> OperationRecord option"
  assumes start_wins:
      "fst (start e s i sc) = Inr True \<Longrightarrow> \<not> claimed s i \<and> claimed (snd (start e s i sc)) i"
    and lookup_claimed: "claimed s i \<Longrightarrow> claimed (snd (lookup e s j)) i"
    and start_claimed: "claimed s i \<Longrightarrow> claimed (snd (start e s j sc)) i"
    and complete_claimed: "claimed s i \<Longrightarrow> claimed (snd (complete e s j)) i"
    and fail_claimed: "claimed s i \<Longrightarrow> claimed (snd (fail e s j)) i"
    and stored_claimed: "stored s i = Some r \<Longrightarrow> claimed s i"
    and lookup_stored: "stored s i = Some r \<Longrightarrow> stored (snd (lookup e s j)) i = Some r"
    and start_stored: "stored s i = Some r \<Longrightarrow> stored (snd (start e s j sc)) i = Some r"
    and complete_terminal:
      "stored s i = Some r \<Longrightarrow> op_Status r \<noteq> OperationStarted \<Longrightarrow>
         stored (snd (complete e s j)) i = Some r \<and> fst (complete e s i) \<noteq> None"
    and fail_terminal:
      "stored s i = Some r \<Longrightarrow> op_Status r \<noteq> OperationStarted \<Longrightarrow>
         stored (snd (fail e s j)) i = Some r \<and> fst (fail e s i) \<noteq> None"
    and complete_ok:
      "fst (complete e s i) = None \<Longrightarrow> \<exists>r. stored s i = Some r \<and> op_Status r = OperationStarted
         \<and> stored (snd (complete e s i)) i = Some (r\<lparr>op_Status := OperationCompleted\<rparr>)"
    and fail_ok:
      "fst (fail e s i) = None \<Longrightarrow> \<exists>r. stored s i = Some r \<and> op_Status r = OperationStarted
         \<and> stored (snd (fail e s i)) i = Some (r\<lparr>op_Status := OperationFailed\<rparr>)"

text \<open>
  A sequence of calls on one journal. The run reports the identities whose Start
  answered \<^verbatim>\<open>true\<close> and those whose Complete or Fail reported success.
\<close>

datatype jcall = JLookup string | JStart string string | JComplete string | JFail string

fun journal_run ::
  "('e \<Rightarrow> 's \<Rightarrow> string \<Rightarrow> OperationRecord option \<times> 's) \<Rightarrow>
   ('e \<Rightarrow> 's \<Rightarrow> string \<Rightarrow> string \<Rightarrow> (journal_error + bool) \<times> 's) \<Rightarrow>
   ('e \<Rightarrow> 's \<Rightarrow> string \<Rightarrow> journal_error option \<times> 's) \<Rightarrow>
   ('e \<Rightarrow> 's \<Rightarrow> string \<Rightarrow> journal_error option \<times> 's) \<Rightarrow>
   's \<Rightarrow> ('e \<times> jcall) list \<Rightarrow> string list \<times> string list \<times> 's" where
  "journal_run lk st co fa s [] = ([], [], s)"
| "journal_run lk st co fa s ((e, JLookup i) # cs) =
     journal_run lk st co fa (snd (lk e s i)) cs"
| "journal_run lk st co fa s ((e, JStart i sc) # cs) =
     (let (ws, fs, s') = journal_run lk st co fa (snd (st e s i sc)) cs
      in (if fst (st e s i sc) = Inr True then i # ws else ws, fs, s'))"
| "journal_run lk st co fa s ((e, JComplete i) # cs) =
     (let (ws, fs, s') = journal_run lk st co fa (snd (co e s i)) cs
      in (ws, if fst (co e s i) = None then i # fs else fs, s'))"
| "journal_run lk st co fa s ((e, JFail i) # cs) =
     (let (ws, fs, s') = journal_run lk st co fa (snd (fa e s i)) cs
      in (ws, if fst (fa e s i) = None then i # fs else fs, s'))"

context operation_journal
begin

lemma start_once:
  "count_list (fst (journal_run lookup start complete fail s cs)) i \<le> (if claimed s i then 0 else 1)"
proof (induction cs arbitrary: s)
  case Nil
  then show ?case by simp
next
  case (Cons c cs)
  obtain e call where c: "c = (e, call)" by force
  show ?case
  proof (cases call)
    case (JLookup j)
    with c Cons.IH [of "snd (lookup e s j)"] lookup_claimed [of s i e j] show ?thesis
      by (auto split: if_splits)
  next
    case (JStart j sc)
    with c Cons.IH [of "snd (start e s j sc)"] start_claimed [of s i e j sc] start_wins [of e s j sc]
    show ?thesis by (auto simp: case_prod_beta Let_def split: if_splits)
  next
    case (JComplete j)
    with c Cons.IH [of "snd (complete e s j)"] complete_claimed [of s i e j] show ?thesis
      by (auto simp: case_prod_beta Let_def split: if_splits)
  next
    case (JFail j)
    with c Cons.IH [of "snd (fail e s j)"] fail_claimed [of s i e j] show ?thesis
      by (auto simp: case_prod_beta Let_def split: if_splits)
  qed
qed

lemma terminal_kept:
  assumes "stored s i = Some r" and "op_Status r \<noteq> OperationStarted"
  shows "stored (snd (snd (journal_run lookup start complete fail s cs))) i = Some r
    \<and> i \<notin> set (fst (snd (journal_run lookup start complete fail s cs)))"
  using assms(1)
proof (induction cs arbitrary: s)
  case Nil
  then show ?case by simp
next
  case (Cons c cs)
  obtain e call where c: "c = (e, call)" by force
  show ?case
  proof (cases call)
    case (JLookup j)
    with c Cons.IH [OF lookup_stored [OF Cons.prems]] show ?thesis by simp
  next
    case (JStart j sc)
    with c Cons.IH [OF start_stored [OF Cons.prems]] show ?thesis
      by (simp add: case_prod_beta Let_def)
  next
    case (JComplete j)
    with c Cons.IH [OF complete_terminal [OF Cons.prems assms(2), where e = e and j = j, THEN conjunct1]]
      complete_terminal [OF Cons.prems assms(2), where e = e and j = j] show ?thesis
      by (auto simp: case_prod_beta Let_def)
  next
    case (JFail j)
    with c Cons.IH [OF fail_terminal [OF Cons.prems assms(2), where e = e and j = j, THEN conjunct1]]
      fail_terminal [OF Cons.prems assms(2), where e = e and j = j] show ?thesis
      by (auto simp: case_prod_beta Let_def)
  qed
qed

lemma finish_once:
  "count_list (fst (snd (journal_run lookup start complete fail s cs))) i \<le> 1"
proof (induction cs arbitrary: s)
  case Nil
  then show ?case by simp
next
  case (Cons c cs)
  obtain e call where c: "c = (e, call)" by force
  have after: "count_list (fst (snd (journal_run lookup start complete fail s' cs))) i = 0"
    if "stored s' i = Some (r\<lparr>op_Status := st\<rparr>)" "st \<noteq> OperationStarted" for s' r st
    using terminal_kept [OF that(1)] that(2) by (simp add: count_list_0_iff)
  show ?case
  proof (cases call)
    case (JLookup j)
    with c Cons.IH show ?thesis by simp
  next
    case (JStart j sc)
    with c Cons.IH show ?thesis by (simp add: case_prod_beta Let_def)
  next
    case (JComplete j)
    show ?thesis
    proof (cases "fst (complete e s j) = None \<and> j = i")
      case True
      with complete_ok [of e s i] obtain r
        where "stored (snd (complete e s i)) i = Some (r\<lparr>op_Status := OperationCompleted\<rparr>)" by auto
      with c JComplete True after show ?thesis by (simp add: case_prod_beta Let_def)
    next
      case False
      with c JComplete Cons.IH show ?thesis by (auto simp: case_prod_beta Let_def)
    qed
  next
    case (JFail j)
    show ?thesis
    proof (cases "fst (fail e s j) = None \<and> j = i")
      case True
      with fail_ok [of e s i] obtain r
        where "stored (snd (fail e s i)) i = Some (r\<lparr>op_Status := OperationFailed\<rparr>)" by auto
      with c JFail True after show ?thesis by (simp add: case_prod_beta Let_def)
    next
      case False
      with c JFail Cons.IH show ?thesis by (auto simp: case_prod_beta Let_def)
    qed
  qed
qed

end

section \<open>Both journals satisfy the port\<close>

lemmas memory_defs = memory_Lookup_def memory_Start_def memory_finish_def memory_Complete_def
  memory_Fail_def

interpretation mem: operation_journal
  "\<lambda>(_::unit) j i. (memory_Lookup j i, j)" "\<lambda>_. memory_Start" "\<lambda>_. memory_Complete"
  "\<lambda>_. memory_Fail" "\<lambda>j i. gm_get j i \<noteq> None" gm_get
  by unfold_locales (auto simp: memory_defs split: option.splits if_splits)

definition disk_record :: "disk \<Rightarrow> string \<Rightarrow> OperationRecord option" where
  "disk_record d i = (case loadRecord d i False of Inr r \<Rightarrow> Some r | Inl _ \<Rightarrow> None)"

lemma loadRecord_Inr:
  "loadRecord d i rf = Inr r \<longleftrightarrow> \<not> rf \<and> lstat d i = Some (File (Some r)) \<and> op_ID r = i
     \<and> op_Scope r \<noteq> [] \<and> known_status (op_Status r)"
  by (auto simp: loadRecord_def split: option.splits entry.splits)

lemma disk_record_Some:
  "disk_record d i = Some r \<longleftrightarrow> lstat d i = Some (File (Some r)) \<and> op_ID r = i
     \<and> op_Scope r \<noteq> [] \<and> known_status (op_Status r)"
  using loadRecord_Inr [of d i False r] by (auto simp: disk_record_def split: sum.splits)

lemma claim_None:
  "claim d r tmp f = (None, d') \<Longrightarrow> lstat d (op_ID r) = None \<and> lstat d' (op_ID r) = Some (File (Some r))"
  by (auto simp: claim_def Let_def lstat_put dest!: lstat_None_name split: if_splits claim_fault.splits)

lemma claim_keeps: "lstat d i = Some e \<Longrightarrow> lstat (snd (claim d r tmp f)) i = Some e"
  by (auto simp: claim_def Let_def lstat_def split: claim_fault.splits)

lemma fj_Start_disk:
  "snd (snd (fj_Start env s i sc)) = snd s \<or>
   snd (snd (fj_Start env s i sc)) =
     snd (claim (snd s) \<lparr>op_ID = i, op_Status = OperationStarted, op_Scope = sc\<rparr> (env_tmp env) (env_claim env))"
  by (auto simp: fj_Start_def Let_def split: option.splits io_error.splits sum.splits prod.splits)

lemma fj_Start_wins:
  "fst (fj_Start env s i sc) = Inr True \<Longrightarrow>
     lstat (snd s) i = None \<and> lstat (snd (snd (fj_Start env s i sc))) i \<noteq> None"
  by (auto simp: fj_Start_def Let_def dest: claim_None
      split: if_splits option.splits io_error.splits sum.splits prod.splits)

lemma fj_Start_keeps: "lstat (snd s) i = Some e \<Longrightarrow> lstat (snd (snd (fj_Start env s j sc))) i = Some e"
  using fj_Start_disk [of env s j sc] claim_keeps [of "snd s" i e] by auto

lemma fj_Lookup_disk [simp]: "snd (snd (fj_Lookup env s i)) = snd s"
  by (auto simp: fj_Lookup_def split: sum.splits)

lemma fj_finish_keeps:
  "lstat (snd s) i \<noteq> None \<Longrightarrow> lstat (snd (snd (fj_finish env s j st))) i \<noteq> None"
  using Write_keeps [of "snd s" i j]
  by (auto simp: fj_finish_def Let_def split: sum.splits io_error.splits prod.splits option.splits)
     (metis option.distinct(1) snd_conv)+

lemma fj_finish_frame:
  "i \<noteq> j \<Longrightarrow> lstat (snd (snd (fj_finish env s j st))) i = lstat (snd s) i"
  using Write_frame [of i j "snd s"]
  by (auto simp: fj_finish_def Let_def split: sum.splits io_error.splits prod.splits option.splits)
     (metis snd_conv)+

lemma fj_finish_terminal:
  "disk_record (snd s) i = Some r \<Longrightarrow> op_Status r \<noteq> OperationStarted \<Longrightarrow>
     disk_record (snd (snd (fj_finish env s j st))) i = Some r \<and> fst (fj_finish env s i st) \<noteq> None"
  using fj_finish_frame [of i j env s st]
  by (cases "i = j") (auto simp: fj_finish_def disk_record_Some loadRecord_Inr Let_def
      split: sum.splits io_error.splits)

lemma fj_finish_ok:
  assumes "known_status st" and "fst (fj_finish env s i st) = None"
  shows "\<exists>r. disk_record (snd s) i = Some r \<and> op_Status r = OperationStarted
     \<and> disk_record (snd (snd (fj_finish env s i st))) i = Some (r\<lparr>op_Status := st\<rparr>)"
proof -
  from assms(2) obtain r d where r: "loadRecord (snd s) i (env_read env) = Inr r"
    "op_Status r = OperationStarted"
    "Write (snd s) i \<lparr>op_ID = i, op_Status = st, op_Scope = op_Scope r\<rparr> (env_write env) = (None, d)"
    "snd (snd (fj_finish env s i st)) = d"
    by (auto simp: fj_finish_def Let_def
        split: sum.splits io_error.splits prod.splits option.splits if_splits)
  from Write_None [OF r(3)] r(1,2,4) assms(1) show ?thesis
    by (intro exI [of _ r]) (auto simp: disk_record_Some loadRecord_Inr known_status_def)
qed

text \<open>
  Several processes, numbered, each with its own cache, over one directory, when their calls
  do not overlap. A call names the process and may be preceded by a restart that replaces its
  cache.
\<close>

record shared_env =
  se_proc :: nat
  se_restart :: "FileJournal option"
  se_env :: journal_env

type_synonym shared_state = "(nat \<Rightarrow> FileJournal) \<times> disk"

definition view :: "shared_env \<Rightarrow> shared_state \<Rightarrow> fj_state" where
  "view e s = (case se_restart e of None \<Rightarrow> fst s (se_proc e) | Some c \<Rightarrow> c, snd s)"

definition commit :: "shared_env \<Rightarrow> shared_state \<Rightarrow> 'r \<times> fj_state \<Rightarrow> 'r \<times> shared_state" where
  "commit e s res = (fst res, (fst s)(se_proc e := fst (snd res)), snd (snd res))"

definition sh_Lookup where "sh_Lookup e s i = commit e s (fj_Lookup (se_env e) (view e s) i)"
definition sh_Start where "sh_Start e s i sc = commit e s (fj_Start (se_env e) (view e s) i sc)"
definition sh_Complete where "sh_Complete e s i = commit e s (fj_Complete (se_env e) (view e s) i)"
definition sh_Fail where "sh_Fail e s i = commit e s (fj_Fail (se_env e) (view e s) i)"

lemmas shared_defs = sh_Lookup_def sh_Start_def sh_Complete_def sh_Fail_def

lemma view_disk [simp]: "snd (view e s) = snd s"
  by (simp add: view_def)

lemma commit_simps [simp]: "fst (commit e s res) = fst res" "snd (snd (commit e s res)) = snd (snd res)"
  by (simp_all add: commit_def)

lemma lstat_view: "lstat (snd (view e s)) i = lstat (snd s) i"
  by simp

interpretation shared: operation_journal sh_Lookup sh_Start sh_Complete sh_Fail
  "\<lambda>s i. lstat (snd s) i \<noteq> None" "\<lambda>s i. disk_record (snd s) i"
proof (unfold_locales, goal_cases)
  case (1 e s i sc)
  then show ?case using fj_Start_wins [of "se_env e" "view e s" i sc] by (simp add: shared_defs)
next
  case (2 s i e j)
  then show ?case by (simp add: shared_defs)
next
  case (3 s i e j sc)
  then show ?case using fj_Start_keeps [of "view e s" i] by (auto simp: shared_defs)
next
  case (4 s i e j)
  then show ?case using fj_finish_keeps [of "view e s" i] by (auto simp: shared_defs fj_Complete_def)
next
  case (5 s i e j)
  then show ?case using fj_finish_keeps [of "view e s" i] by (auto simp: shared_defs fj_Fail_def)
next
  case (6 s i r)
  then show ?case by (simp add: disk_record_Some)
next
  case (7 s i r e j)
  then show ?case by (simp add: shared_defs)
next
  case (8 s i r e j sc)
  then show ?case using fj_Start_keeps [of "view e s" i] by (auto simp: shared_defs disk_record_Some)
next
  case (9 s i r e j)
  then show ?case using fj_finish_terminal [of "view e s" i r] by (auto simp: shared_defs fj_Complete_def)
next
  case (10 s i r e j)
  then show ?case using fj_finish_terminal [of "view e s" i r] by (auto simp: shared_defs fj_Fail_def)
next
  case (11 e s i)
  then show ?case using fj_finish_ok [of OperationCompleted "se_env e" "view e s" i]
    by (simp add: shared_defs fj_Complete_def known_status_def)
next
  case (12 e s i)
  then show ?case using fj_finish_ok [of OperationFailed "se_env e" "view e s" i]
    by (simp add: shared_defs fj_Fail_def known_status_def)
qed

section \<open>Reopening after a crash\<close>

text \<open>The entries \<open>load\<close> accepts, and a directory holding only such entries.\<close>

fun entry_ok :: "string \<times> OperationRecord entry \<Rightarrow> bool" where
  "entry_ok (name, File (Some stored)) =
     (isValidOperationFile name \<longrightarrow> op_ID stored = name \<and> known_status (op_Status stored))"
| "entry_ok (name, Directory) = True"
| "entry_ok (name, _) = (\<not> isValidOperationFile name)"

lemma load_entries_isl: "isl (load_entries (\<lambda>_. False) recs d) \<longleftrightarrow> \<not> list_all entry_ok d"
  by (induction "\<lambda>_::string. False" recs d rule: load_entries.induct)
     (auto split: entry.splits option.splits)

lemma OperationRecord_eta [simp]:
  "\<lparr>op_ID = op_ID r, op_Status = op_Status r, op_Scope = op_Scope r\<rparr> = (r :: OperationRecord)"
  by simp

lemma load_entries_get:
  "load_entries (\<lambda>_. False) recs d = Inr recs' \<Longrightarrow> distinct (gm_keys d) \<Longrightarrow>
     gm_get recs' i =
       (case gm_get d i of
          Some (File (Some r)) \<Rightarrow> if isValidOperationFile i then Some r else gm_get recs i
        | _ \<Rightarrow> gm_get recs i)"
proof (induction d arbitrary: recs)
  case Nil
  then show ?case by simp
next
  case (Cons p d)
  obtain name e where p: "p = (name, e)" by force
  from Cons.prems(2) p have new: "gm_get d name = None" and dist: "distinct (gm_keys d)"
    by (simp_all add: map_of_eq_None_iff)
  show ?case
  proof (cases "e = Directory \<or> \<not> isValidOperationFile name")
    case True
    with Cons.prems(1) p have "load_entries (\<lambda>_. False) recs d = Inr recs'" by simp
    from Cons.IH [OF this dist] True p new show ?thesis
      by (cases "i = name") (auto split: entry.splits option.splits)
  next
    case False
    with Cons.prems(1) p obtain st where st: "e = File (Some st)" "op_ID st = name"
      and l: "load_entries (\<lambda>_. False) (gm_put name st recs) d = Inr recs'"
      by (auto split: entry.splits option.splits if_splits)
    from Cons.IH [OF l dist] False p new st show ?thesis
      by (cases "i = name") (simp_all split: entry.splits option.splits)
  qed
qed

text \<open>
  The directory states a crash inside \<open>claim\<close> can leave: nothing written yet, an
  incomplete temporary file, a complete one, the linked record beside it, and the
  record alone.
\<close>

definition claim_crash_states :: "disk \<Rightarrow> OperationRecord \<Rightarrow> string \<Rightarrow> disk list" where
  "claim_crash_states d r tmp =
     [d, gm_put tmp (File None) d, gm_put tmp (File (Some r)) d,
      gm_put tmp (File (Some r)) (gm_put (op_ID r) (File (Some r)) d),
      gm_put (op_ID r) (File (Some r)) d]"

lemma NewFileJournal_isl:
  "isl (NewFileJournal (\<lambda>_. False) d) \<longleftrightarrow> \<not> list_all entry_ok d"
  using load_entries_isl [of "[]" d] by (auto simp: NewFileJournal_def split: sum.splits)

lemma list_all_put_new:
  "gm_get d k = None \<Longrightarrow> list_all P (gm_put k v d) \<longleftrightarrow> list_all P d \<and> P (k, v)"
  by (simp add: gm_put_new gm_get_None_keys)

definition example_record :: OperationRecord where
  "example_record = \<lparr>op_ID = ''op-1'', op_Status = OperationCompleted, op_Scope = ''deploy''\<rparr>"

definition example_disk :: disk where
  "example_disk = [(''op-1'', File (Some example_record))]"

definition quiet :: shared_env where
  "quiet = \<lparr>se_proc = 0, se_restart = None,
     se_env = \<lparr>env_tmp = ''.claim-1'', env_claim = ClaimOk, env_read = False, env_write = WriteOk\<rparr>\<rparr>"

text \<open>
  C4: Reopening a directory of intact records restores exactly the durable records,
  and it keeps working after a crash before the temporary file is created or after it
  is removed; but a crash in between leaves a \<^verbatim>\<open>.claim-*\<close> file, whose name is itself a
  valid operation identity, and the journal can then not be opened at all.
\<close>

theorem journal_reopen_after_crash:
  assumes ok: "list_all entry_ok d" and dist: "distinct (gm_keys d)"
    and r: "entry_ok (op_ID r, File (Some r))"
    and tmp: "isValidOperationFile tmp" "op_ID r \<noteq> tmp"
    and new: "gm_get d tmp = None" "gm_get d (op_ID r) = None"
  shows "map (\<lambda>d'. isl (NewFileJournal (\<lambda>_. False) d')) (claim_crash_states d r tmp)
           = [False, True, True, True, False]
    \<and> (\<exists>j. NewFileJournal (\<lambda>_. False) d = Inr j \<and>
         (\<forall>i. isValidOperationFile i \<longrightarrow> gm_get (fj_records j) i =
            (case gm_get d i of Some (File (Some x)) \<Rightarrow> Some x | _ \<Rightarrow> None)))"
proof
  show "map (\<lambda>d'. isl (NewFileJournal (\<lambda>_. False) d')) (claim_crash_states d r tmp)
           = [False, True, True, True, False]"
    using ok r tmp new by (simp add: claim_crash_states_def NewFileJournal_isl list_all_put_new)
  from ok have "\<not> isl (NewFileJournal (\<lambda>_. False) d)" by (simp add: NewFileJournal_isl)
  then obtain j where j: "NewFileJournal (\<lambda>_. False) d = Inr j"
    by (cases "NewFileJournal (\<lambda>_. False) d") auto
  then have "load_entries (\<lambda>_. False) [] d = Inr (fj_records j)"
    by (auto simp: NewFileJournal_def split: sum.splits)
  from load_entries_get [OF this dist] j
  show "\<exists>j. NewFileJournal (\<lambda>_. False) d = Inr j \<and>
         (\<forall>i. isValidOperationFile i \<longrightarrow> gm_get (fj_records j) i =
            (case gm_get d i of Some (File (Some x)) \<Rightarrow> Some x | _ \<Rightarrow> None))"
    by (auto split: option.splits entry.splits)
qed

theorem journal_reopen_after_crash_witness:
  "map (\<lambda>d'. isl (NewFileJournal (\<lambda>_. False) d'))
     (claim_crash_states example_disk
        \<lparr>op_ID = ''op-2'', op_Status = OperationStarted, op_Scope = ''deploy''\<rparr> ''.claim-1'')
   = [False, True, True, True, False]"
proof -
  let ?r = "\<lparr>op_ID = ''op-2'', op_Status = OperationStarted, op_Scope = ''deploy''\<rparr>"
  have "list_all entry_ok example_disk" by code_simp
  moreover have "distinct (gm_keys example_disk)" by code_simp
  moreover have "entry_ok (op_ID ?r, File (Some ?r))" by code_simp
  moreover have "isValidOperationFile ''.claim-1''" by code_simp
  moreover have "op_ID ?r \<noteq> ''.claim-1''" by code_simp
  moreover have "gm_get example_disk ''.claim-1'' = None" by code_simp
  moreover have "gm_get example_disk (op_ID ?r) = None" by code_simp
  ultimately show ?thesis by (blast dest: journal_reopen_after_crash)
qed

end
