(* ===== verification/Plugin_Client.thy ===== *)
theory Plugin_Client
  imports Journal
begin

text \<open>
  Mutating plugin calls, \<^verbatim>\<open>internal/plugin/client.go\<close>: which methods bypass the
  journal, how a mutation is scoped, the request and response exchange with the plugin
  process, and \<^verbatim>\<open>CallWithIdempotency\<close>, the client of the
  \<^verbatim>\<open>OperationJournal\<close> port, as one call that is not interrupted. \<^verbatim>\<open>Plugin_Calls\<close> takes it
  apart for calls that interleave.
\<close>

definition isReadOnlyMethod :: "string \<Rightarrow> bool" where
  "isReadOnlyMethod m \<longleftrightarrow> m \<in> set [
     ''v1.hello'', ''v1.detect'', ''v1.freeze'', ''v1.plan'',
     ''v1.migration.discover'', ''v1.migration.inspect'', ''v1.migration.observe'',
     ''v1.migration.artifact-observe'', ''v1.migration.export'', ''v1.migration.verify'',
     ''v1.deployment.plan'', ''v1.deployment.observe'',
     ''v1.runtime.logs'', ''v1.runtime.status'',
     ''v1.analyzer.scan'', ''v1.analyzer.verify'', ''v1.registry.list'',
     ''v1.observe.net-probe'', ''v1.observe.priv-probe'', ''v1.observe.isolation-probe'',
     ''v1.observe.tmp-probe'', ''v1.observe.netns-probe'',
     ''v1.observe.memory-bomb'', ''v1.observe.fork-bomb'', ''v1.observe.env-probe'']"

section \<open>One exchange with the plugin process\<close>

text \<open>
  Parameters of a call as \<^verbatim>\<open>json.Marshal\<close> sees them: \<^verbatim>\<open>nil\<close>, a value it refuses, or
  a value with its encoding.
\<close>

datatype params = NilParams | Unencodable | Encodes string

fun json_Marshal :: "params \<Rightarrow> string option" where
  "json_Marshal NilParams = Some ''null''"
| "json_Marshal Unencodable = None"
| "json_Marshal (Encodes s) = Some s"

record Request =
  rq_ID :: string
  rq_Method :: string
  rq_Params :: "string option"
  rq_TraceID :: string
  rq_OperationID :: string

record Response =
  rs_ID :: string
  rs_TraceID :: string
  rs_OperationID :: string
  rs_Error :: "string option"
  rs_Result :: string

datatype reply = NoReply | Garbled | Reply Response

text \<open>
  What the environment decides during one call: whether the context is already
  cancelled, its trace identity, whether writing the request fails, what the plugin
  answers, and whether the result decodes into the caller's value.
\<close>

record wire =
  w_cancelled :: bool
  w_trace :: string
  w_write_fails :: bool
  w_plugin :: "Request \<Rightarrow> reply"
  w_result_decodes :: bool

datatype call_error =
    NotReadOnly | Cancelled | EncodeParams | WriteRequest | ReadResponse | DecodeResponse
  | IDMismatch | TraceMismatch | OperationMismatch | PluginError string | DecodeResult

text \<open>An error of the mutating call: \<open>preDispatchError\<close> marks that nothing was written.\<close>

datatype mutation_error = preDispatchError call_error | Plain call_error

record Client =
  c_verifiedDigest :: string
  c_hasJournal :: bool
  c_nextID :: nat

definition encode_params :: "params \<Rightarrow> call_error + string option" where
  "encode_params ps = (if ps = NilParams then Inr None
     else case json_Marshal ps of None \<Rightarrow> Inl EncodeParams | Some d \<Rightarrow> Inr (Some d))"

definition read_response :: "wire \<Rightarrow> Request \<Rightarrow> bool \<Rightarrow> bool \<Rightarrow> call_error option" where
  "read_response w req checkOperation wantsResult =
     (if w_write_fails w then Some WriteRequest
      else case w_plugin w req of
        NoReply \<Rightarrow> Some ReadResponse
      | Garbled \<Rightarrow> Some DecodeResponse
      | Reply resp \<Rightarrow>
          (if rs_ID resp \<noteq> rq_ID req then Some IDMismatch
           else if rs_TraceID resp \<noteq> rq_TraceID req then Some TraceMismatch
           else if checkOperation \<and> rs_OperationID resp \<noteq> rq_OperationID req then Some OperationMismatch
           else case rs_Error resp of
             Some e \<Rightarrow> Some (PluginError e)
           | None \<Rightarrow> (if wantsResult \<and> rs_Result resp \<noteq> [] \<and> \<not> w_result_decodes w
                      then Some DecodeResult else None)))"

text \<open>Both calls return the requests they may have put on the wire.\<close>

definition Call :: "wire \<Rightarrow> Client \<Rightarrow> string \<Rightarrow> params \<Rightarrow> bool \<Rightarrow> call_error option \<times> Client \<times> Request list" where
  "Call w c method ps wantsResult =
     (if \<not> isReadOnlyMethod method then (Some NotReadOnly, c, [])
      else if w_cancelled w then (Some Cancelled, c, [])
      else case encode_params ps of
        Inl e \<Rightarrow> (Some e, c, [])
      | Inr raw \<Rightarrow>
          (let c' = c\<lparr>c_nextID := c_nextID c + 1\<rparr>;
               req = \<lparr>rq_ID = itoa (c_nextID c'), rq_Method = method, rq_Params = raw,
                      rq_TraceID = w_trace w, rq_OperationID = []\<rparr>
           in (read_response w req False wantsResult, c', [req])))"

definition callWithOperationID ::
  "wire \<Rightarrow> Client \<Rightarrow> string \<Rightarrow> params \<Rightarrow> bool \<Rightarrow> string \<Rightarrow> mutation_error option \<times> Client \<times> Request list" where
  "callWithOperationID w c method ps wantsResult operationID =
     (if w_cancelled w then (Some (preDispatchError Cancelled), c, [])
      else case encode_params ps of
        Inl e \<Rightarrow> (Some (preDispatchError e), c, [])
      | Inr raw \<Rightarrow>
          (let c' = c\<lparr>c_nextID := c_nextID c + 1\<rparr>;
               req = \<lparr>rq_ID = itoa (c_nextID c'), rq_Method = method, rq_Params = raw,
                      rq_TraceID = w_trace w, rq_OperationID = operationID\<rparr>
           in (map_option Plain (read_response w req True wantsResult), c', [req])))"

section \<open>Journalled mutations\<close>

text \<open>\<open>sha256hex\<close> stands for the hexadecimal SHA-256 of the standard library.\<close>

definition mutationScope :: "(string \<Rightarrow> string) \<Rightarrow> string \<Rightarrow> string \<Rightarrow> params \<Rightarrow> string option" where
  "mutationScope sha256hex verifiedDigest method ps =
     (if verifiedDigest = [] then None
      else case json_Marshal ps of
        None \<Rightarrow> None
      | Some encoded \<Rightarrow>
          Some (''sha256:'' @ sha256hex (verifiedDigest @ [NUL] @ method @ [NUL] @ encoded)))"

definition classifyMutationFailure :: "mutation_error \<Rightarrow> bool" where
  "classifyMutationFailure e = (case e of preDispatchError _ \<Rightarrow> True | Plain _ \<Rightarrow> False)"

datatype client_error =
    InvalidID | NoVerifiedIdentity | ScopeError | NoJournal | IdCollision | CompletedWithoutResult
  | PreviouslyFailed | Indeterminate | StartError journal_error | CallFailed mutation_error
  | ReadFailed call_error | FailNotPersisted mutation_error | CompletionNotPersisted

record call_args =
  a_operationID :: string
  a_method :: string
  a_params :: params
  a_wantsResult :: bool

text \<open>
  \<open>startAndCall\<close> is the second half of \<^verbatim>\<open>CallWithIdempotency\<close>, from \<^verbatim>\<open>journal.Start\<close>
  on. The environment is sampled per journal operation: \<open>es\<close> for Start, \<open>ef\<close> for
  Complete or Fail.
\<close>

definition startAndCall ::
  "('e \<Rightarrow> 's \<Rightarrow> string \<Rightarrow> string \<Rightarrow> (journal_error + bool) \<times> 's) \<Rightarrow>
   ('e \<Rightarrow> 's \<Rightarrow> string \<Rightarrow> journal_error option \<times> 's) \<Rightarrow>
   ('e \<Rightarrow> 's \<Rightarrow> string \<Rightarrow> journal_error option \<times> 's) \<Rightarrow>
   'e \<times> 'e \<Rightarrow> wire \<Rightarrow> Client \<Rightarrow> 's \<Rightarrow> call_args \<Rightarrow> string \<Rightarrow>
   client_error option \<times> Client \<times> 's \<times> Request list" where
  "startAndCall st co fa env w c s a scope =
     (let i = a_operationID a; (es, ef) = env; (started, s2) = st es s i scope in
      case started of
        Inl e \<Rightarrow> (Some (StartError e), c, s2, [])
      | Inr False \<Rightarrow> (Some Indeterminate, c, s2, [])
      | Inr True \<Rightarrow>
          (let (err, c', sent) =
             callWithOperationID w c (a_method a) (a_params a) (a_wantsResult a) i in
           case err of
             Some e \<Rightarrow>
               (if \<not> classifyMutationFailure e then (Some Indeterminate, c', s2, sent)
                else let (je, s3) = fa ef s2 i
                     in (Some (if je = None then CallFailed e else FailNotPersisted e), c', s3, sent))
           | None \<Rightarrow>
               (let (je, s3) = co ef s2 i
                in (if je = None then None else Some CompletionNotPersisted, c', s3, sent))))"

definition CallWithIdempotency ::
  "('e \<Rightarrow> 's \<Rightarrow> string \<Rightarrow> OperationRecord option \<times> 's) \<Rightarrow>
   ('e \<Rightarrow> 's \<Rightarrow> string \<Rightarrow> string \<Rightarrow> (journal_error + bool) \<times> 's) \<Rightarrow>
   ('e \<Rightarrow> 's \<Rightarrow> string \<Rightarrow> journal_error option \<times> 's) \<Rightarrow>
   ('e \<Rightarrow> 's \<Rightarrow> string \<Rightarrow> journal_error option \<times> 's) \<Rightarrow>
   (string \<Rightarrow> string) \<Rightarrow> 'e \<times> 'e \<times> 'e \<Rightarrow> wire \<Rightarrow> Client \<Rightarrow> 's \<Rightarrow> call_args \<Rightarrow>
   client_error option \<times> Client \<times> 's \<times> Request list" where
  "CallWithIdempotency lk st co fa sha256hex env w c s a =
     (let i = a_operationID a in
      if isReadOnlyMethod (a_method a) then
        (let (e, c', sent) = Call w c (a_method a) (a_params a) (a_wantsResult a)
         in (map_option ReadFailed e, c', s, sent))
      else if \<not> ValidOperationID i then (Some InvalidID, c, s, [])
      else if c_verifiedDigest c = [] then (Some NoVerifiedIdentity, c, s, [])
      else case mutationScope sha256hex (c_verifiedDigest c) (a_method a) (a_params a) of
        None \<Rightarrow> (Some ScopeError, c, s, [])
      | Some scope \<Rightarrow>
          if \<not> c_hasJournal c then (Some NoJournal, c, s, [])
          else (let (found, s1) = lk (fst env) s i;
                    proceed = startAndCall st co fa (snd env) w c s1 a scope
                in case found of
                     None \<Rightarrow> proceed
                   | Some r \<Rightarrow>
                       (if op_Scope r \<noteq> scope then (Some IdCollision, c, s1, [])
                        else if op_Status r = OperationCompleted then
                          (if a_wantsResult a then Some CompletedWithoutResult else None, c, s1, [])
                        else if op_Status r = OperationFailed then (Some PreviouslyFailed, c, s1, [])
                        else if op_Status r = OperationStarted then (Some Indeterminate, c, s1, [])
                        else proceed)))"

definition mutations :: "string \<Rightarrow> Request list \<Rightarrow> nat" where
  "mutations i reqs =
     length (filter (\<lambda>q. \<not> isReadOnlyMethod (rq_Method q) \<and> rq_OperationID q = i) reqs)"

lemma mutations_simps [simp]:
  "mutations i [] = 0" "mutations i (xs @ ys) = mutations i xs + mutations i ys"
  by (simp_all add: mutations_def)

lemma Call_mutations [simp]: "mutations i (snd (snd (Call w c m ps b))) = 0"
  by (auto simp: Call_def mutations_def Let_def split: sum.splits)

lemma callWithOperationID_sent:
  "mutations i (snd (snd (callWithOperationID w c m ps b j))) \<le> (if i = j then 1 else 0)"
  by (auto simp: callWithOperationID_def mutations_def Let_def split: sum.splits)

lemma startAndCall_None:
  "fst (startAndCall st co fa env w c s a sc) = None \<Longrightarrow>
     \<exists>c' s2. let rpc = callWithOperationID w c (a_method a) (a_params a) (a_wantsResult a) (a_operationID a) in
       fst rpc = None \<and> fst (co (snd env) s2 (a_operationID a)) = None
       \<and> startAndCall st co fa env w c s a sc
           = (None, c', snd (co (snd env) s2 (a_operationID a)), snd (snd rpc))"
  by (auto simp: startAndCall_def Let_def case_prod_beta
      split: sum.splits bool.splits option.splits if_splits)

lemma callWithOperationID_None:
  assumes "fst (callWithOperationID w c m ps b i) = None"
  shows "\<exists>req resp. snd (snd (callWithOperationID w c m ps b i)) = [req] \<and> rq_Method req = m
     \<and> rq_OperationID req = i \<and> w_plugin w req = Reply resp \<and> rs_ID resp = rq_ID req
     \<and> rs_OperationID resp = i \<and> rs_Error resp = None"
  using assms
  by (auto simp: callWithOperationID_def read_response_def Let_def
      split: sum.splits if_splits reply.splits option.splits)

text \<open>
  C6: A mutating call reports success only in two cases: the journal already held a
  completed record of exactly this mutation and nothing was sent, or the plugin
  answered this very request, echoing its request and operation identities, without
  an error, and the completed record is durable.
\<close>

theorem mutation_success_is_durable:
  assumes mut: "\<not> isReadOnlyMethod (a_method a)"
    and ok: "CallWithIdempotency sh_Lookup sh_Start sh_Complete sh_Fail sha256hex env w c s a
               = (None, c', s', sent)"
  shows "(sent = [] \<and> (\<exists>r. fst (sh_Lookup (fst env) s (a_operationID a)) = Some r
             \<and> op_Status r = OperationCompleted
             \<and> mutationScope sha256hex (c_verifiedDigest c) (a_method a) (a_params a) = Some (op_Scope r)))
       \<or> (\<exists>req resp r. sent = [req] \<and> rq_Method req = a_method a
             \<and> rq_OperationID req = a_operationID a \<and> w_plugin w req = Reply resp
             \<and> rs_ID resp = rq_ID req \<and> rs_OperationID resp = a_operationID a \<and> rs_Error resp = None
             \<and> disk_record (snd s') (a_operationID a) = Some r \<and> op_Status r = OperationCompleted)"
proof -
  let ?i = "a_operationID a"
  let ?lk = "sh_Lookup (fst env) s ?i"
  obtain scope where scope:
    "mutationScope sha256hex (c_verifiedDigest c) (a_method a) (a_params a) = Some scope"
    using mut ok by (auto simp: CallWithIdempotency_def Let_def split: if_splits option.splits)
  consider (replay) r where "fst ?lk = Some r" "op_Scope r = scope"
      "op_Status r = OperationCompleted" "sent = []"
    | (sent) "startAndCall sh_Start sh_Complete sh_Fail (snd env) w c (snd ?lk) a scope
                = (None, c', s', sent)"
    using mut ok scope
    by (cases "fst ?lk") (auto simp: CallWithIdempotency_def Let_def case_prod_beta split: if_splits)
  then show ?thesis
  proof cases
    case replay
    with scope show ?thesis by auto
  next
    case sent
    with startAndCall_None [of sh_Start sh_Complete sh_Fail "snd env" w c "snd ?lk" a scope]
    obtain s2 where rpc: "fst (callWithOperationID w c (a_method a) (a_params a) (a_wantsResult a) ?i) = None"
        "sent = snd (snd (callWithOperationID w c (a_method a) (a_params a) (a_wantsResult a) ?i))"
      and fin: "fst (sh_Complete (snd (snd env)) s2 ?i) = None" "s' = snd (sh_Complete (snd (snd env)) s2 ?i)"
      by (auto simp: Let_def)
    from shared.complete_ok [OF fin(1)] fin(2)
    obtain r where "disk_record (snd s') ?i = Some r" "op_Status r = OperationCompleted" by auto
    with callWithOperationID_None [OF rpc(1)] rpc(2) show ?thesis by blast
  qed
qed

definition echo_wire :: wire where
  "echo_wire = \<lparr>w_cancelled = False, w_trace = ''t'', w_write_fails = False,
     w_plugin = (\<lambda>q. Reply \<lparr>rs_ID = rq_ID q, rs_TraceID = rq_TraceID q,
        rs_OperationID = rq_OperationID q, rs_Error = None, rs_Result = []\<rparr>),
     w_result_decodes = True\<rparr>"

definition echo_call :: call_args where
  "echo_call = \<lparr>a_operationID = ''op-9'', a_method = ''v1.deployment.apply'',
     a_params = Encodes ''{}'', a_wantsResult = False\<rparr>"

definition echo_client :: Client where
  "echo_client = \<lparr>c_verifiedDigest = ''d'', c_hasJournal = True, c_nextID = 0\<rparr>"

definition echo_result where
  "echo_result = CallWithIdempotency sh_Lookup sh_Start sh_Complete sh_Fail (\<lambda>s. ''x'')
     (quiet, quiet, quiet) echo_wire echo_client (\<lambda>_. \<lparr>fj_records = []\<rparr>, []) echo_call"

theorem mutation_success_is_durable_witness:
  "fst echo_result = None \<and> snd (snd (snd echo_result)) \<noteq> [] \<and>
   (\<exists>r. disk_record (snd (fst (snd (snd echo_result)))) ''op-9'' = Some r
      \<and> op_Status r = OperationCompleted)"
proof -
  have m: "\<not> isReadOnlyMethod (a_method echo_call)" by code_simp
  have ok: "fst echo_result = None" by code_simp
  have sent: "snd (snd (snd echo_result)) \<noteq> []" by code_simp
  have i: "a_operationID echo_call = ''op-9''" by code_simp
  obtain c' s' sent' where e: "echo_result = (None, c', s', sent')"
    using ok by (metis prod.collapse)
  from mutation_success_is_durable [OF m e [unfolded echo_result_def]] sent i
  show ?thesis by (auto simp: e)
qed

end
