(* ===== verification/Shared_Journal.thy ===== *)
theory Shared_Journal
  imports Journal
begin

text \<open>
  The file journal under interference: \<^verbatim>\<open>internal/idempotency/file.go\<close> and
  \<^verbatim>\<open>internal/atomicfile/write.go\<close> one system call at a time. The mutex of a
  \<^verbatim>\<open>FileJournal\<close> keeps the methods of one instance apart, but nothing keeps apart the
  instances of several processes on the same directory: between any two system calls of one
  of them the others may run, and a process may be killed. \<open>advance\<close> is one system call
  of the method that holds the mutex, \<open>jstep\<close> the interleaving. A crash here is the death of a
  process; the loss of unsynced data in a power failure is not modelled.
\<close>

section \<open>One system call\<close>

text \<open>
  Where a method stands: which call it makes next, with the values it holds. The stages of
  \<open>claim\<close> start with \<open>Claim\<close>, those of \<^verbatim>\<open>atomicfile.Write\<close> with \<open>Put\<close>; \<open>ClaimUndo\<close> and
  \<open>PutUndo\<close> are the deferred \<^verbatim>\<open>os.Remove\<close>.
\<close>

datatype stage =
    LookupLoad string
  | StartCached string string
  | ClaimCreate OperationRecord
  | ClaimFill OperationRecord string
  | ClaimLink OperationRecord string
  | ClaimUnlink OperationRecord string
  | ClaimSync OperationRecord
  | ClaimUndo OperationRecord string bool
  | StartReload OperationRecord
  | FinishLoad string string
  | PutCreate OperationRecord
  | PutFill OperationRecord string
  | PutRename OperationRecord string
  | PutSync OperationRecord string
  | PutUndo OperationRecord string bool

text \<open>What the environment decides of a system call; \<open>Named\<close> is the name \<^verbatim>\<open>os.CreateTemp\<close> picks.\<close>

datatype sys = SysOk | SysFails | Named string

datatype answer =
    LookupAnswer string "OperationRecord option"
  | StartAnswer string "journal_error + bool"
  | FinishAnswer string "journal_error option"

definition remember :: "OperationRecord \<Rightarrow> FileJournal \<Rightarrow> FileJournal" where
  "remember r j = j\<lparr>fj_records := gm_put (op_ID r) r (fj_records j)\<rparr>"

text \<open>\<^verbatim>\<open>os.CreateTemp\<close> opens with \<^verbatim>\<open>O_EXCL\<close>: it never returns a name that exists.\<close>

definition create_temp :: "string \<Rightarrow> sys \<Rightarrow> disk \<Rightarrow> string option" where
  "create_temp pre y d =
     (case y of Named t \<Rightarrow> if has_prefix t pre \<and> lstat d t = None then Some t else None | _ \<Rightarrow> None)"

fun entry_stage :: "jcall \<Rightarrow> stage" where
  "entry_stage (JLookup i) = LookupLoad i"
| "entry_stage (JStart i sc) = StartCached i sc"
| "entry_stage (JComplete i) = FinishLoad i OperationCompleted"
| "entry_stage (JFail i) = FinishLoad i OperationFailed"

text \<open>
  \<open>advance\<close> makes the next system call and either answers or moves on. It returns the cache
  and the directory as well.
\<close>

fun advance :: "sys \<Rightarrow> stage \<Rightarrow> FileJournal \<Rightarrow> disk \<Rightarrow> (answer + stage) \<times> FileJournal \<times> disk" where
  "advance y (LookupLoad i) j d =
     (case loadRecord d i (y = SysFails) of
        Inl _ \<Rightarrow> (Inl (LookupAnswer i None), j, d)
      | Inr r \<Rightarrow> (Inl (LookupAnswer i (Some r)), remember r j, d))"
| "advance y (StartCached i sc) j d =
     (if \<not> isValidOperationFile i then (Inl (StartAnswer i (Inl (InvalidOperationID i))), j, d)
      else if sc = [] then (Inl (StartAnswer i (Inl ScopeRequired)), j, d)
      else case gm_get (fj_records j) i of
        Some existing \<Rightarrow>
          (Inl (StartAnswer i (if op_Scope existing \<noteq> sc then Inl (ScopeCollision i) else Inr False)), j, d)
      | None \<Rightarrow> (Inr (ClaimCreate \<lparr>op_ID = i, op_Status = OperationStarted, op_Scope = sc\<rparr>), j, d))"
| "advance y (ClaimCreate r) j d =
     (case create_temp ''.claim-'' y d of
        None \<Rightarrow> (Inl (StartAnswer (op_ID r) (Inl PersistFailed)), j, d)
      | Some t \<Rightarrow> (Inr (ClaimFill r t), j, gm_put t (File None) d))"
| "advance y (ClaimFill r t) j d =
     (if y = SysFails then (Inr (ClaimUndo r t False), j, d)
      else (Inr (ClaimLink r t), j, gm_put t (File (Some r)) d))"
| "advance y (ClaimLink r t) j d =
     (if y = SysFails then (Inr (ClaimUndo r t False), j, d)
      else if lstat d (op_ID r) \<noteq> None then (Inr (ClaimUndo r t True), j, d)
      else case lstat d t of
        None \<Rightarrow> (Inr (ClaimUndo r t False), j, d)
      | Some e \<Rightarrow> (Inr (ClaimUnlink r t), j, gm_put (op_ID r) e d))"
| "advance y (ClaimUnlink r t) j d =
     (if y = SysFails \<or> lstat d t = None then (Inr (ClaimUndo r t False), j, d)
      else (Inr (ClaimSync r), j, gm_del t d))"
| "advance y (ClaimSync r) j d =
     (if y = SysFails then (Inl (StartAnswer (op_ID r) (Inl PersistFailed)), j, d)
      else (Inl (StartAnswer (op_ID r) (Inr True)), remember r j, d))"
| "advance y (ClaimUndo r t taken) j d =
     (if taken then Inr (StartReload r) else Inl (StartAnswer (op_ID r) (Inl PersistFailed)), j,
      if y = SysFails then d else gm_del t d)"
| "advance y (StartReload r) j d =
     (case loadRecord d (op_ID r) (y = SysFails) of
        Inl _ \<Rightarrow> (Inl (StartAnswer (op_ID r) (Inl LoadFailed)), j, d)
      | Inr existing \<Rightarrow>
          (Inl (StartAnswer (op_ID r)
             (if op_Scope existing \<noteq> op_Scope r then Inl (ScopeCollision (op_ID r)) else Inr False)),
           remember existing j, d))"
| "advance y (FinishLoad i status) j d =
     (case loadRecord d i (y = SysFails) of
        Inl NotExist \<Rightarrow> (Inl (FinishAnswer i (Some (NeverStarted i))), j, d)
      | Inl _ \<Rightarrow> (Inl (FinishAnswer i (Some LoadFailed)), j, d)
      | Inr existing \<Rightarrow>
          (if op_Status existing \<noteq> OperationStarted
           then (Inl (FinishAnswer i (Some (AlreadyFinished i (op_Status existing)))), j, d)
           else (Inr (PutCreate \<lparr>op_ID = i, op_Status = status, op_Scope = op_Scope existing\<rparr>), j, d)))"
| "advance y (PutCreate r) j d =
     (if op_ID r = [] \<or> filepath_Base (op_ID r) \<noteq> op_ID r
      then (Inl (FinishAnswer (op_ID r) (Some PersistFailed)), j, d)
      else case create_temp ''.atomic-'' y d of
        None \<Rightarrow> (Inl (FinishAnswer (op_ID r) (Some PersistFailed)), j, d)
      | Some t \<Rightarrow> (Inr (PutFill r t), j, gm_put t (File None) d))"
| "advance y (PutFill r t) j d =
     (if y = SysFails then (Inr (PutUndo r t False), j, d)
      else (Inr (PutRename r t), j, gm_put t (File (Some r)) d))"
| "advance y (PutRename r t) j d =
     (if y = SysFails \<or> lstat d (op_ID r) = Some Directory then (Inr (PutUndo r t False), j, d)
      else case lstat d t of
        None \<Rightarrow> (Inr (PutUndo r t False), j, d)
      | Some e \<Rightarrow> (Inr (PutSync r t), j, gm_put (op_ID r) e (gm_del t d)))"
| "advance y (PutSync r t) j d = (Inr (PutUndo r t (y \<noteq> SysFails)), j, d)"
| "advance y (PutUndo r t ok) j d =
     (Inl (FinishAnswer (op_ID r) (if ok then None else Some PersistFailed)),
      if ok then remember r j else j, if y = SysFails then d else gm_del t d)"

section \<open>Instances and processes\<close>

text \<open>
  \<open>jw_stage w n\<close> is the method running on instance \<open>n\<close> with the caller it will answer, or
  \<open>None\<close> when the mutex is free. A process that dies releases its mutex and leaves the
  directory as it is; its successor's cache is whatever \<^verbatim>\<open>load\<close> read, and since \<^verbatim>\<open>load\<close> reads
  file by file while others write, any cache is allowed for.
\<close>

record journal_world =
  jw_disk :: disk
  jw_cache :: "nat \<Rightarrow> FileJournal"
  jw_stage :: "nat \<Rightarrow> (nat \<times> stage) option"

datatype jlabel = Begins nat nat jcall | Moves nat | Answers nat nat answer | Dies nat

inductive jstep :: "journal_world \<Rightarrow> jlabel \<Rightarrow> journal_world \<Rightarrow> bool" where
  begins: "jw_stage w n = None \<Longrightarrow>
    jstep w (Begins n k c) (w\<lparr>jw_stage := (jw_stage w)(n \<mapsto> (k, entry_stage c))\<rparr>)"
| moves: "jw_stage w n = Some (k, st) \<Longrightarrow> advance y st (jw_cache w n) (jw_disk w) = (Inr st', j, d) \<Longrightarrow>
    jstep w (Moves n) \<lparr>jw_disk = d, jw_cache = (jw_cache w)(n := j), jw_stage = (jw_stage w)(n \<mapsto> (k, st'))\<rparr>"
| answers: "jw_stage w n = Some (k, st) \<Longrightarrow> advance y st (jw_cache w n) (jw_disk w) = (Inl a, j, d) \<Longrightarrow>
    jstep w (Answers n k a) \<lparr>jw_disk = d, jw_cache = (jw_cache w)(n := j), jw_stage = (jw_stage w)(n := None)\<rparr>"
| dies: "jstep w (Dies n) (w\<lparr>jw_cache := (jw_cache w)(n := j), jw_stage := (jw_stage w)(n := None)\<rparr>)"

inductive jruns :: "journal_world \<Rightarrow> jlabel list \<Rightarrow> journal_world \<Rightarrow> bool" where
  nothing: "jruns w [] w"
| then_step: "jstep w l w' \<Longrightarrow> jruns w' ls w'' \<Longrightarrow> jruns w (l # ls) w''"

inductive_cases jstep_cases: "jstep w l w'"

definition quiescent :: "journal_world \<Rightarrow> bool" where
  "quiescent w \<longleftrightarrow> (\<forall>n. jw_stage w n = None)"

text \<open>The names the temporary files have. \<^verbatim>\<open>ValidOperationID\<close> does not exclude them.\<close>

definition temporary :: "string \<Rightarrow> bool" where
  "temporary i \<longleftrightarrow> has_prefix i ''.claim-'' \<or> has_prefix i ''.atomic-''"

definition wins :: "string \<Rightarrow> jlabel \<Rightarrow> nat" where
  "wins i l = (case l of Answers n k (StartAnswer i' r) \<Rightarrow> if i' = i \<and> r = Inr True then 1 else 0 | _ \<Rightarrow> 0)"

section \<open>What one step can do to an entry\<close>

fun holds_temp :: "stage \<Rightarrow> bool" where
  "holds_temp (ClaimFill r t) = temporary t"
| "holds_temp (ClaimLink r t) = temporary t"
| "holds_temp (ClaimUnlink r t) = temporary t"
| "holds_temp (ClaimUndo r t b) = temporary t"
| "holds_temp (PutFill r t) = temporary t"
| "holds_temp (PutRename r t) = temporary t"
| "holds_temp (PutSync r t) = temporary t"
| "holds_temp (PutUndo r t b) = temporary t"
| "holds_temp _ = True"

text \<open>A Start that has linked its record and not answered yet.\<close>

fun linked :: "string \<Rightarrow> stage \<Rightarrow> bool" where
  "linked i (ClaimUnlink r t) = (op_ID r = i)"
| "linked i (ClaimSync r) = (op_ID r = i)"
| "linked i _ = False"

text \<open>A Complete or Fail that has read its record and not answered yet.\<close>

fun past_load :: "string \<Rightarrow> stage \<Rightarrow> bool" where
  "past_load i (PutCreate r) = (op_ID r = i)"
| "past_load i (PutFill r t) = (op_ID r = i)"
| "past_load i (PutRename r t) = (op_ID r = i)"
| "past_load i (PutSync r t) = (op_ID r = i)"
| "past_load i (PutUndo r t b) = (op_ID r = i)"
| "past_load i _ = False"

lemma lstat_del: "n \<noteq> name \<Longrightarrow> lstat (gm_del name d) n = lstat d n"
  by (simp add: lstat_def)

lemma lstat_put_other: "n \<noteq> name \<Longrightarrow> lstat (gm_put name e d) n = lstat d n"
  by (simp add: lstat_def)

lemma lstat_put_same: "lstat (gm_put name e d) name \<noteq> None"
  by (simp add: lstat_def)

lemma create_temp_Some: "create_temp pre y d = Some t \<Longrightarrow> has_prefix t pre \<and> lstat d t = None"
  by (auto simp: create_temp_def split: sys.splits if_splits)

lemmas entry_frame = lstat_del lstat_put_other lstat_put_same

lemma advance_holds_temp:
  "advance y st j d = (Inr st', j', d') \<Longrightarrow> holds_temp st \<Longrightarrow> holds_temp st'"
  by (cases st) (auto simp: temporary_def dest!: create_temp_Some
      split: sum.splits io_error.splits option.splits if_splits)

lemma advance_keeps:
  "advance y st j d = (x, j', d') \<Longrightarrow> holds_temp st \<Longrightarrow> \<not> temporary i \<Longrightarrow> lstat d i \<noteq> None \<Longrightarrow>
     lstat d' i \<noteq> None"
  by (cases st) (auto simp: temporary_def lstat_def dest!: create_temp_Some
      split: sum.splits io_error.splits option.splits if_splits)

lemma advance_frame:
  "advance y st j d = (x, j', d') \<Longrightarrow> holds_temp st \<Longrightarrow> \<not> temporary i \<Longrightarrow> lstat d i \<noteq> None \<Longrightarrow>
     \<not> past_load i st \<Longrightarrow> lstat d' i = lstat d i"
  by (cases st) (auto simp: temporary_def lstat_def dest!: create_temp_Some
      split: sum.splits io_error.splits option.splits if_splits)

lemma advance_linked:
  "advance y st j d = (Inr st', j', d') \<Longrightarrow> linked i st' \<Longrightarrow>
     linked i st \<or> lstat d i = None \<and> lstat d' i \<noteq> None"
  by (cases st) (auto simp: lstat_def
      split: sum.splits io_error.splits option.splits if_splits)

lemma advance_wins: "advance y st j d = (Inl (StartAnswer i (Inr True)), j', d') \<Longrightarrow> linked i st"
  by (cases st) (auto split: sum.splits io_error.splits option.splits if_splits)

lemma advance_past_load:
  "advance y st j d = (Inr st', j', d') \<Longrightarrow> past_load i st' \<Longrightarrow> \<not> past_load i st \<Longrightarrow>
     \<exists>r. disk_record d i = Some r \<and> op_Status r = OperationStarted"
  by (cases st) (auto simp: disk_record_Some loadRecord_Inr
      split: sum.splits io_error.splits option.splits if_splits)

lemma advance_finish_ok: "advance y st j d = (Inl (FinishAnswer i None), j', d') \<Longrightarrow> past_load i st"
  by (cases st) (auto split: sum.splits io_error.splits option.splits if_splits)

lemma advance_lookup:
  "advance y st j d = (Inl (LookupAnswer i (Some r)), j', d') \<Longrightarrow> disk_record d i = Some r"
  by (cases st) (auto simp: disk_record_Some loadRecord_Inr
      split: sum.splits io_error.splits option.splits if_splits)

section \<open>Every interleaving\<close>

text \<open>
  \<open>coherent\<close>: temporary files have temporary names, and at most one instance is between
  linking the record of \<open>i\<close> and answering, which requires the record to be there.
  \<open>claims_left\<close> bounds the answers \<^verbatim>\<open>true\<close> still to come for \<open>i\<close>.
\<close>

definition in_stage :: "(stage \<Rightarrow> bool) \<Rightarrow> journal_world \<Rightarrow> nat \<Rightarrow> bool" where
  "in_stage P w n \<longleftrightarrow> (\<exists>k st. jw_stage w n = Some (k, st) \<and> P st)"

definition temps_named :: "journal_world \<Rightarrow> bool" where
  "temps_named w \<longleftrightarrow> (\<forall>n k st. jw_stage w n = Some (k, st) \<longrightarrow> holds_temp st)"

definition coherent :: "string \<Rightarrow> journal_world \<Rightarrow> bool" where
  "coherent i w \<longleftrightarrow> temps_named w
     \<and> (\<forall>n. in_stage (linked i) w n \<longrightarrow> lstat (jw_disk w) i \<noteq> None
              \<and> (\<forall>m. in_stage (linked i) w m \<longrightarrow> m = n))"

definition claims_left :: "string \<Rightarrow> journal_world \<Rightarrow> nat" where
  "claims_left i w =
     (if lstat (jw_disk w) i = None \<or> (\<exists>n. in_stage (linked i) w n) then 1 else 0)"

lemma quiescent_coherent: "quiescent w \<Longrightarrow> coherent i w"
  by (simp add: quiescent_def coherent_def temps_named_def in_stage_def)

lemma quiescent_claims_left:
  "quiescent w \<Longrightarrow> claims_left i w = (if lstat (jw_disk w) i = None then 1 else 0)"
  by (simp add: quiescent_def claims_left_def in_stage_def)

lemma in_stage_upd:
  "in_stage P (w\<lparr>jw_stage := (jw_stage w)(n := x)\<rparr>) m \<longleftrightarrow>
     (if m = n then \<exists>k st. x = Some (k, st) \<and> P st else in_stage P w m)"
  "in_stage P \<lparr>jw_disk = d, jw_cache = c, jw_stage = (jw_stage w)(n := x)\<rparr> m \<longleftrightarrow>
     (if m = n then \<exists>k st. x = Some (k, st) \<and> P st else in_stage P w m)"
  "in_stage P (w\<lparr>jw_cache := c, jw_stage := (jw_stage w)(n := x)\<rparr>) m \<longleftrightarrow>
     (if m = n then \<exists>k st. x = Some (k, st) \<and> P st else in_stage P w m)"
  by (auto simp: in_stage_def)

lemma entry_stage_plain [simp]:
  "holds_temp (entry_stage c)" "\<not> linked i (entry_stage c)" "\<not> past_load i (entry_stage c)"
  by (cases c; simp)+

lemma jstep_temps: "jstep w l w' \<Longrightarrow> temps_named w \<Longrightarrow> temps_named w'"
  by (induction rule: jstep.induct)
     (auto simp: temps_named_def dest: advance_holds_temp split: if_splits)

lemma coherent_update:
  assumes c: "coherent i w" and t: "temps_named w'"
    and keep: "lstat (jw_disk w) i \<noteq> None \<Longrightarrow> lstat (jw_disk w') i \<noteq> None"
    and others: "\<And>m. m \<noteq> n \<Longrightarrow> in_stage (linked i) w' m = in_stage (linked i) w m"
    and this_one: "in_stage (linked i) w' n \<Longrightarrow> in_stage (linked i) w n
          \<or> lstat (jw_disk w) i = None \<and> lstat (jw_disk w') i \<noteq> None"
    and won: "x \<noteq> 0 \<Longrightarrow> x = 1 \<and> in_stage (linked i) w n \<and> \<not> in_stage (linked i) w' n"
  shows "coherent i w' \<and> x + claims_left i w' \<le> claims_left i w"
proof
  have uniq: "lstat (jw_disk w) i \<noteq> None \<and> m = n'"
    if "in_stage (linked i) w m" "in_stage (linked i) w n'" for m n'
    using c that by (auto simp: coherent_def)
  show "coherent i w'"
    unfolding coherent_def using t keep others this_one uniq by metis
  show "x + claims_left i w' \<le> claims_left i w"
  proof (cases "x = 0")
    case True
    have "lstat (jw_disk w) i = None \<or> (\<exists>m. in_stage (linked i) w m)"
      if "lstat (jw_disk w') i = None \<or> (\<exists>m. in_stage (linked i) w' m)"
      using that keep others this_one by metis
    then have "claims_left i w' \<le> claims_left i w" by (simp add: claims_left_def)
    with True show ?thesis by simp
  next
    case False
    with won have x: "x = 1" "in_stage (linked i) w n" "\<not> in_stage (linked i) w' n" by auto
    have "\<not> in_stage (linked i) w' m" for m using x(2,3) others uniq by metis
    moreover have "lstat (jw_disk w') i \<noteq> None" using keep uniq x(2) by blast
    ultimately have "claims_left i w' = 0" by (simp add: claims_left_def)
    then show ?thesis using x by (auto simp: claims_left_def)
  qed
qed

lemma jstep_claims:
  assumes "jstep w l w'" and "coherent i w" and "\<not> temporary i"
  shows "coherent i w' \<and> wins i l + claims_left i w' \<le> claims_left i w"
proof -
  have temps: "temps_named w" using assms(2) by (simp add: coherent_def)
  note upd = coherent_update [OF assms(2) jstep_temps [OF assms(1) temps]]
  from assms(1) show ?thesis
  proof (cases rule: jstep.cases)
    case (begins n k c)
    then show ?thesis by (intro upd [where n = n]) (auto simp: in_stage_upd wins_def)
  next
    case (dies n j)
    then show ?thesis by (intro upd [where n = n]) (auto simp: in_stage_upd wins_def)
  next
    case (moves n k st y st' j d)
    have h: "holds_temp st" using moves(3) temps by (auto simp: temps_named_def)
    have l: "in_stage (linked i) w n" if "linked i st" using that moves(3) by (auto simp: in_stage_def)
    have "in_stage (linked i) w n \<or> lstat (jw_disk w) i = None \<and> lstat d i \<noteq> None" if "linked i st'"
      using advance_linked [OF moves(4) that] l by blast
    then show ?thesis
      using advance_keeps [OF moves(4) h assms(3)]
      by (intro upd [where n = n]) (simp_all add: moves(1,2) in_stage_upd wins_def)
  next
    case (answers n k st y a j d)
    have h: "holds_temp st" using answers(3) temps by (auto simp: temps_named_def)
    have won: "wins i l = 1 \<and> in_stage (linked i) w n" if "wins i l \<noteq> 0"
    proof -
      from that answers(1) have a: "a = StartAnswer i (Inr True)" "wins i l = 1"
        by (auto simp: wins_def split: answer.splits if_splits)
      with advance_wins [OF answers(4) [unfolded a]] answers(3) show ?thesis
        by (auto simp: in_stage_def)
    qed
    show ?thesis
      using advance_keeps [OF answers(4) h assms(3)] won
      by (intro upd [where n = n]) (simp_all add: answers(2) in_stage_upd)
  qed
qed

lemma jruns_claims:
  "jruns w ls w' \<Longrightarrow> coherent i w \<Longrightarrow> \<not> temporary i \<Longrightarrow>
     coherent i w' \<and> (\<Sum>l\<leftarrow>ls. wins i l) + claims_left i w' \<le> claims_left i w"
  by (induction rule: jruns.induct) (auto dest: jstep_claims)

text \<open>
  \<open>settled\<close>: the record of \<open>i\<close> is terminal and no Complete or Fail of it is past its load.
\<close>

definition settled_record :: "string \<Rightarrow> OperationRecord \<Rightarrow> journal_world \<Rightarrow> bool" where
  "settled_record i r w \<longleftrightarrow> temps_named w \<and> disk_record (jw_disk w) i = Some r
     \<and> op_Status r \<noteq> OperationStarted \<and> (\<forall>n. \<not> in_stage (past_load i) w n)"

definition contradicts :: "string \<Rightarrow> OperationRecord \<Rightarrow> jlabel \<Rightarrow> bool" where
  "contradicts i r l \<longleftrightarrow> (case l of
      Answers n k (FinishAnswer i' None) \<Rightarrow> i' = i
    | Answers n k (LookupAnswer i' (Some r')) \<Rightarrow> i' = i \<and> r' \<noteq> r
    | _ \<Rightarrow> False)"

lemma advance_settled:
  assumes "advance y st j d = (x, j', d')" and "holds_temp st" and "\<not> temporary i"
    and "disk_record d i = Some r" and "op_Status r \<noteq> OperationStarted" and "\<not> past_load i st"
  shows "disk_record d' i = Some r \<and> (\<forall>st'. x = Inr st' \<longrightarrow> \<not> past_load i st')
    \<and> x \<noteq> Inl (FinishAnswer i None) \<and> (\<forall>r'. x = Inl (LookupAnswer i (Some r')) \<longrightarrow> r' = r)"
proof (intro conjI allI impI notI)
  from assms(4) have "lstat d i \<noteq> None" by (simp add: disk_record_Some)
  from advance_frame [OF assms(1-3) this assms(6)] assms(4)
  show "disk_record d' i = Some r" by (simp add: disk_record_Some)
  show False if "x = Inr st'" "past_load i st'" for st'
    using advance_past_load [OF assms(1) [unfolded that(1)] that(2) assms(6)] assms(4,5) by auto
  show False if "x = Inl (FinishAnswer i None)"
    using advance_finish_ok [OF assms(1) [unfolded that]] assms(6) by simp
  show "r' = r" if "x = Inl (LookupAnswer i (Some r'))" for r'
    using advance_lookup [OF assms(1) [unfolded that]] assms(4) by simp
qed

lemma jstep_settled:
  assumes "jstep w l w'" and "settled_record i r w" and "\<not> temporary i"
  shows "settled_record i r w' \<and> \<not> contradicts i r l"
proof -
  have temps: "temps_named w" "temps_named w'"
    using assms(2) jstep_temps [OF assms(1)] by (simp_all add: settled_record_def)
  have in_n: "holds_temp st \<and> \<not> past_load i st" if "jw_stage w n = Some (k, st)" for n k st
    using assms(2) that by (auto simp: settled_record_def temps_named_def in_stage_def)
  from assms(1) show ?thesis
  proof (cases rule: jstep.cases)
    case (moves n k st y st' j d)
    note st = in_n [OF moves(3)]
    from advance_settled [OF moves(4) _ assms(3), of r] st assms(2) temps(2) moves show ?thesis
      by (auto simp: settled_record_def in_stage_upd contradicts_def)
  next
    case (answers n k st y a j d)
    note st = in_n [OF answers(3)]
    from advance_settled [OF answers(4) _ assms(3), of r] st assms(2) temps(2) answers show ?thesis
      by (auto simp: settled_record_def in_stage_upd contradicts_def split: answer.splits option.splits)
  qed (use assms(2) temps(2) in \<open>auto simp: settled_record_def in_stage_upd contradicts_def\<close>)
qed

lemma jruns_settled:
  "jruns w ls w' \<Longrightarrow> settled_record i r w \<Longrightarrow> \<not> temporary i \<Longrightarrow>
     settled_record i r w' \<and> (\<forall>l\<in>set ls. \<not> contradicts i r l)"
  by (induction rule: jruns.induct) (auto dest: jstep_settled)

lemma jruns_temps: "jruns w ls w' \<Longrightarrow> temps_named w \<Longrightarrow> temps_named w'"
  by (induction rule: jruns.induct) (auto dest: jstep_temps)

text \<open>
  C2: However the system calls of Lookup, Start, Complete and Fail of any number of
  instances in any number of processes interleave on one directory, whatever system calls
  fail and whenever processes die and restart, Start answers true at most once for an
  operation identity, and never for one that has an entry at the beginning. The identity
  must not have the name of a temporary file.
\<close>

theorem journal_exactly_once:
  assumes "quiescent w" and "jruns w ls w'" and "\<not> temporary i"
  shows "(\<Sum>l\<leftarrow>ls. wins i l) \<le> (if lstat (jw_disk w) i \<noteq> None then 0 else 1)"
  using jruns_claims [OF assms(2) quiescent_coherent [OF assms(1)] assms(3)]
    quiescent_claims_left [OF assms(1), of i] by (auto split: if_splits)


section \<open>Schedules\<close>

text \<open>Runs by a schedule: each entry names the instance that makes the next system call.\<close>

fun play :: "journal_world \<Rightarrow> (nat \<times> sys) list \<Rightarrow> jlabel list \<times> journal_world" where
  "play w [] = ([], w)"
| "play w ((n, y) # s) =
     (case jw_stage w n of
        None \<Rightarrow> play w s
      | Some (k, st) \<Rightarrow>
          (case advance y st (jw_cache w n) (jw_disk w) of
             (Inr st', j, d) \<Rightarrow>
               (let p = play \<lparr>jw_disk = d, jw_cache = (jw_cache w)(n := j),
                              jw_stage = (jw_stage w)(n \<mapsto> (k, st'))\<rparr> s
                in (Moves n # fst p, snd p))
           | (Inl a, j, d) \<Rightarrow>
               (let p = play \<lparr>jw_disk = d, jw_cache = (jw_cache w)(n := j),
                              jw_stage = (jw_stage w)(n := None)\<rparr> s
                in (Answers n k a # fst p, snd p))))"

lemma play_runs: "jruns w (fst (play w s)) (snd (play w s))"
  by (induction w s rule: play.induct)
     (auto simp: Let_def intro: jruns.intros jstep.intros split: option.splits sum.splits prod.splits)

definition start_disk :: disk where
  "start_disk = [(''op-1'', File (Some \<lparr>op_ID = ''op-1'', op_Status = OperationStarted, op_Scope = ''deploy''\<rparr>))]"

definition idle_world :: "disk \<Rightarrow> journal_world" where
  "idle_world d = \<lparr>jw_disk = d, jw_cache = (\<lambda>_. \<lparr>fj_records = []\<rparr>), jw_stage = (\<lambda>_. None)\<rparr>"

lemma idle_world_quiescent [simp]: "quiescent (idle_world d)"
  by (simp add: quiescent_def idle_world_def)

lemma idle_world_disk [simp]: "jw_disk (idle_world d) = d"
  by (simp add: idle_world_def)

definition with_calls :: "journal_world \<Rightarrow> jcall \<Rightarrow> jcall \<Rightarrow> journal_world" where
  "with_calls w a b = w\<lparr>jw_stage := (jw_stage w)(0 \<mapsto> (0, entry_stage a), 1 \<mapsto> (1, entry_stage b))\<rparr>"

lemma with_calls_runs:
  "quiescent w \<Longrightarrow> jruns (with_calls w a b) ls w' \<Longrightarrow> jruns w (Begins 0 0 a # Begins 1 1 b # ls) w'"
  using jstep.begins [of w 0 0 a]
    jstep.begins [of "w\<lparr>jw_stage := (jw_stage w)(0 \<mapsto> (0, entry_stage a))\<rparr>" 1 1 b]
  by (auto simp: quiescent_def with_calls_def intro: jruns.intros)

definition two_starts :: "jlabel list \<times> journal_world" where
  "two_starts = play (with_calls (idle_world []) (JStart ''op-1'' ''deploy'') (JStart ''op-1'' ''deploy''))
     [(0, SysOk), (1, SysOk), (0, Named ''.claim-1''), (1, Named ''.claim-2''), (0, SysOk), (1, SysOk),
      (1, SysOk), (0, SysOk), (0, SysOk), (1, SysOk), (0, SysOk), (1, SysOk)]"

theorem journal_exactly_once_witness:
  "jruns (idle_world []) (Begins 0 0 (JStart ''op-1'' ''deploy'') # Begins 1 1 (JStart ''op-1'' ''deploy'')
      # fst two_starts) (snd two_starts)
   \<and> Answers 1 1 (StartAnswer ''op-1'' (Inr True)) \<in> set (fst two_starts)
   \<and> Answers 0 0 (StartAnswer ''op-1'' (Inr False)) \<in> set (fst two_starts)
   \<and> (\<Sum>l\<leftarrow>fst two_starts. wins ''op-1'' l) \<le> 1"
proof -
  have r: "jruns (idle_world []) (Begins 0 0 (JStart ''op-1'' ''deploy'')
      # Begins 1 1 (JStart ''op-1'' ''deploy'') # fst two_starts) (snd two_starts)"
    unfolding two_starts_def by (intro with_calls_runs idle_world_quiescent play_runs)
  have a: "Answers 1 1 (StartAnswer ''op-1'' (Inr True)) \<in> set (fst two_starts)" by code_simp
  have b: "Answers 0 0 (StartAnswer ''op-1'' (Inr False)) \<in> set (fst two_starts)" by code_simp
  have t: "\<not> temporary ''op-1''" by code_simp
  from journal_exactly_once [OF idle_world_quiescent r t] r a b show ?thesis by (simp add: wins_def lstat_def)
qed

definition done_world :: journal_world where
  "done_world = with_calls (idle_world example_disk) (JFail ''op-1'') (JLookup ''op-1'')"

definition late_fail :: "jlabel list \<times> journal_world" where
  "late_fail = play done_world [(1, SysOk), (0, SysOk)]"


definition racing_finishes :: "jlabel list \<times> journal_world" where
  "racing_finishes = play (with_calls (idle_world start_disk) (JComplete ''op-1'') (JFail ''op-1''))
     ([(0, SysOk), (1, SysOk), (0, Named ''.atomic-1'')] @ replicate 4 (0, SysOk)
      @ [(1, Named ''.atomic-2'')] @ replicate 4 (1, SysOk))"

text \<open>
  Complete and Fail are not write-once across processes. Two processes that share the
  directory can both read the started record and then both write: Complete and Fail of the same
  identity both report success, and the durable outcome is that of the later write.
\<close>

theorem finish_race:
  "jruns (idle_world start_disk)
     (Begins 0 0 (JComplete ''op-1'') # Begins 1 1 (JFail ''op-1'') # fst racing_finishes)
     (snd racing_finishes)
   \<and> Answers 0 0 (FinishAnswer ''op-1'' None) \<in> set (fst racing_finishes)
   \<and> Answers 1 1 (FinishAnswer ''op-1'' None) \<in> set (fst racing_finishes)
   \<and> map_option op_Status (disk_record (jw_disk (snd racing_finishes)) ''op-1'') = Some OperationFailed"
proof (intro conjI)
  show "jruns (idle_world start_disk)
     (Begins 0 0 (JComplete ''op-1'') # Begins 1 1 (JFail ''op-1'') # fst racing_finishes)
     (snd racing_finishes)"
    unfolding racing_finishes_def by (intro with_calls_runs idle_world_quiescent play_runs)
qed code_simp+

section \<open>A method that is not interrupted\<close>

fun complete_call :: "sys list \<Rightarrow> stage \<Rightarrow> FileJournal \<Rightarrow> disk \<Rightarrow> (answer \<times> FileJournal \<times> disk) option" where
  "complete_call [] st j d = None"
| "complete_call (y # ys) st j d =
     (case advance y st j d of
        (Inl a, j', d') \<Rightarrow> Some (a, j', d')
      | (Inr st', j', d') \<Rightarrow> complete_call ys st' j' d')"

text \<open>The results of the system calls that make up the faults of one uninterrupted method.\<close>

fun claim_calls :: "claim_fault \<Rightarrow> string \<Rightarrow> sys list" where
  "claim_calls ClaimOk t = [SysOk, Named t, SysOk, SysOk, SysOk, SysOk]"
| "claim_calls FailsBeforeLink t = [SysOk, SysFails]"
| "claim_calls RemoveFails t = [SysOk, Named t, SysOk, SysOk, SysFails, SysFails]"
| "claim_calls SyncFails t = [SysOk, Named t, SysOk, SysOk, SysOk, SysFails]"

fun write_calls :: "write_fault \<Rightarrow> string \<Rightarrow> sys list" where
  "write_calls WriteOk t = [SysOk, Named t, SysOk, SysOk, SysOk, SysOk]"
| "write_calls FailsBeforeRename t = [SysOk, SysFails]"
| "write_calls FailsAfterRename t = [SysOk, Named t, SysOk, SysOk, SysFails, SysOk]"

lemma temporary_name: "has_prefix t ''.claim-'' \<or> has_prefix t ''.atomic-'' \<Longrightarrow> t \<noteq> ''.'' \<and> t \<noteq> ''..''"
  by (auto simp: has_prefix_def)

lemma finish_uninterrupted:
  assumes t: "has_prefix t ''.atomic-''" "lstat d t = None" and i: "\<not> temporary i" and "\<not> env_read env"
  shows "\<exists>d'. complete_call (write_calls (env_write env) t) (FinishLoad i st) j d
     = Some (FinishAnswer i (fst (fj_finish env (j, d) i st)), fst (snd (fj_finish env (j, d) i st)), d')
     \<and> lstat d' = lstat (snd (snd (fj_finish env (j, d) i st)))"
proof (cases "loadRecord d i False")
  case (Inl e)
  with assms(4) show ?thesis by (cases e; cases "env_write env") (simp_all add: fj_finish_def)
next
  case (Inr r)
  from t i have ti: "t \<noteq> i" "t \<noteq> ''.'' \<and> t \<noteq> ''..''"
    using temporary_name [of t] by (auto simp: temporary_def)
  from Inr have l: "lstat d i = Some (File (Some r))" by (simp add: loadRecord_Inr)
  then have "i \<noteq> ''.'' \<and> i \<noteq> ''..''" by (auto simp: lstat_def split: if_splits)
  with Inr l assms(4) t ti show ?thesis
    by (cases "env_write env") (auto simp: fj_finish_def Let_def Write_def create_temp_def remember_def lstat_def fun_eq_iff)
qed

lemma start_uninterrupted:
  assumes t: "has_prefix t ''.claim-''" "lstat d t = None" "env_tmp env = t" and i: "\<not> temporary i"
  shows "\<exists>ys d'. complete_call ys (StartCached i sc) j d
     = Some (StartAnswer i (fst (fj_Start env (j, d) i sc)), fst (snd (fj_Start env (j, d) i sc)), d')
     \<and> lstat d' = lstat (snd (snd (fj_Start env (j, d) i sc)))"
proof (cases "isValidOperationFile i \<and> sc \<noteq> [] \<and> gm_get (fj_records j) i = None")
  case False
  then show ?thesis by (intro exI [of _ "[SysOk]"]) (auto simp: fj_Start_def split: option.splits)
next
  case True
  let ?r = "\<lparr>op_ID = i, op_Status = OperationStarted, op_Scope = sc\<rparr>"
  from t i have ti: "t \<noteq> i" "t \<noteq> ''.'' \<and> t \<noteq> ''..''"
    using temporary_name [of t] by (auto simp: temporary_def)
  show ?thesis
  proof (cases "lstat d i = None \<or> env_claim env = FailsBeforeLink")
    case new: True
    from new have n: "i \<noteq> ''.'' \<and> i \<noteq> ''..''" if "env_claim env \<noteq> FailsBeforeLink"
      using that by (auto simp: lstat_def split: if_splits)
    show ?thesis
      using True new n t ti
      by (intro exI [of _ "claim_calls (env_claim env) t"], cases "env_claim env")
         (auto simp: fj_Start_def claim_def Let_def create_temp_def remember_def lstat_def fun_eq_iff)
  next
    case taken: False
    let ?ys = "[SysOk, Named t, SysOk, SysOk, SysOk, if env_read env then SysFails else SysOk]"
    have c: "claim d ?r (env_tmp env) (env_claim env) = (Some Exist, d)"
      using taken t by (simp add: claim_def)
    have f: "lstat (gm_del t (gm_put t (File (Some ?r)) (gm_put t (File None) d))) = lstat d"
      using t(2) by (auto simp: lstat_def fun_eq_iff)
    then have ld: "loadRecord (gm_del t (gm_put t (File (Some ?r)) (gm_put t (File None) d))) i b
        = loadRecord d i b" for b
      by (simp add: loadRecord_def)
    have li: "lstat (gm_put t (File (Some ?r)) (gm_put t (File None) d)) i \<noteq> None"
      using taken by (auto simp: lstat_def)
    have id_of: "loadRecord d i b = Inr e \<Longrightarrow> op_ID e = i" for b e by (simp add: loadRecord_Inr)
    have "complete_call ?ys (StartCached i sc) j d =
        Some (StartAnswer i (fst (fj_Start env (j, d) i sc)), fst (snd (fj_Start env (j, d) i sc)),
          gm_del t (gm_put t (File (Some ?r)) (gm_put t (File None) d)))"
      using True t c ld li id_of
      by (cases "env_read env"; cases "loadRecord d i (env_read env)")
         (simp_all add: fj_Start_def Let_def create_temp_def remember_def)
    moreover have "snd (snd (fj_Start env (j, d) i sc)) = d"
      using True c by (auto simp: fj_Start_def Let_def split: sum.split)
    ultimately show ?thesis using f by (metis)
  qed
qed

lemma lookup_uninterrupted:
  "complete_call [if env_read env then SysFails else SysOk] (LookupLoad i) j d
     = Some (LookupAnswer i (fst (fj_Lookup env (j, d) i)), snd (fj_Lookup env (j, d) i))"
proof (cases "loadRecord d i (env_read env)")
  case (Inl e)
  then show ?thesis by (cases "env_read env") (simp_all add: fj_Lookup_def)
next
  case (Inr r)
  then have "\<not> env_read env \<and> op_ID r = i" by (simp add: loadRecord_Inr)
  with Inr show ?thesis by (simp add: fj_Lookup_def remember_def)
qed

end
