(* ===== verification/Plugin_Calls.thy ===== *)
theory Plugin_Calls
  imports Plugin_Client Shared_Journal
begin

text \<open>
  Mutating plugin calls that overlap: \<^verbatim>\<open>CallWithIdempotency\<close> of
  \<^verbatim>\<open>internal/plugin/client.go\<close> holds no lock over its steps, so other calls of the same or of
  other processes run between its Lookup, its Start, the exchange with the plugin and its
  Complete or Fail, and the process may die at any of these points. The code between two
  journal calls is one definition each; \<open>cstep\<close> interleaves them over the system calls of
  \<^verbatim>\<open>Shared_Journal\<close>.
\<close>

section \<open>The code between the journal calls\<close>

text \<open>Up to \<^verbatim>\<open>journal.Lookup\<close>: an error, a read-only call, or a mutation with its scope.\<close>

datatype prepared = ReadOnly | Mutation string

definition prepare :: "(string \<Rightarrow> string) \<Rightarrow> Client \<Rightarrow> call_args \<Rightarrow> client_error + prepared" where
  "prepare sha256hex c a =
     (if isReadOnlyMethod (a_method a) then Inr ReadOnly
      else if \<not> ValidOperationID (a_operationID a) then Inl InvalidID
      else if c_verifiedDigest c = [] then Inl NoVerifiedIdentity
      else case mutationScope sha256hex (c_verifiedDigest c) (a_method a) (a_params a) of
        None \<Rightarrow> Inl ScopeError
      | Some scope \<Rightarrow> if \<not> c_hasJournal c then Inl NoJournal else Inr (Mutation scope))"

text \<open>From the answer of Lookup to \<^verbatim>\<open>journal.Start\<close>: the call returns or goes on.\<close>

definition after_lookup :: "call_args \<Rightarrow> string \<Rightarrow> OperationRecord option \<Rightarrow> client_error option + unit" where
  "after_lookup a scope found =
     (case found of
        None \<Rightarrow> Inr ()
      | Some r \<Rightarrow>
          (if op_Scope r \<noteq> scope then Inl (Some IdCollision)
           else if op_Status r = OperationCompleted then
             Inl (if a_wantsResult a then Some CompletedWithoutResult else None)
           else if op_Status r = OperationFailed then Inl (Some PreviouslyFailed)
           else if op_Status r = OperationStarted then Inl (Some Indeterminate)
           else Inr ()))"

definition after_start :: "journal_error + bool \<Rightarrow> client_error option + unit" where
  "after_start started =
     (case started of
        Inl e \<Rightarrow> Inl (Some (StartError e))
      | Inr False \<Rightarrow> Inl (Some Indeterminate)
      | Inr True \<Rightarrow> Inr ())"

definition after_exchange :: "string \<Rightarrow> mutation_error option \<Rightarrow> client_error option + jcall" where
  "after_exchange i err =
     (case err of
        None \<Rightarrow> Inr (JComplete i)
      | Some e \<Rightarrow> if \<not> classifyMutationFailure e then Inl (Some Indeterminate) else Inr (JFail i))"

definition after_finish :: "mutation_error option \<Rightarrow> journal_error option \<Rightarrow> client_error option" where
  "after_finish err je =
     (case err of
        None \<Rightarrow> if je = None then None else Some CompletionNotPersisted
      | Some e \<Rightarrow> Some (if je = None then CallFailed e else FailNotPersisted e))"

text \<open>The pieces put together again are \<^verbatim>\<open>CallWithIdempotency\<close> of one undisturbed call.\<close>

lemma startAndCall_pieces:
  "startAndCall st co fa env w c s a scope =
     (let i = a_operationID a; b = st (fst env) s i scope in
      case after_start (fst b) of
        Inl res \<Rightarrow> (res, c, snd b, [])
      | Inr _ \<Rightarrow>
          (let x = callWithOperationID w c (a_method a) (a_params a) (a_wantsResult a) i in
           case after_exchange i (fst x) of
             Inl res \<Rightarrow> (res, fst (snd x), snd b, snd (snd x))
           | Inr fin \<Rightarrow>
               (let f = (if fin = JComplete i then co else fa) (snd env) (snd b) i
                in (after_finish (fst x) (fst f), fst (snd x), snd f, snd (snd x)))))"
  by (simp add: startAndCall_def after_start_def after_exchange_def after_finish_def Let_def case_prod_beta
      split: sum.split bool.split option.split)

lemma CallWithIdempotency_pieces:
  "CallWithIdempotency lk st co fa h env w c s a =
     (case prepare h c a of
        Inl e \<Rightarrow> (Some e, c, s, [])
      | Inr ReadOnly \<Rightarrow>
          (let r = Call w c (a_method a) (a_params a) (a_wantsResult a)
           in (map_option ReadFailed (fst r), fst (snd r), s, snd (snd r)))
      | Inr (Mutation scope) \<Rightarrow>
          (let l = lk (fst env) s (a_operationID a) in
           case after_lookup a scope (fst l) of
             Inl res \<Rightarrow> (res, c, snd l, [])
           | Inr _ \<Rightarrow> startAndCall st co fa (snd env) w c (snd l) a scope))"
  by (simp add: CallWithIdempotency_def prepare_def after_lookup_def Let_def case_prod_beta
      split: option.split)

section \<open>Interleaved calls\<close>

text \<open>
  Where a call stands. \<open>To\<close> stages are about to call the journal, \<open>In\<close> stages wait for its
  answer; \<open>Dispatching\<close> has been told \<^verbatim>\<open>started\<close> and is about to write its request.
\<close>

datatype call_stage =
    Reading | ToLookup string | InLookup string | ToStart string | InStart string
  | Dispatching | ToFinish jcall "mutation_error option" | InFinish "mutation_error option"

record live_call =
  lc_client :: nat
  lc_args :: call_args
  lc_at :: call_stage

text \<open>
  \<open>cw_sent\<close> lists every request written to a plugin since the beginning.
\<close>

record calls_world =
  cw_journal :: journal_world
  cw_clients :: "nat \<Rightarrow> Client"
  cw_calls :: "nat \<Rightarrow> live_call option"
  cw_sent :: "Request list"

definition moved :: "calls_world \<Rightarrow> nat \<Rightarrow> live_call \<Rightarrow> 'r + call_stage \<Rightarrow> nat \<Rightarrow> live_call option" where
  "moved w k lc next =
     (cw_calls w)(k := (case next of Inl _ \<Rightarrow> None | Inr st \<Rightarrow> Some (lc\<lparr>lc_at := st\<rparr>)))"

definition map_next :: "('a \<Rightarrow> 'b) \<Rightarrow> 'r + 'a \<Rightarrow> 'r + 'b" where
  "map_next f x = map_sum id f x"

definition first_stage :: "prepared \<Rightarrow> call_stage" where
  "first_stage p = (case p of ReadOnly \<Rightarrow> Reading | Mutation scope \<Rightarrow> ToLookup scope)"

text \<open>
  The steps, for the digest \<open>h\<close> and with the journal instance \<open>uses c\<close> of every client \<open>c\<close>. The
  exchange is one step: what the plugin answers is decided when the request is written, and
  dying before the answer arrives is dying after the step. \<open>others\<close> lets a journal run on and
  lets code outside these calls use it; \<open>crashes\<close> kills the process of an instance with all
  its calls and clients, and \<open>reconnects\<close> replaces a client.
\<close>

inductive cstep :: "(string \<Rightarrow> string) \<Rightarrow> (nat \<Rightarrow> nat) \<Rightarrow> calls_world \<Rightarrow> calls_world \<Rightarrow> bool"
  for h :: "string \<Rightarrow> string" and uses :: "nat \<Rightarrow> nat" where
  enters: "cw_calls w k = None \<Longrightarrow> (\<forall>n st. jw_stage (cw_journal w) n \<noteq> Some (k, st)) \<Longrightarrow>
    cstep h uses w (w\<lparr>cw_calls := moved w k \<lparr>lc_client = c, lc_args = a, lc_at = Reading\<rparr>
      (map_next first_stage (prepare h (cw_clients w c) a))\<rparr>)"
| reads: "cw_calls w k = Some lc \<Longrightarrow> lc_at lc = Reading \<Longrightarrow>
    Call e (cw_clients w (lc_client lc)) (a_method (lc_args lc)) (a_params (lc_args lc))
      (a_wantsResult (lc_args lc)) = (err, c', reqs) \<Longrightarrow>
    cstep h uses w (w\<lparr>cw_clients := (cw_clients w)(lc_client lc := c'), cw_calls := (cw_calls w)(k := None),
      cw_sent := cw_sent w @ reqs\<rparr>)"
| looks_up: "cw_calls w k = Some lc \<Longrightarrow> lc_at lc = ToLookup sc \<Longrightarrow>
    jstep (cw_journal w) (Begins (uses (lc_client lc)) k (JLookup (a_operationID (lc_args lc)))) j \<Longrightarrow>
    cstep h uses w (w\<lparr>cw_journal := j, cw_calls := (cw_calls w)(k \<mapsto> lc\<lparr>lc_at := InLookup sc\<rparr>)\<rparr>)"
| found: "cw_calls w k = Some lc \<Longrightarrow> lc_at lc = InLookup sc \<Longrightarrow>
    jstep (cw_journal w) (Answers (uses (lc_client lc)) k (LookupAnswer (a_operationID (lc_args lc)) r)) j \<Longrightarrow>
    cstep h uses w (w\<lparr>cw_journal := j,
      cw_calls := moved w k lc (map_next (\<lambda>_. ToStart sc) (after_lookup (lc_args lc) sc r))\<rparr>)"
| starts: "cw_calls w k = Some lc \<Longrightarrow> lc_at lc = ToStart sc \<Longrightarrow>
    jstep (cw_journal w) (Begins (uses (lc_client lc)) k (JStart (a_operationID (lc_args lc)) sc)) j \<Longrightarrow>
    cstep h uses w (w\<lparr>cw_journal := j, cw_calls := (cw_calls w)(k \<mapsto> lc\<lparr>lc_at := InStart sc\<rparr>)\<rparr>)"
| told: "cw_calls w k = Some lc \<Longrightarrow> lc_at lc = InStart sc \<Longrightarrow>
    jstep (cw_journal w) (Answers (uses (lc_client lc)) k (StartAnswer (a_operationID (lc_args lc)) res)) j \<Longrightarrow>
    cstep h uses w (w\<lparr>cw_journal := j,
      cw_calls := moved w k lc (map_next (\<lambda>_. Dispatching) (after_start res))\<rparr>)"
| sends: "cw_calls w k = Some lc \<Longrightarrow> lc_at lc = Dispatching \<Longrightarrow>
    callWithOperationID e (cw_clients w (lc_client lc)) (a_method (lc_args lc)) (a_params (lc_args lc))
      (a_wantsResult (lc_args lc)) (a_operationID (lc_args lc)) = (err, c', reqs) \<Longrightarrow>
    cstep h uses w (w\<lparr>cw_clients := (cw_clients w)(lc_client lc := c'),
      cw_calls := moved w k lc (map_next (\<lambda>fin. ToFinish fin err) (after_exchange (a_operationID (lc_args lc)) err)),
      cw_sent := cw_sent w @ reqs\<rparr>)"
| finishes: "cw_calls w k = Some lc \<Longrightarrow> lc_at lc = ToFinish fin err \<Longrightarrow>
    jstep (cw_journal w) (Begins (uses (lc_client lc)) k fin) j \<Longrightarrow>
    cstep h uses w (w\<lparr>cw_journal := j, cw_calls := (cw_calls w)(k \<mapsto> lc\<lparr>lc_at := InFinish err\<rparr>)\<rparr>)"
| returns: "cw_calls w k = Some lc \<Longrightarrow> lc_at lc = InFinish err \<Longrightarrow>
    jstep (cw_journal w) (Answers (uses (lc_client lc)) k (FinishAnswer (a_operationID (lc_args lc)) je)) j \<Longrightarrow>
    cstep h uses w (w\<lparr>cw_journal := j, cw_calls := (cw_calls w)(k := None)\<rparr>)"
| others: "jstep (cw_journal w) l j \<Longrightarrow>
    (case l of Begins n k c \<Rightarrow> cw_calls w k = None | Answers n k a \<Rightarrow> cw_calls w k = None
       | Moves n \<Rightarrow> True | Dies n \<Rightarrow> False) \<Longrightarrow>
    cstep h uses w (w\<lparr>cw_journal := j\<rparr>)"
| crashes: "jstep (cw_journal w) (Dies n) j \<Longrightarrow>
    cstep h uses w (w\<lparr>cw_journal := j,
      cw_calls := (\<lambda>k. case cw_calls w k of Some lc \<Rightarrow> if uses (lc_client lc) = n then None else Some lc | None \<Rightarrow> None)\<rparr>)"
| reconnects: "cstep h uses w (w\<lparr>cw_clients := (cw_clients w)(c := c')\<rparr>)"

section \<open>At most one request\<close>

definition dispatching :: "string \<Rightarrow> calls_world \<Rightarrow> nat \<Rightarrow> bool" where
  "dispatching i w k \<longleftrightarrow>
     (\<exists>lc. cw_calls w k = Some lc \<and> lc_at lc = Dispatching \<and> a_operationID (lc_args lc) = i)"

text \<open>
  \<open>sends_left\<close> bounds the mutating requests of \<open>i\<close> that may still be written: one for a call
  that has been told \<^verbatim>\<open>started\<close>, or one for an answer \<^verbatim>\<open>true\<close> still to come.
\<close>

definition sends_left :: "string \<Rightarrow> calls_world \<Rightarrow> nat" where
  "sends_left i w = (if \<exists>k. dispatching i w k then 1 else 0) + claims_left i (cw_journal w)"

definition once :: "string \<Rightarrow> calls_world \<Rightarrow> bool" where
  "once i w \<longleftrightarrow> coherent i (cw_journal w)
     \<and> (\<forall>k k'. dispatching i w k \<longrightarrow> dispatching i w k' \<longrightarrow> k = k') \<and> sends_left i w \<le> 1"

lemma once_update:
  assumes o: "once i w" and c: "coherent i (cw_journal w')"
    and won: "won + claims_left i (cw_journal w') \<le> claims_left i (cw_journal w)"
    and others: "\<And>m. m \<noteq> k \<Longrightarrow> dispatching i w' m \<Longrightarrow> dispatching i w m"
    and this_one: "dispatching i w' k \<Longrightarrow> dispatching i w k \<or> 0 < won"
    and new: "x \<le> 1" "x \<noteq> 0 \<Longrightarrow> dispatching i w k \<and> \<not> dispatching i w' k"
  shows "once i w' \<and> x + sends_left i w' \<le> sends_left i w"
proof (cases "0 < won")
  case True
  then have cl: "0 < claims_left i (cw_journal w)" using won by simp
  then have none: "\<not> dispatching i w m" for m using o by (auto simp: once_def sends_left_def split: if_splits)
  then have only: "m = k" if "dispatching i w' m" for m using that others by blast
  have "x = 0" using new none by blast
  moreover have "sends_left i w' \<le> 1 + claims_left i (cw_journal w')" by (simp add: sends_left_def)
  ultimately have "x + sends_left i w' \<le> sends_left i w"
    using won True none by (simp add: sends_left_def)
  with o c only show ?thesis by (auto simp: once_def)
next
  case False
  then have sub: "dispatching i w m" if "dispatching i w' m" for m
    using that others this_one by (cases "m = k") auto
  have uniq: "m = n" if "dispatching i w m" "dispatching i w n" for m n
    using that o by (auto simp: once_def)
  have "x + sends_left i w' \<le> sends_left i w"
  proof (cases "x = 0")
    case True
    then show ?thesis using won sub by (auto simp: sends_left_def)
  next
    case False
    with new have k: "dispatching i w k" "\<not> dispatching i w' k" by auto
    then have "\<not> dispatching i w' m" for m using sub uniq by metis
    with k(1) new(1) won show ?thesis by (auto simp: sends_left_def)
  qed
  with o c sub uniq show ?thesis by (auto simp: once_def)
qed

lemma moved_at:
  "moved w k lc (map_next f x) m = (if m = k then (case x of Inl _ \<Rightarrow> None | Inr y \<Rightarrow> Some (lc\<lparr>lc_at := f y\<rparr>)) else cw_calls w m)"
  by (auto simp: moved_def map_next_def split: sum.splits)

lemma wins_other [simp]: "wins i (Begins n k c) = 0" "wins i (Moves n) = 0" "wins i (Dies n) = 0"
  "wins i (Answers n k (LookupAnswer j r)) = 0" "wins i (Answers n k (FinishAnswer j e)) = 0"
  by (simp_all add: wins_def)

lemma callWithOperationID_mutations:
  "callWithOperationID e c m ps b i = (err, c', reqs) \<Longrightarrow> mutations j reqs \<le> (if j = i then 1 else 0)"
  using callWithOperationID_sent [of j e c m ps b i] by simp

lemma once_quiet:
  assumes "once i w" and "coherent i (cw_journal w')" and "claims_left i (cw_journal w') \<le> claims_left i (cw_journal w)"
    and "\<And>m. dispatching i w' m \<Longrightarrow> dispatching i w m" and "mutations i (cw_sent w') = mutations i (cw_sent w)"
  shows "once i w' \<and> mutations i (cw_sent w') + sends_left i w' \<le> mutations i (cw_sent w) + sends_left i w"
  using once_update [of i w w' 0 undefined 0] assms by auto

lemma cstep_once:
  assumes "cstep h uses w w'" and o: "once i w" and t: "\<not> temporary i"
  shows "once i w' \<and> mutations i (cw_sent w') + sends_left i w' \<le> mutations i (cw_sent w) + sends_left i w"
proof -
  have c: "coherent i (cw_journal w)" using o by (simp add: once_def)
  note j = jstep_claims [OF _ c t] and q = once_quiet [OF o]
  note simps = dispatching_def moved_at first_stage_def
  note splits = sum.splits prepared.splits if_splits option.splits
  from assms(1) show ?thesis
  proof (cases rule: cstep.cases)
    case (enters k c' a)
    with c show ?thesis by (intro q) (auto simp: simps split: splits)
  next
    case (reads k lc e err c' reqs)
    have "mutations i reqs = 0"
      using Call_mutations [of i e "cw_clients w (lc_client lc)"] reads(4) by (metis snd_conv)
    with reads c show ?thesis by (intro q) (auto simp: simps split: splits)
  next
    case (told k lc sc res j')
    have "once i w' \<and> 0 + sends_left i w' \<le> sends_left i w"
      by (rule once_update [OF o, where k = k and
            won = "wins i (Answers (uses (lc_client lc)) k (StartAnswer (a_operationID (lc_args lc)) res))"])
         (use told j [OF told(4)] in
           \<open>auto simp: simps after_start_def wins_def split: if_splits sum.splits bool.splits\<close>)
    with told show ?thesis by simp
  next
    case (sends k lc e err c' reqs)
    have m: "mutations i reqs \<le> 1" "mutations i reqs \<noteq> 0 \<Longrightarrow> i = a_operationID (lc_args lc)"
      using callWithOperationID_mutations [OF sends(4), of i] by (auto split: if_splits)
    have "once i w' \<and> mutations i reqs + sends_left i w' \<le> sends_left i w"
      by (rule once_update [OF o, where won = 0 and k = k]) (use sends c m in \<open>auto simp: simps split: splits\<close>)
    with sends show ?thesis by simp
  next
    case (reconnects c' c'')
    with c show ?thesis by (intro q) (auto simp: simps)
  next
    case (others l j')
    with j [OF others(2)] show ?thesis by (intro q) (auto simp: simps)
  next
    case (looks_up k lc sc j')
    with j [OF looks_up(4)] show ?thesis by (intro q) (auto simp: simps split: splits)
  next
    case (found k lc sc r j')
    with j [OF found(4)] show ?thesis by (intro q) (auto simp: simps split: splits)
  next
    case (starts k lc sc j')
    with j [OF starts(4)] show ?thesis by (intro q) (auto simp: simps split: splits)
  next
    case (finishes k lc fin err j')
    with j [OF finishes(4)] show ?thesis by (intro q) (auto simp: simps split: splits)
  next
    case (returns k lc err je j')
    with j [OF returns(4)] show ?thesis by (intro q) (auto simp: simps split: splits)
  next
    case (crashes n j')
    with j [OF crashes(2)] show ?thesis by (intro q) (auto simp: simps split: splits)
  qed
qed

lemma csteps_once:
  "(cstep h uses)\<^sup>*\<^sup>* w w' \<Longrightarrow> once i w \<Longrightarrow> \<not> temporary i \<Longrightarrow>
     once i w' \<and> mutations i (cw_sent w') + sends_left i w' \<le> mutations i (cw_sent w) + sends_left i w"
  by (induction rule: rtranclp_induct) (auto dest: cstep_once)

text \<open>
  C5: However many clients, in however many processes, issue plugin calls over one journal
  directory, however the steps of these calls and the system calls of their journals
  interleave, and whatever fails or dies midway, at most one mutating request is ever written
  to a plugin for an operation identity, and none for an identity that has an entry at the
  beginning. The identity must not have the name of a temporary file.
\<close>

theorem mutation_sent_at_most_once:
  assumes "quiescent (cw_journal w)" and "\<forall>k. cw_calls w k = None" and "cw_sent w = []"
    and "(cstep sha256hex uses)\<^sup>*\<^sup>* w w'" and "\<not> temporary i"
  shows "mutations i (cw_sent w') \<le> (if lstat (jw_disk (cw_journal w)) i \<noteq> None then 0 else 1)"
proof -
  have "\<not> dispatching i w k" for k using assms(2) by (simp add: dispatching_def)
  then have l: "sends_left i w = (if lstat (jw_disk (cw_journal w)) i \<noteq> None then 0 else 1)"
    and o: "once i w"
    using quiescent_claims_left [OF assms(1), of i] quiescent_coherent [OF assms(1), of i]
    by (auto simp: sends_left_def once_def)
  from csteps_once [OF assms(4) o assms(5)] l assms(3) show ?thesis by simp
qed

text \<open>A run in which one call gets as far as its request, with everything else at rest.\<close>

definition lone_call :: "call_stage \<Rightarrow> (nat \<times> stage) option \<Rightarrow> disk \<Rightarrow> calls_world \<Rightarrow> bool" where
  "lone_call c st d w \<longleftrightarrow> cw_calls w 0 = Some \<lparr>lc_client = 0, lc_args = echo_call, lc_at = c\<rparr>
     \<and> jw_stage (cw_journal w) 0 = st \<and> jw_disk (cw_journal w) = d
     \<and> jw_cache (cw_journal w) 0 = \<lparr>fj_records = []\<rparr> \<and> cw_clients w 0 = echo_client \<and> cw_sent w = []"

abbreviation echo_steps :: "calls_world \<Rightarrow> calls_world \<Rightarrow> bool" where
  "echo_steps \<equiv> cstep (\<lambda>_. ''x'') (\<lambda>_. 0)"

lemma lone_move:
  assumes "lone_call c (Some (0, st)) d w"
    and "advance y st \<lparr>fj_records = []\<rparr> d = (Inr st', \<lparr>fj_records = []\<rparr>, d')"
  shows "\<exists>w'. echo_steps w w' \<and> lone_call c (Some (0, st')) d' w'"
proof -
  have "jstep (cw_journal w) (Moves 0) \<lparr>jw_disk = d', jw_cache = (jw_cache (cw_journal w))(0 := \<lparr>fj_records = []\<rparr>),
      jw_stage = (jw_stage (cw_journal w))(0 \<mapsto> (0, st'))\<rparr>"
    by (rule jstep.moves) (use assms in \<open>auto simp: lone_call_def\<close>)
  from cstep.others [OF this] assms(1) show ?thesis
    by (intro exI conjI) (auto simp: lone_call_def)
qed

definition idle_calls :: calls_world where
  "idle_calls = \<lparr>cw_journal = idle_world [], cw_clients = (\<lambda>_. echo_client), cw_calls = (\<lambda>_. None), cw_sent = []\<rparr>"

lemma lone_enter: "\<exists>w. echo_steps idle_calls w \<and> lone_call (ToLookup ''sha256:x'') None [] w"
proof -
  have p: "prepare (\<lambda>_. ''x'') echo_client echo_call = Inr (Mutation ''sha256:x'')" by code_simp
  show ?thesis
    using cstep.enters [of idle_calls 0 "\<lambda>_. ''x''" "\<lambda>_. 0" 0 echo_call] p
    by (intro exI conjI) (auto simp: lone_call_def idle_calls_def idle_world_def moved_at first_stage_def)
qed

lemma echo_id [simp]: "a_operationID echo_call = ''op-9''"
  by (simp add: echo_call_def)

lemma lone_ask:
  assumes "lone_call c None d w"
    and "c = ToLookup sc \<and> c' = InLookup sc \<and> jc = JLookup ''op-9'' \<or>
         c = ToStart sc \<and> c' = InStart sc \<and> jc = JStart ''op-9'' sc"
  shows "\<exists>w'. echo_steps w w' \<and> lone_call c' (Some (0, entry_stage jc)) d w'"
proof -
  have j: "jstep (cw_journal w) (Begins 0 0 jc)
      ((cw_journal w)\<lparr>jw_stage := (jw_stage (cw_journal w))(0 \<mapsto> (0, entry_stage jc))\<rparr>)"
    by (rule jstep.begins) (use assms(1) in \<open>simp add: lone_call_def\<close>)
  from assms(2) show ?thesis
  proof
    assume c: "c = ToLookup sc \<and> c' = InLookup sc \<and> jc = JLookup ''op-9''"
    with j assms(1) cstep.looks_up [of w 0 "\<lparr>lc_client = 0, lc_args = echo_call, lc_at = c\<rparr>" sc "\<lambda>_. 0"]
    show ?thesis by (intro exI conjI) (auto simp: lone_call_def)
  next
    assume c: "c = ToStart sc \<and> c' = InStart sc \<and> jc = JStart ''op-9'' sc"
    with j assms(1) cstep.starts [of w 0 "\<lparr>lc_client = 0, lc_args = echo_call, lc_at = c\<rparr>" sc "\<lambda>_. 0"]
    show ?thesis by (intro exI conjI) (auto simp: lone_call_def)
  qed
qed

lemma lone_found:
  assumes "lone_call (InLookup sc) (Some (0, LookupLoad ''op-9'')) [] w"
  shows "\<exists>w'. echo_steps w w' \<and> lone_call (ToStart sc) None [] w'"
proof -
  have "jstep (cw_journal w) (Answers 0 0 (LookupAnswer ''op-9'' None))
      \<lparr>jw_disk = [], jw_cache = (jw_cache (cw_journal w))(0 := \<lparr>fj_records = []\<rparr>),
       jw_stage = (jw_stage (cw_journal w))(0 := None)\<rparr>"
    by (rule jstep.answers [where y = SysOk]) (use assms in \<open>auto simp: lone_call_def loadRecord_def lstat_def\<close>)
  with assms cstep.found [of w 0 "\<lparr>lc_client = 0, lc_args = echo_call, lc_at = InLookup sc\<rparr>" sc "\<lambda>_. 0" None]
  show ?thesis by (intro exI conjI) (auto simp: lone_call_def moved_at after_lookup_def)
qed

lemma lone_told:
  assumes "lone_call (InStart sc) (Some (0, ClaimSync r)) d w" and "op_ID r = ''op-9''"
  shows "\<exists>w' w''. echo_steps w w' \<and> echo_steps w' w'' \<and> mutations ''op-9'' (cw_sent w'') = 1"
proof -
  let ?j = "\<lparr>jw_disk = d, jw_cache = (jw_cache (cw_journal w))(0 := remember r \<lparr>fj_records = []\<rparr>),
       jw_stage = (jw_stage (cw_journal w))(0 := None)\<rparr>"
  let ?lc = "\<lparr>lc_client = 0, lc_args = echo_call, lc_at = InStart sc\<rparr>"
  let ?w = "w\<lparr>cw_journal := ?j, cw_calls := moved w 0 ?lc (map_next (\<lambda>_. Dispatching) (after_start (Inr True)))\<rparr>"
  let ?x = "callWithOperationID echo_wire echo_client (a_method echo_call) (a_params echo_call)
      (a_wantsResult echo_call) ''op-9''"
  have "jstep (cw_journal w) (Answers 0 0 (StartAnswer ''op-9'' (Inr True))) ?j"
    by (rule jstep.answers [where y = SysOk]) (use assms in \<open>auto simp: lone_call_def\<close>)
  then have s1: "echo_steps w ?w"
    using assms(1) by (intro cstep.told [where k = 0]) (auto simp: lone_call_def)
  have m: "mutations ''op-9'' (snd (snd ?x)) = 1" by code_simp
  have c: "cw_calls ?w 0 = Some (?lc\<lparr>lc_at := Dispatching\<rparr>)" "cw_clients ?w 0 = echo_client" "cw_sent ?w = []"
    using assms(1) by (auto simp: moved_at after_start_def lone_call_def)
  have s2: "echo_steps ?w (?w\<lparr>cw_clients := (cw_clients ?w)(0 := fst (snd ?x)),
      cw_calls := moved ?w 0 (?lc\<lparr>lc_at := Dispatching\<rparr>) (map_next (\<lambda>fin. ToFinish fin (fst ?x)) (after_exchange ''op-9'' (fst ?x))),
      cw_sent := cw_sent ?w @ snd (snd ?x)\<rparr>)"
    using cstep.sends [OF c(1), where e = echo_wire and err = "fst ?x" and c' = "fst (snd ?x)" and reqs = "snd (snd ?x)"] c(2)
    by simp
  show ?thesis by (rule exI, rule exI, rule conjI [OF s1 conjI [OF s2]]) (use m c(3) in simp)
qed

theorem mutation_sent_at_most_once_witness:
  "\<exists>w'. (echo_steps)\<^sup>*\<^sup>* idle_calls w' \<and> mutations ''op-9'' (cw_sent w') = 1
     \<and> mutations ''op-9'' (cw_sent w') \<le> 1"
proof -
  let ?r = "\<lparr>op_ID = ''op-9'', op_Status = OperationStarted, op_Scope = ''sha256:x''\<rparr>"
  let ?d = "[(''.claim-1'', File (Some ?r)), (''op-9'', File (Some ?r))]"
  have valid: "isValidOperationFile ''op-9''" by code_simp
  obtain w1 where w1: "echo_steps idle_calls w1" "lone_call (ToLookup ''sha256:x'') None [] w1"
    using lone_enter by blast
  obtain w2 where w2: "echo_steps w1 w2" "lone_call (InLookup ''sha256:x'') (Some (0, LookupLoad ''op-9'')) [] w2"
    using lone_ask [OF w1(2)] by force
  obtain w3 where w3: "echo_steps w2 w3" "lone_call (ToStart ''sha256:x'') None [] w3"
    using lone_found [OF w2(2)] by blast
  obtain w4 where w4: "echo_steps w3 w4" "lone_call (InStart ''sha256:x'') (Some (0, StartCached ''op-9'' ''sha256:x'')) [] w4"
    using lone_ask [OF w3(2)] by force
  obtain w5 where w5: "echo_steps w4 w5" "lone_call (InStart ''sha256:x'') (Some (0, ClaimCreate ?r)) [] w5"
    using lone_move [OF w4(2), of SysOk] valid by force
  obtain w6 where w6: "echo_steps w5 w6" "lone_call (InStart ''sha256:x'') (Some (0, ClaimFill ?r ''.claim-1'')) [(''.claim-1'', File None)] w6"
    using lone_move [OF w5(2), of "Named ''.claim-1''"] by (force simp: create_temp_def has_prefix_def lstat_def)
  obtain w7 where w7: "echo_steps w6 w7" "lone_call (InStart ''sha256:x'') (Some (0, ClaimLink ?r ''.claim-1'')) [(''.claim-1'', File (Some ?r))] w7"
    using lone_move [OF w6(2), of SysOk] by force
  obtain w8 where w8: "echo_steps w7 w8" "lone_call (InStart ''sha256:x'') (Some (0, ClaimUnlink ?r ''.claim-1'')) ?d w8"
    using lone_move [OF w7(2), of SysOk] by (force simp: lstat_def)
  obtain w9 where w9: "echo_steps w8 w9" "lone_call (InStart ''sha256:x'') (Some (0, ClaimSync ?r)) [(''op-9'', File (Some ?r))] w9"
    using lone_move [OF w8(2), of SysOk] by (force simp: lstat_def)
  obtain w10 w11 where w10: "echo_steps w9 w10" "echo_steps w10 w11" "mutations ''op-9'' (cw_sent w11) = 1"
    using lone_told [OF w9(2)] by auto
  have r: "(echo_steps)\<^sup>*\<^sup>* idle_calls w11"
    using w1(1) w2(1) w3(1) w4(1) w5(1) w6(1) w7(1) w8(1) w9(1) w10(1,2)
    by (meson rtranclp.rtrancl_refl rtranclp.rtrancl_into_rtrancl)
  have t: "\<not> temporary ''op-9''" by code_simp
  have i: "quiescent (cw_journal idle_calls)" "\<forall>k. cw_calls idle_calls k = None" "cw_sent idle_calls = []"
    by (simp_all add: idle_calls_def)
  from mutation_sent_at_most_once [OF i r t] r w10(3) show ?thesis by auto
qed

end
