(* ===== verification/Workload_State.thy ===== *)
theory Workload_State
  imports Lifecycle Journal
begin

text \<open>
  Durable workload phases: \<^verbatim>\<open>internal/workloadstate\<close> (the \<^verbatim>\<open>Store\<close> port, the memory
  and the file store) and \<^verbatim>\<open>TransitionWorkload\<close> of \<^verbatim>\<open>internal/app/publish/publish.go\<close>,
  the client that moves a stored workload through the state machine of
  \<^verbatim>\<open>Lifecycle\<close>. The port is the locale \<open>workload_store\<close>, both stores interpret it.
\<close>

section \<open>The stores\<close>

datatype store_error = InvalidWorkloadID string | ReadError | PersistError

definition ValidWorkloadID :: "string \<Rightarrow> bool" where
  "ValidWorkloadID i = ValidOperationID i"

text \<open>Lookup answers an error, or the saved state if any.\<close>

type_synonym lookup_result = "store_error + RuntimeState option"

type_synonym MemoryStore = "(string, RuntimeState) gomap"

definition NewMemoryStore :: MemoryStore where
  "NewMemoryStore = []"

definition ms_Lookup :: "unit \<Rightarrow> MemoryStore \<Rightarrow> string \<Rightarrow> lookup_result" where
  "ms_Lookup e s i = (if \<not> ValidWorkloadID i then Inl (InvalidWorkloadID i) else Inr (gm_get s i))"

definition ms_Save :: "unit \<Rightarrow> MemoryStore \<Rightarrow> string \<Rightarrow> RuntimeState \<Rightarrow> store_error option \<times> MemoryStore" where
  "ms_Save e s i st =
     (if \<not> ValidWorkloadID i then (Some (InvalidWorkloadID i), s) else (None, gm_put i st s))"

text \<open>
  The file store over a directory of \<^verbatim>\<open>persistedRuntimeState\<close> documents, whose only
  field is the phase. The environment decides whether reading fails and which step of
  the atomic write fails.
\<close>

type_synonym FileStore = "RuntimeState dir"

record store_env =
  st_read :: bool
  st_write :: write_fault

definition fs_Lookup :: "store_env \<Rightarrow> FileStore \<Rightarrow> string \<Rightarrow> lookup_result" where
  "fs_Lookup e d i =
     (if \<not> ValidWorkloadID i then Inl (InvalidWorkloadID i)
      else if st_read e then Inl ReadError
      else case lstat d i of
        None \<Rightarrow> Inr None
      | Some (File (Some stored)) \<Rightarrow> Inr (Some \<lparr>rs_Phase = rs_Phase stored\<rparr>)
      | Some _ \<Rightarrow> Inl ReadError)"

definition fs_Save :: "store_env \<Rightarrow> FileStore \<Rightarrow> string \<Rightarrow> RuntimeState \<Rightarrow> store_error option \<times> FileStore" where
  "fs_Save e d i st =
     (if \<not> ValidWorkloadID i then (Some (InvalidWorkloadID i), d)
      else case Write d i \<lparr>rs_Phase = rs_Phase st\<rparr> (st_write e) of
        (None, d') \<Rightarrow> (None, d')
      | (Some _, d') \<Rightarrow> (Some PersistError, d'))"

section \<open>The port and its client\<close>

text \<open>
  \<open>saved s i\<close> is the state a later reader finds: \<^term>\<open>None\<close> when nothing was ever
  saved. A failed save keeps the old state or installs the new one, never a mixture,
  and no save touches another workload.
\<close>

locale workload_store =
  fixes lookup :: "'e \<Rightarrow> 's \<Rightarrow> string \<Rightarrow> lookup_result"
    and save :: "'e \<Rightarrow> 's \<Rightarrow> string \<Rightarrow> RuntimeState \<Rightarrow> store_error option \<times> 's"
    and saved :: "'s \<Rightarrow> string \<Rightarrow> RuntimeState option"
  assumes lookup_saved: "lookup e s i = Inr r \<Longrightarrow> saved s i = r"
    and save_ok: "fst (save e s i st) = None \<Longrightarrow> saved (snd (save e s i st)) i = Some st"
    and save_atomic: "saved (snd (save e s i st)) i \<in> {saved s i, Some st}"
    and save_frame: "i \<noteq> j \<Longrightarrow> saved (snd (save e s j st)) i = saved s i"

datatype warning = LookupWarning store_error | TransitionWarning transition_error | SaveWarning store_error

text \<open>The warning is absent when the function reports success; a nil store is \<^term>\<open>False\<close>.\<close>

definition TransitionWorkload ::
  "('e \<Rightarrow> 's \<Rightarrow> string \<Rightarrow> lookup_result) \<Rightarrow>
   ('e \<Rightarrow> 's \<Rightarrow> string \<Rightarrow> RuntimeState \<Rightarrow> store_error option \<times> 's) \<Rightarrow>
   bool \<Rightarrow> 'e \<Rightarrow> 's \<Rightarrow> string \<Rightarrow> phase \<Rightarrow> warning option \<times> 's" where
  "TransitionWorkload lk sv hasStore e s i to =
     (if \<not> hasStore then (None, s)
      else case lk e s i of
        Inl err \<Rightarrow> (Some (LookupWarning err), s)
      | Inr found \<Rightarrow>
          (let current = (case found of None \<Rightarrow> \<lparr>rs_Phase = PhaseBuilt\<rparr> | Some r \<Rightarrow> r)
           in case TransitionTo current to of
                Inl err \<Rightarrow> (Some (TransitionWarning err), s)
              | Inr nxt \<Rightarrow>
                  (case sv e s i nxt of
                     (None, s') \<Rightarrow> (None, s')
                   | (Some err, s') \<Rightarrow> (Some (SaveWarning err), s'))))"

fun transition_run ::
  "('e \<Rightarrow> 's \<Rightarrow> string \<Rightarrow> lookup_result) \<Rightarrow>
   ('e \<Rightarrow> 's \<Rightarrow> string \<Rightarrow> RuntimeState \<Rightarrow> store_error option \<times> 's) \<Rightarrow>
   's \<Rightarrow> ('e \<times> string \<times> phase) list \<Rightarrow> 's" where
  "transition_run lk sv s [] = s"
| "transition_run lk sv s ((e, i, to) # rs) =
     transition_run lk sv (snd (TransitionWorkload lk sv True e s i to)) rs"

text \<open>The phase a workload is considered to be in: a workload without a record is built.\<close>

definition effective :: "RuntimeState option \<Rightarrow> phase" where
  "effective r = (case r of None \<Rightarrow> PhaseBuilt | Some st \<Rightarrow> rs_Phase st)"

lemma TransitionTo_edge:
  "TransitionTo st to = Inr st' \<Longrightarrow> rs_Phase st \<noteq> [] \<Longrightarrow>
     st' = \<lparr>rs_Phase = to\<rparr> \<and> CanTransition (rs_Phase st) to"
  by (auto simp: TransitionTo_def split: if_splits)

lemma phase_valid_Nil [simp]: "\<not> phase_valid []"
  by (simp add: phase_valid_def phases_def)

lemma TransitionTo_state:
  "TransitionTo st to = Inr st' \<Longrightarrow> st' = \<lparr>rs_Phase = to\<rparr> \<and> phase_valid to"
  by (auto simp: TransitionTo_def split: if_splits)

context workload_store
begin

abbreviation move where
  "move \<equiv> TransitionWorkload lookup save True"

lemma move_other: "i \<noteq> j \<Longrightarrow> saved (snd (move e s j to)) i = saved s i"
  using save_frame [of i j e s]
  by (auto simp: TransitionWorkload_def Let_def split: sum.splits prod.splits option.splits)
     (metis snd_conv)+

lemma move_step:
  assumes "saved s i \<noteq> Some \<lparr>rs_Phase = []\<rparr>"
  shows "saved (snd (move e s i to)) i = saved s i
     \<or> (saved (snd (move e s i to)) i = Some \<lparr>rs_Phase = to\<rparr>
        \<and> CanTransition (effective (saved s i)) to)"
proof (cases "lookup e s i")
  case (Inl err)
  then show ?thesis by (simp add: TransitionWorkload_def)
next
  case (Inr found)
  let ?cur = "case found of None \<Rightarrow> \<lparr>rs_Phase = PhaseBuilt\<rparr> | Some r \<Rightarrow> r"
  have f: "saved s i = found" using Inr by (rule lookup_saved)
  have ph: "rs_Phase ?cur = effective found" by (simp add: effective_def split: option.split)
  have ne: "rs_Phase ?cur \<noteq> []" using assms f by (cases found) auto
  show ?thesis
  proof (cases "TransitionTo ?cur to")
    case Inl': (Inl err)
    with Inr show ?thesis by (simp add: TransitionWorkload_def)
  next
    case Inr': (Inr nxt)
    from TransitionTo_edge [OF Inr' ne] ph f
    have n: "nxt = \<lparr>rs_Phase = to\<rparr>" "CanTransition (effective (saved s i)) to" by auto
    have "snd (move e s i to) = snd (save e s i nxt)"
      using Inr Inr' by (simp add: TransitionWorkload_def split: prod.split option.split)
    with save_atomic [of e s i nxt] n show ?thesis by auto
  qed
qed

lemma move_ok:
  "fst (move e s i to) = None \<Longrightarrow> saved (snd (move e s i to)) i = Some \<lparr>rs_Phase = to\<rparr>"
  using save_ok [of e s i] TransitionTo_state
  by (auto simp: TransitionWorkload_def Let_def split: sum.splits prod.splits option.splits)
     (metis fst_conv snd_conv)+

lemma run_valid:
  "(\<forall>i st. saved s i = Some st \<longrightarrow> phase_valid (rs_Phase st)) \<Longrightarrow>
   saved (transition_run lookup save s rs) i = Some st \<Longrightarrow> phase_valid (rs_Phase st)"
proof (induction rs arbitrary: s)
  case Nil
  then show ?case by simp
next
  case (Cons x rs)
  obtain e j to where x: "x = (e, j, to)" by (cases x) auto
  have ne: "saved s j \<noteq> Some \<lparr>rs_Phase = []\<rparr>"
    using Cons.prems(1) phase_valid_Nil by fastforce
  have "phase_valid (rs_Phase st')" if "saved (snd (move e s j to)) k = Some st'" for k st'
    using that move_other [of k j e s to] move_step [OF ne, of e to] Cons.prems(1)
      CanTransition_valid by (cases "k = j") auto
  with Cons.IH [of "snd (move e s j to)"] Cons.prems(2) x show ?case by auto
qed

lemma run_append:
  "transition_run lookup save s (rs @ [(e, i, to)]) = snd (move e (transition_run lookup save s rs) i to)"
  by (induction rs arbitrary: s) auto

lemma run_step:
  assumes "\<forall>i st. saved s i = Some st \<longrightarrow> phase_valid (rs_Phase st)" and "n < length rs"
  shows "saved (transition_run lookup save s (take (Suc n) rs)) i = saved (transition_run lookup save s (take n rs)) i
    \<or> (\<exists>e to. rs ! n = (e, i, to)
          \<and> saved (transition_run lookup save s (take (Suc n) rs)) i = Some \<lparr>rs_Phase = to\<rparr>
          \<and> CanTransition (effective (saved (transition_run lookup save s (take n rs)) i)) to)"
proof -
  obtain e j to where x: "rs ! n = (e, j, to)" by (cases "rs ! n") auto
  let ?s = "transition_run lookup save s (take n rs)"
  have app: "transition_run lookup save s (take (Suc n) rs) = snd (move e ?s j to)"
    using run_append [of s "take n rs" e j to] x assms(2) by (simp add: take_Suc_conv_app_nth)
  have ne: "saved ?s j \<noteq> Some \<lparr>rs_Phase = []\<rparr>"
    using run_valid [OF assms(1), of "take n rs" j] phase_valid_Nil by fastforce
  show ?thesis
    using move_other [of i j e ?s to] move_step [OF ne, of e to] x by (cases "i = j") (auto simp: app)
qed

end

interpretation ms: workload_store ms_Lookup ms_Save gm_get
  by unfold_locales (auto simp: ms_Lookup_def ms_Save_def split: if_splits)

definition fs_saved :: "FileStore \<Rightarrow> string \<Rightarrow> RuntimeState option" where
  "fs_saved d i = (case lstat d i of Some (File (Some st)) \<Rightarrow> Some st | _ \<Rightarrow> None)"

lemma RuntimeState_eta [simp]: "\<lparr>rs_Phase = rs_Phase r\<rparr> = (r :: RuntimeState)"
  by simp

lemma fs_Save_disk:
  "ValidWorkloadID i \<Longrightarrow> snd (fs_Save e d i st) = snd (Write d i st (st_write e))"
  by (auto simp: fs_Save_def split: prod.splits option.splits)

interpretation fs: workload_store fs_Lookup fs_Save fs_saved
proof (unfold_locales, goal_cases)
  case (1 e s i r)
  then show ?case
    by (auto simp: fs_Lookup_def fs_saved_def split: if_splits option.splits entry.splits)
next
  case (2 e s i st)
  then show ?case
    by (auto simp: fs_Save_def fs_saved_def dest!: Write_None split: if_splits prod.splits option.splits)
next
  case (3 e s i st)
  show ?case using Write_entry [of s i st "st_write e"] fs_Save_disk [of i e s st]
    by (cases "ValidWorkloadID i") (auto simp: fs_saved_def fs_Save_def)
next
  case (4 i j e s st)
  then show ?case using Write_frame [of i j s st "st_write e"] fs_Save_disk [of j e s st]
    by (cases "ValidWorkloadID j") (simp_all add: fs_saved_def fs_Save_def)
qed

section \<open>Properties\<close>

text \<open>
  C7: Over the file store, with any read and write failures, a sequence of
  \<^verbatim>\<open>TransitionWorkload\<close> calls that do not overlap changes what is stored of a workload one
  table move at a time: each call leaves the stored record of the workload as it was, or it is a
  call for this very workload, the stored phase is now the requested one, and the table has a
  rule from the phase stored just before, \<^verbatim>\<open>Built\<close> when there was no record.
\<close>

theorem stored_phases_follow_table:
  assumes "\<forall>j st. fs_saved d j = Some st \<longrightarrow> phase_valid (rs_Phase st)" and "n < length requests"
  shows "fs_saved (transition_run fs_Lookup fs_Save d (take (Suc n) requests)) i
           = fs_saved (transition_run fs_Lookup fs_Save d (take n requests)) i
    \<or> (\<exists>e to. requests ! n = (e, i, to)
          \<and> fs_saved (transition_run fs_Lookup fs_Save d (take (Suc n) requests)) i = Some \<lparr>rs_Phase = to\<rparr>
          \<and> CanTransition (effective (fs_saved (transition_run fs_Lookup fs_Save d (take n requests)) i)) to)"
  using fs.run_step [OF assms] by blast

definition two_requests :: "(store_env \<times> string \<times> phase) list" where
  "two_requests = [(\<lparr>st_read = False, st_write = WriteOk\<rparr>, ''w'', PhasePublishing),
     (\<lparr>st_read = False, st_write = WriteOk\<rparr>, ''w'', PhasePublished)]"

theorem stored_phases_follow_table_witness:
  "fs_saved (transition_run fs_Lookup fs_Save [] (take (Suc 1) two_requests)) ''w'' = Some \<lparr>rs_Phase = PhasePublished\<rparr>
   \<and> CanTransition (effective (fs_saved (transition_run fs_Lookup fs_Save [] (take 1 two_requests)) ''w'')) PhasePublished"
proof -
  have h: "\<forall>j st. fs_saved [] j = Some st \<longrightarrow> phase_valid (rs_Phase st)" by (simp add: fs_saved_def lstat_def)
  have n: "1 < length two_requests" by code_simp
  have a: "fs_saved (transition_run fs_Lookup fs_Save [] (take (Suc 1) two_requests)) ''w'' = Some \<lparr>rs_Phase = PhasePublished\<rparr>"
    by code_simp
  have b: "fs_saved (transition_run fs_Lookup fs_Save [] (take 1 two_requests)) ''w'' = Some \<lparr>rs_Phase = PhasePublishing\<rparr>"
    by code_simp
  have "PhasePublished \<noteq> PhasePublishing" by simp
  then show ?thesis using stored_phases_follow_table [OF h n, of "''w''"] unfolding a b by auto
qed

text \<open>
  \<^verbatim>\<open>TransitionWorkload\<close> reports success exactly when the requested phase is durable:
  without a warning the store holds the requested phase, no other workload changed, and
  a refused transition, an unreadable record or an invalid identity leaves the whole
  directory as it was.
\<close>

theorem transition_reported_is_stored:
  "(case TransitionWorkload fs_Lookup fs_Save True e d i to of
      (None, d') \<Rightarrow> fs_saved d' i = Some \<lparr>rs_Phase = to\<rparr>
    | (Some (SaveWarning _), d') \<Rightarrow> fs_saved d' i \<in> {fs_saved d i, Some \<lparr>rs_Phase = to\<rparr>}
    | (Some _, d') \<Rightarrow> d' = d)
   \<and> (j = i \<or> fs_saved (snd (TransitionWorkload fs_Lookup fs_Save True e d i to)) j = fs_saved d j)"
proof
  show "j = i \<or> fs_saved (snd (TransitionWorkload fs_Lookup fs_Save True e d i to)) j = fs_saved d j"
    using fs.move_other [of j i e d to] by auto
  have ok: "fs_saved d' i = Some \<lparr>rs_Phase = to\<rparr>"
    if "TransitionWorkload fs_Lookup fs_Save True e d i to = (None, d')" for d'
    using fs.move_ok [of e d i to] that by simp
  have upd: "fs_saved d' i \<in> {fs_saved d i, Some nxt}" if "fs_Save e d i nxt = (err, d')" for nxt err d'
    using fs.save_atomic [of e d i nxt] that by simp
  have warned: "case w of SaveWarning _ \<Rightarrow> fs_saved d' i \<in> {fs_saved d i, Some \<lparr>rs_Phase = to\<rparr>} | _ \<Rightarrow> d' = d"
    if "TransitionWorkload fs_Lookup fs_Save True e d i to = (Some w, d')" for w d'
    using that
    by (auto simp: TransitionWorkload_def Let_def dest: TransitionTo_state dest!: upd
        split: sum.splits prod.splits option.splits warning.splits)
  show "case TransitionWorkload fs_Lookup fs_Save True e d i to of
      (None, d') \<Rightarrow> fs_saved d' i = Some \<lparr>rs_Phase = to\<rparr>
    | (Some (SaveWarning _), d') \<Rightarrow> fs_saved d' i \<in> {fs_saved d i, Some \<lparr>rs_Phase = to\<rparr>}
    | (Some _, d') \<Rightarrow> d' = d"
    using ok warned by (simp split: prod.split option.split warning.split)
qed

end
