(* ===== verification/Pipeline_Types.thy ===== *)
theory Pipeline_Types
  imports Prelude
begin

text \<open>
  The pipeline model of \<^verbatim>\<open>internal/core/pipeline.go\<close>, Go's \<^verbatim>\<open>path.Clean\<close>, and the
  lexical checks of \<^verbatim>\<open>internal/scheduler/graph.go\<close> on identifiers, digests and target
  paths. Integer fields of the source are \<^verbatim>\<open>int64\<close>; here they are only compared with
  zero, so they are \<^typ>\<open>int\<close>.
\<close>

section \<open>Data\<close>

record Input =
  in_ID :: string
  in_Kind :: string
  in_Source :: string
  in_Digest :: string

record ImageReference =
  im_Reference :: string
  im_Digest :: string
  im_Platform :: string

record Command =
  cm_Executable :: string
  cm_Args :: "string list"
  cm_WorkingDir :: string

record Mount =
  mt_Source :: string
  mt_Target :: string
  mt_ReadOnly :: bool

record SecretReference =
  sr_ID :: string
  sr_Target :: string

record CacheMount =
  ca_ID :: string
  ca_Target :: string

record ArtifactReference =
  ar_Stage :: string
  ar_Name :: string
  ar_Target :: string

record ArtifactDeclaration =
  ad_Name :: string
  ad_Path :: string

record Output =
  ou_Name :: string
  ou_Stage :: string
  ou_Artifact :: string

record ResourceLimits =
  rl_CPUMilli :: int
  rl_MemoryMiB :: int
  rl_PIDs :: int

record SandboxPolicy =
  sb_ReadOnlyRoot :: bool
  sb_NonRoot :: bool

record Stage =
  sg_ID :: string
  sg_DependsOn :: "string list"
  sg_Base :: "ImageReference option"
  sg_Command :: Command
  sg_Env :: "(string, string) gomap"
  sg_Mounts :: "Mount list"
  sg_Secrets :: "SecretReference list"
  sg_Caches :: "CacheMount list"
  sg_Inputs :: "ArtifactReference list"
  sg_Outputs :: "ArtifactDeclaration list"
  sg_Network :: string
  sg_Resources :: ResourceLimits
  sg_Sandbox :: SandboxPolicy

record Pipeline =
  pl_APIVersion :: string
  pl_Name :: string
  pl_RequiredCapabilities :: "string list"
  pl_Inputs :: "Input list"
  pl_Stages :: "Stage list"
  pl_Outputs :: "Output list"

abbreviation NetworkNone :: string where "NetworkNone \<equiv> ''none''"
abbreviation NetworkResolve :: string where "NetworkResolve \<equiv> ''resolve''"
abbreviation NetworkFull :: string where "NetworkFull \<equiv> ''full''"

section \<open>Paths\<close>

fun split_slash :: "string \<Rightarrow> string list" where
  "split_slash [] = [[]]"
| "split_slash (c # cs) =
     (if c = CHR ''/'' then [] # split_slash cs
      else case split_slash cs of (x # xs) \<Rightarrow> (c # x) # xs | [] \<Rightarrow> [[c]])"

fun join_with :: "string \<Rightarrow> string list \<Rightarrow> string" where
  "join_with sep [] = []"
| "join_with sep [x] = x"
| "join_with sep (x # y # zs) = x @ sep @ join_with sep (y # zs)"

text \<open>
  \<^verbatim>\<open>path.Clean\<close>: drop empty and \<^verbatim>\<open>.\<close> elements, let \<^verbatim>\<open>..\<close> remove the element before
  it, drop \<^verbatim>\<open>..\<close> at the root. The accumulator holds the kept elements, last first.
\<close>

definition clean_step :: "bool \<Rightarrow> string list \<Rightarrow> string \<Rightarrow> string list" where
  "clean_step rooted out c =
     (if c = [] \<or> c = ''.'' then out
      else if c = ''..'' then
        (case out of
           [] \<Rightarrow> (if rooted then [] else [''..''])
         | t # ts \<Rightarrow> (if t = ''..'' then ''..'' # out else ts))
      else c # out)"

definition path_Clean :: "string \<Rightarrow> string" where
  "path_Clean s =
     (if s = [] then ''.''
      else let rooted = (hd s = CHR ''/'');
               body = join_with ''/'' (rev (foldl (clean_step rooted) [] (split_slash s)));
               out = (if rooted then CHR ''/'' # body else body)
           in if out = [] then ''.'' else out)"

definition cleanAbsolutePath :: "string \<Rightarrow> bool" where
  "cleanAbsolutePath v \<longleftrightarrow> v \<noteq> [] \<and> has_prefix v ''/'' \<and> v \<noteq> ''/'' \<and> path_Clean v = v"

text \<open>An element of a path that names something below its parent.\<close>

definition proper_element :: "string \<Rightarrow> bool" where
  "proper_element c \<longleftrightarrow> c \<noteq> [] \<and> c \<noteq> ''.'' \<and> c \<noteq> ''..'' \<and> CHR ''/'' \<notin> set c"

lemma split_slash_nonempty [simp]: "split_slash s \<noteq> []"
  by (induction s) (auto split: list.splits)

lemma split_slash_flat: "c \<in> set (split_slash s) \<Longrightarrow> CHR ''/'' \<notin> set c"
  by (induction s arbitrary: c) (auto split: list.splits if_splits)

lemma join_split [simp]: "join_with ''/'' (split_slash s) = s"
proof (induction s)
  case (Cons c s)
  then show ?case by (cases "split_slash s"; cases "tl (split_slash s)") (auto simp: neq_Nil_conv)
qed simp

lemma split_slash_elem: "CHR ''/'' \<notin> set x \<Longrightarrow> split_slash x = [x]"
  by (induction x) auto

lemma split_slash_append:
  "CHR ''/'' \<notin> set x \<Longrightarrow> split_slash (x @ CHR ''/'' # s) = x # split_slash s"
  by (induction x) auto

lemma split_join:
  "xs \<noteq> [] \<Longrightarrow> (\<And>x. x \<in> set xs \<Longrightarrow> CHR ''/'' \<notin> set x) \<Longrightarrow>
     split_slash (join_with ''/'' xs) = xs"
proof (induction "''/''" xs rule: join_with.induct)
  case (3 x y zs)
  then show ?case using split_slash_append [of x "join_with ''/'' (y # zs)"] by simp
qed (auto simp: split_slash_elem)

lemma clean_step_proper:
  "list_all proper_element out \<Longrightarrow> CHR ''/'' \<notin> set c \<Longrightarrow> list_all proper_element (clean_step True out c)"
  by (auto simp: clean_step_def proper_element_def split: list.splits)

lemma foldl_clean_proper:
  "list_all proper_element out \<Longrightarrow> (\<And>c. c \<in> set cs \<Longrightarrow> CHR ''/'' \<notin> set c) \<Longrightarrow>
     list_all proper_element (foldl (clean_step True) out cs)"
  by (induction cs arbitrary: out) (auto intro: clean_step_proper)

lemma foldl_clean_id:
  "list_all proper_element cs \<Longrightarrow> foldl (clean_step True) out cs = rev cs @ out"
  by (induction cs arbitrary: out) (auto simp: clean_step_def proper_element_def)

lemma cleanAbsolutePath_elements:
  "cleanAbsolutePath v \<longleftrightarrow>
     (\<exists>cs. cs \<noteq> [] \<and> list_all proper_element cs \<and> v = CHR ''/'' # join_with ''/'' cs)"
proof
  assume v: "cleanAbsolutePath v"
  then obtain w where w: "v = CHR ''/'' # w"
    by (auto simp: cleanAbsolutePath_def has_prefix_iff)
  let ?cs = "rev (foldl (clean_step True) [] (split_slash v))"
  have p: "list_all proper_element ?cs"
    using foldl_clean_proper [of "[]" "split_slash v"] split_slash_flat by (simp add: list_all_rev)
  have "v = CHR ''/'' # join_with ''/'' ?cs"
    using v w by (simp add: cleanAbsolutePath_def path_Clean_def Let_def)
  moreover have "?cs \<noteq> []" using v calculation by (auto simp: cleanAbsolutePath_def)
  ultimately show "\<exists>cs. cs \<noteq> [] \<and> list_all proper_element cs \<and> v = CHR ''/'' # join_with ''/'' cs"
    using p by blast
next
  assume "\<exists>cs. cs \<noteq> [] \<and> list_all proper_element cs \<and> v = CHR ''/'' # join_with ''/'' cs"
  then obtain cs where cs: "cs \<noteq> []" "list_all proper_element cs"
    and v: "v = CHR ''/'' # join_with ''/'' cs" by blast
  have sp: "split_slash (join_with ''/'' cs) = cs"
    using cs by (intro split_join) (auto simp: list_all_iff proper_element_def)
  have ne: "join_with ''/'' cs \<noteq> []"
    using cs by (cases cs rule: remdups_adj.cases) (auto simp: proper_element_def)
  have "foldl (clean_step True) [] (split_slash v) = rev cs"
    using foldl_clean_id [OF cs(2)] v sp by (simp add: clean_step_def)
  then show "cleanAbsolutePath v"
    using v ne by (simp add: cleanAbsolutePath_def path_Clean_def has_prefix_def)
qed

section \<open>Identifiers and digests\<close>

definition IDPattern :: "string \<Rightarrow> bool" where
  "IDPattern s = label_match is_lower (\<lambda>c. is_lower c \<or> is_digit c \<or> c = CHR ''-'') 62 s"

definition ValidDigest :: "string \<Rightarrow> bool" where
  "ValidDigest v \<longleftrightarrow> has_prefix v ''sha256:'' \<and> length v = 7 + 64
     \<and> list_all is_hex_lower (drop 7 v)"

definition has_nul :: "string \<Rightarrow> bool" where
  "has_nul s \<longleftrightarrow> NUL \<in> set s"

end
