(* ===== verification/Pipeline_Validation.thy ===== *)
theory Pipeline_Validation
  imports Pipeline_Types "HOL-Library.Product_Lexorder"
begin

text \<open>
  Pipeline validation, the first half of \<^verbatim>\<open>internal/scheduler/graph.go\<close>: the issue
  collection of \<^verbatim>\<open>validate\<close> with its paths and messages, loop by loop. Shown: the
  pipelines without an issue are exactly the ones the predicate \<open>well_formed\<close>
  describes, and the stage map handed on is the list of stages under their identifiers.
\<close>

section \<open>Issues\<close>

record Issue =
  is_Path :: string
  is_Message :: string

definition issue :: "string \<Rightarrow> string \<Rightarrow> Issue" where
  "issue p m = \<lparr>is_Path = p, is_Message = m\<rparr>"

definition newValidationError :: "Issue list \<Rightarrow> Issue list" where
  "newValidationError issues = sort_key (\<lambda>i. (is_Path i, is_Message i)) issues"

text \<open>\<^verbatim>\<open>fmt.Sprintf("%s[%d]", prefix, index)\<close>\<close>

definition at :: "string \<Rightarrow> nat \<Rightarrow> string" where
  "at prefix i = prefix @ ''['' @ itoa i @ '']''"

section \<open>Capabilities\<close>

definition knownCapabilities :: "string list" where
  "knownCapabilities = [''artifacts'', ''cache'', ''memory-rlimit'', ''network-none'',
     ''parallel-stages'', ''secrets'', ''sandbox'', ''cgroup-cpu'', ''cgroup-pids'']"

definition KnownCapabilities :: "string list" where
  "KnownCapabilities = sort knownCapabilities"

text \<open>In the loops below \<open>seen\<close> lists the keys of the Go set and \<open>i\<close> is the range index.\<close>

fun capability_issues :: "nat \<Rightarrow> string list \<Rightarrow> string list \<Rightarrow> Issue list" where
  "capability_issues i seen [] = []"
| "capability_issues i seen (n # ns) =
     (if n \<notin> set knownCapabilities
      then [issue (at ''required_capabilities'' i) (''unknown capability '' @ n)]
      else if n \<in> set seen
      then [issue (at ''required_capabilities'' i) (''duplicates capability '' @ n)]
      else []) @ capability_issues (Suc i) (n # seen) ns"

definition validateRequiredCapabilities :: "string list \<Rightarrow> Issue list" where
  "validateRequiredCapabilities names = capability_issues 0 [] names"

section \<open>Inputs, paths and outputs\<close>

fun input_issues :: "nat \<Rightarrow> string list \<Rightarrow> Input list \<Rightarrow> Issue list" where
  "input_issues i seen [] = []"
| "input_issues i seen (x # xs) =
     (let prefix = at ''inputs'' i in
      (if \<not> IDPattern (in_ID x) then [issue (prefix @ ''.id'') ''must be a lowercase DNS label'']
       else if in_ID x \<in> set seen then [issue (prefix @ ''.id'') (''duplicates input '' @ in_ID x)]
       else [])
      @ (if in_Kind x = [] \<or> in_Source x = [] \<or> has_nul (in_Source x)
         then [issue prefix ''requires kind and a non-empty, NUL-free source''] else [])
      @ (if \<not> ValidDigest (in_Digest x) then [issue (prefix @ ''.digest'') ''must be a sha256 digest''] else []))
     @ input_issues (Suc i) (in_ID x # seen) xs"

definition validateInputs :: "Input list \<Rightarrow> Issue list" where
  "validateInputs xs = input_issues 0 [] xs"

fun path_issues :: "string \<Rightarrow> nat \<Rightarrow> string list \<Rightarrow> (string \<times> string) list \<Rightarrow> Issue list" where
  "path_issues prefix i seen [] = []"
| "path_issues prefix i seen ((ident, target) # xs) =
     (let field = at prefix i in
      (if ident = [] \<or> has_nul ident then [issue field ''requires a non-empty, NUL-free identifier''] else [])
      @ (if \<not> cleanAbsolutePath target then [issue (field @ ''.target'') ''must be a clean absolute path'']
         else if target \<in> set seen then [issue (field @ ''.target'') (''duplicates target '' @ target)]
         else []))
     @ path_issues prefix (Suc i) (target # seen) xs"

definition validatePaths :: "string \<Rightarrow> (string \<times> string) list \<Rightarrow> Issue list" where
  "validatePaths prefix xs = path_issues prefix 0 [] xs"

definition mountPaths :: "Mount list \<Rightarrow> (string \<times> string) list" where
  "mountPaths = map (\<lambda>m. (mt_Source m, mt_Target m))"

definition secretPaths :: "SecretReference list \<Rightarrow> (string \<times> string) list" where
  "secretPaths = map (\<lambda>m. (sr_ID m, sr_Target m))"

definition cachePaths :: "CacheMount list \<Rightarrow> (string \<times> string) list" where
  "cachePaths = map (\<lambda>m. (ca_ID m, ca_Target m))"

fun output_issues :: "(string, Stage) gomap \<Rightarrow> nat \<Rightarrow> string list \<Rightarrow> Output list \<Rightarrow> Issue list" where
  "output_issues stages i seen [] = []"
| "output_issues stages i seen (x # xs) =
     (let prefix = at ''outputs'' i in
      (if \<not> IDPattern (ou_Name x) then [issue (prefix @ ''.name'') ''must be a lowercase DNS label'']
       else if ou_Name x \<in> set seen then [issue (prefix @ ''.name'') (''duplicates output '' @ ou_Name x)]
       else [])
      @ (case gm_get stages (ou_Stage x) of
           None \<Rightarrow> [issue (prefix @ ''.stage'') (''references unknown stage '' @ ou_Stage x)]
         | Some st \<Rightarrow>
             (if list_ex (\<lambda>a. ad_Name a = ou_Artifact x) (sg_Outputs st) then []
              else [issue (prefix @ ''.artifact'') (''references unknown artifact '' @ ou_Artifact x)])))
     @ output_issues stages (Suc i) (ou_Name x # seen) xs"

definition validateOutputs :: "Output list \<Rightarrow> (string, Stage) gomap \<Rightarrow> Issue list" where
  "validateOutputs xs stages = output_issues stages 0 [] xs"

section \<open>Stages\<close>

fun argument_issues :: "string \<Rightarrow> nat \<Rightarrow> string list \<Rightarrow> Issue list" where
  "argument_issues prefix i [] = []"
| "argument_issues prefix i (a # as) =
     (if has_nul a then [issue (at (prefix @ ''.command.args'') i) ''must be NUL-free''] else [])
     @ argument_issues prefix (Suc i) as"

definition env_issues :: "string \<Rightarrow> (string, string) gomap \<Rightarrow> Issue list" where
  "env_issues prefix env = concat (map (\<lambda>(key, val).
     (if key = [] \<or> CHR ''='' \<in> set key \<or> has_nul key
      then [issue (prefix @ ''.env'') ''contains an invalid variable name''] else [])
     @ (if has_nul val then [issue (prefix @ ''.env.'' @ key) ''must be NUL-free''] else [])
     @ (if key = ''PLATFORM_FACTORY_ROOT''
        then [issue (prefix @ ''.env.'' @ key) ''is reserved by the executor''] else [])) env)"

fun artifact_issues :: "string \<Rightarrow> nat \<Rightarrow> string list \<Rightarrow> ArtifactDeclaration list \<Rightarrow> Issue list" where
  "artifact_issues prefix i seen [] = []"
| "artifact_issues prefix i seen (x # xs) =
     (let field = at (prefix @ ''.outputs'') i in
      (if \<not> IDPattern (ad_Name x) then [issue (field @ ''.name'') ''must be a lowercase DNS label''] else [])
      @ (if ad_Name x \<in> set seen then [issue (field @ ''.name'') (''duplicates artifact '' @ ad_Name x)] else [])
      @ (if \<not> cleanAbsolutePath (ad_Path x) then [issue (field @ ''.path'') ''must be a clean absolute path''] else []))
     @ artifact_issues prefix (Suc i) (ad_Name x # seen) xs"

definition base_issues :: "string \<Rightarrow> ImageReference option \<Rightarrow> Issue list" where
  "base_issues prefix base = (case base of None \<Rightarrow> [] | Some b \<Rightarrow>
     (if im_Reference b = [] \<or> \<not> ValidDigest (im_Digest b)
      then [issue (prefix @ ''.base'') ''requires a reference and pinned sha256 digest''] else [])
     @ (if im_Platform b \<noteq> [] \<and> im_Platform b \<noteq> ''linux/amd64'' \<and> im_Platform b \<noteq> ''linux/arm64''
        then [issue (prefix @ ''.base.platform'') ''must be linux/amd64 or linux/arm64''] else []))"

definition validateStage :: "string \<Rightarrow> Stage \<Rightarrow> Issue list" where
  "validateStage prefix st =
     (let cmd = sg_Command st;
          network = (if sg_Network st = [] then NetworkNone else sg_Network st);
          res = sg_Resources st
      in (if cm_Executable cmd = [] \<or> has_nul (cm_Executable cmd)
          then [issue (prefix @ ''.command.executable'') ''must be non-empty and NUL-free''] else [])
       @ (if cm_WorkingDir cmd \<noteq> [] \<and> \<not> cleanAbsolutePath (cm_WorkingDir cmd)
          then [issue (prefix @ ''.command.working_dir'') ''must be a clean absolute path''] else [])
       @ argument_issues prefix 0 (cm_Args cmd)
       @ env_issues prefix (sg_Env st)
       @ (if network \<noteq> NetworkNone \<and> network \<noteq> NetworkResolve \<and> network \<noteq> NetworkFull
          then [issue (prefix @ ''.network'') ''must be none, resolve, or full''] else [])
       @ (if network \<noteq> [] \<and> network \<noteq> NetworkNone \<and> 0 < length (sg_DependsOn st)
          then [issue (prefix @ ''.network'')
            ''network-enabled resolution stages must be DAG roots; every later stage is network none''] else [])
       @ (if rl_CPUMilli res < 0 \<or> rl_MemoryMiB res < 0 \<or> rl_PIDs res < 0
          then [issue (prefix @ ''.resources'') ''limits must not be negative''] else [])
       @ base_issues prefix (sg_Base st)
       @ validatePaths (prefix @ ''.mounts'') (mountPaths (sg_Mounts st))
       @ validatePaths (prefix @ ''.secrets'') (secretPaths (sg_Secrets st))
       @ validatePaths (prefix @ ''.caches'') (cachePaths (sg_Caches st))
       @ artifact_issues prefix 0 [] (sg_Outputs st))"

section \<open>The whole definition\<close>

definition acceptedAPIVersions :: "string list" where
  "acceptedAPIVersions =
     [''platform-factory.dev/v1alpha1'', ''secure-oci.dev/v1alpha1'',
      ''platform-factory.dev/v1beta1'', ''secure-oci.dev/v1beta1'',
      ''platform-factory.dev/v1'', ''secure-oci.dev/v1'']"

fun register_stages :: "nat \<Rightarrow> (string, Stage) gomap \<Rightarrow> Stage list \<Rightarrow> Issue list \<times> (string, Stage) gomap" where
  "register_stages i stages [] = ([], stages)"
| "register_stages i stages (st # sts) =
     (let prefix = at ''stages'' i;
          (here, stages') =
            (if \<not> IDPattern (sg_ID st)
             then ([issue (prefix @ ''.id'') ''must be a lowercase DNS label''], stages)
             else if gm_get stages (sg_ID st) \<noteq> None
             then ([issue (prefix @ ''.id'') (''duplicates stage '' @ sg_ID st)], stages)
             else ([], gm_put (sg_ID st) st stages));
          (later, final) = register_stages (Suc i) stages' sts
      in (here @ validateStage prefix st @ later, final))"

fun dependency_issues :: "(string, Stage) gomap \<Rightarrow> string \<Rightarrow> nat \<Rightarrow> nat \<Rightarrow> string list \<Rightarrow> string list \<Rightarrow> Issue list" where
  "dependency_issues stages self i j seen [] = []"
| "dependency_issues stages self i j seen (d # ds) =
     (let field = at (at ''stages'' i @ ''.depends_on'') j in
      if d = self then [issue field ''must not reference its own stage'']
      else if gm_get stages d = None then [issue field (''references unknown stage '' @ d)]
      else if d \<in> set seen then [issue field (''duplicates dependency '' @ d)]
      else []) @ dependency_issues stages self i (Suc j) (d # seen) ds"

fun mount_issues :: "string list \<Rightarrow> nat \<Rightarrow> nat \<Rightarrow> Mount list \<Rightarrow> Issue list" where
  "mount_issues inputs i j [] = []"
| "mount_issues inputs i j (m # ms) =
     (if mt_Source m \<in> set inputs then []
      else [issue (at (at ''stages'' i @ ''.mounts'') j @ ''.source'')
              (''references unknown input '' @ mt_Source m)])
     @ mount_issues inputs i (Suc j) ms"

text \<open>\<open>seen\<close> here is the set the dependency loop left: the declared dependencies.\<close>

fun artifact_input_issues :: "(string, Stage) gomap \<Rightarrow> string list \<Rightarrow> nat \<Rightarrow> nat \<Rightarrow> ArtifactReference list \<Rightarrow> Issue list" where
  "artifact_input_issues stages seen i j [] = []"
| "artifact_input_issues stages seen i j (x # xs) =
     (let field = at (at ''stages'' i @ ''.inputs'') j in
      case gm_get stages (ar_Stage x) of
        None \<Rightarrow> [issue (field @ ''.stage'') (''references unknown stage '' @ ar_Stage x)]
      | Some producer \<Rightarrow>
          (if list_ex (\<lambda>a. ad_Name a = ar_Name x) (sg_Outputs producer) then []
           else [issue (field @ ''.name'') (''references unknown artifact '' @ ar_Name x)])
          @ (if ar_Stage x \<in> set seen then []
             else [issue (field @ ''.stage'') ''producer must be declared in depends_on''])
          @ (if ar_Target x \<noteq> [] \<and> \<not> cleanAbsolutePath (ar_Target x)
             then [issue (field @ ''.target'') ''must be a clean absolute path''] else []))
     @ artifact_input_issues stages seen i (Suc j) xs"

fun reference_issues :: "string list \<Rightarrow> (string, Stage) gomap \<Rightarrow> nat \<Rightarrow> Stage list \<Rightarrow> Issue list" where
  "reference_issues inputs stages i [] = []"
| "reference_issues inputs stages i (st # sts) =
     dependency_issues stages (sg_ID st) i 0 [] (sg_DependsOn st)
     @ mount_issues inputs i 0 (sg_Mounts st)
     @ artifact_input_issues stages (sg_DependsOn st) i 0 (sg_Inputs st)
     @ reference_issues inputs stages (Suc i) sts"

definition MaxStages :: nat where
  "MaxStages = 10000"

definition validate :: "Pipeline \<Rightarrow> Issue list \<times> (string, Stage) gomap" where
  "validate p =
     (let head =
        (if pl_APIVersion p \<in> set acceptedAPIVersions then []
         else [issue ''api_version'' (''must be one of '' @ join_with '', '' acceptedAPIVersions)])
        @ (if IDPattern (pl_Name p) then [] else [issue ''name'' ''must be a lowercase DNS label''])
        @ (if length (pl_Stages p) = 0 then [issue ''stages'' ''must contain at least one stage''] else [])
      in if MaxStages < length (pl_Stages p)
         then (head @ [issue ''stages'' ''exceeds the 10000 stage limit''], [])
         else let inputs = map in_ID (pl_Inputs p);
                  (registered, stages) = register_stages 0 [] (pl_Stages p)
              in (head @ validateRequiredCapabilities (pl_RequiredCapabilities p)
                  @ validateInputs (pl_Inputs p) @ registered
                  @ reference_issues inputs stages 0 (pl_Stages p)
                  @ validateOutputs (pl_Outputs p) stages, stages))"

section \<open>What validation accepts\<close>

definition well_formed_paths :: "(string \<times> string) list \<Rightarrow> bool" where
  "well_formed_paths ps \<longleftrightarrow> list_all (\<lambda>(i, t). i \<noteq> [] \<and> \<not> has_nul i \<and> cleanAbsolutePath t) ps
     \<and> distinct (map snd ps)"

definition well_formed_command :: "Command \<Rightarrow> bool" where
  "well_formed_command c \<longleftrightarrow> cm_Executable c \<noteq> [] \<and> \<not> has_nul (cm_Executable c)
     \<and> (cm_WorkingDir c = [] \<or> cleanAbsolutePath (cm_WorkingDir c)) \<and> list_all (\<lambda>a. \<not> has_nul a) (cm_Args c)"

definition well_formed_variable :: "string \<times> string \<Rightarrow> bool" where
  "well_formed_variable kv \<longleftrightarrow> fst kv \<noteq> [] \<and> CHR ''='' \<notin> set (fst kv) \<and> \<not> has_nul (fst kv)
     \<and> \<not> has_nul (snd kv) \<and> fst kv \<noteq> ''PLATFORM_FACTORY_ROOT''"

definition well_formed_base :: "ImageReference \<Rightarrow> bool" where
  "well_formed_base b \<longleftrightarrow> im_Reference b \<noteq> [] \<and> ValidDigest (im_Digest b)
     \<and> im_Platform b \<in> {[], ''linux/amd64'', ''linux/arm64''}"

definition well_formed_stage :: "Stage \<Rightarrow> bool" where
  "well_formed_stage st \<longleftrightarrow> well_formed_command (sg_Command st)
     \<and> list_all well_formed_variable (sg_Env st)
     \<and> (sg_Network st \<in> {[], NetworkNone}
        \<or> (sg_Network st \<in> {NetworkResolve, NetworkFull} \<and> sg_DependsOn st = []))
     \<and> 0 \<le> rl_CPUMilli (sg_Resources st) \<and> 0 \<le> rl_MemoryMiB (sg_Resources st) \<and> 0 \<le> rl_PIDs (sg_Resources st)
     \<and> pred_option well_formed_base (sg_Base st)
     \<and> well_formed_paths (mountPaths (sg_Mounts st)) \<and> well_formed_paths (secretPaths (sg_Secrets st))
     \<and> well_formed_paths (cachePaths (sg_Caches st))
     \<and> list_all (\<lambda>x. IDPattern (ad_Name x) \<and> cleanAbsolutePath (ad_Path x)) (sg_Outputs st)
     \<and> distinct (map ad_Name (sg_Outputs st))"

definition produces :: "Stage list \<Rightarrow> string \<Rightarrow> string \<Rightarrow> bool" where
  "produces sts i name \<longleftrightarrow> list_ex (\<lambda>st. sg_ID st = i \<and> list_ex (\<lambda>a. ad_Name a = name) (sg_Outputs st)) sts"

definition well_formed_references :: "Pipeline \<Rightarrow> Stage \<Rightarrow> bool" where
  "well_formed_references p st \<longleftrightarrow>
     distinct (sg_DependsOn st) \<and> sg_ID st \<notin> set (sg_DependsOn st)
     \<and> list_all (\<lambda>d. d \<in> set (map sg_ID (pl_Stages p))) (sg_DependsOn st)
     \<and> list_all (\<lambda>m. mt_Source m \<in> set (map in_ID (pl_Inputs p))) (sg_Mounts st)
     \<and> list_all (\<lambda>a. produces (pl_Stages p) (ar_Stage a) (ar_Name a) \<and> ar_Stage a \<in> set (sg_DependsOn st)
          \<and> (ar_Target a = [] \<or> cleanAbsolutePath (ar_Target a))) (sg_Inputs st)"

definition well_formed :: "Pipeline \<Rightarrow> bool" where
  "well_formed p \<longleftrightarrow> pl_APIVersion p \<in> set acceptedAPIVersions \<and> IDPattern (pl_Name p)
     \<and> 0 < length (pl_Stages p) \<and> length (pl_Stages p) \<le> MaxStages
     \<and> list_all (\<lambda>c. c \<in> set knownCapabilities) (pl_RequiredCapabilities p)
     \<and> distinct (pl_RequiredCapabilities p)
     \<and> list_all (\<lambda>i. IDPattern (in_ID i) \<and> in_Kind i \<noteq> [] \<and> in_Source i \<noteq> []
          \<and> \<not> has_nul (in_Source i) \<and> ValidDigest (in_Digest i)) (pl_Inputs p)
     \<and> distinct (map in_ID (pl_Inputs p))
     \<and> list_all (\<lambda>st. IDPattern (sg_ID st) \<and> well_formed_stage st) (pl_Stages p)
     \<and> distinct (map sg_ID (pl_Stages p))
     \<and> list_all (well_formed_references p) (pl_Stages p)
     \<and> list_all (\<lambda>x. IDPattern (ou_Name x) \<and> produces (pl_Stages p) (ou_Stage x) (ou_Artifact x)) (pl_Outputs p)
     \<and> distinct (map ou_Name (pl_Outputs p))"

lemma capability_issues_Nil:
  "capability_issues i seen ns = [] \<longleftrightarrow>
     list_all (\<lambda>n. n \<in> set knownCapabilities) ns \<and> distinct ns \<and> set ns \<inter> set seen = {}"
  by (induction i seen ns rule: capability_issues.induct) auto

lemma input_issues_Nil:
  "input_issues i seen xs = [] \<longleftrightarrow>
     list_all (\<lambda>x. IDPattern (in_ID x) \<and> in_Kind x \<noteq> [] \<and> in_Source x \<noteq> []
       \<and> \<not> has_nul (in_Source x) \<and> ValidDigest (in_Digest x)) xs
     \<and> distinct (map in_ID xs) \<and> set (map in_ID xs) \<inter> set seen = {}"
  by (induction i seen xs rule: input_issues.induct) (auto simp: Let_def)

lemma path_issues_Nil:
  "path_issues prefix i seen ps = [] \<longleftrightarrow> well_formed_paths ps \<and> set (map snd ps) \<inter> set seen = {}"
  by (induction prefix i seen ps rule: path_issues.induct) (auto simp: Let_def well_formed_paths_def)

lemma artifact_issues_Nil:
  "artifact_issues prefix i seen xs = [] \<longleftrightarrow>
     list_all (\<lambda>x. IDPattern (ad_Name x) \<and> cleanAbsolutePath (ad_Path x)) xs
     \<and> distinct (map ad_Name xs) \<and> set (map ad_Name xs) \<inter> set seen = {}"
  by (induction prefix i seen xs rule: artifact_issues.induct) (auto simp: Let_def)

lemma argument_issues_Nil: "argument_issues prefix i as = [] \<longleftrightarrow> list_all (\<lambda>a. \<not> has_nul a) as"
  by (induction prefix i as rule: argument_issues.induct) auto

lemma env_issues_Nil: "env_issues prefix env = [] \<longleftrightarrow> list_all well_formed_variable env"
  by (auto simp: env_issues_def well_formed_variable_def list_all_iff split: if_splits)

lemma base_issues_Nil: "base_issues prefix b = [] \<longleftrightarrow> pred_option well_formed_base b"
  by (cases b) (auto simp: base_issues_def well_formed_base_def)

lemma validateStage_Nil: "validateStage prefix st = [] \<longleftrightarrow> well_formed_stage st"
  by (auto simp: validateStage_def Let_def argument_issues_Nil env_issues_Nil base_issues_Nil
      validatePaths_def path_issues_Nil artifact_issues_Nil well_formed_stage_def well_formed_command_def
      not_less)

lemma dependency_issues_Nil:
  "dependency_issues stages self i j seen ds = [] \<longleftrightarrow>
     self \<notin> set ds \<and> list_all (\<lambda>d. gm_get stages d \<noteq> None) ds \<and> distinct ds \<and> set ds \<inter> set seen = {}"
  by (induction stages self i j seen ds rule: dependency_issues.induct) (auto simp: Let_def)

lemma mount_issues_Nil: "mount_issues inputs i j ms = [] \<longleftrightarrow> list_all (\<lambda>m. mt_Source m \<in> set inputs) ms"
  by (induction inputs i j ms rule: mount_issues.induct) auto

text \<open>The stages registered so far, when every identifier was accepted.\<close>

abbreviation stage_map :: "Stage list \<Rightarrow> (string, Stage) gomap" where
  "stage_map sts \<equiv> map (\<lambda>st. (sg_ID st, st)) sts"

lemma register_stages_Nil:
  "fst (register_stages i (stage_map done) sts) = [] \<longleftrightarrow>
     list_all (\<lambda>st. IDPattern (sg_ID st) \<and> well_formed_stage st) sts
     \<and> distinct (map sg_ID sts) \<and> set (map sg_ID sts) \<inter> set (map sg_ID done) = {}"
proof (induction sts arbitrary: i "done")
  case (Cons st sts)
  have known: "gm_get (stage_map done) (sg_ID st) \<noteq> None \<longleftrightarrow> sg_ID st \<in> set (map sg_ID done)"
    by (force simp: gm_get_None_keys)
  show ?case
  proof (cases "IDPattern (sg_ID st) \<and> sg_ID st \<notin> set (map sg_ID done)")
    case True
    then have put: "gm_put (sg_ID st) st (stage_map done) = stage_map (done @ [st])"
      by (subst gm_put_new) (auto simp: comp_def)
    show ?thesis using True known put Cons.IH [of "Suc i" "done @ [st]"]
      by (auto simp: Let_def case_prod_beta validateStage_Nil)
  next
    case False
    then show ?thesis using known by (auto simp: Let_def case_prod_beta)
  qed
qed simp

lemma register_stages_map:
  "fst (register_stages i (stage_map done) sts) = [] \<Longrightarrow>
     snd (register_stages i (stage_map done) sts) = stage_map (done @ sts)"
proof (induction sts arbitrary: i "done")
  case (Cons st sts)
  have known: "gm_get (stage_map done) (sg_ID st) \<noteq> None \<longleftrightarrow> sg_ID st \<in> set (map sg_ID done)"
    by (force simp: gm_get_None_keys)
  have new: "IDPattern (sg_ID st)" "sg_ID st \<notin> set (map sg_ID done)"
    using Cons.prems by (auto simp: register_stages_Nil simp del: register_stages.simps)
  then have "gm_put (sg_ID st) st (stage_map done) = stage_map (done @ [st])"
    by (subst gm_put_new) (auto simp: comp_def)
  then show ?case using new known Cons.prems Cons.IH [of "Suc i" "done @ [st]"]
    by (auto simp: Let_def case_prod_beta)
qed simp

lemma stage_map_get_None: "gm_get (stage_map sts) i = None \<longleftrightarrow> i \<notin> set (map sg_ID sts)"
  by (force simp: gm_get_None_keys)

lemma stage_map_get_Some:
  "distinct (map sg_ID sts) \<Longrightarrow> gm_get (stage_map sts) i = Some st \<longleftrightarrow> st \<in> set sts \<and> sg_ID st = i"
  by (subst map_of_eq_Some_iff) (auto simp: comp_def)

lemma produces_get:
  "distinct (map sg_ID sts) \<Longrightarrow>
     produces sts i name \<longleftrightarrow>
       (case gm_get (stage_map sts) i of None \<Rightarrow> False
        | Some st \<Rightarrow> list_ex (\<lambda>a. ad_Name a = name) (sg_Outputs st))"
  using stage_map_get_Some [of sts i] stage_map_get_None [of sts i]
  by (auto simp: produces_def list_ex_iff split: option.splits) (metis not_None_eq)+

lemma artifact_input_issues_Nil:
  "distinct (map sg_ID sts) \<Longrightarrow>
   artifact_input_issues (stage_map sts) seen i j xs = [] \<longleftrightarrow>
     list_all (\<lambda>a. produces sts (ar_Stage a) (ar_Name a) \<and> ar_Stage a \<in> set seen
          \<and> (ar_Target a = [] \<or> cleanAbsolutePath (ar_Target a))) xs"
  by (induction "stage_map sts" seen i j xs rule: artifact_input_issues.induct)
     (auto simp: Let_def produces_get split: option.splits)

lemma output_issues_Nil:
  "distinct (map sg_ID sts) \<Longrightarrow>
   output_issues (stage_map sts) i seen xs = [] \<longleftrightarrow>
     list_all (\<lambda>x. IDPattern (ou_Name x) \<and> produces sts (ou_Stage x) (ou_Artifact x)) xs
     \<and> distinct (map ou_Name xs) \<and> set (map ou_Name xs) \<inter> set seen = {}"
  by (induction "stage_map sts" i seen xs rule: output_issues.induct)
     (auto simp: Let_def produces_get split: option.splits)

lemma reference_issues_Nil:
  assumes "distinct (map sg_ID (pl_Stages p))"
  shows "reference_issues (map in_ID (pl_Inputs p)) (stage_map (pl_Stages p)) i sts = [] \<longleftrightarrow>
     list_all (well_formed_references p) sts"
  by (induction sts arbitrary: i)
     (auto simp: dependency_issues_Nil mount_issues_Nil artifact_input_issues_Nil [OF assms]
        well_formed_references_def stage_map_get_None list_all_iff)

lemma validate_Nil:
  "fst (validate p) = [] \<longleftrightarrow> well_formed p"
proof (cases "MaxStages < length (pl_Stages p)")
  case True
  then show ?thesis by (simp add: validate_def Let_def well_formed_def)
next
  case False
  let ?reg = "register_stages 0 [] (pl_Stages p)"
  note reg = register_stages_Nil [of 0 "[]" "pl_Stages p", simplified]
  have fst: "fst (validate p) = [] \<longleftrightarrow> pl_APIVersion p \<in> set acceptedAPIVersions \<and> IDPattern (pl_Name p)
      \<and> pl_Stages p \<noteq> [] \<and> validateRequiredCapabilities (pl_RequiredCapabilities p) = []
      \<and> validateInputs (pl_Inputs p) = [] \<and> fst ?reg = []
      \<and> reference_issues (map in_ID (pl_Inputs p)) (snd ?reg) 0 (pl_Stages p) = []
      \<and> validateOutputs (pl_Outputs p) (snd ?reg) = []"
    using False by (auto simp: validate_def Let_def case_prod_beta)
  show ?thesis
  proof (cases "fst ?reg = []")
    case True
    with reg have d: "distinct (map sg_ID (pl_Stages p))" by simp
    from True have m: "snd ?reg = stage_map (pl_Stages p)"
      using register_stages_map [of 0 "[]" "pl_Stages p"] by simp
    show ?thesis
      using True reg d False unfolding fst m
      by (auto simp: reference_issues_Nil validateOutputs_def output_issues_Nil validateInputs_def
          input_issues_Nil validateRequiredCapabilities_def capability_issues_Nil well_formed_def)
  next
    case False
    with reg show ?thesis unfolding fst well_formed_def by blast
  qed
qed

lemma validate_stages:
  "well_formed p \<Longrightarrow> snd (validate p) = stage_map (pl_Stages p)"
proof -
  assume w: "well_formed p"
  then have "fst (register_stages 0 [] (pl_Stages p)) = []"
    using register_stages_Nil [of 0 "[]" "pl_Stages p"] by (simp add: well_formed_def)
  then have "snd (register_stages 0 [] (pl_Stages p)) = stage_map (pl_Stages p)"
    using register_stages_map [of 0 "[]" "pl_Stages p"] by simp
  then show ?thesis using w by (simp add: validate_def Let_def case_prod_beta well_formed_def)
qed

end
