(* ===== verification/Kahn.thy ===== *)
theory Kahn
  imports Prelude
begin

text \<open>
  The counting step of Kahn's algorithm, which \<^verbatim>\<open>scheduler/graph.go\<close>,
  \<^verbatim>\<open>scheduler/scheduler.go\<close> and \<^verbatim>\<open>migration/planner.go\<close> share: build the in-degrees
  and the dependents of every node, then decrement the dependents of a finished node
  and collect the ones that reach zero. The lemmas here say what the loops compute,
  whatever the iteration order of the maps.
\<close>

section \<open>The loops\<close>

text \<open>
  \<^verbatim>\<open>for _, dependency := range stage.DependsOn { dependents[dependency] = append(...) }\<close>
\<close>

primrec add_dependents :: "'k \<Rightarrow> 'k list \<Rightarrow> ('k, 'k list) gomap \<Rightarrow> ('k, 'k list) gomap" where
  "add_dependents x [] m = m"
| "add_dependents x (d # ds) m = add_dependents x ds (gm_put d (gm_or m [] d @ [x]) m)"

fun build_graph ::
  "('k, 'k list) gomap \<Rightarrow> ('k, int) gomap \<times> ('k, 'k list) gomap \<Rightarrow> ('k, int) gomap \<times> ('k, 'k list) gomap" where
  "build_graph [] (indegree, dependents) = (indegree, dependents)"
| "build_graph ((x, ds) # xs) (indegree, dependents) =
     build_graph xs (gm_put x (int (length ds)) indegree, add_dependents x ds dependents)"

text \<open>
  \<^verbatim>\<open>indegree[dependent]--; if indegree[dependent] == 0 { next = append(next, dependent) }\<close>
\<close>

fun decrement :: "'k list \<Rightarrow> ('k, int) gomap \<times> 'k list \<Rightarrow> ('k, int) gomap \<times> 'k list" where
  "decrement [] (indegree, nxt) = (indegree, nxt)"
| "decrement (d # ds) (indegree, nxt) =
     (let k = gm_or indegree 0 d - 1
      in decrement ds (gm_put d k indegree, if k = 0 then nxt @ [d] else nxt))"

section \<open>What they compute\<close>

lemma add_dependents_get:
  "gm_or (add_dependents x ds m) [] d = gm_or m [] d @ replicate (count_list ds d) x"
  by (induction ds arbitrary: m) (auto simp: replicate_append_same)

lemma build_graph_keys: "set (gm_keys (fst (build_graph xs s))) = set (gm_keys (fst s)) \<union> fst ` set xs"
  by (induction xs s rule: build_graph.induct) (auto simp: dom_update)

lemma build_graph_distinct: "distinct (gm_keys (fst s)) \<Longrightarrow> distinct (gm_keys (fst (build_graph xs s)))"
  by (induction xs s rule: build_graph.induct) auto

lemma build_graph_indegree:
  "distinct (gm_keys xs) \<Longrightarrow>
     gm_or (fst (build_graph xs s)) 0 x =
       (case gm_get xs x of None \<Rightarrow> gm_or (fst s) 0 x | Some ds \<Rightarrow> int (length ds))"
proof (induction xs s rule: build_graph.induct)
  case (2 x' ds xs ind dep)
  from 2 have "gm_get xs x' = None" by (simp add: map_of_eq_None_iff)
  with 2 show ?case by (cases "x = x'") (simp_all split: option.split)
qed simp

lemma build_graph_dependents:
  "gm_or (snd (build_graph xs s)) [] d =
     gm_or (snd s) [] d @ concat (map (\<lambda>(x, ds). replicate (count_list ds d) x) xs)"
  by (induction xs s rule: build_graph.induct) (auto simp: add_dependents_get)

lemma count_list_replicate: "count_list (replicate n x) y = (if x = y then n else 0)"
  by (induction n) auto

lemma count_dependents:
  "distinct (gm_keys xs) \<Longrightarrow>
     count_list (concat (map (\<lambda>(x, ds). replicate (count_list ds d) x) xs)) y =
       (case gm_get xs y of None \<Rightarrow> 0 | Some ds \<Rightarrow> count_list ds d)"
proof (induction xs)
  case (Cons p xs)
  obtain x ds where p: "p = (x, ds)" by force
  with Cons.prems have "gm_get xs x = None" by (simp add: map_of_eq_None_iff)
  with Cons p show ?case by (simp add: count_list_replicate split: option.split)
qed simp

lemma decrement_indegree:
  "gm_or (fst (decrement ds s)) 0 k = gm_or (fst s) 0 k - int (count_list ds k)"
  by (induction ds s rule: decrement.induct) (auto simp: Let_def)

lemma decrement_next:
  "set (snd (decrement ds s)) =
     set (snd s) \<union> {k. 0 < gm_or (fst s) 0 k \<and> gm_or (fst s) 0 k \<le> int (count_list ds k)}"
proof (induction ds s rule: decrement.induct)
  case (2 d ds indegree nxt)
  show ?case
  proof (rule set_eqI)
    fix k
    show "k \<in> set (snd (decrement (d # ds) (indegree, nxt))) \<longleftrightarrow>
        k \<in> set (snd (indegree, nxt)) \<union>
          {k. 0 < gm_or (fst (indegree, nxt)) 0 k
            \<and> gm_or (fst (indegree, nxt)) 0 k \<le> int (count_list (d # ds) k)}"
      by (cases "k = d"; cases "gm_or indegree 0 d = 1") (use "2.IH" [OF refl] in auto)
  qed
qed auto

lemma decrement_next_distinct:
  "distinct (snd s) \<Longrightarrow> (\<And>k. k \<in> set (snd s) \<Longrightarrow> gm_or (fst s) 0 k \<le> 0) \<Longrightarrow>
     distinct (snd (decrement ds s))"
proof (induction ds s rule: decrement.induct)
  case (2 d ds indegree nxt)
  have d: "d \<notin> set nxt" if "gm_or indegree 0 d = 1" using "2.prems"(2) [of d] that by auto
  have le: "(if k = d then gm_or indegree 0 d - 1 else gm_or indegree 0 k) \<le> 0"
    if "k \<in> set nxt" for k using "2.prems"(2) [of k] that by auto
  show ?case
  proof (cases "gm_or indegree 0 d = 1")
    case True
    have "(if k = d then 0 else gm_or indegree 0 k) \<le> 0"
      if "k = d \<or> k \<in> set nxt" for k using le [of k] True that by auto
    with "2.IH" [OF refl] "2.prems"(1) d True show ?thesis by (simp add: Let_def)
  next
    case False
    with "2.IH" [OF refl] "2.prems"(1) le show ?thesis by (simp add: Let_def)
  qed
qed simp

lemma decrement_keys: "set (gm_keys (fst (decrement ds s))) = set (gm_keys (fst s)) \<union> set ds"
  by (induction ds s rule: decrement.induct) (auto simp: Let_def dom_update simp del: list.set_map)

lemma decrement_distinct: "distinct (gm_keys (fst s)) \<Longrightarrow> distinct (gm_keys (fst (decrement ds s)))"
  by (induction ds s rule: decrement.induct) (auto simp: Let_def)

lemma decrement_acc:
  "decrement ds (ind, nxt) = (fst (decrement ds (ind, [])), nxt @ snd (decrement ds (ind, [])))"
proof (induction ds arbitrary: ind nxt)
  case (Cons d ds)
  show ?case
  proof (cases "gm_or ind 0 d = 1")
    case True
    then show ?thesis
      using Cons.IH [of "gm_put d 0 ind" "nxt @ [d]"] Cons.IH [of "gm_put d 0 ind" "[d]"] by (simp add: Let_def)
  next
    case False
    then show ?thesis using Cons.IH [of "gm_put d (gm_or ind 0 d - 1) ind" nxt] by (simp add: Let_def)
  qed
qed simp

lemma decrement_concat:
  "decrement (xs @ ys) s = decrement ys (decrement xs s)"
  by (induction xs s rule: decrement.induct) (auto simp: Let_def)

text \<open>The number of nodes still waiting drops by at least the number of nodes released.\<close>

definition waiting :: "('k, int) gomap \<Rightarrow> 'k set" where
  "waiting indegree = {k. 0 < gm_or indegree 0 k}"

lemma finite_waiting [simp]: "finite (waiting ind)"
proof (rule finite_subset)
  show "waiting ind \<subseteq> set (gm_keys ind)"
    by (auto simp: waiting_def gm_or_def dest: gm_get_some_key split: option.splits)
qed simp

lemma waiting_decrement:
  "waiting (fst (decrement ds (ind, []))) = waiting ind - set (snd (decrement ds (ind, [])))"
  by (auto simp: waiting_def decrement_indegree decrement_next)

lemma released_waiting: "set (snd (decrement ds (ind, []))) \<subseteq> waiting ind"
  by (auto simp: waiting_def decrement_next)

section \<open>Greedy layers\<close>

text \<open>
  The reference definition: after the nodes \<open>P\<close>, the next layer holds every remaining
  node whose dependencies all lie in \<open>P\<close>, in increasing order.
\<close>

abbreviation deps :: "('k, 'k list) gomap \<Rightarrow> 'k \<Rightarrow> 'k list" where
  "deps G \<equiv> gm_or G []"

definition frontier :: "('k :: linorder, 'k list) gomap \<Rightarrow> 'k list \<Rightarrow> 'k list" where
  "frontier G P = sort (filter (\<lambda>k. k \<notin> set P \<and> list_all (\<lambda>d. d \<in> set P) (deps G k)) (gm_keys G))"

fun greedy :: "nat \<Rightarrow> ('k :: linorder, 'k list) gomap \<Rightarrow> 'k list \<Rightarrow> 'k list list" where
  "greedy 0 G P = []"
| "greedy (Suc n) G P =
     (let layer = frontier G P in if layer = [] then [] else layer # greedy n G (P @ layer))"

text \<open>A dependency map as the validated inputs have it.\<close>

definition graph_ok :: "('k, 'k list) gomap \<Rightarrow> bool" where
  "graph_ok G \<longleftrightarrow> distinct (gm_keys G)
     \<and> list_all (\<lambda>(k, ds). distinct ds \<and> list_all (\<lambda>d. d \<in> set (gm_keys G)) ds) G"

definition dep_rel :: "('k, 'k list) gomap \<Rightarrow> ('k \<times> 'k) set" where
  "dep_rel G = {(d, k). d \<in> set (deps G k)}"

text \<open>Prefixes of an order that contain the dependencies of every member.\<close>

definition closed :: "('k, 'k list) gomap \<Rightarrow> 'k list \<Rightarrow> bool" where
  "closed G P \<longleftrightarrow> distinct P \<and> set P \<subseteq> set (gm_keys G) \<and> (\<forall>k\<in>set P. set (deps G k) \<subseteq> set P)"

lemma deps_distinct: "graph_ok G \<Longrightarrow> distinct (deps G k)"
  by (auto simp: graph_ok_def gm_or_def list_all_iff dest!: map_of_SomeD split: option.splits)

lemma deps_keys: "graph_ok G \<Longrightarrow> set (deps G k) \<subseteq> set (gm_keys G)"
  by (auto simp: graph_ok_def gm_or_def list_all_iff dest!: map_of_SomeD split: option.splits)

lemma deps_key: "d \<in> set (deps G k) \<Longrightarrow> k \<in> set (gm_keys G)"
  by (cases "gm_get G k") (force simp: gm_or_def dest: map_of_SomeD)+

lemma frontier_set:
  "set (frontier G P) = {k \<in> set (gm_keys G). k \<notin> set P \<and> set (deps G k) \<subseteq> set P}"
  by (auto simp: frontier_def list_all_iff)

lemma frontier_distinct: "graph_ok G \<Longrightarrow> distinct (frontier G P)"
  by (simp add: frontier_def graph_ok_def)

lemma frontier_sorted: "sorted (frontier G P)"
  by (simp add: frontier_def)

lemma closed_frontier: "graph_ok G \<Longrightarrow> closed G P \<Longrightarrow> closed G (P @ frontier G P)"
  by (auto simp: closed_def frontier_set frontier_distinct)

lemma frontier_cong:
  "mset G = mset G' \<Longrightarrow> graph_ok G \<Longrightarrow> frontier G P = frontier G' P"
proof -
  assume m: "mset G = mset G'" and ok: "graph_ok G"
  then have g: "gm_get G = gm_get G'" by (intro gm_get_perm) (simp add: graph_ok_def)
  have d: "deps G = deps G'" by (rule ext) (simp add: gm_or_def g)
  have "mset (gm_keys G) = mset (gm_keys G')" using m by simp
  then show ?thesis unfolding frontier_def d by (intro sort_eq_mset) (metis mset_filter)
qed

section \<open>The level loop\<close>

text \<open>
  The outer loop of \<^verbatim>\<open>topological\<close>: emit the ready nodes as a level, decrement all their
  dependents, sort the released ones. The result pairs the levels with the final
  in-degrees.
\<close>

function levels_loop ::
  "('k :: linorder, 'k list) gomap \<Rightarrow> 'k list \<Rightarrow> ('k, int) gomap \<Rightarrow> 'k list list \<times> ('k, int) gomap" where
  "levels_loop dependents ready indegree =
     (if ready = [] then ([], indegree)
      else let (indegree', nxt) =
             decrement (concat (map (\<lambda>i. sort (gm_or dependents [] i)) ready)) (indegree, []);
               (levels, final) = levels_loop dependents (sort nxt) indegree'
           in (ready # levels, final))"
  by pat_completeness auto

termination
proof (relation "(\<lambda>(d, r, i). card (waiting i)) <*mlex*> measure (\<lambda>(d, r, i). if r = [] then 0 else 1)")
  fix dependents :: "('k :: linorder, 'k list) gomap" and ready :: "'k list" and ind x ind' nxt
  assume ready: "ready \<noteq> []"
    and x: "x = decrement (concat (map (\<lambda>i. sort (gm_or dependents [] i)) ready)) (ind, [])"
    and p: "(ind', nxt) = x"
  have w: "waiting ind' = waiting ind - set nxt" "set nxt \<subseteq> waiting ind"
    using waiting_decrement released_waiting x p by (metis fst_conv snd_conv)+
  show "((dependents, sort nxt, ind'), dependents, ready, ind)
      \<in> (\<lambda>(d, r, i). card (waiting i)) <*mlex*> measure (\<lambda>(d, r, i). if r = [] then 0 else 1)"
  proof (cases "nxt = []")
    case True
    with w ready show ?thesis by (intro mlex_leq) auto
  next
    case False
    with w(2) have "waiting ind' \<subset> waiting ind" unfolding w(1) by (cases nxt) auto
    then show ?thesis by (intro mlex_less) (simp add: psubset_card_mono)
  qed
qed (simp add: wf_mlex)

declare levels_loop.simps [simp del]

text \<open>The loop invariant: every counter holds the number of unfinished dependencies.\<close>

definition counts :: "('k, 'k list) gomap \<Rightarrow> 'k list \<Rightarrow> ('k, int) gomap \<Rightarrow> bool" where
  "counts G P indegree \<longleftrightarrow>
     (\<forall>k. gm_or indegree 0 k = int (length (filter (\<lambda>d. d \<notin> set P) (deps G k))))
     \<and> set (gm_keys indegree) = set (gm_keys G) \<and> distinct (gm_keys indegree)"

definition dependents_of :: "('k, 'k list) gomap \<Rightarrow> ('k, 'k list) gomap \<Rightarrow> bool" where
  "dependents_of G dependents \<longleftrightarrow>
     (\<forall>d k. count_list (gm_or dependents [] d) k = count_list (deps G k) d)"

lemma build_graph_counts:
  "distinct (gm_keys G) \<Longrightarrow> counts G [] (fst (build_graph G ([], [])))"
  using build_graph_indegree [of G "([], [])"] build_graph_keys [of G "([], [])"]
    build_graph_distinct [of "([], [])" G]
  by (auto simp: counts_def gm_or_def split: option.splits)

lemma build_graph_dependents_of:
  "distinct (gm_keys G) \<Longrightarrow> dependents_of G (snd (build_graph G ([], [])))"
  by (simp add: dependents_of_def build_graph_dependents count_dependents)
     (simp add: gm_or_def split: option.split)

lemma count_list_sort [simp]: "count_list (sort xs) x = count_list xs x"
  by (metis count_mset mset_sort)

lemma count_concat: "count_list (concat xss) x = sum_list (map (\<lambda>xs. count_list xs x) xss)"
  by (induction xss) auto

lemma count_list_distinct: "distinct xs \<Longrightarrow> count_list xs x = (if x \<in> set xs then 1 else 0)"
  by (induction xs) auto

lemma filter_disj_length:
  "\<not> Q x \<Longrightarrow> length (filter (\<lambda>y. y = x \<or> Q y) ys) = count_list ys x + length (filter Q ys)"
  by (induction ys) auto

lemma sum_count_members:
  "distinct xs \<Longrightarrow> distinct ys \<Longrightarrow>
     sum_list (map (\<lambda>x. count_list ys x) xs) = length (filter (\<lambda>y. y \<in> set xs) ys)"
proof (induction xs)
  case (Cons x xs)
  then show ?case using filter_disj_length [of "\<lambda>y. y \<in> set xs" x ys] by simp
qed simp

lemma released_count:
  assumes "dependents_of G dependents" "graph_ok G" "distinct ready"
  shows "count_list (concat (map (\<lambda>i. sort (gm_or dependents [] i)) ready)) k =
     length (filter (\<lambda>d. d \<in> set ready) (deps G k))"
  using assms sum_count_members [of ready "deps G k"]
  by (simp add: count_concat comp_def dependents_of_def deps_distinct)

lemma filter_split_length:
  "set xs \<inter> set P = {} \<Longrightarrow>
     length (filter (\<lambda>d. d \<notin> set P) ds) =
       length (filter (\<lambda>d. d \<notin> set (P @ xs)) ds) + length (filter (\<lambda>d. d \<in> set xs) ds)"
  by (induction ds) auto

lemma finish_counts:
  assumes "dependents_of G dependents" "graph_ok G" "distinct ready" and disj: "set ready \<inter> set P = {}"
    and cnts: "counts G P indegree"
    and dec: "decrement (concat (map (\<lambda>i. sort (gm_or dependents [] i)) ready)) (indegree, [])
       = (indegree', nxt)"
  shows "counts G (P @ ready) indegree'"
    and "set nxt = {k. \<not> set (deps G k) \<subseteq> set P \<and> set (deps G k) \<subseteq> set P \<union> set ready}"
    and "distinct nxt"
proof -
  let ?ds = "concat (map (\<lambda>i. sort (gm_or dependents [] i)) ready)"
  have cnt: "count_list ?ds k = length (filter (\<lambda>d. d \<in> set ready) (deps G k))" for k
    using released_count [OF assms(1-3)] .
  note split = filter_split_length [OF disj]
  have ind: "gm_or indegree 0 k = int (length (filter (\<lambda>d. d \<notin> set P) (deps G k)))" for k
    using cnts by (simp add: counts_def)
  have "set ?ds \<subseteq> set (gm_keys G)"
  proof
    fix k assume "k \<in> set ?ds"
    then have "count_list ?ds k \<noteq> 0" by (simp add: count_list_0_iff)
    then have "deps G k \<noteq> []" using cnt [of k] by auto
    then show "k \<in> set (gm_keys G)" using deps_key [of "hd (deps G k)" G k] hd_in_set by blast
  qed
  then have keys: "set (gm_keys indegree') = set (gm_keys G)" "distinct (gm_keys indegree')"
    using decrement_keys [of ?ds "(indegree, [])"] decrement_distinct [of "(indegree, [])" ?ds] dec cnts
    unfolding counts_def by (simp_all add: Un_absorb2 del: list.set_map)
  have "gm_or indegree' 0 k = int (length (filter (\<lambda>d. d \<notin> set (P @ ready)) (deps G k)))" for k
    using decrement_indegree [of ?ds "(indegree, [])" k] dec ind [of k] cnt [of k] split [of "deps G k"] by simp
  with keys show "counts G (P @ ready) indegree'" by (simp add: counts_def)
  show "distinct nxt" using decrement_next_distinct [of "(indegree, [])" ?ds] dec by simp
  have "k \<in> set nxt \<longleftrightarrow> \<not> set (deps G k) \<subseteq> set P \<and> set (deps G k) \<subseteq> set P \<union> set ready" for k
  proof -
    have "k \<in> set nxt \<longleftrightarrow> 0 < length (filter (\<lambda>d. d \<notin> set P) (deps G k))
        \<and> length (filter (\<lambda>d. d \<notin> set (P @ ready)) (deps G k)) = 0"
      using decrement_next [of ?ds "(indegree, [])"] dec ind [of k] cnt [of k] split [of "deps G k"] by auto
    then show ?thesis by (auto simp: filter_empty_conv)
  qed
  then show "set nxt = {k. \<not> set (deps G k) \<subseteq> set P \<and> set (deps G k) \<subseteq> set P \<union> set ready}" by blast
qed

lemma round_counts:
  assumes "dependents_of G dependents" "graph_ok G" "closed G P" "counts G P indegree"
    and dec: "decrement (concat (map (\<lambda>i. sort (gm_or dependents [] i)) (frontier G P))) (indegree, [])
       = (indegree', nxt)"
  shows "counts G (P @ frontier G P) indegree' \<and> sort nxt = frontier G (P @ frontier G P)"
proof -
  let ?r = "frontier G P"
  have disj: "set ?r \<inter> set P = {}" by (auto simp: frontier_set)
  note fin = finish_counts [OF assms(1,2) frontier_distinct [OF assms(2)] disj assms(4) dec]
  have "set nxt = set (frontier G (P @ ?r))"
    using assms(3) deps_key [of _ G] unfolding fin(2) by (auto simp: frontier_set closed_def)
  then have "sort nxt = frontier G (P @ ?r)"
    using sort_set_eq [OF fin(3) frontier_distinct [OF assms(2)]] frontier_sorted
    by (metis sorted_sort_id)
  with fin(1) show ?thesis by simp
qed

lemma greedy_closed: "graph_ok G \<Longrightarrow> closed G P \<Longrightarrow> closed G (P @ concat (greedy n G P))"
proof (induction n arbitrary: P)
  case (Suc n)
  then show ?case using closed_frontier [of G P] Suc.IH [of "P @ frontier G P"] by (auto simp: Let_def)
qed simp

lemma closed_length: "closed G P \<Longrightarrow> length P \<le> length G"
  by (metis closed_def card_mono card_length distinct_card finite_set le_trans length_map)

lemma greedy_maximal:
  "graph_ok G \<Longrightarrow> closed G P \<Longrightarrow> length G < length P + n \<Longrightarrow>
     frontier G (P @ concat (greedy n G P)) = []"
proof (induction n arbitrary: P)
  case 0
  then show ?case using closed_length [of G P] by simp
next
  case (Suc n)
  have "length G < length (P @ frontier G P) + n" if "frontier G P \<noteq> []"
    using Suc.prems(3) that by (cases "frontier G P") simp_all
  then show ?case
    using Suc.prems closed_frontier [of G P] Suc.IH [of "P @ frontier G P"]
    by (cases "frontier G P = []") (auto simp: Let_def)
qed

lemma levels_loop_greedy:
  assumes "dependents_of G dependents" "graph_ok G"
  shows "closed G P \<Longrightarrow> counts G P indegree \<Longrightarrow> length G < length P + n \<Longrightarrow>
    fst (levels_loop dependents (frontier G P) indegree) = greedy n G P
    \<and> counts G (P @ concat (greedy n G P)) (snd (levels_loop dependents (frontier G P) indegree))"
proof (induction n arbitrary: P indegree)
  case 0
  then show ?case using closed_length [of G P] by simp
next
  case (Suc n)
  show ?case
  proof (cases "frontier G P = []")
    case True
    with Suc.prems show ?thesis by (simp add: levels_loop.simps Let_def)
  next
    case False
    obtain indegree' nxt where dec:
      "decrement (concat (map (\<lambda>i. sort (gm_or dependents [] i)) (frontier G P))) (indegree, [])
         = (indegree', nxt)" by force
    note r = round_counts [OF assms Suc.prems(1,2) dec]
    have "length G < length (P @ frontier G P) + n"
      using Suc.prems(3) False by (cases "frontier G P") simp_all
    with Suc.IH [of "P @ frontier G P" indegree'] r closed_frontier [OF assms(2) Suc.prems(1)]
    show ?thesis using False dec
      by (subst (1 2) levels_loop.simps) (simp add: Let_def case_prod_beta)
  qed
qed

text \<open>Whether the layers exhaust the graph is exactly whether the relation has no cycle.\<close>

lemma dep_rel_keys: "graph_ok G \<Longrightarrow> dep_rel G \<subseteq> set (gm_keys G) \<times> set (gm_keys G)"
  using deps_keys [of G] deps_key [of _ G] by (auto simp: dep_rel_def simp del: set_map)

lemma acyclic_exhausted:
  assumes ok: "graph_ok G" and ac: "acyclic (dep_rel G)" and fr: "frontier G P = []"
  shows "set (gm_keys G) \<subseteq> set P"
proof (rule ccontr)
  assume "\<not> set (gm_keys G) \<subseteq> set P"
  then have ne: "set (gm_keys G) - set P \<noteq> {}" by auto
  have "finite (dep_rel G)" using dep_rel_keys [OF ok] by (rule finite_subset) simp
  then have "wf (dep_rel G)" using ac by (rule finite_acyclic_wf)
  then obtain k where k: "k \<in> set (gm_keys G) - set P"
    and min: "\<And>d. (d, k) \<in> dep_rel G \<Longrightarrow> d \<notin> set (gm_keys G) - set P"
    using ne by (metis wfE_min all_not_in_conv)
  then have "set (deps G k) \<subseteq> set P" using deps_keys [OF ok, of k] by (auto simp: dep_rel_def)
  with k have "k \<in> set (frontier G P)" by (simp add: frontier_set)
  with fr show False by simp
qed

lemma greedy_level_before:
  "graph_ok G \<Longrightarrow> closed G P \<Longrightarrow> j < length (greedy n G P) \<Longrightarrow> k \<in> set (greedy n G P ! j) \<Longrightarrow>
     d \<in> set (deps G k) \<Longrightarrow> d \<in> set P \<or> (\<exists>i<j. d \<in> set (greedy n G P ! i))"
proof (induction n arbitrary: P j)
  case (Suc n)
  then have ne: "frontier G P \<noteq> []" by (auto simp: Let_def)
  show ?case
  proof (cases j)
    case 0
    with Suc.prems ne show ?thesis by (auto simp: Let_def frontier_set)
  next
    case (Suc j')
    have "d \<in> set (P @ frontier G P) \<or> (\<exists>i<j'. d \<in> set (greedy n G (P @ frontier G P) ! i))"
      using Suc.prems Suc ne closed_frontier [OF Suc.prems(1,2)] Suc.IH [of "P @ frontier G P" j']
      by (auto simp: Let_def)
    then show ?thesis using Suc ne by (force simp: Let_def)
  qed
qed simp

lemma order_acyclic:
  assumes "\<And>d k. (d, k) \<in> R \<Longrightarrow> (f d :: nat) < f k"
  shows "acyclic R"
  by (rule wf_acyclic, rule wf_subset [of "measure f"]) (auto dest: assms)

declare greedy.simps [simp del]

lemma greedy_acyclic:
  assumes ok: "graph_ok G" and all: "set (gm_keys G) \<subseteq> set (concat (greedy n G []))"
  shows "acyclic (dep_rel G)"
proof -
  define L where "L = greedy n G []"
  define f where "f x = (LEAST j. j < length L \<and> x \<in> set (L ! j))" for x
  have f: "f k < length L \<and> k \<in> set (L ! f k)" if "k \<in> set (gm_keys G)" for k
  proof -
    have "k \<in> set (concat L)" using that all unfolding L_def by blast
    then obtain l where "l \<in> set L" "k \<in> set l" by auto
    then obtain j where "j < length L \<and> k \<in> set (L ! j)" using in_set_conv_nth [of l L] by auto
    then show ?thesis unfolding f_def by (rule LeastI)
  qed
  have "f d < f k" if "(d, k) \<in> dep_rel G" for d k
  proof -
    have d: "d \<in> set (deps G k)" using that by (simp add: dep_rel_def)
    note k = f [OF deps_key [OF d]]
    have "closed G []" by (simp add: closed_def)
    from greedy_level_before [OF ok this _ _ d, of "f k" n] k
    obtain i where i: "i < f k" "d \<in> set (L ! i)" unfolding L_def by auto
    have "f d \<le> i" unfolding f_def using i k by (intro Least_le) simp
    with i show ?thesis by simp
  qed
  then show ?thesis by (rule order_acyclic)
qed

lemma graph_ok_perm: "mset G = mset G' \<Longrightarrow> graph_ok G \<longleftrightarrow> graph_ok G'"
proof -
  assume m: "mset G = mset G'"
  have "set G = set G'" using m by (rule mset_eq_setD)
  moreover have "distinct (gm_keys G) = distinct (gm_keys G')"
    using m by (intro mset_eq_imp_distinct_iff) simp
  ultimately show ?thesis by (simp add: graph_ok_def list_all_iff)
qed

lemma greedy_cong:
  "mset G = mset G' \<Longrightarrow> graph_ok G \<Longrightarrow> greedy n G P = greedy n G' P"
  by (induction n arbitrary: P) (simp_all add: greedy.simps frontier_cong Let_def)

lemma greedy_sorted: "l \<in> set (greedy n G P) \<Longrightarrow> sorted l \<and> l \<noteq> []"
  by (induction n arbitrary: P) (auto simp: greedy.simps Let_def frontier_sorted split: if_splits)

text \<open>No node could have been placed earlier: it waits for a member of the layer before.\<close>

lemma greedy_earliest:
  "graph_ok G \<Longrightarrow> closed G P \<Longrightarrow> Suc j < length (greedy n G P) \<Longrightarrow> k \<in> set (greedy n G P ! Suc j) \<Longrightarrow>
     \<exists>d\<in>set (deps G k). d \<in> set (greedy n G P ! j)"
proof (induction n arbitrary: P j)
  case (Suc n)
  then have ne: "frontier G P \<noteq> []" by (auto simp: Let_def greedy.simps)
  let ?P = "P @ frontier G P"
  have k: "k \<in> set (greedy n G ?P ! j)" "j < length (greedy n G ?P)"
    using Suc.prems ne by (auto simp: Let_def greedy.simps)
  show ?case
  proof (cases j)
    case 0
    with k obtain m where "n = Suc m" by (cases n) (auto simp: greedy.simps)
    with k 0 have "k \<in> set (frontier G ?P)" by (auto simp: Let_def greedy.simps split: if_splits)
    then have k': "k \<in> set (gm_keys G)" "k \<notin> set P" "k \<notin> set (frontier G P)"
      "set (deps G k) \<subseteq> set P \<union> set (frontier G P)"
      using frontier_set [of G ?P] by (simp_all del: set_map)
    then have "\<not> set (deps G k) \<subseteq> set P" using frontier_set [of G P] by blast
    with k'(4) obtain d where "d \<in> set (deps G k)" "d \<in> set (frontier G P)" by blast
    then show ?thesis using 0 ne by (auto simp: Let_def greedy.simps)
  next
    case (Suc j')
    with k Suc.IH [of ?P j'] Suc.prems closed_frontier [of G P] ne show ?thesis
      by (auto simp: Let_def greedy.simps)
  qed
qed (simp add: greedy.simps)

end
