(* ===== verification/Pipeline_Graph.thy ===== *)
theory Pipeline_Graph
  imports Pipeline_Validation Kahn
begin

text \<open>
  Pipeline analysis, the second half of \<^verbatim>\<open>internal/scheduler/graph.go\<close>: \<^verbatim>\<open>topological\<close>,
  the level-wise Kahn order, and \<^verbatim>\<open>Analyze\<close>. Shown: the pipelines \<^verbatim>\<open>Analyze\<close> accepts
  are exactly the well-formed acyclic ones; the levels it returns are the greedy layers
  of the dependency relation; the result does not depend on map iteration order.
\<close>

section \<open>Operations\<close>

record Graph =
  gr_Order :: "string list"
  gr_Levels :: "string list list"

definition dep_map :: "(string, Stage) gomap \<Rightarrow> (string, string list) gomap" where
  "dep_map stages = map (\<lambda>(i, st). (i, sg_DependsOn st)) stages"

text \<open>
  The list order of \<open>stages\<close>, and of the in-degree map built from it, stands for the
  iteration order of the Go maps. The ready nodes are sorted before the loop, and the
  nodes left with a positive counter after it.
\<close>

definition topological :: "(string, Stage) gomap \<Rightarrow> Graph \<times> string list" where
  "topological stages =
     (let (indegree, dependents) = build_graph (dep_map stages) ([], []);
          ready = sort (map fst (filter (\<lambda>(i, degree). degree = 0) indegree));
          (levels, final) = levels_loop dependents ready indegree
      in (\<lparr>gr_Order = concat levels, gr_Levels = levels\<rparr>,
          sort (map fst (filter (\<lambda>(i, degree). 0 < degree) final))))"

definition Analyze :: "Pipeline \<Rightarrow> Issue list + Graph" where
  "Analyze p =
     (let (issues, stages) = validate p
      in if issues \<noteq> [] then Inl (newValidationError issues)
         else let (graph, remaining) = topological stages
              in if remaining \<noteq> []
                 then Inl (newValidationError (issues
                        @ [issue ''stages'' (''dependency cycle contains '' @ join_with '', '' remaining)]))
                 else Inr graph)"

section \<open>What they compute\<close>

lemma filter_counts:
  assumes "counts G P ind" "graph_ok G"
  shows "set (map fst (filter (\<lambda>(i, n). Q n) ind)) =
           {k \<in> set (gm_keys G). Q (int (length (filter (\<lambda>d. d \<notin> set P) (deps G k))))}"
    and "distinct (map fst (filter (\<lambda>(i, n). Q n) ind))"
proof -
  have d: "distinct (gm_keys ind)" and k: "set (gm_keys ind) = set (gm_keys G)"
    and v: "\<And>k. gm_or ind 0 k = int (length (filter (\<lambda>d. d \<notin> set P) (deps G k)))"
    using assms(1) unfolding counts_def by blast+
  show "distinct (map fst (filter (\<lambda>(i, n). Q n) ind))" using d by (rule distinct_map_filter)
  have val: "(i, n) \<in> set ind \<longleftrightarrow> i \<in> set (gm_keys G) \<and> n = gm_or ind 0 i" for i n
  proof -
    have "(i, n) \<in> set ind \<longleftrightarrow> gm_get ind i = Some n" using d by simp
    also have "\<dots> \<longleftrightarrow> i \<in> set (gm_keys ind) \<and> n = gm_or ind 0 i"
      by (cases "gm_get ind i") (auto simp: gm_or_def gm_get_None_keys gm_get_some_key simp del: set_map)
    finally show ?thesis using k by simp
  qed
  show "set (map fst (filter (\<lambda>(i, n). Q n) ind)) =
           {k \<in> set (gm_keys G). Q (int (length (filter (\<lambda>d. d \<notin> set P) (deps G k))))}"
    unfolding v [symmetric] using val by (auto simp del: set_map) (force simp: image_iff)+
qed

lemma topological_greedy:
  assumes ok: "graph_ok (dep_map stages)"
  defines "G \<equiv> dep_map stages"
  defines "L \<equiv> greedy (Suc (length stages)) G []"
  shows "topological stages =
    (\<lparr>gr_Order = concat L, gr_Levels = L\<rparr>, sort (filter (\<lambda>k. k \<notin> set (concat L)) (gm_keys G)))"
proof -
  obtain ind dep where b: "build_graph G ([], []) = (ind, dep)" by force
  have d: "distinct (gm_keys G)" using ok by (simp add: graph_ok_def G_def)
  have c0: "counts G [] ind" and dep: "dependents_of G dep"
    using build_graph_counts [OF d] build_graph_dependents_of [OF d] b by simp_all
  have okG: "graph_ok G" using ok by (simp add: G_def)
  have cl: "closed G []" by (simp add: closed_def)
  have len: "length G < length ([] :: string list) + Suc (length stages)" by (simp add: G_def dep_map_def)
  have "set (map fst (filter (\<lambda>(i, n). n = 0) ind)) = set (frontier G [])"
    unfolding filter_counts(1) [OF c0 okG] by (auto simp: frontier_set)
  then have ready: "sort (map fst (filter (\<lambda>(i, n). n = 0) ind)) = frontier G []"
    using sort_set_eq [OF filter_counts(2) [OF c0 okG] frontier_distinct [OF okG]]
      frontier_sorted [of G "[]"] by (metis sorted_sort_id)
  note loop = levels_loop_greedy [OF dep okG cl c0 len]
  let ?fin = "snd (levels_loop dep (frontier G []) ind)"
  have cf: "counts G (concat L) ?fin" using loop by (simp add: L_def)
  have maximal: "frontier G (concat L) = []"
    using greedy_maximal [OF okG cl len] by (simp add: L_def)
  have closed: "closed G (concat L)"
    using greedy_closed [OF okG cl, of "Suc (length stages)"] unfolding L_def by simp
  have down: "k \<in> set (concat L) \<Longrightarrow> set (deps G k) \<subseteq> set (concat L)" for k
    using closed unfolding closed_def by blast
  have up: "k \<in> set (gm_keys G) \<Longrightarrow> set (deps G k) \<subseteq> set (concat L) \<Longrightarrow> k \<in> set (concat L)" for k
    using frontier_set [of G "concat L"] unfolding maximal list.set by blast
  have "k \<in> set (gm_keys G) \<Longrightarrow> k \<notin> set (concat L) \<longleftrightarrow> \<not> set (deps G k) \<subseteq> set (concat L)" for k
    using down [of k] up [of k] by blast
  then have "set (map fst (filter (\<lambda>(i, n). 0 < n) ?fin)) =
      set (filter (\<lambda>k. k \<notin> set (concat L)) (gm_keys G))"
    unfolding filter_counts(1) [OF cf okG] by (auto simp: filter_empty_conv simp del: set_map set_concat)
  then have "sort (map fst (filter (\<lambda>(i, n). 0 < n) ?fin)) = sort (filter (\<lambda>k. k \<notin> set (concat L)) (gm_keys G))"
    using filter_counts(2) [OF cf okG] d by (intro sort_set_eq) auto
  with loop ready show ?thesis
    unfolding topological_def G_def [symmetric] b L_def by (simp add: Let_def case_prod_beta)
qed

abbreviation pipeline_deps :: "Pipeline \<Rightarrow> (string, string list) gomap" where
  "pipeline_deps p \<equiv> dep_map (stage_map (pl_Stages p))"

lemma pipeline_deps_keys [simp]: "gm_keys (pipeline_deps p) = map sg_ID (pl_Stages p)"
  by (simp add: dep_map_def comp_def)

lemma well_formed_graph: "well_formed p \<Longrightarrow> graph_ok (pipeline_deps p)"
  unfolding graph_ok_def pipeline_deps_keys
  by (auto simp: well_formed_def well_formed_references_def dep_map_def list_all_iff)

lemma pipeline_deps_stage:
  "distinct (map sg_ID (pl_Stages p)) \<Longrightarrow> st \<in> set (pl_Stages p) \<Longrightarrow>
     deps (pipeline_deps p) (sg_ID st) = sg_DependsOn st"
proof -
  assume d: "distinct (map sg_ID (pl_Stages p))" and st: "st \<in> set (pl_Stages p)"
  have "(sg_ID st, sg_DependsOn st) \<in> set (pipeline_deps p)" using st by (auto simp: dep_map_def)
  then have "gm_get (pipeline_deps p) (sg_ID st) = Some (sg_DependsOn st)" using d by simp
  then show ?thesis by (simp add: gm_or_def)
qed

text \<open>The dependency relation of the stages: \<open>d\<close> must finish before \<open>k\<close>.\<close>

definition depends :: "Pipeline \<Rightarrow> (string \<times> string) set" where
  "depends p = {(d, sg_ID st) | d st. st \<in> set (pl_Stages p) \<and> d \<in> set (sg_DependsOn st)}"

lemma depends_dep_rel:
  assumes "distinct (map sg_ID (pl_Stages p))" shows "depends p = dep_rel (pipeline_deps p)"
proof -
  have "(d, k) \<in> dep_rel (pipeline_deps p) \<Longrightarrow> (d, k) \<in> depends p" for d k
    using deps_key [of d "pipeline_deps p" k] pipeline_deps_stage [OF assms]
    by (auto simp: dep_rel_def depends_def)
  then show ?thesis
    using pipeline_deps_stage [OF assms] by (auto simp: dep_rel_def depends_def)
qed

abbreviation pipeline_layers :: "Pipeline \<Rightarrow> string list list" where
  "pipeline_layers p \<equiv> greedy (Suc (length (pl_Stages p))) (pipeline_deps p) []"

lemma layers_facts:
  assumes ok: "graph_ok (pipeline_deps p)"
  shows "closed (pipeline_deps p) (concat (pipeline_layers p))"
    and "frontier (pipeline_deps p) (concat (pipeline_layers p)) = []"
proof -
  have cl: "closed (pipeline_deps p) []" by (simp add: closed_def)
  show "closed (pipeline_deps p) (concat (pipeline_layers p))"
    using greedy_closed [OF ok cl, of "Suc (length (pl_Stages p))"] by simp
  have "length (pipeline_deps p) < length ([] :: string list) + Suc (length (pl_Stages p))"
    by (simp add: dep_map_def)
  from greedy_maximal [OF ok cl this] show "frontier (pipeline_deps p) (concat (pipeline_layers p)) = []"
    by simp
qed

lemma Analyze_cases:
  "Analyze p =
     (if \<not> well_formed p then Inl (newValidationError (fst (validate p)))
      else if acyclic (depends p)
      then Inr \<lparr>gr_Order = concat (pipeline_layers p), gr_Levels = pipeline_layers p\<rparr>
      else Inl (newValidationError [issue ''stages'' (''dependency cycle contains '' @
             join_with '', '' (sort (filter (\<lambda>k. k \<notin> set (concat (pipeline_layers p))) (map sg_ID (pl_Stages p)))))]))"
proof (cases "well_formed p")
  case False
  then show ?thesis using validate_Nil [of p] by (simp add: Analyze_def case_prod_beta Let_def)
next
  case True
  note ok = well_formed_graph [OF True]
  have d: "distinct (map sg_ID (pl_Stages p))" using True by (simp add: well_formed_def)
  let ?L = "pipeline_layers p"
  let ?rest = "filter (\<lambda>k. k \<notin> set (concat ?L)) (map sg_ID (pl_Stages p))"
  have top: "topological (stage_map (pl_Stages p)) = (\<lparr>gr_Order = concat ?L, gr_Levels = ?L\<rparr>, sort ?rest)"
    using topological_greedy [OF ok] by simp
  have cyc: "?rest = [] \<longleftrightarrow> acyclic (depends p)"
  proof
    assume "?rest = []"
    then have "set (gm_keys (pipeline_deps p)) \<subseteq> set (concat ?L)"
      unfolding pipeline_deps_keys by (auto simp: filter_empty_conv)
    then show "acyclic (depends p)"
      unfolding depends_dep_rel [OF d] by (rule greedy_acyclic [OF ok])
  next
    assume "acyclic (depends p)"
    then have "set (gm_keys (pipeline_deps p)) \<subseteq> set (concat ?L)"
      unfolding depends_dep_rel [OF d] by (rule acyclic_exhausted [OF ok _ layers_facts(2) [OF ok]])
    then show "?rest = []"
      unfolding pipeline_deps_keys by (auto simp: filter_empty_conv)
  qed
  have "validate p = ([], stage_map (pl_Stages p))"
    using True validate_Nil [of p] validate_stages [OF True] by (metis prod.collapse)
  then have "Analyze p = (if sort ?rest \<noteq> [] then Inl (newValidationError
        [issue ''stages'' (''dependency cycle contains '' @ join_with '', '' (sort ?rest))])
      else Inr \<lparr>gr_Order = concat ?L, gr_Levels = ?L\<rparr>)"
    unfolding Analyze_def by (simp only: top Let_def prod.case append.simps if_False simp_thms)
  then show ?thesis using True cyc
    by (cases "acyclic (depends p)") (simp_all only: sort_Nil_iff if_True if_False simp_thms)
qed

section \<open>Properties\<close>

text \<open>
  C8: \<^verbatim>\<open>Analyze\<close> accepts exactly the well-formed pipelines whose dependency relation has
  no cycle; everything else is reported as a non-empty list of issues.
\<close>

theorem Analyze_accepts_iff:
  "(\<exists>g. Analyze p = Inr g) \<longleftrightarrow> well_formed p \<and> acyclic (depends p)"
  unfolding Analyze_cases by simp

text \<open>
  C9: The graph of an accepted pipeline is a correct and maximally parallel schedule:
  the order is the concatenation of the levels and lists every stage exactly once; every
  level is non-empty and sorted; every dependency of a stage lies in a strictly earlier
  level; and every stage outside the first level waits for a stage of the level just
  before it, so none could have been placed earlier.
\<close>

theorem Analyze_levels:
  assumes "Analyze p = Inr g"
  shows "gr_Order g = concat (gr_Levels g)
    \<and> distinct (gr_Order g) \<and> set (gr_Order g) = set (map sg_ID (pl_Stages p))
    \<and> (\<forall>l \<in> set (gr_Levels g). l \<noteq> [] \<and> sorted l)
    \<and> (\<forall>j < length (gr_Levels g). \<forall>st \<in> set (pl_Stages p). sg_ID st \<in> set (gr_Levels g ! j) \<longrightarrow>
         (\<forall>d \<in> set (sg_DependsOn st). \<exists>i < j. d \<in> set (gr_Levels g ! i))
         \<and> (j = 0 \<or> (\<exists>d \<in> set (sg_DependsOn st). d \<in> set (gr_Levels g ! (j - 1)))))"
proof -
  let ?G = "pipeline_deps p" and ?L = "pipeline_layers p"
  have wf: "well_formed p" and ac: "acyclic (depends p)"
    and g: "g = \<lparr>gr_Order = concat ?L, gr_Levels = ?L\<rparr>"
    using assms unfolding Analyze_cases by (auto split: if_splits)
  note ok = well_formed_graph [OF wf]
  have d: "distinct (map sg_ID (pl_Stages p))" using wf by (simp add: well_formed_def)
  have c: "closed ?G (concat ?L)" by (rule layers_facts(1) [OF ok])
  have "set (gm_keys ?G) \<subseteq> set (concat ?L)"
    using ac unfolding depends_dep_rel [OF d] by (rule acyclic_exhausted [OF ok _ layers_facts(2) [OF ok]])
  with c have all: "distinct (concat ?L)" "set (concat ?L) = set (map sg_ID (pl_Stages p))"
    unfolding closed_def pipeline_deps_keys by blast+
  have nil: "closed ?G []" by (simp add: closed_def)
  have before: "\<exists>i < j. e \<in> set (?L ! i)"
    if "j < length ?L" "st \<in> set (pl_Stages p)" "sg_ID st \<in> set (?L ! j)" "e \<in> set (sg_DependsOn st)" for j st e
    using greedy_level_before [OF ok nil that(1,3)] that(4) pipeline_deps_stage [OF d that(2)] by auto
  have earliest: "\<exists>e \<in> set (sg_DependsOn st). e \<in> set (?L ! (j - 1))"
    if "j < length ?L" "j \<noteq> 0" "st \<in> set (pl_Stages p)" "sg_ID st \<in> set (?L ! j)" for j st
    using greedy_earliest [OF ok nil, of "j - 1" _ "sg_ID st"] that pipeline_deps_stage [OF d that(3)] by auto
  show ?thesis
    unfolding g Graph.select_convs
    using all greedy_sorted [of _ _ ?G "[]"] before earliest by blast
qed

text \<open>
  The result of \<^verbatim>\<open>topological\<close> does not depend on the iteration order Go picks for
  the stage map: any two listings of the same map give the same levels, order and
  remaining stages, even when there is a cycle.
\<close>

theorem topological_order_independent:
  assumes perm: "mset stages = mset stages'" and ok: "graph_ok (dep_map stages)"
  shows "topological stages = topological stages'"
proof -
  have m: "mset (dep_map stages) = mset (dep_map stages')"
    using perm by (simp add: dep_map_def)
  then have ok': "graph_ok (dep_map stages')"
    using ok graph_ok_perm by blast
  have len: "length stages = length stages'" using perm by (rule mset_eq_length)
  have keys: "mset (gm_keys (dep_map stages)) = mset (gm_keys (dep_map stages'))" using m by simp
  have g: "greedy n (dep_map stages) [] = greedy n (dep_map stages') []" for n
    by (rule greedy_cong [OF m ok])
  have "sort (filter Q (gm_keys (dep_map stages))) = sort (filter Q (gm_keys (dep_map stages')))" for Q
    by (rule sort_eq_mset) (use keys in \<open>metis mset_filter\<close>)
  then show ?thesis
    unfolding topological_greedy [OF ok] topological_greedy [OF ok'] g len by simp
qed

text \<open>
  A target, working directory or artifact path that passes \<^verbatim>\<open>cleanAbsolutePath\<close> is a
  non-empty sequence of elements below the root, none of them empty, \<^verbatim>\<open>.\<close>, \<^verbatim>\<open>..\<close> or
  containing a slash, and every such path passes.
\<close>

theorem cleanAbsolutePath_iff:
  "cleanAbsolutePath v \<longleftrightarrow>
     (\<exists>cs. cs \<noteq> [] \<and> list_all proper_element cs \<and> v = CHR ''/'' # join_with ''/'' cs)"
  by (rule cleanAbsolutePath_elements)

section \<open>A concrete pipeline\<close>

definition plain_stage :: "string \<Rightarrow> string list \<Rightarrow> Stage" where
  "plain_stage i ds = \<lparr>sg_ID = i, sg_DependsOn = ds, sg_Base = None,
     sg_Command = \<lparr>cm_Executable = ''make'', cm_Args = [i], cm_WorkingDir = ''/src''\<rparr>,
     sg_Env = [], sg_Mounts = [], sg_Secrets = [], sg_Caches = [], sg_Inputs = [], sg_Outputs = [],
     sg_Network = [], sg_Resources = \<lparr>rl_CPUMilli = 0, rl_MemoryMiB = 0, rl_PIDs = 0\<rparr>,
     sg_Sandbox = \<lparr>sb_ReadOnlyRoot = True, sb_NonRoot = True\<rparr>\<rparr>"

definition plain_pipeline :: "Stage list \<Rightarrow> Pipeline" where
  "plain_pipeline sts = \<lparr>pl_APIVersion = ''platform-factory.dev/v1'', pl_Name = ''demo'',
     pl_RequiredCapabilities = [], pl_Inputs = [], pl_Stages = sts, pl_Outputs = []\<rparr>"

definition diamond :: Pipeline where
  "diamond = plain_pipeline [plain_stage ''link'' [''core'', ''ui''], plain_stage ''ui'' [''fetch''],
     plain_stage ''fetch'' [], plain_stage ''core'' [''fetch'']]"

definition diamond_graph :: Graph where
  "diamond_graph = \<lparr>gr_Order = [''fetch'', ''core'', ''ui'', ''link''],
     gr_Levels = [[''fetch''], [''core'', ''ui''], [''link'']]\<rparr>"

theorem Analyze_levels_witness:
  "Analyze diamond = Inr diamond_graph \<and> distinct (gr_Order diamond_graph)
     \<and> set (gr_Order diamond_graph) = set (map sg_ID (pl_Stages diamond))"
proof -
  have a: "Analyze diamond = Inr diamond_graph" by code_simp
  from Analyze_levels [OF a] a show ?thesis by blast
qed

theorem topological_order_independent_witness:
  "topological (stage_map (pl_Stages diamond)) = topological (rev (stage_map (pl_Stages diamond)))"
proof -
  have "graph_ok (dep_map (stage_map (pl_Stages diamond)))" by code_simp
  moreover have "mset (stage_map (pl_Stages diamond)) = mset (rev (stage_map (pl_Stages diamond)))" by simp
  ultimately show ?thesis by (blast intro: topological_order_independent)
qed

end
