(* ===== verification/Stage_Scheduler.thy ===== *)
theory Stage_Scheduler
  imports Pipeline_Graph
begin

text \<open>
  The concurrent stage scheduler, \<^verbatim>\<open>internal/scheduler/scheduler.go\<close>. The coordinator
  loop, the dispatch queue, the worker pool and the outcome channel are one state; a
  step is one action of the coordinator or of a worker, chosen by the Go scheduler. A
  stage is handed to a worker at most once, so what the context and the runner do while
  it runs is a function of the stage, fixed for a run but arbitrary. Shown: a runner is
  never called before all dependencies have succeeded; at most \<^verbatim>\<open>Parallelism\<close> stages run
  at a time; the loop cannot get stuck and always ends with a result for every stage; and
  the results do not depend on the interleaving.
\<close>

section \<open>Data\<close>

abbreviation StageSucceeded :: string where "StageSucceeded \<equiv> ''succeeded''"
abbreviation StageFailed :: string where "StageFailed \<equiv> ''failed''"
abbreviation StageBlocked :: string where "StageBlocked \<equiv> ''blocked''"
abbreviation StageCanceled :: string where "StageCanceled \<equiv> ''canceled''"
abbreviation StageBudgetExceeded :: string where "StageBudgetExceeded \<equiv> ''budget_exceeded''"

text \<open>\<^verbatim>\<open>StageResult\<close>, and \<^verbatim>\<open>stageOutcome\<close>, which has the same fields.\<close>

record StageResult =
  sr_Stage :: string
  sr_State :: string
  sr_Error :: string

text \<open>
  What one stage meets: the context error before the runner is called, the error of the
  runner, and the context error after it returned.
\<close>

record stage_env =
  se_before :: "string option"
  se_runner :: "string option"
  se_after :: "string option"

definition runStage :: "stage_env \<Rightarrow> string \<Rightarrow> StageResult" where
  "runStage e i =
     (case se_before e of
        Some err \<Rightarrow> \<lparr>sr_Stage = i, sr_State = StageCanceled, sr_Error = err\<rparr>
      | None \<Rightarrow>
          (case se_after e of
             Some err \<Rightarrow> \<lparr>sr_Stage = i, sr_State = StageCanceled, sr_Error = err\<rparr>
           | None \<Rightarrow>
               (case se_runner e of
                  Some err \<Rightarrow> \<lparr>sr_Stage = i, sr_State = StageFailed, sr_Error = err\<rparr>
                | None \<Rightarrow> \<lparr>sr_Stage = i, sr_State = StageSucceeded, sr_Error = []\<rparr>)))"

text \<open>Reading a missing result yields the zero value, whose state is the empty string.\<close>

definition state_of :: "(string, StageResult) gomap \<Rightarrow> string \<Rightarrow> string" where
  "state_of results i = (case gm_get results i of None \<Rightarrow> [] | Some r \<Rightarrow> sr_State r)"

definition blockedBy :: "string list \<Rightarrow> (string, StageResult) gomap \<Rightarrow> string option" where
  "blockedBy dependsOn results = List.find (\<lambda>d. state_of results d \<noteq> StageSucceeded) (sort dependsOn)"

definition blocked_result :: "string \<Rightarrow> string \<Rightarrow> StageResult" where
  "blocked_result i d = \<lparr>sr_Stage = i, sr_State = StageBlocked,
     sr_Error = ''dependency '' @ d @ '' did not succeed''\<rparr>"

fun MarkUnreached :: "(string, Stage) gomap \<Rightarrow> string list \<Rightarrow> (string, StageResult) gomap \<Rightarrow> (string, StageResult) gomap" where
  "MarkUnreached stages [] results = results"
| "MarkUnreached stages (i # order) results =
     (if gm_get results i \<noteq> None then MarkUnreached stages order results
      else let dependency = (case blockedBy (deps (dep_map stages) i) results of
                               None \<Rightarrow> ''an upstream stage'' | Some d \<Rightarrow> d)
           in MarkUnreached stages order (gm_put i (blocked_result i dependency) results))"

section \<open>The coordinator and the workers\<close>

record sched_config =
  sc_parallelism :: nat
  sc_stages :: "(string, Stage) gomap"
  sc_order :: "string list"
  sc_env :: "string \<Rightarrow> stage_env"

text \<open>
  \<open>ss_dispatchable\<close> and \<open>ss_outcomes\<close> are the two buffered channels, \<open>ss_running\<close> the
  stages held by workers. \<open>ss_processed\<close> (the stages whose dependents were decremented)
  and \<open>ss_invoked\<close> (the stages whose runner was called) record history only.
\<close>

record sched_state =
  ss_indegree :: "(string, int) gomap"
  ss_results :: "(string, StageResult) gomap"
  ss_resolved :: "string list"
  ss_pending :: nat
  ss_inFlight :: nat
  ss_dispatchable :: "string list"
  ss_running :: "string list"
  ss_outcomes :: "StageResult list"
  ss_processed :: "string list"
  ss_invoked :: "string list"

definition admit :: "sched_config \<Rightarrow> string \<Rightarrow> sched_state \<Rightarrow> sched_state" where
  "admit cfg i s =
     (if gm_get (ss_results s) i \<noteq> None then s
      else case blockedBy (deps (dep_map (sc_stages cfg)) i) (ss_results s) of
        Some d \<Rightarrow> s\<lparr>ss_results := gm_put i (blocked_result i d) (ss_results s),
                   ss_resolved := ss_resolved s @ [i]\<rparr>
      | None \<Rightarrow> s\<lparr>ss_inFlight := ss_inFlight s + 1, ss_dispatchable := ss_dispatchable s @ [i]\<rparr>)"

fun release :: "sched_config \<Rightarrow> string list \<Rightarrow> sched_state \<Rightarrow> sched_state" where
  "release cfg [] s = s"
| "release cfg (d # ds) s =
     (let k = gm_or (ss_indegree s) 0 d - 1;
          s' = s\<lparr>ss_indegree := gm_put d k (ss_indegree s)\<rparr>
      in release cfg ds (if k = 0 then admit cfg d s' else s'))"

definition dependents_map :: "sched_config \<Rightarrow> (string, string list) gomap" where
  "dependents_map cfg = snd (build_graph (dep_map (sc_stages cfg)) ([], []))"

definition start_state :: "sched_config \<Rightarrow> sched_state" where
  "start_state cfg =
     \<lparr>ss_indegree = fst (build_graph (dep_map (sc_stages cfg)) ([], [])), ss_results = [],
      ss_resolved = [], ss_pending = length (sc_stages cfg), ss_inFlight = 0, ss_dispatchable = [],
      ss_running = [], ss_outcomes = [], ss_processed = [], ss_invoked = []\<rparr>"

definition seed :: "sched_config \<Rightarrow> sched_state" where
  "seed cfg = foldl (\<lambda>s i. if gm_or (ss_indegree s) 0 i = 0 then admit cfg i s else s)
                (start_state cfg) (sc_order cfg)"

definition finish :: "sched_config \<Rightarrow> string \<Rightarrow> sched_state \<Rightarrow> sched_state" where
  "finish cfg d s = release cfg (sort (gm_or (dependents_map cfg) [] d))
     (s\<lparr>ss_pending := ss_pending s - 1, ss_processed := ss_processed s @ [d]\<rparr>)"

text \<open>
  One iteration of \<^verbatim>\<open>for pending > 0\<close>. No value means that the coordinator does not move:
  the loop is over, or it waits for an outcome.
\<close>

definition coordinate :: "sched_config \<Rightarrow> sched_state \<Rightarrow> sched_state option" where
  "coordinate cfg s =
     (if ss_pending s = 0 then None
      else case ss_resolved s of
        d # rs \<Rightarrow> Some (finish cfg d (s\<lparr>ss_resolved := rs\<rparr>))
      | [] \<Rightarrow>
          (if 0 < ss_inFlight s then
             (case ss_outcomes s of
                [] \<Rightarrow> None
              | r # rs \<Rightarrow> Some (finish cfg (sr_Stage r)
                   (s\<lparr>ss_outcomes := rs, ss_inFlight := ss_inFlight s - 1,
                      ss_results := gm_put (sr_Stage r) r (ss_results s)\<rparr>)))
           else Some (s\<lparr>ss_results := MarkUnreached (sc_stages cfg) (sc_order cfg) (ss_results s),
                        ss_pending := 0\<rparr>)))"

datatype choice = Coordinator | WorkerTakes | WorkerDone nat

text \<open>
  The feeder and an idle worker take the oldest dispatchable stage; a worker whose stage
  is at position \<open>n\<close> reports its outcome.
\<close>

definition sched_step :: "sched_config \<Rightarrow> choice \<Rightarrow> sched_state \<Rightarrow> sched_state option" where
  "sched_step cfg c s =
     (case c of
        Coordinator \<Rightarrow> coordinate cfg s
      | WorkerTakes \<Rightarrow>
          (case ss_dispatchable s of
             [] \<Rightarrow> None
           | i # is \<Rightarrow>
               (if length (ss_running s) < sc_parallelism cfg
                then Some (s\<lparr>ss_dispatchable := is, ss_running := ss_running s @ [i],
                       ss_invoked := (if se_before (sc_env cfg i) = None then ss_invoked s @ [i]
                                      else ss_invoked s)\<rparr>)
                else None))
      | WorkerDone n \<Rightarrow>
          (if n < length (ss_running s)
           then Some (s\<lparr>ss_running := take n (ss_running s) @ drop (Suc n) (ss_running s),
                        ss_outcomes := ss_outcomes s
                          @ [runStage (sc_env cfg (ss_running s ! n)) (ss_running s ! n)]\<rparr>)
           else None))"

inductive sched_reach :: "sched_config \<Rightarrow> sched_state \<Rightarrow> bool" for cfg where
  start: "sched_reach cfg (seed cfg)"
| step: "sched_reach cfg s \<Longrightarrow> sched_step cfg c s = Some s' \<Longrightarrow> sched_reach cfg s'"

text \<open>The loop has ended and \<^verbatim>\<open>group.Wait\<close> returned.\<close>

definition sched_done :: "sched_state \<Rightarrow> bool" where
  "sched_done s \<longleftrightarrow> ss_pending s = 0 \<and> ss_dispatchable s = [] \<and> ss_running s = []"

fun sched_exec :: "sched_config \<Rightarrow> choice list \<Rightarrow> sched_state \<Rightarrow> sched_state option" where
  "sched_exec cfg [] s = Some s"
| "sched_exec cfg (c # cs) s = (case sched_step cfg c s of None \<Rightarrow> None | Some s' \<Rightarrow> sched_exec cfg cs s')"

section \<open>The invariant\<close>

definition admitted :: "sched_state \<Rightarrow> string list" where
  "admitted s = ss_processed s @ ss_resolved s @ ss_dispatchable s @ ss_running s @ map sr_Stage (ss_outcomes s)"

text \<open>The result a stage must get, given the results of its dependencies.\<close>

definition expected :: "sched_config \<Rightarrow> (string, StageResult) gomap \<Rightarrow> string \<Rightarrow> StageResult" where
  "expected cfg results i =
     (case blockedBy (deps (dep_map (sc_stages cfg)) i) results of
        Some d \<Rightarrow> blocked_result i d
      | None \<Rightarrow> runStage (sc_env cfg i) i)"

definition unblocked :: "sched_config \<Rightarrow> (string, StageResult) gomap \<Rightarrow> string \<Rightarrow> bool" where
  "unblocked cfg results i \<longleftrightarrow>
     list_all (\<lambda>d. state_of results d = StageSucceeded) (deps (dep_map (sc_stages cfg)) i)"

definition core_places :: "sched_config \<Rightarrow> sched_state \<Rightarrow> bool" where
  "core_places cfg s \<longleftrightarrow>
     distinct (admitted s)
     \<and> (\<forall>i\<in>set (admitted s). i \<in> set (gm_keys (sc_stages cfg))
          \<and> set (deps (dep_map (sc_stages cfg)) i) \<subseteq> set (ss_processed s))
     \<and> dom (gm_get (ss_results s)) = set (ss_processed s) \<union> set (ss_resolved s)
     \<and> ss_inFlight s = length (ss_dispatchable s) + length (ss_running s) + length (ss_outcomes s)
     \<and> length (ss_running s) \<le> sc_parallelism cfg
     \<and> ss_pending s + length (ss_processed s) = length (sc_stages cfg)"

definition core_flight :: "sched_config \<Rightarrow> sched_state \<Rightarrow> bool" where
  "core_flight cfg s \<longleftrightarrow>
     (\<forall>i\<in>set (ss_dispatchable s) \<union> set (ss_running s) \<union> sr_Stage ` set (ss_outcomes s).
          unblocked cfg (ss_results s) i)
     \<and> (\<forall>r\<in>set (ss_outcomes s). r = runStage (sc_env cfg (sr_Stage r)) (sr_Stage r))"

definition core_results :: "sched_config \<Rightarrow> sched_state \<Rightarrow> bool" where
  "core_results cfg s \<longleftrightarrow>
     (\<forall>i r. gm_get (ss_results s) i = Some r \<longrightarrow> r = expected cfg (ss_results s) i)"

definition core_invoked :: "sched_config \<Rightarrow> sched_state \<Rightarrow> bool" where
  "core_invoked cfg s \<longleftrightarrow> distinct (ss_invoked s)
     \<and> (\<forall>i\<in>set (ss_invoked s). i \<in> set (admitted s) - set (ss_dispatchable s)
          \<and> unblocked cfg (ss_results s) i)"

definition sched_core :: "sched_config \<Rightarrow> sched_state \<Rightarrow> bool" where
  "sched_core cfg s \<longleftrightarrow> core_places cfg s \<and> core_flight cfg s \<and> core_results cfg s \<and> core_invoked cfg s"

lemmas core_defs = core_places_def core_flight_def core_results_def core_invoked_def

lemma find_Some_unblocked:
  "blockedBy ds results = None \<longleftrightarrow> list_all (\<lambda>d. state_of results d = StageSucceeded) ds"
  by (auto simp: blockedBy_def find_None_iff list_all_iff)

lemma blockedBy_cong:
  "(\<And>d. d \<in> set ds \<Longrightarrow> gm_get results d = gm_get results' d) \<Longrightarrow> blockedBy ds results = blockedBy ds results'"
  unfolding blockedBy_def by (intro find_cong) (auto simp: state_of_def)

lemma results_cong:
  assumes "\<And>d. d \<in> set (deps (dep_map (sc_stages cfg)) i) \<Longrightarrow> gm_get results d = gm_get results' d"
  shows "unblocked cfg results i = unblocked cfg results' i"
    and "expected cfg results i = expected cfg results' i"
proof -
  have b: "blockedBy (deps (dep_map (sc_stages cfg)) i) results
      = blockedBy (deps (dep_map (sc_stages cfg)) i) results'"
    by (rule blockedBy_cong) (rule assms)
  show "unblocked cfg results i = unblocked cfg results' i"
    unfolding unblocked_def find_Some_unblocked [symmetric] b ..
  show "expected cfg results i = expected cfg results' i"
    unfolding expected_def b ..
qed

lemma runStage_Stage [simp]: "sr_Stage (runStage e i) = i"
  by (simp add: runStage_def split: option.split)

text \<open>Adding a result for a stage no admitted stage depends on leaves the others alone.\<close>

lemma put_result_keeps:
  assumes "core_places cfg s" and "i \<notin> set (ss_processed s)" and "j \<in> set (admitted s)"
  shows "unblocked cfg (gm_put i r (ss_results s)) j = unblocked cfg (ss_results s) j"
    and "expected cfg (gm_put i r (ss_results s)) j = expected cfg (ss_results s) j"
proof -
  have "set (deps (dep_map (sc_stages cfg)) j) \<subseteq> set (ss_processed s)"
    using assms unfolding core_places_def by blast
  then have *: "gm_get (gm_put i r (ss_results s)) d = gm_get (ss_results s) d"
    if "d \<in> set (deps (dep_map (sc_stages cfg)) j)" for d using that assms(2) by auto
  show "unblocked cfg (gm_put i r (ss_results s)) j = unblocked cfg (ss_results s) j"
    by (rule results_cong [OF *])
  show "expected cfg (gm_put i r (ss_results s)) j = expected cfg (ss_results s) j"
    by (rule results_cong [OF *])
qed

lemma flight_admitted:
  "i \<in> set (ss_dispatchable s) \<union> set (ss_running s) \<union> sr_Stage ` set (ss_outcomes s) \<Longrightarrow> i \<in> set (admitted s)"
  by (auto simp: admitted_def)

lemma results_admitted:
  "core_places cfg s \<Longrightarrow> gm_get (ss_results s) i = Some r \<Longrightarrow> i \<in> set (admitted s)"
  unfolding core_places_def admitted_def by (metis UnE Un_iff domI set_append)

lemma admit_core:
  assumes core: "sched_core cfg s" and new: "i \<notin> set (admitted s)"
    and key: "i \<in> set (gm_keys (sc_stages cfg))"
    and ready: "set (deps (dep_map (sc_stages cfg)) i) \<subseteq> set (ss_processed s)"
  shows "sched_core cfg (admit cfg i s) \<and> set (admitted (admit cfg i s)) = insert i (set (admitted s))
     \<and> ss_processed (admit cfg i s) = ss_processed s \<and> ss_indegree (admit cfg i s) = ss_indegree s
     \<and> ss_pending (admit cfg i s) = ss_pending s"
proof -
  note places = core [unfolded sched_core_def, THEN conjunct1]
  have np: "i \<notin> set (ss_processed s)" using new by (simp add: admitted_def)
  have none: "gm_get (ss_results s) i = None"
    using results_admitted [OF places] new by (cases "gm_get (ss_results s) i") auto
  show ?thesis
  proof (cases "blockedBy (deps (dep_map (sc_stages cfg)) i) (ss_results s)")
    case None
    let ?s = "s\<lparr>ss_inFlight := ss_inFlight s + 1, ss_dispatchable := ss_dispatchable s @ [i]\<rparr>"
    have a: "admit cfg i s = ?s" using None none by (simp add: admit_def)
    have free: "unblocked cfg (ss_results s) i" using None by (simp add: find_Some_unblocked unblocked_def)
    have adm: "set (admitted ?s) = insert i (set (admitted s))" by (auto simp: admitted_def)
    have "core_places cfg ?s"
      using places new key ready unfolding core_places_def adm by (auto simp: admitted_def)
    moreover have "core_flight cfg ?s" "core_results cfg ?s"
      using core free by (auto simp: sched_core_def core_flight_def core_results_def)
    moreover have "core_invoked cfg ?s"
      using core new unfolding sched_core_def core_invoked_def adm by auto
    ultimately show ?thesis unfolding a sched_core_def using adm by simp
  next
    case (Some d)
    let ?s = "s\<lparr>ss_results := gm_put i (blocked_result i d) (ss_results s), ss_resolved := ss_resolved s @ [i]\<rparr>"
    have a: "admit cfg i s = ?s" using Some none by (simp add: admit_def)
    note keep = put_result_keeps [OF places np, of _ "blocked_result i d"]
    have self: "expected cfg (gm_put i (blocked_result i d) (ss_results s)) i = blocked_result i d"
    proof -
      have "expected cfg (gm_put i (blocked_result i d) (ss_results s)) i = expected cfg (ss_results s) i"
        using ready np by (intro results_cong) auto
      then show ?thesis using Some by (simp add: expected_def)
    qed
    have adm: "set (admitted ?s) = insert i (set (admitted s))" by (auto simp: admitted_def)
    have "core_places cfg ?s"
      using places new key ready unfolding core_places_def adm by (auto simp: admitted_def)
    moreover have "core_flight cfg ?s"
      using core keep(1) [OF flight_admitted] by (simp add: sched_core_def core_flight_def)
    moreover have "core_results cfg ?s"
      using core keep(2) [OF results_admitted [OF places]] self by (simp add: sched_core_def core_results_def)
    moreover have "core_invoked cfg ?s"
      using core keep(1) unfolding sched_core_def core_invoked_def adm by auto
    ultimately show ?thesis unfolding a sched_core_def using adm by simp
  qed
qed

definition admit_all :: "sched_config \<Rightarrow> string list \<Rightarrow> sched_state \<Rightarrow> sched_state" where
  "admit_all cfg is s = foldl (\<lambda>s i. admit cfg i s) s is"

lemma admit_all_simps [simp]:
  "admit_all cfg [] s = s" "admit_all cfg (i # is) s = admit_all cfg is (admit cfg i s)"
  by (simp_all add: admit_all_def)

lemma admit_all_core:
  "sched_core cfg s \<Longrightarrow> distinct is \<Longrightarrow> set is \<inter> set (admitted s) = {} \<Longrightarrow>
   set is \<subseteq> set (gm_keys (sc_stages cfg)) \<Longrightarrow>
   (\<And>i. i \<in> set is \<Longrightarrow> set (deps (dep_map (sc_stages cfg)) i) \<subseteq> set (ss_processed s)) \<Longrightarrow>
   sched_core cfg (admit_all cfg is s) \<and> set (admitted (admit_all cfg is s)) = set is \<union> set (admitted s)
     \<and> ss_processed (admit_all cfg is s) = ss_processed s \<and> ss_indegree (admit_all cfg is s) = ss_indegree s
     \<and> ss_pending (admit_all cfg is s) = ss_pending s"
proof (induction "is" arbitrary: s)
  case (Cons i "is")
  have i: "i \<notin> set (admitted s)" "i \<in> set (gm_keys (sc_stages cfg))"
    "set (deps (dep_map (sc_stages cfg)) i) \<subseteq> set (ss_processed s)"
    using Cons.prems(3) Cons.prems(4) Cons.prems(5) [of i] by (simp_all del: set_map)
  note a = admit_core [OF Cons.prems(1) i]
  have "sched_core cfg (admit_all cfg is (admit cfg i s))
     \<and> set (admitted (admit_all cfg is (admit cfg i s))) = set is \<union> set (admitted (admit cfg i s))
     \<and> ss_processed (admit_all cfg is (admit cfg i s)) = ss_processed (admit cfg i s)
     \<and> ss_indegree (admit_all cfg is (admit cfg i s)) = ss_indegree (admit cfg i s)
     \<and> ss_pending (admit_all cfg is (admit cfg i s)) = ss_pending (admit cfg i s)"
    using a Cons.prems by (intro Cons.IH) (auto simp del: set_map)
  with a show ?case by auto
qed simp

lemma admit_indegree: "admit cfg i (s\<lparr>ss_indegree := x\<rparr>) = (admit cfg i s)\<lparr>ss_indegree := x\<rparr>"
  by (simp add: admit_def split: option.split)

lemma admit_keeps_indegree: "ss_indegree (admit cfg i s) = ss_indegree s"
  by (simp add: admit_def split: option.split)

text \<open>The interleaved loop decrements first and admits afterwards, with the same result.\<close>

lemma release_decrement:
  "release cfg ds s =
     admit_all cfg (snd (decrement ds (ss_indegree s, [])))
       (s\<lparr>ss_indegree := fst (decrement ds (ss_indegree s, []))\<rparr>)"
proof (induction ds arbitrary: s)
  case (Cons d ds)
  let ?k = "gm_or (ss_indegree s) 0 d - 1"
  let ?ind = "gm_put d ?k (ss_indegree s)"
  show ?case
  proof (cases "?k = 0")
    case True
    let ?s = "admit cfg d (s\<lparr>ss_indegree := ?ind\<rparr>)"
    have s: "?s\<lparr>ss_indegree := x\<rparr> = admit cfg d (s\<lparr>ss_indegree := x\<rparr>)" for x
      by (simp add: admit_indegree)
    have i: "ss_indegree ?s = ?ind" by (simp add: admit_keeps_indegree)
    have "release cfg (d # ds) s = release cfg ds ?s" using True by (simp add: Let_def)
    also have "\<dots> = admit_all cfg (snd (decrement ds (?ind, [])))
        (admit cfg d (s\<lparr>ss_indegree := fst (decrement ds (?ind, []))\<rparr>))"
      unfolding Cons.IH i s ..
    also have "\<dots> = admit_all cfg (d # snd (decrement ds (?ind, [])))
        (s\<lparr>ss_indegree := fst (decrement ds (?ind, []))\<rparr>)" by simp
    finally show ?thesis using True decrement_acc [of ds ?ind "[d]"] by (simp add: Let_def)
  next
    case False
    then show ?thesis using Cons.IH [of "s\<lparr>ss_indegree := ?ind\<rparr>"] by (simp add: Let_def)
  qed
qed simp

section \<open>Every step keeps it\<close>

definition cfg_ok :: "sched_config \<Rightarrow> bool" where
  "cfg_ok cfg \<longleftrightarrow> graph_ok (dep_map (sc_stages cfg)) \<and> acyclic (dep_rel (dep_map (sc_stages cfg)))
     \<and> distinct (sc_order cfg) \<and> set (sc_order cfg) = set (gm_keys (sc_stages cfg))
     \<and> 0 < sc_parallelism cfg"

definition sched_inv :: "sched_config \<Rightarrow> sched_state \<Rightarrow> bool" where
  "sched_inv cfg s \<longleftrightarrow> sched_core cfg s
     \<and> counts (dep_map (sc_stages cfg)) (ss_processed s) (ss_indegree s)
     \<and> set (admitted s) = {k \<in> set (gm_keys (sc_stages cfg)).
          set (deps (dep_map (sc_stages cfg)) k) \<subseteq> set (ss_processed s)}"

lemma dep_map_keys [simp]: "gm_keys (dep_map stages) = gm_keys stages"
  by (induction stages) (auto simp: dep_map_def)

lemma dependents_map_ok: "cfg_ok cfg \<Longrightarrow> dependents_of (dep_map (sc_stages cfg)) (dependents_map cfg)"
  unfolding dependents_map_def by (rule build_graph_dependents_of) (simp add: cfg_ok_def graph_ok_def)

lemma release_inv:
  assumes ok: "cfg_ok cfg" and core: "sched_core cfg s"
    and P: "ss_processed s = P @ [d]" and new: "d \<notin> set P"
    and cnt: "counts (dep_map (sc_stages cfg)) P (ss_indegree s)"
    and adm: "set (admitted s) = {k \<in> set (gm_keys (sc_stages cfg)).
      set (deps (dep_map (sc_stages cfg)) k) \<subseteq> set P}"
  shows "sched_inv cfg (release cfg (sort (gm_or (dependents_map cfg) [] d)) s)
    \<and> ss_pending (release cfg (sort (gm_or (dependents_map cfg) [] d)) s) = ss_pending s
    \<and> ss_processed (release cfg (sort (gm_or (dependents_map cfg) [] d)) s) = ss_processed s"
proof -
  let ?G = "dep_map (sc_stages cfg)"
  let ?ds = "sort (gm_or (dependents_map cfg) [] d)"
  obtain ind' nxt where dec: "decrement ?ds (ss_indegree s, []) = (ind', nxt)" by force
  have g: "graph_ok ?G" using ok by (simp add: cfg_ok_def)
  have dec': "decrement (concat (map (\<lambda>i. sort (gm_or (dependents_map cfg) [] i)) [d])) (ss_indegree s, [])
      = (ind', nxt)" using dec by simp
  have dd: "distinct [d]" "set [d] \<inter> set P = {}" using new by auto
  note fin = finish_counts [OF dependents_map_ok [OF ok] g dd cnt dec']
  let ?s = "s\<lparr>ss_indegree := ind'\<rparr>"
  have adm': "admitted ?s = admitted s" by (simp add: admitted_def)
  have core': "sched_core cfg ?s"
    using core unfolding sched_core_def core_defs adm' by simp
  have keys: "set nxt \<subseteq> set (gm_keys (sc_stages cfg))"
    using deps_key [of _ ?G] unfolding fin(2) dep_map_keys by (auto simp del: set_map)
  have a: "sched_core cfg (admit_all cfg nxt ?s) \<and> set (admitted (admit_all cfg nxt ?s)) = set nxt \<union> set (admitted ?s)
     \<and> ss_processed (admit_all cfg nxt ?s) = ss_processed ?s \<and> ss_indegree (admit_all cfg nxt ?s) = ss_indegree ?s
     \<and> ss_pending (admit_all cfg nxt ?s) = ss_pending ?s"
    using fin(2,3) core' adm' adm keys P by (intro admit_all_core) (auto simp del: set_map)
  have r: "release cfg ?ds s = admit_all cfg nxt ?s" unfolding release_decrement dec by simp
  have "set nxt \<union> set (admitted s) = {k \<in> set (gm_keys (sc_stages cfg)). set (deps ?G k) \<subseteq> set (P @ [d])}"
    using keys unfolding adm fin(2) by (auto simp del: set_map)
  with a fin(1) P show ?thesis unfolding r sched_inv_def adm' by simp
qed

lemma pop_resolved_core:
  assumes "sched_core cfg s" "ss_resolved s = d # rs" "ss_pending s \<noteq> 0"
  shows "sched_core cfg (s\<lparr>ss_resolved := rs, ss_pending := ss_pending s - 1, ss_processed := ss_processed s @ [d]\<rparr>)"
    and "set (admitted (s\<lparr>ss_resolved := rs, ss_pending := ss_pending s - 1, ss_processed := ss_processed s @ [d]\<rparr>))
      = set (admitted s)"
    and "d \<notin> set (ss_processed s)"
proof -
  let ?s = "s\<lparr>ss_resolved := rs, ss_pending := ss_pending s - 1, ss_processed := ss_processed s @ [d]\<rparr>"
  show adm: "set (admitted ?s) = set (admitted s)" using assms(2) by (auto simp: admitted_def)
  show "d \<notin> set (ss_processed s)"
    using assms by (auto simp: sched_core_def core_places_def admitted_def)
  have "core_places cfg ?s"
    using assms unfolding sched_core_def core_places_def adm by (auto simp: admitted_def)
  moreover have "core_flight cfg ?s" "core_results cfg ?s"
    using assms(1) by (simp_all add: sched_core_def core_flight_def core_results_def)
  moreover have "core_invoked cfg ?s"
    using assms(1) unfolding sched_core_def core_invoked_def adm by simp
  ultimately show "sched_core cfg ?s" by (simp add: sched_core_def)
qed

lemma pop_outcome_core:
  assumes core: "sched_core cfg s" and out: "ss_outcomes s = r # rs" and pend: "ss_pending s \<noteq> 0"
  defines "t \<equiv> s\<lparr>ss_outcomes := rs, ss_inFlight := ss_inFlight s - 1,
      ss_results := gm_put (sr_Stage r) r (ss_results s),
      ss_pending := ss_pending s - 1, ss_processed := ss_processed s @ [sr_Stage r]\<rparr>"
  shows "sched_core cfg t" and "set (admitted t) = set (admitted s)" and "sr_Stage r \<notin> set (ss_processed s)"
proof -
  let ?i = "sr_Stage r"
  note places = core [unfolded sched_core_def, THEN conjunct1]
  show adm: "set (admitted t) = set (admitted s)" using out by (auto simp: admitted_def t_def)
  show np: "?i \<notin> set (ss_processed s)"
    using places out by (auto simp: core_places_def admitted_def)
  note keep = put_result_keeps [OF places np, of _ r]
  have run: "r = runStage (sc_env cfg ?i) ?i" and free: "unblocked cfg (ss_results s) ?i"
    using core out by (auto simp: sched_core_def core_flight_def)
  have ia: "?i \<in> set (admitted s)" using out by (simp add: admitted_def)
  have "expected cfg (ss_results s) ?i = r"
    using free run by (simp add: expected_def unblocked_def find_Some_unblocked [symmetric])
  then have self: "expected cfg (gm_put ?i r (ss_results s)) ?i = r" using keep(2) [OF ia] by simp
  have "core_places cfg t"
    using places out pend unfolding core_places_def adm by (auto simp: admitted_def t_def)
  moreover have "core_flight cfg t"
    using core out keep(1) [OF flight_admitted] by (auto simp: sched_core_def core_flight_def t_def)
  moreover have "core_results cfg t"
    using core keep(2) [OF results_admitted [OF places]] self by (simp add: sched_core_def core_results_def t_def)
  moreover have "core_invoked cfg t"
    using core keep(1) unfolding sched_core_def core_invoked_def adm by (auto simp: t_def)
  ultimately show "sched_core cfg t" by (simp add: sched_core_def)
qed

lemma finish_inv:
  assumes ok: "cfg_ok cfg" and inv: "sched_inv cfg s"
    and core: "sched_core cfg (t\<lparr>ss_pending := ss_pending t - 1, ss_processed := ss_processed t @ [d]\<rparr>)"
    and adm: "set (admitted (t\<lparr>ss_pending := ss_pending t - 1, ss_processed := ss_processed t @ [d]\<rparr>))
      = set (admitted s)"
    and new: "d \<notin> set (ss_processed s)" and same: "ss_processed t = ss_processed s" "ss_indegree t = ss_indegree s"
  shows "sched_inv cfg (finish cfg d t) \<and> ss_pending (finish cfg d t) = ss_pending t - 1"
proof -
  let ?t = "t\<lparr>ss_pending := ss_pending t - 1, ss_processed := ss_processed t @ [d]\<rparr>"
  have p: "ss_processed ?t = ss_processed s @ [d]" using same by simp
  have c: "counts (dep_map (sc_stages cfg)) (ss_processed s) (ss_indegree ?t)"
    using inv same by (simp add: sched_inv_def)
  have a: "set (admitted ?t) = {k \<in> set (gm_keys (sc_stages cfg)).
      set (deps (dep_map (sc_stages cfg)) k) \<subseteq> set (ss_processed s)}"
    unfolding adm using inv unfolding sched_inv_def by blast
  show ?thesis using release_inv [OF ok core p new c a] by (simp add: finish_def)
qed

lemma exhausted:
  assumes ok: "cfg_ok cfg" and inv: "sched_inv cfg s" and idle: "ss_resolved s = []" "ss_inFlight s = 0"
  shows "ss_pending s = 0"
proof -
  let ?G = "dep_map (sc_stages cfg)"
  have places: "core_places cfg s" using inv by (simp add: sched_inv_def sched_core_def)
  then have empty: "ss_dispatchable s = []" "ss_running s = []" "ss_outcomes s = []"
    and pend: "ss_pending s + length (ss_processed s) = length (sc_stages cfg)"
    using idle by (simp_all add: core_places_def)
  then have "set (ss_processed s) = {k \<in> set (gm_keys ?G). set (deps ?G k) \<subseteq> set (ss_processed s)}"
    using inv idle unfolding sched_inv_def dep_map_keys by (simp add: admitted_def)
  then have "set (frontier ?G (ss_processed s)) = {}" unfolding frontier_set by blast
  then have "frontier ?G (ss_processed s) = []" by simp
  then have sub: "set (gm_keys (sc_stages cfg)) \<subseteq> set (ss_processed s)"
    using ok acyclic_exhausted [of ?G "ss_processed s"] unfolding cfg_ok_def dep_map_keys by blast
  have "distinct (gm_keys (sc_stages cfg))" using ok unfolding cfg_ok_def graph_ok_def dep_map_keys by blast
  then have "length (sc_stages cfg) = card (set (gm_keys (sc_stages cfg)))"
    by (metis distinct_card length_map)
  also have "\<dots> \<le> card (set (ss_processed s))" using sub by (intro card_mono) simp_all
  also have "\<dots> \<le> length (ss_processed s)" by (rule card_length)
  finally show ?thesis using pend by simp
qed

lemma coordinate_inv:
  assumes ok: "cfg_ok cfg" and inv: "sched_inv cfg s" and step: "coordinate cfg s = Some s'"
  shows "sched_inv cfg s' \<and> ss_pending s' < ss_pending s"
proof -
  have core: "sched_core cfg s" using inv by (simp add: sched_inv_def)
  have pend: "ss_pending s \<noteq> 0"
  proof
    assume "ss_pending s = 0"
    with step show False by (simp add: coordinate_def)
  qed
  show ?thesis
  proof (cases "ss_resolved s")
    case (Cons d rs)
    note pop = pop_resolved_core [OF core Cons pend]
    have s': "s' = finish cfg d (s\<lparr>ss_resolved := rs\<rparr>)" using step Cons pend by (simp add: coordinate_def)
    show ?thesis unfolding s'
      using finish_inv [OF ok inv, of "s\<lparr>ss_resolved := rs\<rparr>" d] pop pend by simp
  next
    case Nil
    then have fl: "0 < ss_inFlight s" using exhausted [OF ok inv] pend by auto
    with step Nil pend obtain r rs where out: "ss_outcomes s = r # rs"
      by (auto simp: coordinate_def split: list.splits)
    let ?t = "s\<lparr>ss_outcomes := rs, ss_inFlight := ss_inFlight s - 1,
        ss_results := gm_put (sr_Stage r) r (ss_results s)\<rparr>"
    have s': "s' = finish cfg (sr_Stage r) ?t"
      using step Nil pend fl out by (simp add: coordinate_def)
    show ?thesis unfolding s'
      using finish_inv [OF ok inv, of ?t "sr_Stage r"] pop_outcome_core [OF core out pend] pend by simp
  qed
qed

lemma worker_takes_inv:
  assumes inv: "sched_inv cfg s" and step: "sched_step cfg WorkerTakes s = Some s'"
  shows "sched_inv cfg s'"
proof -
  from step obtain i "is" where d: "ss_dispatchable s = i # is"
    and room: "length (ss_running s) < sc_parallelism cfg"
    and s': "s' = s\<lparr>ss_dispatchable := is, ss_running := ss_running s @ [i],
       ss_invoked := (if se_before (sc_env cfg i) = None then ss_invoked s @ [i] else ss_invoked s)\<rparr>"
    by (auto simp: sched_step_def split: list.splits if_splits)
  have core: "sched_core cfg s" using inv by (simp add: sched_inv_def)
  have adm: "set (admitted s') = set (admitted s)" using d s' by (auto simp: admitted_def)
  have ni: "i \<notin> set is" using core d by (auto simp: sched_core_def core_places_def admitted_def)
  have "core_places cfg s'"
    using core d room unfolding sched_core_def core_places_def adm unfolding s' by (auto simp: admitted_def)
  moreover have "core_flight cfg s'" using core d by (auto simp: sched_core_def core_flight_def s')
  moreover have "core_results cfg s'" using core by (simp add: sched_core_def core_results_def s')
  moreover have "core_invoked cfg s'"
    using core d ni flight_admitted [of i s]
    unfolding sched_core_def core_invoked_def core_flight_def adm unfolding s' by auto
  ultimately have "sched_core cfg s'" by (simp add: sched_core_def)
  then show ?thesis using inv unfolding sched_inv_def adm by (simp add: s')
qed

lemma worker_done_inv:
  assumes inv: "sched_inv cfg s" and step: "sched_step cfg (WorkerDone n) s = Some s'"
  shows "sched_inv cfg s'"
proof -
  from step have n: "n < length (ss_running s)" by (auto simp: sched_step_def split: if_splits)
  define i where "i = ss_running s ! n"
  define xs where "xs = take n (ss_running s)"
  define ys where "ys = drop (Suc n) (ss_running s)"
  have r: "ss_running s = xs @ i # ys" using id_take_nth_drop [OF n] by (simp add: xs_def ys_def i_def)
  have s': "s' = s\<lparr>ss_running := xs @ ys, ss_outcomes := ss_outcomes s @ [runStage (sc_env cfg i) i]\<rparr>"
    using step n by (simp add: sched_step_def xs_def ys_def i_def)
  have core: "sched_core cfg s" using inv by (simp add: sched_inv_def)
  have adm: "set (admitted s') = set (admitted s)" using r s' by (auto simp: admitted_def)
  have "core_places cfg s'"
    using core unfolding sched_core_def core_places_def adm unfolding s' by (auto simp: admitted_def r)
  moreover have "core_flight cfg s'" using core by (auto simp: sched_core_def core_flight_def s' r)
  moreover have "core_results cfg s'" using core by (simp add: sched_core_def core_results_def s')
  moreover have "core_invoked cfg s'"
    using core unfolding sched_core_def core_invoked_def adm unfolding s' by auto
  ultimately have "sched_core cfg s'" by (simp add: sched_core_def)
  then show ?thesis using inv unfolding sched_inv_def adm by (simp add: s')
qed

lemma seed_admits:
  "foldl (\<lambda>s i. if gm_or (ss_indegree s) 0 i = 0 then admit cfg i s else s) s order =
     admit_all cfg (filter (\<lambda>i. gm_or (ss_indegree s) 0 i = 0) order) s"
proof (induction order arbitrary: s)
  case (Cons i order)
  then show ?case by (simp add: admit_keeps_indegree)
qed simp

lemma seed_inv:
  assumes ok: "cfg_ok cfg" shows "sched_inv cfg (seed cfg)"
proof -
  let ?G = "dep_map (sc_stages cfg)" and ?s = "start_state cfg"
  let ?is = "filter (\<lambda>i. gm_or (ss_indegree ?s) 0 i = 0) (sc_order cfg)"
  have cnt: "counts ?G [] (ss_indegree ?s)"
    using ok build_graph_counts [of ?G] by (simp add: cfg_ok_def graph_ok_def start_state_def del: dep_map_keys)
  then have zero: "gm_or (ss_indegree ?s) 0 i = 0 \<longleftrightarrow> deps ?G i = []" for i
    by (simp add: counts_def)
  have order: "distinct (sc_order cfg)" "set (sc_order cfg) = set (gm_keys (sc_stages cfg))"
    using ok by (simp_all add: cfg_ok_def)
  have core: "sched_core cfg ?s"
    by (simp add: sched_core_def core_defs start_state_def admitted_def)
  have a0: "set (admitted ?s) = {}" "ss_processed ?s = []" by (simp_all add: start_state_def admitted_def)
  have "sched_core cfg (admit_all cfg ?is ?s) \<and> set (admitted (admit_all cfg ?is ?s)) = set ?is \<union> set (admitted ?s)
     \<and> ss_processed (admit_all cfg ?is ?s) = ss_processed ?s \<and> ss_indegree (admit_all cfg ?is ?s) = ss_indegree ?s
     \<and> ss_pending (admit_all cfg ?is ?s) = ss_pending ?s"
    using core a0 zero order by (intro admit_all_core) (auto simp del: set_map)
  moreover have "seed cfg = admit_all cfg ?is ?s" by (simp add: seed_def seed_admits)
  ultimately show ?thesis
    using cnt a0 zero order unfolding sched_inv_def by auto
qed

lemma step_inv: "cfg_ok cfg \<Longrightarrow> sched_inv cfg s \<Longrightarrow> sched_step cfg c s = Some s' \<Longrightarrow> sched_inv cfg s'"
  using coordinate_inv [of cfg s s'] worker_takes_inv [of cfg s s'] worker_done_inv [of cfg s _ s']
  by (cases c) (auto simp: sched_step_def)

lemma reach_inv: "sched_reach cfg s \<Longrightarrow> cfg_ok cfg \<Longrightarrow> sched_inv cfg s"
  by (induction rule: sched_reach.induct) (auto intro: seed_inv step_inv)

section \<open>Progress\<close>

definition progress :: "sched_state \<Rightarrow> nat" where
  "progress s = 3 * length (ss_processed s) + 2 * length (ss_resolved s) + length (ss_running s)
     + 2 * length (ss_outcomes s)"

lemma progress_admit: "progress s \<le> progress (admit cfg i s)"
  by (simp add: progress_def admit_def split: option.split)

lemma progress_admit_all: "progress s \<le> progress (admit_all cfg is s)"
  by (induction "is" arbitrary: s) (auto intro: le_trans [OF progress_admit])

lemma progress_release: "progress s \<le> progress (release cfg ds s)"
  unfolding release_decrement by (rule le_trans [OF _ progress_admit_all]) (simp add: progress_def)

lemma progress_finish: "progress s + 3 \<le> progress (finish cfg d s)"
  unfolding finish_def by (rule le_trans [OF _ progress_release]) (simp add: progress_def)

lemma progress_step:
  assumes ok: "cfg_ok cfg" and inv: "sched_inv cfg s" and step: "sched_step cfg c s = Some s'"
  shows "progress s < progress s'"
proof (cases c)
  case WorkerTakes
  with step show ?thesis by (auto simp: sched_step_def progress_def split: list.splits if_splits)
next
  case (WorkerDone n)
  with step show ?thesis by (auto simp: sched_step_def progress_def split: if_splits)
next
  case Coordinator
  with step have co: "coordinate cfg s = Some s'" by (simp add: sched_step_def)
  then have p: "ss_pending s \<noteq> 0" using coordinate_inv [OF ok inv co] by simp
  show ?thesis
  proof (cases "ss_resolved s")
    case (Cons d rs)
    then show ?thesis using co p progress_finish [of "s\<lparr>ss_resolved := rs\<rparr>" cfg d]
      by (simp add: coordinate_def progress_def)
  next
    case Nil
    then have "0 < ss_inFlight s" using exhausted [OF ok inv] p by auto
    then obtain r rs where "ss_outcomes s = r # rs"
      "s' = finish cfg (sr_Stage r) (s\<lparr>ss_outcomes := rs, ss_inFlight := ss_inFlight s - 1,
         ss_results := gm_put (sr_Stage r) r (ss_results s)\<rparr>)"
      using co p Nil by (auto simp: coordinate_def split: list.splits)
    then show ?thesis
      using progress_finish [of "s\<lparr>ss_outcomes := rs, ss_inFlight := ss_inFlight s - 1,
         ss_results := gm_put (sr_Stage r) r (ss_results s)\<rparr>" cfg "sr_Stage r"]
      by (simp add: progress_def)
  qed
qed

lemma progress_bound:
  assumes ok: "cfg_ok cfg" and inv: "sched_inv cfg s" shows "progress s \<le> 3 * length (sc_stages cfg)"
proof -
  have a: "distinct (admitted s)" "set (admitted s) \<subseteq> set (gm_keys (sc_stages cfg))"
    using inv unfolding sched_inv_def sched_core_def core_places_def by blast+
  then have "length (admitted s) \<le> card (set (gm_keys (sc_stages cfg)))"
    by (metis card_mono distinct_card finite_set)
  then have "length (admitted s) \<le> length (sc_stages cfg)"
    by (metis card_length le_trans length_map)
  then show ?thesis by (simp add: progress_def admitted_def)
qed

lemma exec_length:
  assumes ok: "cfg_ok cfg"
  shows "sched_inv cfg s \<Longrightarrow> sched_exec cfg cs s = Some s' \<Longrightarrow> progress s + length cs \<le> progress s'"
proof (induction cs arbitrary: s)
  case (Cons c cs)
  then obtain t where t: "sched_step cfg c s = Some t" "sched_exec cfg cs t = Some s'"
    by (auto split: option.splits)
  from Cons.IH [OF step_inv [OF ok Cons.prems(1) t(1)] t(2)] progress_step [OF ok Cons.prems(1) t(1)]
  show ?case by simp
qed simp

lemma exec_reach: "sched_reach cfg s \<Longrightarrow> sched_exec cfg cs s = Some s' \<Longrightarrow> sched_reach cfg s'"
  by (induction cs arbitrary: s) (auto split: option.splits intro: sched_reach.step)

lemma not_stuck:
  assumes ok: "cfg_ok cfg" and inv: "sched_inv cfg s" and live: "\<not> sched_done s"
  shows "\<exists>c s'. sched_step cfg c s = Some s'"
proof (cases "ss_dispatchable s = [] \<and> ss_running s = []")
  case False
  then consider i "is" where "ss_running s = i # is" | i "is" where "ss_running s = []" "ss_dispatchable s = i # is"
    by (cases "ss_running s"; cases "ss_dispatchable s") auto
  then show ?thesis
  proof cases
    case 1
    then have "sched_step cfg (WorkerDone 0) s \<noteq> None" by (simp add: sched_step_def)
    then show ?thesis by blast
  next
    case 2
    then have "sched_step cfg WorkerTakes s \<noteq> None" using ok by (simp add: sched_step_def cfg_ok_def)
    then show ?thesis by blast
  qed
next
  case True
  with live have p: "ss_pending s \<noteq> 0" by (simp add: sched_done_def)
  have fl: "ss_inFlight s = length (ss_outcomes s)"
    using inv True by (simp add: sched_inv_def sched_core_def core_places_def)
  have "coordinate cfg s \<noteq> None"
    using p fl by (auto simp: coordinate_def split: list.splits)
  then have "sched_step cfg Coordinator s \<noteq> None" by (simp add: sched_step_def)
  then show ?thesis by blast
qed

section \<open>Results\<close>

lemma done_results:
  assumes ok: "cfg_ok cfg" and inv: "sched_inv cfg s" and fin: "sched_done s"
  shows "dom (gm_get (ss_results s)) = set (gm_keys (sc_stages cfg))"
    and "gm_get (ss_results s) i = Some r \<Longrightarrow> r = expected cfg (ss_results s) i"
proof -
  note core = inv [unfolded sched_inv_def sched_core_def]
  show "gm_get (ss_results s) i = Some r \<Longrightarrow> r = expected cfg (ss_results s) i"
    using core unfolding core_results_def by blast
  have len: "length (ss_processed s) = length (sc_stages cfg)"
    using core fin by (simp add: core_places_def sched_done_def)
  have d: "distinct (ss_processed s)" and sub: "set (ss_processed s) \<subseteq> set (gm_keys (sc_stages cfg))"
    using core unfolding core_places_def admitted_def by auto
  have "card (set (ss_processed s)) = length (sc_stages cfg)" using d len by (simp add: distinct_card)
  moreover have "card (set (gm_keys (sc_stages cfg))) \<le> length (sc_stages cfg)"
    by (metis card_length length_map)
  ultimately have all: "set (ss_processed s) = set (gm_keys (sc_stages cfg))"
    using sub card_seteq [of "set (gm_keys (sc_stages cfg))" "set (ss_processed s)"] by simp
  have "set (ss_resolved s) \<subseteq> set (gm_keys (sc_stages cfg))"
    using core unfolding core_places_def admitted_def by (auto simp del: set_map)
  then show "dom (gm_get (ss_results s)) = set (gm_keys (sc_stages cfg))"
    using core all unfolding core_places_def by blast
qed

lemma expected_unique:
  assumes ok: "cfg_ok cfg"
    and A: "dom (gm_get A) = set (gm_keys (sc_stages cfg))" "\<And>i r. gm_get A i = Some r \<Longrightarrow> r = expected cfg A i"
    and B: "dom (gm_get B) = set (gm_keys (sc_stages cfg))" "\<And>i r. gm_get B i = Some r \<Longrightarrow> r = expected cfg B i"
  shows "gm_get A = gm_get B"
proof
  let ?G = "dep_map (sc_stages cfg)"
  have "finite (dep_rel ?G)"
    using dep_rel_keys [of ?G] ok by (intro finite_subset [OF dep_rel_keys]) (simp_all add: cfg_ok_def)
  then have wf: "wf (dep_rel ?G)" using ok by (intro finite_acyclic_wf) (simp_all add: cfg_ok_def)
  fix i show "gm_get A i = gm_get B i"
    using wf
  proof (induction i rule: wf_induct_rule)
    case (less i)
    then have e: "expected cfg A i = expected cfg B i"
      by (intro results_cong) (simp add: dep_rel_def)
    have "gm_get A i = None \<longleftrightarrow> gm_get B i = None" using A(1) B(1) by (metis domIff)
    with e A(2) [of i] B(2) [of i] show ?case by (cases "gm_get A i"; cases "gm_get B i") auto
  qed
qed

section \<open>Run\<close>

text \<open>
  \<open>Run_prepare\<close> is \<^verbatim>\<open>Run\<close> up to the analysis and the stage map; \<open>Run_report\<close> is the rest
  after \<^verbatim>\<open>schedule\<close> returned. \<open>runCtxErr\<close> and \<open>ctxErr\<close> are the errors of the bounded
  context and of the caller's context at that moment.
\<close>

record Scheduler =
  sd_Parallelism :: int
  sd_hasRunner :: bool
  sd_Budget :: int

datatype run_error =
    InvalidArgument | PipelineValidation "Issue list" | BudgetExceeded | ContextError string
  | ScheduleError "StageResult list"

definition stages_by_id :: "Stage list \<Rightarrow> (string, Stage) gomap" where
  "stages_by_id sts = foldl (\<lambda>m st. gm_put (sg_ID st) st m) [] sts"

definition Run_prepare :: "Scheduler \<Rightarrow> bool \<Rightarrow> Pipeline \<Rightarrow> (string \<Rightarrow> stage_env) \<Rightarrow> run_error + sched_config" where
  "Run_prepare sd hasContext p env =
     (if \<not> hasContext \<or> sd_Parallelism sd \<le> 0 \<or> \<not> sd_hasRunner sd \<or> sd_Budget sd < 0 then Inl InvalidArgument
      else case Analyze p of
        Inl issues \<Rightarrow> Inl (PipelineValidation issues)
      | Inr graph \<Rightarrow> Inr \<lparr>sc_parallelism = nat (sd_Parallelism sd), sc_stages = stages_by_id (pl_Stages p),
                         sc_order = gr_Order graph, sc_env = env\<rparr>)"

definition zero_result :: StageResult where
  "zero_result = \<lparr>sr_Stage = [], sr_State = [], sr_Error = []\<rparr>"

definition Run_report ::
  "Scheduler \<Rightarrow> string option \<Rightarrow> string option \<Rightarrow> string list \<Rightarrow> (string, StageResult) gomap \<Rightarrow>
   StageResult list \<times> run_error option" where
  "Run_report sd runCtxErr ctxErr order results =
     (let budgetExceeded = (0 < sd_Budget sd \<and> runCtxErr \<noteq> None \<and> ctxErr = None);
          relabel = (\<lambda>r. if budgetExceeded \<and> sr_State r = StageCanceled
                          then r\<lparr>sr_State := StageBudgetExceeded\<rparr> else r);
          stages = map (\<lambda>i. relabel (gm_or results zero_result i)) order;
          failures = filter (\<lambda>r. sr_State r = StageFailed) stages
      in (stages,
          if budgetExceeded then Some BudgetExceeded
          else case ctxErr of
            Some e \<Rightarrow> Some (ContextError e)
          | None \<Rightarrow> (if failures \<noteq> [] then Some (ScheduleError failures) else None)))"

lemma stages_by_id_map:
  "distinct (map sg_ID sts) \<Longrightarrow> stages_by_id sts = stage_map sts"
proof -
  have "distinct (map sg_ID sts) \<Longrightarrow> set (map sg_ID sts) \<inter> set (gm_keys m) = {} \<Longrightarrow>
      foldl (\<lambda>m st. gm_put (sg_ID st) st m) m sts = m @ stage_map sts" for m
  proof (induction sts arbitrary: m)
    case (Cons st sts)
    then have "gm_put (sg_ID st) st m = m @ [(sg_ID st, st)]" by (intro gm_put_new) auto
    with Cons show ?case by simp
  qed simp
  from this [of "[]"] show "distinct (map sg_ID sts) \<Longrightarrow> ?thesis" by (simp add: stages_by_id_def)
qed

lemma prepare_ok:
  assumes "Run_prepare sd hasContext p env = Inr cfg"
  shows "cfg_ok cfg" and "sc_stages cfg = stage_map (pl_Stages p)" and "sc_env cfg = env"
    and "int (sc_parallelism cfg) = sd_Parallelism sd" and "distinct (map sg_ID (pl_Stages p))"
proof -
  from assms obtain g where g: "Analyze p = Inr g" and par: "0 < sd_Parallelism sd"
    and cfg: "cfg = \<lparr>sc_parallelism = nat (sd_Parallelism sd), sc_stages = stages_by_id (pl_Stages p),
                     sc_order = gr_Order g, sc_env = env\<rparr>"
    by (auto simp: Run_prepare_def split: if_splits sum.splits)
  have wf: "well_formed p" and ac: "acyclic (depends p)"
    and go: "gr_Order g = concat (pipeline_layers p)"
    using g unfolding Analyze_cases by (auto split: if_splits)
  show d: "distinct (map sg_ID (pl_Stages p))" using wf by (simp add: well_formed_def)
  note ok = well_formed_graph [OF wf]
  have c: "closed (pipeline_deps p) (gr_Order g)" unfolding go by (rule layers_facts(1) [OF ok])
  have ac': "acyclic (dep_rel (pipeline_deps p))" using ac unfolding depends_dep_rel [OF d] .
  have "set (gm_keys (pipeline_deps p)) \<subseteq> set (gr_Order g)"
    unfolding go by (rule acyclic_exhausted [OF ok ac' layers_facts(2) [OF ok]])
  with c have all: "set (gr_Order g) = set (gm_keys (stage_map (pl_Stages p)))" "distinct (gr_Order g)"
    unfolding closed_def by auto
  show st: "sc_stages cfg = stage_map (pl_Stages p)" "sc_env cfg = env"
    using cfg stages_by_id_map [OF d] by simp_all
  show "int (sc_parallelism cfg) = sd_Parallelism sd" using cfg par by simp
  show "cfg_ok cfg" unfolding cfg_ok_def st using ok ac' all par cfg by simp
qed

lemma expected_Stage [simp]: "sr_Stage (expected cfg results i) = i"
  by (simp add: expected_def blocked_result_def split: option.split)

text \<open>A stage that did not succeed traces back to one that failed or was cancelled.\<close>

lemma all_succeeded:
  assumes ok: "cfg_ok cfg"
    and dom: "dom (gm_get A) = set (gm_keys (sc_stages cfg))"
    and exp: "\<And>i r. gm_get A i = Some r \<Longrightarrow> r = expected cfg A i"
    and run: "\<And>i. sr_State (runStage (sc_env cfg i) i) = StageSucceeded \<or> gm_get A i \<noteq> Some (runStage (sc_env cfg i) i)"
  shows "i \<in> set (gm_keys (sc_stages cfg)) \<Longrightarrow> state_of A i = StageSucceeded"
proof -
  let ?G = "dep_map (sc_stages cfg)"
  have g: "graph_ok ?G" using ok by (simp add: cfg_ok_def)
  then have "finite (dep_rel ?G)" by (intro finite_subset [OF dep_rel_keys]) simp_all
  then have wf: "wf (dep_rel ?G)" using ok by (intro finite_acyclic_wf) (simp_all add: cfg_ok_def)
  from wf show "i \<in> set (gm_keys (sc_stages cfg)) \<Longrightarrow> state_of A i = StageSucceeded"
  proof (induction i rule: wf_induct_rule)
    case (less i)
    have "unblocked cfg A i"
      using less.IH deps_keys [OF g, of i] unfolding unblocked_def list_all_iff dep_map_keys
      by (auto simp: dep_rel_def simp del: set_map)
    then have e: "expected cfg A i = runStage (sc_env cfg i) i"
      by (simp add: expected_def unblocked_def find_Some_unblocked [symmetric])
    from less.prems dom obtain r where r: "gm_get A i = Some r" by (metis domD)
    with exp [OF r] e run [of i] show ?case by (auto simp: state_of_def)
  qed
qed

section \<open>Properties\<close>

text \<open>
  C10: In every reachable state of a run, whatever the interleaving of coordinator and
  workers: a runner has only been called for stages all of whose dependencies have a
  succeeded result, never twice for a stage, and at most \<^verbatim>\<open>Parallelism\<close> stages are being
  run.
\<close>

theorem runner_called_after_dependencies:
  assumes prep: "Run_prepare sd hasContext p env = Inr cfg" and reach: "sched_reach cfg s"
  shows "(\<forall>st \<in> set (pl_Stages p). sg_ID st \<in> set (ss_invoked s) \<longrightarrow>
            (\<forall>d \<in> set (sg_DependsOn st). state_of (ss_results s) d = StageSucceeded))
    \<and> distinct (ss_invoked s) \<and> int (length (ss_running s)) \<le> sd_Parallelism sd"
proof -
  note pre = prepare_ok [OF prep]
  have core: "core_places cfg s" "core_invoked cfg s"
    using reach_inv [OF reach pre(1)] by (simp_all add: sched_inv_def sched_core_def)
  have "state_of (ss_results s) d = StageSucceeded"
    if "st \<in> set (pl_Stages p)" "sg_ID st \<in> set (ss_invoked s)" "d \<in> set (sg_DependsOn st)" for st d
    using core(2) that pipeline_deps_stage [OF pre(5) that(1)]
    by (auto simp: core_invoked_def unblocked_def list_all_iff pre(2))
  moreover have "int (length (ss_running s)) \<le> sd_Parallelism sd"
    using core(1) pre(4) by (simp add: core_places_def)
  ultimately show ?thesis using core(2) by (auto simp: core_invoked_def)
qed

text \<open>
  C11: A run cannot deadlock and always ends: in every reachable state either the loop is
  over and all workers are idle, or some goroutine can move; and no execution has more
  than three steps per stage.
\<close>

theorem run_terminates:
  assumes prep: "Run_prepare sd hasContext p env = Inr cfg" and reach: "sched_reach cfg s"
  shows "(sched_done s \<or> (\<exists>c s'. sched_step cfg c s = Some s'))
    \<and> (\<forall>cs s'. sched_exec cfg cs s = Some s' \<longrightarrow> length cs \<le> 3 * length (pl_Stages p))"
proof -
  note pre = prepare_ok [OF prep]
  note inv = reach_inv [OF reach pre(1)]
  have "length cs \<le> 3 * length (pl_Stages p)" if "sched_exec cfg cs s = Some s'" for cs s'
    using exec_length [OF pre(1) inv that] progress_bound [OF pre(1) reach_inv [OF exec_reach [OF reach that] pre(1)]]
    by (simp add: pre(2))
  then show ?thesis using not_stuck [OF pre(1) inv] by blast
qed

text \<open>
  C12: When a run is over every stage has exactly the result its dependencies determine:
  blocked, naming the first dependency in sorted order that did not succeed, or else the
  outcome of its own runner. Two runs of the same pipeline in which the runners behave
  alike therefore end with the same results, whatever the interleaving.
\<close>

theorem results_determined:
  assumes prep: "Run_prepare sd hasContext p env = Inr cfg"
    and s: "sched_reach cfg s" "sched_done s" and s2: "sched_reach cfg s2" "sched_done s2"
  shows "(\<forall>st \<in> set (pl_Stages p). gm_get (ss_results s) (sg_ID st) =
            Some (case List.find (\<lambda>d. state_of (ss_results s) d \<noteq> StageSucceeded) (sort (sg_DependsOn st)) of
                    None \<Rightarrow> runStage (env (sg_ID st)) (sg_ID st)
                  | Some d \<Rightarrow> blocked_result (sg_ID st) d))
    \<and> gm_get (ss_results s2) = gm_get (ss_results s)"
proof -
  note pre = prepare_ok [OF prep]
  note A = done_results [OF pre(1) reach_inv [OF s(1) pre(1)] s(2)]
  note B = done_results [OF pre(1) reach_inv [OF s2(1) pre(1)] s2(2)]
  have "gm_get (ss_results s) (sg_ID st) =
            Some (case List.find (\<lambda>d. state_of (ss_results s) d \<noteq> StageSucceeded) (sort (sg_DependsOn st)) of
                    None \<Rightarrow> runStage (env (sg_ID st)) (sg_ID st)
                  | Some d \<Rightarrow> blocked_result (sg_ID st) d)" if st: "st \<in> set (pl_Stages p)" for st
  proof -
    have "sg_ID st \<in> dom (gm_get (ss_results s))" using st unfolding A(1) pre(2) by force
    then obtain r where r: "gm_get (ss_results s) (sg_ID st) = Some r" by blast
    from A(2) [OF r] r show ?thesis
      by (simp add: expected_def blockedBy_def pre(2,3) pipeline_deps_stage [OF pre(5) st] split: option.splits)
  qed
  moreover have "gm_get (ss_results s2) = gm_get (ss_results s)"
    by (rule expected_unique [OF pre(1) B(1) B(2) A(1) A(2)])
  ultimately show ?thesis by blast
qed

text \<open>
  When \<^verbatim>\<open>Run\<close> returns no error, every stage of the pipeline succeeded and is reported
  once, in topological order. The two hypotheses on contexts are Go's: a context that is
  done stays done, and without a budget the run uses the caller's context.
\<close>

theorem nil_error_means_success:
  assumes prep: "Run_prepare sd hasContext p env = Inr cfg"
    and s: "sched_reach cfg s" "sched_done s"
    and rep: "Run_report sd runCtxErr ctxErr (sc_order cfg) (ss_results s) = (stages, None)"
    and stays_done: "\<And>i. se_before (env i) \<noteq> None \<or> se_after (env i) \<noteq> None \<Longrightarrow> runCtxErr \<noteq> None"
    and own_context: "sd_Budget sd = 0 \<Longrightarrow> runCtxErr = ctxErr"
  shows "map sr_Stage stages = sc_order cfg
    \<and> set (sc_order cfg) = set (map sg_ID (pl_Stages p)) \<and> distinct (sc_order cfg)
    \<and> list_all (\<lambda>r. sr_State r = StageSucceeded) stages"
proof -
  note pre = prepare_ok [OF prep]
  note A = done_results [OF pre(1) reach_inv [OF s(1) pre(1)] s(2)]
  have order: "distinct (sc_order cfg)" "set (sc_order cfg) = set (gm_keys (sc_stages cfg))"
    using pre(1) by (simp_all add: cfg_ok_def)
  let ?res = "\<lambda>i. gm_or (ss_results s) zero_result i"
  have budget: "0 \<le> sd_Budget sd" using prep by (auto simp: Run_prepare_def split: if_splits)
  have ctx: "ctxErr = None" "runCtxErr = None"
    using rep own_context budget by (auto simp: Run_report_def Let_def split: if_splits option.splits)
  have stages: "stages = map ?res (sc_order cfg)"
    and nofail: "\<And>i. i \<in> set (sc_order cfg) \<Longrightarrow> sr_State (?res i) \<noteq> StageFailed"
    using rep ctx by (auto simp: Run_report_def Let_def filter_empty_conv split: if_splits)
  have some: "\<exists>r. gm_get (ss_results s) i = Some r \<and> ?res i = r \<and> sr_Stage r = i" if "i \<in> set (sc_order cfg)" for i
  proof -
    have "i \<in> dom (gm_get (ss_results s))" unfolding A(1) order(2) [symmetric] by (rule that)
    then obtain r where r: "gm_get (ss_results s) i = Some r" by (auto simp: dom_def)
    have "sr_Stage r = i" by (subst A(2) [OF r]) (rule expected_Stage)
    then show ?thesis using r by (simp add: gm_or_def)
  qed
  have run: "sr_State (runStage (env i) i) \<in> {StageSucceeded, StageFailed}" for i
  proof -
    have "se_before (env i) = None" "se_after (env i) = None" using stays_done [of i] ctx(2) by blast+
    then show ?thesis by (simp add: runStage_def split: option.split)
  qed
  have "sr_State (runStage (sc_env cfg i) i) = StageSucceeded
      \<or> gm_get (ss_results s) i \<noteq> Some (runStage (sc_env cfg i) i)" for i
  proof (rule disjCI, simp)
    assume got: "gm_get (ss_results s) i = Some (runStage (sc_env cfg i) i)"
    then have "i \<in> set (sc_order cfg)" unfolding order(2) A(1) [symmetric] by (rule domI)
    from nofail [OF this] got run [of i] show "sr_State (runStage (sc_env cfg i) i) = StageSucceeded"
      by (simp add: pre(3) gm_or_def)
  qed
  from all_succeeded [OF pre(1) A this]
  have st: "state_of (ss_results s) i = StageSucceeded" if "i \<in> set (sc_order cfg)" for i
    using that order(2) by blast
  have ok: "sr_State (?res i) = StageSucceeded" if "i \<in> set (sc_order cfg)" for i
    using some [OF that] st [OF that] by (auto simp: state_of_def)
  have "map (\<lambda>i. sr_Stage (?res i)) (sc_order cfg) = sc_order cfg"
    using some by (intro map_idI) force
  then show ?thesis
    using order ok unfolding stages by (simp add: list_all_iff comp_def pre(2))
qed

section \<open>A concrete run\<close>

definition demo_scheduler :: Scheduler where
  "demo_scheduler = \<lparr>sd_Parallelism = 2, sd_hasRunner = True, sd_Budget = 0\<rparr>"

definition demo_env :: "string \<Rightarrow> stage_env" where
  "demo_env i = \<lparr>se_before = None, se_runner = None, se_after = None\<rparr>"

definition demo_cfg :: sched_config where
  "demo_cfg = \<lparr>sc_parallelism = 2, sc_stages = stages_by_id (pl_Stages diamond),
     sc_order = gr_Order diamond_graph, sc_env = demo_env\<rparr>"

definition demo_choices :: "choice list" where
  "demo_choices = [WorkerTakes, WorkerDone 0, Coordinator, WorkerTakes, WorkerTakes, WorkerDone 1,
     Coordinator, WorkerDone 0, Coordinator, WorkerTakes, WorkerDone 0, Coordinator]"

definition demo_final :: sched_state where
  "demo_final = (case sched_exec demo_cfg demo_choices (seed demo_cfg) of
     Some s \<Rightarrow> s | None \<Rightarrow> start_state demo_cfg)"

lemma demo_prepare: "Run_prepare demo_scheduler True diamond demo_env = Inr demo_cfg"
proof -
  have "Analyze diamond = Inr diamond_graph" by code_simp
  then show ?thesis by (simp add: Run_prepare_def demo_scheduler_def demo_cfg_def)
qed

lemma demo_reach: "sched_reach demo_cfg demo_final"
proof -
  have "sched_exec demo_cfg demo_choices (seed demo_cfg) \<noteq> None" by code_simp
  then have "sched_exec demo_cfg demo_choices (seed demo_cfg) = Some demo_final"
    by (auto simp: demo_final_def)
  then show ?thesis by (rule exec_reach [OF sched_reach.start])
qed

lemma demo_done: "sched_done demo_final"
  by code_simp

theorem runner_called_after_dependencies_witness:
  "ss_invoked demo_final = [''fetch'', ''core'', ''ui'', ''link''] \<and> distinct (ss_invoked demo_final)"
proof -
  have "ss_invoked demo_final = [''fetch'', ''core'', ''ui'', ''link'']" by code_simp
  with runner_called_after_dependencies [OF demo_prepare demo_reach] show ?thesis by blast
qed

theorem run_terminates_witness:
  "(\<exists>c s'. sched_step demo_cfg c (seed demo_cfg) = Some s')
   \<and> length demo_choices \<le> 3 * length (pl_Stages diamond)"
proof -
  have "\<not> sched_done (seed demo_cfg)" by code_simp
  moreover have "sched_exec demo_cfg demo_choices (seed demo_cfg) \<noteq> None" by code_simp
  then obtain s where "sched_exec demo_cfg demo_choices (seed demo_cfg) = Some s" by blast
  ultimately show ?thesis using run_terminates [OF demo_prepare sched_reach.start] by blast
qed

theorem results_determined_witness:
  "gm_get (ss_results demo_final) ''link'' = Some (runStage (demo_env ''link'') ''link'')"
proof -
  have st: "plain_stage ''link'' [''core'', ''ui''] \<in> set (pl_Stages diamond)"
    by (simp add: diamond_def plain_pipeline_def)
  have i: "sg_ID (plain_stage ''link'' [''core'', ''ui'']) = ''link''"
    and f: "List.find (\<lambda>d. state_of (ss_results demo_final) d \<noteq> StageSucceeded)
        (sort (sg_DependsOn (plain_stage ''link'' [''core'', ''ui'']))) = None"
    by code_simp+
  from results_determined [OF demo_prepare demo_reach demo_done demo_reach demo_done] st i f
  show ?thesis by fastforce
qed

theorem nil_error_means_success_witness:
  "snd (Run_report demo_scheduler None None (sc_order demo_cfg) (ss_results demo_final)) = None
   \<and> list_all (\<lambda>r. sr_State r = StageSucceeded)
       (fst (Run_report demo_scheduler None None (sc_order demo_cfg) (ss_results demo_final)))"
proof -
  let ?r = "Run_report demo_scheduler None None (sc_order demo_cfg) (ss_results demo_final)"
  have none: "snd ?r = None" by code_simp
  then have rep: "?r = (fst ?r, None)" by (metis prod.collapse)
  have "list_all (\<lambda>r. sr_State r = StageSucceeded) (fst ?r)"
    using nil_error_means_success [OF demo_prepare demo_reach demo_done rep] by (simp add: demo_env_def)
  with none show ?thesis by blast
qed

end
