(* ===== verification/Placement.thy ===== *)
theory Placement
  imports Prelude
begin

text \<open>
  Lease placement, \<^verbatim>\<open>internal/placement/placement.go\<close>: eligibility, the preference
  between two candidates, and the scan that selects one. \<^verbatim>\<open>containsSorted\<close> is the binary
  search of the standard library, loop included. Shown: on the sorted lists the workers
  keep, the search decides membership, and \<^verbatim>\<open>Select\<close> returns the best eligible
  candidate by priority, then cache locality, then submission order.
\<close>

section \<open>Binary search\<close>

text \<open>\<^verbatim>\<open>sort.Search(n, f)\<close>: the loop on the interval from \<open>i\<close> to \<open>j\<close>.\<close>

function search_loop :: "(nat \<Rightarrow> bool) \<Rightarrow> nat \<Rightarrow> nat \<Rightarrow> nat" where
  "search_loop f i j =
     (if i < j then (let h = (i + j) div 2 in if \<not> f h then search_loop f (h + 1) j else search_loop f i h)
      else i)"
  by pat_completeness auto
termination by (relation "measure (\<lambda>(f, i, j). j - i)") auto

declare search_loop.simps [simp del]

definition SearchStrings :: "string list \<Rightarrow> string \<Rightarrow> nat" where
  "SearchStrings xs x = search_loop (\<lambda>h. x \<le> xs ! h) 0 (length xs)"

definition containsSorted :: "string list \<Rightarrow> string \<Rightarrow> bool" where
  "containsSorted xs x \<longleftrightarrow> (let index = SearchStrings xs x in index < length xs \<and> xs ! index = x)"

definition upward :: "nat \<Rightarrow> (nat \<Rightarrow> bool) \<Rightarrow> bool" where
  "upward n f \<longleftrightarrow> (\<forall>a b. a \<le> b \<longrightarrow> b < n \<longrightarrow> f a \<longrightarrow> f b)"

lemma search_loop_least:
  "upward n f \<Longrightarrow> i \<le> j \<Longrightarrow> j \<le> n \<Longrightarrow> \<forall>h < i. \<not> f h \<Longrightarrow> \<forall>h < n. j \<le> h \<longrightarrow> f h \<Longrightarrow>
     search_loop f i j \<le> n \<and> (\<forall>h < n. f h \<longleftrightarrow> search_loop f i j \<le> h)"
proof (induction f i j rule: search_loop.induct)
  case (1 f i j)
  let ?h = "(i + j) div 2"
  show ?case
  proof (cases "i < j")
    case False
    with "1.prems" show ?thesis by (subst (1 2) search_loop.simps) (auto simp: not_less [symmetric])
  next
    case True
    then have h: "i \<le> ?h" "?h < j" by auto
    show ?thesis
    proof (cases "f ?h")
      case False
      have "\<forall>h < ?h + 1. \<not> f h"
      proof (intro allI impI notI)
        fix h assume "h < ?h + 1" "f h"
        moreover from this have "h \<le> ?h" by simp
        ultimately have "f ?h" using "1.prems"(1,3) h(2) unfolding upward_def
          by (meson order_less_le_trans)
        with False show False by simp
      qed
      then have "search_loop f (?h + 1) j \<le> n \<and> (\<forall>h < n. f h \<longleftrightarrow> search_loop f (?h + 1) j \<le> h)"
        using False True h "1.prems" by (intro "1.IH"(1)) auto
      with False True show ?thesis by (subst (1 2) search_loop.simps) (simp add: Let_def)
    next
      case f: True
      have "\<forall>h < n. ?h \<le> h \<longrightarrow> f h" using f "1.prems"(1) unfolding upward_def by blast
      then have "search_loop f i ?h \<le> n \<and> (\<forall>h < n. f h \<longleftrightarrow> search_loop f i ?h \<le> h)"
        using f True h "1.prems" by (intro "1.IH"(2)) auto
      with f True show ?thesis by (subst (1 2) search_loop.simps) (simp add: Let_def)
    qed
  qed
qed

lemma containsSorted_iff:
  assumes "sorted xs" shows "containsSorted xs x \<longleftrightarrow> x \<in> set xs"
proof -
  let ?f = "\<lambda>h. x \<le> xs ! h" and ?i = "SearchStrings xs x"
  have "upward (length xs) ?f"
    using assms sorted_nth_mono [of xs] unfolding upward_def by (meson order_trans)
  from search_loop_least [OF this, of 0 "length xs"]
  have i: "?i \<le> length xs" "\<And>h. h < length xs \<Longrightarrow> x \<le> xs ! h \<longleftrightarrow> ?i \<le> h"
    unfolding SearchStrings_def by simp_all
  show ?thesis
  proof
    assume "containsSorted xs x"
    then show "x \<in> set xs" unfolding containsSorted_def Let_def by (metis nth_mem)
  next
    assume "x \<in> set xs"
    then obtain k where k: "k < length xs" "xs ! k = x" by (auto simp: in_set_conv_nth)
    then have ik: "?i \<le> k" using i(2) [of k] by simp
    with k have "?i < length xs" by simp
    moreover from this have "x \<le> xs ! ?i" using i(2) [of ?i] by simp
    moreover have "xs ! ?i \<le> x" using ik k assms sorted_nth_mono [of xs ?i k] by simp
    ultimately show "containsSorted xs x" by (simp add: containsSorted_def Let_def)
  qed
qed

section \<open>Selection\<close>

record Worker =
  wk_Platform :: string
  wk_Capabilities :: "string list"
  wk_CachedContent :: "string list"

record Candidate =
  cd_RequiredPlatform :: string
  cd_RequiredCapabilities :: "string list"
  cd_PreferredContent :: string
  cd_Priority :: int

definition Eligible :: "Worker \<Rightarrow> Candidate \<Rightarrow> bool" where
  "Eligible w c \<longleftrightarrow>
     (if cd_RequiredPlatform c \<noteq> [] \<and> cd_RequiredPlatform c \<noteq> wk_Platform w then False
      else list_all (\<lambda>capability. containsSorted (wk_Capabilities w) capability) (cd_RequiredCapabilities c))"

definition betterCandidate :: "Worker \<Rightarrow> Candidate \<Rightarrow> Candidate \<Rightarrow> bool" where
  "betterCandidate w candidate current =
     (if cd_Priority candidate \<noteq> cd_Priority current then cd_Priority candidate > cd_Priority current
      else (let candidateCached = (cd_PreferredContent candidate \<noteq> []
                  \<and> containsSorted (wk_CachedContent w) (cd_PreferredContent candidate));
                currentCached = (cd_PreferredContent current \<noteq> []
                  \<and> containsSorted (wk_CachedContent w) (cd_PreferredContent current))
            in candidateCached \<and> \<not> currentCached))"

text \<open>The scan: \<open>best\<close> is the index held so far, \<open>i\<close> the index of the next candidate.\<close>

fun select_loop :: "Worker \<Rightarrow> Candidate list \<Rightarrow> nat option \<Rightarrow> nat \<Rightarrow> Candidate list \<Rightarrow> nat option" where
  "select_loop w pending best i [] = best"
| "select_loop w pending best i (c # cs) =
     (if \<not> Eligible w c then select_loop w pending best (Suc i) cs
      else case best of
        None \<Rightarrow> select_loop w pending (Some i) (Suc i) cs
      | Some b \<Rightarrow>
          (if betterCandidate w c (pending ! b) then select_loop w pending (Some i) (Suc i) cs
           else select_loop w pending best (Suc i) cs))"

definition Select :: "Worker \<Rightarrow> Candidate list \<Rightarrow> nat option" where
  "Select w pending = select_loop w pending None 0 pending"

text \<open>The order the source documents, on the contents of the lists.\<close>

definition serves :: "Worker \<Rightarrow> Candidate \<Rightarrow> bool" where
  "serves w c \<longleftrightarrow> (cd_RequiredPlatform c = [] \<or> cd_RequiredPlatform c = wk_Platform w)
     \<and> set (cd_RequiredCapabilities c) \<subseteq> set (wk_Capabilities w)"

definition cached :: "Worker \<Rightarrow> Candidate \<Rightarrow> bool" where
  "cached w c \<longleftrightarrow> cd_PreferredContent c \<noteq> [] \<and> cd_PreferredContent c \<in> set (wk_CachedContent w)"

definition outranks :: "Worker \<Rightarrow> Candidate \<Rightarrow> Candidate \<Rightarrow> bool" where
  "outranks w a b \<longleftrightarrow> cd_Priority b < cd_Priority a
     \<or> (cd_Priority a = cd_Priority b \<and> cached w a \<and> \<not> cached w b)"

definition worker_sorted :: "Worker \<Rightarrow> bool" where
  "worker_sorted w \<longleftrightarrow> sorted (wk_Capabilities w) \<and> sorted (wk_CachedContent w)"

lemma Eligible_serves: "worker_sorted w \<Longrightarrow> Eligible w c \<longleftrightarrow> serves w c"
  by (auto simp: Eligible_def serves_def worker_sorted_def containsSorted_iff list_all_iff)

lemma better_outranks: "worker_sorted w \<Longrightarrow> betterCandidate w a b \<longleftrightarrow> outranks w a b"
  by (auto simp: betterCandidate_def outranks_def cached_def worker_sorted_def containsSorted_iff Let_def)

text \<open>
  The choice among the first \<open>i\<close> candidates: eligible, not outranked by any of them, and
  outranking every eligible one submitted before it.
\<close>

definition best_of :: "Worker \<Rightarrow> Candidate list \<Rightarrow> nat \<Rightarrow> nat option \<Rightarrow> bool" where
  "best_of w pending i best \<longleftrightarrow>
     (case best of
        None \<Rightarrow> (\<forall>k < i. \<not> serves w (pending ! k))
      | Some b \<Rightarrow> b < i \<and> serves w (pending ! b)
          \<and> (\<forall>k < i. serves w (pending ! k) \<longrightarrow> \<not> outranks w (pending ! k) (pending ! b))
          \<and> (\<forall>k < b. serves w (pending ! k) \<longrightarrow> outranks w (pending ! b) (pending ! k)))"

lemma outranks_mono: "outranks w c b \<Longrightarrow> \<not> outranks w a b \<Longrightarrow> outranks w c a"
  by (auto simp: outranks_def)

lemma select_loop_best:
  assumes "worker_sorted w"
  shows "pending = pre @ cs \<Longrightarrow> best_of w pending (length pre) best \<Longrightarrow>
     best_of w pending (length pending) (select_loop w pending best (length pre) cs)"
proof (induction cs arbitrary: pre best)
  case (Cons c cs)
  let ?i = "length pre"
  have c: "pending ! ?i = c" and p: "pending = (pre @ [c]) @ cs" using Cons.prems(1) by simp_all
  note IH = Cons.IH [OF p]
  have keep: "best_of w pending (Suc ?i) best" if "\<not> serves w c \<or> (\<exists>b. best = Some b \<and> \<not> outranks w c (pending ! b))"
    using Cons.prems(2) that c by (auto simp: best_of_def less_Suc_eq split: option.splits)
  have new: "best_of w pending (Suc ?i) (Some ?i)"
    if "serves w c" "\<And>b. best = Some b \<Longrightarrow> outranks w c (pending ! b)"
  proof (cases best)
    case None
    with Cons.prems(2) that(1) c show ?thesis by (auto simp: best_of_def less_Suc_eq outranks_def)
  next
    case (Some b)
    have o: "outranks w c (pending ! k)" if "k < ?i" "serves w (pending ! k)" for k
      using Cons.prems(2) Some that \<open>\<And>b. best = Some b \<Longrightarrow> outranks w c (pending ! b)\<close>
      by (auto simp: best_of_def intro: outranks_mono)
    moreover have "\<not> outranks w (pending ! k) c" if "k < ?i" "serves w (pending ! k)" for k
      using o [OF that] by (auto simp: outranks_def)
    ultimately show ?thesis using that(1) c by (auto simp: best_of_def less_Suc_eq outranks_def)
  qed
  show ?case
    using IH [of best] IH [of "Some ?i"] keep new
    by (auto simp: Eligible_serves [OF assms] better_outranks [OF assms] split: option.splits)
qed simp

lemma Select_best: "worker_sorted w \<Longrightarrow> best_of w pending (length pending) (Select w pending)"
  unfolding Select_def using select_loop_best [of w pending "[]" pending None]
  by (simp add: best_of_def)

end
