(* ===== verification/Runs.thy ===== *)
theory Runs
  imports Prelude
begin

text \<open>
  Sequences of operations on one state, the shape of every component that serialises its
  methods with a mutex. The locale \<open>invariant_system\<close> is the contract such a component
  proves once per operation; its lemmas lift it to all histories. \<open>settling_system\<close>
  extends it with observations that never change once made.
\<close>

definition run :: "('op \<Rightarrow> 's \<Rightarrow> 's) \<Rightarrow> 'op list \<Rightarrow> 's \<Rightarrow> 's" where
  "run step ops s = foldl (\<lambda>s op. step op s) s ops"

lemma run_simps [simp]:
  "run step [] s = s" "run step (op # ops) s = run step ops (step op s)"
  "run step (ops @ ops') s = run step ops' (run step ops s)"
  by (simp_all add: run_def)

locale invariant_system =
  fixes step :: "'op \<Rightarrow> 's \<Rightarrow> 's"
    and inv :: "'s \<Rightarrow> bool"
  assumes step_inv: "inv s \<Longrightarrow> inv (step op s)"
begin

lemma run_inv: "inv s \<Longrightarrow> inv (run step ops s)"
  by (induction ops arbitrary: s) (auto intro: step_inv)

end

locale settling_system = invariant_system +
  fixes settled :: "'s \<Rightarrow> 'k \<Rightarrow> 'v option"
  assumes step_settled: "inv s \<Longrightarrow> settled s k = Some v \<Longrightarrow> settled (step op s) k = Some v"
begin

lemma run_settled: "inv s \<Longrightarrow> settled s k = Some v \<Longrightarrow> settled (run step ops s) k = Some v"
  by (induction ops arbitrary: s) (auto intro: step_inv step_settled)

end

text \<open>The same for histories in which only some operations occur.\<close>

locale guarded_system =
  fixes step :: "'op \<Rightarrow> 's \<Rightarrow> 's"
    and inv :: "'s \<Rightarrow> bool"
    and allowed :: "'op \<Rightarrow> bool"
  assumes step_inv: "inv s \<Longrightarrow> allowed op \<Longrightarrow> inv (step op s)"
begin

lemma run_inv: "list_all allowed ops \<Longrightarrow> inv s \<Longrightarrow> inv (run step ops s)"
  by (induction ops arbitrary: s) (auto intro: step_inv)

end

end
