(* ===== verification/Control_Plane.thy ===== *)
theory Control_Plane
  imports Placement Runs
begin

text \<open>
  The lease coordinator, \<^verbatim>\<open>internal/control/control.go\<close>: worker registration and
  liveness, lease submission, assignment, completion, cancellation and reaping. Every
  exported method holds the mutex for its whole state change, so a concurrent history is
  a sequence of operations on one state. Times are integers, with zero for Go's zero
  time; the clock is an argument. Shown: an invariant tying the queue, the lease states
  and the workers together is kept by every operation, terminal leases never change, and
  an assignment is the best the policy allows.
\<close>

section \<open>State\<close>

record WorkerStatus =
  ws_ID :: string
  ws_Platform :: string
  ws_Capabilities :: "string list"
  ws_CachedContent :: "string list"
  ws_MaxParallel :: int
  ws_RegisteredAt :: int
  ws_LastHeartbeat :: int
  ws_PublicKey :: string

record WorkerRegistration =
  wr_Platform :: string
  wr_Capabilities :: "string list"
  wr_CachedContent :: "string list"
  wr_MaxParallel :: int
  wr_PublicKey :: string

abbreviation LeasePending :: string where "LeasePending \<equiv> ''pending''"
abbreviation LeaseAssigned :: string where "LeaseAssigned \<equiv> ''assigned''"
abbreviation LeaseCompleted :: string where "LeaseCompleted \<equiv> ''completed''"
abbreviation LeaseCanceled :: string where "LeaseCanceled \<equiv> ''canceled''"

record Lease =
  le_ID :: string
  le_Payload :: string
  le_RequiredPlatform :: string
  le_RequiredCapabilities :: "string list"
  le_PreferredContent :: string
  le_Tenant :: string
  le_Priority :: int
  le_State :: string
  le_Worker :: string
  le_Attempt :: nat
  le_Result :: string
  le_AssignedAt :: int
  le_CompletedBy :: string
  le_CompletedAt :: int
  le_CanceledBy :: string
  le_CanceledAt :: int

record ControlPlane =
  cp_heartbeatTimeout :: int
  cp_workers :: "(string, WorkerStatus) gomap"
  cp_leases :: "(string, Lease) gomap"
  cp_pending :: "string list"
  cp_nextID :: nat

definition NewControlPlane :: "int \<Rightarrow> ControlPlane" where
  "NewControlPlane timeout =
     \<lparr>cp_heartbeatTimeout = timeout, cp_workers = [], cp_leases = [], cp_pending = [], cp_nextID = 0\<rparr>"

datatype control_error =
    InvalidArgument string | UnknownWorker string | UnknownLease string
  | LeaseNotAssignedToWorker string | LeaseAlreadyCompleted string | InvalidState string | NilLease

section \<open>Checks\<close>

definition maxOpaqueFieldBytes :: int where
  "maxOpaqueFieldBytes = 1048576"

definition workerIDPattern :: "string \<Rightarrow> bool" where
  "workerIDPattern s = label_match (\<lambda>c. is_lower c \<or> is_upper c \<or> is_digit c)
     (\<lambda>c. is_lower c \<or> is_upper c \<or> is_digit c \<or> c \<in> {CHR ''_'', CHR ''.'', CHR ''-''}) 127 s"

definition platform_first :: "char \<Rightarrow> bool" where
  "platform_first c \<longleftrightarrow> is_lower c \<or> is_digit c"

definition platform_rest :: "char \<Rightarrow> bool" where
  "platform_rest c \<longleftrightarrow> is_lower c \<or> is_digit c \<or> c \<in> {CHR ''_'', CHR ''.'', CHR ''-''}"

text \<open>Neither class of the pattern contains a slash, so the first slash is the separator.\<close>

definition platformPattern :: "string \<Rightarrow> bool" where
  "platformPattern s =
     (let os = takeWhile (\<lambda>c. c \<noteq> CHR ''/'') s; rest = dropWhile (\<lambda>c. c \<noteq> CHR ''/'') s
      in rest \<noteq> [] \<and> label_match platform_first platform_rest (length os) os
         \<and> label_match platform_first platform_rest 63 (tl rest))"

definition capabilityPattern :: "string \<Rightarrow> bool" where
  "capabilityPattern s = label_match platform_first
     (\<lambda>c. platform_rest c \<or> c = CHR '':'' \<or> c = CHR ''/'') 127 s"

definition contentPattern :: "string \<Rightarrow> bool" where
  "contentPattern s \<longleftrightarrow> has_prefix s ''sha256:'' \<and> length s = 7 + 64 \<and> list_all is_hex_lower (drop 7 s)"

fun token_loop :: "(string \<Rightarrow> bool) \<Rightarrow> string list \<Rightarrow> string list \<Rightarrow> string list option" where
  "token_loop pattern result [] = Some result"
| "token_loop pattern result (v # vs) =
     (if \<not> pattern v then None
      else if v \<in> set result then token_loop pattern result vs
      else token_loop pattern (result @ [v]) vs)"

definition normalizedTokens :: "string list \<Rightarrow> (string \<Rightarrow> bool) \<Rightarrow> int \<Rightarrow> string list option" where
  "normalizedTokens vs pattern limit =
     (if limit < int (length vs) then None else map_option sort (token_loop pattern [] vs))"

text \<open>
  \<^verbatim>\<open>base64.StdEncoding\<close> skips line breaks; 32 bytes are 43 characters and one pad.
\<close>

definition base64_char :: "char \<Rightarrow> bool" where
  "base64_char c \<longleftrightarrow> is_upper c \<or> is_lower c \<or> is_digit c \<or> c = CHR ''+'' \<or> c = CHR ''/''"

definition ed25519_key_text :: "string \<Rightarrow> bool" where
  "ed25519_key_text s =
     (let t = filter (\<lambda>c. c \<noteq> CHR 0x0D \<and> c \<noteq> CHR 0x0A) s
      in length t = 44 \<and> list_all base64_char (take 43 t) \<and> drop 43 t = ''='')"

section \<open>Workers\<close>

definition held_by :: "string \<Rightarrow> Lease \<Rightarrow> bool" where
  "held_by w l \<longleftrightarrow> le_State l = LeaseAssigned \<and> le_Worker l = w"

definition requeueLeasesHeldBy :: "string \<Rightarrow> ControlPlane \<Rightarrow> ControlPlane" where
  "requeueLeasesHeldBy w c =
     c\<lparr>cp_leases := map (\<lambda>(i, l). (i, if held_by w l then l\<lparr>le_State := LeasePending, le_Worker := []\<rparr> else l))
          (cp_leases c),
       cp_pending := cp_pending c @ sort (map (\<lambda>(i, l). le_ID l) (filter (\<lambda>(i, l). held_by w l) (cp_leases c)))\<rparr>"

definition RegisterWorkerWithOptions ::
  "int \<Rightarrow> string \<Rightarrow> WorkerRegistration \<Rightarrow> ControlPlane \<Rightarrow> control_error option \<times> ControlPlane" where
  "RegisterWorkerWithOptions now i r c =
     (if \<not> workerIDPattern i then (Some (InvalidArgument ''worker id''), c)
      else if \<not> platformPattern (wr_Platform r) then (Some (InvalidArgument ''platform''), c)
      else case normalizedTokens (wr_Capabilities r) capabilityPattern 64 of
        None \<Rightarrow> (Some (InvalidArgument ''capability''), c)
      | Some capabilities \<Rightarrow>
          (case normalizedTokens (wr_CachedContent r) contentPattern 4096 of
             None \<Rightarrow> (Some (InvalidArgument ''cached content digest''), c)
           | Some cachedContent \<Rightarrow>
               if wr_MaxParallel r \<le> 0 \<or> 1024 < wr_MaxParallel r
               then (Some (InvalidArgument ''max parallel''), c)
               else if wr_PublicKey r \<noteq> [] \<and> \<not> ed25519_key_text (wr_PublicKey r)
               then (Some (InvalidArgument ''public key''), c)
               else (None,
                 case gm_get (cp_workers c) i of
                   Some w \<Rightarrow> requeueLeasesHeldBy i
                     (c\<lparr>cp_workers := gm_put i (w\<lparr>ws_Platform := wr_Platform r, ws_Capabilities := capabilities,
                          ws_CachedContent := cachedContent, ws_MaxParallel := wr_MaxParallel r,
                          ws_PublicKey := wr_PublicKey r, ws_LastHeartbeat := now\<rparr>) (cp_workers c)\<rparr>)
                 | None \<Rightarrow>
                     c\<lparr>cp_workers := gm_put i \<lparr>ws_ID = i, ws_Platform = wr_Platform r,
                          ws_Capabilities = capabilities, ws_CachedContent = cachedContent,
                          ws_MaxParallel = wr_MaxParallel r, ws_RegisteredAt = now, ws_LastHeartbeat = now,
                          ws_PublicKey = wr_PublicKey r\<rparr> (cp_workers c)\<rparr>)))"

definition RegisterWorker :: "int \<Rightarrow> string \<Rightarrow> string \<Rightarrow> ControlPlane \<Rightarrow> control_error option \<times> ControlPlane" where
  "RegisterWorker now i platform c = RegisterWorkerWithOptions now i
     \<lparr>wr_Platform = platform, wr_Capabilities = [], wr_CachedContent = [], wr_MaxParallel = 1024,
      wr_PublicKey = []\<rparr> c"

definition Heartbeat :: "int \<Rightarrow> string \<Rightarrow> ControlPlane \<Rightarrow> control_error option \<times> ControlPlane" where
  "Heartbeat now i c =
     (if \<not> workerIDPattern i then (Some (InvalidArgument ''worker id''), c)
      else case gm_get (cp_workers c) i of
        None \<Rightarrow> (Some (UnknownWorker i), c)
      | Some w \<Rightarrow> (None, c\<lparr>cp_workers := gm_put i (w\<lparr>ws_LastHeartbeat := now\<rparr>) (cp_workers c)\<rparr>))"

definition WorkerStatus_of :: "string \<Rightarrow> ControlPlane \<Rightarrow> WorkerStatus option" where
  "WorkerStatus_of i c = gm_get (cp_workers c) i"

text \<open>\<open>verify\<close> stands for \<^verbatim>\<open>provenance.Verify\<close>; a record is its worker, its build and itself.\<close>

definition VerifyCompletionProvenance ::
  "('r \<Rightarrow> string \<Rightarrow> bool) \<Rightarrow> ('r \<Rightarrow> string) \<Rightarrow> ('r \<Rightarrow> string) \<Rightarrow> string \<Rightarrow> string \<Rightarrow> 'r option \<Rightarrow> ControlPlane \<Rightarrow> bool" where
  "VerifyCompletionProvenance verify worker_of build_of w i r c =
     (case WorkerStatus_of w c of
        None \<Rightarrow> True
      | Some status \<Rightarrow>
          if ws_PublicKey status = [] then True
          else case r of
            None \<Rightarrow> False
          | Some rec \<Rightarrow> worker_of rec = w \<and> build_of rec = i \<and> verify rec (ws_PublicKey status))"

section \<open>Leases\<close>

definition lease_id :: "nat \<Rightarrow> string" where
  "lease_id n = ''lease-'' @ itoa n"

definition new_lease :: "string \<Rightarrow> string \<Rightarrow> string \<Rightarrow> string list \<Rightarrow> string \<Rightarrow> string \<Rightarrow> int \<Rightarrow> Lease" where
  "new_lease i payload platform capabilities content tenant priority =
     \<lparr>le_ID = i, le_Payload = payload, le_RequiredPlatform = platform,
      le_RequiredCapabilities = capabilities, le_PreferredContent = content, le_Tenant = tenant,
      le_Priority = priority, le_State = LeasePending, le_Worker = [], le_Attempt = 0, le_Result = [],
      le_AssignedAt = 0, le_CompletedBy = [], le_CompletedAt = 0, le_CanceledBy = [], le_CanceledAt = 0\<rparr>"

definition SubmitLeaseWithTenant ::
  "string \<Rightarrow> string \<Rightarrow> string list \<Rightarrow> string \<Rightarrow> string \<Rightarrow> int \<Rightarrow> ControlPlane \<Rightarrow> (control_error + string) \<times> ControlPlane" where
  "SubmitLeaseWithTenant payload requiredPlatform requiredCapabilities preferredContent tenant priority c =
     (if payload = [] \<or> blank payload then (Inl (InvalidArgument ''payload''), c)
      else if maxOpaqueFieldBytes < int (length payload) then (Inl (InvalidArgument ''payload size''), c)
      else if requiredPlatform \<noteq> [] \<and> \<not> platformPattern requiredPlatform
      then (Inl (InvalidArgument ''required platform''), c)
      else case normalizedTokens requiredCapabilities capabilityPattern 64 of
        None \<Rightarrow> (Inl (InvalidArgument ''capability''), c)
      | Some capabilities \<Rightarrow>
          if preferredContent \<noteq> [] \<and> \<not> contentPattern preferredContent
          then (Inl (InvalidArgument ''preferred content''), c)
          else if 256 < length tenant then (Inl (InvalidArgument ''tenant''), c)
          else (let n = cp_nextID c + 1; i = lease_id n
                in (Inr i, c\<lparr>cp_nextID := n,
                     cp_leases := gm_put i (new_lease i payload requiredPlatform capabilities preferredContent
                       tenant priority) (cp_leases c),
                     cp_pending := cp_pending c @ [i]\<rparr>)))"

definition SubmitLeaseWithRequirements ::
  "string \<Rightarrow> string \<Rightarrow> string list \<Rightarrow> string \<Rightarrow> ControlPlane \<Rightarrow> (control_error + string) \<times> ControlPlane" where
  "SubmitLeaseWithRequirements payload platform caps content c = SubmitLeaseWithTenant payload platform caps content [] 0 c"

definition SubmitLease :: "string \<Rightarrow> string \<Rightarrow> ControlPlane \<Rightarrow> (control_error + string) \<times> ControlPlane" where
  "SubmitLease payload platform c = SubmitLeaseWithRequirements payload platform [] [] c"

definition candidate_of :: "Lease \<Rightarrow> Candidate" where
  "candidate_of l = \<lparr>cd_RequiredPlatform = le_RequiredPlatform l,
     cd_RequiredCapabilities = le_RequiredCapabilities l, cd_PreferredContent = le_PreferredContent l,
     cd_Priority = le_Priority l\<rparr>"

definition placement_worker :: "WorkerStatus \<Rightarrow> Worker" where
  "placement_worker w = \<lparr>wk_Platform = ws_Platform w, wk_Capabilities = ws_Capabilities w,
     wk_CachedContent = ws_CachedContent w\<rparr>"

definition active :: "string \<Rightarrow> ControlPlane \<Rightarrow> nat" where
  "active w c = length (filter (\<lambda>(i, l). held_by w l) (cp_leases c))"

text \<open>
  A queue entry without a lease would be a nil dereference; it is the error \<open>NilLease\<close>.
\<close>

definition NextLease :: "int \<Rightarrow> string \<Rightarrow> ControlPlane \<Rightarrow> (control_error + Lease option) \<times> ControlPlane" where
  "NextLease now w c =
     (case gm_get (cp_workers c) w of
        None \<Rightarrow> (Inl (UnknownWorker w), c)
      | Some worker \<Rightarrow>
          if ws_MaxParallel worker \<le> int (active w c) then (Inr None, c)
          else if \<not> list_all (\<lambda>i. gm_get (cp_leases c) i \<noteq> None) (cp_pending c) then (Inl NilLease, c)
          else (let candidates = map (\<lambda>i. candidate_of (the (gm_get (cp_leases c) i))) (cp_pending c)
                in case Select (placement_worker worker) candidates of
                     None \<Rightarrow> (Inr None, c)
                   | Some selected \<Rightarrow>
                       (let i = cp_pending c ! selected;
                            l = (the (gm_get (cp_leases c) i));
                            l' = l\<lparr>le_State := LeaseAssigned, le_Worker := w, le_Attempt := le_Attempt l + 1,
                                   le_AssignedAt := now\<rparr>
                        in (Inr (Some l'),
                            c\<lparr>cp_pending := take selected (cp_pending c) @ drop (Suc selected) (cp_pending c),
                              cp_leases := gm_put i l' (cp_leases c)\<rparr>))))"

definition CompleteLease :: "int \<Rightarrow> string \<Rightarrow> string \<Rightarrow> string \<Rightarrow> ControlPlane \<Rightarrow> control_error option \<times> ControlPlane" where
  "CompleteLease now w i result c =
     (if \<not> workerIDPattern w then (Some (InvalidArgument ''worker id''), c)
      else if i = [] \<or> 128 < length i then (Some (InvalidArgument ''lease id''), c)
      else if maxOpaqueFieldBytes < int (length result) then (Some (InvalidArgument ''result size''), c)
      else case gm_get (cp_leases c) i of
        None \<Rightarrow> (Some (UnknownLease i), c)
      | Some l \<Rightarrow>
          if le_State l \<noteq> LeaseAssigned \<or> le_Worker l \<noteq> w then (Some (LeaseNotAssignedToWorker i), c)
          else (None, c\<lparr>cp_leases := gm_put i (l\<lparr>le_State := LeaseCompleted, le_Result := result,
                   le_CompletedBy := w, le_CompletedAt := now\<rparr>) (cp_leases c)\<rparr>))"

definition CancelLease :: "int \<Rightarrow> string \<Rightarrow> string \<Rightarrow> ControlPlane \<Rightarrow> (control_error + bool) \<times> ControlPlane" where
  "CancelLease now actor i c =
     (if \<not> workerIDPattern actor then (Inl (InvalidArgument ''actor''), c)
      else if i = [] \<or> 128 < length i then (Inl (InvalidArgument ''lease id''), c)
      else case gm_get (cp_leases c) i of
        None \<Rightarrow> (Inl (UnknownLease i), c)
      | Some l \<Rightarrow>
          if le_State l = LeaseCanceled then (Inr False, c)
          else if le_State l = LeaseCompleted then (Inl (LeaseAlreadyCompleted i), c)
          else if le_State l \<noteq> LeasePending \<and> le_State l \<noteq> LeaseAssigned then (Inl (InvalidState i), c)
          else (Inr True,
            c\<lparr>cp_pending := (if le_State l = LeasePending then remove1 i (cp_pending c) else cp_pending c),
              cp_leases := gm_put i (l\<lparr>le_State := LeaseCanceled, le_CanceledBy := actor,
                le_CanceledAt := now\<rparr>) (cp_leases c)\<rparr>))"

definition Reap :: "int \<Rightarrow> ControlPlane \<Rightarrow> string list \<times> ControlPlane" where
  "Reap now c =
     (let expired = (\<lambda>(i, w). \<not> now - ws_LastHeartbeat w \<le> cp_heartbeatTimeout c);
          lost = map fst (filter expired (cp_workers c));
          c1 = c\<lparr>cp_workers := filter (\<lambda>x. \<not> expired x) (cp_workers c)\<rparr>
      in if lost = [] then ([], c1)
         else let before = length (cp_pending c);
                  c2 = foldl (\<lambda>c i. requeueLeasesHeldBy i c) c1 (sort lost)
              in (sort (drop before (cp_pending c2)), c2))"

definition LeaseStatus :: "string \<Rightarrow> ControlPlane \<Rightarrow> Lease option" where
  "LeaseStatus i c = gm_get (cp_leases c) i"

definition Leases :: "ControlPlane \<Rightarrow> Lease list" where
  "Leases c = sort_key le_ID (map snd (cp_leases c))"

definition WorkerStatuses :: "ControlPlane \<Rightarrow> WorkerStatus list" where
  "WorkerStatuses c = sort_key ws_ID (map snd (cp_workers c))"

declare map_of_eq_Some_iff [simp del]

section \<open>The invariant\<close>

definition lease_state_ok :: "string \<Rightarrow> bool" where
  "lease_state_ok st \<longleftrightarrow> st \<in> {LeasePending, LeaseAssigned, LeaseCompleted, LeaseCanceled}"

definition lease_ok :: "nat \<Rightarrow> string \<Rightarrow> Lease \<Rightarrow> bool" where
  "lease_ok n i l \<longleftrightarrow> le_ID l = i \<and> (\<exists>k. 0 < k \<and> k \<le> n \<and> i = lease_id k) \<and> lease_state_ok (le_State l)
     \<and> (le_State l = LeasePending \<longrightarrow> le_Worker l = [])"

text \<open>The queue holds exactly the pending leases, each once.\<close>

definition queue_inv :: "ControlPlane \<Rightarrow> bool" where
  "queue_inv c \<longleftrightarrow> distinct (gm_keys (cp_leases c)) \<and> distinct (cp_pending c)
     \<and> (\<forall>i l. gm_get (cp_leases c) i = Some l \<longrightarrow> lease_ok (cp_nextID c) i l)
     \<and> (\<forall>i. i \<in> set (cp_pending c) \<longleftrightarrow> (\<exists>l. gm_get (cp_leases c) i = Some l \<and> le_State l = LeasePending))"

definition worker_ok :: "string \<Rightarrow> WorkerStatus \<Rightarrow> bool" where
  "worker_ok i w \<longleftrightarrow> ws_ID w = i \<and> sorted (ws_Capabilities w) \<and> sorted (ws_CachedContent w) \<and> 0 < ws_MaxParallel w"

text \<open>
  Assigned leases are held by registered workers within their capacity, except for the
  workers in \<open>W\<close>, whose leases are about to be requeued.
\<close>

definition worker_inv :: "string set \<Rightarrow> ControlPlane \<Rightarrow> bool" where
  "worker_inv W c \<longleftrightarrow> distinct (gm_keys (cp_workers c))
     \<and> (\<forall>i l. gm_get (cp_leases c) i = Some l \<longrightarrow> le_State l = LeaseAssigned \<longrightarrow> le_Worker l \<notin> W \<longrightarrow>
          gm_get (cp_workers c) (le_Worker l) \<noteq> None)
     \<and> (\<forall>i w. gm_get (cp_workers c) i = Some w \<longrightarrow>
          worker_ok i w \<and> (i \<notin> W \<longrightarrow> int (active i c) \<le> ws_MaxParallel w))"

definition cp_inv :: "ControlPlane \<Rightarrow> bool" where
  "cp_inv c \<longleftrightarrow> queue_inv c \<and> worker_inv {} c"

definition holders :: "string \<Rightarrow> (string, Lease) gomap \<Rightarrow> string set" where
  "holders w ls = {i. \<exists>l. gm_get ls i = Some l \<and> held_by w l}"

lemma finite_holders [simp]: "finite (holders w ls)"
  by (rule finite_subset [of _ "dom (gm_get ls)"]) (auto simp: holders_def finite_dom_map_of)

lemma active_card: "distinct (gm_keys (cp_leases c)) \<Longrightarrow> active w c = card (holders w (cp_leases c))"
proof -
  assume d: "distinct (gm_keys (cp_leases c))"
  let ?f = "filter (\<lambda>(i, l). held_by w l) (cp_leases c)"
  have "distinct (map fst ?f)" using d by (rule distinct_map_filter)
  then have "length ?f = card (set (map fst ?f))" by (metis distinct_card length_map)
  also have "set (map fst ?f) = holders w (cp_leases c)"
    using d by (force simp: holders_def map_of_eq_Some_iff)
  finally show ?thesis by (simp add: active_def)
qed

lemma queue_inv_distinct: "queue_inv c \<Longrightarrow> distinct (gm_keys (cp_leases c))"
  by (simp add: queue_inv_def)

lemma inv_lease: "queue_inv c \<Longrightarrow> gm_get (cp_leases c) i = Some l \<Longrightarrow> lease_ok (cp_nextID c) i l"
  by (simp add: queue_inv_def)

lemma inv_pending:
  "queue_inv c \<Longrightarrow> i \<in> set (cp_pending c) \<longleftrightarrow> (\<exists>l. gm_get (cp_leases c) i = Some l \<and> le_State l = LeasePending)"
  by (simp add: queue_inv_def)

lemma inv_registered:
  "worker_inv W c \<Longrightarrow> gm_get (cp_leases c) i = Some l \<Longrightarrow> le_State l = LeaseAssigned \<Longrightarrow> le_Worker l \<notin> W \<Longrightarrow>
     gm_get (cp_workers c) (le_Worker l) \<noteq> None"
  by (simp add: worker_inv_def)

lemma inv_worker:
  "worker_inv W c \<Longrightarrow> gm_get (cp_workers c) i = Some w \<Longrightarrow>
     worker_ok i w \<and> (i \<notin> W \<longrightarrow> int (active i c) \<le> ws_MaxParallel w)"
  by (simp add: worker_inv_def)

subsection \<open>Requeueing\<close>

definition unassign :: "string \<Rightarrow> Lease \<Rightarrow> Lease" where
  "unassign w l = (if held_by w l then l\<lparr>le_State := LeasePending, le_Worker := []\<rparr> else l)"

lemma requeue_leases: "cp_leases (requeueLeasesHeldBy w c) = map (\<lambda>(i, l). (i, unassign w l)) (cp_leases c)"
  by (simp add: requeueLeasesHeldBy_def unassign_def)

lemma requeue_get: "gm_get (cp_leases (requeueLeasesHeldBy w c)) i = map_option (unassign w) (gm_get (cp_leases c) i)"
  unfolding requeue_leases by (simp add: map_of_map)

lemma requeue_keep [simp]:
  "cp_workers (requeueLeasesHeldBy w c) = cp_workers c" "cp_nextID (requeueLeasesHeldBy w c) = cp_nextID c"
  "gm_keys (cp_leases (requeueLeasesHeldBy w c)) = gm_keys (cp_leases c)"
  by (simp_all add: requeueLeasesHeldBy_def comp_def case_prod_beta)

lemma requeued_ids:
  assumes "queue_inv c"
  shows "map (\<lambda>(i, l). le_ID l) (filter (\<lambda>(i, l). held_by w l) (cp_leases c))
           = map fst (filter (\<lambda>(i, l). held_by w l) (cp_leases c))"
proof (rule map_cong [OF refl])
  fix x assume x: "x \<in> set (filter (\<lambda>(i, l). held_by w l) (cp_leases c))"
  obtain i l where il: "x = (i, l)" by force
  with x have "gm_get (cp_leases c) i = Some l"
    using assms by (simp add: queue_inv_def map_of_eq_Some_iff)
  then show "(case x of (i, l) \<Rightarrow> le_ID l) = fst x" using assms il by (auto simp: queue_inv_def lease_ok_def)
qed

lemma requeue_pending:
  assumes "queue_inv c"
  shows "cp_pending (requeueLeasesHeldBy w c) =
     cp_pending c @ sort (map fst (filter (\<lambda>(i, l). held_by w l) (cp_leases c)))"
    and "set (map fst (filter (\<lambda>(i, l). held_by w l) (cp_leases c))) = holders w (cp_leases c)"
proof -
  show "cp_pending (requeueLeasesHeldBy w c) =
     cp_pending c @ sort (map fst (filter (\<lambda>(i, l). held_by w l) (cp_leases c)))"
    unfolding requeueLeasesHeldBy_def requeued_ids [OF assms] by simp
  show "set (map fst (filter (\<lambda>(i, l). held_by w l) (cp_leases c))) = holders w (cp_leases c)"
    using queue_inv_distinct [OF assms] by (force simp: holders_def map_of_eq_Some_iff)
qed

lemma lease_ok_unassign: "lease_ok n i l \<Longrightarrow> lease_ok n i (unassign w l)"
  by (simp add: lease_ok_def unassign_def lease_state_ok_def)

lemma unassign_State:
  "le_State (unassign w l) = LeasePending \<longleftrightarrow> le_State l = LeasePending \<or> held_by w l"
  by (simp add: unassign_def)

lemma requeue_queue_inv:
  assumes q: "queue_inv c" shows "queue_inv (requeueLeasesHeldBy w c)"
proof -
  let ?c = "requeueLeasesHeldBy w c"
  have d: "distinct (map fst (filter (\<lambda>(i, l). held_by w l) (cp_leases c)))"
    using q by (intro distinct_map_filter) (simp add: queue_inv_def)
  have disj: "set (cp_pending c) \<inter> holders w (cp_leases c) = {}"
    using q by (auto simp: queue_inv_def holders_def held_by_def)
  have p: "set (cp_pending ?c) = set (cp_pending c) \<union> holders w (cp_leases c)"
    using requeue_pending [OF q, of w] by simp
  have dp: "distinct (cp_pending ?c)"
    using requeue_pending [OF q, of w] q d disj by (simp add: queue_inv_def)
  have ok: "lease_ok (cp_nextID ?c) i l" if "gm_get (cp_leases ?c) i = Some l" for i l
    using that q by (auto simp: requeue_get queue_inv_def intro: lease_ok_unassign)
  have "i \<in> set (cp_pending ?c) \<longleftrightarrow> (\<exists>l. gm_get (cp_leases ?c) i = Some l \<and> le_State l = LeasePending)" for i
  proof -
    have "(\<exists>l. gm_get (cp_leases ?c) i = Some l \<and> le_State l = LeasePending) \<longleftrightarrow>
        (\<exists>z. gm_get (cp_leases c) i = Some z \<and> (le_State z = LeasePending \<or> held_by w z))"
      by (auto simp: requeue_get unassign_State)
    then show ?thesis using q unfolding p by (auto simp: queue_inv_def holders_def)
  qed
  with dp ok q show ?thesis by (simp add: queue_inv_def)
qed

lemma requeue_holders:
  "holders v (cp_leases (requeueLeasesHeldBy w c)) = (if v = w then {} else holders v (cp_leases c))"
  by (auto simp: holders_def requeue_get unassign_def held_by_def split: if_splits)

lemma requeue_active:
  "queue_inv c \<Longrightarrow> active v (requeueLeasesHeldBy w c) = (if v = w then 0 else active v c)"
  using active_card [of c v] active_card [of "requeueLeasesHeldBy w c" v]
  by (simp add: requeue_holders queue_inv_def)

lemma requeue_worker_inv:
  assumes "queue_inv c" "worker_inv W c" shows "worker_inv (W - {w}) (requeueLeasesHeldBy w c)"
proof -
  have reg: "gm_get (cp_workers c) (le_Worker l) \<noteq> None"
    if "gm_get (cp_leases (requeueLeasesHeldBy w c)) i = Some l" "le_State l = LeaseAssigned"
      "le_Worker l \<notin> W - {w}" for i l
  proof -
    from that(1) obtain z where z: "gm_get (cp_leases c) i = Some z" "l = unassign w z"
      by (auto simp: requeue_get)
    with that(2) have "\<not> held_by w z" "l = z" by (auto simp: unassign_def split: if_splits)
    with that z assms(2) show ?thesis by (auto simp: worker_inv_def held_by_def)
  qed
  have cap: "worker_ok i x \<and> (i \<notin> W - {w} \<longrightarrow> int (active i (requeueLeasesHeldBy w c)) \<le> ws_MaxParallel x)"
    if "gm_get (cp_workers c) i = Some x" for i x
  proof -
    have "worker_ok i x" "i \<notin> W \<longrightarrow> int (active i c) \<le> ws_MaxParallel x"
      using assms(2) that by (auto simp: worker_inv_def)
    then show ?thesis using requeue_active [OF assms(1), of i w] by (auto simp: worker_ok_def)
  qed
  have "distinct (gm_keys (cp_workers c))" using assms(2) by (simp add: worker_inv_def)
  with reg cap show ?thesis unfolding worker_inv_def requeue_keep by blast
qed

lemma foldl_requeue:
  "queue_inv c \<Longrightarrow> worker_inv W c \<Longrightarrow>
     queue_inv (foldl (\<lambda>c i. requeueLeasesHeldBy i c) c is)
     \<and> worker_inv (W - set is) (foldl (\<lambda>c i. requeueLeasesHeldBy i c) c is)"
proof (induction "is" arbitrary: c W)
  case (Cons i "is")
  from Cons.IH [OF requeue_queue_inv [OF Cons.prems(1)] requeue_worker_inv [OF Cons.prems, of i]]
  show ?case by (simp add: Diff_insert2 [symmetric] insert_commute)
qed simp

subsection \<open>Changing one lease\<close>

lemma put_holders:
  "holders w (gm_put i l ls) = (if held_by w l then insert i (holders w ls) else holders w ls - {i})"
  by (auto simp: holders_def)

lemma put_lease_inv:
  assumes inv: "cp_inv c" and l: "gm_get (cp_leases c) i = Some l"
    and ok: "lease_ok (cp_nextID c) i l'" and np: "le_State l' \<noteq> LeasePending"
    and q: "distinct q" "set q = set (cp_pending c) - {i}"
    and asg: "le_State l' = LeaseAssigned \<Longrightarrow> (\<exists>w. gm_get (cp_workers c) (le_Worker l') = Some w
       \<and> int (active (le_Worker l') c) < ws_MaxParallel w)"
  shows "cp_inv (c\<lparr>cp_pending := q, cp_leases := gm_put i l' (cp_leases c)\<rparr>)" (is "cp_inv ?c")
proof -
  have qi: "queue_inv c" and wi: "worker_inv {} c" using inv by (simp_all add: cp_inv_def)
  have "queue_inv ?c"
    using qi ok np q l unfolding queue_inv_def by (auto split: if_splits)
  moreover have "worker_inv {} ?c"
  proof -
    have reg: "gm_get (cp_workers c) (le_Worker x) \<noteq> None"
      if "gm_get (gm_put i l' (cp_leases c)) j = Some x" "le_State x = LeaseAssigned" for j x
      using that asg wi by (auto simp: worker_inv_def split: if_splits)
    have act: "active v ?c = card (holders v (gm_put i l' (cp_leases c)))" for v
      using qi active_card [of ?c v] by (simp add: queue_inv_def)
    have old: "active v c = card (holders v (cp_leases c))" for v
      using qi active_card [of c v] by (simp add: queue_inv_def)
    have "int (active v ?c) \<le> ws_MaxParallel w" if w: "gm_get (cp_workers c) v = Some w" for v w
    proof (cases "held_by v l'")
      case True
      then have "int (active v c) < ws_MaxParallel w" using asg w by (auto simp: held_by_def)
      moreover have "active v ?c \<le> active v c + 1"
        unfolding act old put_holders using True by (simp add: card_insert_if)
      ultimately show ?thesis by simp
    next
      case False
      then have "active v ?c \<le> active v c"
        unfolding act old put_holders by (simp add: card_Diff1_le)
      then show ?thesis using wi w by (fastforce simp: worker_inv_def)
    qed
    then show ?thesis using wi reg unfolding worker_inv_def by auto
  qed
  ultimately show ?thesis by (simp add: cp_inv_def)
qed

subsection \<open>Operations\<close>

datatype cp_op =
    OpRegister int string WorkerRegistration
  | OpHeartbeat int string
  | OpSubmit string string "string list" string string int
  | OpNext int string
  | OpComplete int string string string
  | OpCancel int string string
  | OpReap int

fun cp_exec :: "cp_op \<Rightarrow> ControlPlane \<Rightarrow> ControlPlane" where
  "cp_exec (OpRegister now i r) c = snd (RegisterWorkerWithOptions now i r c)"
| "cp_exec (OpHeartbeat now i) c = snd (Heartbeat now i c)"
| "cp_exec (OpSubmit payload platform caps content tenant priority) c =
     snd (SubmitLeaseWithTenant payload platform caps content tenant priority c)"
| "cp_exec (OpNext now w) c = snd (NextLease now w c)"
| "cp_exec (OpComplete now w i result) c = snd (CompleteLease now w i result c)"
| "cp_exec (OpCancel now actor i) c = snd (CancelLease now actor i c)"
| "cp_exec (OpReap now) c = snd (Reap now c)"

lemma lease_id_inject [simp]: "lease_id m = lease_id n \<longleftrightarrow> m = n"
  by (simp add: lease_id_def)

lemma fresh_lease: "queue_inv c \<Longrightarrow> gm_get (cp_leases c) (lease_id (Suc (cp_nextID c))) = None"
  using inv_lease [of c "lease_id (Suc (cp_nextID c))"]
  by (cases "gm_get (cp_leases c) (lease_id (Suc (cp_nextID c)))") (auto simp: lease_ok_def)

lemma normalizedTokens_sorted: "normalizedTokens vs p n = Some ts \<Longrightarrow> sorted ts"
  by (auto simp: normalizedTokens_def split: if_splits)

lemma put_worker_inv:
  assumes "worker_inv W c" "worker_ok i w" "gm_get (cp_workers c) i = None \<Longrightarrow> active i c = 0"
    and "\<And>old. gm_get (cp_workers c) i = Some old \<Longrightarrow> i \<in> W' \<or> ws_MaxParallel w = ws_MaxParallel old"
    and "W \<subseteq> W'"
  shows "worker_inv W' (c\<lparr>cp_workers := gm_put i w (cp_workers c)\<rparr>)"
proof -
  let ?c = "c\<lparr>cp_workers := gm_put i w (cp_workers c)\<rparr>"
  have act: "active v ?c = active v c" for v by (simp add: active_def)
  have "int (active i c) \<le> ws_MaxParallel w" if "i \<notin> W'"
  proof (cases "gm_get (cp_workers c) i")
    case None
    with assms(2,3) show ?thesis by (simp add: worker_ok_def)
  next
    case (Some old)
    with assms(4) [OF Some] that inv_worker [OF assms(1) Some] assms(5) show ?thesis by auto
  qed
  moreover have "int (active j c) \<le> ws_MaxParallel x" if "gm_get (cp_workers c) j = Some x" "j \<notin> W'" for j x
    using inv_worker [OF assms(1) that(1)] that(2) assms(5) by blast
  moreover have "gm_get (cp_workers c) (le_Worker l) \<noteq> None"
    if "gm_get (cp_leases c) j = Some l" "le_State l = LeaseAssigned" "le_Worker l \<notin> W'" for j l
    using inv_registered [OF assms(1) that(1,2)] that(3) assms(5) by blast
  moreover have "distinct (gm_keys (cp_workers c))" "\<And>j x. gm_get (cp_workers c) j = Some x \<Longrightarrow> worker_ok j x"
    using assms(1) by (auto simp: worker_inv_def)
  ultimately show ?thesis using assms(2) unfolding worker_inv_def act by (auto split: if_splits)
qed

lemma unregistered_inactive:
  "cp_inv c \<Longrightarrow> gm_get (cp_workers c) i = None \<Longrightarrow> active i c = 0"
proof -
  assume inv: "cp_inv c" and none: "gm_get (cp_workers c) i = None"
  have "holders i (cp_leases c) = {}"
    using inv_registered [of "{}" c] inv none by (fastforce simp: cp_inv_def holders_def held_by_def)
  then show ?thesis using active_card [of c i] inv by (simp add: cp_inv_def queue_inv_def)
qed

lemma queue_inv_workers [simp]: "queue_inv (c\<lparr>cp_workers := ws\<rparr>) = queue_inv c"
  by (simp add: queue_inv_def)

lemma Register_inv:
  assumes inv: "cp_inv c" shows "cp_inv (snd (RegisterWorkerWithOptions now i r c))"
proof (cases "fst (RegisterWorkerWithOptions now i r c)")
  case (Some e)
  then have "snd (RegisterWorkerWithOptions now i r c) = c"
    by (auto simp: RegisterWorkerWithOptions_def split: if_splits option.splits)
  with inv show ?thesis by simp
next
  case None
  then obtain caps content where caps: "normalizedTokens (wr_Capabilities r) capabilityPattern 64 = Some caps"
    "normalizedTokens (wr_CachedContent r) contentPattern 4096 = Some content" "0 < wr_MaxParallel r"
    and c': "snd (RegisterWorkerWithOptions now i r c) = (case gm_get (cp_workers c) i of
        Some w \<Rightarrow> requeueLeasesHeldBy i
          (c\<lparr>cp_workers := gm_put i (w\<lparr>ws_Platform := wr_Platform r, ws_Capabilities := caps,
               ws_CachedContent := content, ws_MaxParallel := wr_MaxParallel r,
               ws_PublicKey := wr_PublicKey r, ws_LastHeartbeat := now\<rparr>) (cp_workers c)\<rparr>)
      | None \<Rightarrow> c\<lparr>cp_workers := gm_put i \<lparr>ws_ID = i, ws_Platform = wr_Platform r,
               ws_Capabilities = caps, ws_CachedContent = content,
               ws_MaxParallel = wr_MaxParallel r, ws_RegisteredAt = now, ws_LastHeartbeat = now,
               ws_PublicKey = wr_PublicKey r\<rparr> (cp_workers c)\<rparr>)"
    by (auto simp: RegisterWorkerWithOptions_def split: if_splits option.splits)
  note srt = normalizedTokens_sorted [OF caps(1)] normalizedTokens_sorted [OF caps(2)]
  have q: "queue_inv c" and w: "worker_inv {} c" using inv by (simp_all add: cp_inv_def)
  show ?thesis
  proof (cases "gm_get (cp_workers c) i")
    case None
    then show ?thesis unfolding c'
      using q caps(3) srt put_worker_inv [OF w, of i _ "{}"] unregistered_inactive [OF inv None]
      by (simp add: cp_inv_def worker_ok_def)
  next
    case (Some x)
    then have "ws_ID x = i" using w by (auto simp: worker_inv_def worker_ok_def)
    with Some srt caps(3) put_worker_inv [OF w, of i "x\<lparr>ws_Platform := wr_Platform r, ws_Capabilities := caps,
               ws_CachedContent := content, ws_MaxParallel := wr_MaxParallel r,
               ws_PublicKey := wr_PublicKey r, ws_LastHeartbeat := now\<rparr>" "{i}"]
    have "worker_inv {i} (c\<lparr>cp_workers := gm_put i (x\<lparr>ws_Platform := wr_Platform r, ws_Capabilities := caps,
               ws_CachedContent := content, ws_MaxParallel := wr_MaxParallel r,
               ws_PublicKey := wr_PublicKey r, ws_LastHeartbeat := now\<rparr>) (cp_workers c)\<rparr>)"
      by (simp add: worker_ok_def)
    from requeue_worker_inv [OF _ this, of i] requeue_queue_inv Some q
    show ?thesis unfolding c' by (simp add: cp_inv_def)
  qed
qed

lemma Heartbeat_inv:
  assumes inv: "cp_inv c" shows "cp_inv (snd (Heartbeat now i c))"
proof (cases "gm_get (cp_workers c) i")
  case None
  with inv show ?thesis by (simp add: Heartbeat_def)
next
  case (Some w)
  then have "worker_ok i (w\<lparr>ws_LastHeartbeat := now\<rparr>)"
    using inv by (auto simp: cp_inv_def worker_inv_def worker_ok_def)
  then have "cp_inv (c\<lparr>cp_workers := gm_put i (w\<lparr>ws_LastHeartbeat := now\<rparr>) (cp_workers c)\<rparr>)"
    using inv Some put_worker_inv [of "{}" c i "w\<lparr>ws_LastHeartbeat := now\<rparr>" "{}"] by (simp add: cp_inv_def)
  with inv Some show ?thesis by (simp add: Heartbeat_def)
qed

lemma Submit_state:
  "snd (SubmitLeaseWithTenant payload platform caps content tenant priority c) = c
   \<or> (\<exists>caps'. snd (SubmitLeaseWithTenant payload platform caps content tenant priority c) =
        c\<lparr>cp_nextID := Suc (cp_nextID c),
          cp_leases := gm_put (lease_id (Suc (cp_nextID c)))
            (new_lease (lease_id (Suc (cp_nextID c))) payload platform caps' content tenant priority) (cp_leases c),
          cp_pending := cp_pending c @ [lease_id (Suc (cp_nextID c))]\<rparr>)"
  by (auto simp: SubmitLeaseWithTenant_def Let_def split: option.split)

lemma Submit_inv:
  assumes inv: "cp_inv c" shows "cp_inv (snd (SubmitLeaseWithTenant payload platform caps content tenant priority c))"
proof -
  let ?i = "lease_id (Suc (cp_nextID c))"
  have q: "queue_inv c" and w: "worker_inv {} c" using inv by (simp_all add: cp_inv_def)
  have fresh: "gm_get (cp_leases c) ?i = None" by (rule fresh_lease [OF q])
  then have nq: "?i \<notin> set (cp_pending c)" using q by (simp add: queue_inv_def)
  have "cp_inv (c\<lparr>cp_nextID := Suc (cp_nextID c), cp_leases := gm_put ?i l (cp_leases c),
      cp_pending := cp_pending c @ [?i]\<rparr>)"
    if l: "l = new_lease ?i payload platform caps' content tenant priority" for l caps'
  proof -
    let ?c = "c\<lparr>cp_nextID := Suc (cp_nextID c), cp_leases := gm_put ?i l (cp_leases c), cp_pending := cp_pending c @ [?i]\<rparr>"
    have ok: "lease_ok (Suc n) j x" if "lease_ok n j x" for n j x
      using that by (auto simp: lease_ok_def intro: le_SucI)
    have "lease_ok (Suc (cp_nextID c)) ?i l"
      using l by (auto simp: lease_ok_def new_lease_def lease_state_ok_def intro: exI [of _ "Suc (cp_nextID c)"])
    then have "queue_inv ?c"
      using q nq l fresh ok unfolding queue_inv_def by (auto simp: new_lease_def split: if_splits)
    moreover have act: "active v ?c = active v c" for v
    proof -
      have "\<not> held_by v l" by (simp add: l held_by_def new_lease_def)
      moreover have "?i \<notin> holders v (cp_leases c)" using fresh by (simp add: holders_def)
      ultimately have "holders v (gm_put ?i l (cp_leases c)) = holders v (cp_leases c)"
        by (simp add: put_holders)
      then show ?thesis using active_card [of ?c v] active_card [of c v] q by (simp add: queue_inv_def)
    qed
    have "worker_inv {} ?c"
      using w l unfolding worker_inv_def act by (auto simp: new_lease_def split: if_splits)
    ultimately show ?thesis by (simp add: cp_inv_def)
  qed
  with inv Submit_state [of payload platform caps content tenant priority c] show ?thesis by auto
qed

lemma lease_ok_state:
  "lease_ok n i l \<Longrightarrow> lease_state_ok (le_State l') \<Longrightarrow> le_State l' \<noteq> LeasePending \<Longrightarrow> le_ID l' = le_ID l \<Longrightarrow>
     lease_ok n i l'"
  by (simp add: lease_ok_def)

lemma NextLease_cases:
  assumes inv: "cp_inv c"
  obtains (same) "snd (NextLease now w c) = c" "fst (NextLease now w c) \<noteq> Inl NilLease"
      "\<And>l. fst (NextLease now w c) \<noteq> Inr (Some l)"
    | (assigned) worker k l where "gm_get (cp_workers c) w = Some worker"
      "int (active w c) < ws_MaxParallel worker" "k < length (cp_pending c)"
      "gm_get (cp_leases c) (cp_pending c ! k) = Some l" "le_State l = LeasePending"
      "Select (placement_worker worker)
         (map (\<lambda>i. candidate_of (the (gm_get (cp_leases c) i))) (cp_pending c)) = Some k"
      "NextLease now w c =
         (Inr (Some (l\<lparr>le_State := LeaseAssigned, le_Worker := w, le_Attempt := le_Attempt l + 1, le_AssignedAt := now\<rparr>)),
          c\<lparr>cp_pending := take k (cp_pending c) @ drop (Suc k) (cp_pending c),
            cp_leases := gm_put (cp_pending c ! k)
              (l\<lparr>le_State := LeaseAssigned, le_Worker := w, le_Attempt := le_Attempt l + 1, le_AssignedAt := now\<rparr>)
              (cp_leases c)\<rparr>)"
proof (cases "gm_get (cp_workers c) w")
  case None
  then show ?thesis by (intro same) (simp_all add: NextLease_def)
next
  case (Some worker)
  have q: "queue_inv c" and wi: "worker_inv {} c" using inv by (simp_all add: cp_inv_def)
  have all: "list_all (\<lambda>i. gm_get (cp_leases c) i \<noteq> None) (cp_pending c)"
    using inv_pending [OF q] by (auto simp: list_all_iff)
  let ?cs = "map (\<lambda>i. candidate_of (the (gm_get (cp_leases c) i))) (cp_pending c)"
  show ?thesis
  proof (cases "int (active w c) < ws_MaxParallel worker \<and> Select (placement_worker worker) ?cs \<noteq> None")
    case False
    then show ?thesis using Some all
      by (intro same) (auto simp: NextLease_def Let_def not_less split: option.split)
  next
    case True
    then obtain k where k: "Select (placement_worker worker) ?cs = Some k" by blast
    have "worker_sorted (placement_worker worker)"
      using inv_worker [OF wi Some] by (simp add: worker_ok_def worker_sorted_def placement_worker_def)
    from Select_best [OF this, of ?cs] k have len: "k < length (cp_pending c)" by (simp add: best_of_def)
    then obtain l where l: "gm_get (cp_leases c) (cp_pending c ! k) = Some l" "le_State l = LeasePending"
      using inv_pending [OF q] nth_mem by blast
    show ?thesis
      by (rule assigned [OF Some _ len l k])
         (use True Some all k l in \<open>simp_all add: NextLease_def Let_def\<close>)
  qed
qed

lemma take_drop_remove:
  "distinct xs \<Longrightarrow> k < length xs \<Longrightarrow>
     distinct (take k xs @ drop (Suc k) xs) \<and> set (take k xs @ drop (Suc k) xs) = set xs - {xs ! k}"
proof -
  assume d: "distinct xs" and k: "k < length xs"
  have "xs = take k xs @ xs ! k # drop (Suc k) xs" by (rule id_take_nth_drop [OF k])
  with d have "distinct (take k xs @ xs ! k # drop (Suc k) xs)" by simp
  moreover have "set xs = set (take k xs @ xs ! k # drop (Suc k) xs)"
    using id_take_nth_drop [OF k] by metis
  ultimately show ?thesis by auto
qed

lemma NextLease_inv:
  assumes inv: "cp_inv c" shows "cp_inv (snd (NextLease now w c))"
  using inv
proof (cases rule: NextLease_cases [of c now w])
  case same
  with inv show ?thesis by simp
next
  case (assigned worker k l)
  have q: "queue_inv c" using inv by (simp add: cp_inv_def)
  have ok: "lease_ok (cp_nextID c) (cp_pending c ! k)
      (l\<lparr>le_State := LeaseAssigned, le_Worker := w, le_Attempt := le_Attempt l + 1, le_AssignedAt := now\<rparr>)"
    by (rule lease_ok_state [OF inv_lease [OF q assigned(4)]]) (simp_all add: lease_state_ok_def)
  have p: "distinct (cp_pending c)" using q by (simp add: queue_inv_def)
  note td = take_drop_remove [OF p assigned(3)]
  have "cp_inv (c\<lparr>cp_pending := take k (cp_pending c) @ drop (Suc k) (cp_pending c),
            cp_leases := gm_put (cp_pending c ! k)
              (l\<lparr>le_State := LeaseAssigned, le_Worker := w, le_Attempt := le_Attempt l + 1, le_AssignedAt := now\<rparr>)
              (cp_leases c)\<rparr>)"
    by (rule put_lease_inv [OF inv assigned(4) ok]) (use td assigned(1,2) in simp_all)
  with assigned(7) show ?thesis by simp
qed

lemma Complete_cases:
  obtains (same) e where "CompleteLease now w i result c = (Some e, c)"
    | (fin) l where "gm_get (cp_leases c) i = Some l" "held_by w l"
      "CompleteLease now w i result c =
         (None, c\<lparr>cp_leases := gm_put i (l\<lparr>le_State := LeaseCompleted, le_Result := result,
            le_CompletedBy := w, le_CompletedAt := now\<rparr>) (cp_leases c)\<rparr>)"
proof (cases "\<exists>e. CompleteLease now w i result c = (Some e, c)")
  case True
  then show ?thesis using same by blast
next
  case False
  then show ?thesis
    by (intro fin [of "the (gm_get (cp_leases c) i)"])
       (auto simp: CompleteLease_def held_by_def split: if_splits option.splits)
qed

lemma Cancel_cases:
  obtains (same) e where "CancelLease now actor i c = (e, c)"
    | (fin) l where "gm_get (cp_leases c) i = Some l" "le_State l = LeasePending \<or> le_State l = LeaseAssigned"
      "CancelLease now actor i c =
         (Inr True, c\<lparr>cp_pending := (if le_State l = LeasePending then remove1 i (cp_pending c) else cp_pending c),
            cp_leases := gm_put i (l\<lparr>le_State := LeaseCanceled, le_CanceledBy := actor,
              le_CanceledAt := now\<rparr>) (cp_leases c)\<rparr>)"
proof (cases "\<exists>e. CancelLease now actor i c = (e, c)")
  case True
  then show ?thesis using same by blast
next
  case False
  then show ?thesis
    by (intro fin [of "the (gm_get (cp_leases c) i)"])
       (auto simp: CancelLease_def split: if_splits option.splits)
qed

lemma not_pending:
  "queue_inv c \<Longrightarrow> gm_get (cp_leases c) i = Some l \<Longrightarrow> le_State l \<noteq> LeasePending \<Longrightarrow> i \<notin> set (cp_pending c)"
  by (simp add: inv_pending)

lemma Complete_inv:
  assumes inv: "cp_inv c" shows "cp_inv (snd (CompleteLease now w i result c))"
proof (cases rule: Complete_cases [of now w i result c])
  case (same e)
  with inv show ?thesis by simp
next
  case (fin l)
  have q: "queue_inv c" using inv by (simp add: cp_inv_def)
  have st: "le_State l = LeaseAssigned" using fin(2) by (simp add: held_by_def)
  have "cp_inv (c\<lparr>cp_pending := cp_pending c, cp_leases := gm_put i (l\<lparr>le_State := LeaseCompleted,
      le_Result := result, le_CompletedBy := w, le_CompletedAt := now\<rparr>) (cp_leases c)\<rparr>)"
    by (rule put_lease_inv [OF inv fin(1) lease_ok_state [OF inv_lease [OF q fin(1)]]])
       (use q not_pending [OF q fin(1)] st in \<open>simp_all add: lease_state_ok_def queue_inv_def\<close>)
  with fin(3) show ?thesis by simp
qed

lemma Cancel_inv:
  assumes inv: "cp_inv c" shows "cp_inv (snd (CancelLease now actor i c))"
proof (cases rule: Cancel_cases [of now actor i c])
  case (same e)
  with inv show ?thesis by simp
next
  case (fin l)
  have q: "queue_inv c" and p: "distinct (cp_pending c)" using inv by (simp_all add: cp_inv_def queue_inv_def)
  let ?q = "if le_State l = LeasePending then remove1 i (cp_pending c) else cp_pending c"
  have "distinct ?q \<and> set ?q = set (cp_pending c) - {i}"
    using p not_pending [OF q fin(1)] by auto
  then have "cp_inv (c\<lparr>cp_pending := ?q, cp_leases := gm_put i (l\<lparr>le_State := LeaseCanceled,
      le_CanceledBy := actor, le_CanceledAt := now\<rparr>) (cp_leases c)\<rparr>)"
    by (intro put_lease_inv [OF inv fin(1) lease_ok_state [OF inv_lease [OF q fin(1)]]])
       (simp_all add: lease_state_ok_def)
  with fin(3) show ?thesis by simp
qed

lemma Reap_inv:
  assumes inv: "cp_inv c" shows "cp_inv (snd (Reap now c))"
proof -
  let ?expired = "\<lambda>(i, w). \<not> now - ws_LastHeartbeat w \<le> cp_heartbeatTimeout c"
  let ?lost = "map fst (filter ?expired (cp_workers c))"
  let ?c = "c\<lparr>cp_workers := filter (\<lambda>x. \<not> ?expired x) (cp_workers c)\<rparr>"
  have q: "queue_inv ?c" and w: "worker_inv {} c" using inv by (simp_all add: cp_inv_def)
  have d: "distinct (gm_keys (cp_workers c))" using w by (simp add: worker_inv_def)
  have kept: "gm_get (cp_workers ?c) j = Some x \<longleftrightarrow> gm_get (cp_workers c) j = Some x \<and> \<not> ?expired (j, x)" for j x
    using d distinct_map_filter [OF d, of "\<lambda>x. \<not> ?expired x"] by (auto simp: map_of_eq_Some_iff)
  have gone: "j \<in> set ?lost \<longleftrightarrow> (\<exists>x. gm_get (cp_workers c) j = Some x \<and> ?expired (j, x))" for j
    using d by (force simp: map_of_eq_Some_iff)
  have act: "active v ?c = active v c" for v by (simp add: active_def)
  have "worker_inv (set ?lost) ?c"
    unfolding worker_inv_def
  proof (intro conjI allI impI)
    show "distinct (gm_keys (cp_workers ?c))" using d by (simp add: distinct_map_filter)
  next
    fix i l assume l: "gm_get (cp_leases ?c) i = Some l" "le_State l = LeaseAssigned" "le_Worker l \<notin> set ?lost"
    then obtain x where "gm_get (cp_workers c) (le_Worker l) = Some x" using inv_registered [OF w] by fastforce
    with l(3) gone [of "le_Worker l"] kept [of "le_Worker l" x]
    show "gm_get (cp_workers ?c) (le_Worker l) \<noteq> None" by blast
  next
    fix i x assume "gm_get (cp_workers ?c) i = Some x"
    then show "worker_ok i x" "int (active i ?c) \<le> ws_MaxParallel x"
      using inv_worker [OF w, of i x] kept [of i x] act by simp_all
  qed
  from foldl_requeue [OF q this, of "sort ?lost"]
  have "cp_inv (foldl (\<lambda>c i. requeueLeasesHeldBy i c) ?c (sort ?lost))" by (simp add: cp_inv_def)
  moreover have "snd (Reap now c) = foldl (\<lambda>c i. requeueLeasesHeldBy i c) ?c (sort ?lost)"
    by (simp add: Reap_def Let_def)
  ultimately show ?thesis by simp
qed

lemma cp_exec_inv: "cp_inv c \<Longrightarrow> cp_inv (cp_exec op c)"
  by (cases op) (auto intro: Register_inv Heartbeat_inv Submit_inv NextLease_inv Complete_inv Cancel_inv Reap_inv)

subsection \<open>Terminal leases\<close>

definition terminal_lease :: "ControlPlane \<Rightarrow> string \<Rightarrow> Lease option" where
  "terminal_lease c i = (case gm_get (cp_leases c) i of
     Some l \<Rightarrow> (if le_State l = LeaseCompleted \<or> le_State l = LeaseCanceled then Some l else None)
   | None \<Rightarrow> None)"

lemma terminal_lease_Some:
  "terminal_lease c i = Some l \<longleftrightarrow>
     gm_get (cp_leases c) i = Some l \<and> (le_State l = LeaseCompleted \<or> le_State l = LeaseCanceled)"
  by (auto simp: terminal_lease_def split: option.splits if_splits)

lemma foldl_requeue_get:
  "gm_get (cp_leases (foldl (\<lambda>c i. requeueLeasesHeldBy i c) c is)) i =
     map_option (\<lambda>l. if le_State l = LeaseAssigned \<and> le_Worker l \<in> set is
       then l\<lparr>le_State := LeasePending, le_Worker := []\<rparr> else l) (gm_get (cp_leases c) i)"
proof (induction "is" arbitrary: c)
  case Nil
  then show ?case by (cases "gm_get (cp_leases c) i") simp_all
next
  case (Cons j "is")
  then show ?case
    by (cases "gm_get (cp_leases c) i") (auto simp: requeue_get unassign_def held_by_def)
qed

lemma Register_leases:
  "cp_leases (snd (RegisterWorkerWithOptions now w r c)) \<in> {cp_leases c, cp_leases (requeueLeasesHeldBy w c)}"
  by (auto simp: RegisterWorkerWithOptions_def requeue_leases split: option.split)

lemma Reap_leases:
  "\<exists>is. gm_get (cp_leases (snd (Reap now c))) =
     gm_get (cp_leases (foldl (\<lambda>c i. requeueLeasesHeldBy i c) c is))"
proof -
  let ?expired = "\<lambda>(i, w). \<not> now - ws_LastHeartbeat w \<le> cp_heartbeatTimeout c"
  let ?c = "c\<lparr>cp_workers := filter (\<lambda>x. \<not> ?expired x) (cp_workers c)\<rparr>"
  let ?is = "sort (map fst (filter ?expired (cp_workers c)))"
  have "snd (Reap now c) = foldl (\<lambda>c i. requeueLeasesHeldBy i c) ?c ?is" by (simp add: Reap_def Let_def)
  moreover have "gm_get (cp_leases (foldl (\<lambda>c i. requeueLeasesHeldBy i c) ?c ?is)) =
      gm_get (cp_leases (foldl (\<lambda>c i. requeueLeasesHeldBy i c) c ?is))"
    by (rule ext) (simp add: foldl_requeue_get)
  ultimately show ?thesis by auto
qed

lemma cp_exec_terminal:
  assumes inv: "cp_inv c" and t: "terminal_lease c i = Some l"
  shows "terminal_lease (cp_exec op c) i = Some l"
proof -
  have l: "gm_get (cp_leases c) i = Some l" "le_State l = LeaseCompleted \<or> le_State l = LeaseCanceled"
    using t by (simp_all add: terminal_lease_Some)
  then have na: "\<not> held_by w l" "le_State l \<noteq> LeaseAssigned" "le_State l \<noteq> LeasePending" for w
    by (auto simp: held_by_def)
  have q: "queue_inv c" using inv by (simp add: cp_inv_def)
  have "gm_get (cp_leases (cp_exec op c)) i = Some l"
  proof (cases op)
    case (OpRegister now w r)
    with Register_leases [of now w r c] l na show ?thesis by (auto simp: requeue_get unassign_def)
  next
    case (OpHeartbeat now w)
    with l show ?thesis by (simp add: Heartbeat_def split: option.split)
  next
    case (OpSubmit p pl caps co te pr)
    with Submit_state [of p pl caps co te pr c] l fresh_lease [OF q] show ?thesis by auto
  next
    case (OpNext now w)
    from inv show ?thesis
    proof (cases rule: NextLease_cases [of c now w])
      case same
      with OpNext l show ?thesis by simp
    next
      case (assigned worker k l')
      then have "cp_pending c ! k \<noteq> i" using l na(3) by auto
      with OpNext l assigned(7) show ?thesis by simp
    qed
  next
    case (OpComplete now w j r)
    show ?thesis
    proof (cases rule: Complete_cases [of now w j r c])
      case (same e)
      with OpComplete l show ?thesis by simp
    next
      case (fin l')
      then have "j \<noteq> i" using l na(1) by auto
      with OpComplete l fin(3) show ?thesis by simp
    qed
  next
    case (OpCancel now a j)
    show ?thesis
    proof (cases rule: Cancel_cases [of now a j c])
      case (same e)
      with OpCancel l show ?thesis by simp
    next
      case (fin l')
      then have "j \<noteq> i" using l na(2,3) by auto
      with OpCancel l fin(3) show ?thesis by simp
    qed
  next
    case (OpReap now)
    with Reap_leases [of now c] l na show ?thesis by (auto simp: foldl_requeue_get)
  qed
  with l show ?thesis by (simp add: terminal_lease_Some)
qed

interpretation control: settling_system cp_exec cp_inv terminal_lease
  by unfold_locales (auto intro: cp_exec_inv cp_exec_terminal)

lemma New_inv: "cp_inv (NewControlPlane t)"
  by (simp add: cp_inv_def queue_inv_def worker_inv_def NewControlPlane_def)

abbreviation plane_after :: "int \<Rightarrow> cp_op list \<Rightarrow> ControlPlane" where
  "plane_after t ops \<equiv> run cp_exec ops (NewControlPlane t)"

lemma plane_after_inv: "cp_inv (plane_after t ops)"
  by (rule control.run_inv [OF New_inv])

section \<open>Properties\<close>

text \<open>
  C13: After any sequence of operations the queue, the lease states and the workers
  agree: the queue lists exactly the pending leases, each once and under its own
  identity; every assigned lease is held by a registered worker; no worker holds more
  leases than its declared maximum; and assigning work never meets a queue entry without
  a lease.
\<close>

theorem control_invariant:
  "distinct (cp_pending (plane_after t ops))
   \<and> (i \<in> set (cp_pending (plane_after t ops)) \<longleftrightarrow>
        (\<exists>l. LeaseStatus i (plane_after t ops) = Some l \<and> le_State l = LeasePending))
   \<and> (case LeaseStatus i (plane_after t ops) of
        None \<Rightarrow> True
      | Some l \<Rightarrow> le_ID l = i \<and>
          (if le_State l = LeaseAssigned then WorkerStatus_of (le_Worker l) (plane_after t ops) \<noteq> None
           else le_State l \<in> {LeasePending, LeaseCompleted, LeaseCanceled}))
   \<and> (case WorkerStatus_of w (plane_after t ops) of
        None \<Rightarrow> active w (plane_after t ops) = 0
      | Some st \<Rightarrow> int (active w (plane_after t ops)) \<le> ws_MaxParallel st)
   \<and> fst (NextLease now w (plane_after t ops)) \<noteq> Inl NilLease"
proof -
  let ?c = "plane_after t ops"
  have inv: "cp_inv ?c" by (rule plane_after_inv)
  then have q: "queue_inv ?c" and wi: "worker_inv {} ?c" by (simp_all add: cp_inv_def)
  have "fst (NextLease now w ?c) \<noteq> Inl NilLease"
    using inv by (cases rule: NextLease_cases [of ?c now w]) simp_all
  moreover have "case LeaseStatus i ?c of None \<Rightarrow> True
      | Some l \<Rightarrow> le_ID l = i \<and> (if le_State l = LeaseAssigned then WorkerStatus_of (le_Worker l) ?c \<noteq> None
           else le_State l \<in> {LeasePending, LeaseCompleted, LeaseCanceled})"
    using inv_lease [OF q] inv_registered [OF wi, of i]
    by (auto simp: LeaseStatus_def WorkerStatus_of_def lease_ok_def lease_state_ok_def split: option.split)
  moreover have "case WorkerStatus_of w ?c of None \<Rightarrow> active w ?c = 0
      | Some st \<Rightarrow> int (active w ?c) \<le> ws_MaxParallel st"
    using inv_worker [OF wi, of w] unregistered_inactive [OF inv, of w]
    by (auto simp: WorkerStatus_of_def split: option.split)
  moreover have "distinct (cp_pending ?c)" using q by (simp add: queue_inv_def)
  ultimately show ?thesis using inv_pending [OF q, of i] by (simp add: LeaseStatus_def)
qed

text \<open>
  A completed or cancelled lease is final: whatever operations follow, including
  completions by other workers, cancellations, restarts and reaping, its record stays the
  same.
\<close>

theorem terminal_lease_final:
  assumes "LeaseStatus i (plane_after t ops) = Some l"
    and "le_State l = LeaseCompleted \<or> le_State l = LeaseCanceled"
  shows "LeaseStatus i (plane_after t (ops @ later)) = Some l"
proof -
  have "terminal_lease (plane_after t ops) i = Some l"
    using assms by (simp add: terminal_lease_Some LeaseStatus_def)
  from control.run_settled [OF plane_after_inv this, of later]
  show ?thesis by (simp add: terminal_lease_Some LeaseStatus_def)
qed

text \<open>
  \<^verbatim>\<open>NextLease\<close> hands a worker the lease the policy names: a pending lease it can
  serve, of the highest priority, preferring cached content, then the longest queued; it
  counts one more attempt. It hands out nothing only when the worker is at its maximum or
  can serve no pending lease.
\<close>

theorem NextLease_best:
  assumes w: "WorkerStatus_of w (plane_after t ops) = Some st"
  shows "case NextLease now w (plane_after t ops) of
      (Inr (Some l'), c') \<Rightarrow>
        (\<exists>k l. k < length (cp_pending (plane_after t ops))
          \<and> LeaseStatus (cp_pending (plane_after t ops) ! k) (plane_after t ops) = Some l
          \<and> l' = l\<lparr>le_State := LeaseAssigned, le_Worker := w, le_Attempt := le_Attempt l + 1, le_AssignedAt := now\<rparr>
          \<and> best_of (placement_worker st)
              (map (\<lambda>i. candidate_of (the (LeaseStatus i (plane_after t ops)))) (cp_pending (plane_after t ops)))
              (length (cp_pending (plane_after t ops))) (Some k))
    | (Inr None, c') \<Rightarrow> c' = plane_after t ops
        \<and> (ws_MaxParallel st \<le> int (active w (plane_after t ops))
           \<or> best_of (placement_worker st)
              (map (\<lambda>i. candidate_of (the (LeaseStatus i (plane_after t ops)))) (cp_pending (plane_after t ops)))
              (length (cp_pending (plane_after t ops))) None)
    | (Inl e, c') \<Rightarrow> False"
proof -
  let ?c = "plane_after t ops"
  let ?cs = "map (\<lambda>i. candidate_of (the (gm_get (cp_leases ?c) i))) (cp_pending ?c)"
  have inv: "cp_inv ?c" by (rule plane_after_inv)
  have st: "gm_get (cp_workers ?c) w = Some st" using w by (simp add: WorkerStatus_of_def)
  have "worker_ok w st" using inv inv_worker [of "{}" ?c w st] st by (simp add: cp_inv_def)
  then have "worker_sorted (placement_worker st)"
    by (simp add: worker_ok_def worker_sorted_def placement_worker_def)
  from Select_best [OF this, of ?cs]
  have best: "best_of (placement_worker st) ?cs (length (cp_pending ?c)) (Select (placement_worker st) ?cs)"
    by simp
  have all: "list_all (\<lambda>i. gm_get (cp_leases ?c) i \<noteq> None) (cp_pending ?c)"
    using inv inv_pending [of ?c] by (auto simp: cp_inv_def list_all_iff)
  from inv show ?thesis
  proof (cases rule: NextLease_cases [of ?c now w])
    case same
    then show ?thesis using st all best
      by (auto simp: NextLease_def LeaseStatus_def Let_def split: option.splits if_splits)
  next
    case (assigned worker k l)
    with st best show ?thesis by (auto simp: LeaseStatus_def)
  qed
qed

lemma foldl_requeue_pending:
  "\<exists>ys. cp_pending (foldl (\<lambda>c i. requeueLeasesHeldBy i c) c is) = cp_pending c @ ys"
proof (induction "is" arbitrary: c)
  case (Cons i "is")
  from Cons.IH [of "requeueLeasesHeldBy i c"] show ?case by (auto simp: requeueLeasesHeldBy_def)
qed simp

lemma Reap_pending: "\<exists>ys. cp_pending (snd (Reap now c)) = cp_pending c @ ys"
proof -
  let ?expired = "\<lambda>(i, w). \<not> now - ws_LastHeartbeat w \<le> cp_heartbeatTimeout c"
  let ?c = "c\<lparr>cp_workers := filter (\<lambda>x. \<not> ?expired x) (cp_workers c)\<rparr>"
  let ?is = "sort (map fst (filter ?expired (cp_workers c)))"
  have "snd (Reap now c) = foldl (\<lambda>c i. requeueLeasesHeldBy i c) ?c ?is" by (simp add: Reap_def Let_def)
  then show ?thesis using foldl_requeue_pending [of ?c ?is] by simp
qed

lemma Reap_state:
  "Reap now c = (sort (drop (length (cp_pending c)) (cp_pending (snd (Reap now c)))), snd (Reap now c))"
proof -
  have "sort (drop (length (cp_pending c)) (cp_pending c)) = ([] :: string list)" by simp
  then show ?thesis unfolding Reap_def Let_def by (auto simp del: sort_Nil_iff)
qed

lemma Reap_get:
  assumes "distinct (gm_keys (cp_workers c))"
  shows "gm_get (cp_leases (snd (Reap now c))) i =
     map_option (\<lambda>l. if le_State l = LeaseAssigned \<and>
         (\<exists>w. gm_get (cp_workers c) (le_Worker l) = Some w \<and> cp_heartbeatTimeout c < now - ws_LastHeartbeat w)
       then l\<lparr>le_State := LeasePending, le_Worker := []\<rparr> else l) (gm_get (cp_leases c) i)"
proof -
  let ?expired = "\<lambda>(i, w). \<not> now - ws_LastHeartbeat w \<le> cp_heartbeatTimeout c"
  let ?c = "c\<lparr>cp_workers := filter (\<lambda>x. \<not> ?expired x) (cp_workers c)\<rparr>"
  let ?is = "sort (map fst (filter ?expired (cp_workers c)))"
  have "j \<in> set ?is \<longleftrightarrow> (\<exists>w. gm_get (cp_workers c) j = Some w \<and> cp_heartbeatTimeout c < now - ws_LastHeartbeat w)" for j
    using assms by (force simp: map_of_eq_Some_iff)
  moreover have "snd (Reap now c) = foldl (\<lambda>c i. requeueLeasesHeldBy i c) ?c ?is" by (simp add: Reap_def Let_def)
  ultimately show ?thesis by (simp add: foldl_requeue_get)
qed

lemma Reap_workers:
  "distinct (gm_keys (cp_workers c)) \<Longrightarrow>
   gm_get (cp_workers (snd (Reap now c))) j = Some w \<longleftrightarrow>
     gm_get (cp_workers c) j = Some w \<and> now - ws_LastHeartbeat w \<le> cp_heartbeatTimeout c"
proof -
  assume d: "distinct (gm_keys (cp_workers c))"
  let ?expired = "\<lambda>(i, w). \<not> now - ws_LastHeartbeat w \<le> cp_heartbeatTimeout c"
  have keep: "cp_workers (foldl (\<lambda>c i. requeueLeasesHeldBy i c) c' is) = cp_workers c'" for c' "is"
    by (induction "is" arbitrary: c') simp_all
  have "cp_workers (snd (Reap now c)) = filter (\<lambda>x. \<not> ?expired x) (cp_workers c)"
    by (simp add: Reap_def Let_def keep)
  then show ?thesis
    using d distinct_map_filter [OF d, of "\<lambda>x. \<not> ?expired x"] by (auto simp: map_of_eq_Some_iff)
qed

text \<open>
  When a worker misses its heartbeats, \<^verbatim>\<open>Reap\<close> forgets it and puts every lease it
  held back into the queue, reporting it; the lost worker can no longer complete such a
  lease, so a late result never overwrites the one of the next holder. Leases of live
  workers are untouched.
\<close>

theorem reap_requeues_lost:
  assumes l: "LeaseStatus i (plane_after t ops) = Some l" "le_State l = LeaseAssigned"
    and w: "WorkerStatus_of (le_Worker l) (plane_after t ops) = Some w"
    and lost: "cp_heartbeatTimeout (plane_after t ops) < now - ws_LastHeartbeat w"
  shows "i \<in> set (fst (Reap now (plane_after t ops)))
    \<and> i \<in> set (cp_pending (snd (Reap now (plane_after t ops))))
    \<and> WorkerStatus_of (le_Worker l) (snd (Reap now (plane_after t ops))) = None
    \<and> fst (CompleteLease later (le_Worker l) i result (snd (Reap now (plane_after t ops)))) \<noteq> None
    \<and> snd (CompleteLease later (le_Worker l) i result (snd (Reap now (plane_after t ops))))
        = snd (Reap now (plane_after t ops))
    \<and> (\<forall>j x v. LeaseStatus j (plane_after t ops) = Some x \<and> WorkerStatus_of (le_Worker x) (plane_after t ops) = Some v
         \<and> now - ws_LastHeartbeat v \<le> cp_heartbeatTimeout (plane_after t ops)
         \<longrightarrow> LeaseStatus j (snd (Reap now (plane_after t ops))) = Some x)"
proof -
  let ?c = "plane_after t ops" and ?c' = "snd (Reap now (plane_after t ops))"
  have inv: "cp_inv ?c" by (rule plane_after_inv)
  have q: "queue_inv ?c" and d: "distinct (gm_keys (cp_workers ?c))"
    using inv by (simp_all add: cp_inv_def worker_inv_def)
  have q': "queue_inv ?c'" using Reap_inv [OF inv, of now] by (simp add: cp_inv_def)
  have new: "gm_get (cp_leases ?c') i = Some (l\<lparr>le_State := LeasePending, le_Worker := []\<rparr>)"
    using l w lost by (simp add: Reap_get [OF d] LeaseStatus_def WorkerStatus_of_def)
  then have queued: "i \<in> set (cp_pending ?c')" using inv_pending [OF q', of i] by simp
  have "i \<notin> set (cp_pending ?c)" using not_pending [OF q] l by (simp add: LeaseStatus_def)
  moreover obtain ys where ys: "cp_pending ?c' = cp_pending ?c @ ys"
    using Reap_pending by blast
  ultimately have "i \<in> set (fst (Reap now ?c))" using queued by (subst Reap_state) simp
  moreover have "WorkerStatus_of (le_Worker l) ?c' = None"
    using Reap_workers [OF d, of now "le_Worker l"] w lost
    by (cases "WorkerStatus_of (le_Worker l) ?c'") (auto simp: WorkerStatus_of_def)
  moreover have "LeaseStatus j ?c' = Some x"
    if "LeaseStatus j ?c = Some x" "WorkerStatus_of (le_Worker x) ?c = Some v"
      "now - ws_LastHeartbeat v \<le> cp_heartbeatTimeout ?c" for j x v
    using that by (simp add: Reap_get [OF d] LeaseStatus_def WorkerStatus_of_def)
  moreover have "fst (CompleteLease later (le_Worker l) i result ?c') \<noteq> None
      \<and> snd (CompleteLease later (le_Worker l) i result ?c') = ?c'"
    using new by (simp add: CompleteLease_def)
  ultimately show ?thesis using queued by blast
qed

section \<open>A concrete history\<close>

definition demo_ops :: "cp_op list" where
  "demo_ops =
     [OpRegister 1 ''w1'' \<lparr>wr_Platform = ''linux/amd64'', wr_Capabilities = [''kvm''], wr_CachedContent = [],
        wr_MaxParallel = 2, wr_PublicKey = []\<rparr>,
      OpSubmit ''build'' ''linux/amd64'' [''kvm''] [] [] 0,
      OpSubmit ''urgent'' [] [] [] [] 7,
      OpNext 2 ''w1'']"

theorem terminal_lease_final_witness:
  "LeaseStatus ''lease-2'' (plane_after 10 (demo_ops @ [OpComplete 3 ''w1'' ''lease-2'' ''ok''])) \<noteq> None
   \<and> LeaseStatus ''lease-2'' (plane_after 10 ((demo_ops @ [OpComplete 3 ''w1'' ''lease-2'' ''ok'']) @ [OpReap 99]))
     = LeaseStatus ''lease-2'' (plane_after 10 (demo_ops @ [OpComplete 3 ''w1'' ''lease-2'' ''ok'']))"
proof -
  let ?c = "plane_after 10 (demo_ops @ [OpComplete 3 ''w1'' ''lease-2'' ''ok''])"
  have "map_option le_State (LeaseStatus ''lease-2'' ?c) = Some LeaseCompleted" by code_simp
  then obtain l where l: "LeaseStatus ''lease-2'' ?c = Some l" "le_State l = LeaseCompleted" by auto
  with terminal_lease_final [OF l(1), of "[OpReap 99]"] show ?thesis by simp
qed

theorem NextLease_best_witness:
  "(\<exists>l c'. NextLease 3 ''w1'' (plane_after 10 demo_ops) = (Inr (Some l), c') \<and> le_Payload l = ''build'')
   \<and> (\<exists>k. best_of (placement_worker (the (WorkerStatus_of ''w1'' (plane_after 10 demo_ops))))
        (map (\<lambda>i. candidate_of (the (LeaseStatus i (plane_after 10 demo_ops)))) (cp_pending (plane_after 10 demo_ops)))
        (length (cp_pending (plane_after 10 demo_ops))) (Some k))"
proof -
  let ?c = "plane_after 10 demo_ops"
  have "WorkerStatus_of ''w1'' ?c \<noteq> None" by code_simp
  then obtain st where st: "WorkerStatus_of ''w1'' ?c = Some st" by blast
  have "(case fst (NextLease 3 ''w1'' ?c) of Inr (Some l) \<Rightarrow> le_Payload l | _ \<Rightarrow> []) = ''build''" by code_simp
  then obtain l c' where n: "NextLease 3 ''w1'' ?c = (Inr (Some l), c')" "le_Payload l = ''build''"
    by (cases "NextLease 3 ''w1'' ?c") (auto split: sum.splits option.splits)
  with NextLease_best [OF st, of 3] st show ?thesis by auto
qed

theorem reap_requeues_lost_witness:
  "''lease-2'' \<in> set (fst (Reap 99 (plane_after 10 demo_ops)))
   \<and> fst (CompleteLease 100 ''w1'' ''lease-2'' ''late'' (snd (Reap 99 (plane_after 10 demo_ops)))) \<noteq> None"
proof -
  let ?c = "plane_after 10 demo_ops"
  have "map_option (\<lambda>l. (le_State l, le_Worker l)) (LeaseStatus ''lease-2'' ?c) = Some (LeaseAssigned, ''w1'')"
    by code_simp
  then obtain l where l: "LeaseStatus ''lease-2'' ?c = Some l" "le_State l = LeaseAssigned" "le_Worker l = ''w1''" by auto
  have "map_option ws_LastHeartbeat (WorkerStatus_of ''w1'' ?c) = Some 1" by code_simp
  then obtain w where w: "WorkerStatus_of (le_Worker l) ?c = Some w" "ws_LastHeartbeat w = 1" using l(3) by auto
  have "cp_heartbeatTimeout ?c = 10" by code_simp
  with reap_requeues_lost [OF l(1,2) w(1), of 99] w(2) l(3) show ?thesis by simp
qed

end
