(* ===== verification/Control_Persistence.thy ===== *)
theory Control_Persistence
  imports Durable_Files Control_Plane
begin

text \<open>
  Snapshots of the coordinator, \<^verbatim>\<open>internal/control/persistence.go\<close>: the document \<^verbatim>\<open>Save\<close>
  writes and the size limit, checks and reclaiming of \<^verbatim>\<open>LoadControlPlane\<close>. \<^verbatim>\<open>json.Marshal\<close> and
  \<^verbatim>\<open>strictjson.Decode\<close> are parameters on bytes. Shown: every state the coordinator can reach
  is accepted again after a restart, with exactly the assigned leases returned to the queue,
  provided its text is at most 64 MiB; a longer one is saved and then refused.
\<close>

section \<open>Documents\<close>

record snapshot =
  sn_Version :: int
  sn_NextID :: int
  sn_Leases :: "Lease list"
  sn_Pending :: "string list"

definition snapshotVersion :: int where
  "snapshotVersion = 3"

definition snapshot_of :: "ControlPlane \<Rightarrow> snapshot" where
  "snapshot_of c = \<lparr>sn_Version = snapshotVersion, sn_NextID = int (cp_nextID c),
     sn_Leases = sort_key le_ID (map snd (cp_leases c)), sn_Pending = cp_pending c\<rparr>"

datatype load_error =
    ReadSnapshot | SnapshotTooLarge | DecodeSnapshot | InvalidSnapshot | DuplicatePending string | InvalidLease string | BadPlatform string
  | BadCapabilities string | BadContent string | PendingProvenance string | AbsentFromQueue string
  | CompletedQueued string | BadCompletion string | BadCancellation string | BadState string
  | UnknownQueued

definition hasCompletionProvenance :: "Lease \<Rightarrow> bool" where
  "hasCompletionProvenance l \<longleftrightarrow> le_CompletedBy l \<noteq> [] \<or> le_CompletedAt l \<noteq> 0"

definition hasCancellationProvenance :: "Lease \<Rightarrow> bool" where
  "hasCancellationProvenance l \<longleftrightarrow> le_CanceledBy l \<noteq> [] \<or> le_CanceledAt l \<noteq> 0"

definition leaseSequence :: "string \<Rightarrow> int option" where
  "leaseSequence i =
     (if \<not> has_prefix i ''lease-'' then None
      else case atoi (drop 6 i) of
        None \<Rightarrow> None | Some n \<Rightarrow> (if 0 < n then Some n else None))"

fun duplicate_pending :: "string list \<Rightarrow> string list \<Rightarrow> string option" where
  "duplicate_pending seen [] = None"
| "duplicate_pending seen (i # is) = (if i \<in> set seen then Some i else duplicate_pending (i # seen) is)"

text \<open>
  The checks on one lease; the value is the lease to keep and whether it was reclaimed.
\<close>

definition load_lease :: "snapshot \<Rightarrow> (string, Lease) gomap \<Rightarrow> Lease \<Rightarrow> load_error + Lease \<times> bool" where
  "load_lease sn leases l =
     (let i = le_ID l; queued = (i \<in> set (sn_Pending sn)) in
      if (case leaseSequence i of None \<Rightarrow> True | Some n \<Rightarrow> sn_NextID sn < n) \<or> gm_get leases i \<noteq> None
         \<or> le_Payload l = [] \<or> maxOpaqueFieldBytes < int (length (le_Payload l))
         \<or> maxOpaqueFieldBytes < int (length (le_Result l)) then Inl (InvalidLease i)
      else if le_RequiredPlatform l \<noteq> [] \<and> \<not> platformPattern (le_RequiredPlatform l) then Inl (BadPlatform i)
      else if normalizedTokens (le_RequiredCapabilities l) capabilityPattern 64 \<noteq> Some (le_RequiredCapabilities l)
      then Inl (BadCapabilities i)
      else if le_PreferredContent l \<noteq> [] \<and> \<not> contentPattern (le_PreferredContent l) then Inl (BadContent i)
      else if le_State l = LeasePending then
        (if hasCompletionProvenance l \<or> hasCancellationProvenance l then Inl (PendingProvenance i)
         else if \<not> queued then Inl (AbsentFromQueue i)
         else Inr (l, False))
      else if le_State l = LeaseAssigned then
        (if hasCompletionProvenance l \<or> hasCancellationProvenance l then Inl (PendingProvenance i)
         else Inr (l\<lparr>le_State := LeasePending, le_Worker := []\<rparr>, True))
      else if le_State l = LeaseCompleted then
        (if queued then Inl (CompletedQueued i)
         else let l' = (if sn_Version sn = 1 \<and> le_CompletedBy l = [] then l\<lparr>le_CompletedBy := le_Worker l\<rparr> else l)
              in if \<not> workerIDPattern (le_CompletedBy l') \<or> (2 \<le> sn_Version sn \<and> le_CompletedAt l' = 0)
                    \<or> hasCancellationProvenance l' then Inl (BadCompletion i)
                 else Inr (l', False))
      else if le_State l = LeaseCanceled then
        (if sn_Version sn < 3 \<or> queued \<or> hasCompletionProvenance l \<or> \<not> workerIDPattern (le_CanceledBy l)
            \<or> le_CanceledAt l = 0 then Inl (BadCancellation i)
         else Inr (l, False))
      else Inl (BadState i))"

fun load_leases :: "snapshot \<Rightarrow> (string, Lease) gomap \<Rightarrow> string list \<Rightarrow> Lease list \<Rightarrow> load_error + (string, Lease) gomap \<times> string list" where
  "load_leases sn leases reclaimed [] = Inr (leases, reclaimed)"
| "load_leases sn leases reclaimed (l # ls) =
     (case load_lease sn leases l of
        Inl e \<Rightarrow> Inl e
      | Inr (l', again) \<Rightarrow>
          load_leases sn (gm_put (le_ID l) l' leases) (if again then reclaimed @ [le_ID l] else reclaimed) ls)"

definition restore :: "int \<Rightarrow> snapshot \<Rightarrow> load_error + ControlPlane" where
  "restore timeout sn =
     (if sn_Version sn < 1 \<or> snapshotVersion < sn_Version sn \<or> sn_NextID sn < 0 then Inl InvalidSnapshot
      else case duplicate_pending [] (sn_Pending sn) of
        Some i \<Rightarrow> Inl (DuplicatePending i)
      | None \<Rightarrow>
          (case load_leases sn [] [] (sn_Leases sn) of
             Inl e \<Rightarrow> Inl e
           | Inr (leases, reclaimed) \<Rightarrow>
               if \<not> list_all (\<lambda>i. gm_get leases i \<noteq> None) (sn_Pending sn) then Inl UnknownQueued
               else Inr \<lparr>cp_heartbeatTimeout = timeout, cp_workers = [], cp_leases = leases,
                         cp_pending = sn_Pending sn @ sort reclaimed, cp_nextID = nat (sn_NextID sn)\<rparr>))"

section \<open>The snapshot file\<close>

text \<open>
  What is found at the path of the snapshot. A symbolic link leads to bytes or to nothing;
  \<^verbatim>\<open>os.Open\<close> follows it, \<^verbatim>\<open>Save\<close> refuses it.
\<close>

datatype snapshot_file = NoFile | Bytes string | Symlink "string option" | NotAFile

datatype save_error = PathRequired | MarshalSnapshot | CreateDirectory | SymlinkRefused | InspectPath | WriteSnapshot

record save_env =
  sv_mkdir_fails :: bool
  sv_lstat_fails :: bool
  sv_write :: write_fault

definition Save ::
  "(snapshot \<Rightarrow> string option) \<Rightarrow> save_env \<Rightarrow> string \<Rightarrow> snapshot_file \<Rightarrow> ControlPlane
     \<Rightarrow> save_error option \<times> snapshot_file" where
  "Save marshal env path f c =
     (if path = [] then (Some PathRequired, f)
      else case marshal (snapshot_of c) of
        None \<Rightarrow> (Some MarshalSnapshot, f)
      | Some data \<Rightarrow>
          if sv_mkdir_fails env then (Some CreateDirectory, f)
          else if sv_lstat_fails env then (Some InspectPath, f)
          else if (case f of Symlink _ \<Rightarrow> True | _ \<Rightarrow> False) then (Some SymlinkRefused, f)
          else if sv_write env = FailsBeforeRename \<or> f = NotAFile then (Some WriteSnapshot, f)
          else (if sv_write env = FailsAfterRename then Some WriteSnapshot else None, Bytes data))"

definition snapshotLimit :: nat where
  "snapshotLimit = 64 * 1024 * 1024"

definition LoadControlPlane ::
  "(string \<Rightarrow> snapshot option) \<Rightarrow> bool \<Rightarrow> int \<Rightarrow> snapshot_file \<Rightarrow> load_error + ControlPlane" where
  "LoadControlPlane decode read_fails timeout f =
     (case (case f of Bytes data \<Rightarrow> Some data | Symlink t \<Rightarrow> t | _ \<Rightarrow> None) of
        None \<Rightarrow> Inl ReadSnapshot
      | Some contents \<Rightarrow>
          (let data = take (Suc snapshotLimit) contents in
           if read_fails then Inl ReadSnapshot
           else if snapshotLimit < length data then Inl SnapshotTooLarge
           else case decode data of None \<Rightarrow> Inl DecodeSnapshot | Some sn \<Rightarrow> restore timeout sn))"

lemma Save_None: "Save marshal env path f c = (None, f') \<Longrightarrow> \<exists>data. marshal (snapshot_of c) = Some data \<and> f' = Bytes data"
  by (auto simp: Save_def split: if_splits option.splits snapshot_file.splits)

lemma Load_Bytes:
  "LoadControlPlane decode False t (Bytes data) =
     (if snapshotLimit < length data then Inl SnapshotTooLarge
      else case decode data of None \<Rightarrow> Inl DecodeSnapshot | Some sn \<Rightarrow> restore t sn)"
  by (simp add: LoadControlPlane_def Let_def)

section \<open>Reachable leases are storable\<close>

definition lease_storable :: "Lease \<Rightarrow> bool" where
  "lease_storable l \<longleftrightarrow> le_Payload l \<noteq> [] \<and> int (length (le_Payload l)) \<le> maxOpaqueFieldBytes
     \<and> int (length (le_Result l)) \<le> maxOpaqueFieldBytes
     \<and> (le_RequiredPlatform l = [] \<or> platformPattern (le_RequiredPlatform l))
     \<and> normalizedTokens (le_RequiredCapabilities l) capabilityPattern 64 = Some (le_RequiredCapabilities l)
     \<and> (le_PreferredContent l = [] \<or> contentPattern (le_PreferredContent l))
     \<and> (if le_State l = LeaseCompleted
        then workerIDPattern (le_CompletedBy l) \<and> le_CompletedAt l \<noteq> 0 \<and> \<not> hasCancellationProvenance l
        else if le_State l = LeaseCanceled
        then workerIDPattern (le_CanceledBy l) \<and> le_CanceledAt l \<noteq> 0 \<and> \<not> hasCompletionProvenance l
        else \<not> hasCompletionProvenance l \<and> \<not> hasCancellationProvenance l)"

lemmas provenance_defs = hasCompletionProvenance_def hasCancellationProvenance_def

lemma token_loop_props:
  "token_loop p acc vs = Some ts \<Longrightarrow> distinct acc \<Longrightarrow> list_all p acc \<Longrightarrow>
     distinct ts \<and> list_all p ts \<and> length ts \<le> length acc + length vs"
  by (induction p acc vs rule: token_loop.induct) (auto split: if_splits)

lemma token_loop_id:
  "distinct (acc @ vs) \<Longrightarrow> list_all p vs \<Longrightarrow> token_loop p acc vs = Some (acc @ vs)"
  by (induction vs arbitrary: acc) auto

lemma normalizedTokens_idem:
  assumes "normalizedTokens vs p n = Some ts" shows "normalizedTokens ts p n = Some ts"
proof -
  from assms obtain us where us: "token_loop p [] vs = Some us" "ts = sort us" "int (length vs) \<le> n"
    by (auto simp: normalizedTokens_def split: if_splits)
  from token_loop_props [OF us(1)] have "distinct us" "list_all p us" "length us \<le> length vs" by auto
  then have "token_loop p [] ts = Some ts" "int (length ts) \<le> n"
    using us token_loop_id [of "[]" ts p] by (simp_all add: list_all_iff)
  then show ?thesis using us(2) by (simp add: normalizedTokens_def sorted_sort_id)
qed

lemma unassign_storable: "lease_storable l \<Longrightarrow> lease_storable (unassign w l)"
  by (auto simp: lease_storable_def unassign_def held_by_def provenance_defs)

definition clock_ok :: "cp_op \<Rightarrow> bool" where
  "clock_ok op = (case op of OpComplete now _ _ _ \<Rightarrow> now \<noteq> 0 | OpCancel now _ _ \<Rightarrow> now \<noteq> 0 | _ \<Rightarrow> True)"

definition all_storable :: "ControlPlane \<Rightarrow> bool" where
  "all_storable c \<longleftrightarrow> (\<forall>i l. gm_get (cp_leases c) i = Some l \<longrightarrow> lease_storable l)"

lemma Submit_storable:
  assumes "all_storable c"
  shows "all_storable (snd (SubmitLeaseWithTenant payload platform caps content tenant priority c))"
proof (cases "fst (SubmitLeaseWithTenant payload platform caps content tenant priority c)")
  case (Inl e)
  then have "snd (SubmitLeaseWithTenant payload platform caps content tenant priority c) = c"
    by (auto simp: SubmitLeaseWithTenant_def Let_def split: if_splits option.splits)
  with assms show ?thesis by simp
next
  case (Inr i)
  then obtain caps' where ok: "payload \<noteq> []" "int (length payload) \<le> maxOpaqueFieldBytes"
      "platform = [] \<or> platformPattern platform" "normalizedTokens caps capabilityPattern 64 = Some caps'"
      "content = [] \<or> contentPattern content"
    and c': "cp_leases (snd (SubmitLeaseWithTenant payload platform caps content tenant priority c)) =
       gm_put (lease_id (Suc (cp_nextID c)))
         (new_lease (lease_id (Suc (cp_nextID c))) payload platform caps' content tenant priority) (cp_leases c)"
    by (auto simp: SubmitLeaseWithTenant_def Let_def split: if_splits option.splits)
  have "lease_storable (new_lease j payload platform caps' content tenant priority)" for j
    using ok normalizedTokens_idem [OF ok(4)]
    by (simp add: lease_storable_def new_lease_def provenance_defs maxOpaqueFieldBytes_def)
  with assms show ?thesis unfolding all_storable_def c' by simp
qed

lemma cp_exec_storable:
  assumes inv: "cp_inv c" and st: "all_storable c" and now: "clock_ok op"
  shows "all_storable (cp_exec op c)"
proof (cases op)
  case (OpRegister t w r)
  have "lease_storable (unassign w l)" if "gm_get (cp_leases c) i = Some l" for i l
    using st that unfolding all_storable_def by (blast intro: unassign_storable)
  with OpRegister Register_leases [of t w r c] st show ?thesis
    by (auto simp: all_storable_def requeue_get)
next
  case (OpHeartbeat t w)
  with st show ?thesis by (simp add: all_storable_def Heartbeat_def split: option.split)
next
  case (OpSubmit p pl caps co te pr)
  with Submit_storable [OF st] show ?thesis by simp
next
  case (OpNext t w)
  from inv show ?thesis
  proof (cases rule: NextLease_cases [of c t w])
    case same
    with OpNext st show ?thesis by simp
  next
    case (assigned worker k l)
    with st have "lease_storable l" unfolding all_storable_def by blast
    with assigned(5) have "lease_storable (l\<lparr>le_State := LeaseAssigned, le_Worker := w,
        le_Attempt := le_Attempt l + 1, le_AssignedAt := t\<rparr>)"
      by (simp add: lease_storable_def provenance_defs)
    with OpNext assigned(7) st show ?thesis by (simp add: all_storable_def)
  qed
next
  case (OpComplete t w i r)
  show ?thesis
  proof (cases rule: Complete_cases [of t w i r c])
    case (same e)
    with OpComplete st show ?thesis by simp
  next
    case (fin l)
    then have args: "workerIDPattern w" "int (length r) \<le> maxOpaqueFieldBytes"
      by (auto simp: CompleteLease_def split: if_splits)
    have "lease_storable l" using st fin(1) unfolding all_storable_def by blast
    with fin(2) args now OpComplete
    have "lease_storable (l\<lparr>le_State := LeaseCompleted, le_Result := r, le_CompletedBy := w, le_CompletedAt := t\<rparr>)"
      by (simp add: lease_storable_def provenance_defs held_by_def clock_ok_def)
    with OpComplete fin(3) st show ?thesis by (simp add: all_storable_def)
  qed
next
  case (OpCancel t a i)
  show ?thesis
  proof (cases rule: Cancel_cases [of t a i c])
    case (same e)
    with OpCancel st show ?thesis by simp
  next
    case (fin l)
    then have a: "workerIDPattern a" by (auto simp: CancelLease_def split: if_splits)
    have "lease_storable l" using st fin(1) unfolding all_storable_def by blast
    with fin(2) a now OpCancel
    have "lease_storable (l\<lparr>le_State := LeaseCanceled, le_CanceledBy := a, le_CanceledAt := t\<rparr>)"
      by (auto simp: lease_storable_def provenance_defs clock_ok_def)
    with OpCancel fin(3) st show ?thesis by (simp add: all_storable_def)
  qed
next
  case (OpReap t)
  have "lease_storable (l\<lparr>le_State := LeasePending, le_Worker := []\<rparr>)"
    if "lease_storable l" "le_State l = LeaseAssigned" for l
    using that by (simp add: lease_storable_def provenance_defs)
  with OpReap Reap_leases [of t c] st show ?thesis
    by (auto simp: all_storable_def foldl_requeue_get)
qed

lemma plane_after_storable: "list_all clock_ok ops \<Longrightarrow> all_storable (plane_after t ops)"
proof (induction ops rule: rev_induct)
  case Nil
  then show ?case by (simp add: all_storable_def NewControlPlane_def)
next
  case (snoc op ops)
  then show ?case using cp_exec_storable [OF plane_after_inv, of ops t op] by simp
qed

section \<open>Reloading\<close>

text \<open>What a restart makes of a lease: the worker of an assigned one is gone.\<close>

definition reclaim :: "Lease \<Rightarrow> Lease" where
  "reclaim l = (if le_State l = LeaseAssigned then l\<lparr>le_State := LeasePending, le_Worker := []\<rparr> else l)"

lemma leaseSequence_id: "0 < n \<Longrightarrow> int n < 2 ^ 63 \<Longrightarrow> leaseSequence (lease_id n) = Some (int n)"
  by (simp add: leaseSequence_def lease_id_def has_prefix_def atoi_itoa)

lemma load_lease_ok:
  assumes ok: "lease_ok (cp_nextID c) i l" "lease_storable l" and small: "int (cp_nextID c) < 2 ^ 63"
    and new: "gm_get leases i = None" and q: "i \<in> set (cp_pending c) \<longleftrightarrow> le_State l = LeasePending"
  shows "load_lease (snapshot_of c) leases l = Inr (reclaim l, le_State l = LeaseAssigned)"
proof -
  obtain k where k: "0 < k" "k \<le> cp_nextID c" "i = lease_id k" "le_ID l = i" using ok(1) by (auto simp: lease_ok_def)
  then have seq: "leaseSequence (le_ID l) = Some (int k)" using small by (simp add: leaseSequence_id)
  have sn: "sn_Pending (snapshot_of c) = cp_pending c" "sn_NextID (snapshot_of c) = int (cp_nextID c)" "sn_Version (snapshot_of c) = 3"
    by (simp_all add: snapshot_of_def snapshotVersion_def)
  have st: "le_State l \<in> {LeasePending, LeaseAssigned, LeaseCompleted, LeaseCanceled}"
    using ok(1) by (simp add: lease_ok_def lease_state_ok_def)
  have chk: "\<not> ((case leaseSequence (le_ID l) of None \<Rightarrow> True | Some n \<Rightarrow> sn_NextID (snapshot_of c) < n)
      \<or> gm_get leases (le_ID l) \<noteq> None \<or> le_Payload l = []
      \<or> maxOpaqueFieldBytes < int (length (le_Payload l)) \<or> maxOpaqueFieldBytes < int (length (le_Result l)))"
    using seq k new ok(2) sn by (auto simp: lease_storable_def)
  show ?thesis
    unfolding load_lease_def Let_def using chk st ok(2) q k(4) sn
    by (elim insertE) (auto simp: lease_storable_def reclaim_def)
qed

lemma load_leases_ok:
  assumes small: "int (cp_nextID c) < 2 ^ 63"
  shows "distinct (map le_ID ls) \<Longrightarrow> set (map le_ID ls) \<inter> set (gm_keys acc) = {} \<Longrightarrow>
     (\<And>l. l \<in> set ls \<Longrightarrow> lease_ok (cp_nextID c) (le_ID l) l \<and> lease_storable l
        \<and> (le_ID l \<in> set (cp_pending c) \<longleftrightarrow> le_State l = LeasePending)) \<Longrightarrow>
     load_leases (snapshot_of c) acc rec ls =
       Inr (acc @ map (\<lambda>l. (le_ID l, reclaim l)) ls, rec @ map le_ID (filter (\<lambda>l. le_State l = LeaseAssigned) ls))"
proof (induction ls arbitrary: acc rec)
  case (Cons l ls)
  have new: "gm_get acc (le_ID l) = None" using Cons.prems(2) by (force simp: map_of_eq_None_iff)
  have ok: "lease_ok (cp_nextID c) (le_ID l) l" "lease_storable l"
    "le_ID l \<in> set (cp_pending c) \<longleftrightarrow> le_State l = LeasePending" using Cons.prems(3) [of l] by auto
  have put: "gm_put (le_ID l) (reclaim l) acc = acc @ [(le_ID l, reclaim l)]"
    using Cons.prems(2) by (intro gm_put_new) auto
  have "load_leases (snapshot_of c) (acc @ [(le_ID l, reclaim l)]) rec' ls =
      Inr ((acc @ [(le_ID l, reclaim l)]) @ map (\<lambda>l. (le_ID l, reclaim l)) ls,
        rec' @ map le_ID (filter (\<lambda>l. le_State l = LeaseAssigned) ls))" for rec'
    using Cons.prems by (intro Cons.IH) auto
  then show ?case using load_lease_ok [OF ok(1,2) small new ok(3)] put by simp
qed simp

lemma duplicate_pending_None: "duplicate_pending seen is = None \<longleftrightarrow> distinct is \<and> set is \<inter> set seen = {}"
  by (induction seen "is" rule: duplicate_pending.induct) auto

definition saved_leases :: "ControlPlane \<Rightarrow> Lease list" where
  "saved_leases c = sort_key le_ID (map snd (cp_leases c))"

definition assigned_ids :: "ControlPlane \<Rightarrow> string list" where
  "assigned_ids c = map le_ID (filter (\<lambda>l. le_State l = LeaseAssigned) (saved_leases c))"

lemma keyed_leases: "queue_inv c \<Longrightarrow> map (\<lambda>l. (le_ID l, l)) (map snd (cp_leases c)) = cp_leases c"
  by (rule map_snd_keyed) (auto simp: gm_get_mem [OF queue_inv_distinct] lease_ok_def dest: inv_lease)

lemma saved_mset: "mset (map f (saved_leases c)) = mset (map f (map snd (cp_leases c)))"
  by (simp only: saved_leases_def mset_map mset_sort)

lemma saved_get:
  assumes inv: "queue_inv c"
  shows "gm_get (map (\<lambda>l. (le_ID l, f l)) (saved_leases c)) i = map_option f (gm_get (cp_leases c) i)"
proof -
  have "mset (map (\<lambda>l. (le_ID l, l)) (saved_leases c)) = mset (cp_leases c)"
    by (simp only: saved_mset keyed_leases [OF inv])
  then have "gm_get (map (\<lambda>l. (le_ID l, l)) (saved_leases c)) = gm_get (cp_leases c)"
    using gm_get_perm [OF queue_inv_distinct [OF inv], of "map (\<lambda>l. (le_ID l, l)) (saved_leases c)"] by simp
  moreover have "gm_get (map (\<lambda>l. (le_ID l, f l)) ls) i = map_option f (gm_get (map (\<lambda>l. (le_ID l, l)) ls) i)" for ls
    by (induction ls) auto
  ultimately show ?thesis by simp
qed

lemma saved_ids:
  assumes inv: "queue_inv c"
  shows "mset (map le_ID (saved_leases c)) = mset (gm_keys (cp_leases c))"
proof -
  have "map le_ID (map snd (cp_leases c)) = gm_keys (map (\<lambda>l. (le_ID l, l)) (map snd (cp_leases c)))" by simp
  also have "\<dots> = gm_keys (cp_leases c)" by (simp only: keyed_leases [OF inv])
  finally show ?thesis by (simp only: saved_mset)
qed

lemma saved_distinct: "queue_inv c \<Longrightarrow> distinct (map le_ID (saved_leases c))"
  using saved_ids queue_inv_distinct mset_eq_imp_distinct_iff by blast

lemma saved_mem:
  assumes inv: "queue_inv c" and l: "l \<in> set (saved_leases c)"
  shows "gm_get (cp_leases c) (le_ID l) = Some l"
proof -
  from l have "(le_ID l, l) \<in> set (map (\<lambda>l. (le_ID l, l)) (map snd (cp_leases c)))"
    by (force simp: saved_leases_def)
  then show ?thesis by (simp only: keyed_leases [OF inv] gm_get_mem [OF queue_inv_distinct [OF inv]])
qed

lemma assigned_ids_mem:
  assumes inv: "queue_inv c"
  shows "i \<in> set (assigned_ids c) \<longleftrightarrow> (\<exists>l. gm_get (cp_leases c) i = Some l \<and> le_State l = LeaseAssigned)"
proof
  assume "i \<in> set (assigned_ids c)"
  then show "\<exists>l. gm_get (cp_leases c) i = Some l \<and> le_State l = LeaseAssigned"
    using saved_mem [OF inv] by (auto simp: assigned_ids_def)
next
  assume "\<exists>l. gm_get (cp_leases c) i = Some l \<and> le_State l = LeaseAssigned"
  then obtain l where l: "gm_get (cp_leases c) i = Some l" "le_State l = LeaseAssigned" by blast
  then have "gm_get (map (\<lambda>l. (le_ID l, l)) (saved_leases c)) i = Some l" using saved_get [OF inv, of id] by simp
  then have "l \<in> set (saved_leases c)" "le_ID l = i" by (auto dest!: map_of_SomeD)
  with l(2) show "i \<in> set (assigned_ids c)" by (force simp: assigned_ids_def)
qed

lemma reclaim_State:
  "le_State (reclaim l) = (if le_State l = LeaseAssigned then LeasePending else le_State l)"
  by (simp add: reclaim_def)

lemma reload_state:
  assumes inv: "queue_inv c" and st: "all_storable c" and small: "int (cp_nextID c) < 2 ^ 63"
  shows "restore t (snapshot_of c) = Inr \<lparr>cp_heartbeatTimeout = t, cp_workers = [],
     cp_leases = map (\<lambda>l. (le_ID l, reclaim l)) (saved_leases c),
     cp_pending = cp_pending c @ sort (assigned_ids c), cp_nextID = cp_nextID c\<rparr>"
proof -
  have each: "lease_ok (cp_nextID c) (le_ID l) l \<and> lease_storable l
        \<and> (le_ID l \<in> set (cp_pending c) \<longleftrightarrow> le_State l = LeasePending)" if "l \<in> set (saved_leases c)" for l
    using saved_mem [OF inv that] inv_lease [OF inv] inv_pending [OF inv] st by (auto simp: all_storable_def)
  have "load_leases (snapshot_of c) [] [] (saved_leases c) =
      Inr ([] @ map (\<lambda>l. (le_ID l, reclaim l)) (saved_leases c), [] @ assigned_ids c)"
    unfolding assigned_ids_def using each by (intro load_leases_ok [OF small saved_distinct [OF inv]]) auto
  then have ll: "load_leases (snapshot_of c) [] [] (sn_Leases (snapshot_of c)) =
      Inr (map (\<lambda>l. (le_ID l, reclaim l)) (saved_leases c), assigned_ids c)"
    by (simp add: snapshot_of_def saved_leases_def)
  have sn: "sn_Pending (snapshot_of c) = cp_pending c" "sn_NextID (snapshot_of c) = int (cp_nextID c)" "sn_Version (snapshot_of c) = 3"
    by (simp_all add: snapshot_of_def snapshotVersion_def)
  have "duplicate_pending [] (cp_pending c) = None" using inv by (simp add: duplicate_pending_None queue_inv_def)
  moreover have "list_all (\<lambda>i. gm_get (map (\<lambda>l. (le_ID l, reclaim l)) (saved_leases c)) i \<noteq> None) (cp_pending c)"
    using inv_pending [OF inv] by (auto simp: list_all_iff saved_get [OF inv])
  ultimately show ?thesis by (simp add: restore_def ll sn snapshotVersion_def)
qed

lemma reload_inv:
  assumes inv: "queue_inv c"
  shows "cp_inv \<lparr>cp_heartbeatTimeout = t, cp_workers = [], cp_leases = map (\<lambda>l. (le_ID l, reclaim l)) (saved_leases c),
     cp_pending = cp_pending c @ sort (assigned_ids c), cp_nextID = cp_nextID c\<rparr>" (is "cp_inv ?c")
proof -
  have get: "gm_get (cp_leases ?c) i = map_option reclaim (gm_get (cp_leases c) i)" for i by (simp add: saved_get [OF inv])
  have keys: "distinct (gm_keys (cp_leases ?c))" using saved_distinct [OF inv] by (simp add: comp_def)
  have "distinct (assigned_ids c)" using saved_distinct [OF inv] by (simp add: assigned_ids_def distinct_map_filter)
  moreover have "i \<notin> set (assigned_ids c)" if "i \<in> set (cp_pending c)" for i
    using that unfolding assigned_ids_mem [OF inv] inv_pending [OF inv] by auto
  moreover have "distinct (cp_pending c)" using inv unfolding queue_inv_def by blast
  ultimately have pend: "distinct (cp_pending ?c)" by auto
  have ok: "lease_ok (cp_nextID c) i (reclaim l)" if "gm_get (cp_leases c) i = Some l" for i l
    using inv_lease [OF inv that] by (auto simp: lease_ok_def reclaim_def lease_state_ok_def)
  have q: "i \<in> set (cp_pending ?c) \<longleftrightarrow> (\<exists>l. gm_get (cp_leases ?c) i = Some l \<and> le_State l = LeasePending)" for i
    unfolding get using inv_pending [OF inv, of i] assigned_ids_mem [OF inv, of i] by (auto simp: reclaim_State)
  have na: "le_State l \<noteq> LeaseAssigned" if "gm_get (cp_leases ?c) i = Some l" for i l
    using that unfolding get by (auto simp: reclaim_State split: if_splits)
  have "queue_inv ?c" unfolding queue_inv_def using keys pend ok q by (auto simp: saved_get [OF inv])
  moreover have "worker_inv {} ?c" unfolding worker_inv_def using na by auto
  ultimately show ?thesis by (simp add: cp_inv_def)
qed

lemma load_timeout:
  "restore t sn =
     (case restore s sn of Inl e \<Rightarrow> Inl e | Inr c \<Rightarrow> Inr (c\<lparr>cp_heartbeatTimeout := t\<rparr>))"
  by (simp add: restore_def split: option.split sum.split prod.split)

section \<open>Properties\<close>

text \<open>
  C14: whatever sequence of operations the coordinator has served, with a clock that does
  not stand at the zero time and fewer than \<open>2 ^ 63\<close> leases, consider a Save that reports
  success. If the text of the snapshot is at most 64 MiB long and decodes to the document it
  was made from, the next process accepts it: the leases are the same except that assigned ones
  are pending again, the queue is the old queue followed by the reclaimed leases in order of
  their identifiers, no worker is registered, and the coordinator's invariant holds, so
  every lease that is not finished is queued exactly once. If the text is longer, the next
  process refuses it, although Save reported success.
\<close>

theorem snapshot_round_trip:
  assumes c: "c = plane_after t ops" and clock: "list_all clock_ok ops" and small: "int (cp_nextID c) < 2 ^ 63"
    and enc: "marshal (snapshot_of c) = Some data" and json: "decode data = Some (snapshot_of c)"
    and saved: "Save marshal env path f c = (None, f')"
  shows "if length data \<le> snapshotLimit
     then \<exists>c'. LoadControlPlane decode False t' f' = Inr c' \<and> cp_inv c' \<and> cp_workers c' = [] \<and> cp_nextID c' = cp_nextID c
       \<and> (\<forall>i. LeaseStatus i c' = map_option reclaim (LeaseStatus i c))
       \<and> (\<exists>again. cp_pending c' = cp_pending c @ again \<and> sorted again
            \<and> (\<forall>i. i \<in> set again \<longleftrightarrow> (\<exists>l. LeaseStatus i c = Some l \<and> le_State l = LeaseAssigned)))
     else LoadControlPlane decode False t' f' = Inl SnapshotTooLarge"
proof -
  have inv: "queue_inv c" using plane_after_inv [of ops t] by (simp add: c cp_inv_def)
  have st: "all_storable c" unfolding c by (rule plane_after_storable [OF clock])
  have f': "f' = Bytes data" using Save_None [OF saved] enc by simp
  show ?thesis
    using reload_state [OF inv st small, of t'] reload_inv [OF inv, of t'] assigned_ids_mem [OF inv] json
    by (auto simp: f' Load_Bytes saved_get [OF inv] LeaseStatus_def intro: exI [of _ "sort (assigned_ids c)"])
qed

definition queued_assigned :: snapshot where
  "queued_assigned = \<lparr>sn_Version = 3, sn_NextID = 1,
     sn_Leases = [(new_lease ''lease-1'' ''build'' [] [] [] [] 0)\<lparr>le_State := LeaseAssigned, le_Worker := ''w1''\<rparr>],
     sn_Pending = [''lease-1'']\<rparr>"

text \<open>
  A snapshot in which an assigned lease is also listed in the queue passes every
  check of the loader although the lease is neither pending nor a duplicate, and the
  restored queue then holds it twice, so the queue invariant does not hold.
\<close>

lemma queued_assigned_accepted:
  "\<exists>c. restore t queued_assigned = Inr c \<and> cp_pending c = [''lease-1'', ''lease-1''] \<and> \<not> queue_inv c"
proof -
  have "(case restore 0 queued_assigned of Inl e \<Rightarrow> [] | Inr c \<Rightarrow> cp_pending c) = [''lease-1'', ''lease-1'']"
    by code_simp
  then show ?thesis by (auto simp: queue_inv_def load_timeout [of t _ 0] split: sum.splits)
qed

text \<open>A codec for one document, enough to exercise the round trip.\<close>

definition demo_marshal :: "snapshot \<Rightarrow> string option" where
  "demo_marshal sn = (if sn = snapshot_of (plane_after 10 demo_ops) then Some ''{}'' else None)"

definition demo_decode :: "string \<Rightarrow> snapshot option" where
  "demo_decode data = (if data = ''{}'' then Some (snapshot_of (plane_after 10 demo_ops)) else None)"

definition quiet_save :: save_env where
  "quiet_save = \<lparr>sv_mkdir_fails = False, sv_lstat_fails = False, sv_write = WriteOk\<rparr>"

theorem snapshot_round_trip_witness:
  "cp_pending (plane_after 10 demo_ops) = [''lease-1'']
   \<and> (\<exists>c'. LoadControlPlane demo_decode False 5 (snd (Save demo_marshal quiet_save ''/s'' NoFile (plane_after 10 demo_ops)))
        = Inr c' \<and> cp_inv c' \<and> ''lease-1'' = hd (cp_pending c') \<and> ''lease-2'' \<in> set (cp_pending c'))"
proof -
  let ?c = "plane_after 10 demo_ops"
  have f: "list_all clock_ok demo_ops" "int (cp_nextID ?c) < 2 ^ 63" "cp_pending ?c = [''lease-1'']"
    "map_option le_State (LeaseStatus ''lease-2'' ?c) = Some LeaseAssigned" by code_simp+
  have m: "demo_marshal (snapshot_of ?c) = Some ''{}''" "demo_decode ''{}'' = Some (snapshot_of ?c)"
    by (simp_all add: demo_marshal_def demo_decode_def)
  have s: "Save demo_marshal quiet_save ''/s'' NoFile ?c = (None, Bytes ''{}'')"
    by (simp add: Save_def m quiet_save_def)
  have l: "length ''{}'' \<le> snapshotLimit" by (simp add: snapshotLimit_def)
  obtain l where "LeaseStatus ''lease-2'' ?c = Some l" "le_State l = LeaseAssigned" using f(4) by auto
  with snapshot_round_trip [where c = ?c and marshal = demo_marshal and decode = demo_decode and data = "''{}''",
      OF refl f(1,2) m s, of 5] f(3) l s show ?thesis by auto
qed

end
