(* ===== verification/Go_Text.thy ===== *)
theory Go_Text
  imports Prelude "HOL-Library.Word"
begin

text \<open>
  UTF-8 as \<^verbatim>\<open>unicode/utf8\<close> decodes it, what a Go string becomes when \<^verbatim>\<open>encoding/json\<close>
  writes it and reads it back (bytes that are not valid UTF-8 are written as the
  replacement character), and \<^verbatim>\<open>hex.EncodeToString\<close>.
\<close>

abbreviation byte :: "char \<Rightarrow> nat" where
  "byte \<equiv> of_char"

abbreviation cont :: "nat \<Rightarrow> nat \<Rightarrow> char \<Rightarrow> bool" where
  "cont lo hi c \<equiv> lo \<le> byte c \<and> byte c \<le> hi"

text \<open>The number of bytes of the rune a string starts with, zero where \<^verbatim>\<open>DecodeRune\<close> reports an error.\<close>

definition second_range :: "nat \<Rightarrow> nat \<times> nat" where
  "second_range b =
     (if b = 0xE0 then (0xA0, 0xBF) else if b = 0xED then (0x80, 0x9F)
      else if b = 0xF0 then (0x90, 0xBF) else if b = 0xF4 then (0x80, 0x8F) else (0x80, 0xBF))"

definition rune_len :: "string \<Rightarrow> nat" where
  "rune_len s =
     (case s of
        [] \<Rightarrow> 0
      | a # s1 \<Rightarrow>
          if byte a < 0x80 then 1
          else if byte a < 0xC2 \<or> 0xF4 < byte a then 0
          else (case s1 of
             [] \<Rightarrow> 0
           | b # s2 \<Rightarrow>
               if \<not> cont (fst (second_range (byte a))) (snd (second_range (byte a))) b then 0
               else if byte a < 0xE0 then 2
               else (case s2 of
                  [] \<Rightarrow> 0
                | c # s3 \<Rightarrow>
                    if \<not> cont 0x80 0xBF c then 0
                    else if byte a < 0xF0 then 3
                    else (case s3 of [] \<Rightarrow> 0 | d # _ \<Rightarrow> if cont 0x80 0xBF d then 4 else 0))))"

lemma rune_len_le: "rune_len s \<le> length s"
  by (auto simp: rune_len_def split: list.splits)

function json_round_trip :: "string \<Rightarrow> string" where
  "json_round_trip s =
     (if s = [] then []
      else if rune_len s = 0 then [CHR 0xEF, CHR 0xBF, CHR 0xBD] @ json_round_trip (tl s)
      else take (rune_len s) s @ json_round_trip (drop (rune_len s) s))"
  by pat_completeness auto
termination
  by (relation "measure length") auto

declare json_round_trip.simps [simp del]

function utf8_valid :: "string \<Rightarrow> bool" where
  "utf8_valid s =
     (if s = [] then True else if rune_len s = 0 then False else utf8_valid (drop (rune_len s) s))"
  by pat_completeness auto
termination
  by (relation "measure length") auto

declare utf8_valid.simps [simp del]

lemma json_round_trip_valid: "utf8_valid s \<Longrightarrow> json_round_trip s = s"
proof (induction s rule: utf8_valid.induct)
  case (1 s)
  show ?case
  proof (cases "s = []")
    case True
    then show ?thesis by (simp add: json_round_trip.simps [of "[]"])
  next
    case False
    with "1.prems" have "rune_len s \<noteq> 0" "utf8_valid (drop (rune_len s) s)"
      using utf8_valid.simps [of s] by (auto split: if_splits)
    then show ?thesis using "1.IH" False json_round_trip.simps [of s] by simp
  qed
qed

lemma ascii_valid: "list_all (\<lambda>c. byte c < 0x80) s \<Longrightarrow> utf8_valid s"
proof (induction s)
  case Nil
  show ?case using utf8_valid.simps [of "[]"] by simp
next
  case (Cons a s)
  then show ?case using utf8_valid.simps [of "a # s"] by (simp add: rune_len_def)
qed

section \<open>The strings package\<close>

definition has_suffix :: "string \<Rightarrow> string \<Rightarrow> bool" where
  "has_suffix s p \<longleftrightarrow> has_prefix (rev s) (rev p)"

fun contains :: "string \<Rightarrow> string \<Rightarrow> bool" where
  "contains [] p = (p = [])"
| "contains (c # cs) p = (has_prefix (c # cs) p \<or> contains cs p)"

fun trim_left :: "nat \<Rightarrow> string \<Rightarrow> string" where
  "trim_left 0 s = s"
| "trim_left (Suc n) s =
     (case List.find (has_prefix s) spaces of None \<Rightarrow> s | Some p \<Rightarrow> trim_left n (drop (length p) s))"

fun trim_right :: "nat \<Rightarrow> string \<Rightarrow> string" where
  "trim_right 0 s = s"
| "trim_right (Suc n) s =
     (case List.find (has_suffix s) spaces of None \<Rightarrow> s | Some p \<Rightarrow> trim_right n (take (length s - length p) s))"

definition TrimSpace :: "string \<Rightarrow> string" where
  "TrimSpace s = (let t = trim_left (length s) s in trim_right (length t) t)"

text \<open>
  \<^verbatim>\<open>strings.ToLower\<close> as far as comparisons with ASCII text can tell: besides the ASCII letters
  only the Kelvin sign and the dotted capital I have an ASCII lower case; every other rune
  keeps a form outside ASCII.
\<close>

function to_lower :: "string \<Rightarrow> string" where
  "to_lower s =
     (if s = [] then []
      else if has_prefix s [CHR 0xE2, CHR 0x84, CHR 0xAA] then CHR ''k'' # to_lower (drop 3 s)
      else if has_prefix s [CHR 0xC4, CHR 0xB0] then CHR ''i'' # to_lower (drop 2 s)
      else (if is_upper (hd s) then char_of (byte (hd s) + 32) else hd s) # to_lower (tl s))"
  by pat_completeness auto
termination
  by (relation "measure length") auto

declare to_lower.simps [simp del]

section \<open>Hexadecimal text\<close>

definition hex_digit :: "nat \<Rightarrow> char" where
  "hex_digit n = char_of (if n < 10 then 48 + n else 87 + n)"

definition hex_byte :: "8 word \<Rightarrow> string" where
  "hex_byte w = [hex_digit (unat w div 16), hex_digit (unat w mod 16)]"

definition hex_encode :: "8 word list \<Rightarrow> string" where
  "hex_encode ws = concat (map hex_byte ws)"

lemma byte_hex_digit: "n < 16 \<Longrightarrow> byte (hex_digit n) = (if n < 10 then 48 + n else 87 + n)"
  by (simp add: hex_digit_def)

lemma byte_hex_digit_inject: "m < 16 \<Longrightarrow> n < 16 \<Longrightarrow> byte (hex_digit m) = byte (hex_digit n) \<longleftrightarrow> m = n"
  by (simp only: byte_hex_digit) (auto split: if_splits)

lemma hex_digit_inject: "m < 16 \<Longrightarrow> n < 16 \<Longrightarrow> hex_digit m = hex_digit n \<longleftrightarrow> m = n"
  by (metis (full_types) byte_hex_digit_inject)

lemma unat_div16: "unat (w :: 8 word) div 16 < 16"
  using unsigned_less [where 'a = nat and w = w] by (simp add: less_mult_imp_div_less)

lemma hex_byte_inject: "hex_byte v = hex_byte w \<longleftrightarrow> v = w"
proof
  assume "hex_byte v = hex_byte w"
  then have "unat v div 16 = unat w div 16" "unat v mod 16 = unat w mod 16"
    by (simp_all add: hex_byte_def hex_digit_inject unat_div16)
  then have "unat v = unat w" by (metis div_mult_mod_eq)
  then show "v = w" by (rule unsigned_word_eqI)
qed simp

lemma hex_encode_inject [simp]: "hex_encode vs = hex_encode ws \<longleftrightarrow> vs = ws"
proof
  show "hex_encode vs = hex_encode ws \<Longrightarrow> vs = ws"
  proof (induction vs arbitrary: ws)
    case Nil
    then show ?case by (cases ws) (auto simp: hex_encode_def hex_byte_def)
  next
    case (Cons v vs)
    then obtain w ws' where ws: "ws = w # ws'" by (cases ws) (auto simp: hex_encode_def hex_byte_def)
    with Cons.prems have "hex_byte v = hex_byte w" "hex_encode vs = hex_encode ws'"
      by (auto simp: hex_encode_def hex_byte_def)
    with Cons.IH ws show ?case by (simp add: hex_byte_inject)
  qed
qed simp

lemma hex_digit_ascii: "n < 16 \<Longrightarrow> byte (hex_digit n) < 0x80"
  by (simp only: byte_hex_digit) (simp split: if_split)

lemma hex_encode_ascii: "list_all (\<lambda>c. byte c < 0x80) (hex_encode ws)"
  by (auto simp: hex_encode_def hex_byte_def list_all_iff hex_digit_ascii unat_div16)

end
