(* ===== verification/Audit_Chain.thy ===== *)
theory Audit_Chain
  imports Go_Text
begin

text \<open>
  The hash-chained lifecycle journal of \<^verbatim>\<open>internal/control/audit.go\<close>. The digest of a
  payload (SHA-256 of its JSON text) and the length of the JSON text of an event are
  parameters. The file is a list of lines; what a failed write leaves behind is part of
  the model. Shown: the journal a process writes is accepted in full by the next one, two
  accepted journals with the same tail hash are equal, and what the chain does not detect.
\<close>

section \<open>Events and files\<close>

record auditPayload =
  ap_Version :: int
  ap_Sequence :: "64 word"
  ap_Time :: int
  ap_Actor :: string
  ap_Action :: string
  ap_Subject :: string
  ap_PreviousHash :: string

record AuditEvent =
  ae_Version :: int
  ae_Sequence :: "64 word"
  ae_Time :: int
  ae_Actor :: string
  ae_Action :: string
  ae_Subject :: string
  ae_PreviousHash :: string
  ae_Hash :: string

record AuditJournal =
  aj_sequence :: "64 word"
  aj_lastHash :: string

text \<open>
  A line with its length in bytes: one terminated event, or text that is not (cut short by
  a failed write, or with something glued to it).
\<close>

datatype audit_line = Event nat AuditEvent | Damaged nat

datatype audit_file = Absent | Symlink | Lines "audit_line list"

datatype audit_error =
    NoPath | InvalidText string | NotRegular | Missing | TooLarge | LineTooLong nat | Malformed nat | BrokenChain nat | AuditIO

definition auditVersion :: int where
  "auditVersion = 1"

definition maxAuditFileBytes :: int where
  "maxAuditFileBytes = 67108864"

definition maxAuditLineBytes :: int where
  "maxAuditLineBytes = 65536"

definition control_char :: "char \<Rightarrow> bool" where
  "control_char c \<longleftrightarrow> byte c < 0x20 \<or> byte c = 0x7f"

definition validateAuditText :: "string \<Rightarrow> string \<Rightarrow> audit_error option" where
  "validateAuditText v field =
     (if v = [] \<or> 256 < length v \<or> list_ex control_char v then Some (InvalidText field) else None)"

definition payload_of :: "AuditEvent \<Rightarrow> auditPayload" where
  "payload_of e = \<lparr>ap_Version = ae_Version e, ap_Sequence = ae_Sequence e, ap_Time = ae_Time e, ap_Actor = ae_Actor e,
     ap_Action = ae_Action e, ap_Subject = ae_Subject e, ap_PreviousHash = ae_PreviousHash e\<rparr>"

definition auditEventHash :: "(auditPayload \<Rightarrow> 8 word list) \<Rightarrow> AuditEvent \<Rightarrow> string" where
  "auditEventHash digest e = ''sha256:'' @ hex_encode (digest (payload_of e))"

section \<open>Verification\<close>

text \<open>The event the decoder returns for the line an event was written to.\<close>

definition decoded :: "AuditEvent \<Rightarrow> AuditEvent" where
  "decoded e = e\<lparr>ae_Actor := json_round_trip (ae_Actor e), ae_Action := json_round_trip (ae_Action e),
     ae_Subject := json_round_trip (ae_Subject e), ae_PreviousHash := json_round_trip (ae_PreviousHash e),
     ae_Hash := json_round_trip (ae_Hash e)\<rparr>"

definition chain_ok :: "(auditPayload \<Rightarrow> 8 word list) \<Rightarrow> AuditEvent list \<Rightarrow> string \<Rightarrow> AuditEvent \<Rightarrow> bool" where
  "chain_ok digest events previous e \<longleftrightarrow>
     ae_Version e = auditVersion \<and> ae_Sequence e = of_nat (length events + 1) \<and> ae_PreviousHash e = previous
     \<and> ae_Time e \<noteq> 0 \<and> validateAuditText (ae_Actor e) ''actor'' = None
     \<and> validateAuditText (ae_Action e) ''action'' = None \<and> validateAuditText (ae_Subject e) ''subject'' = None
     \<and> ae_Hash e = auditEventHash digest e"

fun verify_lines ::
  "(auditPayload \<Rightarrow> 8 word list) \<Rightarrow> AuditEvent list \<Rightarrow> string \<Rightarrow> nat \<Rightarrow> audit_line list \<Rightarrow> audit_error + AuditEvent list" where
  "verify_lines digest events previous k [] = Inr events"
| "verify_lines digest events previous k (Damaged n # ls) =
     (if maxAuditLineBytes < int n then Inl (LineTooLong k) else Inl (Malformed k))"
| "verify_lines digest events previous k (Event n e # ls) =
     (if maxAuditLineBytes < int n then Inl (LineTooLong k)
      else if \<not> chain_ok digest events previous (decoded e) then Inl (BrokenChain k)
      else verify_lines digest (events @ [decoded e]) (ae_Hash (decoded e)) (Suc k) ls)"

fun line_bytes :: "audit_line \<Rightarrow> nat" where
  "line_bytes (Event n e) = n"
| "line_bytes (Damaged n) = n"

definition file_bytes :: "audit_line list \<Rightarrow> nat" where
  "file_bytes ls = sum_list (map line_bytes ls)"

definition VerifyAuditJournal :: "(auditPayload \<Rightarrow> 8 word list) \<Rightarrow> audit_file \<Rightarrow> audit_error + AuditEvent list" where
  "VerifyAuditJournal digest f =
     (case f of
        Absent \<Rightarrow> Inl Missing
      | Symlink \<Rightarrow> Inl NotRegular
      | Lines ls \<Rightarrow> if maxAuditFileBytes < int (file_bytes ls) then Inl TooLarge else verify_lines digest [] [] 1 ls)"

definition tail_of :: "AuditEvent list \<Rightarrow> AuditJournal" where
  "tail_of es = (if es = [] then \<lparr>aj_sequence = 0, aj_lastHash = []\<rparr>
     else \<lparr>aj_sequence = ae_Sequence (last es), aj_lastHash = ae_Hash (last es)\<rparr>)"

definition OpenAuditJournal :: "(auditPayload \<Rightarrow> 8 word list) \<Rightarrow> string \<Rightarrow> audit_file \<Rightarrow> audit_error + AuditJournal" where
  "OpenAuditJournal digest path f =
     (if blank path then Inl NoPath else case f of
        Symlink \<Rightarrow> Inl NotRegular
      | Absent \<Rightarrow> Inr \<lparr>aj_sequence = 0, aj_lastHash = []\<rparr>
      | Lines ls \<Rightarrow> (case VerifyAuditJournal digest f of Inl e \<Rightarrow> Inl e | Inr es \<Rightarrow> Inr (tail_of es)))"

section \<open>Appending\<close>

text \<open>
  How the calls of one append end: a call before the write fails (encoding, creating the
  directory, opening the file), \<^verbatim>\<open>Write\<close> stops after some bytes of the line, \<^verbatim>\<open>Sync\<close> or
  \<^verbatim>\<open>Close\<close> fails after the whole line was written, or all succeed.
\<close>

datatype append_fault = AppendOk | NotWritten | CutShort nat | NotSynced

definition glue :: "audit_line list \<Rightarrow> audit_line \<Rightarrow> audit_line list" where
  "glue ls l = (case rev ls of Damaged n # _ \<Rightarrow> butlast ls @ [Damaged (n + line_bytes l)] | _ \<Rightarrow> ls @ [l])"

definition file_lines :: "audit_file \<Rightarrow> audit_line list" where
  "file_lines f = (case f of Lines ls \<Rightarrow> ls | _ \<Rightarrow> [])"

definition next_event :: "(auditPayload \<Rightarrow> 8 word list) \<Rightarrow> int \<Rightarrow> string \<Rightarrow> string \<Rightarrow> string \<Rightarrow> AuditJournal \<Rightarrow> AuditEvent" where
  "next_event digest now actor action subject j =
     (let e = \<lparr>ae_Version = auditVersion, ae_Sequence = aj_sequence j + 1, ae_Time = now, ae_Actor = actor,
               ae_Action = action, ae_Subject = subject, ae_PreviousHash = aj_lastHash j, ae_Hash = []\<rparr>
      in e\<lparr>ae_Hash := auditEventHash digest e\<rparr>)"

definition Append ::
  "(auditPayload \<Rightarrow> 8 word list) \<Rightarrow> (AuditEvent \<Rightarrow> nat) \<Rightarrow> append_fault \<Rightarrow> int \<Rightarrow> string \<Rightarrow> string \<Rightarrow> string \<Rightarrow>
     audit_file \<times> AuditJournal \<Rightarrow> (audit_error + AuditEvent) \<times> audit_file \<times> AuditJournal" where
  "Append digest size_of fault now actor action subject s =
     (case validateAuditText actor ''actor'' of Some e \<Rightarrow> (Inl e, s) | None \<Rightarrow>
      (case validateAuditText action ''action'' of Some e \<Rightarrow> (Inl e, s) | None \<Rightarrow>
       (case validateAuditText subject ''subject'' of Some e \<Rightarrow> (Inl e, s) | None \<Rightarrow>
        (let f = fst s; j = snd s; e = next_event digest now actor action subject j;
             written = Lines (glue (file_lines f) (Event (size_of e) e))
         in if fault = NotWritten then (Inl AuditIO, s)
            else if f = Symlink then (Inl NotRegular, s)
            else case fault of
                   AppendOk \<Rightarrow> (Inr e, written, \<lparr>aj_sequence = ae_Sequence e, aj_lastHash = ae_Hash e\<rparr>)
                 | NotSynced \<Rightarrow> (Inl AuditIO, written, j)
                 | CutShort n \<Rightarrow>
                     (Inl AuditIO, Lines (if n = 0 then file_lines f else glue (file_lines f) (Damaged n)), j)
                 | NotWritten \<Rightarrow> (Inl AuditIO, s)))))"

section \<open>Chains\<close>

text \<open>The events of an accepted journal, without the line structure.\<close>

fun chain_from :: "(auditPayload \<Rightarrow> 8 word list) \<Rightarrow> AuditEvent list \<Rightarrow> string \<Rightarrow> AuditEvent list \<Rightarrow> bool" where
  "chain_from digest pre previous [] = True"
| "chain_from digest pre previous (e # es) =
     (chain_ok digest pre previous e \<and> chain_from digest (pre @ [e]) (ae_Hash e) es)"

definition head_hash :: "string \<Rightarrow> AuditEvent list \<Rightarrow> string" where
  "head_hash h es = (if es = [] then h else ae_Hash (last es))"

lemma chain_from_append:
  "chain_from digest pre h (xs @ ys) \<longleftrightarrow> chain_from digest pre h xs \<and> chain_from digest (pre @ xs) (head_hash h xs) ys"
  by (induction xs arbitrary: pre h) (auto simp: head_hash_def)

lemma verify_lines_chain:
  "verify_lines digest pre h k ls = Inr es \<Longrightarrow>
     \<exists>xs. es = pre @ xs \<and> chain_from digest pre h xs \<and> length xs = length ls"
proof (induction digest pre h k ls rule: verify_lines.induct)
  case (3 digest events previous k n e ls)
  then obtain xs where "es = (events @ [decoded e]) @ xs" "chain_from digest (events @ [decoded e]) (ae_Hash (decoded e)) xs"
      "length xs = length ls" "chain_ok digest events previous (decoded e)"
    by (auto split: if_splits)
  then show ?case by (intro exI [of _ "decoded e # xs"]) simp
qed (auto split: if_splits)

lemma verify_lines_append:
  "verify_lines digest pre h k (ls @ ms) =
     (case verify_lines digest pre h k ls of
        Inl e \<Rightarrow> Inl e
      | Inr es \<Rightarrow> verify_lines digest es (head_hash h (drop (length pre) es)) (k + length ls) ms)"
proof (induction digest pre h k ls rule: verify_lines.induct)
  case (3 digest events previous k n e ls)
  show ?case
  proof (cases "verify_lines digest (events @ [decoded e]) (ae_Hash (decoded e)) (Suc k) ls")
    case (Inl a)
    with 3 show ?thesis by simp
  next
    case (Inr es)
    then obtain xs where "es = (events @ [decoded e]) @ xs" using verify_lines_chain by blast
    then have "head_hash (ae_Hash (decoded e)) (drop (length (events @ [decoded e])) es) =
        head_hash previous (drop (length events) es)" by (auto simp: head_hash_def)
    with 3 Inr show ?thesis by simp
  qed
qed (auto simp: head_hash_def)

lemma verified_lines:
  assumes "VerifyAuditJournal digest f = Inr es"
  obtains ls where "f = Lines ls" "verify_lines digest [] [] 1 ls = Inr es" "int (file_bytes ls) \<le> maxAuditFileBytes"
  using assms by (cases f) (auto simp: VerifyAuditJournal_def split: if_splits)

lemma verified_chain: "VerifyAuditJournal digest f = Inr es \<Longrightarrow> chain_from digest [] [] es"
  using verify_lines_chain by (elim verified_lines) fastforce

lemma chain_ok_hash_nonempty: "chain_ok digest pre h e \<Longrightarrow> ae_Hash e \<noteq> []"
  by (simp add: chain_ok_def auditEventHash_def)

lemma chain_unique:
  assumes "chain_from digest [] [] xs" "chain_from digest [] [] ys" "head_hash [] xs = head_hash [] ys"
    and "inj_on digest (payload_of ` (set xs \<union> set ys))"
  shows "xs = ys"
  using assms
proof (induction xs arbitrary: ys rule: rev_induct)
  case Nil
  show ?case
  proof (cases ys rule: rev_cases)
    case (snoc ys' y)
    then have "chain_ok digest ys' (head_hash [] ys') y" using Nil.prems(2) by (simp add: chain_from_append)
    then show ?thesis using Nil.prems(3) snoc by (simp add: head_hash_def chain_ok_def auditEventHash_def)
  qed simp
next
  case (snoc x xs)
  have x: "chain_from digest [] [] xs" "chain_ok digest xs (head_hash [] xs) x"
    using snoc.prems(1) by (auto simp: chain_from_append)
  show ?case
  proof (cases ys rule: rev_cases)
    case Nil
    then show ?thesis using snoc.prems(3) chain_ok_hash_nonempty [OF x(2)] by (simp add: head_hash_def)
  next
    case ys: (snoc ys' y)
    then have y: "chain_from digest [] [] ys'" "chain_ok digest ys' (head_hash [] ys') y"
      using snoc.prems(2) by (auto simp: chain_from_append)
    have h: "ae_Hash x = ae_Hash y" using snoc.prems(3) ys by (simp add: head_hash_def)
    then have "digest (payload_of x) = digest (payload_of y)"
      using x(2) y(2) by (simp add: chain_ok_def auditEventHash_def)
    then have p: "payload_of x = payload_of y"
      using snoc.prems(4) ys by (elim inj_onD) auto
    have "x = y" using p h by (cases x, cases y) (simp add: payload_of_def)
    moreover have "xs = ys'"
    proof (rule snoc.IH)
      show "head_hash [] xs = head_hash [] ys'" using p x(2) y(2) by (simp add: chain_ok_def payload_of_def)
      show "inj_on digest (payload_of ` (set xs \<union> set ys'))"
        using snoc.prems(4) ys by (elim inj_on_subset) auto
    qed (use x y in auto)
    ultimately show ?thesis using ys by simp
  qed
qed

section \<open>Histories of one process\<close>

record audit_request =
  ar_now :: int
  ar_actor :: string
  ar_action :: string
  ar_subject :: string

fun audit_run :: "(auditPayload \<Rightarrow> 8 word list) \<Rightarrow> (AuditEvent \<Rightarrow> nat) \<Rightarrow> audit_request list \<Rightarrow>
    audit_file \<times> AuditJournal \<Rightarrow> audit_file \<times> AuditJournal" where
  "audit_run digest size_of [] s = s"
| "audit_run digest size_of (r # rs) s =
     audit_run digest size_of rs
       (snd (Append digest size_of AppendOk (ar_now r) (ar_actor r) (ar_action r) (ar_subject r) s))"

definition accepted :: "audit_request \<Rightarrow> bool" where
  "accepted r \<longleftrightarrow> validateAuditText (ar_actor r) ''actor'' = None
     \<and> validateAuditText (ar_action r) ''action'' = None \<and> validateAuditText (ar_subject r) ''subject'' = None"

definition proper :: "audit_request \<Rightarrow> bool" where
  "proper r \<longleftrightarrow> ar_now r \<noteq> 0 \<and> utf8_valid (ar_actor r) \<and> utf8_valid (ar_action r) \<and> utf8_valid (ar_subject r)"

abbreviation request_of :: "AuditEvent \<Rightarrow> string \<times> string \<times> string" where
  "request_of e \<equiv> (ae_Actor e, ae_Action e, ae_Subject e)"

abbreviation request_text :: "audit_request \<Rightarrow> string \<times> string \<times> string" where
  "request_text r \<equiv> (ar_actor r, ar_action r, ar_subject r)"

lemma hash_text_kept: "json_round_trip (auditEventHash digest e) = auditEventHash digest e"
  unfolding auditEventHash_def
  by (intro json_round_trip_valid ascii_valid) (use hex_encode_ascii in auto)

text \<open>The journal holds the tail of the events \<open>es\<close> of the file.\<close>

definition in_step :: "(auditPayload \<Rightarrow> 8 word list) \<Rightarrow> AuditEvent list \<Rightarrow> audit_line list \<Rightarrow> AuditJournal \<Rightarrow> bool" where
  "in_step digest es ls j \<longleftrightarrow> verify_lines digest [] [] 1 ls = Inr es \<and> aj_sequence j = of_nat (length es)
     \<and> aj_lastHash j = head_hash [] es"

lemma verified_no_damage: "verify_lines digest pre h k ls = Inr es \<Longrightarrow> Damaged n \<notin> set ls"
  by (induction digest pre h k ls rule: verify_lines.induct) (auto split: if_splits)

lemma glue_verified: "verify_lines digest pre h k ls = Inr es \<Longrightarrow> glue ls l = ls @ [l]"
  using verified_no_damage [of digest pre h k ls es]
  by (cases ls rule: rev_cases) (auto simp: glue_def split: audit_line.split)

lemma last_sequence:
  "chain_from digest [] [] es \<Longrightarrow> es \<noteq> [] \<Longrightarrow> ae_Sequence (last es) = of_nat (length es)"
  by (cases es rule: rev_cases) (auto simp: chain_from_append chain_ok_def)

lemma tail_in_step:
  assumes "verify_lines digest [] [] 1 ls = Inr es" shows "in_step digest es ls j \<longleftrightarrow> j = tail_of es"
proof -
  have "chain_from digest [] [] es" using verify_lines_chain [OF assms] by auto
  from last_sequence [OF this] assms show ?thesis
    by (cases j) (auto simp: in_step_def tail_of_def head_hash_def)
qed

lemma head_hash_kept:
  assumes "chain_from digest [] [] es" shows "json_round_trip (head_hash [] es) = head_hash [] es"
proof (cases es rule: rev_cases)
  case Nil
  then show ?thesis by (simp add: head_hash_def json_round_trip.simps [of "[]"])
next
  case (snoc es' e)
  with assms have "ae_Hash e = auditEventHash digest e" by (simp add: chain_from_append chain_ok_def)
  with snoc hash_text_kept show ?thesis by (simp add: head_hash_def)
qed

lemma next_event_ok:
  assumes st: "in_step digest es ls j" and r: "proper r" "accepted r"
    and e: "e = next_event digest (ar_now r) (ar_actor r) (ar_action r) (ar_subject r) j"
  shows "decoded e = e \<and> chain_ok digest es (head_hash [] es) e"
proof -
  have "chain_from digest [] [] es" using st verify_lines_chain by (fastforce simp: in_step_def)
  then have h: "json_round_trip (aj_lastHash j) = aj_lastHash j" using st head_hash_kept by (simp add: in_step_def)
  have d: "decoded e = e"
    using r(1) h hash_text_kept
    by (simp add: e next_event_def Let_def decoded_def proper_def json_round_trip_valid)
  have "ae_Hash e = auditEventHash digest e"
    by (simp add: e next_event_def Let_def auditEventHash_def payload_of_def)
  then have "chain_ok digest es (head_hash [] es) e"
    using st r by (simp add: e next_event_def Let_def chain_ok_def in_step_def proper_def accepted_def add.commute)
  with d show ?thesis ..
qed

definition short_lines :: "audit_file \<Rightarrow> bool" where
  "short_lines f \<longleftrightarrow> (\<forall>l\<in>set (file_lines f). int (line_bytes l) \<le> maxAuditLineBytes)"

lemma Append_in_step:
  assumes st: "in_step digest es ls j" and r: "proper r"
    and len: "short_lines (fst (snd (Append digest size_of AppendOk (ar_now r) (ar_actor r) (ar_action r) (ar_subject r) (Lines ls, j))))"
  shows "\<exists>es' ls' j'. snd (Append digest size_of AppendOk (ar_now r) (ar_actor r) (ar_action r) (ar_subject r) (Lines ls, j)) =
      (Lines ls', j') \<and> in_step digest es' ls' j'
      \<and> map request_of es' = map request_of es @ (if accepted r then [request_text r] else [])"
proof (cases "accepted r")
  case False
  then have "snd (Append digest size_of AppendOk (ar_now r) (ar_actor r) (ar_action r) (ar_subject r) (Lines ls, j)) = (Lines ls, j)"
    by (auto simp: Append_def accepted_def split: option.split)
  with st False show ?thesis by auto
next
  case True
  define e where "e = next_event digest (ar_now r) (ar_actor r) (ar_action r) (ar_subject r) j"
  from next_event_ok [OF st r True e_def] have e: "decoded e = e" "chain_ok digest es (head_hash [] es) e" by auto
  have v: "verify_lines digest [] [] 1 ls = Inr es" using st by (simp add: in_step_def)
  have app: "snd (Append digest size_of AppendOk (ar_now r) (ar_actor r) (ar_action r) (ar_subject r) (Lines ls, j)) =
      (Lines (ls @ [Event (size_of e) e]), \<lparr>aj_sequence = ae_Sequence e, aj_lastHash = ae_Hash e\<rparr>)"
    using True glue_verified [OF v] by (simp add: Append_def accepted_def e_def Let_def file_lines_def)
  have "in_step digest (es @ [e]) (ls @ [Event (size_of e) e]) \<lparr>aj_sequence = ae_Sequence e, aj_lastHash = ae_Hash e\<rparr>"
    using v e len app unfolding in_step_def verify_lines_append
    by (simp add: head_hash_def chain_ok_def short_lines_def file_lines_def)
  moreover have "request_of e = request_text r" by (simp add: e_def next_event_def Let_def)
  ultimately show ?thesis using True app by auto
qed

lemma Append_extends:
  assumes "\<forall>n. Damaged n \<notin> set ls"
  shows "\<exists>ls' j'. snd (Append digest size_of AppendOk now a b c (Lines ls, j)) = (Lines ls', j')
     \<and> set ls \<subseteq> set ls' \<and> (\<forall>n. Damaged n \<notin> set ls')"
proof -
  have g: "glue ls l = ls @ [l]" for l
    using assms by (cases ls rule: rev_cases) (auto simp: glue_def split: audit_line.split)
  show ?thesis using assms by (auto simp: Append_def Let_def file_lines_def g split: option.split)
qed

lemma undamaged_grow:
  "(\<forall>n. Damaged n \<notin> set ls) \<Longrightarrow> set ls \<subseteq> set (file_lines (fst (audit_run digest size_of rs (Lines ls, j))))"
proof (induction rs arbitrary: ls j)
  case Nil
  then show ?case by (simp add: file_lines_def)
next
  case (Cons r rs)
  obtain ls' j' where a: "snd (Append digest size_of AppendOk (ar_now r) (ar_actor r) (ar_action r) (ar_subject r) (Lines ls, j))
      = (Lines ls', j')" "set ls \<subseteq> set ls'" "\<forall>n. Damaged n \<notin> set ls'"
    using Append_extends [OF Cons.prems] by blast
  from Cons.IH [OF a(3), of j'] a(1,2) show ?case by auto
qed

lemma audit_run_in_step:
  assumes "list_all proper rs"
  shows "in_step digest es ls j \<Longrightarrow> short_lines (fst (audit_run digest size_of rs (Lines ls, j))) \<Longrightarrow>
    \<exists>es' ls' j'. audit_run digest size_of rs (Lines ls, j) = (Lines ls', j') \<and> in_step digest es' ls' j'
      \<and> map request_of es' = map request_of es @ map request_text (filter accepted rs)"
  using assms(1)
proof (induction rs arbitrary: es ls j)
  case (Cons r rs)
  let ?s = "snd (Append digest size_of AppendOk (ar_now r) (ar_actor r) (ar_action r) (ar_subject r) (Lines ls, j))"
  have "\<forall>n. Damaged n \<notin> set ls"
    using Cons.prems(1) verified_no_damage [of digest "[]" "[]" 1 ls es] by (simp add: in_step_def)
  from Append_extends [OF this] obtain ls0 j0 where "?s = (Lines ls0, j0)" "\<forall>n. Damaged n \<notin> set ls0"
    by blast
  with undamaged_grow [of ls0 digest size_of rs j0] Cons.prems(2) have "short_lines (fst ?s)"
    by (auto simp: short_lines_def file_lines_def)
  from Append_in_step [OF Cons.prems(1) _ this] Cons.prems(3)
  obtain es1 ls1 j1 where 1: "?s = (Lines ls1, j1)" "in_step digest es1 ls1 j1"
      "map request_of es1 = map request_of es @ (if accepted r then [request_text r] else [])" by auto
  from Cons.IH [OF 1(2)] Cons.prems(2,3) 1(1,3) show ?case by fastforce
qed auto

section \<open>Properties\<close>

text \<open>
  C15: a process that opened an accepted journal appends requests whose text is valid
  UTF-8 under a clock that is not the zero time, no system call failing. If the file it
  leaves is within 64 MiB and each of its lines within 64 KiB, the next process accepts the
  journal; its events are the old ones followed by exactly the requests that passed
  validation, in order, and it resumes at the position the writing process had reached.
\<close>

theorem audit_log_complete:
  assumes "VerifyAuditJournal digest f = Inr es" "OpenAuditJournal digest path f = Inr j"
    and "list_all proper rs" and "short_lines (fst (audit_run digest size_of rs (f, j)))"
    and "int (file_bytes (file_lines (fst (audit_run digest size_of rs (f, j))))) \<le> maxAuditFileBytes"
  shows "\<exists>es'. VerifyAuditJournal digest (fst (audit_run digest size_of rs (f, j))) = Inr es'
     \<and> map request_of es' = map request_of es @ map request_text (filter accepted rs)
     \<and> OpenAuditJournal digest path (fst (audit_run digest size_of rs (f, j))) =
         Inr (snd (audit_run digest size_of rs (f, j)))"
proof -
  from assms(1) obtain ls where ls: "f = Lines ls" "verify_lines digest [] [] 1 ls = Inr es"
    by (rule verified_lines)
  have p: "\<not> blank path" and "j = tail_of es"
    using assms(1,2) ls(1) by (auto simp: OpenAuditJournal_def split: if_splits)
  then have "in_step digest es ls j" using tail_in_step [OF ls(2)] by simp
  from audit_run_in_step [OF assms(3) this assms(4) [unfolded ls(1)]] obtain es' ls' j'
    where r: "audit_run digest size_of rs (f, j) = (Lines ls', j')" "in_step digest es' ls' j'"
      "map request_of es' = map request_of es @ map request_text (filter accepted rs)" using ls(1) by auto
  have v: "verify_lines digest [] [] 1 ls' = Inr es'" using r(2) by (simp add: in_step_def)
  have "VerifyAuditJournal digest (Lines ls') = Inr es'"
    using assms(5) v r(1) by (simp add: VerifyAuditJournal_def file_lines_def)
  moreover have "j' = tail_of es'" using tail_in_step [OF v] r(2) by simp
  ultimately show ?thesis using r p by (simp add: OpenAuditJournal_def)
qed

text \<open>
  C16: two accepted journals whose last events carry the same hash hold the same events,
  unless two different payloads among them have the same digest. Whoever keeps the tail
  hash of a journal detects every modification, insertion, deletion and reordering.
\<close>

theorem audit_tail_determines:
  assumes "VerifyAuditJournal digest f = Inr es" "VerifyAuditJournal digest g = Inr es'"
    and "aj_lastHash (tail_of es) = aj_lastHash (tail_of es')"
    and "inj_on digest (payload_of ` (set es \<union> set es'))"
  shows "es = es'"
proof (rule chain_unique)
  show "head_hash [] es = head_hash [] es'"
    using assms(3) by (simp add: tail_of_def head_hash_def split: if_splits)
qed (use assms verified_chain in auto)

lemma file_bytes_take: "file_bytes (take n ls) \<le> file_bytes ls"
  by (subst (2) append_take_drop_id [symmetric, of _ n]) (simp only: file_bytes_def map_append sum_list_append le_add1)

text \<open>
  the chain alone does not show that events are missing at the end. Every file made
  of the first lines of an accepted journal is accepted, with the first events.
\<close>

theorem audit_truncation_accepted:
  assumes "VerifyAuditJournal digest (Lines ls) = Inr es"
  shows "VerifyAuditJournal digest (Lines (take n ls)) = Inr (take n es)"
proof -
  have v: "verify_lines digest [] [] 1 (take n ls @ drop n ls) = Inr es" "int (file_bytes ls) \<le> maxAuditFileBytes"
    using assms by (auto simp: VerifyAuditJournal_def split: if_splits)
  then obtain xs where xs: "verify_lines digest [] [] 1 (take n ls) = Inr xs"
    by (auto simp only: verify_lines_append split: sum.splits)
  obtain ys where "es = xs @ ys" "length xs = length (take n ls)" "length es = length ls"
    using v(1) xs verify_lines_chain [OF xs] unfolding verify_lines_append
    by (auto dest!: verify_lines_chain)
  then have "xs = take n es" by (auto simp: min_def)
  with xs v(2) file_bytes_take [of n ls] show ?thesis by (simp add: VerifyAuditJournal_def)
qed

text \<open>
  when the line of an event is written but \<^verbatim>\<open>Sync\<close> or \<^verbatim>\<open>Close\<close> reports an error, the
  journal forgets the event and the next append reports success, but its sequence number
  repeats the one already in the file, and no later process accepts the journal again.
\<close>

theorem audit_sync_failure_breaks:
  assumes "VerifyAuditJournal digest f = Inr es" "OpenAuditJournal digest path f = Inr j"
    and "proper r" "accepted r" "proper r'" "accepted r'"
    and "(res, s) = Append digest size_of NotSynced (ar_now r) (ar_actor r) (ar_action r) (ar_subject r) (f, j)"
    and "(res', s') = Append digest size_of AppendOk (ar_now r') (ar_actor r') (ar_action r') (ar_subject r') s"
  shows "res = Inl AuditIO \<and> (\<exists>e. res' = Inr e) \<and> (\<exists>err. OpenAuditJournal digest path (fst s') = Inl err)"
proof -
  from assms(1) obtain ls where ls: "f = Lines ls" "verify_lines digest [] [] 1 ls = Inr es"
    by (rule verified_lines)
  have "j = tail_of es" using assms(1,2) ls(1) by (auto simp: OpenAuditJournal_def split: if_splits)
  then have st: "in_step digest es ls j" using tail_in_step [OF ls(2)] by simp
  define e where "e = next_event digest (ar_now r) (ar_actor r) (ar_action r) (ar_subject r) j"
  define e' where "e' = next_event digest (ar_now r') (ar_actor r') (ar_action r') (ar_subject r') j"
  have s: "res = Inl AuditIO" "s = (Lines (ls @ [Event (size_of e) e]), j)"
    using assms(4,7) glue_verified [OF ls(2)] ls(1)
    by (simp_all add: Append_def accepted_def Let_def file_lines_def e_def)
  then have s': "res' = Inr e'" "fst s' = Lines (ls @ [Event (size_of e) e, Event (size_of e') e'])"
    using assms(6,8) by (simp_all add: Append_def accepted_def Let_def file_lines_def e'_def glue_def)
  have seq: "ae_Sequence (decoded e') = of_nat (Suc (length es))"
    using st by (simp add: e'_def next_event_def Let_def in_step_def decoded_def)
  have ne: "of_nat (Suc n) \<noteq> (of_nat (Suc (Suc n)) :: 64 word)" for n by simp
  have "\<exists>err. verify_lines digest [] [] 1 (ls @ [Event (size_of e) e, Event (size_of e') e']) = Inl err"
    using ls(2) seq ne [of "length es"] by (simp add: verify_lines_append chain_ok_def)
  then show ?thesis using s s' by (auto simp: OpenAuditJournal_def VerifyAuditJournal_def)
qed

section \<open>Concrete journals\<close>

definition demo_digest :: "auditPayload \<Rightarrow> 8 word list" where
  "demo_digest p = [ucast (ap_Sequence p), of_nat (length (ap_Actor p)), of_nat (length (ap_PreviousHash p))]"

definition demo_request :: audit_request where
  "demo_request = \<lparr>ar_now = 7, ar_actor = ''op'', ar_action = ''submit'', ar_subject = ''lease-1''\<rparr>"

definition demo_file :: audit_file where
  "demo_file = fst (audit_run demo_digest (\<lambda>e. 300) [demo_request, demo_request] (Lines [], tail_of []))"

lemma demo_request_ok: "proper demo_request" "accepted demo_request"
  by code_simp+

theorem audit_log_complete_witness:
  "\<exists>es'. VerifyAuditJournal demo_digest demo_file = Inr es'
     \<and> map request_of es' = [request_text demo_request, request_text demo_request]"
proof -
  have v: "VerifyAuditJournal demo_digest (Lines []) = Inr []"
      "OpenAuditJournal demo_digest ''log'' (Lines []) = Inr (tail_of [])" by code_simp+
  have l: "list_all proper [demo_request, demo_request]" using demo_request_ok by simp
  have sh: "short_lines (fst (audit_run demo_digest (\<lambda>e. 300) [demo_request, demo_request] (Lines [], tail_of [])))"
    by code_simp
  have "int (file_bytes (file_lines demo_file)) \<le> maxAuditFileBytes" by code_simp
  with audit_log_complete [OF v l sh] demo_request_ok show ?thesis unfolding demo_file_def by auto
qed

lemma demo_verified: "\<exists>es. VerifyAuditJournal demo_digest demo_file = Inr es \<and> length es = 2"
proof -
  have "(case VerifyAuditJournal demo_digest demo_file of Inr es \<Rightarrow> length es | Inl _ \<Rightarrow> 0) = 2" by code_simp
  then show ?thesis by (auto split: sum.splits)
qed

definition demo_copy :: audit_file where
  "demo_copy = fst (audit_run demo_digest (\<lambda>e. 400) [demo_request, demo_request] (Lines [], tail_of []))"

theorem audit_tail_determines_witness:
  "\<exists>es es'. VerifyAuditJournal demo_digest demo_file = Inr es
     \<and> VerifyAuditJournal demo_digest demo_copy = Inr es' \<and> es = es' \<and> length es = 2"
proof -
  obtain es where es: "VerifyAuditJournal demo_digest demo_file = Inr es" "length es = 2" using demo_verified by blast
  have "(case VerifyAuditJournal demo_digest demo_copy of
      Inr es' \<Rightarrow> (case VerifyAuditJournal demo_digest demo_file of
         Inr es \<Rightarrow> aj_lastHash (tail_of es) = aj_lastHash (tail_of es')
           \<and> list_all (\<lambda>e. list_all (\<lambda>e'. demo_digest (payload_of e) = demo_digest (payload_of e') \<longrightarrow> payload_of e = payload_of e')
               (es @ es')) (es @ es')
       | Inl _ \<Rightarrow> False)
    | Inl _ \<Rightarrow> False)" by code_simp
  then obtain es' where es': "VerifyAuditJournal demo_digest demo_copy = Inr es'"
      "aj_lastHash (tail_of es) = aj_lastHash (tail_of es')" "inj_on demo_digest (payload_of ` (set es \<union> set es'))"
    using es(1) by (auto simp: list_all_iff inj_on_def split: sum.splits)
  from audit_tail_determines [OF es(1) es'] es es'(1) show ?thesis by blast
qed

theorem audit_truncation_accepted_witness:
  "\<exists>es. VerifyAuditJournal demo_digest demo_file = Inr es \<and> length es = 2
     \<and> VerifyAuditJournal demo_digest (Lines (take 1 (file_lines demo_file))) = Inr (take 1 es)"
proof -
  obtain es where es: "VerifyAuditJournal demo_digest demo_file = Inr es" "length es = 2" using demo_verified by blast
  obtain ls where ls: "demo_file = Lines ls" using es(1) by (rule verified_lines)
  have "file_lines demo_file = ls" unfolding ls by (simp add: file_lines_def)
  with audit_truncation_accepted [OF es(1) [unfolded ls], of 1] es show ?thesis by blast
qed

theorem audit_sync_failure_breaks_witness:
  "let s = snd (Append demo_digest (\<lambda>e. 300) NotSynced 7 ''op'' ''submit'' ''lease-1'' (Lines [], tail_of []));
       s' = snd (Append demo_digest (\<lambda>e. 300) AppendOk 7 ''op'' ''submit'' ''lease-1'' s)
   in \<exists>err. OpenAuditJournal demo_digest ''log'' (fst s') = Inl err"
proof -
  have v: "VerifyAuditJournal demo_digest (Lines []) = Inr []"
      "OpenAuditJournal demo_digest ''log'' (Lines []) = Inr (tail_of [])" by code_simp+
  obtain res s where s: "(res, s) = Append demo_digest (\<lambda>e. 300) NotSynced (ar_now demo_request)
      (ar_actor demo_request) (ar_action demo_request) (ar_subject demo_request) (Lines [], tail_of [])"
    by (metis prod.collapse)
  obtain res' s' where s': "(res', s') = Append demo_digest (\<lambda>e. 300) AppendOk (ar_now demo_request)
      (ar_actor demo_request) (ar_action demo_request) (ar_subject demo_request) s"
    by (metis prod.collapse)
  have "\<exists>err. OpenAuditJournal demo_digest ''log'' (fst s') = Inl err"
    using audit_sync_failure_breaks [OF v demo_request_ok demo_request_ok s s'] by blast
  moreover have "s' = snd (Append demo_digest (\<lambda>e. 300) AppendOk 7 ''op'' ''submit'' ''lease-1'' s)"
      "s = snd (Append demo_digest (\<lambda>e. 300) NotSynced 7 ''op'' ''submit'' ''lease-1'' (Lines [], tail_of []))"
    using s s' by (simp_all add: demo_request_def) (metis snd_conv)+
  ultimately show ?thesis by (simp add: Let_def)
qed

end
