(* ===== verification/Go_Int.thy ===== *)
theory Go_Int
  imports Main "HOL-Library.Word"
begin

text \<open>
  Go's \<^verbatim>\<open>int64\<close> (and \<^verbatim>\<open>int\<close>, on the 64-bit platforms the program is built for): integers
  with two's complement wrap-around after every operation that can leave the range.
\<close>

definition i64 :: "int \<Rightarrow> int" where
  "i64 x = (x + 2 ^ 63) mod 2 ^ 64 - 2 ^ 63"

abbreviation MaxInt64 :: int where "MaxInt64 \<equiv> 9223372036854775807"

definition in_i64 :: "int \<Rightarrow> bool" where
  "in_i64 x \<longleftrightarrow> - (2 ^ 63) \<le> x \<and> x < 2 ^ 63"

lemma i64_id: "- (2 ^ 63) \<le> x \<Longrightarrow> x < 2 ^ 63 \<Longrightarrow> i64 x = x"
  unfolding i64_def by (subst mod_pos_pos_trivial) auto

lemma i64_add: "i64 (i64 a + b) = i64 (a + b)"
  by (simp add: i64_def algebra_simps mod_simps)

lemma i64_range: "in_i64 (i64 x)"
  unfolding i64_def in_i64_def
  using pos_mod_bound [of "2 ^ 64" "x + 2 ^ 63"] pos_mod_sign [of "2 ^ 64" "x + 2 ^ 63"] by simp

lemma i64_word: "i64 x = sint (word_of_int x :: 64 word)"
  by (simp add: i64_def int_word_sint)

end
