(* ===== verification/Quota.thy ===== *)
theory Quota
  imports Runs Go_Int
begin

text \<open>
  Tenant quotas and fair scheduling, \<^verbatim>\<open>internal/quota/quota.go\<close>: the quota table, the
  per-tenant usage records and the admission, reservation and release of resources.
  \<^verbatim>\<open>int64\<close> and \<^verbatim>\<open>int\<close> are 64-bit two's complement; arithmetic wraps. A \<^verbatim>\<open>float64\<close> is its
  bit pattern. The acning mutex makes every method one step. Shown: usage stays
  within range and within the quota, releases undo reservations, and when the scheduler's
  totals are the sums of the tenants' usage.
\<close>

section \<open>Quotas\<close>

record Quota =
  q_CPU :: int
  q_Memory :: int
  q_Storage :: int
  q_Network :: int
  q_MaxParallel :: int
  q_Priority :: int
  q_FairnessWeight :: "64 word"

definition IsZero :: "Quota \<Rightarrow> bool" where
  "IsZero q \<longleftrightarrow> q_CPU q = 0 \<and> q_Memory q = 0 \<and> q_Storage q = 0 \<and> q_Network q = 0 \<and> q_MaxParallel q = 0
     \<and> q_Priority q = 0 \<and> (q_FairnessWeight q = 0 \<or> q_FairnessWeight q = 2 ^ 63)"

record TenantQuota =
  tq_quotas :: "(string, Quota) gomap"
  tq_default :: Quota

definition NewTenantQuota :: "Quota \<Rightarrow> TenantQuota" where
  "NewTenantQuota q = \<lparr>tq_quotas = [], tq_default = q\<rparr>"

definition SetQuota :: "string \<Rightarrow> Quota \<Rightarrow> TenantQuota \<Rightarrow> TenantQuota" where
  "SetQuota tenant q tq = tq\<lparr>tq_quotas := gm_put tenant q (tq_quotas tq)\<rparr>"

definition GetQuota :: "string \<Rightarrow> TenantQuota \<Rightarrow> Quota" where
  "GetQuota tenant tq = (case gm_get (tq_quotas tq) tenant of Some q \<Rightarrow> q | None \<Rightarrow> tq_default tq)"

definition DeleteQuota :: "string \<Rightarrow> TenantQuota \<Rightarrow> TenantQuota" where
  "DeleteQuota tenant tq = tq\<lparr>tq_quotas := gm_del tenant (tq_quotas tq)\<rparr>"

section \<open>Usage\<close>

record TenantStats =
  ts_cpuUsed :: int
  ts_memoryUsed :: int
  ts_storageUsed :: int
  ts_networkUsed :: int
  ts_parallelUsed :: int
  ts_lastUpdated :: int

definition NewTenantStats :: "int \<Rightarrow> TenantStats" where
  "NewTenantStats now = \<lparr>ts_cpuUsed = 0, ts_memoryUsed = 0, ts_storageUsed = 0, ts_networkUsed = 0,
     ts_parallelUsed = 0, ts_lastUpdated = now\<rparr>"

definition UpdateCPU :: "int \<Rightarrow> int \<Rightarrow> TenantStats \<Rightarrow> TenantStats" where
  "UpdateCPU now used st = st\<lparr>ts_cpuUsed := used, ts_lastUpdated := now\<rparr>"

definition UpdateMemory :: "int \<Rightarrow> int \<Rightarrow> TenantStats \<Rightarrow> TenantStats" where
  "UpdateMemory now used st = st\<lparr>ts_memoryUsed := used, ts_lastUpdated := now\<rparr>"

definition UpdateStorage :: "int \<Rightarrow> int \<Rightarrow> TenantStats \<Rightarrow> TenantStats" where
  "UpdateStorage now used st = st\<lparr>ts_storageUsed := used, ts_lastUpdated := now\<rparr>"

definition UpdateNetwork :: "int \<Rightarrow> int \<Rightarrow> TenantStats \<Rightarrow> TenantStats" where
  "UpdateNetwork now used st = st\<lparr>ts_networkUsed := used, ts_lastUpdated := now\<rparr>"

definition UpdateParallel :: "int \<Rightarrow> int \<Rightarrow> TenantStats \<Rightarrow> TenantStats" where
  "UpdateParallel now used st = st\<lparr>ts_parallelUsed := used, ts_lastUpdated := now\<rparr>"

lemmas stats_update_defs = UpdateCPU_def UpdateMemory_def UpdateStorage_def UpdateNetwork_def UpdateParallel_def

record SchedulerStats =
  ss_totalCPU :: int
  ss_totalMemory :: int
  ss_totalParallel :: int

record FairScheduler =
  fs_quotas :: TenantQuota
  fs_stats :: "(string, TenantStats) gomap"
  fs_global :: SchedulerStats

definition NewFairScheduler :: "TenantQuota \<Rightarrow> FairScheduler" where
  "NewFairScheduler quotas = \<lparr>fs_quotas = quotas, fs_stats = [],
     fs_global = \<lparr>ss_totalCPU = 0, ss_totalMemory = 0, ss_totalParallel = 0\<rparr>\<rparr>"

definition getOrCreateStats :: "int \<Rightarrow> string \<Rightarrow> FairScheduler \<Rightarrow> TenantStats \<times> FairScheduler" where
  "getOrCreateStats now tenant fs =
     (case gm_get (fs_stats fs) tenant of
        Some st \<Rightarrow> (st, fs)
      | None \<Rightarrow> (NewTenantStats now, fs\<lparr>fs_stats := gm_put tenant (NewTenantStats now) (fs_stats fs)\<rparr>))"

abbreviation put_stats :: "string \<Rightarrow> TenantStats \<Rightarrow> FairScheduler \<Rightarrow> FairScheduler" where
  "put_stats tenant st fs \<equiv> fs\<lparr>fs_stats := gm_put tenant st (fs_stats fs)\<rparr>"

abbreviation ResourceTypeCPU :: string where "ResourceTypeCPU \<equiv> ''cpu''"
abbreviation ResourceTypeMemory :: string where "ResourceTypeMemory \<equiv> ''memory''"
abbreviation ResourceTypeStorage :: string where "ResourceTypeStorage \<equiv> ''storage''"
abbreviation ResourceTypeNetwork :: string where "ResourceTypeNetwork \<equiv> ''network''"
abbreviation ResourceTypeParallel :: string where "ResourceTypeParallel \<equiv> ''parallel''"

definition used_of :: "string \<Rightarrow> TenantStats \<Rightarrow> int option" where
  "used_of resource st =
     (if resource = ResourceTypeCPU then Some (ts_cpuUsed st)
      else if resource = ResourceTypeMemory then Some (ts_memoryUsed st)
      else if resource = ResourceTypeStorage then Some (ts_storageUsed st)
      else if resource = ResourceTypeNetwork then Some (ts_networkUsed st)
      else if resource = ResourceTypeParallel then Some (ts_parallelUsed st)
      else None)"

definition limit_of :: "string \<Rightarrow> Quota \<Rightarrow> int" where
  "limit_of resource q =
     (if resource = ResourceTypeCPU then q_CPU q
      else if resource = ResourceTypeMemory then q_Memory q
      else if resource = ResourceTypeStorage then q_Storage q
      else if resource = ResourceTypeNetwork then q_Network q
      else q_MaxParallel q)"

section \<open>Admission\<close>

text \<open>
  The second overflow check of \<^verbatim>\<open>canSchedule\<close>, for parallel slots, compares with the largest
  \<^verbatim>\<open>int\<close>; with 64-bit \<^verbatim>\<open>int\<close> it is the first one. The error is empty exactly when the
  method returns \<^verbatim>\<open>true\<close>.
\<close>

datatype quota_error =
    NegativeReservation | OverflowsAccounting | InvalidRestoredUsage
  | QuotaExceeded string string int int

definition canSchedule :: "int \<Rightarrow> string \<Rightarrow> string \<Rightarrow> int \<Rightarrow> FairScheduler \<Rightarrow> quota_error option \<times> FairScheduler" where
  "canSchedule now tenant resource requested fs =
     (if requested < 0 then (Some NegativeReservation, fs)
      else let q = GetQuota tenant (fs_quotas fs); (st, fs') = getOrCreateStats now tenant fs in
        case used_of resource st of
          None \<Rightarrow> (None, fs')
        | Some used \<Rightarrow>
            let limit = limit_of resource q in
            if i64 (MaxInt64 - used) < requested then (Some OverflowsAccounting, fs')
            else if limit \<le> 0 then (None, fs')
            else if limit < i64 (used + requested) then (Some (QuotaExceeded tenant resource (i64 (used + requested)) limit), fs')
            else (None, fs'))"

definition CanSchedule :: "int \<Rightarrow> string \<Rightarrow> string \<Rightarrow> int \<Rightarrow> FairScheduler \<Rightarrow> quota_error option \<times> FairScheduler" where
  "CanSchedule = canSchedule"

definition Schedule :: "int \<Rightarrow> string \<Rightarrow> string \<Rightarrow> int \<Rightarrow> FairScheduler \<Rightarrow> quota_error option \<times> FairScheduler" where
  "Schedule now tenant resource amount fs =
     (case canSchedule now tenant resource amount fs of
        (Some e, fs1) \<Rightarrow> (Some e, fs1)
      | (None, fs1) \<Rightarrow>
          let (st, fs2) = getOrCreateStats now tenant fs1; g = fs_global fs2 in
          (None,
           if resource = ResourceTypeCPU then
             (put_stats tenant (UpdateCPU now (i64 (ts_cpuUsed st + amount)) st) fs2)
               \<lparr>fs_global := g\<lparr>ss_totalCPU := i64 (ss_totalCPU g + amount)\<rparr>\<rparr>
           else if resource = ResourceTypeMemory then
             (put_stats tenant (UpdateMemory now (i64 (ts_memoryUsed st + amount)) st) fs2)
               \<lparr>fs_global := g\<lparr>ss_totalMemory := i64 (ss_totalMemory g + amount)\<rparr>\<rparr>
           else if resource = ResourceTypeStorage then
             put_stats tenant (UpdateStorage now (i64 (ts_storageUsed st + amount)) st) fs2
           else if resource = ResourceTypeNetwork then
             put_stats tenant (UpdateNetwork now (i64 (ts_networkUsed st + amount)) st) fs2
           else if resource = ResourceTypeParallel then
             (put_stats tenant (UpdateParallel now (i64 (ts_parallelUsed st + amount)) st) fs2)
               \<lparr>fs_global := g\<lparr>ss_totalParallel := i64 (ss_totalParallel g + amount)\<rparr>\<rparr>
           else fs2))"

text \<open>Go's \<^verbatim>\<open>if x < 0 { x = 0 }\<close>.\<close>

definition at_least_0 :: "int \<Rightarrow> int" where
  "at_least_0 x = (if x < 0 then 0 else x)"

definition Release :: "int \<Rightarrow> string \<Rightarrow> string \<Rightarrow> int \<Rightarrow> FairScheduler \<Rightarrow> FairScheduler" where
  "Release now tenant resource amount fs =
     (if amount \<le> 0 then fs
      else let (st, fs1) = getOrCreateStats now tenant fs; g = fs_global fs1 in
        if resource = ResourceTypeCPU then
          let released = min (ts_cpuUsed st) amount in
          (put_stats tenant (UpdateCPU now (at_least_0 (i64 (ts_cpuUsed st - released))) st) fs1)
            \<lparr>fs_global := g\<lparr>ss_totalCPU := at_least_0 (i64 (ss_totalCPU g - released))\<rparr>\<rparr>
        else if resource = ResourceTypeMemory then
          let released = min (ts_memoryUsed st) amount in
          (put_stats tenant (UpdateMemory now (at_least_0 (i64 (ts_memoryUsed st - released))) st) fs1)
            \<lparr>fs_global := g\<lparr>ss_totalMemory := at_least_0 (i64 (ss_totalMemory g - released))\<rparr>\<rparr>
        else if resource = ResourceTypeStorage then
          put_stats tenant (UpdateStorage now (at_least_0 (i64 (ts_storageUsed st - amount))) st) fs1
        else if resource = ResourceTypeNetwork then
          put_stats tenant (UpdateNetwork now (at_least_0 (i64 (ts_networkUsed st - amount))) st) fs1
        else if resource = ResourceTypeParallel then
          let released = min (ts_parallelUsed st) amount in
          (put_stats tenant (UpdateParallel now (at_least_0 (i64 (ts_parallelUsed st - released))) st) fs1)
            \<lparr>fs_global := g\<lparr>ss_totalParallel := at_least_0 (i64 (ss_totalParallel g - released))\<rparr>\<rparr>
        else fs1)"

fun restore_total :: "int \<Rightarrow> (string, int) gomap \<Rightarrow> int option" where
  "restore_total acc [] = Some acc"
| "restore_total acc ((t, n) # us) =
     (if n < 0 \<or> i64 (MaxInt64 - acc) < n then None else restore_total (i64 (acc + n)) us)"

fun restore_new :: "int \<Rightarrow> (string, int) gomap \<Rightarrow> (string, TenantStats) gomap \<Rightarrow> (string, TenantStats) gomap" where
  "restore_new now [] stats = stats"
| "restore_new now ((t, n) # us) stats =
     restore_new now us
       (if gm_get stats t \<noteq> None then stats else gm_put t (UpdateParallel now n (NewTenantStats now)) stats)"

definition RestoreParallelUsage :: "int \<Rightarrow> (string, int) gomap \<Rightarrow> FairScheduler \<Rightarrow> quota_error option \<times> FairScheduler" where
  "RestoreParallelUsage now usage fs =
     (case restore_total 0 usage of
        None \<Rightarrow> (Some InvalidRestoredUsage, fs)
      | Some all \<Rightarrow>
          (None, fs\<lparr>fs_stats := restore_new now usage
                      (map (\<lambda>(t, st). (t, UpdateParallel now (gm_or usage 0 t) st)) (fs_stats fs)),
                    fs_global := (fs_global fs)\<lparr>ss_totalParallel := all\<rparr>\<rparr>))"

definition GetPriority :: "string \<Rightarrow> FairScheduler \<Rightarrow> int" where
  "GetPriority tenant fs = q_Priority (GetQuota tenant (fs_quotas fs))"

definition GetFairnessWeight :: "string \<Rightarrow> FairScheduler \<Rightarrow> 64 word" where
  "GetFairnessWeight tenant fs = q_FairnessWeight (GetQuota tenant (fs_quotas fs))"

record TenantInfo =
  ti_Tenant :: string
  ti_Quota :: Quota
  ti_CPUUsed :: int
  ti_MemoryUsed :: int
  ti_StorageUsed :: int
  ti_NetworkUsed :: int
  ti_ParallelUsed :: int
  ti_Priority :: int
  ti_FairnessWeight :: "64 word"

definition GetTenantInfo :: "int \<Rightarrow> string \<Rightarrow> FairScheduler \<Rightarrow> TenantInfo \<times> FairScheduler" where
  "GetTenantInfo now tenant fs =
     (let q = GetQuota tenant (fs_quotas fs); (st, fs') = getOrCreateStats now tenant fs in
      (\<lparr>ti_Tenant = tenant, ti_Quota = q, ti_CPUUsed = ts_cpuUsed st, ti_MemoryUsed = ts_memoryUsed st,
        ti_StorageUsed = ts_storageUsed st, ti_NetworkUsed = ts_networkUsed st,
        ti_ParallelUsed = ts_parallelUsed st, ti_Priority = q_Priority q,
        ti_FairnessWeight = q_FairnessWeight q\<rparr>, fs'))"

definition GetAllTenantsInfo :: "int \<Rightarrow> FairScheduler \<Rightarrow> TenantInfo list" where
  "GetAllTenantsInfo now fs = map (\<lambda>t. fst (GetTenantInfo now t fs)) (gm_keys (fs_stats fs))"

section \<open>Usage per tenant and resource\<close>

definition usage_in :: "(string, TenantStats) gomap \<Rightarrow> string \<Rightarrow> string \<Rightarrow> int" where
  "usage_in stats t r =
     (case gm_get stats t of None \<Rightarrow> 0 | Some st \<Rightarrow> (case used_of r st of None \<Rightarrow> 0 | Some u \<Rightarrow> u))"

abbreviation usage :: "FairScheduler \<Rightarrow> string \<Rightarrow> string \<Rightarrow> int" where
  "usage fs \<equiv> usage_in (fs_stats fs)"

definition known :: "string \<Rightarrow> bool" where
  "known r \<longleftrightarrow> r \<in> {ResourceTypeCPU, ResourceTypeMemory, ResourceTypeStorage, ResourceTypeNetwork, ResourceTypeParallel}"

definition quota_limit :: "FairScheduler \<Rightarrow> string \<Rightarrow> string \<Rightarrow> int" where
  "quota_limit fs t r = limit_of r (GetQuota t (fs_quotas fs))"

definition total_of :: "FairScheduler \<Rightarrow> string \<Rightarrow> int" where
  "total_of fs r = (if r = ResourceTypeCPU then ss_totalCPU (fs_global fs)
     else if r = ResourceTypeMemory then ss_totalMemory (fs_global fs) else ss_totalParallel (fs_global fs))"

definition totalled :: "string \<Rightarrow> bool" where
  "totalled r \<longleftrightarrow> r \<in> {ResourceTypeCPU, ResourceTypeMemory, ResourceTypeParallel}"

definition usage_ok :: "FairScheduler \<Rightarrow> bool" where
  "usage_ok fs \<longleftrightarrow> distinct (gm_keys (fs_stats fs)) \<and> (\<forall>t r. 0 \<le> usage fs t r \<and> usage fs t r \<le> MaxInt64)"

lemma usage_new [simp]: "used_of r (NewTenantStats now) = (if known r then Some 0 else None)"
  by (auto simp: used_of_def NewTenantStats_def known_def)

lemma used_of_known: "used_of r st = None \<longleftrightarrow> \<not> known r"
  by (auto simp: used_of_def known_def)

lemma unknown_usage: "\<not> known r \<Longrightarrow> usage_in stats t r = 0"
  by (simp add: usage_in_def used_of_known [THEN iffD2] split: option.split)

lemma getOrCreate:
  assumes "getOrCreateStats now t fs = (st, fs')"
  shows "gm_get (fs_stats fs') t = Some st" "usage fs' = usage fs" "fs_quotas fs' = fs_quotas fs"
    "fs_global fs' = fs_global fs" "set (gm_keys (fs_stats fs')) = insert t (set (gm_keys (fs_stats fs)))"
    "distinct (gm_keys (fs_stats fs)) \<Longrightarrow> distinct (gm_keys (fs_stats fs'))"
proof -
  have put: "usage_in (gm_put t (NewTenantStats now) stats) = usage_in stats" if "gm_get stats t = None" for stats
    using that by (intro ext) (auto simp: usage_in_def)
  show "gm_get (fs_stats fs') t = Some st" "usage fs' = usage fs" "fs_quotas fs' = fs_quotas fs"
    "fs_global fs' = fs_global fs" "set (gm_keys (fs_stats fs')) = insert t (set (gm_keys (fs_stats fs)))"
    "distinct (gm_keys (fs_stats fs)) \<Longrightarrow> distinct (gm_keys (fs_stats fs'))"
    using assms put
    by (auto simp: getOrCreateStats_def gm_keys_put insert_absorb gm_get_some_key
        simp del: set_map split: option.splits)
qed

lemma getOrCreate_again:
  "getOrCreateStats now t fs = (st, fs') \<Longrightarrow> getOrCreateStats now' t fs' = (st, fs')"
  using getOrCreate(1) by (simp add: getOrCreateStats_def)

lemma used_of_get: "gm_get stats t = Some st \<Longrightarrow> known r \<Longrightarrow> used_of r st = Some (usage_in stats t r)"
  by (cases "used_of r st") (auto simp: usage_in_def used_of_known)

lemma canSchedule_cases:
  obtains (negative) "a < 0" "canSchedule now t r a fs = (Some NegativeReservation, fs)"
  | (checked) st fs' err where "0 \<le> a" "getOrCreateStats now t fs = (st, fs')" "canSchedule now t r a fs = (err, fs')"
      "err = None \<longleftrightarrow> (known r \<longrightarrow> a \<le> i64 (MaxInt64 - usage fs t r)
         \<and> (quota_limit fs t r \<le> 0 \<or> i64 (usage fs t r + a) \<le> quota_limit fs t r))"
proof (cases "a < 0")
  case True
  then show ?thesis by (intro negative) (simp_all add: canSchedule_def)
next
  case False
  obtain st fs' where g: "getOrCreateStats now t fs = (st, fs')" by (cases "getOrCreateStats now t fs")
  have u: "used_of r st = (if known r then Some (usage fs t r) else None)"
    using used_of_get [OF getOrCreate(1) [OF g]] getOrCreate(2) [OF g] used_of_known by simp
  show ?thesis
    by (rule checked [OF _ g, of "fst (canSchedule now t r a fs)"])
      (use False g u in \<open>auto simp: canSchedule_def Let_def quota_limit_def\<close>)
qed

text \<open>The usage of one tenant and resource after a reservation and after a release.\<close>

lemma usage_put:
  "usage_in (gm_put t st stats) t' r = (if t' = t then (case used_of r st of None \<Rightarrow> 0 | Some u \<Rightarrow> u) else usage_in stats t' r)"
  by (simp add: usage_in_def)

lemma resource_cases:
  obtains "r = ResourceTypeCPU" | "r = ResourceTypeMemory" | "r = ResourceTypeStorage" | "r = ResourceTypeNetwork"
  | "r = ResourceTypeParallel" | "\<not> known r"
  unfolding known_def by blast

lemma used_of_simps:
  "used_of ResourceTypeCPU st = Some (ts_cpuUsed st)" "used_of ResourceTypeMemory st = Some (ts_memoryUsed st)"
  "used_of ResourceTypeStorage st = Some (ts_storageUsed st)" "used_of ResourceTypeNetwork st = Some (ts_networkUsed st)"
  "used_of ResourceTypeParallel st = Some (ts_parallelUsed st)"
  by (simp_all add: used_of_def)

lemma not_known:
  "\<not> known r \<Longrightarrow> r \<noteq> ResourceTypeCPU \<and> r \<noteq> ResourceTypeMemory \<and> r \<noteq> ResourceTypeStorage \<and> r \<noteq> ResourceTypeNetwork
     \<and> r \<noteq> ResourceTypeParallel"
  by (auto simp: known_def)

lemma update_used:
  "used_of r' (UpdateCPU now v st) = (if r' = ResourceTypeCPU then Some v else used_of r' st)"
  "used_of r' (UpdateMemory now v st) = (if r' = ResourceTypeMemory then Some v else used_of r' st)"
  "used_of r' (UpdateStorage now v st) = (if r' = ResourceTypeStorage then Some v else used_of r' st)"
  "used_of r' (UpdateNetwork now v st) = (if r' = ResourceTypeNetwork then Some v else used_of r' st)"
  "used_of r' (UpdateParallel now v st) = (if r' = ResourceTypeParallel then Some v else used_of r' st)"
  by (simp_all add: used_of_def stats_update_defs)

lemma usage_get: "gm_get stats t = Some st \<Longrightarrow> (case used_of r st of None \<Rightarrow> 0 | Some u \<Rightarrow> u) = usage_in stats t r"
  by (simp add: usage_in_def)

text \<open>
  What one accepted reservation or release does: it sets the usage of one tenant and
  resource, and the total of that resource if it has one.
\<close>

definition changes_to :: "FairScheduler \<Rightarrow> FairScheduler \<Rightarrow> string \<Rightarrow> string \<Rightarrow> int \<Rightarrow> int \<Rightarrow> bool" where
  "changes_to fs fs' t r v g \<longleftrightarrow> fs_quotas fs' = fs_quotas fs
     \<and> set (gm_keys (fs_stats fs')) = insert t (set (gm_keys (fs_stats fs)))
     \<and> (distinct (gm_keys (fs_stats fs)) \<longrightarrow> distinct (gm_keys (fs_stats fs')))
     \<and> (\<forall>t' r'. usage fs' t' r' = (if t' = t \<and> r' = r \<and> known r then v else usage fs t' r'))
     \<and> (\<forall>r'. totalled r' \<longrightarrow> total_of fs' r' = (if r' = r then g else total_of fs r'))"

lemma changes_to_created:
  assumes g: "getOrCreateStats now t fs = (st, fs1)"
    and f: "\<And>r'. used_of r' st' = (if r' = r \<and> known r then Some v else used_of r' st)"
    and fs': "fs_stats fs' = gm_put t st' (fs_stats fs1)" "fs_quotas fs' = fs_quotas fs1"
    and tot: "\<And>r'. totalled r' \<Longrightarrow> total_of fs' r' = (if r' = r then g else total_of fs1 r')"
  shows "changes_to fs fs' t r v g"
proof -
  note c = getOrCreate [OF g]
  have "total_of fs1 r' = total_of fs r'" for r' using c(4) by (simp add: total_of_def)
  moreover have "usage fs' t' r' = (if t' = t \<and> r' = r \<and> known r then v else usage fs t' r')" for t' r'
    using usage_get [OF c(1), of r'] c(2) unfolding fs' usage_put f by simp
  ultimately show ?thesis
    unfolding changes_to_def using c(3,5,6) tot fs'
    by (auto simp: gm_keys_put simp del: set_map)
qed

lemma put_same: "gm_get m k = Some v \<Longrightarrow> gm_get (gm_put k v m) = gm_get m"
  by auto

lemma Schedule_ok:
  assumes "0 \<le> a" "getOrCreateStats now t fs = (st, fs1)" "canSchedule now t r a fs = (None, fs1)"
  shows "fst (Schedule now t r a fs) = None
     \<and> changes_to fs (snd (Schedule now t r a fs)) t r (i64 (usage fs t r + a)) (i64 (total_of fs r + a))"
proof -
  note c = getOrCreate [OF assms(2)] and again = getOrCreate_again [OF assms(2), of now]
  have u: "known r \<Longrightarrow> used_of r st = Some (usage fs t r)" using used_of_get [OF c(1)] c(2) by simp
  show ?thesis
  proof (cases r rule: resource_cases)
    case 6
    with not_known [OF 6] assms(3) again c show ?thesis
      by (auto simp: Schedule_def changes_to_def unknown_usage total_of_def totalled_def known_def)
  qed (use assms(3) again u in \<open>auto simp: Schedule_def Let_def known_def used_of_simps c(4) total_of_def totalled_def
       intro!: changes_to_created [OF assms(2)] simp: update_used\<close>)
qed

lemma Release_pos:
  assumes "0 < a" "getOrCreateStats now t fs = (st, fs1)"
  shows "changes_to fs (Release now t r a fs) t r
     (at_least_0 (i64 (usage fs t r - (if totalled r then min (usage fs t r) a else a))))
     (at_least_0 (i64 (total_of fs r - min (usage fs t r) a)))"
proof -
  note c = getOrCreate [OF assms(2)]
  have u: "known r \<Longrightarrow> used_of r st = Some (usage fs t r)" using used_of_get [OF c(1)] c(2) by simp
  show ?thesis
  proof (cases r rule: resource_cases)
    case 6
    with not_known [OF 6] assms c show ?thesis
      by (auto simp: Release_def changes_to_def unknown_usage total_of_def totalled_def known_def)
  qed (use assms u in \<open>auto simp: Release_def Let_def known_def used_of_simps c(4) total_of_def totalled_def
       intro!: changes_to_created [OF assms(2)] simp: update_used\<close>)
qed

section \<open>Histories\<close>

datatype quota_op =
    OpSetQuota string Quota | OpDeleteQuota string | OpCanSchedule int string string int
  | OpSchedule int string string int | OpRelease int string string int
  | OpRestore int "(string, int) gomap" | OpTenantInfo int string

fun quota_exec :: "quota_op \<Rightarrow> FairScheduler \<Rightarrow> FairScheduler" where
  "quota_exec (OpSetQuota t q) fs = fs\<lparr>fs_quotas := SetQuota t q (fs_quotas fs)\<rparr>"
| "quota_exec (OpDeleteQuota t) fs = fs\<lparr>fs_quotas := DeleteQuota t (fs_quotas fs)\<rparr>"
| "quota_exec (OpCanSchedule now t r a) fs = snd (CanSchedule now t r a fs)"
| "quota_exec (OpSchedule now t r a) fs = snd (Schedule now t r a fs)"
| "quota_exec (OpRelease now t r a) fs = Release now t r a fs"
| "quota_exec (OpRestore now us) fs = snd (RestoreParallelUsage now us fs)"
| "quota_exec (OpTenantInfo now t) fs = snd (GetTenantInfo now t fs)"

text \<open>The types of the arguments: an amount is an \<^verbatim>\<open>int64\<close>, a Go map has no duplicate keys.\<close>

definition op_typed :: "quota_op \<Rightarrow> bool" where
  "op_typed op = (case op of OpRelease now t r a \<Rightarrow> in_i64 a | OpRestore now us \<Rightarrow> distinct (gm_keys us) | _ \<Rightarrow> True)"

lemma restore_total_sum:
  "restore_total acc us = Some v \<Longrightarrow> 0 \<le> acc \<Longrightarrow> acc \<le> MaxInt64 \<Longrightarrow>
     v = acc + sum_list (map snd us) \<and> v \<le> MaxInt64 \<and> (\<forall>n \<in> set (map snd us). 0 \<le> n \<and> n \<le> MaxInt64)"
proof (induction acc us rule: restore_total.induct)
  case (2 acc t n us)
  then have n: "0 \<le> n" "acc + n \<le> MaxInt64" by (auto simp: i64_id split: if_splits)
  then have "i64 (acc + n) = acc + n" using "2.prems" by (simp add: i64_id)
  with 2 n show ?case by (fastforce split: if_splits)
qed auto

lemma restore_new_get:
  "gm_get (restore_new now us stats) t =
     (case gm_get stats t of Some st \<Rightarrow> Some st
      | None \<Rightarrow> map_option (\<lambda>n. UpdateParallel now n (NewTenantStats now)) (gm_get us t))"
  by (induction now us stats rule: restore_new.induct) (auto split: option.splits)

lemma restore_new_keys:
  "set (gm_keys (restore_new now us stats)) = set (gm_keys stats) \<union> set (gm_keys us)"
  by (intro set_eqI) (auto simp: gm_keys_mem restore_new_get simp del: set_map split: option.splits)

lemma restore_new_distinct: "distinct (gm_keys stats) \<Longrightarrow> distinct (gm_keys (restore_new now us stats))"
  by (induction now us stats rule: restore_new.induct) auto

lemma restore_usage:
  assumes "restore_total 0 us = Some v"
  shows "usage (snd (RestoreParallelUsage now us fs)) t r =
     (if r = ResourceTypeParallel then gm_or us 0 t else usage fs t r)"
proof -
  have upd: "gm_get (map (\<lambda>(t, st). (t, UpdateParallel now (f t) st)) stats) t =
      map_option (UpdateParallel now (f t)) (gm_get stats t)" for stats and f :: "string \<Rightarrow> int"
    by (induction stats) auto
  show ?thesis
    using assms
    by (auto simp: RestoreParallelUsage_def usage_in_def restore_new_get upd update_used gm_or_def known_def
        split: option.splits)
qed

section \<open>The invariant of usage\<close>

lemma changes_to_usage_ok:
  "usage_ok fs \<Longrightarrow> changes_to fs fs' t r v g \<Longrightarrow> (known r \<Longrightarrow> 0 \<le> v \<and> v \<le> MaxInt64) \<Longrightarrow> usage_ok fs'"
  by (auto simp: usage_ok_def changes_to_def)

lemma usage_ok_range: "usage_ok fs \<Longrightarrow> 0 \<le> usage fs t r \<and> usage fs t r \<le> MaxInt64"
  by (simp add: usage_ok_def)

lemma created_usage_ok: "usage_ok fs \<Longrightarrow> getOrCreateStats now t fs = (st, fs') \<Longrightarrow> usage_ok fs'"
  using getOrCreate [of now t fs st fs'] by (simp add: usage_ok_def)

lemma fits: "usage_ok fs \<Longrightarrow> a \<le> i64 (MaxInt64 - usage fs t r) \<Longrightarrow> 0 \<le> a \<Longrightarrow> i64 (usage fs t r + a) = usage fs t r + a"
  using usage_ok_range [of fs t r] by (simp add: i64_id)

text \<open>The two outcomes of \<^verbatim>\<open>Schedule\<close> in a state with sound usage.\<close>

lemma Schedule_cases:
  assumes ok: "usage_ok fs"
  obtains (refused) e where "fst (Schedule now t r a fs) = Some e" "usage (snd (Schedule now t r a fs)) = usage fs"
      "fs_global (snd (Schedule now t r a fs)) = fs_global fs" "usage_ok (snd (Schedule now t r a fs))"
      "set (gm_keys (fs_stats fs)) \<subseteq> set (gm_keys (fs_stats (snd (Schedule now t r a fs))))"
  | (reserved) "fst (Schedule now t r a fs) = None" "0 \<le> a"
      "changes_to fs (snd (Schedule now t r a fs)) t r (usage fs t r + a) (i64 (total_of fs r + a))"
      "known r \<Longrightarrow> usage fs t r + a \<le> MaxInt64 \<and> (quota_limit fs t r \<le> 0 \<or> usage fs t r + a \<le> quota_limit fs t r)"
proof (cases rule: canSchedule_cases [of a now t r fs])
  case negative
  then show ?thesis using ok by (intro refused) (simp_all add: Schedule_def)
next
  case (checked st fs' err)
  show ?thesis
  proof (cases err)
    case (Some e)
    then show ?thesis
      using checked getOrCreate [OF checked(2)] created_usage_ok [OF ok checked(2)]
      by (intro refused [of e]) (auto simp: Schedule_def simp del: set_map)
  next
    case None
    then have acc: "canSchedule now t r a fs = (None, fs')" using checked by simp
    have v: "known r \<Longrightarrow> i64 (usage fs t r + a) = usage fs t r + a"
      "known r \<Longrightarrow> usage fs t r + a \<le> MaxInt64"
      using checked None fits [OF ok] usage_ok_range [OF ok, of t r] by (auto simp: i64_id)
    have "changes_to fs (snd (Schedule now t r a fs)) t r (usage fs t r + a) (i64 (total_of fs r + a))"
      using Schedule_ok [OF checked(1,2) acc] v(1) by (auto simp: changes_to_def)
    then show ?thesis
      using Schedule_ok [OF checked(1,2) acc] checked(1,4) None v by (intro reserved) auto
  qed
qed

lemma Release_cases:
  assumes ok: "usage_ok fs" and a: "in_i64 a"
  obtains (idle) "a \<le> 0" "Release now t r a fs = fs"
  | (released) "0 < a" "changes_to fs (Release now t r a fs) t r (max 0 (usage fs t r - a))
      (at_least_0 (i64 (total_of fs r - min (usage fs t r) a)))"
proof (cases "a \<le> 0")
  case True
  then show ?thesis using idle by (simp add: Release_def)
next
  case False
  obtain st fs1 where g: "getOrCreateStats now t fs = (st, fs1)" by (cases "getOrCreateStats now t fs")
  have "in_i64 (usage fs t r - min (usage fs t r) a)" using usage_ok_range [OF ok, of t r] False by (auto simp: in_i64_def)
  then have "at_least_0 (i64 (usage fs t r - min (usage fs t r) a)) = max 0 (usage fs t r - a)"
    by (simp add: i64_id in_i64_def at_least_0_def)
  moreover have "at_least_0 (i64 (usage fs t r - a)) = max 0 (usage fs t r - a)"
    using usage_ok_range [OF ok, of t r] False a by (simp add: i64_id at_least_0_def in_i64_def)
  ultimately show ?thesis using Release_pos [of a now t fs st fs1 r] False g released by (auto split: if_splits)
qed

lemma Restore_cases:
  obtains (refused) e where "RestoreParallelUsage now us fs = (Some e, fs)"
  | (restored) v where "restore_total 0 us = Some v" "fst (RestoreParallelUsage now us fs) = None"
  by (cases "restore_total 0 us") (auto simp: RestoreParallelUsage_def)

lemma Restore_usage_ok:
  assumes ok: "usage_ok fs" and us: "restore_total 0 us = Some v"
  shows "usage_ok (snd (RestoreParallelUsage now us fs))"
proof -
  have "0 \<le> gm_or us 0 t \<and> gm_or us 0 t \<le> MaxInt64" for t
    using restore_total_sum [OF us] by (force simp: gm_or_def dest: map_of_SomeD split: option.split)
  moreover have "distinct (gm_keys (fs_stats (snd (RestoreParallelUsage now us fs))))"
    using ok us by (simp add: RestoreParallelUsage_def usage_ok_def restore_new_distinct comp_def case_prod_beta)
  ultimately show ?thesis using ok by (simp add: usage_ok_def restore_usage [OF us])
qed

lemma quota_exec_usage_ok:
  assumes ok: "usage_ok fs" and t: "op_typed op" shows "usage_ok (quota_exec op fs)"
proof (cases op)
  case (OpCanSchedule now t r a)
  then show ?thesis
    using ok created_usage_ok [OF ok] by (cases rule: canSchedule_cases [of a now t r fs]) (auto simp: CanSchedule_def)
next
  case (OpSchedule now t r a)
  from ok show ?thesis
    by (cases rule: Schedule_cases [of fs now t r a])
      (use OpSchedule ok changes_to_usage_ok usage_ok_range [OF ok, of t r] in \<open>auto intro: changes_to_usage_ok\<close>)
next
  case (OpRelease now t r a)
  with t have "in_i64 a" by (simp add: op_typed_def)
  with ok show ?thesis
    by (cases rule: Release_cases [of fs a now t r])
      (use OpRelease ok usage_ok_range [OF ok, of t r] in \<open>auto intro: changes_to_usage_ok\<close>)
next
  case (OpRestore now us)
  then show ?thesis using ok Restore_usage_ok [OF ok] by (cases rule: Restore_cases [of now us fs]) auto
next
  case (OpTenantInfo now t)
  then show ?thesis using created_usage_ok [OF ok]
    by (cases "getOrCreateStats now t fs") (simp add: GetTenantInfo_def Let_def)
qed (use ok in \<open>auto simp: usage_ok_def\<close>)

lemma run_usage_ok: "list_all op_typed ops \<Longrightarrow> usage_ok fs \<Longrightarrow> usage_ok (run quota_exec ops fs)"
  by (induction ops arbitrary: fs) (auto intro: quota_exec_usage_ok)

lemma New_usage_ok: "usage_ok (NewFairScheduler tq)"
  by (simp add: usage_ok_def NewFairScheduler_def usage_in_def)

section \<open>Totals\<close>

definition sum_usage :: "FairScheduler \<Rightarrow> string \<Rightarrow> int" where
  "sum_usage fs r = (\<Sum>t\<in>set (gm_keys (fs_stats fs)). usage fs t r)"

definition totals_ok :: "FairScheduler \<Rightarrow> bool" where
  "totals_ok fs \<longleftrightarrow> (\<forall>r. totalled r \<longrightarrow> total_of fs r = sum_usage fs r)"

definition sums_fit :: "FairScheduler \<Rightarrow> bool" where
  "sums_fit fs \<longleftrightarrow> (\<forall>r. totalled r \<longrightarrow> sum_usage fs r \<le> MaxInt64)"

lemma totalled_known: "totalled r \<Longrightarrow> known r"
  by (auto simp: totalled_def known_def)

lemma absent_usage: "t \<notin> set (gm_keys (fs_stats fs)) \<Longrightarrow> usage fs t r = 0"
  by (simp add: usage_in_def gm_keys_mem del: set_map)

lemma sum_usage_superset:
  "finite K \<Longrightarrow> set (gm_keys (fs_stats fs)) \<subseteq> K \<Longrightarrow> (\<Sum>t\<in>K. usage fs t r) = sum_usage fs r"
  unfolding sum_usage_def by (rule sum.mono_neutral_right) (use absent_usage in blast)+

lemma sum_usage_same:
  "usage fs' = usage fs \<Longrightarrow> set (gm_keys (fs_stats fs)) \<subseteq> set (gm_keys (fs_stats fs')) \<Longrightarrow> sum_usage fs' r = sum_usage fs r"
  using sum_usage_superset [of "set (gm_keys (fs_stats fs'))" fs r] by (simp add: sum_usage_def del: set_map)

lemma sum_usage_nonneg: "usage_ok fs \<Longrightarrow> 0 \<le> sum_usage fs r"
  unfolding sum_usage_def by (rule sum_nonneg) (simp add: usage_ok_def)

lemma usage_le_sum: "usage_ok fs \<Longrightarrow> usage fs t r \<le> sum_usage fs r"
proof (cases "t \<in> set (gm_keys (fs_stats fs))")
  case True
  assume "usage_ok fs"
  then show ?thesis unfolding sum_usage_def using True
    by (intro member_le_sum) (auto simp: usage_ok_def simp del: set_map)
next
  case False
  assume "usage_ok fs"
  then show ?thesis using sum_usage_nonneg absent_usage [OF False] by metis
qed

lemma changes_to_sum:
  assumes c: "changes_to fs fs' t r v g"
  shows "sum_usage fs' r' = (if r' = r \<and> known r then sum_usage fs r - usage fs t r + v else sum_usage fs r')"
proof -
  let ?K = "insert t (set (gm_keys (fs_stats fs)))"
  have keys: "set (gm_keys (fs_stats fs')) = ?K" using c by (simp add: changes_to_def)
  have u: "usage fs' t' r' = (if t' = t \<and> r' = r \<and> known r then v else usage fs t' r')" for t'
    using c by (simp add: changes_to_def)
  have s: "sum_usage fs r' = (\<Sum>t'\<in>?K. usage fs t' r')" by (rule sum_usage_superset [symmetric]) auto
  have fin: "finite ?K" by simp
  have f: "sum_usage fs' r' = (\<Sum>t'\<in>?K. if t' = t \<and> r' = r \<and> known r then v else usage fs t' r')"
    unfolding sum_usage_def keys by (rule sum.cong) (use u in auto)
  show ?thesis
  proof (cases "r' = r \<and> known r")
    case True
    have "(\<Sum>t'\<in>?K. if t' = t then v else usage fs t' r) = v + (\<Sum>t'\<in>?K - {t}. usage fs t' r)"
      by (subst sum.remove [OF fin, of t]) (auto intro: sum.cong)
    moreover have "(\<Sum>t'\<in>?K. usage fs t' r) = usage fs t r + (\<Sum>t'\<in>?K - {t}. usage fs t' r)"
      by (rule sum.remove [OF fin]) simp
    ultimately show ?thesis using True f s by (auto simp del: set_map)
  next
    case False
    then have "sum_usage fs' r' = (\<Sum>t'\<in>?K. usage fs t' r')" unfolding f by (intro sum.cong) auto
    with s False show ?thesis by auto
  qed
qed

lemma changes_to_totals:
  assumes "totals_ok fs" "changes_to fs fs' t r v g"
    and "totalled r \<Longrightarrow> g = sum_usage fs r - usage fs t r + v"
  shows "totals_ok fs'"
  unfolding totals_ok_def
proof (intro allI impI)
  fix r' assume r': "totalled r'"
  then have "total_of fs' r' = (if r' = r then g else total_of fs r')" using assms(2) by (simp add: changes_to_def)
  then show "total_of fs' r' = sum_usage fs' r'"
    using assms(1,3) r' totalled_known [OF r'] changes_to_sum [OF assms(2), of r'] by (auto simp: totals_ok_def)
qed

lemma same_totals:
  "totals_ok fs \<Longrightarrow> usage fs' = usage fs \<Longrightarrow> fs_global fs' = fs_global fs \<Longrightarrow>
     set (gm_keys (fs_stats fs)) \<subseteq> set (gm_keys (fs_stats fs')) \<Longrightarrow> totals_ok fs'"
proof -
  assume a: "totals_ok fs" "usage fs' = usage fs" "fs_global fs' = fs_global fs"
    "set (gm_keys (fs_stats fs)) \<subseteq> set (gm_keys (fs_stats fs'))"
  have "total_of fs' r = total_of fs r" for r using a(3) by (simp add: total_of_def)
  with a(1) sum_usage_same [OF a(2,4)] show ?thesis by (simp add: totals_ok_def)
qed

lemma created_totals: "totals_ok fs \<Longrightarrow> getOrCreateStats now t fs = (st, fs') \<Longrightarrow> totals_ok fs'"
  using same_totals [of fs fs'] getOrCreate [of now t fs st fs'] by blast

lemma sum_map_values: "distinct (gm_keys us) \<Longrightarrow> (\<Sum>t\<in>set (gm_keys us). gm_or us 0 t) = (sum_list (map snd us) :: int)"
proof (induction us)
  case (Cons a us)
  obtain t n where a: "a = (t, n)" by (cases a)
  with Cons.prems have "t \<notin> set (gm_keys us)" by simp
  then have "(\<Sum>x\<in>set (gm_keys us). gm_or (a # us) 0 x) = (\<Sum>x\<in>set (gm_keys us). gm_or us 0 x)"
    by (intro sum.cong) (auto simp: gm_or_def a simp del: set_map)
  with Cons a show ?case by (simp add: gm_or_def)
qed simp

lemma Restore_totals:
  assumes tot: "totals_ok fs" and us: "restore_total 0 us = Some v" and d: "distinct (gm_keys us)"
  shows "totals_ok (snd (RestoreParallelUsage now us fs))" (is "totals_ok ?fs")
proof -
  let ?K = "set (gm_keys (fs_stats ?fs))"
  have keys: "?K = set (gm_keys (fs_stats fs)) \<union> set (gm_keys us)"
    using us by (simp add: RestoreParallelUsage_def restore_new_keys comp_def case_prod_beta del: set_map)
  have par: "sum_usage ?fs ResourceTypeParallel = sum_list (map snd us)"
  proof -
    have "sum_usage ?fs ResourceTypeParallel = (\<Sum>t\<in>?K. gm_or us 0 t)"
      unfolding sum_usage_def by (simp add: restore_usage [OF us] del: set_map)
    also have "\<dots> = (\<Sum>t\<in>set (gm_keys us). gm_or us 0 t)"
      unfolding keys by (rule sum.mono_neutral_right) (auto simp: gm_or_def gm_keys_mem simp del: set_map)
    finally show ?thesis by (simp only: sum_map_values [OF d])
  qed
  have other: "sum_usage ?fs r = sum_usage fs r" if "r \<noteq> ResourceTypeParallel" for r
  proof -
    have "sum_usage ?fs r = (\<Sum>t\<in>?K. usage fs t r)"
      unfolding sum_usage_def using that by (simp add: restore_usage [OF us] del: set_map)
    also have "\<dots> = sum_usage fs r" by (rule sum_usage_superset) (use keys in auto)
    finally show ?thesis .
  qed
  have "total_of ?fs r = (if r = ResourceTypeParallel then v else total_of fs r)" if "totalled r" for r
    using us that by (auto simp: RestoreParallelUsage_def total_of_def totalled_def)
  then show ?thesis
    using tot par other restore_total_sum [OF us] by (auto simp: totals_ok_def)
qed

lemma quota_exec_totals:
  assumes ok: "usage_ok fs" and tot: "totals_ok fs" and t: "op_typed op" and fit: "sums_fit fs" "sums_fit (quota_exec op fs)"
  shows "totals_ok (quota_exec op fs)"
proof (cases op)
  case (OpCanSchedule now t r a)
  then show ?thesis
    by (cases rule: canSchedule_cases [of a now t r fs])
      (use tot created_totals [OF tot] in \<open>auto simp: CanSchedule_def\<close>)
next
  case (OpSchedule now t r a)
  from ok show ?thesis
  proof (cases rule: Schedule_cases [of fs now t r a])
    case refused
    then show ?thesis using OpSchedule same_totals [OF tot] by simp
  next
    case reserved
    note s = changes_to_sum [OF reserved(3), of r]
    show ?thesis
      unfolding OpSchedule quota_exec.simps
    proof (rule changes_to_totals [OF tot reserved(3)])
      assume r: "totalled r"
      with s totalled_known [OF r] have e: "sum_usage (quota_exec op fs) r = sum_usage fs r + a"
        by (simp add: OpSchedule)
      moreover have "0 \<le> sum_usage fs r" by (rule sum_usage_nonneg [OF ok])
      moreover have "sum_usage (quota_exec op fs) r \<le> MaxInt64" using fit(2) r by (simp add: sums_fit_def)
      ultimately show "i64 (total_of fs r + a) = sum_usage fs r - usage fs t r + (usage fs t r + a)"
        using tot r reserved(2) by (simp add: totals_ok_def i64_id)
    qed
  qed
next
  case (OpRelease now t r a)
  with t have "in_i64 a" by (simp add: op_typed_def)
  with ok show ?thesis
  proof (cases rule: Release_cases [of fs a now t r])
    case idle
    then show ?thesis using OpRelease tot by simp
  next
    case released
    show ?thesis
      unfolding OpRelease quota_exec.simps
    proof (rule changes_to_totals [OF tot released(2)])
      assume r: "totalled r"
      have "0 \<le> usage fs t r" "usage fs t r \<le> sum_usage fs r" "sum_usage fs r \<le> MaxInt64"
        using usage_ok_range [OF ok] usage_le_sum [OF ok] fit(1) r by (auto simp: sums_fit_def)
      then show "at_least_0 (i64 (total_of fs r - min (usage fs t r) a)) = sum_usage fs r - usage fs t r + max 0 (usage fs t r - a)"
        using tot r released(1) by (auto simp: totals_ok_def i64_id at_least_0_def)
    qed
  qed
next
  case (OpRestore now us)
  with t have d: "distinct (gm_keys us)" by (simp add: op_typed_def)
  show ?thesis
    by (cases rule: Restore_cases [of now us fs]) (use OpRestore tot Restore_totals [OF tot _ d] in auto)
next
  case (OpTenantInfo now t)
  then show ?thesis using created_totals [OF tot]
    by (cases "getOrCreateStats now t fs") (auto simp: GetTenantInfo_def Let_def)
qed (use tot same_totals [OF tot] in auto)

section \<open>Properties\<close>

abbreviation sched_after :: "TenantQuota \<Rightarrow> quota_op list \<Rightarrow> FairScheduler" where
  "sched_after tq ops \<equiv> run quota_exec ops (NewFairScheduler tq)"

lemma sched_after_ok: "list_all op_typed ops \<Longrightarrow> usage_ok (sched_after tq ops)"
  by (rule run_usage_ok [OF _ New_usage_ok])

text \<open>
  C17: in every history of a scheduler the recorded usage stays a non-negative \<^verbatim>\<open>int64\<close>, and
  an operation that raises the usage of a tenant is a reservation of that tenant and
  resource which the tenant's quota at that moment admits (a quota that is not positive
  sets no limit), or the restoration of parallel slots from durable leases.
\<close>

theorem quota_enforced:
  assumes "list_all op_typed ops" "op_typed op"
  shows "0 \<le> usage (sched_after tq ops) t r \<and> usage (sched_after tq ops) t r \<le> MaxInt64
     \<and> (usage (sched_after tq ops) t r < usage (quota_exec op (sched_after tq ops)) t r \<longrightarrow>
          (\<exists>now a. op = OpSchedule now t r a
             \<and> usage (quota_exec op (sched_after tq ops)) t r = usage (sched_after tq ops) t r + a
             \<and> (quota_limit (sched_after tq ops) t r \<le> 0
                \<or> usage (quota_exec op (sched_after tq ops)) t r \<le> quota_limit (sched_after tq ops) t r))
          \<or> (\<exists>now us. op = OpRestore now us \<and> r = ResourceTypeParallel))"
proof -
  let ?fs = "sched_after tq ops"
  have ok: "usage_ok ?fs" by (rule sched_after_ok [OF assms(1)])
  have "(\<exists>now a. op = OpSchedule now t r a \<and> usage (quota_exec op ?fs) t r = usage ?fs t r + a
        \<and> (quota_limit ?fs t r \<le> 0 \<or> usage (quota_exec op ?fs) t r \<le> quota_limit ?fs t r))
      \<or> (\<exists>now us. op = OpRestore now us \<and> r = ResourceTypeParallel)"
    if grow: "usage ?fs t r < usage (quota_exec op ?fs) t r"
  proof (cases op)
    case (OpCanSchedule now t' r' a)
    have "usage (snd (canSchedule now t' r' a ?fs)) = usage ?fs"
      by (cases rule: canSchedule_cases [of a now t' r' ?fs]) (auto dest: getOrCreate(2))
    with OpCanSchedule grow show ?thesis by (simp add: CanSchedule_def)
  next
    case (OpSchedule now t' r' a)
    from ok show ?thesis
    proof (cases rule: Schedule_cases [of ?fs now t' r' a])
      case refused
      then show ?thesis using OpSchedule grow by simp
    next
      case reserved
      have "usage (quota_exec op ?fs) t r = (if t = t' \<and> r = r' \<and> known r' then usage ?fs t' r' + a else usage ?fs t r)"
        using reserved(3) OpSchedule by (simp add: changes_to_def)
      with grow OpSchedule reserved(4) show ?thesis by (auto split: if_splits)
    qed
  next
    case (OpRelease now t' r' a)
    then have "in_i64 a" using assms(2) by (simp add: op_typed_def)
    with ok show ?thesis
    proof (cases rule: Release_cases [of ?fs a now t' r'])
      case idle
      then show ?thesis using OpRelease grow by simp
    next
      case released
      then have "usage (quota_exec op ?fs) t r \<le> usage ?fs t r"
        using OpRelease usage_ok_range [OF ok, of t r] by (auto simp: changes_to_def)
      with grow show ?thesis by simp
    qed
  next
    case (OpRestore now us)
    then show ?thesis using grow
      by (cases rule: Restore_cases [of now us ?fs]) (auto simp: restore_usage split: if_splits)
  next
    case (OpTenantInfo now t')
    then show ?thesis using grow getOrCreate(2) [of now t' ?fs]
      by (cases "getOrCreateStats now t' ?fs") (auto simp: GetTenantInfo_def Let_def)
  qed (use grow in auto)
  with usage_ok_range [OF ok, of t r] show ?thesis by blast
qed

text \<open>
  as long as the usages of all tenants together have always fitted into an \<^verbatim>\<open>int64\<close>,
  the scheduler's totals of CPU, memory and parallel slots are the sums over the tenants,
  through every sequence of reservations, releases, restorations and quota changes.
\<close>

theorem totals_are_sums:
  assumes "list_all op_typed ops" "\<forall>n. sums_fit (sched_after tq (take n ops))" "totalled r"
  shows "total_of (sched_after tq ops) r = (\<Sum>t\<in>set (gm_keys (fs_stats (sched_after tq ops))). usage (sched_after tq ops) t r)"
proof -
  have "totals_ok (sched_after tq (take n ops))" for n
  proof (induction n)
    case 0
    then show ?case by (simp add: totals_ok_def NewFairScheduler_def sum_usage_def total_of_def)
  next
    case (Suc n)
    show ?case
    proof (cases "n < length ops")
      case True
      then have step: "sched_after tq (take (Suc n) ops) = quota_exec (ops ! n) (sched_after tq (take n ops))"
        by (simp add: take_Suc_conv_app_nth)
      have "usage_ok (sched_after tq (take n ops))" "op_typed (ops ! n)"
        using assms(1) True by (auto intro!: sched_after_ok simp: list_all_iff) (meson in_set_takeD)
      from quota_exec_totals [OF this(1) Suc this(2)] assms(2) step show ?thesis by metis
    next
      case False
      with Suc show ?thesis by simp
    qed
  qed
  from this [of "length ops"] assms(3) show ?thesis by (simp add: totals_ok_def sum_usage_def)
qed

text \<open>
  a reservation that succeeds and is then released leaves the usage of every
  tenant and resource as it was before.
\<close>

theorem release_undoes_schedule:
  assumes "list_all op_typed ops" "in_i64 a" "fst (Schedule now t r a (sched_after tq ops)) = None"
  shows "usage (Release now' t r a (snd (Schedule now t r a (sched_after tq ops)))) = usage (sched_after tq ops)"
proof -
  let ?fs = "sched_after tq ops"
  let ?fs1 = "snd (Schedule now t r a ?fs)"
  have ok: "usage_ok ?fs" by (rule sched_after_ok [OF assms(1)])
  from ok have c: "0 \<le> a" "changes_to ?fs ?fs1 t r (usage ?fs t r + a) (i64 (total_of ?fs r + a))"
    using assms(3) by (auto elim: Schedule_cases [of ?fs now t r a])
  have ok1: "usage_ok ?fs1"
    using quota_exec_usage_ok [OF ok, of "OpSchedule now t r a"] by (simp add: op_typed_def)
  from ok1 assms(2) show ?thesis
  proof (cases rule: Release_cases [of ?fs1 a now' t r])
    case idle
    with c show ?thesis by (intro ext) (auto simp: changes_to_def)
  next
    case released
    with c usage_ok_range [OF ok, of t r] show ?thesis by (intro ext) (auto simp: changes_to_def)
  qed
qed

definition no_limit :: Quota where
  "no_limit = \<lparr>q_CPU = 0, q_Memory = 0, q_Storage = 0, q_Network = 0, q_MaxParallel = 0, q_Priority = 0,
     q_FairnessWeight = 0\<rparr>"

definition wrapping_ops :: "quota_op list" where
  "wrapping_ops = [OpSchedule 1 ''a'' ResourceTypeCPU MaxInt64, OpSchedule 2 ''b'' ResourceTypeCPU 1]"

text \<open>
  Admission checks the overflow of one tenant's usage but not of the totals. Two
  tenants without limits reserve amounts that are each admitted, and the total CPU of the
  scheduler becomes negative although both usages are positive.
\<close>

lemma totals_wrap:
  "usage (sched_after (NewTenantQuota no_limit) wrapping_ops) ''a'' ResourceTypeCPU = MaxInt64
   \<and> usage (sched_after (NewTenantQuota no_limit) wrapping_ops) ''b'' ResourceTypeCPU = 1
   \<and> total_of (sched_after (NewTenantQuota no_limit) wrapping_ops) ResourceTypeCPU < 0"
  by code_simp

section \<open>A concrete history\<close>

definition small_quota :: Quota where
  "small_quota = no_limit\<lparr>q_CPU := 100, q_MaxParallel := 2\<rparr>"

definition demo_history :: "quota_op list" where
  "demo_history = [OpSchedule 1 ''a'' ResourceTypeCPU 60, OpSchedule 2 ''a'' ResourceTypeCPU 50,
     OpSchedule 3 ''b'' ResourceTypeCPU 5, OpRelease 4 ''a'' ResourceTypeCPU 20]"

lemma demo_history_typed: "list_all op_typed demo_history"
  by code_simp

theorem quota_enforced_witness:
  "usage (quota_exec (OpSchedule 5 ''a'' ResourceTypeCPU 60) (sched_after (NewTenantQuota small_quota) demo_history))
     ''a'' ResourceTypeCPU = 100
   \<and> usage (sched_after (NewTenantQuota small_quota) demo_history) ''a'' ResourceTypeCPU = 40
   \<and> quota_limit (sched_after (NewTenantQuota small_quota) demo_history) ''a'' ResourceTypeCPU = 100"
proof -
  let ?fs = "sched_after (NewTenantQuota small_quota) demo_history"
  have v: "usage ?fs ''a'' ResourceTypeCPU = 40" "quota_limit ?fs ''a'' ResourceTypeCPU = 100"
    "usage ?fs ''a'' ResourceTypeCPU < usage (quota_exec (OpSchedule 5 ''a'' ResourceTypeCPU 60) ?fs) ''a'' ResourceTypeCPU"
    by code_simp+
  have "op_typed (OpSchedule 5 ''a'' ResourceTypeCPU 60)" by (simp add: op_typed_def)
  from quota_enforced [OF demo_history_typed this, of "NewTenantQuota small_quota" "''a''" ResourceTypeCPU] v
  show ?thesis by auto
qed

theorem totals_are_sums_witness:
  "total_of (sched_after (NewTenantQuota small_quota) demo_history) ResourceTypeCPU = 45
   \<and> (\<Sum>t\<in>set (gm_keys (fs_stats (sched_after (NewTenantQuota small_quota) demo_history))).
        usage (sched_after (NewTenantQuota small_quota) demo_history) t ResourceTypeCPU) = 45"
proof -
  have fit: "sums_fit fs \<longleftrightarrow> sum_usage fs ResourceTypeCPU \<le> MaxInt64 \<and> sum_usage fs ResourceTypeMemory \<le> MaxInt64
      \<and> sum_usage fs ResourceTypeParallel \<le> MaxInt64" for fs unfolding sums_fit_def totalled_def by blast
  have "list_all (\<lambda>n. let fs = sched_after (NewTenantQuota small_quota) (take n demo_history)
      in sum_usage fs ResourceTypeCPU \<le> MaxInt64 \<and> sum_usage fs ResourceTypeMemory \<le> MaxInt64
         \<and> sum_usage fs ResourceTypeParallel \<le> MaxInt64) [0, 1, 2, 3, 4]"
    by code_simp
  then have all: "\<forall>n \<in> {0, 1, 2, 3, 4}. sums_fit (sched_after (NewTenantQuota small_quota) (take n demo_history))"
    by (simp only: fit list_all_iff Let_def set_simps)
  have upto: "sums_fit (sched_after (NewTenantQuota small_quota) (take n demo_history))" if "n < 5" for n
    by (rule bspec [OF all]) (use that in auto)
  have "sums_fit (sched_after (NewTenantQuota small_quota) (take n demo_history))" for n
  proof (cases "n < 5")
    case False
    then have "take n demo_history = take 4 demo_history" by (simp add: demo_history_def)
    with upto [of 4] show ?thesis by simp
  qed (rule upto)
  with totals_are_sums [OF demo_history_typed, of "NewTenantQuota small_quota" ResourceTypeCPU]
  have "total_of (sched_after (NewTenantQuota small_quota) demo_history) ResourceTypeCPU =
      (\<Sum>t\<in>set (gm_keys (fs_stats (sched_after (NewTenantQuota small_quota) demo_history))).
        usage (sched_after (NewTenantQuota small_quota) demo_history) t ResourceTypeCPU)" by (simp add: totalled_def)
  moreover have "total_of (sched_after (NewTenantQuota small_quota) demo_history) ResourceTypeCPU = 45" by code_simp
  ultimately show ?thesis by simp
qed

theorem release_undoes_schedule_witness:
  "usage (Release 6 ''a'' ResourceTypeCPU 60 (snd (Schedule 5 ''a'' ResourceTypeCPU 60
       (sched_after (NewTenantQuota small_quota) demo_history)))) ''a'' ResourceTypeCPU
   = usage (sched_after (NewTenantQuota small_quota) demo_history) ''a'' ResourceTypeCPU"
proof -
  have "in_i64 60" by (simp add: in_i64_def)
  moreover have "Option.is_none (fst (Schedule 5 ''a'' ResourceTypeCPU 60 (sched_after (NewTenantQuota small_quota) demo_history)))"
    by code_simp
  ultimately show ?thesis using release_undoes_schedule [OF demo_history_typed] by (simp add: Option.is_none_def)
qed

end
