(* ===== verification/Policy.thy ===== *)
theory Policy
  imports Pipeline_Graph
begin

text \<open>
  The publication policy of \<^verbatim>\<open>internal/policy/policy.go\<close>: the rules, the evidence derived
  from a pipeline, and their evaluation. Reading the two documents from disk is left to
  \<^verbatim>\<open>strictjson\<close>. Shown: what an allowing decision means for the pipeline itself.
\<close>

record Evidence =
  ev_SubjectDigest :: string
  ev_SourcesPinned :: bool
  ev_BasePinned :: bool
  ev_ToolchainPinned :: bool
  ev_PluginsPinned :: bool
  ev_NonRoot :: bool
  ev_ReadOnlyRootFS :: bool
  ev_CapabilitiesDropped :: bool
  ev_SecretsAbsent :: bool
  ev_SBOM :: bool
  ev_Provenance :: bool
  ev_Signature :: bool
  ev_Reproducible :: bool

record Rules =
  ru_APIVersion :: string
  ru_RequirePins :: bool
  ru_RequireHardening :: bool
  ru_RequireSBOM :: bool
  ru_RequireProvenance :: bool
  ru_RequireSignature :: bool
  ru_RequireReproducible :: bool

record Decision =
  de_Allowed :: bool
  de_Reasons :: "string list"

definition policyAPIVersion :: string where
  "policyAPIVersion = ''platform-factory.dev/policy/v1''"

definition legacyPolicyAPIVersion :: string where
  "legacyPolicyAPIVersion = ''secure-oci.dev/policy/v1''"

text \<open>The conditions of the method and the reason each of them appends, in its order.\<close>

definition policy_checks :: "Rules \<Rightarrow> Evidence \<Rightarrow> (bool \<times> string) list" where
  "policy_checks r e =
     [(ev_SubjectDigest e = [], ''subject digest is missing''),
      (ru_RequirePins r \<and> (\<not> ev_SourcesPinned e \<or> \<not> ev_BasePinned e \<or> \<not> ev_ToolchainPinned e \<or> \<not> ev_PluginsPinned e),
       ''sources, base, toolchain and plugins must be pinned''),
      (ru_RequireHardening r \<and> (\<not> ev_NonRoot e \<or> \<not> ev_ReadOnlyRootFS e \<or> \<not> ev_CapabilitiesDropped e \<or> \<not> ev_SecretsAbsent e),
       ''runtime hardening evidence is incomplete''),
      (ru_RequireSBOM r \<and> \<not> ev_SBOM e, ''SBOM is required''),
      (ru_RequireProvenance r \<and> \<not> ev_Provenance e, ''provenance is required''),
      (ru_RequireSignature r \<and> \<not> ev_Signature e, ''signature is required''),
      (ru_RequireReproducible r \<and> \<not> ev_Reproducible e, ''reproducibility proof is required'')]"

definition policy_reasons :: "Rules \<Rightarrow> Evidence \<Rightarrow> string list" where
  "policy_reasons r e = map snd (filter fst (policy_checks r e))"

datatype policy_error = UnsupportedPolicyVersion string

definition Evaluate :: "Rules \<Rightarrow> Evidence \<Rightarrow> policy_error + Decision" where
  "Evaluate r e =
     (if ru_APIVersion r \<noteq> policyAPIVersion \<and> ru_APIVersion r \<noteq> legacyPolicyAPIVersion
      then Inl (UnsupportedPolicyVersion (ru_APIVersion r))
      else let reasons = sort (policy_reasons r e)
           in Inr \<lparr>de_Allowed = (length reasons = 0), de_Reasons = reasons\<rparr>)"

definition validSHA256 :: "string \<Rightarrow> bool" where
  "validSHA256 v = (if \<not> has_prefix v ''sha256:'' \<or> length v \<noteq> 71 then False
     else list_all (\<lambda>c. c \<in> set ''0123456789abcdef'') (drop 7 v))"

definition stage_evidence :: "Evidence \<Rightarrow> Stage \<Rightarrow> Evidence" where
  "stage_evidence e st =
     (let pinned = (case sg_Base st of None \<Rightarrow> False | Some b \<Rightarrow> validSHA256 (im_Digest b)) in
      e\<lparr>ev_BasePinned := ev_BasePinned e \<and> pinned, ev_ToolchainPinned := ev_ToolchainPinned e \<and> pinned,
        ev_NonRoot := ev_NonRoot e \<and> sb_NonRoot (sg_Sandbox st),
        ev_ReadOnlyRootFS := ev_ReadOnlyRootFS e \<and> sb_ReadOnlyRoot (sg_Sandbox st)\<rparr>)"

definition DerivePipelineEvidence :: "Pipeline \<Rightarrow> string list \<Rightarrow> Evidence" where
  "DerivePipelineEvidence p pluginDigests =
     (let e0 = \<lparr>ev_SubjectDigest = [], ev_SourcesPinned = True, ev_BasePinned = True, ev_ToolchainPinned = True,
                ev_PluginsPinned = True, ev_NonRoot = True, ev_ReadOnlyRootFS = True, ev_CapabilitiesDropped = True,
                ev_SecretsAbsent = True, ev_SBOM = False, ev_Provenance = False, ev_Signature = False,
                ev_Reproducible = False\<rparr>;
          e1 = foldl (\<lambda>e i. e\<lparr>ev_SourcesPinned := ev_SourcesPinned e \<and> validSHA256 (in_Digest i)\<rparr>) e0 (pl_Inputs p);
          e2 = foldl stage_evidence e1 (pl_Stages p)
      in foldl (\<lambda>e d. e\<lparr>ev_PluginsPinned := ev_PluginsPinned e \<and> validSHA256 d\<rparr>) e2 pluginDigests)"

section \<open>The derived facts\<close>

lemma hex_chars: "c \<in> set ''0123456789abcdef'' \<longleftrightarrow> is_hex_lower c"
proof -
  have "is_hex_lower c \<longleftrightarrow> (of_char c :: nat) \<in> {48..57} \<union> {97..102}"
    by (auto simp: is_hex_lower_def is_digit_def less_eq_char_def)
  also have "\<dots> \<longleftrightarrow> (of_char c :: nat) \<in> of_char ` set ''0123456789abcdef''"
    by (simp add: atLeastAtMost_upt upt_conv_Cons) presburger
  also have "\<dots> \<longleftrightarrow> c \<in> set ''0123456789abcdef''"
    by (rule inj_image_mem_iff) (rule inj_of_char)
  finally show ?thesis ..
qed

lemma validSHA256_ValidDigest: "validSHA256 = ValidDigest"
  by (rule ext) (auto simp only: validSHA256_def ValidDigest_def hex_chars split: if_splits)

definition stage_pinned :: "Stage \<Rightarrow> bool" where
  "stage_pinned st \<longleftrightarrow> (\<exists>b. sg_Base st = Some b \<and> ValidDigest (im_Digest b))"

lemma foldl_sources:
  "foldl (\<lambda>e i. e\<lparr>ev_SourcesPinned := ev_SourcesPinned e \<and> f i\<rparr>) e xs = e\<lparr>ev_SourcesPinned := ev_SourcesPinned e \<and> list_all f xs\<rparr>"
  by (induction xs arbitrary: e) (auto simp: conj_assoc)

lemma foldl_plugins:
  "foldl (\<lambda>e i. e\<lparr>ev_PluginsPinned := ev_PluginsPinned e \<and> f i\<rparr>) e xs = e\<lparr>ev_PluginsPinned := ev_PluginsPinned e \<and> list_all f xs\<rparr>"
  by (induction xs arbitrary: e) (auto simp: conj_assoc)

lemma stage_evidence_alt:
  "stage_evidence e st = e\<lparr>ev_BasePinned := ev_BasePinned e \<and> stage_pinned st,
     ev_ToolchainPinned := ev_ToolchainPinned e \<and> stage_pinned st,
     ev_NonRoot := ev_NonRoot e \<and> sb_NonRoot (sg_Sandbox st),
     ev_ReadOnlyRootFS := ev_ReadOnlyRootFS e \<and> sb_ReadOnlyRoot (sg_Sandbox st)\<rparr>"
  by (auto simp: stage_evidence_def stage_pinned_def validSHA256_ValidDigest Let_def split: option.split)

lemma foldl_stages:
  "foldl stage_evidence e sts = e\<lparr>ev_BasePinned := ev_BasePinned e \<and> list_all stage_pinned sts,
     ev_ToolchainPinned := ev_ToolchainPinned e \<and> list_all stage_pinned sts,
     ev_NonRoot := ev_NonRoot e \<and> list_all (\<lambda>st. sb_NonRoot (sg_Sandbox st)) sts,
     ev_ReadOnlyRootFS := ev_ReadOnlyRootFS e \<and> list_all (\<lambda>st. sb_ReadOnlyRoot (sg_Sandbox st)) sts\<rparr>"
  by (induction sts arbitrary: e) (auto simp: stage_evidence_alt conj_assoc)

lemma derived:
  "ev_SourcesPinned (DerivePipelineEvidence p ds) = list_all (\<lambda>i. ValidDigest (in_Digest i)) (pl_Inputs p)"
  "ev_BasePinned (DerivePipelineEvidence p ds) = list_all stage_pinned (pl_Stages p)"
  "ev_ToolchainPinned (DerivePipelineEvidence p ds) = list_all stage_pinned (pl_Stages p)"
  "ev_PluginsPinned (DerivePipelineEvidence p ds) = list_all ValidDigest ds"
  "ev_NonRoot (DerivePipelineEvidence p ds) = list_all (\<lambda>st. sb_NonRoot (sg_Sandbox st)) (pl_Stages p)"
  "ev_ReadOnlyRootFS (DerivePipelineEvidence p ds) = list_all (\<lambda>st. sb_ReadOnlyRoot (sg_Sandbox st)) (pl_Stages p)"
  "ev_CapabilitiesDropped (DerivePipelineEvidence p ds)" "ev_SecretsAbsent (DerivePipelineEvidence p ds)"
  unfolding DerivePipelineEvidence_def Let_def foldl_sources foldl_plugins foldl_stages
  by (simp_all add: validSHA256_ValidDigest)

lemma policy_reasons_Nil:
  "policy_reasons r e = [] \<longleftrightarrow> ev_SubjectDigest e \<noteq> []
     \<and> (ru_RequirePins r \<longrightarrow> ev_SourcesPinned e \<and> ev_BasePinned e \<and> ev_ToolchainPinned e \<and> ev_PluginsPinned e)
     \<and> (ru_RequireHardening r \<longrightarrow> ev_NonRoot e \<and> ev_ReadOnlyRootFS e \<and> ev_CapabilitiesDropped e \<and> ev_SecretsAbsent e)
     \<and> (ru_RequireSBOM r \<longrightarrow> ev_SBOM e) \<and> (ru_RequireProvenance r \<longrightarrow> ev_Provenance e)
     \<and> (ru_RequireSignature r \<longrightarrow> ev_Signature e) \<and> (ru_RequireReproducible r \<longrightarrow> ev_Reproducible e)"
  by (auto simp: policy_reasons_def policy_checks_def)

section \<open>Properties\<close>

text \<open>
  C18: for a pipeline the analysis accepts, and evidence whose pins and sandbox facts are those
  of \<^verbatim>\<open>DerivePipelineEvidence\<close> and whose other facts are given, the policy allows
  publication exactly when its version is known, a subject digest is present, and each
  requirement that is set holds: for pins, every stage has a base pinned by digest and every
  plugin digest is a SHA-256 digest (the inputs of an accepted pipeline are always pinned);
  for hardening, every stage runs as non-root on a read-only root and the two given facts about
  capabilities and secrets are true; and each required attestation is present.
  \<^verbatim>\<open>DerivePipelineEvidence\<close> itself gives these two facts as true for every pipeline, whatever
  its stages mount: with its own evidence hardening tests only the user and the root.
\<close>

theorem policy_allows_iff:
  assumes "Analyze p = Inr g"
    and "e = (DerivePipelineEvidence p ds)\<lparr>ev_SubjectDigest := subject, ev_SBOM := sbom, ev_Provenance := prov,
      ev_Signature := sig, ev_Reproducible := repro, ev_CapabilitiesDropped := caps, ev_SecretsAbsent := secrets\<rparr>"
  shows "((\<exists>d. Evaluate r e = Inr d \<and> de_Allowed d) \<longleftrightarrow>
     ru_APIVersion r \<in> {policyAPIVersion, legacyPolicyAPIVersion} \<and> subject \<noteq> []
     \<and> (ru_RequirePins r \<longrightarrow> list_all ValidDigest ds
          \<and> list_all (\<lambda>st. \<exists>b. sg_Base st = Some b \<and> ValidDigest (im_Digest b)) (pl_Stages p))
     \<and> (ru_RequireHardening r \<longrightarrow> caps \<and> secrets
          \<and> list_all (\<lambda>st. sb_NonRoot (sg_Sandbox st) \<and> sb_ReadOnlyRoot (sg_Sandbox st)) (pl_Stages p))
     \<and> (ru_RequireSBOM r \<longrightarrow> sbom) \<and> (ru_RequireProvenance r \<longrightarrow> prov) \<and> (ru_RequireSignature r \<longrightarrow> sig)
     \<and> (ru_RequireReproducible r \<longrightarrow> repro))
   \<and> ev_CapabilitiesDropped (DerivePipelineEvidence p ds) \<and> ev_SecretsAbsent (DerivePipelineEvidence p ds)"
proof -
  have "well_formed p" using assms(1) by (auto simp: Analyze_cases split: if_splits)
  then have "list_all (\<lambda>i. ValidDigest (in_Digest i)) (pl_Inputs p)" by (auto simp: well_formed_def list_all_iff)
  moreover have "(\<exists>d. Evaluate r e = Inr d \<and> de_Allowed d) \<longleftrightarrow>
      ru_APIVersion r \<in> {policyAPIVersion, legacyPolicyAPIVersion} \<and> policy_reasons r e = []"
    by (auto simp: Evaluate_def Let_def)
  moreover have "list_all (\<lambda>st. sb_NonRoot (sg_Sandbox st) \<and> sb_ReadOnlyRoot (sg_Sandbox st)) (pl_Stages p) \<longleftrightarrow>
      list_all (\<lambda>st. sb_NonRoot (sg_Sandbox st)) (pl_Stages p) \<and> list_all (\<lambda>st. sb_ReadOnlyRoot (sg_Sandbox st)) (pl_Stages p)"
    by (auto simp: list_all_iff)
  ultimately show ?thesis
    unfolding policy_reasons_Nil assms(2) by (simp add: derived stage_pinned_def [abs_def]) blast
qed

text \<open>
  An empty list of reasons and an allowing decision are the same thing, the reasons are
  reported in sorted order, each at most once, and setting more requirements never turns a
  refusal into an approval.
\<close>

definition stricter :: "Rules \<Rightarrow> Rules \<Rightarrow> bool" where
  "stricter r r' \<longleftrightarrow> ru_APIVersion r' = ru_APIVersion r
     \<and> (ru_RequirePins r \<longrightarrow> ru_RequirePins r') \<and> (ru_RequireHardening r \<longrightarrow> ru_RequireHardening r')
     \<and> (ru_RequireSBOM r \<longrightarrow> ru_RequireSBOM r') \<and> (ru_RequireProvenance r \<longrightarrow> ru_RequireProvenance r')
     \<and> (ru_RequireSignature r \<longrightarrow> ru_RequireSignature r') \<and> (ru_RequireReproducible r \<longrightarrow> ru_RequireReproducible r')"

lemma filter_stricter:
  "list_all2 (\<lambda>a b. snd a = snd b \<and> (fst a \<longrightarrow> fst b)) xs ys \<Longrightarrow>
     set (map snd (filter fst xs)) \<subseteq> set (map snd (filter fst ys))"
  by (induction rule: list_all2_induct) auto

lemma stricter_reasons: "stricter r r' \<Longrightarrow> set (policy_reasons r e) \<subseteq> set (policy_reasons r' e)"
  unfolding policy_reasons_def by (rule filter_stricter) (simp add: policy_checks_def stricter_def)

lemma policy_reasons_distinct: "distinct (policy_reasons r e)"
  unfolding policy_reasons_def by (rule distinct_map_filter) (simp add: policy_checks_def)

lemma stricter_rules_refuse_more:
  assumes "stricter r r'" "Evaluate r e = Inr d"
  shows "\<exists>d'. Evaluate r' e = Inr d' \<and> (de_Allowed d' \<longleftrightarrow> de_Reasons d' = [])
     \<and> sorted (de_Reasons d') \<and> distinct (de_Reasons d') \<and> set (de_Reasons d) \<subseteq> set (de_Reasons d')"
proof -
  have v: "ru_APIVersion r' = ru_APIVersion r" using assms(1) by (simp add: stricter_def)
  then show ?thesis
    using assms(2) stricter_reasons [OF assms(1), of e] policy_reasons_distinct [of r' e]
    by (auto simp: Evaluate_def Let_def split: if_splits)
qed

section \<open>A concrete pipeline\<close>

definition strict_rules :: Rules where
  "strict_rules = \<lparr>ru_APIVersion = ''platform-factory.dev/policy/v1'', ru_RequirePins = True, ru_RequireHardening = True,
     ru_RequireSBOM = True, ru_RequireProvenance = False, ru_RequireSignature = True, ru_RequireReproducible = False\<rparr>"

definition signed :: "Evidence \<Rightarrow> Evidence" where
  "signed e = e\<lparr>ev_SubjectDigest := ''sha256:x'', ev_SBOM := True, ev_Provenance := False, ev_Signature := True,
     ev_Reproducible := False, ev_CapabilitiesDropped := True, ev_SecretsAbsent := True\<rparr>"

text \<open>The stages of this pipeline have no base image, so pins are refused and nothing else.\<close>

theorem policy_allows_iff_witness:
  "\<not> (\<exists>d. Evaluate strict_rules (signed (DerivePipelineEvidence diamond [])) = Inr d \<and> de_Allowed d)
   \<and> (\<exists>d. Evaluate (strict_rules\<lparr>ru_RequirePins := False, ru_RequireHardening := False\<rparr>)
          (signed (DerivePipelineEvidence diamond [])) = Inr d \<and> de_Allowed d)"
proof -
  have a: "Analyze diamond = Inr diamond_graph" by code_simp
  have b: "\<not> list_all (\<lambda>st. \<exists>b. sg_Base st = Some b \<and> ValidDigest (im_Digest b)) (pl_Stages diamond)"
    by (simp add: diamond_def plain_pipeline_def plain_stage_def)
  show ?thesis
    unfolding policy_allows_iff [OF a signed_def, THEN conjunct1]
    using b by (simp add: strict_rules_def policyAPIVersion_def)
qed

end
