(* ===== verification/Edge_Order.thy ===== *)
theory Edge_Order
  imports Kahn
begin

text \<open>
  The ordering loop of \<^verbatim>\<open>migration/planner.go\<close>, \<^verbatim>\<open>topologicalResourceIDs\<close>, on identifiers and
  edges \<^term>\<open>(f, t)\<close> meaning that \<open>f\<close> depends on \<open>t\<close>; parallel edges are counted. The
  reference is the order that always takes the least identifier whose dependencies are all
  placed. The loop computes it and finds a place for every identifier exactly when the
  edges have no cycle.
\<close>

section \<open>The loops\<close>

fun count_edges ::
  "('k \<times> 'k) list \<Rightarrow> ('k, int) gomap \<times> ('k, 'k list) gomap \<Rightarrow> ('k, int) gomap \<times> ('k, 'k list) gomap" where
  "count_edges [] s = s"
| "count_edges ((f, t) # es) (indegree, children) =
     count_edges es (gm_put f (gm_or indegree 0 f + 1) indegree, gm_put t (gm_or children [] t @ [f]) children)"

fun release_children :: "'k :: linorder list \<Rightarrow> ('k, int) gomap \<times> 'k list \<Rightarrow> ('k, int) gomap \<times> 'k list" where
  "release_children [] s = s"
| "release_children (c # cs) (indegree, ready) =
     (let k = gm_or indegree 0 c - 1
      in release_children cs (gm_put c k indegree, if k = 0 then sort (ready @ [c]) else ready))"

lemma release_children_decrement:
  "fst (release_children cs (ind, ready)) = fst (decrement cs (ind, []))
   \<and> mset (snd (release_children cs (ind, ready))) = mset ready + mset (snd (decrement cs (ind, [])))
   \<and> (sorted ready \<longrightarrow> sorted (snd (release_children cs (ind, ready))))"
proof (induction cs arbitrary: ind ready)
  case (Cons c cs)
  show ?case
  proof (cases "gm_or ind 0 c = 1")
    case True
    then show ?thesis
      using Cons.IH [of "gm_put c 0 ind" "sort (ready @ [c])"] decrement_acc [of cs "gm_put c 0 ind" "[c]"]
      by (simp add: Let_def)
  next
    case False
    with Cons.IH [of "gm_put c (gm_or ind 0 c - 1) ind" ready] show ?thesis by (simp add: Let_def)
  qed
qed simp

lemma release_children_eq:
  assumes "decrement cs (ind, []) = (ind', released)" "sorted ready"
  shows "release_children cs (ind, ready) = (ind', sort (ready @ released))"
proof -
  have "sort (ready @ released) = snd (release_children cs (ind, ready))"
    using release_children_decrement [of cs ind ready] assms by (intro properties_for_sort) auto
  then show ?thesis using release_children_decrement [of cs ind ready] assms by (metis fst_conv prod.collapse)
qed

lemma card_waiting_decrement:
  assumes "decrement cs (ind, []) = (ind', nxt)"
  shows "card (waiting ind') + length nxt = card (waiting ind)"
proof -
  have w: "waiting ind' = waiting ind - set nxt" "set nxt \<subseteq> waiting ind"
    using waiting_decrement released_waiting assms by (metis fst_conv snd_conv)+
  have "distinct nxt" using decrement_next_distinct [of "(ind, [])" cs] assms by simp
  then have "card (set nxt) = length nxt" by (rule distinct_card)
  then show ?thesis using w card_mono [OF finite_waiting w(2)] by (simp add: card_Diff_subset)
qed

function order_loop :: "('k :: linorder, 'k list) gomap \<Rightarrow> ('k, int) gomap \<Rightarrow> 'k list \<Rightarrow> 'k list \<Rightarrow> 'k list" where
  "order_loop children indegree [] order = order"
| "order_loop children indegree (i # ready) order =
     (case release_children (sort (gm_or children [] i)) (indegree, ready) of
        (indegree', ready') \<Rightarrow> order_loop children indegree' ready' (order @ [i]))"
  by pat_completeness auto
termination
proof (relation "measure (\<lambda>(c, ind, ready, ord). card (waiting ind) + length ready)", goal_cases)
  case (2 children ind i ready ord ind' ready')
  obtain ind'' released where d: "decrement (sort (gm_or children [] i)) (ind, []) = (ind'', released)" by fastforce
  have "ind' = ind''" "mset ready' = mset ready + mset released"
    using 2 d release_children_decrement [of "sort (gm_or children [] i)" ind ready] by (metis fst_conv snd_conv)+
  then have "length ready' = length ready + length released" by (metis size_mset size_union)
  with card_waiting_decrement [OF d] \<open>ind' = ind''\<close> show ?case by simp
qed simp

section \<open>The reference\<close>

definition placeable :: "('k \<times> 'k) list \<Rightarrow> 'k list \<Rightarrow> 'k list \<Rightarrow> 'k list" where
  "placeable es V P = filter (\<lambda>k. k \<notin> set P \<and> list_all (\<lambda>(f, t). f = k \<longrightarrow> t \<in> set P) es) V"

fun least_first :: "nat \<Rightarrow> ('k :: linorder \<times> 'k) list \<Rightarrow> 'k list \<Rightarrow> 'k list \<Rightarrow> 'k list" where
  "least_first 0 es V P = P"
| "least_first (Suc n) es V P =
     (case sort (placeable es V P) of [] \<Rightarrow> P | k # _ \<Rightarrow> least_first n es V (P @ [k]))"

definition unplaced :: "('k \<times> 'k) list \<Rightarrow> 'k list \<Rightarrow> 'k \<Rightarrow> nat" where
  "unplaced es P k = length (filter (\<lambda>(f, t). f = k \<and> t \<notin> set P) es)"

definition edges_into :: "('k \<times> 'k) list \<Rightarrow> 'k \<Rightarrow> 'k list" where
  "edges_into es t = map fst (filter (\<lambda>e. snd e = t) es)"

lemma count_edges_children:
  "gm_or (snd (count_edges es s)) [] t = gm_or (snd s) [] t @ edges_into es t"
  by (induction es s rule: count_edges.induct) (auto simp: edges_into_def)

lemma count_edges_indegree:
  "gm_or (fst (count_edges es s)) 0 k = gm_or (fst s) 0 k + int (length (filter (\<lambda>e. fst e = k) es))"
  by (induction es s rule: count_edges.induct) auto

lemma count_edges_keys: "set (gm_keys (fst (count_edges es s))) = set (gm_keys (fst s)) \<union> fst ` set es"
  by (induction es s rule: count_edges.induct) (auto simp: gm_keys_put simp del: set_map)

lemma count_edges_distinct: "distinct (gm_keys (fst s)) \<Longrightarrow> distinct (gm_keys (fst (count_edges es s)))"
  by (induction es s rule: count_edges.induct) auto

lemma unplaced_zero: "unplaced es P k = 0 \<longleftrightarrow> list_all (\<lambda>(f, t). f = k \<longrightarrow> t \<in> set P) es"
  by (auto simp: unplaced_def filter_empty_conv list_all_iff)

lemma unplaced_place:
  assumes "i \<notin> set P"
  shows "unplaced es P k = unplaced es (P @ [i]) k + count_list (edges_into es i) k"
  using assms by (induction es) (auto simp: unplaced_def edges_into_def)

definition loop_inv :: "('k :: linorder \<times> 'k) list \<Rightarrow> 'k list \<Rightarrow> 'k list \<Rightarrow> ('k, int) gomap \<Rightarrow> 'k list \<Rightarrow> bool" where
  "loop_inv es V P ind ready \<longleftrightarrow> (\<forall>k. gm_or ind 0 k = int (unplaced es P k))
     \<and> (\<forall>k\<in>set P. unplaced es P k = 0) \<and> ready = sort (placeable es V P)"

lemma placeable_set: "set (placeable es V P) = {k \<in> set V. k \<notin> set P \<and> unplaced es P k = 0}"
  by (auto simp: placeable_def unplaced_zero)

lemma loop_inv_step:
  assumes inv: "loop_inv es V P ind (i # rest)" and V: "distinct V" "fst ` set es \<subseteq> set V"
    and d: "decrement (sort (edges_into es i)) (ind, []) = (ind', released)"
  shows "loop_inv es V (P @ [i]) ind' (sort (rest @ released))"
proof -
  have srt: "i # rest = sort (placeable es V P)" using inv by (simp add: loop_inv_def)
  have ready: "set (i # rest) = set (placeable es V P)" "distinct (i # rest)"
    unfolding srt using V(1) by (simp_all add: placeable_def)
  have i: "i \<notin> set P" "i \<in> set V" using ready(1) by (auto simp: placeable_set)
  have cnt: "gm_or ind 0 k = int (unplaced es P k)" for k using inv by (simp add: loop_inv_def)
  have dec: "gm_or ind' 0 k = int (unplaced es (P @ [i]) k)" for k
    using decrement_indegree [of "sort (edges_into es i)" "(ind, [])" k] d cnt unplaced_place [OF i(1), of es k] by simp
  have rel: "set released = {k. 0 < unplaced es P k \<and> unplaced es (P @ [i]) k = 0}"
    using decrement_next [of "sort (edges_into es i)" "(ind, [])"] d cnt unplaced_place [OF i(1), of es] by auto
  have dist: "distinct released" using decrement_next_distinct [of "(ind, [])"] d by (metis distinct.simps(1) empty_iff empty_set snd_conv)
  have sub: "set released \<subseteq> set V"
  proof
    fix k assume "k \<in> set released"
    then have "unplaced es P k \<noteq> 0" using rel by auto
    then have "\<exists>t. (k, t) \<in> set es" by (auto simp: unplaced_def filter_empty_conv)
    then show "k \<in> set V" using V(2) by force
  qed
  have "unplaced es P k = 0" if "k \<in> set rest" for k using ready(1) that by (auto simp: placeable_set)
  then have disj: "set rest \<inter> set released = {}" using rel by fastforce
  have mono: "unplaced es (P @ [i]) k \<le> unplaced es P k" for k using unplaced_place [OF i(1), of es k] by simp
  have iz: "unplaced es P i = 0" using ready(1) by (auto simp: placeable_set)
  have P0: "unplaced es P k = 0" if "k \<in> set P" for k using inv that by (simp add: loop_inv_def)
  have rest: "k \<in> set rest \<longleftrightarrow> k \<in> set V \<and> k \<notin> set P \<and> k \<noteq> i \<and> unplaced es P k = 0" for k
    using ready by (auto simp: placeable_set)
  have "set (rest @ released) = set (placeable es V (P @ [i]))"
  proof (rule set_eqI)
    fix k
    show "k \<in> set (rest @ released) \<longleftrightarrow> k \<in> set (placeable es V (P @ [i]))"
    proof (cases "unplaced es P k = 0")
      case True
      then have "unplaced es (P @ [i]) k = 0" "k \<notin> set released" using mono [of k] rel by auto
      with True rest [of k] show ?thesis by (auto simp: placeable_set)
    next
      case False
      then have "k \<notin> set P" "k \<noteq> i" "k \<notin> set rest" using P0 iz rest [of k] by auto
      with False rel sub show ?thesis by (auto simp: placeable_set)
    qed
  qed
  moreover have "distinct (rest @ released)" "distinct (placeable es V (P @ [i]))"
    using ready(2) dist disj V(1) by (auto simp: placeable_def)
  ultimately have "sort (rest @ released) = sort (placeable es V (P @ [i]))" by (intro sort_set_eq) auto
  moreover have "unplaced es (P @ [i]) k = 0" if "k \<in> set (P @ [i])" for k
    using that P0 [of k] iz mono [of k] by auto
  ultimately show ?thesis using dec by (simp add: loop_inv_def)
qed

lemma order_loop_least_first:
  assumes V: "distinct V" "fst ` set es \<subseteq> set V" and ch: "\<And>t. gm_or children [] t = edges_into es t"
  shows "loop_inv es V P ind ready \<Longrightarrow> distinct P \<Longrightarrow> set P \<subseteq> set V \<Longrightarrow> length V < length P + n \<Longrightarrow>
     order_loop children ind ready P = least_first n es V P"
proof (induction n arbitrary: P ind ready)
  case 0
  then have "length P \<le> length V" by (metis V(1) card_mono distinct_card finite_set)
  with 0 show ?case by simp
next
  case (Suc n)
  have rd: "ready = sort (placeable es V P)" using Suc.prems(1) by (simp add: loop_inv_def)
  show ?case
  proof (cases ready)
    case Nil
    with rd show ?thesis by (metis least_first.simps(2) list.simps(4) order_loop.simps(1))
  next
    case (Cons i rest)
    obtain ind' released where d: "decrement (sort (edges_into es i)) (ind, []) = (ind', released)" by fastforce
    have "set (i # rest) = set (placeable es V P)" using rd Cons by (metis set_sort)
    then have i: "i \<in> set V" "i \<notin> set P" by (auto simp: placeable_set)
    have "loop_inv es V (P @ [i]) ind' (sort (rest @ released))"
      using loop_inv_step [OF _ V d] Suc.prems(1) Cons by simp
    then have "order_loop children ind' (sort (rest @ released)) (P @ [i]) = least_first n es V (P @ [i])"
      using Suc.prems i by (intro Suc.IH) auto
    moreover have "sorted rest" using rd Cons by (metis sorted_simps(2) sorted_sort)
    ultimately show ?thesis using Cons rd [symmetric] ch release_children_eq [OF d] by simp
  qed
qed

section \<open>What the order means\<close>

definition edge_rel :: "('k \<times> 'k) list \<Rightarrow> ('k \<times> 'k) set" where
  "edge_rel es = {(t, f). (f, t) \<in> set es}"

definition dependencies_first :: "('k \<times> 'k) list \<Rightarrow> 'k list \<Rightarrow> bool" where
  "dependencies_first es xs \<longleftrightarrow> (\<forall>i<length xs. \<forall>t. (xs ! i, t) \<in> set es \<longrightarrow> t \<in> set (take i xs))"

lemma dependencies_first_snoc:
  "dependencies_first es (P @ [k]) \<longleftrightarrow> dependencies_first es P \<and> list_all (\<lambda>(f, t). f = k \<longrightarrow> t \<in> set P) es"
  by (fastforce simp: dependencies_first_def list_all_iff nth_append less_Suc_eq split: if_splits)

lemma placeable_hd:
  assumes "sort (placeable es V P) = k # ks"
  shows "k \<in> set V \<and> k \<notin> set P \<and> list_all (\<lambda>(f, t). f = k \<longrightarrow> t \<in> set P) es \<and> (\<forall>k'\<in>set (placeable es V P). k \<le> k')"
proof -
  have "set (k # ks) = set (placeable es V P)" using assms by (metis set_sort)
  moreover have "\<forall>x\<in>set ks. k \<le> x" using sorted_sort [of "placeable es V P"] assms by simp
  ultimately show ?thesis by (auto simp: placeable_def)
qed

lemma least_first_props:
  "distinct P \<Longrightarrow> set P \<subseteq> set V \<Longrightarrow> dependencies_first es P \<Longrightarrow>
     distinct (least_first n es V P) \<and> set (least_first n es V P) \<subseteq> set V \<and> dependencies_first es (least_first n es V P)"
proof (induction n arbitrary: P)
  case (Suc n)
  show ?case
  proof (cases "sort (placeable es V P)")
    case Nil
    with Suc.prems show ?thesis by simp
  next
    case (Cons k ks)
    note k = placeable_hd [OF Cons]
    have "distinct (P @ [k])" "set (P @ [k]) \<subseteq> set V" "dependencies_first es (P @ [k])"
      using Suc.prems k by (auto simp: dependencies_first_snoc)
    from Suc.IH [OF this] Cons show ?thesis by simp
  qed
qed simp

lemma least_first_exhausted:
  "distinct V \<Longrightarrow> distinct P \<Longrightarrow> set P \<subseteq> set V \<Longrightarrow> length V < length P + n \<Longrightarrow> placeable es V (least_first n es V P) = []"
proof (induction n arbitrary: P)
  case 0
  then have "length P \<le> length V" by (metis card_mono distinct_card finite_set)
  with 0 show ?case by simp
next
  case (Suc n)
  show ?case
  proof (cases "sort (placeable es V P)")
    case Nil
    then show ?thesis by simp
  next
    case (Cons k ks)
    with placeable_hd [OF Cons] Suc show ?thesis by simp
  qed
qed

lemma order_complete_iff:
  assumes V: "distinct V" and es: "fst ` set es \<subseteq> set V" "snd ` set es \<subseteq> set V" and n: "length V < n"
  shows "length (least_first n es V []) = length V \<longleftrightarrow> acyclic (edge_rel es)"
proof -
  let ?O = "least_first n es V []"
  have p: "distinct ?O" "set ?O \<subseteq> set V" "dependencies_first es ?O"
    using least_first_props [of "[]" V es n] by (auto simp: dependencies_first_def)
  have len: "length ?O = length V \<longleftrightarrow> set V \<subseteq> set ?O"
    using p V by (metis card_subset_eq distinct_card finite_set order_refl subset_antisym)
  show ?thesis
  proof
    assume "length ?O = length V"
    then have all: "set V \<subseteq> set ?O" using len by simp
    define pos where "pos k = (LEAST i. i < length ?O \<and> ?O ! i = k)" for k
    have pos: "pos k < length ?O \<and> ?O ! pos k = k" if "k \<in> set V" for k
    proof -
      have "k \<in> set ?O" using that all by blast
      then obtain i where "i < length ?O \<and> ?O ! i = k" unfolding in_set_conv_nth by blast
      then show ?thesis unfolding pos_def by (rule LeastI)
    qed
    have "pos t < pos f" if "(t, f) \<in> edge_rel es" for t f
    proof -
      have e: "(f, t) \<in> set es" "f \<in> set V" using that es(1) by (auto simp: edge_rel_def)
      have "t \<in> set (take (pos f) ?O)" using p(3) pos [OF e(2)] e(1) unfolding dependencies_first_def by metis
      then obtain i where i: "i < pos f" "?O ! i = t" using pos [OF e(2)] unfolding in_set_conv_nth by force
      have "pos t \<le> i" unfolding pos_def using i pos [OF e(2)] by (intro Least_le) simp
      with i show ?thesis by simp
    qed
    then show "acyclic (edge_rel es)" by (rule order_acyclic)
  next
    assume "acyclic (edge_rel es)"
    moreover have "finite (edge_rel es)" by (rule finite_subset [of _ "(\<lambda>(f, t). (t, f)) ` set es"]) (auto simp: edge_rel_def)
    ultimately have wf: "wf (edge_rel es)" by (simp add: finite_acyclic_wf)
    have "set V - set ?O = {}"
    proof (rule ccontr)
      assume "set V - set ?O \<noteq> {}"
      then obtain k where k: "k \<in> set V - set ?O" and min: "\<And>t. (t, k) \<in> edge_rel es \<Longrightarrow> t \<notin> set V - set ?O"
        using wf by (metis wfE_min all_not_in_conv)
      have "t \<in> set ?O" if "(k, t) \<in> set es" for t using min [of t] that es(2) by (force simp: edge_rel_def)
      with k have "k \<in> set (placeable es V ?O)" by (auto simp: placeable_def list_all_iff)
      with least_first_exhausted [of V "[]" n es] V n show False by simp
    qed
    then show "length ?O = length V" using len by auto
  qed
qed

end
