(* ===== verification/Migration_Model.thy ===== *)
theory Migration_Model
  imports Edge_Order Go_Text
begin

text \<open>
  The migration domain of \<^verbatim>\<open>internal/migration/model.go\<close>: discovered resources, their
  dependencies, gaps and observations, the checks of \<^verbatim>\<open>Aggregate.Validate\<close> and the
  canonical form. Slices are lists (a nil and an empty slice are the same list) and maps
  are association lists; copying a map lists it by key, the order \<^verbatim>\<open>encoding/json\<close> writes.
  Shown: validation accepts exactly the well-formed aggregates without a cycle, and the
  canonical form does not depend on the order in which anything was discovered.
\<close>

section \<open>Data\<close>

record ResourceOrigin =
  og_Source :: string
  og_NativeType :: string
  og_NativeID :: string

record Requirement =
  rq_Capability :: string
  rq_Version :: string

record Resource =
  rs_ID :: string
  rs_Kind :: string
  rs_Origin :: ResourceOrigin
  rs_Attributes :: "(string, string) gomap"
  rs_Requirements :: "Requirement list"

record DependencyEdge =
  eg_From :: string
  eg_To :: string
  eg_Relation :: string
  eg_Required :: bool

record UnknownObservation =
  uo_Source :: string
  uo_Kind :: string
  uo_Scope :: string
  uo_Reason :: string

record CompatibilityGap =
  cg_ResourceID :: string
  cg_Requirement :: string
  cg_Compatibility :: string
  cg_Reason :: string
  cg_LostGuarantee :: string
  cg_RequiresApproval :: bool

record ExternalDependency =
  xd_ResourceID :: string
  xd_Kind :: string
  xd_Reference :: string
  xd_Required :: bool

record Transformation =
  tf_ResourceID :: string
  tf_Field :: string
  tf_From :: string
  tf_To :: string
  tf_Reason :: string

record Aggregate =
  ag_Discovery :: string
  ag_Resources :: "Resource list"
  ag_Edges :: "DependencyEdge list"
  ag_Unknowns :: "UnknownObservation list"
  ag_Gaps :: "CompatibilityGap list"
  ag_External :: "ExternalDependency list"
  ag_Transformations :: "Transformation list"

abbreviation DiscoveryComplete :: string where "DiscoveryComplete \<equiv> ''complete''"
abbreviation DiscoveryPartial :: string where "DiscoveryPartial \<equiv> ''partial''"
abbreviation DiscoveryFailed :: string where "DiscoveryFailed \<equiv> ''failed''"

definition MaxResources :: int where "MaxResources = 100000"
definition MaxEdges :: int where "MaxEdges = 200000"
definition MaxRequirements :: int where "MaxRequirements = 1024"
definition MaxUnknowns :: int where "MaxUnknowns = 100000"
definition MaxGaps :: int where "MaxGaps = 100000"
definition MaxAttributes :: int where "MaxAttributes = 1024"

text \<open>A validation error: the format of the message and its arguments, or the context it is wrapped with.\<close>

datatype migration_error = Invalid string "string list" | Within string migration_error

section \<open>Text\<close>

definition invalidText :: "string \<Rightarrow> bool" where
  "invalidText v \<longleftrightarrow> TrimSpace v = [] \<or> NUL \<in> set v \<or> 1024 < length v"

definition invalidOptionalText :: "string \<Rightarrow> bool" where
  "invalidOptionalText v \<longleftrightarrow> NUL \<in> set v \<or> 1024 < length v"

definition secretKey :: "string \<Rightarrow> bool" where
  "secretKey v =
     (let normalized = to_lower (map (\<lambda>c. if c = CHR ''-'' \<or> c = CHR ''.'' then CHR ''_'' else c) v) in
      list_ex (\<lambda>marker. normalized = marker \<or> has_suffix normalized (CHR ''_'' # marker))
        [''password'', ''passwd'', ''secret'', ''private_key'', ''access_token'', ''api_key'', ''credential''])"

definition secretValue :: "string \<Rightarrow> bool" where
  "secretValue v =
     (let normalized = to_lower (TrimSpace v) in
      list_ex (contains normalized)
        [''secret-sentinel'', ''password='', ''passwd='', ''secret='', ''access_token='', ''api_key='',
         ''private_key='', ''-----begin private key'', ''-----begin rsa private key''])"

definition Sprint :: "bool \<Rightarrow> string" where
  "Sprint b = (if b then ''true'' else ''false'')"

definition edgeKey :: "DependencyEdge \<Rightarrow> string" where
  "edgeKey e = eg_From e @ [NUL] @ eg_To e @ [NUL] @ eg_Relation e @ Sprint (eg_Required e)"

definition unknownKey :: "UnknownObservation \<Rightarrow> string" where
  "unknownKey u = uo_Source u @ [NUL] @ uo_Kind u @ [NUL] @ uo_Scope u @ [NUL] @ uo_Reason u"

definition gapKey :: "CompatibilityGap \<Rightarrow> string" where
  "gapKey g = cg_ResourceID g @ [NUL] @ cg_Requirement g @ [NUL] @ cg_Compatibility g @ [NUL] @ cg_Reason g @ [NUL]
     @ cg_LostGuarantee g @ Sprint (cg_RequiresApproval g)"

definition externalDependencyKey :: "ExternalDependency \<Rightarrow> string" where
  "externalDependencyKey d = xd_ResourceID d @ [NUL] @ xd_Kind d @ [NUL] @ xd_Reference d @ Sprint (xd_Required d)"

definition transformationKey :: "Transformation \<Rightarrow> string" where
  "transformationKey t = tf_ResourceID t @ [NUL] @ tf_Field t @ [NUL] @ tf_From t @ [NUL] @ tf_To t @ [NUL] @ tf_Reason t"

definition requirementKey :: "Requirement \<Rightarrow> string" where
  "requirementKey r = rq_Capability r @ [NUL] @ rq_Version r"

definition originKey :: "Resource \<Rightarrow> string" where
  "originKey r = og_Source (rs_Origin r) @ [NUL] @ og_NativeType (rs_Origin r) @ [NUL] @ og_NativeID (rs_Origin r)"

definition validDiscovery :: "string \<Rightarrow> bool" where
  "validDiscovery s \<longleftrightarrow> s = DiscoveryComplete \<or> s = DiscoveryPartial \<or> s = DiscoveryFailed"

definition validCompatibility :: "string \<Rightarrow> bool" where
  "validCompatibility s \<longleftrightarrow> s = ''direct'' \<or> s = ''adaptable'' \<or> s = ''degraded'' \<or> s = ''unsupported''"

definition resourceHasRequirement :: "Resource list \<Rightarrow> string \<Rightarrow> string \<Rightarrow> bool" where
  "resourceHasRequirement rs i name \<longleftrightarrow>
     list_ex (\<lambda>r. rs_ID r = i \<and> list_ex (\<lambda>q. name = rq_Capability q \<or> name = rq_Capability q @ ''@'' @ rq_Version q)
       (rs_Requirements r)) rs"

section \<open>Validation\<close>

definition validateResource :: "Resource \<Rightarrow> migration_error option" where
  "validateResource r =
     or_else (reject_if (invalidText (rs_ID r) \<or> invalidText (rs_Kind r) \<or> invalidText (og_Source (rs_Origin r))
          \<or> invalidText (og_NativeType (rs_Origin r)) \<or> invalidText (og_NativeID (rs_Origin r)))
        (Invalid ''resource contains an empty or invalid identity field'' []))
     (or_else (reject_if (MaxRequirements < int (length (rs_Requirements r))) (Invalid ''resource %q has too many requirements'' [rs_ID r]))
     (or_else (check_fresh requirementKey
          (\<lambda>q. reject_if (invalidText (rq_Capability q) \<or> invalidText (rq_Version q)) (Invalid ''resource %q has an invalid requirement'' [rs_ID r]))
          (\<lambda>q. Invalid ''resource %q has a duplicate requirement'' [rs_ID r]) [] (rs_Requirements r))
     (or_else (reject_if (MaxAttributes < int (length (rs_Attributes r))) (Invalid ''resource %q has too many attributes'' [rs_ID r]))
        (check_each (\<lambda>(k, v). reject_if (invalidText k \<or> secretKey k \<or> invalidOptionalText v \<or> secretValue v)
          (Invalid ''resource %q has a secret-like key or invalid attribute'' [rs_ID r])) (rs_Attributes r)))))"

fun check_resources :: "string list \<Rightarrow> string list \<Rightarrow> Resource list \<Rightarrow> migration_error option" where
  "check_resources ids origins [] = None"
| "check_resources ids origins (r # rs) =
     or_else (validateResource r)
     (or_else (reject_if (rs_ID r \<in> set ids) (Invalid ''duplicate resource ID %q'' [rs_ID r]))
     (or_else (reject_if (originKey r \<in> set origins) (Invalid ''duplicate resource origin'' []))
        (check_resources (rs_ID r # ids) (originKey r # origins) rs)))"

definition check_edge :: "string list \<Rightarrow> DependencyEdge \<Rightarrow> migration_error option" where
  "check_edge ids e =
     or_else (reject_if (invalidText (eg_From e) \<or> invalidText (eg_To e) \<or> invalidText (eg_Relation e))
        (Invalid ''dependency edge contains an empty or invalid field'' []))
     (or_else (reject_if (eg_From e = eg_To e) (Invalid ''resource %q depends on itself'' [eg_From e]))
     (or_else (reject_if (eg_From e \<notin> set ids) (Invalid ''dependency edge references unknown resource %q'' [eg_From e]))
        (reject_if (eg_To e \<notin> set ids) (Invalid ''dependency edge references unknown resource %q'' [eg_To e]))))"

definition check_unknown :: "UnknownObservation \<Rightarrow> migration_error option" where
  "check_unknown u = reject_if (invalidText (uo_Source u) \<or> invalidText (uo_Kind u) \<or> invalidText (uo_Scope u)
     \<or> invalidText (uo_Reason u)) (Invalid ''unknown observation contains an empty or invalid field'' [])"

definition check_gap :: "string list \<Rightarrow> Resource list \<Rightarrow> CompatibilityGap \<Rightarrow> migration_error option" where
  "check_gap ids rs g =
     or_else (reject_if (cg_ResourceID g \<notin> set ids) (Invalid ''compatibility gap references unknown resource %q'' [cg_ResourceID g]))
     (or_else (reject_if (invalidText (cg_Requirement g) \<or> invalidText (cg_Reason g) \<or> \<not> validCompatibility (cg_Compatibility g))
        (Invalid ''invalid compatibility gap'' []))
     (or_else (reject_if (invalidOptionalText (cg_LostGuarantee g)) (Invalid ''compatibility gap contains an invalid lost guarantee'' []))
        (reject_if (\<not> resourceHasRequirement rs (cg_ResourceID g) (cg_Requirement g))
          (Invalid ''compatibility gap references unknown requirement %q on resource %q'' [cg_Requirement g, cg_ResourceID g]))))"

definition check_external :: "string list \<Rightarrow> ExternalDependency \<Rightarrow> migration_error option" where
  "check_external ids d = reject_if (xd_ResourceID d \<notin> set ids \<or> invalidText (xd_Kind d) \<or> invalidText (xd_Reference d)
     \<or> secretValue (xd_Reference d)) (Invalid ''invalid external dependency'' [])"

definition check_transformation :: "string list \<Rightarrow> Transformation \<Rightarrow> migration_error option" where
  "check_transformation ids t = reject_if (tf_ResourceID t \<notin> set ids \<or> invalidText (tf_Field t)
     \<or> invalidOptionalText (tf_From t) \<or> invalidOptionalText (tf_To t) \<or> invalidText (tf_Reason t) \<or> secretKey (tf_Field t)
     \<or> secretValue (tf_From t) \<or> secretValue (tf_To t)) (Invalid ''invalid or secret-like transformation'' [])"

abbreviation edge_pair :: "DependencyEdge \<Rightarrow> string \<times> string" where
  "edge_pair e \<equiv> (eg_From e, eg_To e)"

definition topologicalResourceIDs :: "Resource list \<Rightarrow> DependencyEdge list \<Rightarrow> migration_error + string list" where
  "topologicalResourceIDs rs es =
     (let indegree0 = foldl (\<lambda>m r. gm_put (rs_ID r) 0 m) [] rs;
          (indegree, children) = count_edges (map edge_pair es) (indegree0, []);
          ready = sort (map fst (filter (\<lambda>(i, d). d = 0) indegree));
          order = order_loop children indegree ready []
      in if length order \<noteq> length rs then Inl (Invalid ''dependency graph contains a cycle'' []) else Inr order)"

definition Validate :: "Aggregate \<Rightarrow> migration_error option" where
  "Validate a =
     (let ids = map rs_ID (ag_Resources a) in
      or_else (reject_if (\<not> validDiscovery (ag_Discovery a)) (Invalid ''invalid discovery status'' []))
     (or_else (reject_if (ag_Discovery a = DiscoveryPartial \<and> length (ag_Unknowns a) = 0)
        (Invalid ''partial discovery must preserve at least one unknown observation'' []))
     (or_else (reject_if (MaxResources < int (length (ag_Resources a)) \<or> MaxEdges < int (length (ag_Edges a))
          \<or> MaxUnknowns < int (length (ag_Unknowns a)) \<or> MaxGaps < int (length (ag_Gaps a)))
        (Invalid ''aggregate exceeds collection limit'' []))
     (or_else (check_resources [] [] (ag_Resources a))
     (or_else (check_fresh edgeKey (check_edge ids) (\<lambda>e. Invalid ''duplicate dependency edge'' []) [] (ag_Edges a))
     (or_else (check_fresh unknownKey check_unknown (\<lambda>u. Invalid ''duplicate unknown observation'' []) [] (ag_Unknowns a))
     (or_else (check_fresh gapKey (check_gap ids (ag_Resources a)) (\<lambda>g. Invalid ''duplicate compatibility gap'' []) [] (ag_Gaps a))
     (or_else (check_fresh externalDependencyKey (check_external ids) (\<lambda>d. Invalid ''duplicate external dependency'' []) []
          (ag_External a))
     (or_else (check_fresh transformationKey (check_transformation ids) (\<lambda>t. Invalid ''duplicate transformation'' []) []
          (ag_Transformations a))
        (case topologicalResourceIDs (ag_Resources a) (ag_Edges a) of Inl e \<Rightarrow> Some e | Inr _ \<Rightarrow> None))))))))))"

section \<open>The canonical form\<close>

definition cloneMap :: "(string, string) gomap \<Rightarrow> (string, string) gomap" where
  "cloneMap m = sort_key fst m"

definition canonical_resource :: "Resource \<Rightarrow> Resource" where
  "canonical_resource r = r\<lparr>rs_Attributes := cloneMap (rs_Attributes r),
     rs_Requirements := sort_key requirementKey (rs_Requirements r)\<rparr>"

definition Canonical :: "Aggregate \<Rightarrow> Aggregate" where
  "Canonical a = a\<lparr>ag_Resources := sort_key rs_ID (map canonical_resource (ag_Resources a)),
     ag_Edges := sort_key edgeKey (ag_Edges a), ag_Unknowns := sort_key unknownKey (ag_Unknowns a),
     ag_Gaps := sort_key gapKey (ag_Gaps a), ag_External := sort_key externalDependencyKey (ag_External a),
     ag_Transformations := sort_key transformationKey (ag_Transformations a)\<rparr>"

section \<open>Ordering the resources\<close>

lemma indegree0: "distinct (map rs_ID rs) \<Longrightarrow> foldl (\<lambda>m r. gm_put (rs_ID r) 0 m) [] rs = map (\<lambda>r. (rs_ID r, 0)) rs"
proof (induction rs rule: rev_induct)
  case (snoc r rs)
  then show ?case by (simp add: gm_put_new comp_def)
qed simp

lemma ready_initial:
  assumes ids: "distinct (map rs_ID rs)" and es: "fst ` set es \<subseteq> set (map rs_ID rs)"
    and c: "count_edges es (map (\<lambda>r. (rs_ID r, 0)) rs, []) = (ind, children)"
  shows "loop_inv es (map rs_ID rs) [] ind (sort (map fst (filter (\<lambda>(i, d). d = 0) ind)))"
proof -
  let ?s = "(map (\<lambda>r. (rs_ID r, 0 :: int)) rs, [] :: (string, string list) gomap)"
  have z: "gm_or (map (\<lambda>r. (rs_ID r, 0 :: int)) rs) 0 k = 0" for k
    by (auto simp: gm_or_def split: option.split dest!: map_of_SomeD)
  have cnt: "gm_or ind 0 k = int (unplaced es [] k)" for k
    using count_edges_indegree [of es ?s k] c z by (simp add: unplaced_def case_prod_unfold)
  have keys: "set (gm_keys ind) = set (map rs_ID rs)"
    using count_edges_keys [of es ?s] c es by auto
  have dist: "distinct (gm_keys ind)" using count_edges_distinct [of ?s es] c ids by (simp add: comp_def)
  have "k \<in> set (map fst (filter (\<lambda>(i, d). d = 0) ind)) \<longleftrightarrow> k \<in> set (gm_keys ind) \<and> gm_or ind 0 k = 0" for k
  proof -
    have "k \<in> set (map fst (filter (\<lambda>(i, d). d = 0) ind)) \<longleftrightarrow> (k, 0) \<in> set ind" by force
    also have "\<dots> \<longleftrightarrow> gm_get ind k = Some 0" by (rule gm_get_mem [OF dist])
    also have "\<dots> \<longleftrightarrow> k \<in> set (gm_keys ind) \<and> gm_or ind 0 k = 0"
      by (auto simp: gm_keys_mem gm_or_def simp del: set_map split: option.split)
    finally show ?thesis .
  qed
  then have "set (map fst (filter (\<lambda>(i, d). d = 0) ind)) = set (placeable es (map rs_ID rs) [])"
    using keys cnt by (auto simp: placeable_set simp del: set_map)
  moreover have "distinct (map fst (filter (\<lambda>(i, d). d = 0) ind))" using dist by (rule distinct_map_filter)
  moreover have "distinct (placeable es (map rs_ID rs) [])" using ids by (simp add: placeable_def)
  ultimately have "sort (map fst (filter (\<lambda>(i, d). d = 0) ind)) = sort (placeable es (map rs_ID rs) [])"
    by (intro sort_set_eq)
  with cnt show ?thesis by (simp add: loop_inv_def)
qed

definition resource_order :: "Resource list \<Rightarrow> DependencyEdge list \<Rightarrow> string list" where
  "resource_order rs es = least_first (Suc (length rs)) (map edge_pair es) (map rs_ID rs) []"

definition edges_known :: "Resource list \<Rightarrow> DependencyEdge list \<Rightarrow> bool" where
  "edges_known rs es \<longleftrightarrow> (\<forall>e\<in>set es. eg_From e \<in> set (map rs_ID rs) \<and> eg_To e \<in> set (map rs_ID rs))"

definition depends_on :: "DependencyEdge list \<Rightarrow> (string \<times> string) set" where
  "depends_on es = {(eg_To e, eg_From e) | e. e \<in> set es}"

lemma edge_rel_pairs: "edge_rel (map edge_pair es) = depends_on es"
  by (auto simp: edge_rel_def depends_on_def)

lemma topologicalResourceIDs_eq:
  assumes ids: "distinct (map rs_ID rs)" and es: "edges_known rs es"
  shows "topologicalResourceIDs rs es =
     (if acyclic (depends_on es) then Inr (resource_order rs es) else Inl (Invalid ''dependency graph contains a cycle'' []))"
proof -
  let ?E = "map edge_pair es"
  obtain ind children where c: "count_edges ?E (map (\<lambda>r. (rs_ID r, 0)) rs, []) = (ind, children)" by fastforce
  have fr: "fst ` set ?E \<subseteq> set (map rs_ID rs)" and to: "snd ` set ?E \<subseteq> set (map rs_ID rs)"
    using es by (auto simp: edges_known_def)
  have ch: "gm_or children [] t = edges_into ?E t" for t
    using count_edges_children [of ?E "(map (\<lambda>r. (rs_ID r, 0 :: int)) rs, [])" t] c by (simp add: gm_or_def)
  have "order_loop children ind (sort (map fst (filter (\<lambda>(i, d). d = 0) ind))) [] = resource_order rs es"
    unfolding resource_order_def
    by (rule order_loop_least_first [OF ids fr ch ready_initial [OF ids fr c]]) simp_all
  moreover have "length (resource_order rs es) = length rs \<longleftrightarrow> acyclic (depends_on es)"
    using order_complete_iff [OF ids fr to, of "Suc (length rs)"] by (simp add: resource_order_def edge_rel_pairs)
  ultimately show ?thesis unfolding topologicalResourceIDs_def by (simp add: indegree0 [OF ids] c)
qed

lemma resource_order_props:
  assumes ids: "distinct (map rs_ID rs)" and es: "edges_known rs es" and ac: "acyclic (depends_on es)"
  shows "distinct (resource_order rs es)" "set (resource_order rs es) = set (map rs_ID rs)"
    "dependencies_first (map edge_pair es) (resource_order rs es)"
proof -
  have p: "distinct (resource_order rs es)" "set (resource_order rs es) \<subseteq> set (map rs_ID rs)"
    "dependencies_first (map edge_pair es) (resource_order rs es)"
    using least_first_props [of "[]" "map rs_ID rs" "map edge_pair es" "Suc (length rs)"]
    by (auto simp: resource_order_def dependencies_first_def)
  then show "distinct (resource_order rs es)" "dependencies_first (map edge_pair es) (resource_order rs es)" by auto
  have "fst ` set (map edge_pair es) \<subseteq> set (map rs_ID rs)" "snd ` set (map edge_pair es) \<subseteq> set (map rs_ID rs)"
    using es by (auto simp: edges_known_def)
  from order_complete_iff [OF ids this, of "Suc (length rs)"] ac have "length (resource_order rs es) = length (map rs_ID rs)"
    by (simp add: resource_order_def edge_rel_pairs)
  then show "set (resource_order rs es) = set (map rs_ID rs)"
    using p ids by (metis card_subset_eq distinct_card finite_set)
qed

section \<open>What validation accepts\<close>

definition valid_resource :: "Resource \<Rightarrow> bool" where
  "valid_resource r \<longleftrightarrow> \<not> invalidText (rs_ID r) \<and> \<not> invalidText (rs_Kind r) \<and> \<not> invalidText (og_Source (rs_Origin r))
     \<and> \<not> invalidText (og_NativeType (rs_Origin r)) \<and> \<not> invalidText (og_NativeID (rs_Origin r))
     \<and> int (length (rs_Requirements r)) \<le> MaxRequirements
     \<and> (\<forall>q\<in>set (rs_Requirements r). \<not> invalidText (rq_Capability q) \<and> \<not> invalidText (rq_Version q))
     \<and> distinct (map requirementKey (rs_Requirements r)) \<and> int (length (rs_Attributes r)) \<le> MaxAttributes
     \<and> (\<forall>(k, v)\<in>set (rs_Attributes r). \<not> invalidText k \<and> \<not> secretKey k \<and> \<not> invalidOptionalText v \<and> \<not> secretValue v)"

lemma validateResource_ok [ok_iff]: "validateResource r = None \<longleftrightarrow> valid_resource r"
  by (auto simp: validateResource_def valid_resource_def ok_iff not_less split: prod.splits)

lemma check_resources_ok [ok_iff]:
  "check_resources ids origins rs = None \<longleftrightarrow> (\<forall>r\<in>set rs. valid_resource r)
     \<and> distinct (map rs_ID rs) \<and> set (map rs_ID rs) \<inter> set ids = {}
     \<and> distinct (map originKey rs) \<and> set (map originKey rs) \<inter> set origins = {}"
  by (induction rs arbitrary: ids origins) (auto simp: ok_iff)

definition within_limits :: "Aggregate \<Rightarrow> bool" where
  "within_limits a \<longleftrightarrow> int (length (ag_Resources a)) \<le> MaxResources \<and> int (length (ag_Edges a)) \<le> MaxEdges
     \<and> int (length (ag_Unknowns a)) \<le> MaxUnknowns \<and> int (length (ag_Gaps a)) \<le> MaxGaps"

text \<open>Every item is well formed, names known resources and occurs once.\<close>

definition well_formed_aggregate :: "Aggregate \<Rightarrow> bool" where
  "well_formed_aggregate a \<longleftrightarrow> validDiscovery (ag_Discovery a)
     \<and> (ag_Discovery a = DiscoveryPartial \<longrightarrow> ag_Unknowns a \<noteq> []) \<and> within_limits a
     \<and> (\<forall>r\<in>set (ag_Resources a). valid_resource r)
     \<and> distinct (map rs_ID (ag_Resources a)) \<and> distinct (map originKey (ag_Resources a))
     \<and> (\<forall>e\<in>set (ag_Edges a). check_edge (map rs_ID (ag_Resources a)) e = None) \<and> distinct (map edgeKey (ag_Edges a))
     \<and> (\<forall>u\<in>set (ag_Unknowns a). check_unknown u = None) \<and> distinct (map unknownKey (ag_Unknowns a))
     \<and> (\<forall>g\<in>set (ag_Gaps a). check_gap (map rs_ID (ag_Resources a)) (ag_Resources a) g = None)
     \<and> distinct (map gapKey (ag_Gaps a))
     \<and> (\<forall>d\<in>set (ag_External a). check_external (map rs_ID (ag_Resources a)) d = None)
     \<and> distinct (map externalDependencyKey (ag_External a))
     \<and> (\<forall>t\<in>set (ag_Transformations a). check_transformation (map rs_ID (ag_Resources a)) t = None)
     \<and> distinct (map transformationKey (ag_Transformations a))"

lemma check_edge_known: "\<forall>e\<in>set es. check_edge (map rs_ID rs) e = None \<Longrightarrow> edges_known rs es"
  by (auto simp: edges_known_def check_edge_def ok_iff simp del: set_map)

lemma Validate_ok: "Validate a = None \<longleftrightarrow> well_formed_aggregate a \<and> acyclic (depends_on (ag_Edges a))"
proof -
  have topo: "(case topologicalResourceIDs (ag_Resources a) (ag_Edges a) of Inl e \<Rightarrow> Some e | Inr _ \<Rightarrow> None) = None
      \<longleftrightarrow> acyclic (depends_on (ag_Edges a))"
    if "distinct (map rs_ID (ag_Resources a))" "\<forall>e\<in>set (ag_Edges a). check_edge (map rs_ID (ag_Resources a)) e = None"
    using topologicalResourceIDs_eq [OF that(1) check_edge_known [OF that(2)]] by simp
  show ?thesis
    unfolding Validate_def Let_def ok_iff well_formed_aggregate_def within_limits_def
    using topo by (auto simp: not_less simp del: set_map)
qed

section \<open>Independence of the order of discovery\<close>

text \<open>The content of a resource and of an aggregate, without the order of its lists and maps.\<close>

definition resource_content :: "Resource \<Rightarrow> string \<times> string \<times> ResourceOrigin \<times> (string \<times> string) multiset \<times> Requirement multiset" where
  "resource_content r = (rs_ID r, rs_Kind r, rs_Origin r, mset (rs_Attributes r), mset (rs_Requirements r))"

definition same_content :: "Aggregate \<Rightarrow> Aggregate \<Rightarrow> bool" where
  "same_content a b \<longleftrightarrow> ag_Discovery a = ag_Discovery b
     \<and> mset (map resource_content (ag_Resources a)) = mset (map resource_content (ag_Resources b))
     \<and> mset (ag_Edges a) = mset (ag_Edges b) \<and> mset (ag_Unknowns a) = mset (ag_Unknowns b)
     \<and> mset (ag_Gaps a) = mset (ag_Gaps b) \<and> mset (ag_External a) = mset (ag_External b)
     \<and> mset (ag_Transformations a) = mset (ag_Transformations b)"

text \<open>Go maps have no duplicate keys.\<close>

definition maps_typed :: "Aggregate \<Rightarrow> bool" where
  "maps_typed a \<longleftrightarrow> (\<forall>r\<in>set (ag_Resources a). distinct (gm_keys (rs_Attributes r)))"

lemma sort_key_mset:
  "mset xs = mset ys \<Longrightarrow> distinct (map f xs) \<Longrightarrow> sort_key f xs = sort_key (f :: 'a \<Rightarrow> 'k :: linorder) ys"
  by (rule sort_key_inj_key_eq) (auto simp: distinct_map)

lemma distinct_map_mset: "mset xs = mset ys \<Longrightarrow> distinct (map f xs) \<longleftrightarrow> distinct (map f ys)"
  by (metis mset_eq_imp_distinct_iff mset_map)

lemma content_canonical:
  assumes "resource_content r = resource_content r'" "valid_resource r" "distinct (gm_keys (rs_Attributes r))"
  shows "canonical_resource r = canonical_resource r'"
proof -
  have "cloneMap (rs_Attributes r) = cloneMap (rs_Attributes r')"
    using assms unfolding cloneMap_def by (intro sort_key_mset) (auto simp: resource_content_def)
  moreover have "sort_key requirementKey (rs_Requirements r) = sort_key requirementKey (rs_Requirements r')"
    using assms by (intro sort_key_mset) (auto simp: resource_content_def valid_resource_def)
  ultimately show ?thesis using assms(1)
    by (cases r, cases r') (simp add: canonical_resource_def resource_content_def)
qed

lemma content_valid: "resource_content r = resource_content r' \<Longrightarrow> valid_resource r \<longleftrightarrow> valid_resource r'"
proof -
  assume "resource_content r = resource_content r'"
  then have c: "rs_ID r = rs_ID r'" "rs_Kind r = rs_Kind r'" "rs_Origin r = rs_Origin r'"
    "mset (rs_Attributes r) = mset (rs_Attributes r')" "mset (rs_Requirements r) = mset (rs_Requirements r')"
    by (auto simp: resource_content_def)
  show ?thesis
    unfolding valid_resource_def c(1-3) mset_eq_length [OF c(4)] mset_eq_length [OF c(5)] mset_eq_setD [OF c(4)]
      mset_eq_setD [OF c(5)] distinct_map_mset [OF c(5)] ..
qed

text \<open>A property of resources that only looks at their content holds of both aggregates.\<close>

lemma content_transfer:
  assumes m: "mset (map resource_content rs) = mset (map resource_content rs')"
    and f: "\<And>r r'. resource_content r = resource_content r' \<Longrightarrow> r \<in> set rs \<Longrightarrow> r' \<in> set rs' \<Longrightarrow> f r = f r'"
  shows "mset (map f rs) = mset (map f rs')"
proof -
  define g where "g c = f (SOME r. r \<in> set rs \<and> resource_content r = c)" for c
  have img: "resource_content ` set rs = resource_content ` set rs'" using m by (metis mset_eq_setD set_map)
  have g': "g (resource_content r) = f r" if "r \<in> set rs'" for r
  proof -
    have "resource_content r \<in> resource_content ` set rs" using that unfolding img by (rule imageI)
    then obtain r0 where "r0 \<in> set rs \<and> resource_content r0 = resource_content r" by auto
    then have "(SOME r0. r0 \<in> set rs \<and> resource_content r0 = resource_content r) \<in> set rs
        \<and> resource_content (SOME r0. r0 \<in> set rs \<and> resource_content r0 = resource_content r) = resource_content r"
      by (rule someI)
    then show ?thesis unfolding g_def using f that by blast
  qed
  have g: "g (resource_content r) = f r" if "r \<in> set rs" for r
  proof -
    have "resource_content r \<in> resource_content ` set rs'" using that unfolding img [symmetric] by (rule imageI)
    then obtain r' where r': "r' \<in> set rs'" "resource_content r = resource_content r'" by auto
    then show ?thesis using g' [OF r'(1)] f [OF r'(2) that r'(1)] by simp
  qed
  have "map f rs = map g (map resource_content rs)" "map f rs' = map g (map resource_content rs')"
    using g g' by auto
  then show ?thesis using m by (simp only: mset_map)
qed

lemma content_distinct:
  assumes m: "mset (map resource_content rs) = mset (map resource_content rs')"
    and f: "\<And>r r'. resource_content r = resource_content r' \<Longrightarrow> f r = f r'"
  shows "distinct (map f rs) \<longleftrightarrow> distinct (map f rs')" "set (map f rs) = set (map f rs')"
proof -
  have t: "mset (map f rs) = mset (map f rs')" by (rule content_transfer [OF m]) (rule f)
  show "distinct (map f rs) \<longleftrightarrow> distinct (map f rs')" by (rule mset_eq_imp_distinct_iff [OF t])
  show "set (map f rs) = set (map f rs')" by (rule mset_eq_setD [OF t])
qed

lemma content_ex:
  assumes m: "mset (map resource_content rs) = mset (map resource_content rs')"
    and f: "\<And>r r'. resource_content r = resource_content r' \<Longrightarrow> P r = P r'"
  shows "(\<exists>r\<in>set rs. P r) \<longleftrightarrow> (\<exists>r\<in>set rs'. P r)"
proof -
  have "set (map P rs) = set (map P rs')" by (rule content_distinct(2) [OF m]) (rule f)
  then have "True \<in> P ` set rs \<longleftrightarrow> True \<in> P ` set rs'" by simp
  then show ?thesis by (auto simp: image_iff)
qed

lemma content_requirement:
  assumes "mset (map resource_content rs) = mset (map resource_content rs')"
  shows "resourceHasRequirement rs i name = resourceHasRequirement rs' i name"
  unfolding resourceHasRequirement_def list_ex_iff
  by (rule content_ex [OF assms]) (auto simp: resource_content_def dest: mset_eq_setD)

lemma check_gap_content:
  assumes "mset (map resource_content rs) = mset (map resource_content rs')" "set ids = set ids'"
  shows "check_gap ids rs g = check_gap ids' rs' g"
  by (simp add: check_gap_def content_requirement [OF assms(1)] assms(2))

lemma check_ids_content:
  assumes "set ids = set ids'"
  shows "check_edge ids = check_edge ids'" "check_external ids = check_external ids'"
    "check_transformation ids = check_transformation ids'"
  using assms by (auto simp: fun_eq_iff check_edge_def check_external_def check_transformation_def)

lemma same_content_parts:
  assumes "same_content a b"
  shows "ag_Discovery a = ag_Discovery b"
    "mset (map resource_content (ag_Resources a)) = mset (map resource_content (ag_Resources b))"
    "mset (ag_Edges a) = mset (ag_Edges b)" "mset (ag_Unknowns a) = mset (ag_Unknowns b)"
    "mset (ag_Gaps a) = mset (ag_Gaps b)" "mset (ag_External a) = mset (ag_External b)"
    "mset (ag_Transformations a) = mset (ag_Transformations b)"
  using assms by (auto simp: same_content_def)

lemma same_content_well_formed:
  assumes "same_content a b"
  shows "well_formed_aggregate a \<longleftrightarrow> well_formed_aggregate b"
proof -
  note c = same_content_parts [OF assms]
  have ids: "distinct (map rs_ID (ag_Resources a)) = distinct (map rs_ID (ag_Resources b))"
      "set (map rs_ID (ag_Resources a)) = set (map rs_ID (ag_Resources b))"
    by (rule content_distinct [OF c(2)]; simp add: resource_content_def)+
  have origins: "distinct (map originKey (ag_Resources a)) = distinct (map originKey (ag_Resources b))"
    by (rule content_distinct [OF c(2)]) (simp add: resource_content_def originKey_def)
  have valid: "(\<forall>r\<in>set (ag_Resources a). valid_resource r) = (\<forall>r\<in>set (ag_Resources b). valid_resource r)"
    using content_ex [OF c(2), of "\<lambda>r. \<not> valid_resource r"] content_valid by blast
  have len: "length (ag_Resources a) = length (ag_Resources b)" using mset_eq_length [OF c(2)] by simp
  have ne: "ag_Unknowns a = [] \<longleftrightarrow> ag_Unknowns b = []" using mset_eq_length [OF c(4)] by auto
  show ?thesis
    unfolding well_formed_aggregate_def within_limits_def len c(1) ids(1) origins valid check_ids_content [OF ids(2)]
      check_gap_content [OF c(2) ids(2)] ne
      mset_eq_length [OF c(3)] mset_eq_length [OF c(4)] mset_eq_length [OF c(5)]
      mset_eq_setD [OF c(3)] mset_eq_setD [OF c(4)] mset_eq_setD [OF c(5)] mset_eq_setD [OF c(6)] mset_eq_setD [OF c(7)]
      distinct_map_mset [OF c(3)] distinct_map_mset [OF c(4)] distinct_map_mset [OF c(5)]
      distinct_map_mset [OF c(6)] distinct_map_mset [OF c(7)] ..
qed

lemma same_content_Validate:
  assumes "same_content a b" shows "Validate a = None \<longleftrightarrow> Validate b = None"
proof -
  have "depends_on (ag_Edges a) = depends_on (ag_Edges b)"
    using mset_eq_setD [OF same_content_parts(3) [OF assms]] by (simp add: depends_on_def)
  with same_content_well_formed [OF assms] show ?thesis by (simp add: Validate_ok)
qed

lemma same_content_Canonical:
  assumes sc: "same_content a b" and v: "Validate a = None" and typed: "maps_typed a"
  shows "Canonical a = Canonical b"
proof -
  note c = same_content_parts [OF sc]
  have wf: "well_formed_aggregate a" using v by (simp add: Validate_ok)
  then have keys: "distinct (map edgeKey (ag_Edges a))" "distinct (map unknownKey (ag_Unknowns a))" "distinct (map gapKey (ag_Gaps a))"
    "distinct (map externalDependencyKey (ag_External a))" "distinct (map transformationKey (ag_Transformations a))"
    and res: "\<And>r. r \<in> set (ag_Resources a) \<Longrightarrow> valid_resource r" "distinct (map rs_ID (ag_Resources a))"
    by (simp_all add: well_formed_aggregate_def)
  have "mset (map canonical_resource (ag_Resources a)) = mset (map canonical_resource (ag_Resources b))"
    using content_canonical res(1) typed by (intro content_transfer [OF c(2)]) (auto simp: maps_typed_def)
  moreover have "distinct (map rs_ID (map canonical_resource (ag_Resources a)))"
    using res(2) by (simp add: comp_def canonical_resource_def)
  ultimately have "sort_key rs_ID (map canonical_resource (ag_Resources a)) = sort_key rs_ID (map canonical_resource (ag_Resources b))"
    by (rule sort_key_mset)
  then show ?thesis
    using c(1) sort_key_mset [OF c(3) keys(1)] sort_key_mset [OF c(4) keys(2)] sort_key_mset [OF c(5) keys(3)]
      sort_key_mset [OF c(6) keys(4)] sort_key_mset [OF c(7) keys(5)]
    by (cases a, cases b) (simp add: Canonical_def)
qed

lemma content_of_canonical: "resource_content (canonical_resource r) = resource_content r"
  by (simp add: resource_content_def canonical_resource_def cloneMap_def)

lemma Canonical_same_content: "same_content a (Canonical a)"
proof -
  have "mset (map resource_content (sort_key rs_ID (map canonical_resource rs))) = mset (map resource_content rs)" for rs
    by (simp add: multiset.map_comp comp_def content_of_canonical)
  then show ?thesis by (simp add: same_content_def Canonical_def)
qed

lemma Canonical_valid: "Validate a = None \<Longrightarrow> Validate (Canonical a) = None"
  using same_content_Validate [OF Canonical_same_content] by blast

lemma Canonical_idem: "Validate a = None \<Longrightarrow> maps_typed a \<Longrightarrow> Canonical (Canonical a) = Canonical a"
  using same_content_Canonical [OF Canonical_same_content] by simp

end
