(* ===== verification/Migration_Plan.thy ===== *)
theory Migration_Plan
  imports Migration_Model
begin

text \<open>
  The planner, \<^verbatim>\<open>internal/migration/planner.go\<close> with \<^verbatim>\<open>DeriveID\<close> of \<^verbatim>\<open>internal/core/derive.go\<close>:
  building the steps of a plan, \<^verbatim>\<open>BuildPlan\<close> and \<^verbatim>\<open>Plan.Validate\<close>. SHA-256 over bytes and
  over the JSON text of an aggregate and of a plan are parameters. Shown: planning succeeds
  exactly on valid aggregates, its result passes the validation every consumer runs, does
  not depend on the order of discovery, and lists each step after the steps it depends on.
\<close>

record Step =
  st_OperationID :: string
  st_ResourceID :: string
  st_Capability :: string
  st_Version :: string
  st_Action :: string
  st_DependsOn :: "string list"

record Plan =
  pn_InputDigest :: string
  pn_Discovery :: string
  pn_Resources :: "Resource list"
  pn_Edges :: "DependencyEdge list"
  pn_Steps :: "Step list"
  pn_Gaps :: "CompatibilityGap list"
  pn_Unknowns :: "UnknownObservation list"
  pn_External :: "ExternalDependency list"
  pn_Transformations :: "Transformation list"
  pn_Digest :: string

text \<open>SHA-256 of bytes, and of a domain prefix and the JSON text of a value.\<close>

record hashing =
  sum_bytes :: "string \<Rightarrow> 8 word list"
  sum_aggregate :: "string \<Rightarrow> Aggregate \<Rightarrow> 8 word list"
  sum_plan :: "string \<Rightarrow> Plan \<Rightarrow> 8 word list"

definition DeriveID :: "hashing \<Rightarrow> string \<Rightarrow> string list \<Rightarrow> string" where
  "DeriveID H domain parts = hex_encode (sum_bytes H (domain @ concat (map (\<lambda>p. NUL # p) parts)))"

definition operationID :: "hashing \<Rightarrow> string \<Rightarrow> string \<Rightarrow> string \<Rightarrow> string \<Rightarrow> string \<Rightarrow> string" where
  "operationID H inputDigest resource capability version action =
     ''migration-'' @ DeriveID H ''platform-factory/migration-operation/v1'' [inputDigest, resource, capability, version, action]"

definition inputDomain :: string where
  "inputDomain = ''platform-factory/migration-input/v1'' @ [NUL]"

definition planDigestDomain :: string where
  "planDigestDomain = ''platform-factory/migration-plan/v1'' @ [NUL]"

definition digest_aggregate :: "hashing \<Rightarrow> Aggregate \<Rightarrow> string" where
  "digest_aggregate H a = ''sha256:'' @ hex_encode (sum_aggregate H inputDomain a)"

definition Aggregate_ComputeDigest :: "hashing \<Rightarrow> Aggregate \<Rightarrow> migration_error + string" where
  "Aggregate_ComputeDigest H a = (case Validate a of Some e \<Rightarrow> Inl e | None \<Rightarrow> Inr (digest_aggregate H (Canonical a)))"

definition ComputeDigest :: "hashing \<Rightarrow> Plan \<Rightarrow> string" where
  "ComputeDigest H p = ''sha256:'' @ hex_encode (sum_plan H planDigestDomain (p\<lparr>pn_Digest := []\<rparr>))"

definition VerifyDigest :: "hashing \<Rightarrow> Plan \<Rightarrow> migration_error option" where
  "VerifyDigest H p =
     or_else (reject_if (pn_Digest p = []) (Invalid ''plan digest is required'' []))
       (reject_if (pn_Digest p \<noteq> ComputeDigest H p) (Invalid ''plan digest does not match content'' []))"

section \<open>Steps\<close>

definition required_edges :: "DependencyEdge list \<Rightarrow> DependencyEdge list" where
  "required_edges es = filter eg_Required es"

text \<open>
  \<^verbatim>\<open>dependencies[edge.From][edge.To] = struct{}{}\<close>: for every resource the set of the
  resources it requires.
\<close>

definition dependencies_map :: "DependencyEdge list \<Rightarrow> (string, (string, unit) gomap) gomap" where
  "dependencies_map es =
     foldl (\<lambda>m e. if eg_Required e then gm_put (eg_From e) (gm_put (eg_To e) () (gm_or m [] (eg_From e))) m else m) [] es"

definition make_step :: "hashing \<Rightarrow> string \<Rightarrow> string list \<Rightarrow> Resource \<Rightarrow> Requirement \<Rightarrow> Step" where
  "make_step H inputDigest ds r q =
     \<lparr>st_OperationID = operationID H inputDigest (rs_ID r) (rq_Capability q) (rq_Version q) ''apply'',
      st_ResourceID = rs_ID r, st_Capability = rq_Capability q, st_Version = rq_Version q, st_Action = ''apply'',
      st_DependsOn = sort ds\<rparr>"

fun requirement_steps ::
  "hashing \<Rightarrow> string \<Rightarrow> (string, unit) gomap \<Rightarrow> Resource \<Rightarrow> Requirement list \<Rightarrow> (string, string list) gomap \<Rightarrow>
     Step list \<times> (string, string list) gomap" where
  "requirement_steps H d needs r [] ops = ([], ops)"
| "requirement_steps H d needs r (q # qs) ops =
     (let s = make_step H d (concat (map (gm_or ops []) (gm_keys needs))) r q;
          (ss, ops') = requirement_steps H d needs r qs (gm_put (rs_ID r) (gm_or ops [] (rs_ID r) @ [st_OperationID s]) ops)
      in (s # ss, ops'))"

fun order_steps ::
  "hashing \<Rightarrow> string \<Rightarrow> (string, Resource) gomap \<Rightarrow> (string, (string, unit) gomap) gomap \<Rightarrow> string list \<Rightarrow>
     (string, string list) gomap \<Rightarrow> Step list" where
  "order_steps H d resources needs [] ops = []"
| "order_steps H d resources needs (i # is) ops =
     (case gm_get resources i of
        None \<Rightarrow> order_steps H d resources needs is ops
      | Some r \<Rightarrow>
          let (ss, ops') = requirement_steps H d (gm_or needs [] i) r (rs_Requirements r) ops
          in ss @ order_steps H d resources needs is ops')"

definition buildSteps :: "hashing \<Rightarrow> string \<Rightarrow> Resource list \<Rightarrow> DependencyEdge list \<Rightarrow> migration_error + Step list" where
  "buildSteps H inputDigest rs es =
     (case topologicalResourceIDs rs (required_edges es) of
        Inl e \<Rightarrow> Inl e
      | Inr order \<Rightarrow>
          Inr (order_steps H inputDigest (foldl (\<lambda>m r. gm_put (rs_ID r) r m) [] rs) (dependencies_map es) order []))"

section \<open>Plans\<close>

definition plan_aggregate :: "Plan \<Rightarrow> Aggregate" where
  "plan_aggregate p = \<lparr>ag_Discovery = pn_Discovery p, ag_Resources = pn_Resources p, ag_Edges = pn_Edges p,
     ag_Unknowns = pn_Unknowns p, ag_Gaps = pn_Gaps p, ag_External = pn_External p, ag_Transformations = pn_Transformations p\<rparr>"

text \<open>\<^verbatim>\<open>reflect.DeepEqual\<close> compares maps by their entries.\<close>

definition entries_sorted :: "Aggregate \<Rightarrow> Aggregate" where
  "entries_sorted a = a\<lparr>ag_Resources := map (\<lambda>r. r\<lparr>rs_Attributes := cloneMap (rs_Attributes r)\<rparr>) (ag_Resources a)\<rparr>"

definition Plan_Validate :: "hashing \<Rightarrow> Plan \<Rightarrow> migration_error option" where
  "Plan_Validate H p =
     (let a = plan_aggregate p; c = Canonical a in
      or_else (reject_if (invalidText (pn_InputDigest p)) (Invalid ''plan input digest is required'' []))
     (or_else (map_option (Within ''invalid plan aggregate'') (Validate a))
     (or_else (reject_if (ag_Discovery a = DiscoveryFailed) (Invalid ''plan cannot represent failed discovery'' []))
     (or_else (reject_if (entries_sorted a \<noteq> c) (Invalid ''plan aggregate is not canonical'' []))
     (or_else (reject_if (pn_InputDigest p \<noteq> digest_aggregate H c) (Invalid ''plan input digest does not match canonical aggregate'' []))
     (or_else (case buildSteps H (pn_InputDigest p) (ag_Resources c) (ag_Edges c) of
          Inl e \<Rightarrow> Some e
        | Inr steps \<Rightarrow> reject_if (pn_Steps p \<noteq> steps)
            (Invalid ''plan steps do not match canonical resources, requirements, and required dependencies'' []))
        (VerifyDigest H p)))))))"

definition BuildPlan :: "hashing \<Rightarrow> Aggregate \<Rightarrow> migration_error + Plan" where
  "BuildPlan H input =
     (case Validate input of
        Some e \<Rightarrow> Inl e
      | None \<Rightarrow>
          if ag_Discovery input = DiscoveryFailed then Inl (Invalid ''cannot plan from failed discovery'' [])
          else let c = Canonical input; inputDigest = digest_aggregate H c in
            case buildSteps H inputDigest (ag_Resources c) (ag_Edges c) of
              Inl e \<Rightarrow> Inl e
            | Inr steps \<Rightarrow>
                let plan = \<lparr>pn_InputDigest = inputDigest, pn_Discovery = ag_Discovery c, pn_Resources = ag_Resources c,
                      pn_Edges = ag_Edges c, pn_Steps = steps, pn_Gaps = ag_Gaps c, pn_Unknowns = ag_Unknowns c,
                      pn_External = ag_External c, pn_Transformations = ag_Transformations c, pn_Digest = []\<rparr>;
                    plan' = plan\<lparr>pn_Digest := ComputeDigest H plan\<rparr>
                in (case Plan_Validate H plan' of Some e \<Rightarrow> Inl e | None \<Rightarrow> Inr plan'))"

section \<open>Digests are acceptable text\<close>

lemma find_None_prefix: "s \<noteq> [] \<Longrightarrow> hd s \<notin> set (map hd spaces) \<Longrightarrow> [] \<notin> set spaces \<Longrightarrow> List.find (has_prefix s) spaces = None"
proof -
  assume s: "s \<noteq> []" "hd s \<notin> set (map hd spaces)" "[] \<notin> set spaces"
  have "\<not> has_prefix s p" if p: "p \<in> set spaces" for p
  proof
    assume "has_prefix s p"
    then obtain r where "s = p @ r" by (metis has_prefix_def append_take_drop_id)
    moreover have "p \<noteq> []" using p s(3) by blast
    ultimately have "hd s = hd p" by simp
    with p s(2) show False by simp
  qed
  then show ?thesis by (simp add: find_None_iff)
qed

lemma find_None_suffix:
  "s \<noteq> [] \<Longrightarrow> last s \<notin> set (map last spaces) \<Longrightarrow> [] \<notin> set spaces \<Longrightarrow> List.find (has_suffix s) spaces = None"
proof -
  assume s: "s \<noteq> []" "last s \<notin> set (map last spaces)" "[] \<notin> set spaces"
  have "\<not> has_suffix s p" if p: "p \<in> set spaces" for p
  proof
    assume "has_suffix s p"
    then obtain r where "rev s = rev p @ r" by (metis has_suffix_def has_prefix_def append_take_drop_id)
    then have "s = rev r @ p" by (metis rev_append rev_rev_ident)
    moreover have "p \<noteq> []" using p s(3) by blast
    ultimately have "last s = last p" by simp
    with p s(2) show False by simp
  qed
  then show ?thesis by (simp add: find_None_iff)
qed

lemma space_bytes:
  "\<forall>c \<in> set (map hd spaces). byte c < 48 \<or> 128 \<le> byte c" "\<forall>c \<in> set (map last spaces). byte c < 48 \<or> 128 \<le> byte c"
  "[] \<notin> set spaces"
  by code_simp+

lemma TrimSpace_id:
  assumes "s \<noteq> []" "48 \<le> byte (hd s)" "byte (hd s) < 128" "48 \<le> byte (last s)" "byte (last s) < 128"
  shows "TrimSpace s = s"
proof -
  have f: "List.find (has_prefix s) spaces = None" "List.find (has_suffix s) spaces = None"
    using assms space_bytes by (intro find_None_prefix find_None_suffix; force)+
  have "trim_left n s = s" "trim_right n s = s" for n using f by (cases n; simp)+
  then show ?thesis by (simp add: TrimSpace_def Let_def)
qed

lemma hex_digit_range: "n < 16 \<Longrightarrow> 48 \<le> byte (hex_digit n) \<and> byte (hex_digit n) < 128"
  by (simp only: byte_hex_digit) (simp split: if_split)

lemma hex_encode_range: "c \<in> set (hex_encode ws) \<Longrightarrow> 48 \<le> byte c \<and> byte c < 128"
  using hex_digit_range unat_div16 by (auto simp: hex_encode_def hex_byte_def)

lemma length_hex_encode: "length (hex_encode ws) = 2 * length ws"
  by (induction ws) (auto simp: hex_encode_def hex_byte_def)

definition sums_short :: "hashing \<Rightarrow> bool" where
  "sums_short H \<longleftrightarrow> (\<forall>d a. length (sum_aggregate H d a) = 32)"

lemma plain_text:
  assumes "s \<noteq> []" "\<And>c. c \<in> set s \<Longrightarrow> 48 \<le> byte c \<and> byte c < 128" "length s \<le> 1024"
  shows "\<not> invalidText s"
proof -
  have "TrimSpace s = s" using assms by (intro TrimSpace_id) auto
  moreover have "NUL \<notin> set s" using assms(2) [of NUL] by auto
  ultimately show ?thesis using assms by (simp add: invalidText_def)
qed

lemma digest_text: "sums_short H \<Longrightarrow> \<not> invalidText (digest_aggregate H a)"
proof -
  assume len: "sums_short H"
  let ?h = "hex_encode (sum_aggregate H inputDomain a)"
  have r: "48 \<le> byte c \<and> byte c < 128" if "c \<in> set (digest_aggregate H a)" for c
    using that hex_encode_range [of c "sum_aggregate H inputDomain a"] by (auto simp: digest_aggregate_def)
  have ne: "digest_aggregate H a \<noteq> []" by (simp add: digest_aggregate_def)
  have "length (digest_aggregate H a) \<le> 1024"
    using len by (simp add: digest_aggregate_def length_hex_encode sums_short_def)
  with ne r show ?thesis by (intro plain_text)
qed

section \<open>What planning returns\<close>

definition plan_of :: "hashing \<Rightarrow> Aggregate \<Rightarrow> Step list \<Rightarrow> Plan" where
  "plan_of H c steps =
     (let plan = \<lparr>pn_InputDigest = digest_aggregate H c, pn_Discovery = ag_Discovery c, pn_Resources = ag_Resources c,
        pn_Edges = ag_Edges c, pn_Steps = steps, pn_Gaps = ag_Gaps c, pn_Unknowns = ag_Unknowns c,
        pn_External = ag_External c, pn_Transformations = ag_Transformations c, pn_Digest = []\<rparr>
      in plan\<lparr>pn_Digest := ComputeDigest H plan\<rparr>)"

lemma plan_of_aggregate [simp]: "plan_aggregate (plan_of H c steps) = c"
  by (cases c) (simp add: plan_of_def plan_aggregate_def Let_def)

lemma plan_of_fields [simp]:
  "pn_InputDigest (plan_of H c steps) = digest_aggregate H c" "pn_Steps (plan_of H c steps) = steps"
  "pn_Resources (plan_of H c steps) = ag_Resources c" "pn_Edges (plan_of H c steps) = ag_Edges c"
  by (simp_all add: plan_of_def Let_def)

lemma ComputeDigest_nonempty: "ComputeDigest H p \<noteq> []"
  by (simp add: ComputeDigest_def)

lemma plan_of_digest: "VerifyDigest H (plan_of H c steps) = None"
  by (simp add: VerifyDigest_def ok_iff plan_of_def Let_def ComputeDigest_nonempty) (simp add: ComputeDigest_def)

lemma entries_sorted_Canonical: "entries_sorted (Canonical a) = Canonical a"
proof -
  have "cloneMap (rs_Attributes r) = rs_Attributes r" if "r \<in> set (ag_Resources (Canonical a))" for r
  proof -
    have "sorted (map fst (rs_Attributes r))"
      using that by (auto simp: Canonical_def canonical_resource_def cloneMap_def)
    then show ?thesis unfolding cloneMap_def by (rule sort_key_id_if_sorted)
  qed
  then have "map (\<lambda>r. r\<lparr>rs_Attributes := cloneMap (rs_Attributes r)\<rparr>) (ag_Resources (Canonical a)) = ag_Resources (Canonical a)"
    by (intro map_idI) simp
  then show ?thesis unfolding entries_sorted_def by simp
qed

lemma required_edges_ok:
  assumes "Validate a = None"
  shows "distinct (map rs_ID (ag_Resources a))" "edges_known (ag_Resources a) (required_edges (ag_Edges a))"
    "acyclic (depends_on (required_edges (ag_Edges a)))"
proof -
  have wf: "well_formed_aggregate a" and ac: "acyclic (depends_on (ag_Edges a))" using assms by (simp_all add: Validate_ok)
  then show "distinct (map rs_ID (ag_Resources a))" by (simp add: well_formed_aggregate_def)
  have "edges_known (ag_Resources a) (ag_Edges a)" using wf by (intro check_edge_known) (simp add: well_formed_aggregate_def)
  then show "edges_known (ag_Resources a) (required_edges (ag_Edges a))" by (auto simp: edges_known_def required_edges_def)
  have "depends_on (required_edges (ag_Edges a)) \<subseteq> depends_on (ag_Edges a)" by (auto simp: depends_on_def required_edges_def)
  then show "acyclic (depends_on (required_edges (ag_Edges a)))" by (rule acyclic_subset [OF ac])
qed

definition resource_table :: "Resource list \<Rightarrow> (string, Resource) gomap" where
  "resource_table rs = map (\<lambda>r. (rs_ID r, r)) rs"

lemma resource_table: "distinct (map rs_ID rs) \<Longrightarrow> foldl (\<lambda>m r. gm_put (rs_ID r) r m) [] rs = resource_table rs"
proof (induction rs rule: rev_induct)
  case (snoc r rs)
  then show ?case by (simp add: gm_put_new comp_def resource_table_def)
qed (simp add: resource_table_def)

lemma buildSteps_ok:
  assumes "Validate a = None"
  shows "buildSteps H d (ag_Resources a) (ag_Edges a) =
     Inr (order_steps H d (resource_table (ag_Resources a)) (dependencies_map (ag_Edges a))
       (resource_order (ag_Resources a) (required_edges (ag_Edges a))) [])"
  using required_edges_ok [OF assms] by (simp add: buildSteps_def topologicalResourceIDs_eq resource_table)

lemma plan_of_valid:
  assumes v: "Validate a = None" "ag_Discovery a \<noteq> DiscoveryFailed" "maps_typed a" and H: "sums_short H"
    and steps: "buildSteps H (digest_aggregate H (Canonical a)) (ag_Resources (Canonical a)) (ag_Edges (Canonical a)) = Inr steps"
  shows "Plan_Validate H (plan_of H (Canonical a) steps) = None"
proof -
  have "ag_Discovery (Canonical a) = ag_Discovery a" by (simp add: Canonical_def)
  with assms show ?thesis
    by (simp add: Plan_Validate_def ok_iff digest_text Canonical_valid Canonical_idem entries_sorted_Canonical plan_of_digest)
qed

definition plan_steps :: "hashing \<Rightarrow> Aggregate \<Rightarrow> Step list" where
  "plan_steps H c = order_steps H (digest_aggregate H c) (resource_table (ag_Resources c)) (dependencies_map (ag_Edges c))
     (resource_order (ag_Resources c) (required_edges (ag_Edges c))) []"

lemma BuildPlan_eq:
  assumes "maps_typed a" "sums_short H"
  shows "BuildPlan H a =
     (case Validate a of
        Some e \<Rightarrow> Inl e
      | None \<Rightarrow> if ag_Discovery a = DiscoveryFailed then Inl (Invalid ''cannot plan from failed discovery'' [])
                else Inr (plan_of H (Canonical a) (plan_steps H (Canonical a))))"
proof (cases "Validate a = None \<and> ag_Discovery a \<noteq> DiscoveryFailed")
  case True
  note b = buildSteps_ok [OF Canonical_valid, of a H "digest_aggregate H (Canonical a)", folded plan_steps_def]
  have "Plan_Validate H (plan_of H (Canonical a) (plan_steps H (Canonical a))) = None"
    using True assms b by (intro plan_of_valid) auto
  then show ?thesis using True b by (simp add: BuildPlan_def Let_def plan_of_def)
next
  case False
  then show ?thesis by (auto simp: BuildPlan_def split: option.split)
qed

section \<open>The steps of a plan\<close>

definition op_ids :: "hashing \<Rightarrow> string \<Rightarrow> Resource \<Rightarrow> string list" where
  "op_ids H d r = map (\<lambda>q. operationID H d (rs_ID r) (rq_Capability q) (rq_Version q) ''apply'') (rs_Requirements r)"

definition required_targets :: "DependencyEdge list \<Rightarrow> string \<Rightarrow> string set" where
  "required_targets es i = {eg_To e | e. e \<in> set es \<and> eg_Required e \<and> eg_From e = i}"

lemma dependencies_map_snoc:
  "dependencies_map (es @ [e]) =
     (if eg_Required e
      then gm_put (eg_From e) (gm_put (eg_To e) () (gm_or (dependencies_map es) [] (eg_From e))) (dependencies_map es)
      else dependencies_map es)"
  by (simp add: dependencies_map_def)

lemma dependencies_map_keys:
  "distinct (gm_keys (gm_or (dependencies_map es) [] i)) \<and> set (gm_keys (gm_or (dependencies_map es) [] i)) = required_targets es i"
proof (induction es arbitrary: i rule: rev_induct)
  case Nil
  show ?case by (simp add: dependencies_map_def gm_or_def required_targets_def)
next
  case (snoc e es)
  have "required_targets (es @ [e]) i = (if eg_Required e \<and> eg_From e = i then insert (eg_To e) (required_targets es i) else required_targets es i)"
    by (auto simp: required_targets_def)
  with snoc.IH [of i] show ?case
    by (auto simp: dependencies_map_snoc gm_keys_put simp del: set_map)
qed

lemma requirement_steps_table:
  "gm_or (snd (requirement_steps H d needs r qs ops)) [] =
     (gm_or ops [])(rs_ID r := gm_or ops [] (rs_ID r) @ map (\<lambda>q. operationID H d (rs_ID r) (rq_Capability q) (rq_Version q) ''apply'') qs)"
  by (induction qs arbitrary: ops) (simp_all add: case_prod_unfold Let_def make_step_def)

lemma requirement_steps_eq:
  assumes "rs_ID r \<notin> set (gm_keys needs)"
  shows "fst (requirement_steps H d needs r qs ops) = map (make_step H d (concat (map (gm_or ops []) (gm_keys needs))) r) qs"
proof (induction qs arbitrary: ops)
  case (Cons q qs)
  have "map (gm_or (gm_put (rs_ID r) (gm_or ops [] (rs_ID r) @ [x]) ops) []) (gm_keys needs) = map (gm_or ops []) (gm_keys needs)" for x
    using assms by (intro map_cong refl) (auto simp del: set_map)
  then show ?case by (simp only: Cons.IH requirement_steps.simps Let_def case_prod_unfold fst_conv list.map)
qed simp

definition ops_named :: "hashing \<Rightarrow> string \<Rightarrow> (string, Resource) gomap \<Rightarrow> string \<Rightarrow> string list" where
  "ops_named H d tab t = (case gm_get tab t of None \<Rightarrow> [] | Some r \<Rightarrow> op_ids H d r)"

text \<open>The steps of one resource, written without the table of the operations emitted so far.\<close>

definition steps_at ::
  "hashing \<Rightarrow> string \<Rightarrow> (string, Resource) gomap \<Rightarrow> (string, (string, unit) gomap) gomap \<Rightarrow> string \<Rightarrow> Step list" where
  "steps_at H d tab needs i =
     (case gm_get tab i of
        None \<Rightarrow> []
      | Some r \<Rightarrow>
          map (make_step H d (concat (map (ops_named H d tab)
            (gm_keys (gm_or needs [] i)))) r) (rs_Requirements r))"

lemma order_steps_eq:
  assumes tab: "\<And>i r. gm_get tab i = Some r \<Longrightarrow> rs_ID r = i"
    and needs: "\<And>i t. t \<in> set (gm_keys (gm_or needs [] i)) \<Longrightarrow> (i, t) \<in> set E"
  shows "dependencies_first E (P @ is) \<Longrightarrow> distinct (P @ is) \<Longrightarrow>
     (\<And>t. gm_or ops [] t = (if t \<in> set P then ops_named H d tab t else [])) \<Longrightarrow>
     order_steps H d tab needs is ops = concat (map (steps_at H d tab needs) is)"
proof (induction "is" arbitrary: P ops)
  case (Cons i "is")
  have df: "dependencies_first E ((P @ [i]) @ is)" "distinct ((P @ [i]) @ is)" using Cons.prems by auto
  have before: "t \<in> set P" if "t \<in> set (gm_keys (gm_or needs [] i))" for t
    using Cons.prems(1) needs [OF that] unfolding dependencies_first_def
    by (auto dest!: spec [where x = "length P"])
  show ?case
  proof (cases "gm_get tab i")
    case None
    then have "gm_or ops [] t = (if t \<in> set (P @ [i]) then ops_named H d tab t else [])" for t
      by (auto simp: Cons.prems(3) ops_named_def)
    then have "order_steps H d tab needs is ops = concat (map (steps_at H d tab needs) is)" by (rule Cons.IH [OF df])
    moreover have "steps_at H d tab needs i = []" using None by (simp add: steps_at_def)
    ultimately show ?thesis using None by simp
  next
    case (Some r)
    have r: "rs_ID r = i" using tab Some by blast
    have fresh: "rs_ID r \<notin> set (gm_keys (gm_or needs [] i))" using before [of i] Cons.prems(2) r by auto
    obtain ss ops' where q: "requirement_steps H d (gm_or needs [] i) r (rs_Requirements r) ops = (ss, ops')" by fastforce
    note req = requirement_steps_eq [OF fresh, of H d "rs_Requirements r" ops, unfolded q fst_conv]
      requirement_steps_table [of H d "gm_or needs [] i" r "rs_Requirements r" ops, unfolded q snd_conv]
    have "map (gm_or ops []) (gm_keys (gm_or needs [] i)) =
        map (ops_named H d tab) (gm_keys (gm_or needs [] i))"
      using before by (intro map_cong refl) (simp only: Cons.prems(3) if_True)
    then have ss: "ss = steps_at H d tab needs i" using req(1) Some by (simp only: steps_at_def option.case)
    have "gm_or ops [] i = []" using Cons.prems(2,3) by simp
    then have "order_steps H d tab needs is ops' = concat (map (steps_at H d tab needs) is)"
      using req(2) r Some by (intro Cons.IH [OF df]) (auto simp: Cons.prems(3) op_ids_def ops_named_def)
    with ss q Some show ?thesis by simp
  qed
qed simp

lemma concat_map_mset: "mset xs = mset ys \<Longrightarrow> mset (concat (map f xs)) = mset (concat (map f ys))"
proof -
  assume "mset xs = mset ys"
  then have "\<Sum>\<^sub># (image_mset (\<lambda>x. mset (f x)) (mset xs)) = \<Sum>\<^sub># (image_mset (\<lambda>x. mset (f x)) (mset ys))" by simp
  then show ?thesis by (simp add: mset_concat comp_def sum_mset_sum_list flip: mset_map)
qed

lemma concat_split:
  "concat xss = pre @ s # post \<Longrightarrow> \<exists>j<length xss. s \<in> set (xss ! j) \<and> set (concat (take j xss)) \<subseteq> set pre"
proof (induction xss arbitrary: pre)
  case (Cons xs xss)
  from Cons.prems consider us where "xs = pre @ s # us" | us where "pre = xs @ us" "concat xss = us @ s # post"
    by (fastforce simp: append_eq_append_conv2 Cons_eq_append_conv append_eq_Cons_conv)
  then show ?case
  proof cases
    case 1
    then show ?thesis by (intro exI [of _ 0]) simp
  next
    case 2
    with Cons.IH obtain j where "j < length xss" "s \<in> set (xss ! j)" "set (concat (take j xss)) \<subseteq> set us" by blast
    with 2 show ?thesis by (intro exI [of _ "Suc j"]) auto
  qed
qed simp

lemma steps_at_props:
  assumes s: "s \<in> set (steps_at H d tab needs i)" and tab: "\<And>i r. gm_get tab i = Some r \<Longrightarrow> rs_ID r = i"
  shows "st_ResourceID s = i"
    "set (st_DependsOn s) = (\<Union>t\<in>set (gm_keys (gm_or needs [] i)). set (ops_named H d tab t))"
proof -
  let ?ds = "concat (map (ops_named H d tab) (gm_keys (gm_or needs [] i)))"
  obtain r q where "gm_get tab i = Some r" "s = make_step H d ?ds r q"
    using s by (cases "gm_get tab i") (auto simp: steps_at_def)
  with tab show "st_ResourceID s = i"
    "set (st_DependsOn s) = (\<Union>t\<in>set (gm_keys (gm_or needs [] i)). set (ops_named H d tab t))"
    by (simp_all add: make_step_def)
qed

lemma steps_at_ops: "map st_OperationID (steps_at H d tab needs i) = ops_named H d tab i"
  by (simp add: steps_at_def make_step_def op_ids_def ops_named_def split: option.split)

lemma resource_table_get:
  assumes "distinct (map rs_ID rs)"
  shows "gm_get (resource_table rs) i = Some r \<longleftrightarrow> r \<in> set rs \<and> rs_ID r = i"
proof -
  have "distinct (gm_keys (resource_table rs))" using assms by (simp add: resource_table_def comp_def)
  from gm_get_mem [OF this, of i r] show ?thesis by (auto simp: resource_table_def)
qed

lemma plan_steps_eq:
  assumes "Validate c = None"
  shows "plan_steps H c = concat (map (steps_at H (digest_aggregate H c) (resource_table (ag_Resources c)) (dependencies_map (ag_Edges c)))
     (resource_order (ag_Resources c) (required_edges (ag_Edges c))))"
proof -
  note ok = required_edges_ok [OF assms]
  note p = resource_order_props [OF ok]
  have "(i, t) \<in> set (map edge_pair (required_edges (ag_Edges c)))"
    if "t \<in> set (gm_keys (gm_or (dependencies_map (ag_Edges c)) [] i))" for i t
    using that dependencies_map_keys [of "ag_Edges c" i] by (auto simp: required_targets_def required_edges_def simp del: set_map) force
  then show ?thesis unfolding plan_steps_def
    by (intro order_steps_eq [where P = "[]" and E = "map edge_pair (required_edges (ag_Edges c))"])
      (auto simp: resource_table_get [OF ok(1)] p gm_or_def)
qed

lemma plan_steps_depend:
  assumes v: "Validate c = None" and split: "plan_steps H c = pre @ s # post"
  shows "set (st_DependsOn s) = st_OperationID ` {s' \<in> set (plan_steps H c). st_ResourceID s' \<in> required_targets (ag_Edges c) (st_ResourceID s)}"
    "set (st_DependsOn s) \<subseteq> st_OperationID ` set pre"
proof -
  let ?tab = "resource_table (ag_Resources c)" and ?needs = "dependencies_map (ag_Edges c)" and ?d = "digest_aggregate H c"
  let ?E = "map edge_pair (required_edges (ag_Edges c))"
  let ?S = "steps_at H ?d ?tab ?needs" and ?O = "resource_order (ag_Resources c) (required_edges (ag_Edges c))"
  note ok = required_edges_ok [OF v]
  note ord = resource_order_props [OF ok]
  note eq = plan_steps_eq [OF v, of H]
  have tab: "gm_get ?tab i = Some r \<Longrightarrow> rs_ID r = i" for i r using resource_table_get [OF ok(1)] by blast
  have ids: "st_ResourceID s' = i" if "s' \<in> set (?S i)" for s' i using steps_at_props(1) [OF that tab] .
  have ops: "set (ops_named H ?d ?tab t) = st_OperationID ` set (?S t)" for t by (simp flip: steps_at_ops [of H ?d ?tab ?needs])
  from split eq have "concat (map ?S ?O) = pre @ s # post" by simp
  from concat_split [OF this] obtain j where j: "j < length ?O" "s \<in> set (?S (?O ! j))" "set (concat (map ?S (take j ?O))) \<subseteq> set pre"
    by (auto simp: take_map)
  have s: "st_ResourceID s = ?O ! j" using ids j(2) .
  have dep: "set (st_DependsOn s) = (\<Union>t\<in>required_targets (ag_Edges c) (?O ! j). st_OperationID ` set (?S t))"
    using steps_at_props(2) [OF j(2) tab] dependencies_map_keys [of "ag_Edges c" "?O ! j"] ops by (simp del: set_map)
  have early: "t \<in> set (take j ?O)" if "t \<in> required_targets (ag_Edges c) (?O ! j)" for t
  proof -
    have "(?O ! j, t) \<in> set ?E" using that by (auto simp: required_targets_def required_edges_def image_iff)
    with ord(3) j(1) show ?thesis unfolding dependencies_first_def by blast
  qed
  then have "set (?S t) \<subseteq> set pre" if "t \<in> required_targets (ag_Edges c) (?O ! j)" for t using that j(3) by fastforce
  then show "set (st_DependsOn s) \<subseteq> st_OperationID ` set pre" unfolding dep by blast
  have "s' \<in> set (plan_steps H c) \<and> st_ResourceID s' = t \<longleftrightarrow> s' \<in> set (?S t)" if "t \<in> required_targets (ag_Edges c) (?O ! j)" for t s'
    using early [OF that] ids unfolding eq by (fastforce dest: in_set_takeD)
  then have "(\<Union>t\<in>required_targets (ag_Edges c) (?O ! j). set (?S t)) =
      {s' \<in> set (plan_steps H c). st_ResourceID s' \<in> required_targets (ag_Edges c) (?O ! j)}" using ids by (intro set_eqI) (auto; metis)
  then show "set (st_DependsOn s) = st_OperationID ` {s' \<in> set (plan_steps H c). st_ResourceID s' \<in> required_targets (ag_Edges c) (st_ResourceID s)}"
    unfolding dep s image_UN [symmetric] by (rule arg_cong)
qed

text \<open>What a step is for.\<close>

definition step_target :: "Step \<Rightarrow> string \<times> string \<times> string" where
  "step_target s = (st_ResourceID s, st_Capability s, st_Version s)"

definition wanted_targets :: "Resource list \<Rightarrow> (string \<times> string \<times> string) list" where
  "wanted_targets rs = concat (map (\<lambda>r. map (\<lambda>q. (rs_ID r, rq_Capability q, rq_Version q)) (rs_Requirements r)) rs)"

lemma plan_steps_targets:
  assumes v: "Validate c = None"
  shows "mset (map step_target (plan_steps H c)) = mset (wanted_targets (ag_Resources c))"
proof -
  let ?tab = "resource_table (ag_Resources c)"
  let ?w = "\<lambda>r. map (\<lambda>q. (rs_ID r, rq_Capability q, rq_Version q)) (rs_Requirements r)"
  let ?t = "\<lambda>i. case gm_get ?tab i of None \<Rightarrow> [] | Some r \<Rightarrow> ?w r"
  note ok = required_edges_ok [OF v]
  note ord = resource_order_props [OF ok]
  have at: "map step_target (steps_at H (digest_aggregate H c) ?tab (dependencies_map (ag_Edges c)) i) = ?t i" for i
    using resource_table_get [OF ok(1), of i]
    by (cases "gm_get ?tab i") (simp_all add: steps_at_def step_target_def make_step_def comp_def)
  have "mset (resource_order (ag_Resources c) (required_edges (ag_Edges c))) = mset (map rs_ID (ag_Resources c))"
    using ord ok(1) by (subst set_eq_iff_mset_eq_distinct [symmetric]) simp_all
  then have "mset (concat (map ?t (resource_order (ag_Resources c) (required_edges (ag_Edges c))))) = mset (concat (map ?t (map rs_ID (ag_Resources c))))"
    by (rule concat_map_mset)
  moreover have "map step_target (plan_steps H c) = concat (map ?t (resource_order (ag_Resources c) (required_edges (ag_Edges c))))"
    unfolding plan_steps_eq [OF v] map_concat
    by (intro arg_cong [where f = concat]) (auto simp: at)
  moreover have "?t (rs_ID r) = ?w r" if "r \<in> set (ag_Resources c)" for r
    using resource_table_get [OF ok(1), of "rs_ID r" r] that by simp
  ultimately show ?thesis by (simp add: wanted_targets_def comp_def cong: map_cong)
qed

definition target_op :: "hashing \<Rightarrow> string \<Rightarrow> string \<times> string \<times> string \<Rightarrow> string" where
  "target_op H d t = (case t of (r, c, v) \<Rightarrow> operationID H d r c v ''apply'')"

lemma plan_steps_ops:
  assumes v: "Validate c = None"
  shows "map st_OperationID (plan_steps H c) = map (target_op H (digest_aggregate H c) \<circ> step_target) (plan_steps H c)"
proof -
  have "st_OperationID s = target_op H d (step_target s)" if "s \<in> set (steps_at H d tab needs i)" for s d tab needs i
    using that by (auto simp: steps_at_def make_step_def target_op_def step_target_def split: option.splits)
  then show ?thesis unfolding plan_steps_eq [OF v] by auto
qed

lemma wanted_targets_Canonical: "mset (wanted_targets (ag_Resources (Canonical a))) = mset (wanted_targets (ag_Resources a))"
proof -
  let ?w = "\<lambda>r. map (\<lambda>q. (rs_ID r, rq_Capability q, rq_Version q)) (rs_Requirements r)"
  have "mset (ag_Resources (Canonical a)) = mset (map canonical_resource (ag_Resources a))" by (simp add: Canonical_def)
  from concat_map_mset [OF this, of ?w]
  have "mset (wanted_targets (ag_Resources (Canonical a))) = mset (concat (map (\<lambda>r. ?w (canonical_resource r)) (ag_Resources a)))"
    by (simp add: wanted_targets_def comp_def)
  also have "\<dots> = mset (wanted_targets (ag_Resources a))"
    by (simp add: wanted_targets_def mset_concat comp_def canonical_resource_def)
  finally show ?thesis .
qed

section \<open>Properties\<close>

definition tiny_resource :: "string \<Rightarrow> Resource" where
  "tiny_resource i = \<lparr>rs_ID = i, rs_Kind = ''vm'', rs_Origin = \<lparr>og_Source = ''esx'', og_NativeType = ''vm'', og_NativeID = i\<rparr>,
     rs_Attributes = [(''cpu'', ''2'')], rs_Requirements = [\<lparr>rq_Capability = ''compute'', rq_Version = ''v1''\<rparr>]\<rparr>"

definition tiny_edge :: "string \<Rightarrow> string \<Rightarrow> DependencyEdge" where
  "tiny_edge f t = \<lparr>eg_From = f, eg_To = t, eg_Relation = ''uses'', eg_Required = True\<rparr>"

definition tiny_aggregate :: "string list \<Rightarrow> Aggregate" where
  "tiny_aggregate is = \<lparr>ag_Discovery = ''complete'', ag_Resources = map tiny_resource is,
     ag_Edges = [tiny_edge ''a'' ''b''], ag_Unknowns = [], ag_Gaps = [], ag_External = [], ag_Transformations = []\<rparr>"

definition zero_hashing :: hashing where
  "zero_hashing = \<lparr>sum_bytes = (\<lambda>s. replicate 31 0 @ [of_nat (sum_list (map byte s))]), sum_aggregate = (\<lambda>_ _. replicate 32 0),
     sum_plan = (\<lambda>_ p. replicate 31 0 @ [of_nat (length (pn_Steps p))])\<rparr>"

lemma tiny_text:
  "\<not> invalidText ''a''" "\<not> invalidText ''b''" "\<not> invalidText ''vm''" "\<not> invalidText ''esx''" "\<not> invalidText ''uses''"
  "\<not> invalidText ''cpu''" "\<not> invalidText ''compute''" "\<not> invalidText ''v1''" "\<not> invalidOptionalText ''2''"
  by (rule plain_text; auto)+ (simp add: invalidOptionalText_def)

lemma tiny_public: "\<not> secretKey ''cpu''" "\<not> secretValue ''2''"
  by code_simp+

lemma tiny_ok: "maps_typed (tiny_aggregate [''a'', ''b''])" "sums_short zero_hashing" "Validate (tiny_aggregate [''a'', ''b'']) = None"
proof -
  show "maps_typed (tiny_aggregate [''a'', ''b''])" by (simp add: maps_typed_def tiny_aggregate_def tiny_resource_def)
  show "sums_short zero_hashing" by (simp add: sums_short_def zero_hashing_def)
  have "depends_on (ag_Edges (tiny_aggregate [''a'', ''b''])) = {(''b'', ''a'')}"
    by (simp add: depends_on_def tiny_aggregate_def tiny_edge_def)
  then have "acyclic (depends_on (ag_Edges (tiny_aggregate [''a'', ''b''])))" by (simp add: acyclic_insert wf_acyclic)
  moreover have "valid_resource (tiny_resource i)" if "\<not> invalidText i" for i
    using that tiny_text tiny_public by (simp add: valid_resource_def tiny_resource_def MaxRequirements_def MaxAttributes_def)
  then have "well_formed_aggregate (tiny_aggregate [''a'', ''b''])"
    using tiny_text by (simp add: well_formed_aggregate_def within_limits_def tiny_aggregate_def validDiscovery_def check_edge_def ok_iff
      MaxResources_def MaxEdges_def MaxUnknowns_def MaxGaps_def originKey_def) (simp add: tiny_resource_def tiny_edge_def)
  ultimately show "Validate (tiny_aggregate [''a'', ''b'']) = None" by (simp add: Validate_ok)
qed

lemma tiny_same: "same_content (tiny_aggregate [''a'', ''b'']) (tiny_aggregate [''b'', ''a''])"
  by (simp add: same_content_def tiny_aggregate_def add_mset_commute)

text \<open>
  C19: Planning succeeds exactly on the aggregates whose items are well formed, known and
  unique, whose dependencies have no cycle and whose discovery did not fail; and the plan it
  returns passes the validation that every consumer of a plan runs before using it.
\<close>

theorem planning_total:
  assumes "maps_typed a" "sums_short H"
  shows "((\<exists>p. BuildPlan H a = Inr p) \<longleftrightarrow>
      well_formed_aggregate a \<and> acyclic (depends_on (ag_Edges a)) \<and> ag_Discovery a \<noteq> DiscoveryFailed)
    \<and> (\<forall>p. BuildPlan H a = Inr p \<longrightarrow> Plan_Validate H p = None)"
proof
  show "(\<exists>p. BuildPlan H a = Inr p) \<longleftrightarrow>
      well_formed_aggregate a \<and> acyclic (depends_on (ag_Edges a)) \<and> ag_Discovery a \<noteq> DiscoveryFailed"
    unfolding BuildPlan_eq [OF assms] using Validate_ok [of a] by (auto split: option.split)
  show "\<forall>p. BuildPlan H a = Inr p \<longrightarrow> Plan_Validate H p = None"
    by (auto simp: BuildPlan_def Let_def split: option.splits sum.splits if_splits)
qed

theorem planning_total_witness:
  "\<exists>p. BuildPlan zero_hashing (tiny_aggregate [''a'', ''b'']) = Inr p \<and> Plan_Validate zero_hashing p = None"
  using planning_total [OF tiny_ok(1,2)] tiny_ok(3) Validate_ok [of "tiny_aggregate [''a'', ''b'']"]
  by (auto simp: tiny_aggregate_def)

text \<open>
  The plan does not depend on the order in which resources, edges, requirements,
  attributes or observations were discovered: two aggregates with the same content give the
  same plan, digests and operation identifiers included, or are both refused.
\<close>

theorem plan_order_independent:
  assumes "same_content a b" "maps_typed a" "maps_typed b" "sums_short H"
  shows "(\<exists>p. BuildPlan H a = Inr p \<and> BuildPlan H b = Inr p) \<or> (\<exists>e e'. BuildPlan H a = Inl e \<and> BuildPlan H b = Inl e')"
proof -
  have v: "Validate a = None \<longleftrightarrow> Validate b = None" by (rule same_content_Validate [OF assms(1)])
  have d: "ag_Discovery a = ag_Discovery b" using same_content_parts(1) [OF assms(1)] .
  show ?thesis
  proof (cases "Validate a")
    case None
    with v same_content_Canonical [OF assms(1) None assms(2)] d show ?thesis
      unfolding BuildPlan_eq [OF assms(2,4)] BuildPlan_eq [OF assms(3,4)] by simp
  next
    case (Some e)
    with v obtain e' where "Validate b = Some e'" by (cases "Validate b") auto
    with Some show ?thesis by (simp add: BuildPlan_def)
  qed
qed

theorem plan_order_independent_witness:
  "BuildPlan zero_hashing (tiny_aggregate [''a'', ''b'']) = BuildPlan zero_hashing (tiny_aggregate [''b'', ''a''])"
proof -
  have "maps_typed (tiny_aggregate [''b'', ''a''])" by (simp add: maps_typed_def tiny_aggregate_def tiny_resource_def)
  from plan_order_independent [OF tiny_same tiny_ok(1) this tiny_ok(2)] show ?thesis
    using BuildPlan_eq [OF tiny_ok(1,2)] tiny_ok(3) by (auto simp: tiny_aggregate_def)
qed

text \<open>
  C20: A plan has exactly one step for every requirement of every discovered resource; a step
  depends on exactly the steps of the resources its own resource requires, and all of those
  stand before it, so executing the steps in order never meets an unfinished dependency.
\<close>

theorem plan_steps_ordered:
  assumes p: "BuildPlan H a = Inr p" and typed: "maps_typed a" "sums_short H"
  shows "mset (map step_target (pn_Steps p)) = mset (wanted_targets (ag_Resources a))
    \<and> (\<forall>pre s post. pn_Steps p = pre @ s # post \<longrightarrow>
         set (st_DependsOn s) = st_OperationID ` {s' \<in> set (pn_Steps p). st_ResourceID s' \<in> required_targets (ag_Edges a) (st_ResourceID s)}
         \<and> set (st_DependsOn s) \<subseteq> st_OperationID ` set pre)"
proof -
  have v: "Validate a = None" and steps: "pn_Steps p = plan_steps H (Canonical a)"
    using p unfolding BuildPlan_eq [OF typed] by (auto split: option.splits if_splits)
  note c = Canonical_valid [OF v]
  have edges: "required_targets (ag_Edges (Canonical a)) = required_targets (ag_Edges a)"
    by (simp add: fun_eq_iff required_targets_def Canonical_def)
  have "mset (wanted_targets (ag_Resources (Canonical a))) = mset (wanted_targets (ag_Resources a))"
    by (rule wanted_targets_Canonical)
  with plan_steps_targets [OF c, of H] plan_steps_depend [OF c] show ?thesis unfolding steps edges by simp
qed

theorem plan_steps_ordered_witness:
  "\<exists>p. BuildPlan zero_hashing (tiny_aggregate [''a'', ''b'']) = Inr p
     \<and> mset (map step_target (pn_Steps p)) = {#(''a'', ''compute'', ''v1''), (''b'', ''compute'', ''v1'')#}"
proof -
  have "\<not> Validate (tiny_aggregate [''a'', ''b'']) \<noteq> None" using tiny_ok(3) by simp
  then obtain p where p: "BuildPlan zero_hashing (tiny_aggregate [''a'', ''b'']) = Inr p"
    using BuildPlan_eq [OF tiny_ok(1,2)] by (auto simp: tiny_aggregate_def)
  with plan_steps_ordered [OF p tiny_ok(1,2)] show ?thesis
    by (auto simp: wanted_targets_def tiny_aggregate_def tiny_resource_def)
qed

end
