(* ===== verification/Target_Ports.thy ===== *)
theory Target_Ports
  imports Migration_Plan "HOL-Library.State_Monad"
begin

text \<open>
  The ports of \<^verbatim>\<open>internal/app/migration\<close>: the outside world a migration runs against, with the
  data that crosses them. A port is a function on the state of the world, of any type; so is
  asking a context whether it was canceled, which lets time pass between two calls. The
  calls that matter for the order of execution are logged, each with the operation it is made for.
  \<open>traced\<close> states what a computation returns together with the calls it makes.
\<close>

section \<open>Data\<close>

text \<open>
  Errors of a port carry whether \<^verbatim>\<open>errors.Is(err, core.ErrOperationIndeterminate)\<close> holds; the
  others are built by this package from a format and its arguments.
\<close>

datatype exec_error =
    Port string bool
  | Message string "string list"
  | Wrap string "string list" exec_error
  | Joined "exec_error list"
  | PlanError migration_error

fun is_indeterminate :: "exec_error \<Rightarrow> bool" where
  "is_indeterminate (Port _ b) = b"
| "is_indeterminate (Message _ _) = False"
| "is_indeterminate (Wrap _ _ e) = is_indeterminate e"
| "is_indeterminate (Joined es) = list_ex is_indeterminate es"
| "is_indeterminate (PlanError _) = False"

text \<open>\<^verbatim>\<open>errors.Join\<close> drops the nil errors.\<close>

definition join_errors :: "exec_error option list \<Rightarrow> exec_error option" where
  "join_errors es = (case List.map_filter id es of [] \<Rightarrow> None | es' \<Rightarrow> Some (Joined es'))"

record CapabilityPermissions =
  pm_Network :: "string list"
  pm_Filesystem :: "string list"
  pm_Secrets :: "string list"

record CapabilityRequirement =
  cr_Capability :: string
  cr_Version :: string
  cr_Platforms :: "string list"
  cr_Permissions :: CapabilityPermissions
  cr_AllowDegraded :: bool

record CapabilityEvidence =
  ce_Declared :: bool
  ce_Discovered :: bool
  ce_Negotiated :: bool
  ce_Verified :: bool
  ce_Available :: bool

record CapabilityCandidate =
  cc_ID :: string
  cc_Capability :: string
  cc_Version :: string
  cc_Digest :: string
  cc_Platforms :: "string list"
  cc_Permissions :: CapabilityPermissions
  cc_Evidence :: CapabilityEvidence
  cc_Compatibility :: string
  cc_Reasons :: "string list"

record ResolvedCapability =
  rc_CandidateID :: string
  rc_Digest :: string
  rc_Compatibility :: string
  rc_Reasons :: "string list"

record TargetDifference =
  td_Known :: bool
  td_Distance :: "64 word"
  td_Fingerprint :: string

datatype StepStatus = StepUnset | StepConverged | StepFailed | StepBlocked

record ExecutionEvidence =
  ev_TraceID :: string
  ev_InputDigest :: string
  ev_PlanDigest :: string
  ev_OperationID :: string
  ev_ResourceID :: string
  ev_Capability :: string
  ev_CapabilityVersion :: string
  ev_CandidateID :: string
  ev_CandidateDigest :: string
  ev_ResolvedCapability :: string
  ev_VerifiedCapability :: string
  ev_Compatibility :: string
  ev_Gaps :: "CompatibilityGap list"
  ev_ObservationCount :: "32 word"
  ev_VerificationCount :: "32 word"
  ev_Verified :: bool
  ev_Status :: StepStatus
  ev_Applied :: bool
  ev_Indeterminate :: bool

section \<open>Ports and the calls made through them\<close>

text \<open>
  \<open>'h\<close> is what the factory returns (\<^verbatim>\<open>TargetOperations\<close>; \<open>None\<close> is nil) and \<open>'o\<close> an opaque
  observation; \<open>pt_Progress\<close> is the type assertion to \<^verbatim>\<open>ProgressOperations\<close>.
\<close>

record ('w, 'h, 'o) ports =
  pt_Ctx :: "'w \<Rightarrow> exec_error option \<times> 'w"
  pt_Candidates :: "(CapabilityRequirement \<Rightarrow> 'w \<Rightarrow> (exec_error + CapabilityCandidate list) \<times> 'w) option"
  pt_Open :: "ResolvedCapability \<Rightarrow> 'w \<Rightarrow> (exec_error + 'h option) \<times> 'w"
  pt_Progress :: "'h \<Rightarrow> bool"
  pt_Observe :: "'h \<Rightarrow> Resource \<Rightarrow> 'w \<Rightarrow> (exec_error + 'o) \<times> 'w"
  pt_Verify :: "'h \<Rightarrow> Resource \<Rightarrow> 'o \<Rightarrow> 'w \<Rightarrow> (exec_error + bool) \<times> 'w"
  pt_Apply :: "'h \<Rightarrow> Step \<Rightarrow> Resource \<Rightarrow> 'w \<Rightarrow> exec_error option \<times> 'w"
  pt_Difference :: "'h \<Rightarrow> Resource \<Rightarrow> 'o \<Rightarrow> 'w \<Rightarrow> (exec_error + TargetDifference) \<times> 'w"
  pt_Record :: "ExecutionEvidence \<Rightarrow> 'w \<Rightarrow> exec_error option \<times> 'w"

datatype call =
    Observe_call bool
  | Verify_call "exec_error + bool"
  | Apply_call Step
  | Difference_call "exec_error + TargetDifference"
  | Record_call ExecutionEvidence bool

type_synonym log = "(string \<times> call) list"

record 'w world =
  wd_state :: 'w
  wd_log :: log

type_synonym ('w, 'a) io = "('w world, 'a) state"

abbreviation return :: "'a \<Rightarrow> ('w, 'a) io" where
  "return \<equiv> State_Monad.return"

definition quiet :: "('w \<Rightarrow> 'r \<times> 'w) \<Rightarrow> ('w, 'r) io" where
  "quiet f = State (\<lambda>s. case f (wd_state s) of (r, w) \<Rightarrow> (r, s\<lparr>wd_state := w\<rparr>))"

definition logged :: "string \<Rightarrow> ('r \<Rightarrow> call) \<Rightarrow> ('w \<Rightarrow> 'r \<times> 'w) \<Rightarrow> ('w, 'r) io" where
  "logged op c f = State (\<lambda>s. case f (wd_state s) of (r, w) \<Rightarrow> (r, \<lparr>wd_state = w, wd_log = wd_log s @ [(op, c r)]\<rparr>))"

abbreviation succeeded :: "'e + 'a \<Rightarrow> bool" where
  "succeeded r \<equiv> (case r of Inl _ \<Rightarrow> False | Inr _ \<Rightarrow> True)"

definition ctx_Err :: "('w, 'h, 'o) ports \<Rightarrow> ('w, exec_error option) io" where
  "ctx_Err P = quiet (pt_Ctx P)"

definition Observe :: "('w, 'h, 'o) ports \<Rightarrow> string \<Rightarrow> 'h \<Rightarrow> Resource \<Rightarrow> ('w, exec_error + 'o) io" where
  "Observe P op h r = logged op (\<lambda>x. Observe_call (succeeded x)) (pt_Observe P h r)"

definition Verify :: "('w, 'h, 'o) ports \<Rightarrow> string \<Rightarrow> 'h \<Rightarrow> Resource \<Rightarrow> 'o \<Rightarrow> ('w, exec_error + bool) io" where
  "Verify P op h r ob = logged op Verify_call (pt_Verify P h r ob)"

definition Apply :: "('w, 'h, 'o) ports \<Rightarrow> string \<Rightarrow> 'h \<Rightarrow> Step \<Rightarrow> Resource \<Rightarrow> ('w, exec_error option) io" where
  "Apply P op h st r = logged op (\<lambda>_. Apply_call st) (pt_Apply P h st r)"

definition Difference :: "('w, 'h, 'o) ports \<Rightarrow> string \<Rightarrow> 'h \<Rightarrow> Resource \<Rightarrow> 'o \<Rightarrow> ('w, exec_error + TargetDifference) io" where
  "Difference P op h r ob = logged op Difference_call (pt_Difference P h r ob)"

definition RecordExecution :: "('w, 'h, 'o) ports \<Rightarrow> ExecutionEvidence \<Rightarrow> ('w, exec_error option) io" where
  "RecordExecution P ev = logged (ev_OperationID ev) (\<lambda>x. Record_call ev (x = None)) (pt_Record P ev)"

section \<open>What a computation returns and logs\<close>

definition traced :: "('w, 'a) io \<Rightarrow> ('a \<Rightarrow> log \<Rightarrow> bool) \<Rightarrow> bool" where
  "traced m Q \<longleftrightarrow> (\<forall>s. \<exists>l. wd_log (snd (run_state m s)) = wd_log s @ l \<and> Q (fst (run_state m s)) l)"

named_theorems tracing \<open>rules that follow a computation call by call\<close>

lemma traced_return [tracing]: "Q x [] \<Longrightarrow> traced (return x) Q"
  by (simp add: traced_def)

lemma traced_bind:
  assumes "traced m P" "\<And>x l. P x l \<Longrightarrow> traced (f x) (\<lambda>y l'. Q y (l @ l'))"
  shows "traced (State_Monad.bind m f) Q"
  unfolding traced_def
proof
  fix s
  obtain x s1 where m: "run_state m s = (x, s1)" by fastforce
  with assms(1) obtain l where l: "wd_log s1 = wd_log s @ l" "P x l" unfolding traced_def by (metis fst_conv snd_conv)
  from assms(2) [OF l(2)] obtain l' where "wd_log (snd (run_state (f x) s1)) = wd_log s1 @ l'" "Q (fst (run_state (f x) s1)) (l @ l')"
    unfolding traced_def by metis
  with m l show "\<exists>l. wd_log (snd (run_state (State_Monad.bind m f) s)) = wd_log s @ l \<and> Q (fst (run_state (State_Monad.bind m f) s)) l"
    by auto
qed

lemma traced_mono: "traced m P \<Longrightarrow> (\<And>x l. P x l \<Longrightarrow> Q x l) \<Longrightarrow> traced m Q"
  unfolding traced_def by metis

lemma traced_quiet: "(\<And>r. Q r []) \<Longrightarrow> traced (quiet f) Q"
  by (simp add: traced_def quiet_def case_prod_unfold)

lemma traced_logged: "(\<And>r. Q r [(op, c r)]) \<Longrightarrow> traced (logged op c f) Q"
  by (simp add: traced_def logged_def case_prod_unfold)

lemma traced_bind_quiet [tracing]: "(\<And>r. traced (f r) Q) \<Longrightarrow> traced (State_Monad.bind (quiet g) f) Q"
  by (rule traced_bind [where P = "\<lambda>_ l. l = []"]) (auto intro: traced_quiet)

lemma traced_bind_logged [tracing]:
  "(\<And>r. traced (f r) (\<lambda>y l. Q y ((op, c r) # l))) \<Longrightarrow> traced (State_Monad.bind (logged op c g) f) Q"
  by (rule traced_bind [where P = "\<lambda>x l. l = [(op, c x)]"]) (auto intro: traced_logged)

lemma traced_option [tracing]:
  "(x = None \<Longrightarrow> traced f Q) \<Longrightarrow> (\<And>y. x = Some y \<Longrightarrow> traced (g y) Q) \<Longrightarrow> traced (case x of None \<Rightarrow> f | Some y \<Rightarrow> g y) Q"
  by (cases x) auto

lemma traced_sum [tracing]:
  "(\<And>e. x = Inl e \<Longrightarrow> traced (f e) Q) \<Longrightarrow> (\<And>y. x = Inr y \<Longrightarrow> traced (g y) Q) \<Longrightarrow> traced (case x of Inl e \<Rightarrow> f e | Inr y \<Rightarrow> g y) Q"
  by (cases x) auto

lemma traced_if [tracing]: "(b \<Longrightarrow> traced f Q) \<Longrightarrow> (\<not> b \<Longrightarrow> traced g Q) \<Longrightarrow> traced (if b then f else g) Q"
  by auto

lemma traced_run:
  assumes "traced m Q" "run_state m s = (x, s')"
  obtains l where "wd_log s' = wd_log s @ l" "Q x l"
  using assms unfolding traced_def by (metis fst_conv snd_conv)

end
