(* ===== verification/Capability_Resolver.thy ===== *)
theory Capability_Resolver
  imports Target_Ports
begin

text \<open>
  \<^verbatim>\<open>internal/app/migration/capability_resolver.go\<close>: selecting the implementation of a capability.
  Shown: the resolver only selects a candidate whose whole evidence is present and that
  matches the requirement, the best one in the documented order.
\<close>

abbreviation CompatibilityUnsupported :: string where "CompatibilityUnsupported \<equiv> ''unsupported''"
abbreviation CompatibilityDegraded :: string where "CompatibilityDegraded \<equiv> ''degraded''"
abbreviation CompatibilityAdaptable :: string where "CompatibilityAdaptable \<equiv> ''adaptable''"
abbreviation CompatibilityDirect :: string where "CompatibilityDirect \<equiv> ''direct''"

definition is_hex :: "char \<Rightarrow> bool" where
  "is_hex c \<longleftrightarrow> is_hex_lower c \<or> (CHR ''A'' \<le> c \<and> c \<le> CHR ''F'')"

definition validSHA256Digest :: "string \<Rightarrow> bool" where
  "validSHA256Digest v \<longleftrightarrow> length v = 7 + 64 \<and> take 7 v = ''sha256:'' \<and> list_all is_hex (drop 7 v)"

definition compatibilityRank :: "string \<Rightarrow> nat" where
  "compatibilityRank v = (if v = CompatibilityDirect then 4 else if v = CompatibilityAdaptable then 3
     else if v = CompatibilityDegraded then 2 else 1)"

definition demonstrated :: "CapabilityEvidence \<Rightarrow> bool" where
  "demonstrated e \<longleftrightarrow> ce_Declared e \<and> ce_Discovered e \<and> ce_Negotiated e \<and> ce_Verified e \<and> ce_Available e"

definition containsAll :: "string list \<Rightarrow> string list \<Rightarrow> bool" where
  "containsAll offers required = list_all (\<lambda>v. v \<in> set offers) required"

definition assess :: "CapabilityRequirement \<Rightarrow> CapabilityCandidate \<Rightarrow> string \<times> string list" where
  "assess q c =
     (let reasons =
        (if cr_Version q \<noteq> [] \<and> cc_Version c \<noteq> cr_Version q then [''version mismatch''] else [])
        @ (if \<not> containsAll (cc_Platforms c) (cr_Platforms q) then [''platform unavailable''] else [])
        @ (if \<not> containsAll (pm_Network (cc_Permissions c)) (pm_Network (cr_Permissions q))
              \<or> \<not> containsAll (pm_Filesystem (cc_Permissions c)) (pm_Filesystem (cr_Permissions q))
              \<or> \<not> containsAll (pm_Secrets (cc_Permissions c)) (pm_Secrets (cr_Permissions q))
           then [''permissions insufficient''] else [])
      in if reasons \<noteq> [] then (CompatibilityUnsupported, reasons)
         else if cc_Compatibility c = CompatibilityUnsupported then (CompatibilityUnsupported, cc_Reasons c)
         else (if cc_Compatibility c = [] then CompatibilityDirect else cc_Compatibility c, cc_Reasons c))"

definition assessed :: "CapabilityRequirement \<Rightarrow> CapabilityCandidate \<Rightarrow> CapabilityCandidate" where
  "assessed q c = c\<lparr>cc_Compatibility := fst (assess q c), cc_Reasons := snd (assess q c)\<rparr>"

definition skipped :: "CapabilityRequirement \<Rightarrow> CapabilityCandidate \<Rightarrow> bool" where
  "skipped q c \<longleftrightarrow> cc_ID c = [] \<or> cc_Capability c \<noteq> cr_Capability q \<or> \<not> demonstrated (cc_Evidence c)
     \<or> \<not> validSHA256Digest (cc_Digest c)
     \<or> (let compatibility = fst (assess q c) in
        compatibility = CompatibilityUnsupported \<or> (compatibility = CompatibilityDegraded \<and> \<not> cr_AllowDegraded q))"

fun eligible_loop ::
  "('w, 'h, 'o) ports \<Rightarrow> CapabilityRequirement \<Rightarrow> CapabilityCandidate list \<Rightarrow> CapabilityCandidate list \<Rightarrow>
     ('w, exec_error + CapabilityCandidate list) io" where
  "eligible_loop P q [] acc = return (Inr acc)"
| "eligible_loop P q (c # cs) acc = do {
     err \<leftarrow> ctx_Err P;
     case err of
       Some e \<Rightarrow> return (Inl e)
     | None \<Rightarrow> eligible_loop P q cs (if skipped q c then acc else acc @ [assessed q c])
   }"

text \<open>
  \<^verbatim>\<open>sort.SliceStable\<close>: insertion into the sorted front from its end. That is how the library
  sorts up to twenty elements; where the comparison is a strict weak order every stable sort
  gives the same list.
\<close>

fun insert_back :: "('a \<Rightarrow> 'a \<Rightarrow> bool) \<Rightarrow> 'a \<Rightarrow> 'a list \<Rightarrow> 'a list" where
  "insert_back lt x [] = [x]"
| "insert_back lt x (y # ys) = (if lt x y then y # insert_back lt x ys else x # y # ys)"

definition SliceStable :: "('a \<Rightarrow> 'a \<Rightarrow> bool) \<Rightarrow> 'a list \<Rightarrow> 'a list" where
  "SliceStable lt xs = rev (foldl (\<lambda>acc x. insert_back lt x acc) [] xs)"

definition preferred :: "CapabilityCandidate \<Rightarrow> CapabilityCandidate \<Rightarrow> bool" where
  "preferred a b =
     (if cc_Compatibility a \<noteq> cc_Compatibility b
      then compatibilityRank (cc_Compatibility b) < compatibilityRank (cc_Compatibility a)
      else if cc_Version a \<noteq> cc_Version b then cc_Version b < cc_Version a
      else if cc_Digest a \<noteq> cc_Digest b then cc_Digest a < cc_Digest b
      else cc_ID a < cc_ID b)"

definition resolved_of :: "CapabilityCandidate \<Rightarrow> ResolvedCapability" where
  "resolved_of c = \<lparr>rc_CandidateID = cc_ID c, rc_Digest = cc_Digest c, rc_Compatibility = cc_Compatibility c, rc_Reasons = cc_Reasons c\<rparr>"

definition Resolve ::
  "('w, 'h, 'o) ports \<Rightarrow> CapabilityRequirement \<Rightarrow> ('w, exec_error + ResolvedCapability) io" where
  "Resolve P q = do {
     err \<leftarrow> ctx_Err P;
     case err of Some e \<Rightarrow> return (Inl e) | None \<Rightarrow>
     (case pt_Candidates P of
        None \<Rightarrow> return (Inl (Message ''migration capability resolver: candidates port is required'' []))
      | Some port \<Rightarrow>
          if cr_Capability q = [] then return (Inl (Message ''migration capability resolver: capability is required'' []))
          else do {
            listed \<leftarrow> quiet (port q);
            case listed of Inl e \<Rightarrow> return (Inl (Wrap ''migration capability resolver: list candidates'' [] e))
            | Inr candidates \<Rightarrow> do {
                err \<leftarrow> ctx_Err P;
                case err of Some e \<Rightarrow> return (Inl e) | None \<Rightarrow> do {
                  found \<leftarrow> eligible_loop P q candidates [];
                  case found of Inl e \<Rightarrow> return (Inl e)
                  | Inr eligible \<Rightarrow>
                      return (case SliceStable preferred eligible of
                          [] \<Rightarrow> Inl (Message ''migration capability resolver: no available candidate for %q'' [cr_Capability q])
                        | selected # _ \<Rightarrow> Inr (resolved_of selected))
                }
              }
          })
   }"

section \<open>Sorting\<close>

lemma insert_back_mset: "mset (insert_back lt x ys) = add_mset x (mset ys)"
  by (induction ys) auto

lemma SliceStable_mset: "mset (SliceStable lt xs) = mset xs"
proof -
  have "mset (foldl (\<lambda>acc x. insert_back lt x acc) ys xs) = mset ys + mset xs" for ys
    by (induction xs arbitrary: ys) (auto simp: insert_back_mset)
  then show ?thesis by (simp add: SliceStable_def)
qed

text \<open>The least element comes first when \<open>lt\<close> is a strict weak order.\<close>

locale weak_order =
  fixes lt :: "'a \<Rightarrow> 'a \<Rightarrow> bool" and dom :: "'a \<Rightarrow> bool"
  assumes asym: "dom x \<Longrightarrow> dom y \<Longrightarrow> lt x y \<Longrightarrow> \<not> lt y x"
    and negative: "dom x \<Longrightarrow> dom y \<Longrightarrow> dom z \<Longrightarrow> \<not> lt x y \<Longrightarrow> \<not> lt y z \<Longrightarrow> \<not> lt x z"
begin

lemma insert_back_sorted:
  "dom x \<Longrightarrow> \<forall>y\<in>set ys. dom y \<Longrightarrow> sorted_wrt (\<lambda>a b. \<not> lt a b) ys \<Longrightarrow> sorted_wrt (\<lambda>a b. \<not> lt a b) (insert_back lt x ys)"
proof (induction ys)
  case (Cons y ys)
  have set: "set (insert_back lt x ys) = insert x (set ys)"
    using insert_back_mset [of lt x ys] by (metis set_mset_add_mset_insert set_mset_mset)
  show ?case
  proof (cases "lt x y")
    case True
    then have "\<not> lt y x" using asym Cons.prems by simp
    with Cons True set show ?thesis by simp
  next
    case False
    then have "\<not> lt x z" if "z \<in> set ys" for z using that Cons.prems negative [of x y z] by simp
    with False Cons show ?thesis by simp
  qed
qed simp

lemma SliceStable_first:
  assumes "\<forall>x\<in>set xs. dom x" "SliceStable lt xs = m # ms" "x \<in> set xs"
  shows "\<not> lt x m"
proof -
  let ?f = "foldl (\<lambda>acc x. insert_back lt x acc)"
  have "sorted_wrt (\<lambda>a b. \<not> lt a b) (?f [] xs) \<and> set (?f [] xs) = set xs" if "\<forall>x\<in>set xs. dom x" for xs
    using that
  proof (induction xs rule: rev_induct)
    case (snoc x xs)
    then have IH: "sorted_wrt (\<lambda>a b. \<not> lt a b) (?f [] xs)" "set (?f [] xs) = set xs" by auto
    have "set (insert_back lt x (?f [] xs)) = insert x (set xs)"
      using insert_back_mset [of lt x "?f [] xs"] IH(2) by (metis set_mset_add_mset_insert set_mset_mset)
    moreover have "sorted_wrt (\<lambda>a b. \<not> lt a b) (insert_back lt x (?f [] xs))"
      using snoc.prems IH by (intro insert_back_sorted) auto
    ultimately show ?case by simp
  qed simp
  note f = this [OF assms(1)]
  have e: "?f [] xs = rev ms @ [m]" using assms(2) unfolding SliceStable_def by (metis rev.simps(2) rev_rev_ident)
  then have "x = m \<or> x \<in> set ms" using f assms(3) by auto
  then show ?thesis
  proof
    assume "x = m"
    then show ?thesis using asym assms(1,3) by blast
  next
    assume "x \<in> set ms"
    with f e show ?thesis by (simp add: sorted_wrt_append)
  qed
qed

end

definition known_compatibility :: "CapabilityCandidate \<Rightarrow> bool" where
  "known_compatibility c \<longleftrightarrow> validCompatibility (cc_Compatibility c)"

lemma compatibilityRank_inject:
  "validCompatibility a \<Longrightarrow> validCompatibility b \<Longrightarrow> compatibilityRank a = compatibilityRank b \<longleftrightarrow> a = b"
  by (auto simp: validCompatibility_def compatibilityRank_def)

lemma preferred_key:
  assumes "known_compatibility a" "known_compatibility b"
  shows "preferred a b \<longleftrightarrow> compatibilityRank (cc_Compatibility b) < compatibilityRank (cc_Compatibility a)
     \<or> compatibilityRank (cc_Compatibility b) = compatibilityRank (cc_Compatibility a) \<and> (cc_Version b < cc_Version a
     \<or> cc_Version b = cc_Version a \<and> (cc_Digest a < cc_Digest b \<or> cc_Digest a = cc_Digest b \<and> cc_ID a < cc_ID b))"
  using assms compatibilityRank_inject [of "cc_Compatibility a" "cc_Compatibility b"]
  unfolding preferred_def known_compatibility_def by (cases "cc_Compatibility a = cc_Compatibility b") auto

interpretation candidates: weak_order preferred known_compatibility
proof
  fix a b c
  assume k: "known_compatibility a" "known_compatibility b"
  show "preferred a b \<Longrightarrow> \<not> preferred b a" unfolding preferred_key [OF k] preferred_key [OF k(2,1)] by auto
  assume c: "known_compatibility c"
  show "\<not> preferred a b \<Longrightarrow> \<not> preferred b c \<Longrightarrow> \<not> preferred a c"
    unfolding preferred_key [OF k] preferred_key [OF k(2) c] preferred_key [OF k(1) c] by auto
qed

section \<open>What is selected\<close>

lemma eligible_loop_result:
  "fst (run_state (eligible_loop P q cs acc) s) = Inr xs \<Longrightarrow> xs = acc @ map (assessed q) (filter (\<lambda>c. \<not> skipped q c) cs)"
proof (induction cs arbitrary: acc s)
  case (Cons c cs)
  let ?acc = "if skipped q c then acc else acc @ [assessed q c]"
  from Cons.prems have "fst (run_state (eligible_loop P q cs ?acc) (snd (run_state (ctx_Err P) s))) = Inr xs"
    by (simp add: case_prod_unfold split: option.splits if_splits)
  from Cons.IH [OF this] show ?case by simp
qed simp

definition offered :: "CapabilityRequirement \<Rightarrow> CapabilityCandidate list \<Rightarrow> CapabilityCandidate list" where
  "offered q cs = map (assessed q) (filter (\<lambda>c. \<not> skipped q c) cs)"

lemma Resolve_result:
  assumes "fst (run_state (Resolve P q) s) = Inr r"
  obtains port cs m ms where "pt_Candidates P = Some port" "fst (port q (wd_state (snd (run_state (ctx_Err P) s)))) = Inr cs"
    "SliceStable preferred (offered q cs) = m # ms" "r = resolved_of m"
proof -
  from assms obtain port where port: "pt_Candidates P = Some port"
    by (auto simp: Resolve_def case_prod_unfold split: option.splits)
  let ?s1 = "snd (run_state (ctx_Err P) s)"
  from assms port obtain cs where cs: "fst (port q (wd_state ?s1)) = Inr cs"
    by (auto simp: Resolve_def case_prod_unfold quiet_def split: option.splits sum.splits if_splits)
  let ?s2 = "snd (run_state (ctx_Err P) (snd (run_state (quiet (port q)) ?s1)))"
  from assms port cs obtain xs where xs: "fst (run_state (eligible_loop P q cs []) ?s2) = Inr xs"
    and r: "(case SliceStable preferred xs of [] \<Rightarrow> Inl (Message ''migration capability resolver: no available candidate for %q'' [cr_Capability q])
       | m # _ \<Rightarrow> Inr (resolved_of m)) = Inr r"
    by (auto simp: Resolve_def case_prod_unfold quiet_def split: option.splits sum.splits if_splits)
  have "xs = offered q cs" using eligible_loop_result [OF xs] by (simp add: offered_def)
  with r that [OF port cs] show thesis by (auto split: list.splits)
qed

lemma assess_supported:
  "fst (assess q c) \<noteq> CompatibilityUnsupported \<Longrightarrow> (cr_Version q \<noteq> [] \<longrightarrow> cc_Version c = cr_Version q)
     \<and> set (cr_Platforms q) \<subseteq> set (cc_Platforms c) \<and> set (pm_Network (cr_Permissions q)) \<subseteq> set (pm_Network (cc_Permissions c))
     \<and> set (pm_Filesystem (cr_Permissions q)) \<subseteq> set (pm_Filesystem (cc_Permissions c))
     \<and> set (pm_Secrets (cr_Permissions q)) \<subseteq> set (pm_Secrets (cc_Permissions c))"
  by (auto simp: assess_def Let_def containsAll_def list_all_iff split: if_splits)

definition serves_requirement :: "CapabilityRequirement \<Rightarrow> CapabilityCandidate \<Rightarrow> bool" where
  "serves_requirement q c \<longleftrightarrow> demonstrated (cc_Evidence c) \<and> cc_Capability c = cr_Capability q
     \<and> (cr_Version q \<noteq> [] \<longrightarrow> cc_Version c = cr_Version q) \<and> set (cr_Platforms q) \<subseteq> set (cc_Platforms c)
     \<and> set (pm_Network (cr_Permissions q)) \<subseteq> set (pm_Network (cc_Permissions c))
     \<and> set (pm_Filesystem (cr_Permissions q)) \<subseteq> set (pm_Filesystem (cc_Permissions c))
     \<and> set (pm_Secrets (cr_Permissions q)) \<subseteq> set (pm_Secrets (cc_Permissions c))
     \<and> (cc_Compatibility c = CompatibilityDegraded \<longrightarrow> cr_AllowDegraded q)"

lemma not_skipped_serves: "\<not> skipped q c \<Longrightarrow> serves_requirement q c"
proof -
  assume n: "\<not> skipped q c"
  then have sup: "fst (assess q c) \<noteq> CompatibilityUnsupported" by (simp add: skipped_def Let_def)
  have "fst (assess q c) = cc_Compatibility c" if "cc_Compatibility c = CompatibilityDegraded"
    using sup that by (simp add: assess_def Let_def split: if_splits)
  then show ?thesis using n assess_supported [OF sup] unfolding skipped_def serves_requirement_def Let_def by metis
qed

text \<open>
  The documented order of candidates: a higher rank of compatibility, then the greater version,
  the smaller digest and the smaller identifier.
\<close>

definition ranks_before :: "CapabilityCandidate \<Rightarrow> CapabilityCandidate \<Rightarrow> bool" where
  "ranks_before a b \<longleftrightarrow> compatibilityRank (cc_Compatibility b) < compatibilityRank (cc_Compatibility a)
     \<or> compatibilityRank (cc_Compatibility b) = compatibilityRank (cc_Compatibility a) \<and> (cc_Version b < cc_Version a
     \<or> cc_Version b = cc_Version a \<and> (cc_Digest a < cc_Digest b \<or> cc_Digest a = cc_Digest b \<and> cc_ID a < cc_ID b))"

text \<open>
  C21: A capability is resolved only to a candidate of the list the port returned to this very
  call, whose evidence is complete, that has the required version, platforms and
  permissions and is degraded only where that is allowed. If every usable candidate of that list
  has one of the four known compatibilities, no usable one ranks before the selected one in the
  order of compatibility, version, digest and identifier.
\<close>

theorem resolve_best:
  assumes "fst (run_state (Resolve P q) s) = Inr r"
  shows "\<exists>port cs. pt_Candidates P = Some port \<and> fst (port q (wd_state (snd (run_state (ctx_Err P) s)))) = Inr cs \<and>
     (\<exists>c\<in>set cs. \<not> skipped q c \<and> serves_requirement q c \<and> r = resolved_of (assessed q c) \<and>
        ((\<forall>c'\<in>set cs. \<not> skipped q c' \<longrightarrow> validCompatibility (fst (assess q c'))) \<longrightarrow>
         (\<forall>c'\<in>set cs. \<not> skipped q c' \<longrightarrow> \<not> ranks_before (assessed q c') (assessed q c))))"
proof -
  from Resolve_result [OF assms] obtain port cs m ms
    where p: "pt_Candidates P = Some port" "fst (port q (wd_state (snd (run_state (ctx_Err P) s)))) = Inr cs"
      and m: "SliceStable preferred (offered q cs) = m # ms" and r: "r = resolved_of m" .
  have "m \<in> set (offered q cs)" using m SliceStable_mset [of preferred "offered q cs"] by (metis list.set_intros(1) mset_eq_setD)
  then obtain c where c: "c \<in> set cs" "\<not> skipped q c" "m = assessed q c" by (auto simp: offered_def)
  have best: "\<not> ranks_before (assessed q c') m"
    if k: "\<forall>c'\<in>set cs. \<not> skipped q c' \<longrightarrow> validCompatibility (fst (assess q c'))" and c': "c' \<in> set cs" "\<not> skipped q c'" for c'
  proof -
    have known: "\<forall>x\<in>set (offered q cs). known_compatibility x"
      using k by (auto simp: offered_def known_compatibility_def assessed_def)
    have "assessed q c' \<in> set (offered q cs)" using c' by (auto simp: offered_def)
    with candidates.SliceStable_first [OF known m this] known c \<open>m \<in> set (offered q cs)\<close> show ?thesis
      by (simp add: preferred_key ranks_before_def)
  qed
  with c r not_skipped_serves [OF c(2)] p show ?thesis by blast
qed

definition full_evidence :: CapabilityEvidence where
  "full_evidence = \<lparr>ce_Declared = True, ce_Discovered = True, ce_Negotiated = True, ce_Verified = True, ce_Available = True\<rparr>"

definition no_permissions :: CapabilityPermissions where
  "no_permissions = \<lparr>pm_Network = [], pm_Filesystem = [], pm_Secrets = []\<rparr>"

definition demo_candidate :: "string \<Rightarrow> string \<Rightarrow> CapabilityCandidate" where
  "demo_candidate i compatibility = \<lparr>cc_ID = i, cc_Capability = ''compute'', cc_Version = ''v1'',
     cc_Digest = ''sha256:'' @ replicate 64 (CHR ''0''), cc_Platforms = [], cc_Permissions = no_permissions,
     cc_Evidence = full_evidence, cc_Compatibility = compatibility, cc_Reasons = []\<rparr>"

definition demo_requirement :: CapabilityRequirement where
  "demo_requirement = \<lparr>cr_Capability = ''compute'', cr_Version = ''v1'', cr_Platforms = [],
     cr_Permissions = no_permissions, cr_AllowDegraded = False\<rparr>"

definition demo_ports :: "(bool list, unit, bool) ports" where
  "demo_ports = \<lparr>pt_Ctx = (\<lambda>w. (None, w)),
     pt_Candidates = Some (\<lambda>q w. (Inr [demo_candidate ''slow'' ''degraded'', demo_candidate ''b'' ''adaptable'', demo_candidate ''a'' ''adaptable''], w)),
     pt_Open = (\<lambda>c w. (Inr (Some ()), w)), pt_Progress = (\<lambda>_. True),
     pt_Observe = (\<lambda>h r w. (Inr (w \<noteq> []), w)), pt_Verify = (\<lambda>h r ob w. (Inr ob, w)),
     pt_Apply = (\<lambda>h st r w. (Some (Port ''timeout'' True), True # w)),
     pt_Difference = (\<lambda>h r ob w. (Inr \<lparr>td_Known = True, td_Distance = 1, td_Fingerprint = ''missing''\<rparr>, w)),
     pt_Record = (\<lambda>ev w. (None, w))\<rparr>"

definition demo_world :: "bool list world" where
  "demo_world = \<lparr>wd_state = [], wd_log = []\<rparr>"

lemma demo_resolves: "fst (run_state (Resolve demo_ports demo_requirement) demo_world) = Inr (resolved_of (demo_candidate ''a'' ''adaptable''))"
  by code_simp

theorem resolve_best_witness:
  "\<exists>port cs. pt_Candidates demo_ports = Some port \<and> fst (port demo_requirement (wd_state demo_world)) = Inr cs \<and>
     (\<exists>c\<in>set cs. serves_requirement demo_requirement c
        \<and> resolved_of (demo_candidate ''a'' ''adaptable'') = resolved_of (assessed demo_requirement c)
        \<and> (\<forall>c'\<in>set cs. \<not> skipped demo_requirement c' \<longrightarrow>
             \<not> ranks_before (assessed demo_requirement c') (assessed demo_requirement c)))"
proof -
  let ?cs = "[demo_candidate ''slow'' ''degraded'', demo_candidate ''b'' ''adaptable'', demo_candidate ''a'' ''adaptable'']"
  have "list_all (\<lambda>c. skipped demo_requirement c \<or> validCompatibility (fst (assess demo_requirement c))) ?cs" by code_simp
  then have k: "\<forall>c\<in>set ?cs. \<not> skipped demo_requirement c \<longrightarrow> validCompatibility (fst (assess demo_requirement c))"
    by (auto simp: list_all_iff)
  have p: "pt_Candidates demo_ports = Some (\<lambda>q w. (Inr ?cs, w))" by (simp add: demo_ports_def)
  have w: "wd_state (snd (run_state (ctx_Err demo_ports) demo_world)) = wd_state demo_world" by code_simp
  obtain port cs c where r: "pt_Candidates demo_ports = Some port" "fst (port demo_requirement (wd_state demo_world)) = Inr cs"
      "c \<in> set cs" "serves_requirement demo_requirement c"
      "resolved_of (demo_candidate ''a'' ''adaptable'') = resolved_of (assessed demo_requirement c)"
    and best: "(\<forall>c'\<in>set cs. \<not> skipped demo_requirement c' \<longrightarrow> validCompatibility (fst (assess demo_requirement c'))) \<Longrightarrow>
      \<forall>c'\<in>set cs. \<not> skipped demo_requirement c' \<longrightarrow> \<not> ranks_before (assessed demo_requirement c') (assessed demo_requirement c)"
    using resolve_best [OF demo_resolves, unfolded w] by blast
  have "cs = ?cs" using r(1,2) p by auto
  with r best k show ?thesis by blast
qed

end
