(* ===== verification/Migration_Executor.thy ===== *)
theory Migration_Executor
  imports Capability_Resolver
begin

text \<open>
  \<^verbatim>\<open>internal/app/migration/executor.go\<close> and \<^verbatim>\<open>reconciliation.go\<close>: carrying out the steps of a plan.
  Both entry points run the same loop over the steps with their own way to do one step. The
  calls a run makes are described by the relation \<open>run_log\<close>, which the loop refines for every
  step function that keeps to the contract \<open>step_runner\<close>. Shown: a target is changed only
  after everything it depends on was seen converged and recorded, one change per step in
  \<^verbatim>\<open>Execute\<close>, at most \<^verbatim>\<open>maxIterations\<close> different ones in \<^verbatim>\<open>Reconcile\<close>, each followed by an
  observation; success is only reported on observed convergence.
\<close>

section \<open>One step\<close>

definition newExecutionEvidence :: "string \<Rightarrow> Plan \<Rightarrow> Step \<Rightarrow> ExecutionEvidence" where
  "newExecutionEvidence traceID p st =
     \<lparr>ev_TraceID = traceID, ev_InputDigest = pn_InputDigest p, ev_PlanDigest = pn_Digest p,
      ev_OperationID = st_OperationID st, ev_ResourceID = st_ResourceID st, ev_Capability = st_Capability st,
      ev_CapabilityVersion = st_Version st, ev_CandidateID = [], ev_CandidateDigest = [], ev_ResolvedCapability = [],
      ev_VerifiedCapability = [], ev_Compatibility = [],
      ev_Gaps = filter (\<lambda>g. cg_ResourceID g = st_ResourceID st) (pn_Gaps p),
      ev_ObservationCount = 0, ev_VerificationCount = 0, ev_Verified = False, ev_Status = StepUnset,
      ev_Applied = False, ev_Indeterminate = False\<rparr>"

definition dependenciesFailed :: "string list \<Rightarrow> (string, StepStatus) gomap \<Rightarrow> bool" where
  "dependenciesFailed ds statuses = list_ex (\<lambda>d. gm_or statuses StepUnset d \<noteq> StepConverged) ds"

definition step_requirement :: "Step \<Rightarrow> CapabilityRequirement" where
  "step_requirement st = \<lparr>cr_Capability = st_Capability st, cr_Version = st_Version st, cr_Platforms = [],
     cr_Permissions = \<lparr>pm_Network = [], pm_Filesystem = [], pm_Secrets = []\<rparr>, cr_AllowDegraded = False\<rparr>"

definition resolution_evidence :: "Step \<Rightarrow> ResolvedCapability \<Rightarrow> ExecutionEvidence \<Rightarrow> ExecutionEvidence" where
  "resolution_evidence st rc ev = ev\<lparr>ev_CandidateID := rc_CandidateID rc, ev_CandidateDigest := rc_Digest rc,
     ev_ResolvedCapability := st_Capability st, ev_VerifiedCapability := st_Capability st, ev_Compatibility := rc_Compatibility rc\<rparr>"

definition count_observation :: "ExecutionEvidence \<Rightarrow> ExecutionEvidence" where
  "count_observation ev = ev\<lparr>ev_ObservationCount := ev_ObservationCount ev + 1\<rparr>"

definition count_verification :: "bool \<Rightarrow> ExecutionEvidence \<Rightarrow> ExecutionEvidence" where
  "count_verification converged ev = ev\<lparr>ev_VerificationCount := ev_VerificationCount ev + 1, ev_Verified := converged\<rparr>"

definition apply_once ::
  "('w, 'h, 'o) ports \<Rightarrow> 'h \<Rightarrow> Step \<Rightarrow> Resource \<Rightarrow> ExecutionEvidence \<Rightarrow> ('w, ExecutionEvidence \<times> exec_error option) io" where
  "apply_once P h st r ev = do {
     applyErr \<leftarrow> Apply P (st_OperationID st) h st r;
     let ev = ev\<lparr>ev_Applied := True, ev_Indeterminate := (case applyErr of None \<Rightarrow> False | Some e \<Rightarrow> is_indeterminate e)\<rparr>;
     observed \<leftarrow> Observe P (st_OperationID st) h r;
     case observed of
       Inl observeErr \<Rightarrow> return (ev, join_errors [applyErr, Some observeErr, None])
     | Inr ob \<Rightarrow> do {
         verified \<leftarrow> Verify P (st_OperationID st) h r ob;
         case verified of
           Inl verifyErr \<Rightarrow> return ((count_observation ev)\<lparr>ev_Verified := False\<rparr>, join_errors [applyErr, None, Some verifyErr])
         | Inr converged \<Rightarrow>
             return (count_verification converged (count_observation ev),
               if converged then None
               else (case join_errors [applyErr, None, None] of
                   None \<Rightarrow> Some (Message ''target did not converge after apply'' []) | Some e \<Rightarrow> Some e))
       }
   }"

definition execute_step ::
  "('w, 'h, 'o) ports \<Rightarrow> Step \<Rightarrow> Resource \<Rightarrow> ExecutionEvidence \<Rightarrow> ('w, ExecutionEvidence \<times> exec_error option) io" where
  "execute_step P st r ev = do {
     res \<leftarrow> Resolve P (step_requirement st);
     case res of Inl e \<Rightarrow> return (ev, Some e)
     | Inr resolved \<Rightarrow> do {
         let ev = resolution_evidence st resolved ev;
         opened \<leftarrow> quiet (pt_Open P resolved);
         case opened of Inl e \<Rightarrow> return (ev, Some e)
         | Inr handle \<Rightarrow>
           (case handle of None \<Rightarrow> return (ev, Some (Message ''target operations factory returned nil'' []))
            | Some h \<Rightarrow> do {
                observed \<leftarrow> Observe P (st_OperationID st) h r;
                case observed of Inl e \<Rightarrow> return (ev, Some e)
                | Inr ob \<Rightarrow> do {
                    verified \<leftarrow> Verify P (st_OperationID st) h r ob;
                    case verified of Inl e \<Rightarrow> return ((count_observation ev)\<lparr>ev_Verified := False\<rparr>, Some e)
                    | Inr converged \<Rightarrow>
                        (let ev = count_verification converged (count_observation ev)
                         in if converged then return (ev, None) else apply_once P h st r ev)
                  }
              })
       }
   }"

section \<open>All steps\<close>

definition zero_resource :: Resource where
  "zero_resource = \<lparr>rs_ID = [], rs_Kind = [], rs_Origin = \<lparr>og_Source = [], og_NativeType = [], og_NativeID = []\<rparr>,
     rs_Attributes = [], rs_Requirements = []\<rparr>"

type_synonym ('w, 'h, 'o) step_function =
  "('w, 'h, 'o) ports \<Rightarrow> Step \<Rightarrow> Resource \<Rightarrow> ExecutionEvidence \<Rightarrow> ('w, ExecutionEvidence \<times> exec_error option) io"

definition record_error :: "string \<Rightarrow> exec_error \<Rightarrow> exec_error" where
  "record_error op e = Wrap ''migration execute: record evidence for %q'' [op] e"

definition step_status :: "exec_error option \<Rightarrow> StepStatus" where
  "step_status e = (if e = None then StepConverged else StepFailed)"

definition add_failure :: "exec_error option \<Rightarrow> string \<Rightarrow> exec_error option \<Rightarrow> exec_error option" where
  "add_failure err op e = (case e of None \<Rightarrow> err | Some e' \<Rightarrow> join_errors [err, Some (Wrap ''migration operation %q failed'' [op] e')])"

text \<open>
  The loop of \<^verbatim>\<open>Execute\<close> and \<^verbatim>\<open>Reconcile\<close>; \<^verbatim>\<open>record\<close> appends the evidence only when the sink took it.
\<close>

fun run_steps ::
  "('w, 'h, 'o) step_function \<Rightarrow> ('w, 'h, 'o) ports \<Rightarrow> string \<Rightarrow> Plan \<Rightarrow> (string, Resource) gomap \<Rightarrow> Step list \<Rightarrow>
     (string, StepStatus) gomap \<Rightarrow> ExecutionEvidence list \<Rightarrow> exec_error option \<Rightarrow>
     ('w, ExecutionEvidence list \<times> exec_error option) io" where
  "run_steps step_fn P traceID p resources [] statuses result err = return (result, err)"
| "run_steps step_fn P traceID p resources (st # sts) statuses result err = do {
     canceled \<leftarrow> ctx_Err P;
     case canceled of Some e \<Rightarrow> return (result, join_errors [err, Some e])
     | None \<Rightarrow>
       (if dependenciesFailed (st_DependsOn st) statuses
        then (let ev = (newExecutionEvidence traceID p st)\<lparr>ev_Status := StepBlocked\<rparr> in do {
          recorded \<leftarrow> RecordExecution P ev;
          case recorded of Some e \<Rightarrow> return (result, join_errors [err, Some (record_error (ev_OperationID ev) e)])
          | None \<Rightarrow> run_steps step_fn P traceID p resources sts (gm_put (st_OperationID st) StepBlocked statuses) (result @ [ev]) err
        })
        else do {
          outcome \<leftarrow> step_fn P st (gm_or resources zero_resource (st_ResourceID st)) (newExecutionEvidence traceID p st);
          let status = step_status (snd outcome);
          let ev = (fst outcome)\<lparr>ev_Status := status\<rparr>;
          let err = add_failure err (st_OperationID st) (snd outcome);
          recorded \<leftarrow> RecordExecution P ev;
          case recorded of Some e \<Rightarrow> return (result, join_errors [err, Some (record_error (ev_OperationID ev) e)])
          | None \<Rightarrow> run_steps step_fn P traceID p resources sts (gm_put (st_OperationID st) status statuses) (result @ [ev]) err
        })
   }"

text \<open>\<open>wired\<close>: the executor and its resolver, factory and sink are not nil.\<close>

definition Execute ::
  "hashing \<Rightarrow> ('w, 'h, 'o) ports \<Rightarrow> bool \<Rightarrow> string \<Rightarrow> Plan \<Rightarrow> ('w, ExecutionEvidence list \<times> exec_error option) io" where
  "Execute H P wired traceID p = do {
     canceled \<leftarrow> ctx_Err P;
     case canceled of Some e \<Rightarrow> return ([], Some e)
     | None \<Rightarrow>
       (if traceID = [] then return ([], Some (Message ''migration execute: trace ID is required'' []))
        else if \<not> wired then return ([], Some (Message ''migration execute: resolver, operations factory, and provenance sink are required'' []))
        else case Plan_Validate H p of
          Some e \<Rightarrow> return ([], Some (Wrap ''migration execute: validate plan'' [] (PlanError e)))
        | None \<Rightarrow>
            run_steps execute_step P traceID p (foldl (\<lambda>m r. gm_put (rs_ID r) r m) [] (pn_Resources p)) (pn_Steps p) [] [] None)
   }"

section \<open>Iterative reconciliation\<close>

abbreviation ErrReconciliationNoProgress :: exec_error where
  "ErrReconciliationNoProgress \<equiv> Message ''migration reconciliation made no progress'' []"
abbreviation ErrReconciliationOscillation :: exec_error where
  "ErrReconciliationOscillation \<equiv> Message ''migration reconciliation oscillated'' []"
abbreviation ErrReconciliationLimit :: exec_error where
  "ErrReconciliationLimit \<equiv> Message ''migration reconciliation iteration limit reached'' []"
abbreviation ErrReconciliationUnknown :: exec_error where
  "ErrReconciliationUnknown \<equiv> Message ''migration reconciliation difference is unknown'' []"

definition DefaultReconciliationIterations :: int where "DefaultReconciliationIterations = 8"
definition maxDifferenceFingerprintBytes :: int where "maxDifferenceFingerprintBytes = 1024"

definition validateDifference :: "TargetDifference \<Rightarrow> exec_error option" where
  "validateDifference d =
     or_else (reject_if (\<not> td_Known d \<or> td_Fingerprint d = [] \<or> maxDifferenceFingerprintBytes < int (length (td_Fingerprint d)))
        ErrReconciliationUnknown)
       (reject_if (td_Distance d = 0) (Wrap ''zero distance did not verify as converged'' [] ErrReconciliationUnknown))"

definition reconciliationOperationID :: "hashing \<Rightarrow> string \<Rightarrow> TargetDifference \<Rightarrow> string" where
  "reconciliationOperationID H base d = ''migration-'' @ hex_encode (sum_bytes H
     (''platform-factory/migration-reconciliation-operation/v1'' @ [NUL] @ base @ [NUL] @ itoa (unat (td_Distance d)) @ [NUL] @ td_Fingerprint d))"

text \<open>The part of an iteration after the action.\<close>

definition check_progress ::
  "('w, 'h, 'o) ports \<Rightarrow> string \<Rightarrow> 'h \<Rightarrow> Resource \<Rightarrow> TargetDifference \<Rightarrow> exec_error option \<Rightarrow> ExecutionEvidence \<Rightarrow>
     ('w, ExecutionEvidence \<times> exec_error option option) io" where
  "check_progress P op h r before applyErr ev = do {
     observed \<leftarrow> Observe P op h r;
     case observed of Inl e \<Rightarrow> return (ev, Some (join_errors [applyErr, Some (Wrap ''observe after action'' [] e)]))
     | Inr ob \<Rightarrow> do {
         let ev = count_observation ev;
         verified \<leftarrow> Verify P op h r ob;
         case verified of Inl e \<Rightarrow> return (ev\<lparr>ev_Verified := False\<rparr>, Some (join_errors [applyErr, Some (Wrap ''verify after action'' [] e)]))
         | Inr converged \<Rightarrow>
             (let ev = count_verification converged ev in
              if converged then return (ev, Some None)
              else do {
                after \<leftarrow> Difference P op h r ob;
                case after of Inl e \<Rightarrow> return (ev, Some (join_errors [applyErr, Some (Wrap ''measure difference after action'' [] e)]))
                | Inr d \<Rightarrow> return (ev,
                    case validateDifference d of Some e \<Rightarrow> Some (join_errors [applyErr, Some e])
                    | None \<Rightarrow>
                        if td_Distance before \<le> td_Distance d
                        then Some (join_errors [applyErr, Some (Wrap ''distance %d became %d''
                          [itoa (unat (td_Distance before)), itoa (unat (td_Distance d))] ErrReconciliationNoProgress)])
                        else if applyErr \<noteq> None \<and> \<not> is_indeterminate (the applyErr) then Some applyErr else None)
              })
       }
   }"

fun reconcile_loop ::
  "hashing \<Rightarrow> ('w, 'h, 'o) ports \<Rightarrow> 'h \<Rightarrow> Step \<Rightarrow> Resource \<Rightarrow> nat \<Rightarrow> string list \<Rightarrow> ExecutionEvidence \<Rightarrow>
     ('w, ExecutionEvidence \<times> exec_error option) io" where
  "reconcile_loop H P h st r 0 seen ev = return (ev, Some ErrReconciliationLimit)"
| "reconcile_loop H P h st r (Suc n) seen ev = do {
     canceled \<leftarrow> ctx_Err P;
     case canceled of Some e \<Rightarrow> return (ev, Some e)
     | None \<Rightarrow> do {
       observed \<leftarrow> Observe P (st_OperationID st) h r;
       case observed of Inl e \<Rightarrow> return (ev, Some (Wrap ''observe target'' [] e))
       | Inr ob \<Rightarrow> do {
         let ev = count_observation ev;
         verified \<leftarrow> Verify P (st_OperationID st) h r ob;
         case verified of Inl e \<Rightarrow> return (ev\<lparr>ev_Verified := False\<rparr>, Some (Wrap ''verify target'' [] e))
         | Inr converged \<Rightarrow>
           (let ev = count_verification converged ev in
            if converged then return (ev, None)
            else do {
              measured \<leftarrow> Difference P (st_OperationID st) h r ob;
              case measured of Inl e \<Rightarrow> return (ev, Some (Wrap ''measure target difference'' [] e))
              | Inr before \<Rightarrow>
                (case validateDifference before of Some e \<Rightarrow> return (ev, Some e)
                 | None \<Rightarrow>
                   if td_Fingerprint before \<in> set seen then return (ev, Some ErrReconciliationOscillation)
                   else do {
                     applyErr \<leftarrow> Apply P (st_OperationID st) h
                       (st\<lparr>st_OperationID := reconciliationOperationID H (st_OperationID st) before\<rparr>) r;
                     let ev = ev\<lparr>ev_Applied := True,
                       ev_Indeterminate := (ev_Indeterminate ev \<or> (case applyErr of None \<Rightarrow> False | Some e \<Rightarrow> is_indeterminate e))\<rparr>;
                     progress \<leftarrow> check_progress P (st_OperationID st) h r before applyErr ev;
                     case snd progress of Some outcome \<Rightarrow> return (fst progress, outcome)
                     | None \<Rightarrow> reconcile_loop H P h st r n (td_Fingerprint before # seen) (fst progress)
                   })
            })
         }
     }
   }"

definition reconcileStep :: "hashing \<Rightarrow> int \<Rightarrow> ('w, 'h, 'o) step_function" where
  "reconcileStep H maxIterations P st r ev = do {
     res \<leftarrow> Resolve P (step_requirement st);
     case res of Inl e \<Rightarrow> return (ev, Some e)
     | Inr resolved \<Rightarrow> do {
         let ev = resolution_evidence st resolved ev;
         opened \<leftarrow> quiet (pt_Open P resolved);
         case opened of Inl e \<Rightarrow> return (ev, Some e)
         | Inr handle \<Rightarrow>
           (case handle of None \<Rightarrow> return (ev, Some (Message ''target operations do not provide reconciliation differences'' []))
            | Some h \<Rightarrow>
                if \<not> pt_Progress P h then return (ev, Some (Message ''target operations do not provide reconciliation differences'' []))
                else reconcile_loop H P h st r (nat maxIterations) [] ev)
       }
   }"

definition Reconcile ::
  "hashing \<Rightarrow> ('w, 'h, 'o) ports \<Rightarrow> bool \<Rightarrow> string \<Rightarrow> Plan \<Rightarrow> int \<Rightarrow> ('w, ExecutionEvidence list \<times> exec_error option) io" where
  "Reconcile H P wired traceID p MaxIterations = do {
     canceled \<leftarrow> ctx_Err P;
     case canceled of Some e \<Rightarrow> return ([], Some e)
     | None \<Rightarrow>
       (if traceID = [] then return ([], Some (Message ''migration reconcile: trace ID is required'' []))
        else if \<not> wired then return ([], Some (Message ''migration reconcile: resolver, operations factory, and provenance sink are required'' []))
        else case Plan_Validate H p of
          Some e \<Rightarrow> return ([], Some (Wrap ''migration reconcile: validate plan'' [] (PlanError e)))
        | None \<Rightarrow>
            (let maxIterations = (if MaxIterations = 0 then DefaultReconciliationIterations else MaxIterations) in
             if maxIterations < 1 then return ([], Some (Message ''migration reconcile: max iterations must be positive'' []))
             else run_steps (reconcileStep H maxIterations) P traceID p
               (foldl (\<lambda>m r. gm_put (rs_ID r) r m) [] (pn_Resources p)) (pn_Steps p) [] [] None))
   }"

section \<open>The calls of a run\<close>

fun applied :: "log \<Rightarrow> Step list" where
  "applied [] = []"
| "applied ((op, Apply_call a) # l) = a # applied l"
| "applied (_ # l) = applied l"

fun recorded :: "log \<Rightarrow> ExecutionEvidence list" where
  "recorded [] = []"
| "recorded ((op, Record_call ev ok) # l) = (if ok then ev # recorded l else recorded l)"
| "recorded (_ # l) = recorded l"

text \<open>Every change is observed before anything else happens.\<close>

fun observes_first :: "string \<Rightarrow> log \<Rightarrow> bool" where
  "observes_first op ((o', Observe_call _) # l) \<longleftrightarrow> o' = op"
| "observes_first op _ = False"

fun observed_after :: "log \<Rightarrow> bool" where
  "observed_after [] = True"
| "observed_after ((op, Apply_call a) # l) \<longleftrightarrow> observes_first op l \<and> observed_after l"
| "observed_after (_ # l) = observed_after l"

definition own_calls :: "string \<Rightarrow> log \<Rightarrow> bool" where
  "own_calls op l \<longleftrightarrow> (\<forall>(o', c)\<in>set l. o' = op \<and> (\<forall>ev ok. c \<noteq> Record_call ev ok))"

lemma applied_append [simp]: "applied (l @ l') = applied l @ applied l'"
  by (induction l rule: applied.induct) auto

lemma recorded_append [simp]: "recorded (l @ l') = recorded l @ recorded l'"
  by (induction l rule: recorded.induct) auto

lemma observes_first_append [simp]: "observes_first op l \<Longrightarrow> observes_first op (l @ l')"
  by (induction op l rule: observes_first.induct) auto

lemma observed_after_append: "observed_after l \<Longrightarrow> observed_after l' \<Longrightarrow> observed_after (l @ l')"
  by (induction l rule: observed_after.induct) auto

lemma own_calls_simps [simp]:
  "own_calls op []" "own_calls op ((o', c) # l) \<longleftrightarrow> o' = op \<and> (\<forall>ev ok. c \<noteq> Record_call ev ok) \<and> own_calls op l"
  "own_calls op (l @ l') \<longleftrightarrow> own_calls op l \<and> own_calls op l'"
  by (simp_all add: own_calls_def ball_Un conj_assoc)

lemma own_calls_recorded: "own_calls op l \<Longrightarrow> recorded l = []"
  by (induction l rule: recorded.induct) auto

definition seen_converged :: "log \<Rightarrow> string \<Rightarrow> bool" where
  "seen_converged l op \<longleftrightarrow> (\<exists>ev. (op, Record_call ev True) \<in> set l \<and> ev_OperationID ev = op \<and> ev_Status ev = StepConverged \<and> ev_Verified ev)"

text \<open>
  The runs of an executor: a step is blocked, which is recorded, or it is carried out after all
  its dependencies were seen converged and its outcome is recorded; the run ends early when
  the context is canceled or the sink refuses a record.
\<close>

inductive run_log :: "(Step \<Rightarrow> log \<Rightarrow> bool) \<Rightarrow> log \<Rightarrow> Step list \<Rightarrow> log \<Rightarrow> bool" for calls_ok where
  stop: "run_log calls_ok pre sts []"
| blocked: "ev_OperationID ev = st_OperationID st \<Longrightarrow> ev_Status ev = StepBlocked \<Longrightarrow> (\<not> ok \<Longrightarrow> l = []) \<Longrightarrow>
    run_log calls_ok (pre @ [(st_OperationID st, Record_call ev ok)]) sts l \<Longrightarrow>
    run_log calls_ok pre (st # sts) ((st_OperationID st, Record_call ev ok) # l)"
| carried_out: "\<forall>d\<in>set (st_DependsOn st). seen_converged pre d \<Longrightarrow> own_calls (st_OperationID st) c \<Longrightarrow> calls_ok st c \<Longrightarrow>
    ev_OperationID ev = st_OperationID st \<Longrightarrow> ev_Status ev = StepConverged \<and> ev_Verified ev \<or> ev_Status ev = StepFailed \<Longrightarrow>
    (\<not> ok \<Longrightarrow> l = []) \<Longrightarrow> run_log calls_ok (pre @ c @ [(st_OperationID st, Record_call ev ok)]) sts l \<Longrightarrow>
    run_log calls_ok pre (st # sts) (c @ (st_OperationID st, Record_call ev ok) # l)"

section \<open>The contract of a step\<close>

lemma join_errors_None [simp]: "join_errors [a, b] = None \<longleftrightarrow> a = None \<and> b = None"
  by (cases a; cases b) (simp_all add: join_errors_def map_filter_def)

lemma add_failure_None: "add_failure err op e = None \<longleftrightarrow> err = None \<and> e = None"
  by (cases e) (simp_all add: add_failure_def)

lemma step_status_simps [simp]:
  "step_status e = StepConverged \<longleftrightarrow> e = None" "step_status e = StepFailed \<longleftrightarrow> e \<noteq> None"
  "step_status None = StepConverged"
  by (auto simp: step_status_def)

lemma new_evidence_op [simp]: "ev_OperationID (newExecutionEvidence traceID p st) = st_OperationID st"
  by (simp add: newExecutionEvidence_def)

text \<open>The end of an iteration: the evidence is recorded and the loop goes on.\<close>

lemma traced_record:
  assumes "\<And>e. Q (result, join_errors [err, Some (record_error op e)]) [(ev_OperationID ev, Record_call ev False)]"
    and "traced k (\<lambda>x l. Q x ((ev_OperationID ev, Record_call ev True) # l))"
  shows "traced (State_Monad.bind (RecordExecution P ev) (\<lambda>rec.
     case rec of Some e \<Rightarrow> return (result, join_errors [err, Some (record_error op e)]) | None \<Rightarrow> k)) Q"
  unfolding RecordExecution_def
  by (intro traced_bind_logged traced_option) (use assms in \<open>auto intro: traced_return\<close>)

locale step_runner =
  fixes step_fn :: "('w, 'h, 'o) step_function" and calls_ok :: "Step \<Rightarrow> log \<Rightarrow> bool"
  assumes step_traced: "traced (step_fn P st r ev) (\<lambda>x l. ev_OperationID (fst x) = ev_OperationID ev
    \<and> own_calls (st_OperationID st) l \<and> calls_ok st l \<and> (snd x = None \<longrightarrow> ev_Verified (fst x)))"
begin

lemma run_steps_log:
  "(\<And>d. gm_or statuses StepUnset d = StepConverged \<Longrightarrow> seen_converged pre d) \<Longrightarrow>
   traced (run_steps step_fn P traceID p resources sts statuses result err)
     (\<lambda>x l. run_log calls_ok pre sts l \<and> fst x = result @ recorded l)"
proof (induction sts arbitrary: statuses result err pre)
  case Nil
  show ?case by (auto intro!: tracing run_log.stop)
next
  case (Cons st sts)
  let ?op = "st_OperationID st" and ?go = "run_steps step_fn P traceID p resources sts"
  let ?Q = "\<lambda>x l. run_log calls_ok pre (st # sts) l \<and> fst x = result @ recorded l"
  have block: "?Q (y, e) [(?op, Record_call ev False)]" "traced (?go (gm_put ?op StepBlocked statuses) (result @ [ev]) err)
      (\<lambda>x l. ?Q x ((?op, Record_call ev True) # l))"
    if ev: "ev_OperationID ev = ?op" "ev_Status ev = StepBlocked" and y: "y = result" for ev y e
  proof -
    show "?Q (y, e) [(?op, Record_call ev False)]" using run_log.blocked [OF ev _ run_log.stop, of False] y by auto
    have "traced (?go (gm_put ?op StepBlocked statuses) (result @ [ev]) err)
        (\<lambda>x l. run_log calls_ok (pre @ [(?op, Record_call ev True)]) sts l \<and> fst x = (result @ [ev]) @ recorded l)"
      using Cons.prems by (intro Cons.IH) (auto simp: seen_converged_def split: if_splits)
    then show "traced (?go (gm_put ?op StepBlocked statuses) (result @ [ev]) err) (\<lambda>x l. ?Q x ((?op, Record_call ev True) # l))"
      by (rule traced_mono) (use run_log.blocked [OF ev, of True] in auto)
  qed
  have carry: "?Q (y, e) (c @ [(?op, Record_call ev False)])"
      "traced (?go (gm_put ?op (ev_Status ev) statuses) (result @ [ev]) err') (\<lambda>x l. ?Q x (c @ (?op, Record_call ev True) # l))"
    if deps: "\<forall>d\<in>set (st_DependsOn st). seen_converged pre d" and c: "own_calls ?op c" "calls_ok st c"
      and ev: "ev_OperationID ev = ?op" "ev_Status ev = StepConverged \<and> ev_Verified ev \<or> ev_Status ev = StepFailed"
      and y: "y = result" for c ev err' y e
  proof -
    note log = run_log.carried_out [where calls_ok = calls_ok, OF deps c ev]
    show "?Q (y, e) (c @ [(?op, Record_call ev False)])" using log [OF _ run_log.stop, of False] y own_calls_recorded [OF c(1)] by auto
    have "traced (?go (gm_put ?op (ev_Status ev) statuses) (result @ [ev]) err')
        (\<lambda>x l. run_log calls_ok (pre @ c @ [(?op, Record_call ev True)]) sts l \<and> fst x = (result @ [ev]) @ recorded l)"
      using Cons.prems ev by (intro Cons.IH) (auto simp: seen_converged_def split: if_splits)
    then show "traced (?go (gm_put ?op (ev_Status ev) statuses) (result @ [ev]) err') (\<lambda>x l. ?Q x (c @ (?op, Record_call ev True) # l))"
      by (rule traced_mono) (use log [of True] own_calls_recorded [OF c(1)] in auto)
  qed
  have deps: "\<forall>d\<in>set (st_DependsOn st). seen_converged pre d" if "\<not> dependenciesFailed (st_DependsOn st) statuses"
    using that Cons.prems by (auto simp: dependenciesFailed_def list_ex_iff)
  show ?case unfolding run_steps.simps Let_def ctx_Err_def
  proof (intro traced_bind_quiet traced_option traced_if traced_return traced_record traced_bind [OF step_traced], goal_cases)
    case 1
    show ?case using block(1) [of "newExecutionEvidence traceID p st\<lparr>ev_Status := StepBlocked\<rparr>" result] by simp
  next
    case 2
    show ?case using block(2) [of "newExecutionEvidence traceID p st\<lparr>ev_Status := StepBlocked\<rparr>" result] by simp
  next
    case (3 r x l)
    then show ?case using deps carry(1) [of l "(fst x)\<lparr>ev_Status := step_status (snd x)\<rparr>" result] by (cases "snd x") simp_all
  next
    case (4 r x l)
    then show ?case using deps carry(2) [of l "(fst x)\<lparr>ev_Status := step_status (snd x)\<rparr>" result] by (cases "snd x") simp_all
  next
    case 5
    show ?case by (auto intro: run_log.stop)
  qed
qed

lemma run_steps_error:
  "err \<noteq> None \<Longrightarrow> traced (run_steps step_fn P traceID p resources sts statuses result err) (\<lambda>x l. snd x \<noteq> None)"
proof (induction sts arbitrary: statuses result err)
  case Nil
  then show ?case by (auto intro!: tracing)
next
  case (Cons st sts)
  show ?case unfolding run_steps.simps Let_def ctx_Err_def
    by (intro traced_bind_quiet traced_option traced_if traced_return traced_record traced_bind [OF step_traced] Cons.IH)
      (use Cons.prems in \<open>simp_all add: add_failure_None\<close>)
qed

text \<open>A run without an error carries out every step.\<close>

lemma run_steps_complete:
  "(\<And>pre st post. sts = pre @ st # post \<Longrightarrow>
      \<forall>d\<in>set (st_DependsOn st). gm_or statuses StepUnset d = StepConverged \<or> d \<in> st_OperationID ` set pre) \<Longrightarrow>
   traced (run_steps step_fn P traceID p resources sts statuses result err)
     (\<lambda>x l. snd x = None \<longrightarrow> (\<exists>evs. fst x = result @ evs \<and> map ev_OperationID evs = map st_OperationID sts
        \<and> (\<forall>ev\<in>set evs. ev_Status ev = StepConverged \<and> ev_Verified ev)))"
proof (induction sts arbitrary: statuses result err)
  case Nil
  show ?case by (auto intro!: tracing)
next
  case (Cons st sts)
  let ?op = "st_OperationID st" and ?go = "run_steps step_fn P traceID p resources sts"
  let ?Q = "\<lambda>x l. snd x = None \<longrightarrow> (\<exists>evs. fst x = result @ evs \<and> map ev_OperationID evs = map st_OperationID (st # sts)
        \<and> (\<forall>ev\<in>set evs. ev_Status ev = StepConverged \<and> ev_Verified ev))"
  have deps: "\<not> dependenciesFailed (st_DependsOn st) statuses"
    using Cons.prems [of "[]" st sts] by (auto simp: dependenciesFailed_def list_ex_iff)
  have converged: "traced (?go (gm_put ?op StepConverged statuses) (result @ [ev]) err') ?Q"
    if ev: "ev_OperationID ev = ?op" "ev_Status ev = StepConverged" "ev_Verified ev" for ev err'
  proof (rule traced_mono [OF Cons.IH])
    fix pre st' post
    assume "sts = pre @ st' # post"
    then have "st # sts = (st # pre) @ st' # post" by simp
    from Cons.prems [OF this]
    show "\<forall>d\<in>set (st_DependsOn st'). gm_or (gm_put ?op StepConverged statuses) StepUnset d = StepConverged \<or> d \<in> st_OperationID ` set pre"
      by auto
  next
    fix x l
    assume x: "snd x = None \<longrightarrow> (\<exists>evs. fst x = (result @ [ev]) @ evs \<and> map ev_OperationID evs = map st_OperationID sts
        \<and> (\<forall>ev\<in>set evs. ev_Status ev = StepConverged \<and> ev_Verified ev))"
    show "?Q x l"
    proof
      assume "snd x = None"
      with x obtain evs where "fst x = result @ (ev # evs)" "map ev_OperationID evs = map st_OperationID sts"
        "\<forall>ev\<in>set evs. ev_Status ev = StepConverged \<and> ev_Verified ev" by auto
      with ev show "\<exists>evs. fst x = result @ evs \<and> map ev_OperationID evs = map st_OperationID (st # sts)
          \<and> (\<forall>ev\<in>set evs. ev_Status ev = StepConverged \<and> ev_Verified ev)" by (intro exI [of _ "ev # evs"]) auto
    qed
  qed
  have failed: "traced (?go statuses' result' err') ?Q" if "err' \<noteq> None" for statuses' result' err'
    by (rule traced_mono [OF run_steps_error [OF that]]) auto
  show ?case unfolding run_steps.simps Let_def ctx_Err_def if_not_P [OF deps]
  proof (intro traced_bind_quiet traced_option traced_return traced_record traced_bind [OF step_traced], goal_cases)
    case (2 r x l)
    show ?case
    proof (cases "snd x")
      case None
      with 2 converged [of "(fst x)\<lparr>ev_Status := StepConverged\<rparr>"] show ?thesis by simp
    next
      case (Some e)
      with 2 failed [of "add_failure err ?op (Some e)"] show ?thesis by (simp add: add_failure_None)
    qed
  qed simp_all
qed

end

section \<open>The two ways to do a step\<close>

lemma traced_silent: "traced m (\<lambda>_ l. l = []) \<Longrightarrow> (\<And>x. traced (f x) Q) \<Longrightarrow> traced (State_Monad.bind m f) Q"
  by (erule traced_bind) auto

lemma eligible_loop_silent: "traced (eligible_loop P q cs acc) (\<lambda>_ l. l = [])"
  by (induction cs arbitrary: acc) (auto simp: ctx_Err_def intro!: tracing)

lemma Resolve_silent: "traced (Resolve P q) (\<lambda>_ l. l = [])"
  unfolding Resolve_def ctx_Err_def by (intro tracing traced_silent [OF eligible_loop_silent] refl)

lemma evidence_simps [simp]:
  "ev_OperationID (count_observation ev) = ev_OperationID ev" "ev_OperationID (count_verification b ev) = ev_OperationID ev"
  "ev_OperationID (resolution_evidence st rc ev) = ev_OperationID ev" "ev_Verified (count_verification b ev) = b"
  by (simp_all add: count_observation_def count_verification_def resolution_evidence_def)

text \<open>A single step of \<^verbatim>\<open>Execute\<close> applies the step at most once.\<close>

definition applies_once :: "Step \<Rightarrow> log \<Rightarrow> bool" where
  "applies_once st l \<longleftrightarrow> (applied l = [] \<or> applied l = [st]) \<and> observed_after l"

lemma join3_None: "join_errors [a, b, c] = None \<longleftrightarrow> a = None \<and> b = None \<and> c = None"
  by (cases a; cases b; cases c) (simp_all add: join_errors_def map_filter_def)

lemma execute_step_traced:
  "traced (execute_step P st r ev) (\<lambda>x l. ev_OperationID (fst x) = ev_OperationID ev
    \<and> own_calls (st_OperationID st) l \<and> applies_once st l \<and> (snd x = None \<longrightarrow> ev_Verified (fst x)))"
  unfolding execute_step_def apply_once_def Let_def Observe_def Verify_def Apply_def
  by (intro tracing traced_silent [OF Resolve_silent])
    (auto simp: applies_once_def join3_None split: option.splits)

interpretation execute: step_runner execute_step applies_once
  by unfold_locales (rule execute_step_traced)

text \<open>
  The calls of a reconciled step: whole iterations, in each of which the distance shrinks,
  and a last one that may be incomplete; the actions have different fingerprints.
\<close>

definition action :: "hashing \<Rightarrow> Step \<Rightarrow> TargetDifference \<Rightarrow> Step" where
  "action H st d = st\<lparr>st_OperationID := reconciliationOperationID H (st_OperationID st) d\<rparr>"

definition iteration :: "hashing \<Rightarrow> Step \<Rightarrow> TargetDifference \<times> TargetDifference \<Rightarrow> log" where
  "iteration H st ba = map (Pair (st_OperationID st))
     [Observe_call True, Verify_call (Inr False), Difference_call (Inr (fst ba)), Apply_call (action H st (fst ba)),
      Observe_call True, Verify_call (Inr False), Difference_call (Inr (snd ba))]"

definition loop_calls :: "hashing \<Rightarrow> Step \<Rightarrow> nat \<Rightarrow> string list \<Rightarrow> log \<Rightarrow> bool" where
  "loop_calls H st n seen l \<longleftrightarrow> observed_after l \<and>
     (\<exists>bas ds last. l = concat (map (iteration H st) bas) @ last \<and> (\<forall>(b, a)\<in>set bas. td_Distance a < td_Distance b)
        \<and> (ds = map fst bas \<or> (\<exists>d. ds = map fst bas @ [d])) \<and> applied l = map (action H st) ds
        \<and> distinct (map td_Fingerprint ds) \<and> set (map td_Fingerprint ds) \<inter> set seen = {} \<and> length ds \<le> n)"

lemma loop_calls_stop: "applied l = [] \<Longrightarrow> observed_after l \<Longrightarrow> loop_calls H st n seen l"
  by (auto simp: loop_calls_def intro!: exI [of _ "[]"])

lemma loop_calls_last:
  assumes "td_Fingerprint d \<notin> set seen" "observed_after l" "applied l = [action H st d]"
  shows "loop_calls H st (Suc n) seen l"
  using assms unfolding loop_calls_def by (intro conjI exI [of _ "[]"] exI [of _ "[d]"] exI [of _ l]) auto

lemma loop_calls_next:
  assumes "loop_calls H st n (td_Fingerprint b # seen) l" "td_Fingerprint b \<notin> set seen" "td_Distance a < td_Distance b"
  shows "loop_calls H st (Suc n) seen (iteration H st (b, a) @ l)"
proof -
  from assms(1) obtain bas ds last' where l: "observed_after l" "l = concat (map (iteration H st) bas) @ last'"
    "\<forall>(b, a)\<in>set bas. td_Distance a < td_Distance b" "ds = map fst bas \<or> (\<exists>d. ds = map fst bas @ [d])"
    "applied l = map (action H st) ds" "distinct (map td_Fingerprint ds)"
    "set (map td_Fingerprint ds) \<inter> set (td_Fingerprint b # seen) = {}" "length ds \<le> n"
    unfolding loop_calls_def by blast
  have "observed_after (iteration H st (b, a))" "applied (iteration H st (b, a)) = [action H st b]" by (simp_all add: iteration_def)
  then show ?thesis unfolding loop_calls_def
    using l assms(2,3) by (intro conjI exI [of _ "(b, a) # bas"] exI [of _ "b # ds"] exI [of _ last'] observed_after_append) auto
qed

lemma check_progress_traced:
  "traced (check_progress P op h r before applyErr ev) (\<lambda>x l. ev_OperationID (fst x) = ev_OperationID ev
     \<and> own_calls op l \<and> applied l = [] \<and> observed_after l \<and> observes_first op l
     \<and> (snd x = Some None \<longrightarrow> ev_Verified (fst x))
     \<and> (snd x = None \<longrightarrow> (\<exists>a. td_Distance a < td_Distance before
          \<and> l = map (Pair op) [Observe_call True, Verify_call (Inr False), Difference_call (Inr a)])))"
  unfolding check_progress_def Let_def Observe_def Verify_def Difference_def
  by (intro tracing) (auto simp: count_observation_def split: option.splits if_splits)

lemma reconcile_loop_traced:
  "traced (reconcile_loop H P h st r n seen ev) (\<lambda>x l. ev_OperationID (fst x) = ev_OperationID ev
     \<and> own_calls (st_OperationID st) l \<and> loop_calls H st n seen l \<and> (snd x = None \<longrightarrow> ev_Verified (fst x)))"
proof (induction n arbitrary: seen ev)
  case 0
  show ?case by (auto intro!: tracing loop_calls_stop)
next
  case (Suc n)
  let ?op = "st_OperationID st"
  have act: "st\<lparr>st_OperationID := reconciliationOperationID H ?op d\<rparr> = action H st d" for d by (simp add: action_def)
  let ?pre = "\<lambda>b. map (Pair ?op) [Observe_call True, Verify_call (Inr False), Difference_call (Inr b), Apply_call (action H st b)]"
  have last': "loop_calls H st (Suc n) seen (?pre b @ l)"
    if "td_Fingerprint b \<notin> set seen" "applied l = []" "observed_after l" "observes_first ?op l" for b l
    by (rule loop_calls_last [of b]) (use that in simp_all)
  have next': "traced (reconcile_loop H P h st r n (td_Fingerprint b # seen) ev')
      (\<lambda>y l. ev_OperationID (fst y) = ev_OperationID ev' \<and> own_calls ?op l \<and> loop_calls H st (Suc n) seen (?pre b @ lc @ l)
        \<and> (snd y = None \<longrightarrow> ev_Verified (fst y)))"
    if "td_Fingerprint b \<notin> set seen" "td_Distance a < td_Distance b"
      "lc = map (Pair ?op) [Observe_call True, Verify_call (Inr False), Difference_call (Inr a)]" for b a lc ev'
  proof (rule traced_mono [OF Suc.IH [of "td_Fingerprint b # seen" ev']], elim conjE, intro conjI)
    fix l
    assume "loop_calls H st n (td_Fingerprint b # seen) l"
    from loop_calls_next [OF this that(1,2)] that(3) show "loop_calls H st (Suc n) seen (?pre b @ lc @ l)" by (simp add: iteration_def)
  qed
  show ?case unfolding reconcile_loop.simps Let_def ctx_Err_def Observe_def Verify_def Difference_def Apply_def act
  proof (intro tracing traced_bind [OF check_progress_traced], goal_cases)
    case (6 c0 c1 ob c2 v c3 b applyErr x lc)
    then obtain a where a: "td_Fingerprint b \<notin> set seen" "td_Distance a < td_Distance b"
      "lc = map (Pair ?op) [Observe_call True, Verify_call (Inr False), Difference_call (Inr a)]" by auto
    show ?case by (rule traced_mono [OF next' [OF a, of "fst x"]]) (use 6 in \<open>auto simp: count_observation_def\<close>)
  next
    case (7 c0 c1 ob c2 v c3 b applyErr x lc out)
    then show ?case using last' [of b lc] by (auto simp: count_observation_def)
  qed (auto intro!: loop_calls_stop simp: count_observation_def)
qed

lemma reconcileStep_traced:
  "traced (reconcileStep H m P st r ev) (\<lambda>x l. ev_OperationID (fst x) = ev_OperationID ev
     \<and> own_calls (st_OperationID st) l \<and> loop_calls H st (nat m) [] l \<and> (snd x = None \<longrightarrow> ev_Verified (fst x)))"
  unfolding reconcileStep_def Let_def
  by (intro tracing traced_silent [OF Resolve_silent] traced_mono [OF reconcile_loop_traced]) (auto intro!: loop_calls_stop)

interpretation reconcile: step_runner "reconcileStep H m" "\<lambda>st. loop_calls H st (nat m) []" for H m
  by unfold_locales (rule reconcileStep_traced)

section \<open>What the runs have in common\<close>

definition calls_of :: "string \<Rightarrow> log \<Rightarrow> log" where
  "calls_of op l = filter (\<lambda>x. fst x = op \<and> (case snd x of Record_call _ _ \<Rightarrow> False | _ \<Rightarrow> True)) l"

lemma calls_of_own: "own_calls op c \<Longrightarrow> calls_of op' c = (if op' = op then c else [])"
  unfolding calls_of_def own_calls_def
  by (induction c) (auto split: call.splits)

lemma calls_of_simps [simp]:
  "calls_of op (l @ l') = calls_of op l @ calls_of op l'" "calls_of op ((o', Record_call ev ok) # l) = calls_of op l" "calls_of op [] = []"
  by (simp_all add: calls_of_def)

lemma run_log_calls_of:
  "run_log calls_ok pre sts l \<Longrightarrow> distinct (map st_OperationID sts) \<Longrightarrow>
     (\<forall>op. op \<notin> set (map st_OperationID sts) \<longrightarrow> calls_of op l = [])
     \<and> (\<forall>st\<in>set sts. calls_of (st_OperationID st) l = [] \<or> calls_ok st (calls_of (st_OperationID st) l))"
proof (induction rule: run_log.induct)
  case (carried_out st pre c ev ok l sts)
  moreover have "st_OperationID st' \<noteq> st_OperationID st" if "st' \<in> set sts" for st'
    using that carried_out.prems by (metis distinct.simps(2) image_eqI list.set_map list.simps(9))
  ultimately show ?case by (auto simp: calls_of_own)
qed auto

lemma run_log_apply:
  "run_log calls_ok pre sts l \<Longrightarrow> l = l1 @ (op, Apply_call a) # l2 \<Longrightarrow>
     \<exists>st\<in>set sts. st_OperationID st = op \<and> (\<forall>d\<in>set (st_DependsOn st). seen_converged (pre @ l1) d)
       \<and> (\<exists>c. calls_ok st c \<and> a \<in> set (applied c))"
proof (induction arbitrary: l1 rule: run_log.induct)
  case (blocked ev st ok l pre sts)
  then obtain l1' where "l1 = (st_OperationID st, Record_call ev ok) # l1'" "l = l1' @ (op, Apply_call a) # l2"
    by (auto simp: Cons_eq_append_conv)
  with blocked.IH [of l1'] show ?case by auto
next
  case (carried_out st pre c ev ok l sts)
  from carried_out.prems consider
      c2 where "c = l1 @ (op, Apply_call a) # c2"
    | l1' where "l1 = c @ (st_OperationID st, Record_call ev ok) # l1'" "l = l1' @ (op, Apply_call a) # l2"
    by (auto simp: append_eq_append_conv2 Cons_eq_append_conv append_eq_Cons_conv)
  then show ?case
  proof cases
    case 1
    have "seen_converged (pre @ l1) d" if "seen_converged pre d" for d using that by (auto simp: seen_converged_def)
    with 1 carried_out.hyps show ?thesis by (intro bexI [of _ st]) (auto intro!: exI [of _ c])
  next
    case 2
    with carried_out.IH [of l1'] show ?thesis by auto
  qed
qed simp

lemma run_log_observed:
  "run_log calls_ok pre sts l \<Longrightarrow> (\<And>st c. calls_ok st c \<Longrightarrow> observed_after c) \<Longrightarrow> observed_after l"
  by (induction rule: run_log.induct) (auto intro!: observed_after_append)

lemma run_log_verified: "run_log calls_ok pre sts l \<Longrightarrow> ev \<in> set (recorded l) \<Longrightarrow> ev_Status ev = StepConverged \<Longrightarrow> ev_Verified ev"
  by (induction rule: run_log.induct) (auto simp: own_calls_recorded split: if_splits)

lemma observed_after_split: "observed_after (l1 @ (op, Apply_call a) # l2) \<Longrightarrow> observes_first op l2"
  by (induction l1 rule: observed_after.induct) auto

lemma seen_converged_nothing: "gm_or [] StepUnset d = StepConverged \<Longrightarrow> seen_converged pre d"
  by (simp add: gm_or_def)

text \<open>The calls of an execution, whichever check stops it.\<close>

lemma Execute_log: "traced (Execute H P wired traceID p) (\<lambda>x l. run_log applies_once [] (pn_Steps p) l \<and> fst x = recorded l)"
  unfolding Execute_def ctx_Err_def
  by (intro tracing traced_mono [OF execute.run_steps_log [OF seen_converged_nothing]]) (auto intro: run_log.stop)

lemma Reconcile_log:
  "traced (Reconcile H P wired traceID p m)
     (\<lambda>x l. run_log (\<lambda>st. loop_calls H st (nat (if m = 0 then DefaultReconciliationIterations else m)) []) [] (pn_Steps p) l \<and> fst x = recorded l)"
  unfolding Reconcile_def ctx_Err_def Let_def
  by (intro tracing traced_mono [OF reconcile.run_steps_log [OF seen_converged_nothing]]) (auto intro: run_log.stop)

lemma Plan_Validate_steps:
  assumes "Plan_Validate H p = None" "pn_Steps p = pre @ st # post" "d \<in> set (st_DependsOn st)"
  shows "d \<in> st_OperationID ` set pre"
proof -
  let ?c = "Canonical (plan_aggregate p)"
  have v: "Validate ?c = None" and d: "pn_InputDigest p = digest_aggregate H ?c"
    and b: "buildSteps H (pn_InputDigest p) (ag_Resources ?c) (ag_Edges ?c) = Inr (pn_Steps p)"
    using assms(1) by (auto simp: Plan_Validate_def Let_def ok_iff Canonical_valid split: sum.splits)
  have "pn_Steps p = plan_steps H ?c" using b buildSteps_ok [OF v] by (simp add: plan_steps_def d)
  with plan_steps_depend(2) [OF v, of H pre st post] assms(2,3) show ?thesis by auto
qed

lemma Execute_complete:
  "traced (Execute H P wired traceID p) (\<lambda>x l. snd x = None \<longrightarrow> map ev_OperationID (fst x) = map st_OperationID (pn_Steps p)
     \<and> (\<forall>ev\<in>set (fst x). ev_Status ev = StepConverged \<and> ev_Verified ev))"
  unfolding Execute_def ctx_Err_def
  by (intro tracing traced_mono [OF execute.run_steps_complete]) (auto dest: Plan_Validate_steps)

section \<open>Properties\<close>

definition demo_plan :: Plan where
  "demo_plan = plan_of zero_hashing (Canonical (tiny_aggregate [''a'', ''b''])) (plan_steps zero_hashing (Canonical (tiny_aggregate [''a'', ''b''])))"

lemma demo_plan_valid: "Plan_Validate zero_hashing demo_plan = None"
  unfolding demo_plan_def plan_steps_def using tiny_ok Canonical_valid
  by (intro plan_of_valid buildSteps_ok) (simp_all add: tiny_aggregate_def)

lemma demo_targets:
  "mset (map step_target (pn_Steps demo_plan)) = mset [(''a'', ''compute'', ''v1''), (''b'', ''compute'', ''v1'')]"
  using plan_steps_targets [OF Canonical_valid [OF tiny_ok(3)], of zero_hashing] wanted_targets_Canonical [of "tiny_aggregate [''a'', ''b'']"]
  by (simp add: demo_plan_def wanted_targets_def tiny_aggregate_def tiny_resource_def)

lemma demo_ops: "distinct (map st_OperationID (pn_Steps demo_plan))"
proof -
  let ?c = "Canonical (tiny_aggregate [''a'', ''b''])"
  let ?op = "target_op zero_hashing (digest_aggregate zero_hashing ?c)"
  have "map st_OperationID (pn_Steps demo_plan) = map ?op (map step_target (pn_Steps demo_plan))"
    using plan_steps_ops [OF Canonical_valid [OF tiny_ok(3)], of zero_hashing] by (simp add: demo_plan_def)
  then have "mset (map st_OperationID (pn_Steps demo_plan)) = mset (map ?op [(''a'', ''compute'', ''v1''), (''b'', ''compute'', ''v1'')])"
    by (simp only: mset_map demo_targets [unfolded mset_map])
  moreover have "?op (''a'', ''compute'', ''v1'') \<noteq> ?op (''b'', ''compute'', ''v1'')"
    by (simp add: target_op_def operationID_def DeriveID_def zero_hashing_def)
  then have "distinct (map ?op [(''a'', ''compute'', ''v1''), (''b'', ''compute'', ''v1'')])" by simp
  ultimately show ?thesis by (metis mset_eq_imp_distinct_iff)
qed

lemma demo_ctx: "pt_Ctx demo_ports w = (None, w)"
  by (simp add: demo_ports_def)

lemma demo_eligible: "run_state (eligible_loop demo_ports q cs acc) s = (Inr (acc @ offered q cs), s)"
  by (induction cs arbitrary: acc) (simp_all add: ctx_Err_def quiet_def demo_ctx offered_def)

lemma demo_resolve: "\<exists>rc. run_state (Resolve demo_ports demo_requirement) s = (Inr rc, s)"
proof -
  obtain port cs where port: "pt_Candidates demo_ports = Some port" "\<And>w. port demo_requirement w = (Inr cs, w)"
    and cs: "cs = [demo_candidate ''slow'' ''degraded'', demo_candidate ''b'' ''adaptable'', demo_candidate ''a'' ''adaptable'']"
    by (simp add: demo_ports_def)
  have "SliceStable preferred (offered demo_requirement cs) \<noteq> []" unfolding cs by code_simp
  moreover have "cr_Capability demo_requirement \<noteq> []" by (simp add: demo_requirement_def)
  ultimately show ?thesis
    by (simp add: Resolve_def ctx_Err_def quiet_def demo_ctx port demo_eligible split: list.split)
qed

lemma demo_step:
  assumes "st_Capability st = ''compute''" "st_Version st = ''v1''"
  shows "snd (fst (run_state (execute_step demo_ports st r ev) s)) = None"
proof -
  have q: "step_requirement st = demo_requirement" using assms by (simp add: step_requirement_def demo_requirement_def no_permissions_def)
  obtain rc where "run_state (Resolve demo_ports demo_requirement) s = (Inr rc, s)" using demo_resolve by blast
  then show ?thesis unfolding execute_step_def q
    by (cases "wd_state s") (simp_all add: apply_once_def Observe_def Verify_def Apply_def logged_def quiet_def Let_def demo_ports_def)
qed

lemma demo_run:
  "\<forall>st\<in>set sts. st_Capability st = ''compute'' \<and> st_Version st = ''v1'' \<Longrightarrow>
     snd (fst (run_state (run_steps execute_step demo_ports t p resources sts statuses result None) s)) = None"
proof (induction sts arbitrary: statuses result s)
  case (Cons st sts)
  have rec: "pt_Record demo_ports ev w = (None, w)" for ev w by (simp add: demo_ports_def)
  from Cons show ?case
    by (simp add: ctx_Err_def quiet_def demo_ctx RecordExecution_def logged_def rec Let_def case_prod_unfold demo_step add_failure_def)
qed simp

lemma demo_execution: "snd (fst (run_state (Execute zero_hashing demo_ports True ''trace'' demo_plan) demo_world)) = None"
proof -
  have "step_target st \<in> {(''a'', ''compute'', ''v1''), (''b'', ''compute'', ''v1'')}" if "st \<in> set (pn_Steps demo_plan)" for st
    using that mset_eq_setD [OF demo_targets] by auto
  then have "\<forall>st\<in>set (pn_Steps demo_plan). st_Capability st = ''compute'' \<and> st_Version st = ''v1''" by (auto simp: step_target_def)
  then show ?thesis by (simp add: Execute_def ctx_Err_def quiet_def demo_plan_valid demo_ctx demo_run)
qed

text \<open>
  C22: However the targets, the candidates and the context behave, an execution changes a
  target at most once per step; it does so only for a step of the plan all of whose
  dependencies were before recorded as converged on a successful verification, and the very
  next call observes the target. The evidence returned is what the sink accepted, and it
  says converged only where the last verification of the step said so.
\<close>

theorem execute_safe:
  assumes run: "run_state (Execute H P wired traceID p) s = ((evs, err), s')" and ops: "distinct (map st_OperationID (pn_Steps p))"
  shows "\<exists>l. wd_log s' = wd_log s @ l \<and> evs = recorded l
     \<and> (\<forall>op. length (applied (calls_of op l)) \<le> 1)
     \<and> (\<forall>l1 op a l2. l = l1 @ (op, Apply_call a) # l2 \<longrightarrow>
          a \<in> set (pn_Steps p) \<and> op = st_OperationID a \<and> (\<forall>d\<in>set (st_DependsOn a). seen_converged l1 d) \<and> observes_first op l2)
     \<and> (\<forall>ev\<in>set evs. ev_Status ev = StepConverged \<longrightarrow> ev_Verified ev)"
proof -
  from traced_run [OF Execute_log run] obtain l where l: "wd_log s' = wd_log s @ l" "run_log applies_once [] (pn_Steps p) l" "evs = recorded l"
    by auto
  have once: "length (applied (calls_of op l)) \<le> 1" for op
    using run_log_calls_of [OF l(2) ops] by (cases "op \<in> set (map st_OperationID (pn_Steps p))") (auto simp: applies_once_def)
  have obs: "observed_after l" using run_log_observed [OF l(2)] by (auto simp: applies_once_def)
  have "a \<in> set (pn_Steps p) \<and> op = st_OperationID a \<and> (\<forall>d\<in>set (st_DependsOn a). seen_converged l1 d) \<and> observes_first op l2"
    if e: "l = l1 @ (op, Apply_call a) # l2" for l1 op a l2
  proof -
    from run_log_apply [OF l(2) e] obtain st c where "st \<in> set (pn_Steps p)" "st_OperationID st = op"
      "\<forall>d\<in>set (st_DependsOn st). seen_converged l1 d" "applies_once st c" "a \<in> set (applied c)" by auto
    moreover from this have "a = st" by (auto simp: applies_once_def)
    ultimately show ?thesis using obs observed_after_split unfolding e by blast
  qed
  with l once run_log_verified [OF l(2)] show ?thesis by blast
qed

theorem execute_safe_witness:
  "\<exists>l. wd_log (snd (run_state (Execute zero_hashing demo_ports True ''trace'' demo_plan) demo_world)) = wd_log demo_world @ l
     \<and> (\<forall>op. length (applied (calls_of op l)) \<le> 1)"
proof -
  obtain evs err s' where e: "run_state (Execute zero_hashing demo_ports True ''trace'' demo_plan) demo_world = ((evs, err), s')"
    by (metis surj_pair)
  from execute_safe [OF e demo_ops] e show ?thesis by auto
qed

text \<open>
  C23: An execution that returns no error has carried out the whole plan: there is one
  evidence for every step, in the order of the plan, each converged and verified. No step is
  left blocked, since in a plan that passes validation dependencies come first.
\<close>

theorem execute_complete:
  assumes "run_state (Execute H P wired traceID p) s = ((evs, None), s')"
  shows "map ev_OperationID evs = map st_OperationID (pn_Steps p) \<and> (\<forall>ev\<in>set evs. ev_Status ev = StepConverged \<and> ev_Verified ev)"
  using traced_run [OF Execute_complete assms] by auto

theorem execute_complete_witness:
  "map ev_OperationID (fst (fst (run_state (Execute zero_hashing demo_ports True ''trace'' demo_plan) demo_world)))
     = map st_OperationID (pn_Steps demo_plan)"
proof -
  obtain evs err s' where e: "run_state (Execute zero_hashing demo_ports True ''trace'' demo_plan) demo_world = ((evs, err), s')"
    by (metis surj_pair)
  then have "err = None" using demo_execution by simp
  with e execute_complete show ?thesis by fastforce
qed

text \<open>
  C24: Reconciliation with at most \<open>n\<close> iterations makes at most \<open>n\<close> changes for a step. Their
  fingerprints differ, after every change but the last the measured distance is smaller
  than before it, each is observed at once, and none is made before all dependencies of
  the step were recorded as converged. An unset limit means eight.
\<close>

theorem reconcile_bounded:
  assumes run: "run_state (Reconcile H P wired traceID p m) s = ((evs, err), s')" and ops: "distinct (map st_OperationID (pn_Steps p))"
    and n: "n = nat (if m = 0 then 8 else m)"
  shows "\<exists>l. wd_log s' = wd_log s @ l \<and> evs = recorded l \<and> observed_after l
     \<and> (\<forall>st\<in>set (pn_Steps p). length (applied (calls_of (st_OperationID st) l)) \<le> n \<and> loop_calls H st n [] (calls_of (st_OperationID st) l))
     \<and> (\<forall>l1 op a l2. l = l1 @ (op, Apply_call a) # l2 \<longrightarrow>
          (\<exists>st\<in>set (pn_Steps p). op = st_OperationID st \<and> (\<exists>d. a = action H st d) \<and> (\<forall>d\<in>set (st_DependsOn st). seen_converged l1 d)))
     \<and> (\<forall>ev\<in>set evs. ev_Status ev = StepConverged \<longrightarrow> ev_Verified ev)"
proof -
  have n': "n = nat (if m = 0 then DefaultReconciliationIterations else m)" by (simp add: n DefaultReconciliationIterations_def)
  from traced_run [OF Reconcile_log run, folded n'] obtain l where l: "wd_log s' = wd_log s @ l"
    "run_log (\<lambda>st. loop_calls H st n []) [] (pn_Steps p) l" "evs = recorded l" by auto
  have calls: "loop_calls H st n [] (calls_of (st_OperationID st) l)" if "st \<in> set (pn_Steps p)" for st
    using run_log_calls_of [OF l(2) ops] that by (metis applied.simps(1) loop_calls_stop observed_after.simps(1))
  have "length (applied (calls_of (st_OperationID st) l)) \<le> n" if "st \<in> set (pn_Steps p)" for st
    using calls [OF that] by (auto simp: loop_calls_def)
  moreover have "observed_after l" using run_log_observed [OF l(2)] by (auto simp: loop_calls_def)
  moreover have "\<exists>st\<in>set (pn_Steps p). op = st_OperationID st \<and> (\<exists>d. a = action H st d) \<and> (\<forall>d\<in>set (st_DependsOn st). seen_converged l1 d)"
    if "l = l1 @ (op, Apply_call a) # l2" for l1 op a l2
  proof -
    from run_log_apply [OF l(2) that] obtain st c where st: "st \<in> set (pn_Steps p)" "st_OperationID st = op"
      "\<forall>d\<in>set (st_DependsOn st). seen_converged l1 d" and c: "loop_calls H st n [] c" "a \<in> set (applied c)" by auto
    from c(1) obtain ds where "applied c = map (action H st) ds" unfolding loop_calls_def by blast
    with st c(2) show ?thesis by auto
  qed
  ultimately show ?thesis using l calls run_log_verified [OF l(2)] by blast
qed

theorem reconcile_bounded_witness:
  "\<exists>l. wd_log (snd (run_state (Reconcile zero_hashing demo_ports True ''trace'' demo_plan 3) demo_world)) = wd_log demo_world @ l
     \<and> observed_after l \<and> (\<forall>st\<in>set (pn_Steps demo_plan). length (applied (calls_of (st_OperationID st) l)) \<le> 3)"
proof -
  obtain evs err s' where e: "run_state (Reconcile zero_hashing demo_ports True ''trace'' demo_plan 3) demo_world = ((evs, err), s')"
    by (metis surj_pair)
  from reconcile_bounded [OF e demo_ops, of 3] e show ?thesis by auto
qed

end
