(* ===== verification/Virtqueue.thy ===== *)
theory Virtqueue
  imports Prelude "HOL-Library.Word"
begin

text \<open>
  The split virtqueue of \<^verbatim>\<open>internal/hypervisor/kvm/linux_virtqueue.go\<close>. Guest memory is a list of
  bytes; a slice into it is its offset and length, so a descriptor aliases the memory as in the
  source. Addresses are 64-bit words chosen by the guest and their arithmetic wraps. Shown here: every
  range handed out lies inside guest memory, a chain has at most 1024 descriptors, and completing
  a request only changes the used ring.
\<close>

unbundle bit_operations_syntax

section \<open>Bytes\<close>

type_synonym mem = "8 word list"

definition le_value :: "8 word list \<Rightarrow> nat" where
  "le_value bs = foldr (\<lambda>b n. unat b + 256 * n) bs 0"

definition leUint16 :: "8 word list \<Rightarrow> 16 word" where
  "leUint16 bs = of_nat (le_value (take 2 bs))"

definition leUint32 :: "8 word list \<Rightarrow> 32 word" where
  "leUint32 bs = of_nat (le_value (take 4 bs))"

definition leUint64 :: "8 word list \<Rightarrow> 64 word" where
  "leUint64 bs = of_nat (le_value (take 8 bs))"

fun le_bytes :: "nat \<Rightarrow> nat \<Rightarrow> 8 word list" where
  "le_bytes 0 v = []"
| "le_bytes (Suc n) v = of_nat v # le_bytes n (v div 256)"

definition putLeUint16 :: "16 word \<Rightarrow> 8 word list" where
  "putLeUint16 v = le_bytes 2 (unat v)"

definition putLeUint32 :: "32 word \<Rightarrow> 8 word list" where
  "putLeUint32 v = le_bytes 4 (unat v)"

type_synonym slice = "nat \<times> nat"

definition bytes :: "mem \<Rightarrow> slice \<Rightarrow> 8 word list" where
  "bytes m r = take (snd r) (drop (fst r) m)"

definition store :: "mem \<Rightarrow> nat \<Rightarrow> 8 word list \<Rightarrow> mem" where
  "store m a bs = take a m @ bs @ drop (a + length bs) m"

section \<open>The queue\<close>

datatype vq_error =
    OutsideMemory "64 word" "64 word"
  | ZeroQueueSize
  | ChainTooLong
  | IndexOutOfRange "16 word" "16 word"
  | IndirectUnsupported
  | ShortChain
  | ShortHeader
  | NoStatusByte

record virtQueue =
  vq_size :: "16 word"
  vq_ready :: bool
  vq_descAddr :: "64 word"
  vq_availAddr :: "64 word"
  vq_usedAddr :: "64 word"
  vq_lastAvail :: "16 word"

record virtqDescriptor =
  vd_buf :: slice
  vd_deviceWrite :: bool

abbreviation virtqDescSize :: "64 word" where "virtqDescSize \<equiv> 16"
abbreviation virtqAvailRingOffset :: "64 word" where "virtqAvailRingOffset \<equiv> 4"
abbreviation virtqUsedRingOffset :: "64 word" where "virtqUsedRingOffset \<equiv> 4"
abbreviation virtqUsedElemSize :: "64 word" where "virtqUsedElemSize \<equiv> 8"
abbreviation virtqDescFlagNext :: "16 word" where "virtqDescFlagNext \<equiv> 1"
abbreviation virtqDescFlagWrite :: "16 word" where "virtqDescFlagWrite \<equiv> 2"
abbreviation virtqDescFlagIndirect :: "16 word" where "virtqDescFlagIndirect \<equiv> 4"

definition virtqMaxChainLength :: nat where "virtqMaxChainLength = 1024"

text \<open>The length of a slice is below \<^verbatim>\<open>2^63\<close>, so comparing with it as \<^verbatim>\<open>uint64\<close> compares the numbers.\<close>

definition guestRange :: "mem \<Rightarrow> 64 word \<Rightarrow> 64 word \<Rightarrow> vq_error + slice" where
  "guestRange m addr len =
     (if len = 0 then Inr (0, 0)
      else if length m < unat addr \<or> length m - unat addr < unat len then Inl (OutsideMemory addr len)
      else Inr (unat addr, unat len))"

definition availIdx :: "virtQueue \<Rightarrow> mem \<Rightarrow> vq_error + 16 word" where
  "availIdx q m = (case guestRange m (vq_availAddr q + 2) 2 of Inl e \<Rightarrow> Inl e | Inr field \<Rightarrow> Inr (leUint16 (bytes m field)))"

definition pending :: "virtQueue \<Rightarrow> mem \<Rightarrow> vq_error + bool" where
  "pending q m = (case availIdx q m of Inl e \<Rightarrow> Inl e | Inr idx \<Rightarrow> Inr (idx \<noteq> vq_lastAvail q))"

definition avail_slot :: "virtQueue \<Rightarrow> 64 word" where
  "avail_slot q = vq_availAddr q + virtqAvailRingOffset + 2 * ucast (vq_lastAvail q mod vq_size q)"

definition popAvail :: "virtQueue \<Rightarrow> mem \<Rightarrow> (vq_error + 16 word option) \<times> virtQueue" where
  "popAvail q m =
     (case availIdx q m of
        Inl e \<Rightarrow> (Inl e, q)
      | Inr idx \<Rightarrow>
          if idx = vq_lastAvail q then (Inr None, q)
          else if vq_size q = 0 then (Inl ZeroQueueSize, q)
          else case guestRange m (avail_slot q) 2 of
            Inl e \<Rightarrow> (Inl e, q)
          | Inr field \<Rightarrow> (Inr (Some (leUint16 (bytes m field))), q\<lparr>vq_lastAvail := vq_lastAvail q + 1\<rparr>))"

fun chain_loop :: "virtQueue \<Rightarrow> mem \<Rightarrow> nat \<Rightarrow> 16 word \<Rightarrow> vq_error + virtqDescriptor list" where
  "chain_loop q m 0 index = Inl ChainTooLong"
| "chain_loop q m (Suc n) index =
     (if vq_size q \<le> index then Inl (IndexOutOfRange index (vq_size q))
      else case guestRange m (vq_descAddr q + ucast index * virtqDescSize) virtqDescSize of
        Inl e \<Rightarrow> Inl e
      | Inr r \<Rightarrow>
          let raw = bytes m r; addr = leUint64 (take 8 raw); len = leUint32 (take 4 (drop 8 raw));
              flags = leUint16 (take 2 (drop 12 raw)); nxt = leUint16 (take 2 (drop 14 raw))
          in if flags AND virtqDescFlagIndirect \<noteq> 0 then Inl IndirectUnsupported
             else case guestRange m addr (ucast len) of
               Inl e \<Rightarrow> Inl e
             | Inr buf \<Rightarrow>
                 let d = \<lparr>vd_buf = buf, vd_deviceWrite = (flags AND virtqDescFlagWrite \<noteq> 0)\<rparr>
                 in if flags AND virtqDescFlagNext = 0 then Inr [d]
                    else case chain_loop q m n nxt of Inl e \<Rightarrow> Inl e | Inr ds \<Rightarrow> Inr (d # ds))"

definition readChain :: "virtQueue \<Rightarrow> mem \<Rightarrow> 16 word \<Rightarrow> vq_error + virtqDescriptor list" where
  "readChain q m head = chain_loop q m virtqMaxChainLength head"

definition used_elem :: "virtQueue \<Rightarrow> 16 word \<Rightarrow> 64 word" where
  "used_elem q usedIdx = vq_usedAddr q + virtqUsedRingOffset + virtqUsedElemSize * ucast (usedIdx mod vq_size q)"

definition pushUsed :: "virtQueue \<Rightarrow> mem \<Rightarrow> 32 word \<Rightarrow> 32 word \<Rightarrow> vq_error option \<times> mem" where
  "pushUsed q m i writtenLen =
     (if vq_size q = 0 then (Some ZeroQueueSize, m)
      else case guestRange m (vq_usedAddr q + 2) 2 of
        Inl e \<Rightarrow> (Some e, m)
      | Inr field \<Rightarrow>
          let usedIdx = leUint16 (bytes m field) in
          case guestRange m (used_elem q usedIdx) virtqUsedElemSize of
            Inl e \<Rightarrow> (Some e, m)
          | Inr elem \<Rightarrow>
              let m1 = store m (fst elem) (putLeUint32 i);
                  m2 = store m1 (fst elem + 4) (putLeUint32 writtenLen)
              in (None, store m2 (fst field) (putLeUint16 (usedIdx + 1))))"

section \<open>Memory\<close>

lemma length_le_bytes [simp]: "length (le_bytes n v) = n"
  by (induction n arbitrary: v) auto

lemma length_put [simp]: "length (putLeUint16 v) = 2" "length (putLeUint32 w) = 4"
  by (simp_all add: putLeUint16_def putLeUint32_def)

lemma length_store [simp]: "a + length bs \<le> length m \<Longrightarrow> length (store m a bs) = length m"
  by (simp add: store_def)

lemma store_nth:
  "a + length bs \<le> length m \<Longrightarrow> k < length m \<Longrightarrow>
     store m a bs ! k = (if a \<le> k \<and> k < a + length bs then bs ! (k - a) else m ! k)"
  by (auto simp: store_def nth_append)

lemma bytes_eqI:
  assumes "length m' = length m" "\<And>k. fst r \<le> k \<Longrightarrow> k < fst r + snd r \<Longrightarrow> k < length m \<Longrightarrow> m' ! k = m ! k"
  shows "bytes m' r = bytes m r"
  by (rule nth_equalityI) (use assms in \<open>auto simp: bytes_def\<close>)

lemma le_value_bytes: "le_value (le_bytes n v) = v mod 256 ^ n"
proof (induction n arbitrary: v)
  case (Suc n)
  have "unat (of_nat v :: 8 word) = v mod 256" by (simp add: unat_of_nat take_bit_eq_mod)
  with Suc show ?case by (simp add: le_value_def mod_mult2_eq)
qed (simp add: le_value_def)

lemma leUint16_put [simp]: "leUint16 (putLeUint16 v) = v"
proof -
  have "unat v < 65536" using unsigned_less [of v, where 'a = nat] by simp
  then show ?thesis by (simp add: leUint16_def putLeUint16_def le_value_bytes)
qed

text \<open>A memory that only differs in the given bytes.\<close>

definition keeps :: "nat set \<Rightarrow> mem \<Rightarrow> mem \<Rightarrow> bool" where
  "keeps S m m' \<longleftrightarrow> length m' = length m \<and> (\<forall>k<length m. k \<notin> S \<longrightarrow> m' ! k = m ! k)"

lemma keeps_refl [simp]: "keeps S m m"
  by (simp add: keeps_def)

lemma keeps_trans: "keeps S m m' \<Longrightarrow> keeps S m' m'' \<Longrightarrow> keeps S m m''"
  by (simp add: keeps_def)

lemma keeps_mono: "keeps S m m' \<Longrightarrow> S \<subseteq> T \<Longrightarrow> keeps T m m'"
  by (auto simp: keeps_def)

lemma keeps_length: "keeps S m m' \<Longrightarrow> length m' = length m"
  by (simp add: keeps_def)

lemma keeps_store: "a + length bs \<le> length m \<Longrightarrow> {a..<a + length bs} \<subseteq> S \<Longrightarrow> keeps S m (store m a bs)"
  by (auto simp: keeps_def store_nth)

definition slice_bytes :: "slice \<Rightarrow> nat set" where
  "slice_bytes r = {fst r..<fst r + snd r}"

lemma keeps_bytes: "keeps S m m' \<Longrightarrow> slice_bytes r \<inter> S = {} \<Longrightarrow> bytes m' r = bytes m r"
  by (rule bytes_eqI) (auto simp: keeps_def slice_bytes_def disjoint_iff)

lemma guestRange_ok: "guestRange m a l = Inr r \<Longrightarrow> fst r + snd r \<le> length m \<and> snd r = unat l \<and> (l \<noteq> 0 \<longrightarrow> fst r = unat a)"
  by (auto simp: guestRange_def split: if_splits)

lemma guestRange_length: "length m' = length m \<Longrightarrow> guestRange m' a l = guestRange m a l"
  by (simp add: guestRange_def)

lemma chain_loop_ok:
  "chain_loop q m n index = Inr ds \<Longrightarrow> ds \<noteq> [] \<and> length ds \<le> n \<and> (\<forall>d\<in>set ds. fst (vd_buf d) + snd (vd_buf d) \<le> length m)"
proof (induction n arbitrary: index ds)
  case (Suc n)
  then obtain r buf where r: "guestRange m (vq_descAddr q + ucast index * virtqDescSize) virtqDescSize = Inr r"
    and buf: "guestRange m (leUint64 (take 8 (bytes m r))) (ucast (leUint32 (take 4 (drop 8 (bytes m r))))) = Inr buf"
    by (auto simp: Let_def split: if_splits sum.splits)
  have b: "fst buf + snd buf \<le> length m" using guestRange_ok [OF buf] by simp
  from Suc.prems r buf show ?case
    using b Suc.IH by (auto simp: Let_def split: if_splits sum.splits)
qed simp

lemma readChain_ok:
  "readChain q m head = Inr ds \<Longrightarrow> ds \<noteq> [] \<and> length ds \<le> 1024 \<and> (\<forall>d\<in>set ds. fst (vd_buf d) + snd (vd_buf d) \<le> length m)"
  using chain_loop_ok unfolding readChain_def virtqMaxChainLength_def by blast

definition used_bytes :: "virtQueue \<Rightarrow> nat set" where
  "used_bytes q = slice_bytes (unat (vq_usedAddr q + 2), 2) \<union> (\<Union>i. slice_bytes (unat (used_elem q i), 8))"

lemma pushUsed_keeps:
  assumes "pushUsed q m i w = (e, m')"
  shows "keeps (used_bytes q) m m'"
proof (cases e)
  case None
  with assms obtain field elem where f: "guestRange m (vq_usedAddr q + 2) 2 = Inr field"
    and el: "guestRange m (used_elem q (leUint16 (bytes m field))) virtqUsedElemSize = Inr elem"
    and m': "m' = store (store (store m (fst elem) (putLeUint32 i)) (fst elem + 4) (putLeUint32 w)) (fst field)
      (putLeUint16 (leUint16 (bytes m field) + 1))"
    by (auto simp: pushUsed_def Let_def split: if_splits sum.splits)
  have f': "fst field + 2 \<le> length m" "slice_bytes (fst field, 2) \<subseteq> used_bytes q"
    using guestRange_ok [OF f] by (auto simp: used_bytes_def)
  have e': "fst elem + 8 \<le> length m" "slice_bytes (fst elem, 8) \<subseteq> used_bytes q"
    using guestRange_ok [OF el] by (auto simp: used_bytes_def)
  show ?thesis unfolding m' using f' e'
    by (intro keeps_trans [OF keeps_trans [OF keeps_store keeps_store] keeps_store]) (auto simp: slice_bytes_def)
next
  case (Some x)
  with assms have "m' = m" by (auto simp: pushUsed_def Let_def split: if_splits sum.splits)
  then show ?thesis by simp
qed

end
