(* ===== verification/Virtio_Blk.thy ===== *)
theory Virtio_Blk
  imports Virtqueue
begin

text \<open>
  The block device of \<^verbatim>\<open>internal/hypervisor/kvm/linux_virtio_blk.go\<close>: one request chain and the loop that
  drains the queue. The backend is a parameter; \<open>backend_ok\<close> is the contract of \<^verbatim>\<open>io.ReaderAt\<close> and
  \<^verbatim>\<open>io.WriterAt\<close> on the length they report. The loop ends only as long as no request rewrites the
  avail index, so it is a partial function. Shown: whatever the guest puts into its memory, a request
  changes nothing but the used ring and the buffers the guest marked writable, a read-only device never
  writes to its backend, and the loop ends when the rings are separate from the buffers.
\<close>

datatype backend_error = EOF | BackendFailure string

text \<open>Reading gets the old content of the buffer, all of which it may overwrite, and returns the new one.\<close>

record 'b backend =
  bk_ReadAt :: "8 word list \<Rightarrow> 64 word \<Rightarrow> 'b \<Rightarrow> (8 word list \<times> nat \<times> backend_error option) \<times> 'b"
  bk_WriteAt :: "8 word list \<Rightarrow> 64 word \<Rightarrow> 'b \<Rightarrow> (nat \<times> backend_error option) \<times> 'b"
  bk_Sync :: "'b \<Rightarrow> backend_error option \<times> 'b"

abbreviation virtioBlkTypeIn :: "32 word" where "virtioBlkTypeIn \<equiv> 0"
abbreviation virtioBlkTypeOut :: "32 word" where "virtioBlkTypeOut \<equiv> 1"
abbreviation virtioBlkTypeFlush :: "32 word" where "virtioBlkTypeFlush \<equiv> 4"
abbreviation virtioBlkTypeGetID :: "32 word" where "virtioBlkTypeGetID \<equiv> 8"
abbreviation virtioBlkStatusOK :: "8 word" where "virtioBlkStatusOK \<equiv> 0"
abbreviation virtioBlkStatusIOErr :: "8 word" where "virtioBlkStatusIOErr \<equiv> 1"
abbreviation virtioBlkStatusUnsupp :: "8 word" where "virtioBlkStatusUnsupp \<equiv> 2"

definition virtioBlkIDBytes :: nat where "virtioBlkIDBytes = 20"

definition device_id :: "8 word list" where
  "device_id = map of_char ''platform-factory-vd''"

text \<open>The loops over the data descriptors return the status, the bytes written to the guest, the memory and the backend.\<close>

fun read_loop :: "'b backend \<Rightarrow> virtqDescriptor list \<Rightarrow> 64 word \<Rightarrow> 32 word \<Rightarrow> mem \<Rightarrow> 'b \<Rightarrow> 8 word \<times> 32 word \<times> mem \<times> 'b" where
  "read_loop bk [] offset written m b = (virtioBlkStatusOK, written, m, b)"
| "read_loop bk (d # ds) offset written m b =
     (if \<not> vd_deviceWrite d then (virtioBlkStatusIOErr, written, m, b)
      else case bk_ReadAt bk (bytes m (vd_buf d)) offset b of
        ((buf, n, err), b') \<Rightarrow>
          let m' = store m (fst (vd_buf d)) buf in
          if n \<noteq> snd (vd_buf d) \<or> (err \<noteq> None \<and> err \<noteq> Some EOF) then (virtioBlkStatusIOErr, written + of_nat n, m', b')
          else read_loop bk ds (offset + of_nat n) (written + of_nat n) m' b')"

fun write_loop :: "'b backend \<Rightarrow> virtqDescriptor list \<Rightarrow> 64 word \<Rightarrow> mem \<Rightarrow> 'b \<Rightarrow> 8 word \<times> 'b" where
  "write_loop bk [] offset m b = (virtioBlkStatusOK, b)"
| "write_loop bk (d # ds) offset m b =
     (case bk_WriteAt bk (bytes m (vd_buf d)) offset b of
        ((n, err), b') \<Rightarrow>
          if n \<noteq> snd (vd_buf d) \<or> err \<noteq> None then (virtioBlkStatusIOErr, b')
          else write_loop bk ds (offset + of_nat n) m b')"

definition serve :: "'b backend \<Rightarrow> bool \<Rightarrow> 32 word \<Rightarrow> 64 word \<Rightarrow> virtqDescriptor list \<Rightarrow> mem \<Rightarrow> 'b \<Rightarrow> 8 word \<times> 32 word \<times> mem \<times> 'b" where
  "serve bk readOnly reqType offset data m b =
     (if reqType = virtioBlkTypeIn then read_loop bk data offset 0 m b
      else if reqType = virtioBlkTypeOut then
        (if readOnly then (virtioBlkStatusIOErr, 0, m, b)
         else case write_loop bk data offset m b of (result, b') \<Rightarrow> (result, 0, m, b'))
      else if reqType = virtioBlkTypeFlush then
        (case bk_Sync bk b of (err, b') \<Rightarrow> (if err \<noteq> None then virtioBlkStatusIOErr else virtioBlkStatusOK, 0, m, b'))
      else if reqType = virtioBlkTypeGetID then
        (case data of
           [d] \<Rightarrow>
             if vd_deviceWrite d
             then let n = snd (vd_buf d); buf = take n device_id @ replicate (n - length device_id) 0
                  in (virtioBlkStatusOK, of_nat (min n virtioBlkIDBytes), store m (fst (vd_buf d)) buf, b)
             else (virtioBlkStatusUnsupp, 0, m, b)
         | _ \<Rightarrow> (virtioBlkStatusUnsupp, 0, m, b))
      else (virtioBlkStatusUnsupp, 0, m, b))"

definition handleRequest :: "'b backend \<Rightarrow> bool \<Rightarrow> virtqDescriptor list \<Rightarrow> mem \<Rightarrow> 'b \<Rightarrow> (vq_error + 32 word) \<times> mem \<times> 'b" where
  "handleRequest bk readOnly chain m b =
     (if length chain < 2 then (Inl ShortChain, m, b)
      else let header = bytes m (vd_buf (chain ! 0)) in
        if length header < 16 then (Inl ShortHeader, m, b)
        else let status = last chain in
          if snd (vd_buf status) < 1 \<or> \<not> vd_deviceWrite status then (Inl NoStatusByte, m, b)
          else let data = butlast (tl chain);
                   reqType = leUint32 (take 4 header); sector = leUint64 (take 8 (drop 8 header));
                   (result, written, m', b') = serve bk readOnly reqType (sector * 512) data m b
               in (Inr (written + 1), store m' (fst (vd_buf status)) [result], b'))"

text \<open>One round of the loop after \<^verbatim>\<open>pending\<close>; \<open>Inr False\<close> when there is no request after all.\<close>

definition service :: "'b backend \<Rightarrow> bool \<Rightarrow> virtQueue \<Rightarrow> mem \<Rightarrow> 'b \<Rightarrow> (vq_error + bool) \<times> virtQueue \<times> mem \<times> 'b" where
  "service bk readOnly q m b =
     (case popAvail q m of (popped, q') \<Rightarrow>
        (case popped of
           Inl e \<Rightarrow> (Inl e, q', m, b)
         | Inr None \<Rightarrow> (Inr False, q', m, b)
         | Inr (Some head) \<Rightarrow>
             (case readChain q' m head of
                Inl e \<Rightarrow> (Inl e, q', m, b)
              | Inr chain \<Rightarrow>
                  (case handleRequest bk readOnly chain m b of (handled, m1, b1) \<Rightarrow>
                     (case handled of
                        Inl e \<Rightarrow> (Inl e, q', m1, b1)
                      | Inr written \<Rightarrow>
                          (case pushUsed q' m1 (ucast head) written of (err, m2) \<Rightarrow>
                             (case err of Some e \<Rightarrow> (Inl e, q', m2, b1) | None \<Rightarrow> (Inr True, q', m2, b1))))))))"

text \<open>The error, whether the used ring was signalled, and the queue, memory and backend at the end.\<close>

partial_function (option) processQueue ::
  "'b backend \<Rightarrow> bool \<Rightarrow> virtQueue \<Rightarrow> mem \<Rightarrow> 'b \<Rightarrow> bool \<Rightarrow> (vq_error option \<times> bool \<times> virtQueue \<times> mem \<times> 'b) option" where
  "processQueue bk readOnly q m b processed =
     (case pending q m of
        Inl e \<Rightarrow> Some (Some e, False, q, m, b)
      | Inr waiting \<Rightarrow>
          if \<not> waiting then Some (None, processed, q, m, b)
          else case service bk readOnly q m b of (r, q', m', b') \<Rightarrow>
            (case r of
               Inl e \<Rightarrow> Some (Some e, False, q', m', b')
             | Inr go \<Rightarrow> if go then processQueue bk readOnly q' m' b' True else Some (None, processed, q', m', b')))"

section \<open>What a request changes\<close>

definition backend_ok :: "'b backend \<Rightarrow> bool" where
  "backend_ok bk \<longleftrightarrow> (\<forall>buf off b. length (fst (fst (bk_ReadAt bk buf off b))) = length buf
     \<and> fst (snd (fst (bk_ReadAt bk buf off b))) \<le> length buf \<and> fst (fst (bk_WriteAt bk buf off b)) \<le> length buf)"

definition chain_bytes :: "virtqDescriptor list \<Rightarrow> nat set" where
  "chain_bytes ds = (\<Union>d\<in>{d \<in> set ds. vd_deviceWrite d}. slice_bytes (vd_buf d))"

definition chain_inside :: "mem \<Rightarrow> virtqDescriptor list \<Rightarrow> bool" where
  "chain_inside m ds \<longleftrightarrow> (\<forall>d\<in>set ds. fst (vd_buf d) + snd (vd_buf d) \<le> length m)"

lemma chain_bytes_simps [simp]:
  "chain_bytes [] = {}" "chain_bytes (d # ds) = (if vd_deviceWrite d then slice_bytes (vd_buf d) else {}) \<union> chain_bytes ds"
  by (auto simp: chain_bytes_def)

lemma chain_inside_simps [simp]:
  "chain_inside m []" "chain_inside m (d # ds) \<longleftrightarrow> fst (vd_buf d) + snd (vd_buf d) \<le> length m \<and> chain_inside m ds"
  by (auto simp: chain_inside_def)

lemma keeps_buffer:
  assumes "vd_deviceWrite d" "d \<in> set ds" "length buf \<le> snd (vd_buf d)" "chain_inside m ds"
  shows "keeps (chain_bytes ds) m (store m (fst (vd_buf d)) buf)"
proof (rule keeps_store)
  show "fst (vd_buf d) + length buf \<le> length m" using assms(2,3,4) by (force simp: chain_inside_def)
  show "{fst (vd_buf d)..<fst (vd_buf d) + length buf} \<subseteq> chain_bytes ds"
    using assms(1,2,3) by (force simp: chain_bytes_def slice_bytes_def)
qed

lemma length_bytes: "fst r + snd r \<le> length m \<Longrightarrow> length (bytes m r) = snd r"
  by (simp add: bytes_def)

lemma read_loop_keeps:
  assumes ok: "backend_ok bk"
  shows "chain_inside m ds \<Longrightarrow> read_loop bk ds offset w m b = (result, w', m', b') \<Longrightarrow> keeps (chain_bytes ds) m m'"
proof (induction ds arbitrary: offset w m b)
  case (Cons d ds)
  show ?case
  proof (cases "vd_deviceWrite d")
    case False
    with Cons.prems show ?thesis by simp
  next
    case True
    obtain buf n err b1 where rd: "bk_ReadAt bk (bytes m (vd_buf d)) offset b = ((buf, n, err), b1)" by (metis surj_pair)
    let ?m = "store m (fst (vd_buf d)) buf"
    have "length buf = snd (vd_buf d)"
      using ok rd Cons.prems(1) length_bytes [of "vd_buf d" m] unfolding backend_ok_def by (metis chain_inside_simps(2) fst_conv)
    then have k: "keeps (chain_bytes (d # ds)) m ?m" using True Cons.prems(1) by (intro keeps_buffer) auto
    show ?thesis
    proof (cases "n \<noteq> snd (vd_buf d) \<or> (err \<noteq> None \<and> err \<noteq> Some EOF)")
      case True
      with Cons.prems rd k \<open>vd_deviceWrite d\<close> show ?thesis by (auto simp: Let_def split: if_splits)
    next
      case False
      have "chain_inside ?m ds" using Cons.prems(1) keeps_length [OF k] by (simp add: chain_inside_def)
      moreover have "read_loop bk ds (offset + of_nat n) (w + of_nat n) ?m b1 = (result, w', m', b')"
        using Cons.prems(2) rd False \<open>vd_deviceWrite d\<close> by (simp add: Let_def split: if_splits)
      ultimately have "keeps (chain_bytes ds) ?m m'" by (rule Cons.IH)
      then have "keeps (chain_bytes (d # ds)) ?m m'" by (rule keeps_mono) simp
      with k show ?thesis by (rule keeps_trans)
    qed
  qed
qed simp

lemma serve_keeps:
  assumes "backend_ok bk" "chain_inside m data" "serve bk ro t offset data m b = (result, w, m', b')"
  shows "keeps (chain_bytes data) m m'"
proof (cases "t = virtioBlkTypeIn")
  case True
  with assms show ?thesis using read_loop_keeps by (simp add: serve_def)
next
  case False
  show ?thesis
  proof (cases "t = virtioBlkTypeGetID \<and> (\<exists>d. data = [d] \<and> vd_deviceWrite d)")
    case True
    then obtain d where d: "data = [d]" "vd_deviceWrite d" and t: "t = virtioBlkTypeGetID" by blast
    let ?n = "snd (vd_buf d)"
    have m': "m' = store m (fst (vd_buf d)) (take ?n device_id @ replicate (?n - length device_id) 0)"
      using assms(3) d t by (simp add: serve_def Let_def)
    have "length (take ?n device_id @ replicate (?n - length device_id) (0 :: 8 word)) \<le> ?n" by simp
    then show ?thesis unfolding m' using d assms(2) by (intro keeps_buffer) auto
  next
    case False
    with assms(3) \<open>t \<noteq> virtioBlkTypeIn\<close> have "m' = m"
      by (auto simp: serve_def Let_def split: if_splits list.splits prod.splits)
    then show ?thesis by simp
  qed
qed

lemma handleRequest_keeps:
  assumes ok: "backend_ok bk" and inside: "chain_inside m chain" and h: "handleRequest bk ro chain m b = (r, m', b')"
  shows "keeps (chain_bytes chain) m m'"
proof (cases r)
  case (Inl e)
  with h have "m' = m" by (auto simp: handleRequest_def Let_def split: if_splits prod.splits)
  then show ?thesis by simp
next
  case (Inr x)
  let ?data = "butlast (tl chain)" and ?st = "last chain" and ?hd = "bytes m (vd_buf (chain ! 0))"
  obtain result w m1 b1 where s: "serve bk ro (leUint32 (take 4 ?hd)) (leUint64 (take 8 (drop 8 ?hd)) * 512) ?data m b = (result, w, m1, b1)"
    by (metis surj_pair)
  have len: "2 \<le> length chain" and st: "1 \<le> snd (vd_buf ?st)" "vd_deviceWrite ?st" and m': "m' = store m1 (fst (vd_buf ?st)) [result]"
    using h Inr s by (auto simp: handleRequest_def Let_def split: if_splits)
  have sub: "set ?data \<subseteq> set chain" by (metis in_set_butlastD list.set_sel(2) subsetI tl_Nil)
  have "keeps (chain_bytes ?data) m m1"
    using inside sub by (intro serve_keeps [OF ok _ s]) (auto simp: chain_inside_def)
  then have k: "keeps (chain_bytes chain) m m1" by (rule keeps_mono) (use sub in \<open>auto simp: chain_bytes_def\<close>)
  have "last chain \<in> set chain" using len by (intro last_in_set) auto
  then have "keeps (chain_bytes chain) m1 m'" unfolding m'
    using st inside keeps_length [OF k] by (intro keeps_buffer) (auto simp: chain_inside_def)
  with k show ?thesis by (rule keeps_trans)
qed

section \<open>The rings and the buffers\<close>

definition desc_slot :: "virtQueue \<Rightarrow> 16 word \<Rightarrow> 64 word" where
  "desc_slot q i = vq_descAddr q + ucast i * virtqDescSize"

definition desc_bytes :: "virtQueue \<Rightarrow> nat set" where
  "desc_bytes q = (\<Union>i\<in>{i. i < vq_size q}. slice_bytes (unat (desc_slot q i), 16))"

definition avail_idx_bytes :: "virtQueue \<Rightarrow> nat set" where
  "avail_idx_bytes q = slice_bytes (unat (vq_availAddr q + 2), 2)"

text \<open>The bytes that some entry of the descriptor table offers for the device to write.\<close>

definition entry_buffer :: "mem \<Rightarrow> 8 word list \<Rightarrow> vq_error + slice" where
  "entry_buffer m raw = guestRange m (leUint64 (take 8 raw)) (ucast (leUint32 (take 4 (drop 8 raw))))"

definition entry_writable :: "8 word list \<Rightarrow> bool" where
  "entry_writable raw \<longleftrightarrow> leUint16 (take 2 (drop 12 raw)) AND virtqDescFlagWrite \<noteq> 0"

definition writable_bytes :: "virtQueue \<Rightarrow> mem \<Rightarrow> nat set" where
  "writable_bytes q m = {k. \<exists>i<vq_size q. \<exists>r buf. guestRange m (desc_slot q i) virtqDescSize = Inr r
     \<and> entry_writable (bytes m r) \<and> entry_buffer m (bytes m r) = Inr buf \<and> k \<in> slice_bytes buf}"

lemma chain_loop_writable: "chain_loop q m n index = Inr ds \<Longrightarrow> chain_bytes ds \<subseteq> writable_bytes q m"
proof (induction n arbitrary: index ds)
  case (Suc n)
  then obtain r buf where r: "index < vq_size q" "guestRange m (desc_slot q index) virtqDescSize = Inr r"
    and buf: "entry_buffer m (bytes m r) = Inr buf"
    by (auto simp: Let_def entry_buffer_def desc_slot_def not_le split: if_splits sum.splits)
  let ?d = "\<lparr>vd_buf = buf, vd_deviceWrite = entry_writable (bytes m r)\<rparr>"
  have "ds = [?d] \<or> (\<exists>nxt ds'. chain_loop q m n nxt = Inr ds' \<and> ds = ?d # ds')"
    using Suc.prems r buf
    by (auto simp: Let_def entry_buffer_def entry_writable_def desc_slot_def split: if_splits sum.splits)
  moreover have "(if entry_writable (bytes m r) then slice_bytes buf else {}) \<subseteq> writable_bytes q m"
    using r buf by (cases r; cases buf) (auto simp: writable_bytes_def)
  ultimately show ?case
  proof (elim disjE exE conjE)
    fix nxt ds'
    assume "(if entry_writable (bytes m r) then slice_bytes buf else {}) \<subseteq> writable_bytes q m" "chain_loop q m n nxt = Inr ds'" "ds = ?d # ds'"
    with Suc.IH [of nxt ds'] show ?thesis by (simp split: if_splits)
  qed (simp split: if_splits)
qed simp

lemma readChain_writable: "readChain q m head = Inr ds \<Longrightarrow> chain_inside m ds \<and> chain_bytes ds \<subseteq> writable_bytes q m"
  using readChain_ok chain_loop_writable unfolding chain_inside_def readChain_def by blast

lemma lastAvail_irrelevant [simp]:
  "used_bytes (q\<lparr>vq_lastAvail := x\<rparr>) = used_bytes q" "desc_bytes (q\<lparr>vq_lastAvail := x\<rparr>) = desc_bytes q"
  "avail_idx_bytes (q\<lparr>vq_lastAvail := x\<rparr>) = avail_idx_bytes q" "writable_bytes (q\<lparr>vq_lastAvail := x\<rparr>) m = writable_bytes q m"
  "availIdx (q\<lparr>vq_lastAvail := x\<rparr>) m = availIdx q m"
  by (simp_all add: used_bytes_def used_elem_def desc_bytes_def desc_slot_def avail_idx_bytes_def writable_bytes_def availIdx_def)

lemma popAvail_queue: "popAvail q m = (r, q') \<Longrightarrow> q' = (case r of Inr (Some _) \<Rightarrow> q\<lparr>vq_lastAvail := vq_lastAvail q + 1\<rparr> | _ \<Rightarrow> q)"
  by (auto simp: popAvail_def split: sum.splits if_splits)

lemma service_cases:
  assumes "service bk ro q m b = (r, q', m', b')"
  obtains
    (untouched) "m' = m" "b' = b" "r \<noteq> Inr True" "q' = q \<or> q' = q\<lparr>vq_lastAvail := vq_lastAvail q + 1\<rparr>"
  | (handled) chain h m1 where "q' = q\<lparr>vq_lastAvail := vq_lastAvail q + 1\<rparr>" "chain_inside m chain" "chain_bytes chain \<subseteq> writable_bytes q m"
      "handleRequest bk ro chain m b = (h, m1, b')" "m' = m1 \<or> (\<exists>i w e. pushUsed q' m1 i w = (e, m'))"
proof -
  obtain popped q1 where pop: "popAvail q m = (popped, q1)" by fastforce
  note q1 = popAvail_queue [OF pop]
  show thesis
  proof (cases "\<exists>head chain. popped = Inr (Some head) \<and> readChain q1 m head = Inr chain")
    case True
    then obtain head chain where hc: "popped = Inr (Some head)" "readChain q1 m head = Inr chain" by blast
    obtain h m1 b1 where h: "handleRequest bk ro chain m b = (h, m1, b1)" by (metis surj_pair)
    have "q' = q1" "b' = b1" "m' = m1 \<or> (\<exists>i w e. pushUsed q1 m1 i w = (e, m'))"
      using assms pop hc h by (auto simp: service_def split: sum.splits option.splits prod.splits)
    with handled [of chain h m1] q1 hc h readChain_writable [OF hc(2)] show thesis by simp
  next
    case False
    then have "m' = m \<and> b' = b \<and> r \<noteq> Inr True \<and> q' = q1"
      using assms pop by (auto simp: service_def split: sum.splits option.splits)
    with untouched q1 show thesis by (auto split: sum.splits option.splits)
  qed
qed

lemma service_keeps:
  assumes "backend_ok bk" "service bk ro q m b = (r, q', m', b')"
  shows "keeps (used_bytes q \<union> writable_bytes q m) m m'"
  using assms(2)
proof (cases rule: service_cases)
  case (handled chain h m1)
  have k: "keeps (used_bytes q \<union> writable_bytes q m) m m1"
    using handleRequest_keeps [OF assms(1) handled(2,4)] by (rule keeps_mono) (use handled(3) in auto)
  from handled(5) show ?thesis
  proof
    assume "\<exists>i w e. pushUsed q' m1 i w = (e, m')"
    then have "keeps (used_bytes q) m1 m'" using pushUsed_keeps handled(1) by (metis lastAvail_irrelevant(1))
    then have "keeps (used_bytes q \<union> writable_bytes q m) m1 m'" by (rule keeps_mono) simp
    with k show ?thesis by (rule keeps_trans)
  qed (use k in simp)
qed simp

section \<open>Read-only devices\<close>

definition reads_pure :: "'b backend \<Rightarrow> bool" where
  "reads_pure bk \<longleftrightarrow> (\<forall>buf off b. snd (bk_ReadAt bk buf off b) = b) \<and> (\<forall>b. snd (bk_Sync bk b) = b)"

lemma read_loop_pure: "reads_pure bk \<Longrightarrow> snd (snd (snd (read_loop bk ds offset w m b))) = b"
proof (induction ds arbitrary: offset w m b)
  case (Cons d ds)
  have "snd (bk_ReadAt bk (bytes m (vd_buf d)) offset b) = b" using Cons.prems by (simp add: reads_pure_def)
  with Cons show ?case by (auto simp: Let_def split: prod.splits)
qed simp

lemma serve_read_only: "reads_pure bk \<Longrightarrow> snd (snd (snd (serve bk True t offset data m b))) = b"
  using read_loop_pure [of bk data offset 0 m b]
  by (auto simp: serve_def Let_def reads_pure_def split: list.split prod.split) (metis snd_conv)+

lemma service_read_only:
  assumes "reads_pure bk" "service bk True q m b = (r, q', m', b')"
  shows "b' = b"
  using assms(2)
proof (cases rule: service_cases)
  case (handled chain h m1)
  from handled(4) have "b' = b \<or> (\<exists>t off data. b' = snd (snd (snd (serve bk True t off data m b))))"
    unfolding handleRequest_def Let_def by (auto simp: case_prod_unfold split: if_splits)
  with serve_read_only [OF assms(1)] show ?thesis by auto
qed simp

section \<open>The used ring\<close>

text \<open>
  The used ring as the driver reads it: its index and the descriptor recorded at a position. The
  entry of the avail ring is the head the driver published under an index.
\<close>

definition used_idx :: "virtQueue \<Rightarrow> mem \<Rightarrow> 16 word" where
  "used_idx q m = leUint16 (bytes m (unat (vq_usedAddr q + 2), 2))"

definition used_id :: "virtQueue \<Rightarrow> mem \<Rightarrow> 16 word \<Rightarrow> 32 word" where
  "used_id q m u = leUint32 (bytes m (unat (used_elem q u), 4))"

definition avail_head :: "virtQueue \<Rightarrow> mem \<Rightarrow> 16 word \<Rightarrow> 16 word" where
  "avail_head q m k = leUint16 (bytes m (unat (avail_slot (q\<lparr>vq_lastAvail := k\<rparr>)), 2))"

definition avail_bytes :: "virtQueue \<Rightarrow> nat set" where
  "avail_bytes q = avail_idx_bytes q \<union> (\<Union>k. slice_bytes (unat (avail_slot (q\<lparr>vq_lastAvail := k\<rparr>)), 2))"

text \<open>
  A queue laid out as the specification asks: its size divides \<open>2 ^ 16\<close>, its used ring does not wrap
  around the address space, and the avail ring and the descriptor table, the used ring, and the
  writable buffers are apart.
\<close>

definition laid_out :: "virtQueue \<Rightarrow> mem \<Rightarrow> bool" where
  "laid_out q m \<longleftrightarrow> unat (vq_size q) dvd 2 ^ 16 \<and> unat (vq_usedAddr q) + 4 + 8 * unat (vq_size q) < 2 ^ 64
     \<and> (avail_bytes q \<union> desc_bytes q) \<inter> (used_bytes q \<union> writable_bytes q m) = {}
     \<and> used_bytes q \<inter> writable_bytes q m = {}"

lemma leUint32_put [simp]: "leUint32 (putLeUint32 v) = v"
proof -
  have "unat v < 4294967296" using unsigned_less [of v, where 'a = nat] by simp
  then show ?thesis by (simp add: leUint32_def putLeUint32_def le_value_bytes)
qed

lemma bytes_store_same: "a + length bs \<le> length m \<Longrightarrow> bytes (store m a bs) (a, length bs) = bs"
  by (simp add: bytes_def store_def)

lemma bytes_store_other:
  "a + length bs \<le> length m \<Longrightarrow> slice_bytes r \<inter> {a..<a + length bs} = {} \<Longrightarrow> bytes (store m a bs) r = bytes m r"
  by (rule keeps_bytes [OF keeps_store [OF _ order_refl]]) auto

lemma unat_ucast_up: "unat (ucast (x :: 16 word) :: 64 word) = unat x"
proof -
  have "unat x < 2 ^ 16" using unsigned_less [of x, where 'a = nat] by simp
  then show ?thesis by (simp add: unsigned_ucast_eq take_bit_nat_eq_self)
qed

lemma unat_used_elem:
  assumes "unat (vq_usedAddr q) + 4 + 8 * unat (vq_size q) < 2 ^ 64" and "vq_size q \<noteq> 0"
  shows "unat (used_elem q u) = unat (vq_usedAddr q) + 4 + 8 * (unat u mod unat (vq_size q))"
proof -
  have p: "unat u mod unat (vq_size q) < unat (vq_size q)"
    using assms(2) by (intro mod_less_divisor) (simp add: unat_gt_0)
  have c: "unat (ucast (u mod vq_size q) :: 64 word) = unat u mod unat (vq_size q)"
    by (simp add: unat_ucast_up unat_mod)
  have "used_elem q u = of_nat (unat (vq_usedAddr q) + 4 + 8 * (unat u mod unat (vq_size q)))"
    unfolding used_elem_def c [symmetric] by simp
  then have "unat (used_elem q u) = (unat (vq_usedAddr q) + 4 + 8 * (unat u mod unat (vq_size q))) mod 2 ^ 64"
    by (simp only: unat_of_nat) (simp add: take_bit_eq_mod)
  then show ?thesis using p assms(1) by simp
qed

lemma slots_apart:
  "slice_bytes (a + 8 * x, 4) \<inter> {a + 8 * y + 4..<a + 8 * y + 4 + 4} = {}"
  "x \<noteq> y \<Longrightarrow> slice_bytes (a + 8 * x, 4) \<inter> {a + 8 * y..<a + 8 * y + 4} = {}"
proof -
  have "False" if "a + 8 * x \<le> k" "k < a + 8 * x + 4" "a + 8 * y + 4 \<le> k" "k < a + 8 * y + 8" for k using that by presburger
  then show "slice_bytes (a + 8 * x, 4) \<inter> {a + 8 * y + 4..<a + 8 * y + 4 + 4} = {}"
    by (fastforce simp: slice_bytes_def disjoint_iff)
  have "x = y" if "a + 8 * x \<le> k" "k < a + 8 * x + 4" "a + 8 * y \<le> k" "k < a + 8 * y + 4" for k using that by presburger
  then show "x \<noteq> y \<Longrightarrow> slice_bytes (a + 8 * x, 4) \<inter> {a + 8 * y..<a + 8 * y + 4} = {}"
    by (fastforce simp: slice_bytes_def disjoint_iff)
qed

lemma pushUsed_effect:
  assumes p: "pushUsed q m i w = (None, m')" and lay: "unat (vq_usedAddr q) + 4 + 8 * unat (vq_size q) < 2 ^ 64"
  shows "used_idx q m' = used_idx q m + 1 \<and> used_id q m' (used_idx q m) = i
     \<and> (\<forall>u. unat u mod unat (vq_size q) \<noteq> unat (used_idx q m) mod unat (vq_size q) \<longrightarrow> used_id q m' u = used_id q m u)"
proof -
  let ?a = "unat (vq_usedAddr q)" and ?n = "unat (vq_size q)"
  have size0: "vq_size q \<noteq> 0" using p by (auto simp: pushUsed_def)
  obtain field elem where f: "guestRange m (vq_usedAddr q + 2) 2 = Inr field"
    and el: "guestRange m (used_elem q (leUint16 (bytes m field))) virtqUsedElemSize = Inr elem"
    and m': "m' = store (store (store m (fst elem) (putLeUint32 i)) (fst elem + 4) (putLeUint32 w)) (fst field)
      (putLeUint16 (leUint16 (bytes m field) + 1))"
    using p by (auto simp: pushUsed_def Let_def split: if_splits sum.splits)
  have "vq_usedAddr q + 2 = of_nat (?a + 2)" by simp
  then have "unat (vq_usedAddr q + 2) = (?a + 2) mod 2 ^ 64"
    by (simp only: unat_of_nat) (simp add: take_bit_eq_mod)
  then have two: "unat (vq_usedAddr q + 2) = ?a + 2" using lay by simp
  note elem_at = unat_used_elem [OF lay size0]
  have field: "field = (?a + 2, 2)" "?a + 4 \<le> length m"
    using guestRange_ok [OF f] two by (cases field; auto)+
  define u0 where "u0 = used_idx q m"
  have u0: "leUint16 (bytes m field) = u0" by (simp add: u0_def used_idx_def two field)
  let ?e = "?a + 4 + 8 * (unat u0 mod ?n)"
  have elem: "fst elem = ?e" "?e + 8 \<le> length m"
    using guestRange_ok [OF el] by (auto simp: u0 elem_at)
  let ?m1 = "store m ?e (putLeUint32 i)" and ?m2 = "store (store m ?e (putLeUint32 i)) (?e + 4) (putLeUint32 w)"
  have m'2: "m' = store ?m2 (?a + 2) (putLeUint16 (u0 + 1))" using m' unfolding u0 elem(1) by (simp add: field(1))
  have len: "length ?m1 = length m" "length ?m2 = length m" using elem(2) by simp_all
  have "used_idx q m' = u0 + 1"
    unfolding used_idx_def two m'2 using field(2) len bytes_store_same [of "?a + 2" "putLeUint16 (u0 + 1)" ?m2] by simp
  moreover have id: "used_id q m' u = leUint32 (bytes ?m1 (?a + 4 + 8 * (unat u mod ?n), 4))" for u
  proof -
    let ?r = "(?a + 4 + 8 * (unat u mod ?n), 4)"
    have "slice_bytes ?r \<inter> {?a + 2..<?a + 2 + 2} = {}" by (auto simp: slice_bytes_def)
    then have "bytes m' ?r = bytes ?m2 ?r"
      unfolding m'2 using field(2) len by (intro bytes_store_other) auto
    moreover have "slice_bytes ?r \<inter> {?e + 4..<?e + 4 + 4} = {}"
      using slots_apart(1) [of "?a + 4"] by simp
    then have "bytes ?m2 ?r = bytes ?m1 ?r" using elem(2) len by (intro bytes_store_other) auto
    ultimately show ?thesis by (simp add: used_id_def elem_at)
  qed
  have "used_id q m' u0 = i"
    unfolding id using elem(2) bytes_store_same [of ?e "putLeUint32 i" m] by simp
  moreover have "used_id q m' u = used_id q m u" if "unat u mod ?n \<noteq> unat u0 mod ?n" for u
  proof -
    have "slice_bytes (?a + 4 + 8 * (unat u mod ?n), 4) \<inter> {?e..<?e + 4} = {}"
      using slots_apart(2) [OF that, of "?a + 4"] by simp
    then have "bytes ?m1 (?a + 4 + 8 * (unat u mod ?n), 4) = bytes m (?a + 4 + 8 * (unat u mod ?n), 4)"
      using elem(2) by (intro bytes_store_other) auto
    then show ?thesis unfolding id by (simp add: used_id_def elem_at)
  qed
  ultimately show ?thesis by (simp add: u0_def)
qed

lemma used_of_keeps:
  assumes "keeps S m m'" and "S \<inter> used_bytes q = {}"
  shows "used_idx q m' = used_idx q m" "used_id q m' u = used_id q m u"
proof -
  have "slice_bytes (unat (used_elem q u), 4) \<subseteq> slice_bytes (unat (used_elem q u), 8)" by (auto simp: slice_bytes_def)
  then have "slice_bytes (unat (vq_usedAddr q + 2), 2) \<subseteq> used_bytes q" "slice_bytes (unat (used_elem q u), 4) \<subseteq> used_bytes q"
    unfolding used_bytes_def by blast+
  then have "slice_bytes (unat (vq_usedAddr q + 2), 2) \<inter> S = {}" "slice_bytes (unat (used_elem q u), 4) \<inter> S = {}"
    using assms(2) by blast+
  then show "used_idx q m' = used_idx q m" "used_id q m' u = used_id q m u"
    unfolding used_idx_def used_id_def by (simp_all add: keeps_bytes [OF assms(1)])
qed

lemma avail_head_of_keeps:
  assumes "keeps S m m'" and "S \<inter> avail_bytes q = {}"
  shows "avail_head q m' k = avail_head q m k"
proof -
  have "slice_bytes (unat (avail_slot (q\<lparr>vq_lastAvail := k\<rparr>)), 2) \<inter> S = {}"
    using assms(2) by (auto simp: avail_bytes_def)
  then show ?thesis unfolding avail_head_def by (simp add: keeps_bytes [OF assms(1)])
qed

lemma lastAvail_irrelevant_rings [simp]:
  "used_idx (q\<lparr>vq_lastAvail := x\<rparr>) = used_idx q" "used_id (q\<lparr>vq_lastAvail := x\<rparr>) = used_id q"
  "avail_head (q\<lparr>vq_lastAvail := x\<rparr>) = avail_head q" "avail_bytes (q\<lparr>vq_lastAvail := x\<rparr>) = avail_bytes q"
  "laid_out (q\<lparr>vq_lastAvail := x\<rparr>) m = laid_out q m"
  by (simp_all add: fun_eq_iff used_idx_def used_id_def used_elem_def avail_head_def avail_slot_def avail_bytes_def laid_out_def)

lemma pushUsed_lastAvail: "pushUsed (q\<lparr>vq_lastAvail := x\<rparr>) m i w = pushUsed q m i w"
proof -
  have f: "vq_size (q\<lparr>vq_lastAvail := x\<rparr>) = vq_size q" "vq_usedAddr (q\<lparr>vq_lastAvail := x\<rparr>) = vq_usedAddr q"
    "used_elem (q\<lparr>vq_lastAvail := x\<rparr>) = used_elem q" by (simp_all add: used_elem_def fun_eq_iff)
  show ?thesis unfolding pushUsed_def f ..
qed

text \<open>A round that succeeds completes exactly the next published request.\<close>

lemma service_completes:
  assumes ok: "backend_ok bk" and lay: "laid_out q m" and s: "service bk ro q m b = (Inr True, q', m', b')"
  shows "used_idx q m' = used_idx q m + 1 \<and> used_id q m' (used_idx q m) = ucast (avail_head q m (vq_lastAvail q))
    \<and> (\<forall>u. unat u mod unat (vq_size q) \<noteq> unat (used_idx q m) mod unat (vq_size q) \<longrightarrow> used_id q m' u = used_id q m u)"
proof -
  from s obtain head chain m1 written where pop: "popAvail q m = (Inr (Some head), q')"
    and chain: "readChain q' m head = Inr chain" and h: "handleRequest bk ro chain m b = (Inr written, m1, b')"
    and push: "pushUsed q' m1 (ucast head) written = (None, m')"
    by (auto simp: service_def split: prod.splits sum.splits option.splits)
  have q': "q' = q\<lparr>vq_lastAvail := vq_lastAvail q + 1\<rparr>" using popAvail_queue [OF pop] by simp
  have head: "head = avail_head q m (vq_lastAvail q)"
    using pop guestRange_ok [of m "avail_slot q" 2]
    by (auto simp: popAvail_def avail_head_def split: sum.splits if_splits)
  have k: "keeps (chain_bytes chain) m m1" "chain_bytes chain \<inter> used_bytes q = {}"
    using handleRequest_keeps [OF ok _ h] readChain_writable [OF chain] lay by (auto simp: q' laid_out_def)
  have "pushUsed q m1 (ucast head) written = (None, m')"
    using push by (simp only: q' pushUsed_lastAvail)
  from pushUsed_effect [OF this] lay used_of_keeps [OF k] head show ?thesis by (simp add: laid_out_def)
qed

section \<open>Draining the queue\<close>

lemma keeps_writable:
  assumes k: "keeps S m m'" and s: "S \<inter> desc_bytes q = {}"
  shows "writable_bytes q m' = writable_bytes q m"
proof -
  note len = guestRange_length [OF keeps_length [OF k]]
  have "bytes m' r = bytes m r" if "i < vq_size q" "guestRange m (desc_slot q i) virtqDescSize = Inr r" for i r
  proof (rule keeps_bytes [OF k])
    have "slice_bytes r \<subseteq> desc_bytes q" using that guestRange_ok [OF that(2)] by (cases r) (auto simp: desc_bytes_def slice_bytes_def)
    with s show "slice_bytes r \<inter> S = {}" by blast
  qed
  then show ?thesis unfolding writable_bytes_def entry_buffer_def len by (metis (no_types, opaque_lifting))
qed

lemma keeps_availIdx:
  assumes k: "keeps S m m'" and s: "S \<inter> avail_idx_bytes q = {}"
  shows "availIdx q m' = availIdx q m"
proof -
  have "bytes m' r = bytes m r" if "guestRange m (vq_availAddr q + 2) 2 = Inr r" for r
  proof (rule keeps_bytes [OF k])
    have "slice_bytes r \<subseteq> avail_idx_bytes q" using guestRange_ok [OF that] by (auto simp: avail_idx_bytes_def slice_bytes_def)
    with s show "slice_bytes r \<inter> S = {}" by blast
  qed
  then show ?thesis by (simp add: availIdx_def guestRange_length [OF keeps_length [OF k]] split: sum.split)
qed

lemma unat_diff_Suc: "(i :: 16 word) \<noteq> l \<Longrightarrow> Suc (unat (i - (l + 1))) = unat (i - l)"
proof -
  assume "i \<noteq> l"
  then have "i - l \<noteq> 0" by simp
  then have "unat ((i - l) - 1) = unat (i - l) - 1" "unat (i - l) \<noteq> 0" by (simp_all add: unat_minus_one unat_eq_0)
  then have "Suc (unat ((i - l) - 1)) = unat (i - l)" by linarith
  then show ?thesis by (simp add: algebra_simps)
qed

lemma ring_position:
  assumes "n dvd 2 ^ 16" shows "unat (u + of_nat k :: 16 word) mod n = (unat u + k) mod n"
proof -
  have "unat (u + of_nat k :: 16 word) = (unat u + k) mod 2 ^ 16"
    by (simp add: unat_word_ariths(1) unat_of_nat take_bit_eq_mod mod_simps)
  then show ?thesis using assms by (simp add: mod_mod_cancel)
qed

lemma ring_positions_differ:
  assumes "n dvd 2 ^ 16" and "0 < k" and "k < n"
  shows "unat u mod n \<noteq> unat (u + of_nat k :: 16 word) mod n"
proof
  assume "unat u mod n = unat (u + of_nat k) mod n"
  then have "(unat u + k) mod n = unat u mod n" using ring_position [OF assms(1)] by simp
  then have "n dvd k" using mod_eq_dvd_iff_nat [of "unat u" "unat u + k" n] by simp
  with assms(2,3) show False by (simp add: nat_dvd_not_less)
qed

text \<open>
  \<open>completed q m m' n\<close>: between \<open>m\<close> and \<open>m'\<close> the used ring has gained the next \<open>n\<close> published heads, in
  order, as far as the ring can hold them, and keeps its other positions.
\<close>

definition completed :: "virtQueue \<Rightarrow> mem \<Rightarrow> mem \<Rightarrow> nat \<Rightarrow> bool" where
  "completed q m m' n \<longleftrightarrow> used_idx q m' = used_idx q m + of_nat n
     \<and> (n \<le> unat (vq_size q) \<longrightarrow> (\<forall>k<n. used_id q m' (used_idx q m + of_nat k) = ucast (avail_head q m (vq_lastAvail q + of_nat k))))
     \<and> (\<forall>u. (\<forall>k<n. unat u mod unat (vq_size q) \<noteq> unat (used_idx q m + of_nat k) mod unat (vq_size q)) \<longrightarrow>
          used_id q m' u = used_id q m u)"

lemma completed_Suc:
  assumes lay: "laid_out q m" and h: "\<And>k. avail_head q m1 k = avail_head q m k"
    and first: "used_idx q m1 = used_idx q m + 1" "used_id q m1 (used_idx q m) = ucast (avail_head q m (vq_lastAvail q))"
      "\<And>u. unat u mod unat (vq_size q) \<noteq> unat (used_idx q m) mod unat (vq_size q) \<Longrightarrow> used_id q m1 u = used_id q m u"
    and rest: "completed (q\<lparr>vq_lastAvail := vq_lastAvail q + 1\<rparr>) m1 m' n"
  shows "completed q m m' (Suc n)"
  unfolding completed_def
proof (intro conjI impI allI)
  let ?u = "used_idx q m"
  show "used_idx q m' = ?u + of_nat (Suc n)" using rest first(1) by (simp add: completed_def algebra_simps)
  have other: "used_id q m' u = used_id q m1 u"
    if "\<forall>k<n. unat u mod unat (vq_size q) \<noteq> unat (?u + of_nat (Suc k)) mod unat (vq_size q)" for u
    using rest that unfolding completed_def by (simp add: first(1) add.assoc)
  show "used_id q m' u = used_id q m u"
    if "\<forall>k<Suc n. unat u mod unat (vq_size q) \<noteq> unat (?u + of_nat k) mod unat (vq_size q)" for u
    using other [of u] first(3) [of u] that [rule_format, of 0] that [rule_format, of "Suc _"] by simp
  fix k
  assume fits: "Suc n \<le> unat (vq_size q)" and k: "k < Suc n"
  show "used_id q m' (?u + of_nat k) = ucast (avail_head q m (vq_lastAvail q + of_nat k))"
  proof (cases k)
    case 0
    have d: "unat (vq_size q) dvd 2 ^ 16" using lay by (simp add: laid_out_def)
    have "\<forall>k<n. unat ?u mod unat (vq_size q) \<noteq> unat (?u + of_nat (Suc k)) mod unat (vq_size q)"
      using ring_positions_differ [OF d, of "Suc _"] fits by auto
    from other [OF this] first(2) 0 show ?thesis by simp
  next
    case (Suc j)
    then show ?thesis
      using rest k fits h unfolding completed_def by (simp add: first(1) add.assoc)
  qed
qed

lemma separate_keeps:
  assumes k: "keeps (used_bytes q \<union> writable_bytes q m) m m'" and lay: "laid_out q m"
  shows "laid_out q m' \<and> availIdx q m' = availIdx q m \<and> avail_head q m' = avail_head q m"
proof -
  let ?S = "used_bytes q \<union> writable_bytes q m"
  have S: "?S \<inter> desc_bytes q = {}" "?S \<inter> avail_idx_bytes q = {}" "?S \<inter> avail_bytes q = {}"
    using lay by (auto simp: laid_out_def avail_bytes_def)
  show ?thesis
    using lay keeps_writable [OF k S(1)] keeps_availIdx [OF k S(2)] avail_head_of_keeps [OF k S(3)]
    by (simp add: laid_out_def fun_eq_iff)
qed

lemma processQueue_drains:
  assumes ok: "backend_ok bk"
  shows "laid_out q m \<Longrightarrow> availIdx q m = Inr idx \<Longrightarrow>
    \<exists>err sig q' m' b'. processQueue bk ro q m b p = Some (err, sig, q', m', b') \<and> keeps (used_bytes q \<union> writable_bytes q m) m m'
      \<and> (err = None \<longrightarrow> vq_lastAvail q' = idx \<and> completed q m m' (unat (idx - vq_lastAvail q))
           \<and> sig = (p \<or> idx \<noteq> vq_lastAvail q))"
proof (induction "unat (idx - vq_lastAvail q)" arbitrary: q m b p)
  case 0
  then have "idx = vq_lastAvail q" by (simp add: unat_eq_0)
  then show ?case using 0 by (subst processQueue.simps) (simp add: pending_def completed_def)
next
  case (Suc n)
  let ?S = "used_bytes q \<union> writable_bytes q m"
  have ne: "idx \<noteq> vq_lastAvail q" using Suc.hyps(2) by auto
  obtain r q1 m1 b1 where s: "service bk ro q m b = (r, q1, m1, b1)" by (metis surj_pair)
  have k: "keeps ?S m m1" by (rule service_keeps [OF ok s])
  have step: "processQueue bk ro q m b p = (case r of Inl e \<Rightarrow> Some (Some e, False, q1, m1, b1)
      | Inr go \<Rightarrow> if go then processQueue bk ro q1 m1 b1 True else Some (None, p, q1, m1, b1))"
    using Suc.prems(2) ne s by (subst processQueue.simps) (simp add: pending_def)
  have more: "r \<noteq> Inr False" using s Suc.prems(2) ne
    by (auto simp: service_def popAvail_def split: sum.splits option.splits if_splits prod.splits)
  show ?case
  proof (cases "r = Inr True")
    case True
    have q1: "q1 = q\<lparr>vq_lastAvail := vq_lastAvail q + 1\<rparr>" using s by (cases rule: service_cases) (use True in auto)
    note sep = separate_keeps [OF k Suc.prems(1)]
    have n: "n = unat (idx - vq_lastAvail q1)" using unat_diff_Suc [OF ne] Suc.hyps(2) by (simp add: q1)
    obtain err sig q' m' b' where IH: "processQueue bk ro q1 m1 b1 True = Some (err, sig, q', m', b')"
        "keeps (used_bytes q1 \<union> writable_bytes q1 m1) m1 m'"
        "err = None \<longrightarrow> vq_lastAvail q' = idx \<and> completed q1 m1 m' n \<and> sig"
      using Suc.hyps(1) [OF n, of m1 b1 True] sep Suc.prems n by (auto simp: q1)
    have w: "writable_bytes q m1 = writable_bytes q m"
      using keeps_writable [OF k] Suc.prems(1) by (auto simp: laid_out_def)
    have "completed q m m' (Suc n)" if "completed q1 m1 m' n"
      using service_completes [OF ok Suc.prems(1) s [unfolded True]] that sep
      by (intro completed_Suc [OF Suc.prems(1), of m1]) (auto simp: q1)
    then show ?thesis using IH step True keeps_trans [OF k] ne Suc.hyps(2) by (simp add: q1 w)
  next
    case False
    with step more k show ?thesis by (auto split: sum.splits)
  qed
qed

section \<open>Properties\<close>

text \<open>A guest with a queue of two descriptors, one request of an unknown type with its status byte at 96.\<close>

definition demo_memory :: mem where
  "demo_memory =
     [80, 0, 0, 0, 0, 0, 0, 0, 16, 0, 0, 0, 1, 0, 1, 0, 96, 0, 0, 0, 0, 0, 0, 0, 1, 0, 0, 0, 2, 0, 0, 0,
      0, 0, 1, 0, 0, 0, 0, 0, 0, 0, 0, 0, 0, 0, 0, 0, 0, 0, 0, 0, 0, 0, 0, 0, 0, 0, 0, 0, 0, 0, 0, 0,
      0, 0, 0, 0, 0, 0, 0, 0, 0, 0, 0, 0, 0, 0, 0, 0, 99, 0, 0, 0, 0, 0, 0, 0, 0, 0, 0, 0, 0, 0, 0, 0, 0]"

definition demo_queue :: virtQueue where
  "demo_queue = \<lparr>vq_size = 2, vq_ready = True, vq_descAddr = 0, vq_availAddr = 32, vq_usedAddr = 48, vq_lastAvail = 0\<rparr>"

definition null_backend :: "unit backend" where
  "null_backend = \<lparr>bk_ReadAt = (\<lambda>buf off b. ((buf, length buf, None), b)), bk_WriteAt = (\<lambda>buf off b. ((length buf, None), b)),
     bk_Sync = (\<lambda>b. (None, b))\<rparr>"

lemma null_backend_ok: "backend_ok null_backend" "reads_pure null_backend"
  by (simp_all add: backend_ok_def reads_pure_def null_backend_def)

lemmas demo_defs = demo_memory_def demo_queue_def guestRange_def bytes_def le_value_def leUint16_def leUint32_def leUint64_def
  availIdx_def desc_slot_def entry_buffer_def entry_writable_def

lemma demo_table:
  "guestRange demo_memory (desc_slot demo_queue 0) virtqDescSize = Inr (0, 16)" "\<not> entry_writable (bytes demo_memory (0, 16))"
  "guestRange demo_memory (desc_slot demo_queue 1) virtqDescSize = Inr (16, 16)" "entry_writable (bytes demo_memory (16, 16))"
  "entry_buffer demo_memory (bytes demo_memory (0, 16)) = Inr (80, 16)" "entry_buffer demo_memory (bytes demo_memory (16, 16)) = Inr (96, 1)"
  by (simp_all add: demo_defs)

lemma below_two: "(i :: 16 word) < 2 \<Longrightarrow> i = 0 \<or> i = 1"
proof -
  assume "i < 2"
  then have "unat i < 2" by (simp add: word_less_nat_alt)
  then have "unat i = unat (0 :: 16 word) \<or> unat i = unat (1 :: 16 word)" by auto
  then show ?thesis by (metis unsigned_word_eqI)
qed

lemma demo_elem: "unat (used_elem demo_queue i) \<in> {52, 60}"
proof -
  have "i mod 2 = 0 \<or> i mod 2 = 1" by (rule below_two) (simp add: word_mod_less_divisor)
  then show ?thesis by (elim disjE) (simp_all only: used_elem_def demo_queue_def virtQueue.simps, simp_all)
qed

lemma demo_used: "used_bytes demo_queue \<subseteq> {48..<68}"
proof -
  have "slice_bytes (unat (used_elem demo_queue i), 8) \<subseteq> {48..<68}" for i
    using demo_elem [of i] by (elim insertE) (simp_all add: slice_bytes_def)
  moreover have "slice_bytes (unat (vq_usedAddr demo_queue + 2), 2) \<subseteq> {48..<68}" by (simp add: slice_bytes_def demo_queue_def)
  ultimately show ?thesis unfolding used_bytes_def by blast
qed

abbreviation demo_next :: virtQueue where
  "demo_next \<equiv> demo_queue\<lparr>vq_lastAvail := 1\<rparr>"

lemma demo_pop: "popAvail demo_queue demo_memory = (Inr (Some 0), demo_next)"
  by (simp add: popAvail_def avail_slot_def demo_defs)

lemma demo_chain:
  "readChain demo_next demo_memory 0 =
     Inr [\<lparr>vd_buf = (80, 16), vd_deviceWrite = False\<rparr>, \<lparr>vd_buf = (96, 1), vd_deviceWrite = True\<rparr>]"
proof -
  have "virtqMaxChainLength = Suc (Suc 1022)" by (simp add: virtqMaxChainLength_def)
  moreover have "\<not> (2 :: 16 word) \<le> 1" by (simp add: word_le_nat_alt)
  ultimately show ?thesis unfolding readChain_def \<open>virtqMaxChainLength = Suc (Suc 1022)\<close> chain_loop.simps by (simp add: demo_defs)
qed

lemma demo_handle:
  "handleRequest null_backend True [\<lparr>vd_buf = (80, 16), vd_deviceWrite = False\<rparr>, \<lparr>vd_buf = (96, 1), vd_deviceWrite = True\<rparr>] demo_memory () =
     (Inr 1, store demo_memory 96 [virtioBlkStatusUnsupp], ())"
  by (simp add: handleRequest_def serve_def demo_defs)

lemma demo_service:
  "\<exists>q m. service null_backend True demo_queue demo_memory () = (Inr True, q, m, ()) \<and> m ! 96 = virtioBlkStatusUnsupp"
proof -
  let ?m = "store demo_memory 96 [virtioBlkStatusUnsupp]"
  obtain e m where p: "pushUsed demo_next ?m 0 1 = (e, m)" by fastforce
  have len: "length ?m = 97" by (simp add: store_def demo_memory_def)
  have el: "\<exists>r. guestRange ?m (used_elem demo_next i) virtqUsedElemSize = Inr r" for i
    using demo_elem [of i] by (auto simp: guestRange_def len used_elem_def)
  have "guestRange ?m (vq_usedAddr demo_next + 2) 2 = Inr (50, 2)" by (simp add: guestRange_def len demo_queue_def)
  moreover have "vq_size demo_next \<noteq> 0" by (simp add: demo_queue_def)
  ultimately have "e = None" using p el [of "leUint16 (bytes ?m (50, 2))"] by (auto simp: pushUsed_def Let_def)
  have "96 \<notin> used_bytes demo_queue" using demo_used by (rule contra_subsetD) simp
  then have "m ! 96 = ?m ! 96" using pushUsed_keeps [OF p] unfolding keeps_def lastAvail_irrelevant len by simp
  also have "\<dots> = virtioBlkStatusUnsupp" by (simp add: store_nth demo_memory_def)
  finally show ?thesis using \<open>e = None\<close> p by (simp add: service_def demo_pop demo_chain demo_handle del: One_nat_def)
qed

text \<open>
  C25: Whatever a guest writes into its memory and whatever addresses it gives the queue, handling
  one request keeps the size of guest memory and changes no byte of it except in the used
  ring and in buffers that the descriptor table marks as writable for the device; and a
  read-only device leaves the data of its backend alone.
\<close>

theorem blk_request_confined:
  assumes "backend_ok bk" "service bk readOnly q m b = (r, q', m', b')"
  shows "length m' = length m \<and> (\<forall>k<length m. m' ! k \<noteq> m ! k \<longrightarrow> k \<in> used_bytes q \<or> k \<in> writable_bytes q m)
     \<and> (readOnly \<and> reads_pure bk \<longrightarrow> b' = b)"
proof -
  have "keeps (used_bytes q \<union> writable_bytes q m) m m'" by (rule service_keeps [OF assms])
  then show ?thesis using service_read_only assms(2) by (cases readOnly) (auto simp: keeps_def)
qed

theorem blk_request_confined_witness:
  "\<exists>r q' m' b'. service null_backend True demo_queue demo_memory () = (r, q', m', b') \<and> r = Inr True \<and> m' ! 96 \<noteq> demo_memory ! 96
     \<and> (\<forall>k<length demo_memory. m' ! k \<noteq> demo_memory ! k \<longrightarrow> k \<in> used_bytes demo_queue \<or> k \<in> writable_bytes demo_queue demo_memory)"
proof -
  obtain r q' m' b' where s: "service null_backend True demo_queue demo_memory () = (r, q', m', b')" by (metis surj_pair)
  have "demo_memory ! 96 = 0" by (simp add: demo_memory_def)
  with blk_request_confined [OF null_backend_ok(1) s] demo_service s show ?thesis by auto
qed

lemma demo_desc: "desc_bytes demo_queue \<subseteq> {0..<32}"
  using below_two by (fastforce simp: desc_bytes_def desc_slot_def slice_bytes_def demo_queue_def)

lemma demo_writable: "writable_bytes demo_queue demo_memory \<subseteq> {96}"
proof
  fix k
  assume "k \<in> writable_bytes demo_queue demo_memory"
  then obtain i r buf where i: "i < vq_size demo_queue" "guestRange demo_memory (desc_slot demo_queue i) virtqDescSize = Inr r"
    "entry_writable (bytes demo_memory r)" "entry_buffer demo_memory (bytes demo_memory r) = Inr buf" "k \<in> slice_bytes buf"
    unfolding writable_bytes_def by blast
  then have "i = 0 \<or> i = 1" by (intro below_two) (simp add: demo_queue_def)
  with i demo_table show "k \<in> {96}" by (auto simp: slice_bytes_def)
qed

lemma demo_avail: "avail_bytes demo_queue \<subseteq> {34..<40}"
proof -
  have "slice_bytes (unat (avail_slot (demo_queue\<lparr>vq_lastAvail := k\<rparr>)), 2) \<subseteq> {34..<40}" for k
  proof -
    have "k mod 2 = 0 \<or> k mod 2 = 1" by (rule below_two) (simp add: word_mod_less_divisor)
    then show ?thesis by (elim disjE) (simp_all add: avail_slot_def demo_queue_def slice_bytes_def)
  qed
  moreover have "avail_idx_bytes demo_queue \<subseteq> {34..<40}" by (simp add: avail_idx_bytes_def slice_bytes_def demo_queue_def)
  ultimately show ?thesis unfolding avail_bytes_def by blast
qed

lemma demo_laid_out: "laid_out demo_queue demo_memory"
proof -
  have "unat (vq_size demo_queue) dvd 2 ^ 16" "unat (vq_usedAddr demo_queue) + 4 + 8 * unat (vq_size demo_queue) < 2 ^ 64"
    by (simp_all add: demo_queue_def)
  moreover have "(avail_bytes demo_queue \<union> desc_bytes demo_queue) \<inter> (used_bytes demo_queue \<union> writable_bytes demo_queue demo_memory) = {}"
    "used_bytes demo_queue \<inter> writable_bytes demo_queue demo_memory = {}"
    using demo_avail demo_desc demo_used demo_writable by fastforce+
  ultimately show ?thesis by (simp add: laid_out_def)
qed

text \<open>
  C26: For a queue laid out as the specification asks, draining it always ends. It changes only the
  used ring and the writable buffers, and unless it returns an error the device cursor stands at the
  index the driver published, the used index has advanced by exactly the number of requests
  that were waiting, the used ring holds their heads in the order in which they were published (as
  long as it has room for them all), and the driver is signalled exactly when there was one.
\<close>

theorem blk_queue_drained:
  assumes "backend_ok bk" "laid_out q m" "availIdx q m = Inr idx"
  shows "\<exists>err sig q' m' b'. processQueue bk readOnly q m b False = Some (err, sig, q', m', b')
    \<and> keeps (used_bytes q \<union> writable_bytes q m) m m'
    \<and> (err = None \<longrightarrow> vq_lastAvail q' = idx \<and> used_idx q m' = used_idx q m + (idx - vq_lastAvail q)
        \<and> (idx - vq_lastAvail q \<le> vq_size q \<longrightarrow> (\<forall>k < unat (idx - vq_lastAvail q).
             used_id q m' (used_idx q m + of_nat k) = ucast (avail_head q m (vq_lastAvail q + of_nat k))))
        \<and> sig = (idx \<noteq> vq_lastAvail q))"
  using processQueue_drains [OF assms, of readOnly b False] by (auto simp: completed_def word_le_nat_alt)

lemma demo_drained:
  "\<exists>q' m' b'. processQueue null_backend True demo_queue demo_memory () False = Some (None, True, q', m', b')"
proof -
  obtain q m where s: "service null_backend True demo_queue demo_memory () = (Inr True, q, m, ())" using demo_service by blast
  have q: "q = demo_queue\<lparr>vq_lastAvail := vq_lastAvail demo_queue + 1\<rparr>" using s by (cases rule: service_cases) auto
  have idx: "availIdx demo_queue demo_memory = Inr 1" by (simp add: demo_defs)
  have "availIdx q m = Inr 1"
    using separate_keeps [OF service_keeps [OF null_backend_ok(1) s] demo_laid_out] idx by (simp add: q)
  then have "processQueue null_backend True q m () True = Some (None, True, q, m, ())"
    by (subst processQueue.simps) (simp add: pending_def q demo_queue_def)
  then show ?thesis using s idx by (subst processQueue.simps) (simp add: pending_def demo_queue_def)
qed

theorem blk_queue_drained_witness:
  "\<exists>q' m' b'. processQueue null_backend True demo_queue demo_memory () False = Some (None, True, q', m', b')
    \<and> vq_lastAvail q' = 1 \<and> used_idx demo_queue m' = 1 \<and> used_id demo_queue m' 0 = 0"
proof -
  have idx: "availIdx demo_queue demo_memory = Inr 1" by (simp add: demo_defs)
  have u: "used_idx demo_queue demo_memory = 0" "vq_lastAvail demo_queue = 0" "avail_head demo_queue demo_memory 0 = 0" "vq_size demo_queue = 2"
    by (simp_all add: used_idx_def avail_head_def avail_slot_def demo_defs)
  have "(1 :: 16 word) \<le> 2" by (simp add: word_le_nat_alt)
  with blk_queue_drained [OF null_backend_ok(1) demo_laid_out idx, of True "()"] demo_drained u show ?thesis by auto
qed

end
