(* ===== verification/Virtio_MMIO.thy ===== *)
theory Virtio_MMIO
  imports Virtio_Blk
begin

text \<open>
  The register file of a virtio device, \<^verbatim>\<open>internal/hypervisor/kvm/linux_virtio_mmio.go\<close>, and the block
  device that hangs on it, \<^verbatim>\<open>linux_virtio_blk.go\<close> and \<^verbatim>\<open>linux_virtio_options.go\<close>. The state of a machine with one such
  device is the device, the guest memory and the backend. An access gives the bytes read, an error
  or, when draining a queue does not end, no result.
\<close>

unbundle bit_operations_syntax

section \<open>The device\<close>

record virtioMMIODevice =
  md_name :: string
  md_base :: "64 word"
  md_irq :: "32 word"
  md_deviceID :: "32 word"
  md_features :: "64 word"
  md_driverFeaturesSel :: "32 word"
  md_driverFeatures :: "64 word"
  md_deviceFeaturesSel :: "32 word"
  md_status :: "32 word"
  md_queueSel :: "32 word"
  md_queues :: "virtQueue list"
  md_interruptStatus :: "32 word"
  md_configGeneration :: "32 word"
  md_configSpace :: "8 word list"

definition virtioMMIOMagicValue :: "32 word" where "virtioMMIOMagicValue = 0x74726976"
definition virtioMMIOVersion :: "32 word" where "virtioMMIOVersion = 2"
definition virtioMMIOVendorID :: "32 word" where "virtioMMIOVendorID = 0x53434f49"
definition virtioFeatureVersion1 :: "64 word" where "virtioFeatureVersion1 = push_bit 32 1"
definition virtioQueueSize :: "16 word" where "virtioQueueSize = 256"
definition virtioMMIOWindowSize :: "64 word" where "virtioMMIOWindowSize = 0x1000"
definition virtioMMIOBaseAddress :: "64 word" where "virtioMMIOBaseAddress = 0xd0000000"
abbreviation virtioStatusDriverOK :: "32 word" where "virtioStatusDriverOK \<equiv> 4"
abbreviation virtioInterruptUsedRing :: "32 word" where "virtioInterruptUsedRing \<equiv> 1"
abbreviation virtioRegConfigSpace :: "64 word" where "virtioRegConfigSpace \<equiv> 0x100"

definition fresh_queue :: virtQueue where
  "fresh_queue = \<lparr>vq_size = virtioQueueSize, vq_ready = False, vq_descAddr = 0, vq_availAddr = 0, vq_usedAddr = 0, vq_lastAvail = 0\<rparr>"

definition newVirtioMMIODevice ::
  "string \<Rightarrow> 32 word \<Rightarrow> 64 word \<Rightarrow> 32 word \<Rightarrow> nat \<Rightarrow> 64 word \<Rightarrow> 8 word list \<Rightarrow> virtioMMIODevice" where
  "newVirtioMMIODevice name deviceID base irq numQueues deviceFeatures configSpace =
     \<lparr>md_name = name, md_base = base, md_irq = irq, md_deviceID = deviceID,
      md_features = deviceFeatures OR virtioFeatureVersion1,
      md_driverFeaturesSel = 0, md_driverFeatures = 0, md_deviceFeaturesSel = 0, md_status = 0, md_queueSel = 0,
      md_queues = replicate numQueues fresh_queue, md_interruptStatus = 0, md_configGeneration = 0,
      md_configSpace = configSpace\<rparr>"

definition virtioMMIODeviceBaseAddress :: "nat \<Rightarrow> 64 word" where
  "virtioMMIODeviceBaseAddress index = virtioMMIOBaseAddress + of_nat index * virtioMMIOWindowSize"

definition inWindow :: "virtioMMIODevice \<Rightarrow> 64 word \<Rightarrow> bool" where
  "inWindow d addr \<longleftrightarrow> md_base d \<le> addr \<and> addr < md_base d + virtioMMIOWindowSize"

definition selectedQueue :: "virtioMMIODevice \<Rightarrow> virtQueue option" where
  "selectedQueue d = (if length (md_queues d) \<le> unat (md_queueSel d) then None else Some (md_queues d ! unat (md_queueSel d)))"

text \<open>The writes through the pointer \<^verbatim>\<open>selectedQueue\<close> returns.\<close>

definition update_selected :: "(virtQueue \<Rightarrow> virtQueue) \<Rightarrow> virtioMMIODevice \<Rightarrow> virtioMMIODevice" where
  "update_selected g d =
     (case selectedQueue d of None \<Rightarrow> d | Some q \<Rightarrow> d\<lparr>md_queues := (md_queues d)[unat (md_queueSel d) := g q]\<rparr>)"

definition reset :: "virtioMMIODevice \<Rightarrow> virtioMMIODevice" where
  "reset d = d\<lparr>md_status := 0, md_driverFeatures := 0, md_driverFeaturesSel := 0, md_deviceFeaturesSel := 0, md_queueSel := 0,
     md_interruptStatus := 0, md_queues := map (\<lambda>_. fresh_queue) (md_queues d)\<rparr>"

definition queueReadyForIO :: "virtioMMIODevice \<Rightarrow> 32 word \<Rightarrow> virtQueue option" where
  "queueReadyForIO d queueIndex =
     (if md_status d AND virtioStatusDriverOK = 0 \<or> length (md_queues d) \<le> unat queueIndex then None
      else let q = md_queues d ! unat queueIndex in if \<not> vq_ready q then None else Some q)"

definition signalUsedRing :: "virtioMMIODevice \<Rightarrow> virtioMMIODevice" where
  "signalUsedRing d = d\<lparr>md_interruptStatus := md_interruptStatus d OR virtioInterruptUsedRing\<rparr>"

section \<open>Register accesses\<close>

datatype mmio_error = MmioPanic | NotifyFailed vq_error

record 'b machine =
  mc_device :: virtioMMIODevice
  mc_memory :: mem
  mc_backend :: 'b

type_synonym 'b notifier = "32 word \<Rightarrow> 'b machine \<Rightarrow> (vq_error option \<times> 'b machine) option"

definition putRegisterBytes :: "nat \<Rightarrow> 32 word \<Rightarrow> mmio_error + 8 word list" where
  "putRegisterBytes len value = (if 4 < len then Inl MmioPanic else Inr (take len (putLeUint32 value)))"

definition registerBytesValue :: "8 word list \<Rightarrow> 32 word" where
  "registerBytesValue data = leUint32 (take 4 (data @ replicate 4 0))"

definition low_half :: "64 word \<Rightarrow> 32 word \<Rightarrow> 64 word" where
  "low_half a value = a AND 0xffffffff00000000 OR ucast value"

definition high_half :: "64 word \<Rightarrow> 32 word \<Rightarrow> 64 word" where
  "high_half a value = a AND 0x00000000ffffffff OR push_bit 32 (ucast value)"

definition register_value :: "virtioMMIODevice \<Rightarrow> 64 word \<Rightarrow> 32 word" where
  "register_value d offset =
     (if offset = 0x000 then virtioMMIOMagicValue
      else if offset = 0x004 then virtioMMIOVersion
      else if offset = 0x008 then md_deviceID d
      else if offset = 0x00c then virtioMMIOVendorID
      else if offset = 0x010 then (if md_deviceFeaturesSel d = 1 then ucast (drop_bit 32 (md_features d)) else ucast (md_features d))
      else if offset = 0x034 then ucast virtioQueueSize
      else if offset = 0x044 then (case selectedQueue d of Some q \<Rightarrow> if vq_ready q then 1 else 0 | None \<Rightarrow> 0)
      else if offset = 0x060 then md_interruptStatus d
      else if offset = 0x070 then md_status d
      else if offset = 0x0fc then md_configGeneration d
      else 0)"

definition write_register :: "64 word \<Rightarrow> 32 word \<Rightarrow> virtioMMIODevice \<Rightarrow> virtioMMIODevice" where
  "write_register offset value d =
     (if offset = 0x014 then d\<lparr>md_deviceFeaturesSel := value\<rparr>
      else if offset = 0x020 then
        (if md_driverFeaturesSel d = 1 then d\<lparr>md_driverFeatures := high_half (md_driverFeatures d) value\<rparr>
         else d\<lparr>md_driverFeatures := low_half (md_driverFeatures d) value\<rparr>)
      else if offset = 0x024 then d\<lparr>md_driverFeaturesSel := value\<rparr>
      else if offset = 0x030 then d\<lparr>md_queueSel := value\<rparr>
      else if offset = 0x038 then
        (if 0 < value \<and> value \<le> ucast virtioQueueSize then update_selected (\<lambda>q. q\<lparr>vq_size := ucast value\<rparr>) d else d)
      else if offset = 0x044 then update_selected (\<lambda>q. q\<lparr>vq_ready := (value \<noteq> 0)\<rparr>) d
      else if offset = 0x064 then d\<lparr>md_interruptStatus := md_interruptStatus d AND NOT value\<rparr>
      else if offset = 0x070 then (if value = 0 then reset d else d\<lparr>md_status := value\<rparr>)
      else if offset = 0x080 then update_selected (\<lambda>q. q\<lparr>vq_descAddr := low_half (vq_descAddr q) value\<rparr>) d
      else if offset = 0x084 then update_selected (\<lambda>q. q\<lparr>vq_descAddr := high_half (vq_descAddr q) value\<rparr>) d
      else if offset = 0x090 then update_selected (\<lambda>q. q\<lparr>vq_availAddr := low_half (vq_availAddr q) value\<rparr>) d
      else if offset = 0x094 then update_selected (\<lambda>q. q\<lparr>vq_availAddr := high_half (vq_availAddr q) value\<rparr>) d
      else if offset = 0x0a0 then update_selected (\<lambda>q. q\<lparr>vq_usedAddr := low_half (vq_usedAddr q) value\<rparr>) d
      else if offset = 0x0a4 then update_selected (\<lambda>q. q\<lparr>vq_usedAddr := high_half (vq_usedAddr q) value\<rparr>) d
      else d)"

definition handleConfigSpace :: "virtioMMIODevice \<Rightarrow> 64 word \<Rightarrow> bool \<Rightarrow> 8 word list \<Rightarrow> 8 word list" where
  "handleConfigSpace d offset isWrite data =
     (if isWrite then data
      else map (\<lambda>i. let pos = offset + of_nat i in
        if unat pos < length (md_configSpace d) then md_configSpace d ! unat pos else 0) [0..<length data])"

definition handleRegisterRead :: "virtioMMIODevice \<Rightarrow> 64 word \<Rightarrow> 8 word list \<Rightarrow> mmio_error + 8 word list" where
  "handleRegisterRead d offset data = putRegisterBytes (length data) (register_value d offset)"

definition handleRegisterWrite ::
  "'b notifier option \<Rightarrow> 'b machine \<Rightarrow> 64 word \<Rightarrow> 8 word list \<Rightarrow> (mmio_error option \<times> 'b machine) option" where
  "handleRegisterWrite notify s offset data =
     (let value = registerBytesValue data in
      if offset = 0x050 then
        (case notify of
           None \<Rightarrow> Some (None, s)
         | Some f \<Rightarrow> map_option (\<lambda>(e, s'). (map_option NotifyFailed e, s')) (f value s))
      else Some (None, s\<lparr>mc_device := write_register offset value (mc_device s)\<rparr>))"

text \<open>The error, the bytes the access leaves in its buffer, and the machine.\<close>

definition handleLocked ::
  "'b notifier option \<Rightarrow> 'b machine \<Rightarrow> 64 word \<Rightarrow> bool \<Rightarrow> 8 word list \<Rightarrow> ((mmio_error option \<times> 8 word list) \<times> 'b machine) option" where
  "handleLocked notify s addr isWrite data =
     (let d = mc_device s; offset = addr - md_base d in
      if virtioRegConfigSpace \<le> offset then
        Some ((None, handleConfigSpace d (offset - virtioRegConfigSpace) isWrite data), s)
      else if isWrite then map_option (\<lambda>(e, s'). ((e, data), s')) (handleRegisterWrite notify s offset data)
      else Some (case handleRegisterRead d offset data of Inl e \<Rightarrow> ((Some e, data), s) | Inr out \<Rightarrow> ((None, out), s)))"

section \<open>The block device\<close>

record 'b BlockDeviceOptions =
  bo_Backend :: "'b backend option"
  bo_Capacity :: "64 word"
  bo_ReadOnly :: bool

datatype blk_option_error = BackendRequired | BadCapacity "64 word"

definition blk_config :: "64 word \<Rightarrow> 8 word list" where
  "blk_config capacity = le_bytes 8 (unat (capacity div 512)) @ replicate 12 0 @ le_bytes 4 512"

definition newVirtioBlkMMIODevice :: "'b BlockDeviceOptions \<Rightarrow> 64 word \<Rightarrow> 32 word \<Rightarrow> blk_option_error + virtioMMIODevice" where
  "newVirtioBlkMMIODevice opts base irq =
     bindE (guardE (bo_Backend opts = None) BackendRequired) (\<lambda>_.
     bindE (guardE (bo_Capacity opts = 0 \<or> bo_Capacity opts mod 512 \<noteq> 0) (BadCapacity (bo_Capacity opts))) (\<lambda>_.
     let features = (push_bit 6 1 OR push_bit 9 1) OR (if bo_ReadOnly opts then push_bit 5 1 else 0) in
     Inr (newVirtioMMIODevice ''virtio-blk'' 2 base irq 1 features (blk_config (bo_Capacity opts)))))"

definition blk_notify :: "'b backend \<Rightarrow> bool \<Rightarrow> 'b notifier" where
  "blk_notify bk readOnly queueIndex s =
     (case queueReadyForIO (mc_device s) queueIndex of
        None \<Rightarrow> Some (None, s)
      | Some q \<Rightarrow>
          map_option (\<lambda>(err, signalled, q', m', b').
            let d = mc_device s; d1 = d\<lparr>md_queues := (md_queues d)[unat queueIndex := q']\<rparr> in
            (err, \<lparr>mc_device = (if signalled then signalUsedRing d1 else d1), mc_memory = m', mc_backend = b'\<rparr>))
          (processQueue bk readOnly q (mc_memory s) (mc_backend s) False))"

section \<open>Several devices\<close>

text \<open>All devices share the guest memory; each has its own notification and backend.\<close>

record 'b board =
  bd_devices :: "(virtioMMIODevice \<times> 'b notifier option \<times> 'b) list"
  bd_memory :: mem

fun window_index :: "nat \<Rightarrow> (virtioMMIODevice \<times> 'n) list \<Rightarrow> 64 word \<Rightarrow> nat option" where
  "window_index i [] addr = None"
| "window_index i ((d, n) # ds) addr = (if inWindow d addr then Some i else window_index (Suc i) ds addr)"

definition handleLinuxVirtioMMIO ::
  "'b board \<Rightarrow> 64 word \<Rightarrow> bool \<Rightarrow> 8 word list \<Rightarrow> (bool \<times> mmio_error option \<times> 8 word list \<times> 'b board) option" where
  "handleLinuxVirtioMMIO bd addr isWrite data =
     (case window_index 0 (bd_devices bd) addr of
        None \<Rightarrow> Some (False, None, data, bd)
      | Some i \<Rightarrow>
          (case bd_devices bd ! i of
             (d, notify, b) \<Rightarrow>
               map_option (\<lambda>((e, out), s).
                 (True, e, out, bd\<lparr>bd_devices := (bd_devices bd)[i := (mc_device s, notify, mc_backend s)], bd_memory := mc_memory s\<rparr>))
               (handleLocked notify \<lparr>mc_device = d, mc_memory = bd_memory bd, mc_backend = b\<rparr> addr isWrite data)))"

definition virtioFirstDeviceIRQ :: "32 word" where "virtioFirstDeviceIRQ = 5"

fun build_block_devices ::
  "nat \<Rightarrow> 32 word \<Rightarrow> 'b BlockDeviceOptions list \<Rightarrow> blk_option_error + virtioMMIODevice list" where
  "build_block_devices index irq [] = Inr []"
| "build_block_devices index irq (opts # rest) =
     bindE (newVirtioBlkMMIODevice opts (virtioMMIODeviceBaseAddress index) irq) (\<lambda>d.
     bindE (build_block_devices (Suc index) (irq + 1) rest) (\<lambda>ds. Inr (d # ds)))"

section \<open>What accesses keep\<close>

definition queue_ok :: "virtQueue \<Rightarrow> bool" where
  "queue_ok q \<longleftrightarrow> 1 \<le> unat (vq_size q) \<and> unat (vq_size q) \<le> 256"

definition dev_ok :: "virtioMMIODevice \<Rightarrow> virtioMMIODevice \<Rightarrow> bool" where
  "dev_ok d0 d \<longleftrightarrow> reset d = reset d0 \<and> list_all queue_ok (md_queues d)"

lemma reset_idem [simp]: "reset (reset d) = reset d"
  by (simp add: reset_def o_def)

lemma fresh_queue_ok [simp]: "queue_ok fresh_queue"
  by (simp add: queue_ok_def fresh_queue_def virtioQueueSize_def)

lemma map_const_update [simp]: "map (\<lambda>_. c) (xs[i := x]) = map (\<lambda>_. c) xs"
  by (simp add: map_replicate_const)

lemma update_selected_ok:
  assumes "dev_ok d0 d" "\<And>q. queue_ok q \<Longrightarrow> queue_ok (g q)"
  shows "dev_ok d0 (update_selected g d)"
proof (cases "selectedQueue d")
  case (Some q)
  then have "q \<in> set (md_queues d)" by (auto simp: selectedQueue_def split: if_splits)
  then have "queue_ok (g q)" using assms by (auto simp: dev_ok_def list_all_iff)
  then have "list_all queue_ok ((md_queues d)[unat (md_queueSel d) := g q])"
    using assms(1) set_update_subset_insert [of "md_queues d" "unat (md_queueSel d)" "g q"] by (auto simp: dev_ok_def list_all_iff)
  moreover have "reset (update_selected g d) = reset d" using Some by (simp add: update_selected_def reset_def)
  ultimately show ?thesis using assms(1) Some by (simp add: dev_ok_def update_selected_def)
qed (use assms(1) in \<open>simp add: update_selected_def\<close>)

lemma queue_num_ok: "0 < (v :: 32 word) \<Longrightarrow> v \<le> ucast virtioQueueSize \<Longrightarrow> queue_ok (q\<lparr>vq_size := ucast v\<rparr>)"
proof -
  assume v: "0 < v" "v \<le> ucast virtioQueueSize"
  then have "0 < unat v" "unat v \<le> 256" by (simp_all add: virtioQueueSize_def word_le_nat_alt word_less_nat_alt)
  then show ?thesis by (simp add: queue_ok_def unsigned_ucast_eq take_bit_nat_eq_self)
qed

lemma reset_ok: "dev_ok d0 d \<Longrightarrow> dev_ok d0 (reset d)"
  by (simp add: dev_ok_def) (simp add: reset_def list_all_iff)

lemma write_register_ok:
  assumes "dev_ok d0 d"
  shows "dev_ok d0 (write_register offset value d)"
proof -
  have plain: "dev_ok d0 d'" if "reset d' = reset d" "md_queues d' = md_queues d" for d'
    using that assms by (simp add: dev_ok_def)
  have sel: "dev_ok d0 (update_selected g d)" if "\<And>q. vq_size (g q) = vq_size q" for g
    using assms that by (intro update_selected_ok) (auto simp: queue_ok_def)
  have fields: "dev_ok d0 (d\<lparr>md_deviceFeaturesSel := v\<rparr>)" "dev_ok d0 (d\<lparr>md_driverFeatures := w\<rparr>)"
    "dev_ok d0 (d\<lparr>md_driverFeaturesSel := v\<rparr>)" "dev_ok d0 (d\<lparr>md_queueSel := v\<rparr>)" "dev_ok d0 (d\<lparr>md_interruptStatus := v\<rparr>)"
    "dev_ok d0 (d\<lparr>md_status := v\<rparr>)" for v w
    by (rule plain; simp add: reset_def)+
  show ?thesis
    unfolding write_register_def by (simp add: assms fields reset_ok update_selected_ok [OF assms] queue_num_ok sel)
qed

lemma service_queue: "service bk ro q m b = (r, q', m', b') \<Longrightarrow> \<exists>l. q' = q\<lparr>vq_lastAvail := l\<rparr>"
proof (erule service_cases)
  assume "q' = q \<or> q' = q\<lparr>vq_lastAvail := vq_lastAvail q + 1\<rparr>"
  then show ?thesis by (metis virtQueue.surjective virtQueue.update_convs(6))
qed blast

lemma processQueue_queue: "processQueue bk ro q m b p = Some y \<Longrightarrow> vq_size (fst (snd (snd y))) = vq_size q"
proof (erule processQueue.raw_induct [where P = "\<lambda>bk ro q m b p y. vq_size (fst (snd (snd y))) = vq_size q", rotated])
  fix rec :: "'a backend \<Rightarrow> bool \<Rightarrow> virtQueue \<Rightarrow> mem \<Rightarrow> 'a \<Rightarrow> bool \<Rightarrow> (vq_error option \<times> bool \<times> virtQueue \<times> mem \<times> 'a) option"
    and bk ro q m b p y
  assume IH: "\<And>bk ro q m b p y. rec bk ro q m b p = Some y \<Longrightarrow> vq_size (fst (snd (snd y))) = vq_size q"
    and body: "(case pending q m of Inl e \<Rightarrow> Some (Some e, False, q, m, b) | Inr waiting \<Rightarrow>
      if \<not> waiting then Some (None, p, q, m, b) else case service bk ro q m b of (r, q', m', b') \<Rightarrow>
        (case r of Inl e \<Rightarrow> Some (Some e, False, q', m', b') | Inr go \<Rightarrow> if go then rec bk ro q' m' b' True else Some (None, p, q', m', b'))) = Some y"
  obtain r q1 m1 b1 where s: "service bk ro q m b = (r, q1, m1, b1)" by (metis surj_pair)
  have "vq_size q1 = vq_size q" using service_queue [OF s] by auto
  with body s IH [of bk ro q1 m1 b1 True y] show "vq_size (fst (snd (snd y))) = vq_size q"
    by (auto split: sum.splits if_splits)
qed

lemma blk_notify_ok:
  assumes "dev_ok d0 (mc_device s)" "blk_notify bk ro i s = Some (e, s')"
  shows "dev_ok d0 (mc_device s')"
proof (cases "queueReadyForIO (mc_device s) i")
  case None
  with assms show ?thesis by (simp add: blk_notify_def)
next
  case (Some q)
  let ?d = "mc_device s"
  have q: "unat i < length (md_queues ?d)" "q = md_queues ?d ! unat i"
    using Some by (auto simp: queueReadyForIO_def Let_def split: if_splits)
  obtain err sig q' m' b' where run: "processQueue bk ro q (mc_memory s) (mc_backend s) False = Some (err, sig, q', m', b')"
    and s': "mc_device s' = (let d1 = ?d\<lparr>md_queues := (md_queues ?d)[unat i := q']\<rparr> in if sig then signalUsedRing d1 else d1)"
    using assms(2) Some by (auto simp: blk_notify_def Let_def)
  have "queue_ok q'" using processQueue_queue [OF run] q assms(1) by (auto simp: queue_ok_def dev_ok_def list_all_iff)
  then have "list_all queue_ok ((md_queues ?d)[unat i := q'])"
    using assms(1) set_update_subset_insert [of "md_queues ?d" "unat i" q'] by (auto simp: dev_ok_def list_all_iff)
  moreover have "reset (mc_device s') = reset ?d" by (simp add: s' reset_def signalUsedRing_def Let_def)
  ultimately show ?thesis using assms(1) by (simp add: dev_ok_def s' signalUsedRing_def Let_def)
qed

lemma handleLocked_ok:
  assumes "dev_ok d0 (mc_device s)" "handleLocked (Some (blk_notify bk ro)) s addr isWrite data = Some (r, s')"
  shows "dev_ok d0 (mc_device s')"
  using assms write_register_ok [OF assms(1)] blk_notify_ok [OF assms(1), of bk ro]
  by (auto simp: handleLocked_def handleRegisterWrite_def Let_def split: if_splits sum.splits)

text \<open>The machines that accesses of the guest reach from a given one.\<close>

inductive blk_run :: "'b backend \<Rightarrow> bool \<Rightarrow> 'b machine \<Rightarrow> 'b machine \<Rightarrow> bool" for bk ro s where
  start: "blk_run bk ro s s"
| access: "blk_run bk ro s s1 \<Longrightarrow> handleLocked (Some (blk_notify bk ro)) s1 addr isWrite data = Some (r, s2) \<Longrightarrow> blk_run bk ro s s2"

lemma blk_run_ok: "blk_run bk ro s s' \<Longrightarrow> dev_ok d0 (mc_device s) \<Longrightarrow> dev_ok d0 (mc_device s')"
  by (induction rule: blk_run.induct) (auto dest: handleLocked_ok)

lemma new_device_ok: "newVirtioBlkMMIODevice opts base irq = Inr d0 \<Longrightarrow> reset d0 = d0 \<and> dev_ok d0 d0"
  by (auto simp: newVirtioBlkMMIODevice_def newVirtioMMIODevice_def reset_def dev_ok_def bindE_Inr Let_def)

text \<open>
  C34: Whatever registers a guest writes, in any order and with any values, and however often it drains its queue, every
  queue of the device keeps a size between 1 and 256, and resetting the device at any moment restores exactly the
  device the monitor created: no field is left behind.
\<close>

theorem device_reset_restores:
  assumes "newVirtioBlkMMIODevice opts base irq = Inr d0" "blk_run bk ro \<lparr>mc_device = d0, mc_memory = m0, mc_backend = b0\<rparr> s"
  shows "reset (mc_device s) = d0 \<and> (\<forall>q \<in> set (md_queues (mc_device s)). 1 \<le> unat (vq_size q) \<and> unat (vq_size q) \<le> 256)"
proof -
  have "dev_ok d0 (mc_device s)" using blk_run_ok [OF assms(2), of d0] new_device_ok [OF assms(1)] by simp
  with new_device_ok [OF assms(1)] show ?thesis by (simp add: dev_ok_def list_all_iff queue_ok_def)
qed

text \<open>Before the driver has set \<^verbatim>\<open>DRIVER_OK\<close>, no access touches guest memory or the backend.\<close>

lemma quiet_before_driver_ok:
  assumes "md_status (mc_device s) AND virtioStatusDriverOK = 0"
    and "handleLocked (Some (blk_notify bk ro)) s addr isWrite data = Some (r, s')"
  shows "mc_memory s' = mc_memory s \<and> mc_backend s' = mc_backend s"
  using assms
  by (auto simp: handleLocked_def handleRegisterWrite_def blk_notify_def queueReadyForIO_def Let_def split: if_splits sum.splits)

text \<open>
  The only access that crashes the monitor. An access of a guest inside the window of a device panics exactly
  when it reads more than four bytes at a register; accesses of any width to the configuration space, and all
  writes, are answered.
\<close>

theorem mmio_panics_iff:
  "(\<exists>out s'. handleLocked (Some (blk_notify bk ro)) s addr isWrite data = Some ((Some MmioPanic, out), s')) \<longleftrightarrow>
     \<not> isWrite \<and> addr - md_base (mc_device s) < virtioRegConfigSpace \<and> 4 < length data"
  by (auto simp: handleLocked_def handleRegisterWrite_def handleRegisterRead_def putRegisterBytes_def blk_notify_def Let_def not_le
      split: if_splits option.splits)

section \<open>Windows\<close>

lemma window_disjoint:
  assumes "i < 65536" "j < 65536" "md_base d = virtioMMIODeviceBaseAddress i" "md_base e = virtioMMIODeviceBaseAddress j"
    "inWindow d addr" "inWindow e addr"
  shows "i = j"
proof -
  have base: "unat (virtioMMIODeviceBaseAddress k) = 0xd0000000 + k * 0x1000" "unat (virtioMMIODeviceBaseAddress k + virtioMMIOWindowSize) = 0xd0000000 + k * 0x1000 + 0x1000"
    if "k < 65536" for k
    using that by (simp_all add: virtioMMIODeviceBaseAddress_def virtioMMIOBaseAddress_def virtioMMIOWindowSize_def unat_word_ariths unat_of_nat take_bit_nat_eq_self)
  from assms base [OF assms(1)] base [OF assms(2)] show ?thesis
    by (simp add: inWindow_def word_le_nat_alt word_less_nat_alt)
qed

lemma window_index_iff:
  assumes "\<forall>k < length ds. \<forall>l < length ds. inWindow (fst (ds ! k)) addr \<longrightarrow> inWindow (fst (ds ! l)) addr \<longrightarrow> k = l"
  shows "window_index i ds addr = Some j \<longleftrightarrow> (\<exists>k < length ds. j = i + k \<and> inWindow (fst (ds ! k)) addr)"
  using assms
proof (induction ds arbitrary: i)
  case (Cons x ds)
  have tl: "\<forall>k < length ds. \<forall>l < length ds. inWindow (fst (ds ! k)) addr \<longrightarrow> inWindow (fst (ds ! l)) addr \<longrightarrow> k = l"
    using Cons.prems by (metis Suc_less_eq length_Cons nth_Cons_Suc old.nat.inject)
  have hd: "inWindow (fst x) addr \<Longrightarrow> k < length ds \<Longrightarrow> \<not> inWindow (fst (ds ! k)) addr" for k
    using Cons.prems [rule_format, of 0 "Suc k"] by auto
  have "(\<exists>k < length (x # ds). j = i + k \<and> inWindow (fst ((x # ds) ! k)) addr) \<longleftrightarrow>
      j = i \<and> inWindow (fst x) addr \<or> (\<exists>k < length ds. j = Suc i + k \<and> inWindow (fst (ds ! k)) addr)"
    by (auto simp: less_Suc_eq_0_disj)
  with Cons.IH [OF tl, of "Suc i"] hd show ?case by (cases x) auto
qed simp

lemma build_bases:
  "build_block_devices i irq opts = Inr ds \<Longrightarrow>
   length ds = length opts \<and> (\<forall>k < length ds. md_base (ds ! k) = virtioMMIODeviceBaseAddress (i + k))"
proof (induction opts arbitrary: i irq ds)
  case (Cons o' opts)
  then obtain d ds' where d: "newVirtioBlkMMIODevice o' (virtioMMIODeviceBaseAddress i) irq = Inr d"
      "build_block_devices (Suc i) (irq + 1) opts = Inr ds'" "ds = d # ds'"
    by (auto simp: bindE_Inr)
  then have "md_base d = virtioMMIODeviceBaseAddress i"
    by (auto simp: newVirtioBlkMMIODevice_def newVirtioMMIODevice_def bindE_Inr Let_def)
  with Cons.IH [OF d(2)] d(3) show ?case by (auto simp: nth_Cons split: nat.split)
qed simp

text \<open>Every access goes to the one device whose window holds the address, or to none.\<close>

lemma access_has_one_device:
  assumes "build_block_devices 0 irq opts = Inr ds" "length opts \<le> 65536" "map md_base (map fst (bd_devices bd)) = map md_base ds"
  shows "window_index 0 (bd_devices bd) addr = Some i \<longleftrightarrow> i < length ds \<and> inWindow (fst (bd_devices bd ! i)) addr"
proof -
  note b = build_bases [OF assms(1)]
  have len: "length (bd_devices bd) = length ds" using assms(3) by (metis length_map)
  have base: "md_base (fst (bd_devices bd ! k)) = virtioMMIODeviceBaseAddress k" if "k < length ds" for k
    using arg_cong [OF assms(3), of "\<lambda>l. l ! k"] that b len by simp
  have "\<forall>k < length (bd_devices bd). \<forall>l < length (bd_devices bd). inWindow (fst (bd_devices bd ! k)) addr \<longrightarrow>
      inWindow (fst (bd_devices bd ! l)) addr \<longrightarrow> k = l"
  proof (intro allI impI)
    fix k l
    assume "k < length (bd_devices bd)" "l < length (bd_devices bd)"
      "inWindow (fst (bd_devices bd ! k)) addr" "inWindow (fst (bd_devices bd ! l)) addr"
    then show "k = l" using base [of k] base [of l] len b assms(2)
      by (intro window_disjoint [of k l "fst (bd_devices bd ! k)" "fst (bd_devices bd ! l)" addr]) simp_all
  qed
  from window_index_iff [OF this, of 0 i] len show ?thesis by auto
qed

section \<open>Example\<close>

definition example_options :: "unit BlockDeviceOptions" where
  "example_options = \<lparr>bo_Backend = Some null_backend, bo_Capacity = 1024, bo_ReadOnly = True\<rparr>"

definition example_device :: virtioMMIODevice where
  "example_device = newVirtioMMIODevice ''virtio-blk'' 2 0xd0000000 5 1 ((push_bit 6 1 OR push_bit 9 1) OR push_bit 5 1) (blk_config 1024)"

text \<open>After the guest sets the size of its queue to 16, the device is changed; a reset still restores it.\<close>

theorem device_reset_restores_witness:
  "\<exists>s :: unit machine. md_queues (mc_device s) \<noteq> md_queues example_device \<and> reset (mc_device s) = example_device"
proof -
  have new: "newVirtioBlkMMIODevice example_options 0xd0000000 5 = Inr example_device"
    by (simp add: newVirtioBlkMMIODevice_def example_options_def example_device_def)
  let ?s = "\<lparr>mc_device = example_device, mc_memory = [], mc_backend = ()\<rparr>"
  obtain s where s: "handleLocked (Some (blk_notify null_backend True)) ?s 0xd0000038 True [16, 0, 0, 0] = Some ((None, [16, 0, 0, 0]), s)"
    "md_queues (mc_device s) = [fresh_queue\<lparr>vq_size := 16\<rparr>]"
    by (simp add: handleLocked_def handleRegisterWrite_def write_register_def registerBytesValue_def leUint32_def le_value_def
        example_device_def newVirtioMMIODevice_def update_selected_def selectedQueue_def virtioQueueSize_def fresh_queue_def)
  have "blk_run null_backend True ?s s" by (rule blk_run.access [OF blk_run.start s(1)])
  from device_reset_restores [OF new this] have "reset (mc_device s) = example_device" by (rule conjunct1)
  moreover have "md_queues (mc_device s) \<noteq> md_queues example_device"
    by (simp add: s(2) example_device_def newVirtioMMIODevice_def fresh_queue_def virtioQueueSize_def)
  ultimately show ?thesis by blast
qed

end
