(* ===== verification/Logical_Disk.thy ===== *)
theory Logical_Disk
  imports Prelude Go_Int "HOL-Library.Signed_Division"
begin

text \<open>
  Reading the logical content of a virtual disk: \<^verbatim>\<open>logical.go\<close>, \<^verbatim>\<open>qcow2.go\<close>, \<^verbatim>\<open>vhd.go\<close>, \<^verbatim>\<open>vhdx.go\<close> and
  \<^verbatim>\<open>vmdk.go\<close> of \<^verbatim>\<open>internal/vmdisk\<close>. A container file is a size, its bytes and the positions the
  operating system fails to read. Unsigned integers are words, \<^verbatim>\<open>int64\<close> is an integer with wrap-around,
  division truncates. The loops of the four mapped formats differ only in how they find a block, so
  one loop takes that lookup as an argument; the locale \<open>block_map\<close> states what it needs of it.
\<close>

unbundle bit_operations_syntax

section \<open>The container file\<close>

type_synonym byte = "8 word"

record disk_file =
  df_size :: int
  df_at :: "int \<Rightarrow> byte"
  df_bad :: "int \<Rightarrow> bool"
  df_statFails :: bool

datatype Format = FormatRAW | FormatQCOW2 | FormatVMDK | FormatVHD | FormatVHDX | FormatISO

text \<open>What is wrong with a partition table, with the numbers the message carries.\<close>

datatype table_error =
    BadBootFlag nat byte | BadGeometry nat | EntriesOverlap nat nat
  | BadEBRFlag nat byte | BadEBRGeometry nat | UnexpectedEBREntry nat
  | EBRCycle nat "64 word" | EBROffsetOverflow | NoEBRSignature nat nat | NotExtendedLink byte | LinkOverflow | TooManyEBRs
  | NoGPTHeader | BadGPTArray | GPTOutsideWindow | BadGPTGeometry nat | GPTByteOverflow nat | GPTOverlap nat nat
  | BadVolumeOffset nat

datatype disk_error =
    OpenFailed | StatFailed | ReadFailed | InvalidRead int int | Panic
  | NoMapping Format
  | BadClusterBits "32 word" | BadL1Size "32 word" | BadL1Table | BeyondL1 int int | BadL2Table int
  | CompressedCluster int | BadDataCluster int
  | VHDTooSmall | NoVHDFooter | UnsupportedVHDType "32 word" | NoSparseHeader | BadVHDGeometry int "32 word"
  | BeyondBAT int int
  | NoVHDXRegions | BadMetadataLength int | NoMetadataSignature | BadMetadataCount "16 word" | NoFileParameters
  | HasParent | BadVHDXBlockSize int | EmptyBAT
  | TextDescriptor | NoGrainDirectory | BadGrainGeometry int int
  | CorruptPartitionTable table_error
  | CorruptFilesystem string
  | UnsupportedFormat | DiskTooSmall int

definition maxMappedRegionSize :: int where
  "maxMappedRegionSize = 64 * 1024 * 1024"

text \<open>A byte of the file; positions the file does not have read as zero.\<close>

definition file_byte :: "disk_file \<Rightarrow> int \<Rightarrow> byte" where
  "file_byte f p = (if 0 \<le> p \<and> p < df_size f then df_at f p else 0)"

definition file_bytes :: "disk_file \<Rightarrow> int \<Rightarrow> int \<Rightarrow> byte list" where
  "file_bytes f p n = map (\<lambda>i. file_byte f (p + int i)) [0..<nat n]"

text \<open>
  A read fails at a position the operating system cannot read, and when its end does not fit in an \<^verbatim>\<open>int64\<close>,
  which \<^verbatim>\<open>pread\<close> refuses.
\<close>

definition unreadable :: "disk_file \<Rightarrow> int \<Rightarrow> int \<Rightarrow> bool" where
  "unreadable f p n \<longleftrightarrow>
     0 < n \<and> 2 ^ 63 \<le> p + n \<or> list_ex (\<lambda>i. p + int i < df_size f \<and> df_bad f (p + int i)) [0..<nat n]"

definition readAtBounded :: "disk_file \<Rightarrow> int \<Rightarrow> int \<Rightarrow> disk_error + byte list" where
  "readAtBounded f offset len =
     (if offset < 0 \<or> len < 0 \<or> maxMappedRegionSize < len then Inl (InvalidRead offset len)
      else if unreadable f offset len then Inl ReadFailed
      else Inr (file_bytes f offset len))"

definition slice_of :: "byte list \<Rightarrow> nat \<Rightarrow> nat \<Rightarrow> byte list" where
  "slice_of b i j = take (j - i) (drop i b)"

definition be32 :: "byte list \<Rightarrow> 32 word" where
  "be32 b = push_bit 24 (ucast (b ! 0)) OR push_bit 16 (ucast (b ! 1)) OR push_bit 8 (ucast (b ! 2)) OR ucast (b ! 3)"

definition be64 :: "byte list \<Rightarrow> 64 word" where
  "be64 b = foldl (\<lambda>v c. push_bit 8 v OR ucast c) 0 (take 8 b)"

definition le32 :: "byte list \<Rightarrow> 32 word" where
  "le32 b = ucast (b ! 0) OR push_bit 8 (ucast (b ! 1)) OR push_bit 16 (ucast (b ! 2)) OR push_bit 24 (ucast (b ! 3))"

definition le64 :: "byte list \<Rightarrow> 64 word" where
  "le64 b = foldl (\<lambda>v i. push_bit 8 v OR ucast (b ! i)) 0 [7, 6, 5, 4, 3, 2, 1, 0]"

definition be16LE :: "byte list \<Rightarrow> 16 word" where
  "be16LE b = ucast (b ! 0) OR push_bit 8 (ucast (b ! 1))"

definition ascii :: "string \<Rightarrow> byte list" where
  "ascii s = map (\<lambda>c. of_nat (of_char c)) s"

lemma file_bytes_nth [simp]: "i < nat n \<Longrightarrow> file_bytes f p n ! i = file_byte f (p + int i)"
  by (simp add: file_bytes_def)

lemma length_file_bytes [simp]: "length (file_bytes f p n) = nat n"
  by (simp add: file_bytes_def)

lemma file_bytes_slice:
  "i \<le> j \<Longrightarrow> int j \<le> n \<Longrightarrow> slice_of (file_bytes f p n) i j = file_bytes f (p + int i) (int j - int i)"
  by (rule nth_equalityI) (auto simp: slice_of_def file_bytes_def nat_diff_distrib add.assoc)

section \<open>The loop over blocks\<close>

text \<open>
  A block of the disk is a hole, which reads as zero, or starts at a position of the file.
  \<^verbatim>\<open>make([]byte, n)\<close> panics for a negative \<^verbatim>\<open>n\<close> and for one above the size of the heap's address space,
  \<^verbatim>\<open>2^48\<close> bytes on a 64-bit machine; below that the memory is assumed to be there. The first iteration panics
  when the block size is zero.
\<close>

definition maxAlloc :: int where
  "maxAlloc = 2 ^ 48"

datatype location = Hole | At int

definition make_zeros :: "int \<Rightarrow> disk_error + byte list" where
  "make_zeros n = (if n < 0 \<or> maxAlloc < n then Inl Panic else Inr (replicate (nat n) 0))"

definition read_block :: "disk_file \<Rightarrow> location \<Rightarrow> int \<Rightarrow> int \<Rightarrow> disk_error + byte list" where
  "read_block f loc inBlock chunk =
     (case loc of Hole \<Rightarrow> make_zeros chunk | At base \<Rightarrow> readAtBounded f (i64 (base + inBlock)) chunk)"

lemma read_block_nonneg: "read_block f loc b n = Inr d \<Longrightarrow> 0 \<le> n \<and> length d = nat n"
  by (auto simp: read_block_def make_zeros_def readAtBounded_def file_bytes_def split: location.splits if_splits)

lemma smod_abs_less: "(b::int) \<noteq> 0 \<Longrightarrow> \<bar>a smod b\<bar> < \<bar>b\<bar>"
  by (simp add: signed_modulo_int_def abs_mult abs_mod_less)

lemma sdiv_div_positive: "0 \<le> (a::int) \<Longrightarrow> 0 \<le> b \<Longrightarrow> a sdiv b = a div b"
  by (cases "a = 0"; cases "b = 0") (auto simp: signed_divide_int_def)

lemma block_rest_nonzero: "(b::int) \<noteq> 0 \<Longrightarrow> b - a smod b \<noteq> 0"
  using smod_abs_less [of b a] by auto

function read_loop ::
  "disk_file \<Rightarrow> int \<Rightarrow> (int \<Rightarrow> disk_error + location) \<Rightarrow> int \<Rightarrow> int \<Rightarrow> disk_error + byte list" where
  "read_loop f block lookup offset remaining =
     (if remaining \<le> 0 then Inr []
      else if block = 0 then Inl Panic
      else let inBlock = offset smod block; chunk = min (block - inBlock) remaining in
        bindE (lookup offset) (\<lambda>loc.
        bindE (read_block f loc inBlock chunk) (\<lambda>d.
        bindE (read_loop f block lookup (i64 (offset + chunk)) (remaining - chunk)) (\<lambda>rest.
        Inr (d @ rest)))))"
  by pat_completeness auto
termination
proof (relation "measure (\<lambda>(f, block, lookup, offset, remaining). nat remaining)", goal_cases)
  case (2 f block lookup offset remaining inBlock chunk loc d)
  from 2 read_block_nonneg [of f loc inBlock chunk d] block_rest_nonzero [of block offset]
  have "0 < chunk" by (auto simp: min_def split: if_splits)
  with 2 show ?case by simp
qed auto

declare read_loop.simps [simp del]

section \<open>QCOW2\<close>

record qcow2LogicalDisk =
  q_file :: disk_file
  q_l1TableOffset :: int
  q_l1Size :: "32 word"
  q_clusterBits :: "32 word"
  q_clusterSize :: int
  q_l2Entries :: int
  q_fileSize :: int

definition qcow2OFlagCompressed :: "64 word" where
  "qcow2OFlagCompressed = push_bit 62 1"

definition qcow2OffsetMask :: "64 word" where
  "qcow2OffsetMask = push_bit 56 1 - 1"

definition regionsOverlap :: "int \<Rightarrow> int \<Rightarrow> int \<Rightarrow> int \<Rightarrow> bool" where
  "regionsOverlap aStart aLength bStart bLength \<longleftrightarrow>
     0 < aLength \<and> 0 < bLength \<and> aStart < i64 (bStart + bLength) \<and> bStart < i64 (aStart + aLength)"

definition file_stat :: "disk_file \<Rightarrow> disk_error + int" where
  "file_stat f = (if df_statFails f then Inl StatFailed else Inr (df_size f))"

definition newQCOW2LogicalDisk :: "disk_file \<Rightarrow> disk_error + qcow2LogicalDisk" where
  "newQCOW2LogicalDisk f =
     bindE (readAtBounded f 0 72) (\<lambda>header.
     let clusterBits = be32 (slice_of header 20 24);
         l1Size = be32 (slice_of header 36 40);
         l1TableOffset = sint (be64 (slice_of header 40 48)) in
     bindE (guardE (clusterBits < 9 \<or> 21 < clusterBits) (BadClusterBits clusterBits)) (\<lambda>_.
     bindE (guardE (2 ^ 24 < l1Size) (BadL1Size l1Size)) (\<lambda>_.
     let clusterSize = 2 ^ unat clusterBits in
     bindE (file_stat f) (\<lambda>size.
     let l1Bytes = uint l1Size * 8 in
     bindE (guardE (l1TableOffset < 72 \<or> l1TableOffset smod clusterSize \<noteq> 0 \<or> l1Bytes < 0 \<or>
                    size - l1Bytes < l1TableOffset) BadL1Table) (\<lambda>_.
     Inr \<lparr>q_file = f, q_l1TableOffset = l1TableOffset, q_l1Size = l1Size, q_clusterBits = clusterBits,
          q_clusterSize = clusterSize, q_l2Entries = clusterSize sdiv 8, q_fileSize = size\<rparr>)))))"

definition qcow2_bad_region :: "qcow2LogicalDisk \<Rightarrow> int \<Rightarrow> bool" where
  "qcow2_bad_region q p \<longleftrightarrow>
     p smod q_clusterSize q \<noteq> 0 \<or> p < 72 \<or> q_fileSize q - q_clusterSize q < p \<or>
     regionsOverlap p (q_clusterSize q) (q_l1TableOffset q) (uint (q_l1Size q) * 8)"

definition qcow2_locate :: "qcow2LogicalDisk \<Rightarrow> int \<Rightarrow> disk_error + location" where
  "qcow2_locate q offset =
     (let clusterIndex = offset sdiv q_clusterSize q;
          l1Index = clusterIndex sdiv q_l2Entries q in
      bindE (guardE (l1Index < 0 \<or> uint (q_l1Size q) \<le> l1Index mod 2 ^ 32) (BeyondL1 offset l1Index)) (\<lambda>_.
      bindE (readAtBounded (q_file q) (i64 (q_l1TableOffset q + l1Index * 8)) 8) (\<lambda>l1EntryBytes.
      let l2TableOffset = sint (be64 l1EntryBytes AND qcow2OffsetMask) in
      if l2TableOffset = 0 then Inr Hole
      else
        bindE (guardE (qcow2_bad_region q l2TableOffset) (BadL2Table l2TableOffset)) (\<lambda>_.
        let l2Index = clusterIndex smod q_l2Entries q in
        bindE (readAtBounded (q_file q) (i64 (l2TableOffset + l2Index * 8)) 8) (\<lambda>l2EntryBytes.
        let l2Entry = be64 l2EntryBytes in
        if l2Entry AND qcow2OFlagCompressed \<noteq> 0 then Inl (CompressedCluster offset)
        else if l2Entry AND qcow2OffsetMask = 0 then Inr Hole
        else let hostOffset = sint (l2Entry AND qcow2OffsetMask) in
          bindE (guardE (qcow2_bad_region q hostOffset \<or>
                         regionsOverlap hostOffset (q_clusterSize q) l2TableOffset (q_clusterSize q))
                   (BadDataCluster hostOffset)) (\<lambda>_.
          Inr (At hostOffset)))))))"

section \<open>VHD\<close>

record vhdLogicalDisk =
  v_file :: disk_file
  v_fixed :: bool
  v_batOffset :: int
  v_blockSize :: int
  v_bitmapBytes :: int
  v_maxEntries :: "32 word"

definition vhdFooterSize :: int where
  "vhdFooterSize = 512"

definition newDynamicVHD :: "disk_file \<Rightarrow> int \<Rightarrow> disk_error + vhdLogicalDisk" where
  "newDynamicVHD f dataOffset =
     bindE (readAtBounded f dataOffset 1024) (\<lambda>header.
     bindE (guardE (take 8 header \<noteq> ascii ''cxsparse'') NoSparseHeader) (\<lambda>_.
     let tableOffset = sint (be64 (slice_of header 16 24));
         maxEntries = be32 (slice_of header 28 32);
         blockSize = uint (be32 (slice_of header 32 36)) in
     bindE (guardE (blockSize \<le> 0 \<or> maxMappedRegionSize < blockSize \<or> 2 ^ 24 < maxEntries)
              (BadVHDGeometry blockSize maxEntries)) (\<lambda>_.
     let bitmapBits = blockSize sdiv 512;
         bitmapBytes = (bitmapBits + 7) sdiv 8;
         bitmapSectors = (bitmapBytes + 511) sdiv 512 in
     Inr \<lparr>v_file = f, v_fixed = False, v_batOffset = tableOffset, v_blockSize = blockSize,
          v_bitmapBytes = bitmapSectors * 512, v_maxEntries = maxEntries\<rparr>)))"

definition newVHDLogicalDisk :: "disk_file \<Rightarrow> disk_error + vhdLogicalDisk" where
  "newVHDLogicalDisk f =
     bindE (file_stat f) (\<lambda>size.
     bindE (guardE (size < vhdFooterSize) VHDTooSmall) (\<lambda>_.
     bindE (readAtBounded f (size - vhdFooterSize) vhdFooterSize) (\<lambda>footer.
     bindE (guardE (take 8 footer \<noteq> ascii ''conectix'') NoVHDFooter) (\<lambda>_.
     let diskType = be32 (slice_of footer 60 64) in
     if diskType = 2 then
       Inr \<lparr>v_file = f, v_fixed = True, v_batOffset = 0, v_blockSize = 0, v_bitmapBytes = 0, v_maxEntries = 0\<rparr>
     else if diskType = 3 then newDynamicVHD f (sint (be64 (slice_of footer 16 24)))
     else Inl (UnsupportedVHDType diskType)))))"

definition vhd_locate :: "vhdLogicalDisk \<Rightarrow> int \<Rightarrow> disk_error + location" where
  "vhd_locate v offset =
     (let blockIndex = offset sdiv v_blockSize v in
      bindE (guardE (blockIndex < 0 \<or> uint (v_maxEntries v) \<le> blockIndex mod 2 ^ 32) (BeyondBAT offset blockIndex)) (\<lambda>_.
      bindE (readAtBounded (v_file v) (i64 (v_batOffset v + blockIndex * 4)) 4) (\<lambda>entryBytes.
      let entry = be32 entryBytes in
      Inr (if entry = 0xFFFFFFFF then Hole else At (uint entry * 512 + v_bitmapBytes v)))))"

section \<open>VHDX\<close>

record vhdxLogicalDisk =
  x_file :: disk_file
  x_batOffset :: int
  x_blockSize :: int

definition vhdxRegionTableOffset :: int where "vhdxRegionTableOffset = 192 * 1024"
definition vhdxRegionTableCopyOffset :: int where "vhdxRegionTableCopyOffset = 256 * 1024"
definition vhdxRegionBAT :: "byte list" where
  "vhdxRegionBAT = [0x66, 0x77, 0xC2, 0x2D, 0x23, 0xF6, 0x00, 0x42, 0x9D, 0x64, 0x11, 0x5E, 0x9B, 0xFD, 0x4A, 0x08]"
definition vhdxRegionMetadata :: "byte list" where
  "vhdxRegionMetadata = [0x06, 0xA2, 0x7C, 0x8B, 0x90, 0x47, 0x9A, 0x4B, 0xB8, 0xFE, 0x57, 0x5F, 0x05, 0x0F, 0x88, 0x6E]"
definition vhdxMetaFileParams :: "byte list" where
  "vhdxMetaFileParams = [0x37, 0x67, 0xA1, 0xCA, 0x36, 0xFA, 0x43, 0x4D, 0xB3, 0xB6, 0x33, 0xF0, 0xAA, 0x44, 0xE7, 0x6B]"

text \<open>A region is its offset and length; the last entry of the table with a given identifier counts.\<close>

type_synonym region = "int \<times> int"

fun region_loop ::
  "disk_file \<Rightarrow> int \<Rightarrow> nat list \<Rightarrow> region option \<Rightarrow> region option \<Rightarrow> disk_error + region option \<times> region option" where
  "region_loop f base [] bat meta = Inr (bat, meta)"
| "region_loop f base (i # is) bat meta =
     bindE (readAtBounded f (base + 16 + int i * 32) 32) (\<lambda>entry.
     let guid = slice_of entry 0 16;
         r = (sint (le64 (slice_of entry 16 24)), uint (le32 (slice_of entry 24 28))) in
     if guid = vhdxRegionBAT then region_loop f base is (Some r) meta
     else if guid = vhdxRegionMetadata then region_loop f base is bat (Some r)
     else region_loop f base is bat meta)"

fun vhdx_tables :: "disk_file \<Rightarrow> int list \<Rightarrow> disk_error + region \<times> region" where
  "vhdx_tables f [] = Inl NoVHDXRegions"
| "vhdx_tables f (base # bases) =
     (case readAtBounded f base 16 of
        Inl _ \<Rightarrow> vhdx_tables f bases
      | Inr header \<Rightarrow>
          if take 4 header \<noteq> ascii ''regi'' then vhdx_tables f bases
          else let entryCount = le32 (slice_of header 8 12) in
            if 2048 < entryCount then vhdx_tables f bases
            else bindE (region_loop f base [0..<unat entryCount] None None) (\<lambda>(bat, meta).
              case (bat, meta) of (Some b, Some m) \<Rightarrow> Inr (b, m) | _ \<Rightarrow> vhdx_tables f bases))"

definition vhdxRegions :: "disk_file \<Rightarrow> disk_error + region \<times> region" where
  "vhdxRegions f = vhdx_tables f [vhdxRegionTableOffset, vhdxRegionTableCopyOffset]"

fun parameter_loop :: "disk_file \<Rightarrow> int \<Rightarrow> nat list \<Rightarrow> disk_error + int \<times> bool" where
  "parameter_loop f metaOffset [] = Inl NoFileParameters"
| "parameter_loop f metaOffset (i # is) =
     bindE (readAtBounded f (i64 (metaOffset + 32 + int i * 32)) 32) (\<lambda>entry.
     if slice_of entry 0 16 \<noteq> vhdxMetaFileParams then parameter_loop f metaOffset is
     else let itemOffset = uint (le32 (slice_of entry 16 20)) in
       bindE (readAtBounded f (i64 (metaOffset + itemOffset)) 8) (\<lambda>item.
       Inr (uint (le32 (slice_of item 0 4)), le32 (slice_of item 4 8) AND 2 \<noteq> 0)))"

definition vhdxFileParameters :: "disk_file \<Rightarrow> int \<Rightarrow> int \<Rightarrow> disk_error + int \<times> bool" where
  "vhdxFileParameters f metaOffset metaLength =
     bindE (guardE (metaLength < 32 \<or> 4 * 2 ^ 20 < metaLength) (BadMetadataLength metaLength)) (\<lambda>_.
     bindE (readAtBounded f metaOffset 12) (\<lambda>header.
     bindE (guardE (take 8 header \<noteq> ascii ''metadata'') NoMetadataSignature) (\<lambda>_.
     let entryCount = be16LE (slice_of header 10 12) in
     bindE (guardE (2048 < entryCount) (BadMetadataCount entryCount)) (\<lambda>_.
     parameter_loop f metaOffset [0..<unat entryCount]))))"

definition newVHDXLogicalDisk :: "disk_file \<Rightarrow> disk_error + vhdxLogicalDisk" where
  "newVHDXLogicalDisk f =
     bindE (vhdxRegions f) (\<lambda>(bat, meta).
     bindE (vhdxFileParameters f (fst meta) (snd meta)) (\<lambda>(blockSize, hasParent).
     bindE (guardE hasParent HasParent) (\<lambda>_.
     bindE (guardE (blockSize \<le> 0 \<or> maxMappedRegionSize < blockSize) (BadVHDXBlockSize blockSize)) (\<lambda>_.
     bindE (guardE (snd bat \<le> 0) EmptyBAT) (\<lambda>_.
     Inr \<lparr>x_file = f, x_batOffset = fst bat, x_blockSize = blockSize\<rparr>)))))"

definition vhdx_locate :: "vhdxLogicalDisk \<Rightarrow> int \<Rightarrow> disk_error + location" where
  "vhdx_locate v offset =
     (let blockIndex = offset sdiv x_blockSize v in
      bindE (readAtBounded (x_file v) (i64 (x_batOffset v + blockIndex * 8)) 8) (\<lambda>entryBytes.
      let entry = le64 entryBytes; state = entry AND 7 in
      Inr (if state \<noteq> 6 then Hole else At (i64 (sint (drop_bit 20 entry) * 2 ^ 20)))))"

section \<open>VMDK\<close>

record vmdkLogicalDisk =
  k_file :: disk_file
  k_gdOffsetBytes :: int
  k_grainSectors :: int
  k_grainBytes :: int
  k_gtEntries :: int

definition invalidVMDKOffset :: "64 word" where
  "invalidVMDKOffset = 0xFFFFFFFFFFFFFFFF"

definition newVMDKLogicalDisk :: "disk_file \<Rightarrow> disk_error + vmdkLogicalDisk" where
  "newVMDKLogicalDisk f =
     bindE (readAtBounded f 0 512) (\<lambda>header.
     bindE (guardE (take 4 header \<noteq> ascii ''KDMV'') TextDescriptor) (\<lambda>_.
     let grainSectors = sint (le64 (slice_of header 20 28));
         gtEntries = uint (le32 (slice_of header 44 48));
         gdOffset0 = le64 (slice_of header 56 64);
         rgdOffset = le64 (slice_of header 48 56);
         gdOffset = (if gdOffset0 = 0 \<or> gdOffset0 = invalidVMDKOffset then rgdOffset else gdOffset0) in
     bindE (guardE (gdOffset = 0 \<or> gdOffset = invalidVMDKOffset) NoGrainDirectory) (\<lambda>_.
     bindE (guardE (grainSectors \<le> 0 \<or> maxMappedRegionSize < i64 (grainSectors * 512) \<or> gtEntries \<le> 0 \<or> 2 ^ 20 < gtEntries)
              (BadGrainGeometry grainSectors gtEntries)) (\<lambda>_.
     Inr \<lparr>k_file = f, k_gdOffsetBytes = i64 (sint gdOffset * 512), k_grainSectors = grainSectors,
          k_grainBytes = i64 (grainSectors * 512), k_gtEntries = gtEntries\<rparr>))))"

definition vmdk_locate :: "vmdkLogicalDisk \<Rightarrow> int \<Rightarrow> disk_error + location" where
  "vmdk_locate v offset =
     (let grainIndex = offset sdiv k_grainBytes v;
          gtIndex = grainIndex sdiv k_gtEntries v;
          entryIndex = grainIndex smod k_gtEntries v in
      bindE (readAtBounded (k_file v) (i64 (k_gdOffsetBytes v + gtIndex * 4)) 4) (\<lambda>gdEntryBytes.
      let gdEntry = le32 gdEntryBytes in
      if gdEntry = 0 then Inr Hole
      else
        bindE (readAtBounded (k_file v) (i64 (uint gdEntry * 512 + entryIndex * 4)) 4) (\<lambda>gtEntryBytes.
        let gtEntry = le32 gtEntryBytes in
        Inr (if gtEntry = 0 then Hole else At (uint gtEntry * 512)))))"

section \<open>The interface of the five formats\<close>

datatype logicalDisk =
    rawLogicalDisk disk_file
  | VHD vhdLogicalDisk
  | VHDX vhdxLogicalDisk
  | QCOW2 qcow2LogicalDisk
  | VMDK vmdkLogicalDisk

text \<open>
  The loops start with \<^verbatim>\<open>make([]byte, 0, length)\<close>, which panics for a negative length and for one beyond the
  address space; \<^verbatim>\<open>readAtBounded\<close> refuses both.
\<close>

definition mapped_read ::
  "disk_file \<Rightarrow> int \<Rightarrow> (int \<Rightarrow> disk_error + location) \<Rightarrow> int \<Rightarrow> int \<Rightarrow> disk_error + byte list" where
  "mapped_read f block lookup offset len =
     (if len < 0 \<or> maxAlloc < len then Inl Panic else read_loop f block lookup offset len)"

definition vhd_ReadLogical :: "vhdLogicalDisk \<Rightarrow> int \<Rightarrow> int \<Rightarrow> disk_error + byte list" where
  "vhd_ReadLogical v offset len =
     (if v_fixed v then readAtBounded (v_file v) offset len
      else mapped_read (v_file v) (v_blockSize v) (vhd_locate v) offset len)"

definition vhdx_ReadLogical :: "vhdxLogicalDisk \<Rightarrow> int \<Rightarrow> int \<Rightarrow> disk_error + byte list" where
  "vhdx_ReadLogical v = mapped_read (x_file v) (x_blockSize v) (vhdx_locate v)"

definition qcow2_ReadLogical :: "qcow2LogicalDisk \<Rightarrow> int \<Rightarrow> int \<Rightarrow> disk_error + byte list" where
  "qcow2_ReadLogical q = mapped_read (q_file q) (q_clusterSize q) (qcow2_locate q)"

definition vmdk_ReadLogical :: "vmdkLogicalDisk \<Rightarrow> int \<Rightarrow> int \<Rightarrow> disk_error + byte list" where
  "vmdk_ReadLogical v = mapped_read (k_file v) (k_grainBytes v) (vmdk_locate v)"

fun ReadLogical :: "logicalDisk \<Rightarrow> int \<Rightarrow> int \<Rightarrow> disk_error + byte list" where
  "ReadLogical (rawLogicalDisk f) offset len = readAtBounded f offset len"
| "ReadLogical (VHD v) offset len = vhd_ReadLogical v offset len"
| "ReadLogical (VHDX v) offset len = vhdx_ReadLogical v offset len"
| "ReadLogical (QCOW2 q) offset len = qcow2_ReadLogical q offset len"
| "ReadLogical (VMDK v) offset len = vmdk_ReadLogical v offset len"

text \<open>
  Opening a path yields an error or the file: the checks that it is a regular file, no symbolic link
  and not exchanged while it is opened are the left value.
\<close>

definition openLogicalDisk :: "disk_error + disk_file \<Rightarrow> Format \<Rightarrow> disk_error + logicalDisk" where
  "openLogicalDisk opened format =
     bindE opened (\<lambda>f.
     case format of
       FormatRAW \<Rightarrow> Inr (rawLogicalDisk f)
     | FormatVHD \<Rightarrow> bindE (newVHDLogicalDisk f) (\<lambda>v. Inr (VHD v))
     | FormatVHDX \<Rightarrow> bindE (newVHDXLogicalDisk f) (\<lambda>v. Inr (VHDX v))
     | FormatQCOW2 \<Rightarrow> bindE (newQCOW2LogicalDisk f) (\<lambda>q. Inr (QCOW2 q))
     | FormatVMDK \<Rightarrow> bindE (newVMDKLogicalDisk f) (\<lambda>v. Inr (VMDK v))
     | FormatISO \<Rightarrow> Inl (NoMapping FormatISO))"

section \<open>The disk as an array of bytes\<close>

text \<open>
  The location the lookup of a format assigns to each position of the disk, and the byte found there: zero in a
  hole and the byte of the file elsewhere.
\<close>

definition shift_location :: "location \<Rightarrow> int \<Rightarrow> location" where
  "shift_location loc k = (case loc of Hole \<Rightarrow> Hole | At base \<Rightarrow> At (i64 (base + k)))"

definition byte_location :: "int \<Rightarrow> (int \<Rightarrow> disk_error + location) \<Rightarrow> int \<Rightarrow> disk_error + location" where
  "byte_location block lookup p = bindE (lookup p) (\<lambda>loc. Inr (shift_location loc (p smod block)))"

definition location_byte :: "disk_file \<Rightarrow> location \<Rightarrow> byte" where
  "location_byte f loc = (case loc of Hole \<Rightarrow> 0 | At q \<Rightarrow> file_byte f q)"

definition readable :: "disk_file \<Rightarrow> location \<Rightarrow> bool" where
  "readable f loc = (case loc of Hole \<Rightarrow> True | At q \<Rightarrow> 0 \<le> q \<and> q + 1 < 2 ^ 63 \<and> (q < df_size f \<longrightarrow> \<not> df_bad f q))"

fun disk_location :: "logicalDisk \<Rightarrow> int \<Rightarrow> disk_error + location" where
  "disk_location (rawLogicalDisk f) p = Inr (At p)"
| "disk_location (VHD v) p = (if v_fixed v then Inr (At p) else byte_location (v_blockSize v) (vhd_locate v) p)"
| "disk_location (VHDX v) p = byte_location (x_blockSize v) (vhdx_locate v) p"
| "disk_location (QCOW2 q) p = byte_location (q_clusterSize q) (qcow2_locate q) p"
| "disk_location (VMDK v) p = byte_location (k_grainBytes v) (vmdk_locate v) p"

lemma i64_cases: "in_i64 a \<Longrightarrow> 0 \<le> k \<Longrightarrow> k < 2 ^ 63 \<Longrightarrow> i64 (a + k) = a + k \<and> a + k < 2 ^ 63 \<or> i64 (a + k) < 0 \<and> 2 ^ 63 \<le> a + k"
proof -
  assume a: "in_i64 a" and k: "0 \<le> k" "k < 2 ^ 63"
  show ?thesis
  proof (cases "a + k < 2 ^ 63")
    case True
    with a k show ?thesis by (auto simp: in_i64_def intro: i64_id)
  next
    case False
    have "a + k + 2 ^ 63 = (a + k - 2 ^ 63) + 2 ^ 64" by simp
    then have "i64 (a + k) = (a + k - 2 ^ 63) mod 2 ^ 64 - 2 ^ 63"
      unfolding i64_def by (simp only: mod_add_self2)
    also have "\<dots> = a + k - 2 ^ 64" using False a k by (simp add: in_i64_def)
    finally show ?thesis using False a k by (simp add: in_i64_def)
  qed
qed

lemma read_block_byte:
  assumes "df_size f < 2 ^ 63" "read_block f loc inBlock chunk = Inr d" "i < nat chunk"
  shows "readable f (shift_location loc (inBlock + int i)) \<and> d ! i = location_byte f (shift_location loc (inBlock + int i))"
proof (cases loc)
  case Hole
  with assms show ?thesis by (auto simp: read_block_def make_zeros_def location_byte_def shift_location_def readable_def split: if_splits)
next
  case (At base)
  with assms have *: "0 \<le> i64 (base + inBlock)" "chunk \<le> maxMappedRegionSize" "d = file_bytes f (i64 (base + inBlock)) chunk"
    by (auto simp: read_block_def readAtBounded_def split: if_splits)
  from At assms have "\<not> unreadable f (i64 (base + inBlock)) chunk"
    by (auto simp: read_block_def readAtBounded_def split: if_splits)
  with assms(3) have last: "i64 (base + inBlock) + int i + 1 < 2 ^ 63"
    "i64 (base + inBlock) + int i < df_size f \<longrightarrow> \<not> df_bad f (i64 (base + inBlock) + int i)"
    by (auto simp: unreadable_def list_ex_iff)
  with *(1) have "i64 (i64 (base + inBlock) + int i) = i64 (base + inBlock) + int i" by (intro i64_id) auto
  then have shift: "shift_location loc (inBlock + int i) = At (i64 (base + inBlock) + int i)"
    using At by (simp add: shift_location_def i64_add add.assoc)
  with * last assms(3) shift show ?thesis by (simp add: file_bytes_def location_byte_def readable_def)
qed

text \<open>
  What the loop needs of a lookup: all positions of one block give the same location.
\<close>

locale block_map =
  fixes f :: disk_file and block :: int and lookup :: "int \<Rightarrow> disk_error + location"
  assumes same_block:
    "0 < block \<Longrightarrow> 0 \<le> a \<Longrightarrow> 0 \<le> b \<Longrightarrow> a div block = b div block \<Longrightarrow> lookup a = Inr loc \<Longrightarrow> lookup b = Inr loc"
begin

lemma in_chunk:
  assumes "0 < block" "0 \<le> off" "0 \<le> k" "k < block - off mod block"
  shows "(off + k) div block = off div block" and "(off + k) mod block = off mod block + k"
proof -
  have "0 \<le> off mod block" using assms(1) by simp
  moreover have "off + k = off div block * block + (off mod block + k)" by simp
  ultimately have q: "(off + k) div block = off div block + (off mod block + k) div block" "(off + k) mod block = (off mod block + k) mod block"
    using assms by (metis div_mult_self3 less_irrefl, metis mod_mult_self3)
  show "(off + k) div block = off div block" "(off + k) mod block = off mod block + k"
    using assms q \<open>0 \<le> off mod block\<close> by (simp_all add: div_pos_pos_trivial mod_pos_pos_trivial)
qed

lemma chunk_location:
  assumes "0 < block" "0 \<le> off" "0 \<le> k" "k < block - off mod block" "lookup off = Inr loc"
  shows "byte_location block lookup (off + k) = Inr (shift_location loc (off mod block + k))"
  using assms in_chunk [OF assms(1-4)] same_block [of off "off + k" loc]
  by (simp add: byte_location_def smod_mod_positive)

lemma read_loop_step:
  assumes "0 < block" "0 \<le> off" "0 < n" and chunk: "chunk = min (block - off mod block) n"
  shows "0 < chunk" "chunk \<le> n" "chunk \<le> block - off mod block"
    and "read_loop f block lookup off n =
      bindE (lookup off) (\<lambda>loc. bindE (read_block f loc (off mod block) chunk) (\<lambda>d.
        bindE (read_loop f block lookup (i64 (off + chunk)) (n - chunk)) (\<lambda>rest. Inr (d @ rest))))"
  using assms pos_mod_bound [of block off]
  by (simp_all add: read_loop.simps [of f block lookup off n] smod_mod_positive Let_def)

lemma read_loop_sound:
  assumes "df_size f < 2 ^ 63" "0 < block" "0 \<le> off" "off + n \<le> 2 ^ 63" "read_loop f block lookup off n = Inr bs"
  shows "length bs = nat n \<and>
    (\<forall>i < nat n. \<exists>loc. byte_location block lookup (off + int i) = Inr loc \<and> readable f loc \<and> bs ! i = location_byte f loc)"
  using assms(3-)
proof (induction "nat n" arbitrary: off n bs rule: less_induct)
  case less
  show ?case
  proof (cases "0 < n")
    case False
    with less.prems show ?thesis by (simp add: read_loop.simps)
  next
    case True
    define chunk where "chunk = min (block - off mod block) n"
    note step = read_loop_step [OF assms(2) less.prems(1) True chunk_def]
    obtain loc d rest where r: "lookup off = Inr loc" "read_block f loc (off mod block) chunk = Inr d"
        "read_loop f block lookup (i64 (off + chunk)) (n - chunk) = Inr rest" "bs = d @ rest"
      using less.prems(3) step(4) by (auto simp: bindE_Inr)
    have d: "length d = nat chunk" "\<forall>i < nat chunk. readable f (shift_location loc (off mod block + int i)) \<and> d ! i = location_byte f (shift_location loc (off mod block + int i))"
      using read_block_nonneg [OF r(2)] read_block_byte [OF assms(1) r(2)] by auto
    have here: "byte_location block lookup (off + int i) = Inr (shift_location loc (off mod block + int i))" if "i < nat chunk" for i
      using chunk_location [OF assms(2) less.prems(1) _ _ r(1), of "int i"] step that by simp
    have rest: "length rest = nat (n - chunk) \<and> (\<forall>i < nat (n - chunk). \<exists>loc.
        byte_location block lookup (off + chunk + int i) = Inr loc \<and> readable f loc \<and> rest ! i = location_byte f loc)"
    proof (cases "chunk = n")
      case True
      with r(3) show ?thesis by (simp add: read_loop.simps)
    next
      case False
      then have "i64 (off + chunk) = off + chunk" using step less.prems by (simp add: i64_id)
      with less.hyps [of "n - chunk" "off + chunk" rest] less.prems r(3) step False show ?thesis by simp
    qed
    have "\<exists>loc. byte_location block lookup (off + int i) = Inr loc \<and> readable f loc \<and> bs ! i = location_byte f loc" if "i < nat n" for i
    proof (cases "i < nat chunk")
      case True
      with here [OF True] d r(4) show ?thesis by (simp add: nth_append)
    next
      case False
      then have "off + int i = off + chunk + int (i - nat chunk)" "i - nat chunk < nat (n - chunk)" using that step by auto
      with rest d(1) r(4) False show ?thesis by (auto simp: nth_append)
    qed
    with rest d(1) r(4) step show ?thesis by auto
  qed
qed

lemma read_block_readable:
  assumes "0 \<le> chunk" "chunk \<le> maxMappedRegionSize"
    "\<And>i. i < nat chunk \<Longrightarrow> readable f (shift_location loc (inBlock + int i))" "0 < chunk"
  shows "\<exists>d. read_block f loc inBlock chunk = Inr d"
proof (cases loc)
  case Hole
  with assms show ?thesis by (simp add: read_block_def make_zeros_def maxAlloc_def maxMappedRegionSize_def)
next
  case (At base)
  let ?p = "i64 (base + inBlock)"
  have "0 \<le> ?p" using assms(3) [of 0] assms(4) At by (simp add: readable_def shift_location_def)
  moreover have "\<not> (?p + int i < df_size f \<and> df_bad f (?p + int i))" if "i < nat chunk" for i
  proof -
    have "i64 (?p + int i) = ?p + int i \<or> i64 (?p + int i) < 0"
      using i64_cases [of ?p "int i"] assms(2) that by (auto simp: i64_range maxMappedRegionSize_def)
    moreover have "readable f (At (i64 (?p + int i)))"
      using assms(3) [OF that] At by (simp add: shift_location_def i64_add add.assoc)
    ultimately show ?thesis by (auto simp: readable_def)
  qed
  moreover have "?p + chunk < 2 ^ 63"
  proof -
    have "i64 (?p + (chunk - 1)) + 1 < 2 ^ 63" "0 \<le> i64 (?p + (chunk - 1))"
      using assms(3) [of "nat (chunk - 1)"] assms(4) At
      by (simp_all add: readable_def shift_location_def i64_add add.assoc)
    with i64_cases [of ?p "chunk - 1"] assms(2,4) show ?thesis by (auto simp: i64_range maxMappedRegionSize_def)
  qed
  ultimately show ?thesis using assms(1,2) At by (auto simp: read_block_def readAtBounded_def unreadable_def list_ex_iff)
qed

lemma read_loop_complete:
  assumes "0 < block" "block \<le> maxMappedRegionSize" "0 \<le> off" "off + n \<le> 2 ^ 63"
    "\<forall>i < nat n. \<exists>loc. byte_location block lookup (off + int i) = Inr loc \<and> readable f loc"
  shows "\<exists>bs. read_loop f block lookup off n = Inr bs"
  using assms(3-)
proof (induction "nat n" arbitrary: off n rule: less_induct)
  case less
  show ?case
  proof (cases "0 < n")
    case False
    then show ?thesis by (simp add: read_loop.simps)
  next
    case True
    define chunk where "chunk = min (block - off mod block) n"
    note step = read_loop_step [OF assms(1) less.prems(1) True chunk_def]
    obtain loc where loc: "lookup off = Inr loc"
      using less.prems(3) [rule_format, of 0] True by (auto simp: byte_location_def bindE_Inr)
    have "readable f (shift_location loc (off mod block + int i))" if "i < nat chunk" for i
      using less.prems(3) [rule_format, of i] chunk_location [OF assms(1) less.prems(1) _ _ loc, of "int i"] that step by auto
    moreover have "chunk \<le> maxMappedRegionSize" using step assms(1,2) pos_mod_sign [of block off] by linarith
    ultimately obtain d where d: "read_block f loc (off mod block) chunk = Inr d"
      using read_block_readable [of chunk loc "off mod block"] step by auto
    have "\<exists>rest. read_loop f block lookup (i64 (off + chunk)) (n - chunk) = Inr rest"
    proof (cases "chunk = n")
      case False
      then have "i64 (off + chunk) = off + chunk" using step less.prems by (simp add: i64_id)
      moreover have "\<exists>loc. byte_location block lookup (off + chunk + int i) = Inr loc \<and> readable f loc" if "i < nat (n - chunk)" for i
        using less.prems(3) [rule_format, of "nat chunk + i"] that step by (simp add: add.assoc)
      ultimately show ?thesis using less.hyps [of "n - chunk" "off + chunk"] less.prems step False by simp
    qed (simp add: read_loop.simps)
    with step(4) loc d show ?thesis by auto
  qed
qed

end

interpretation qcow2: block_map "q_file q" "q_clusterSize q" "qcow2_locate q" for q
  by unfold_locales (auto simp: qcow2_locate_def sdiv_div_positive Let_def bindE_Inr guardE_Inr split: if_splits)

interpretation vhd: block_map "v_file v" "v_blockSize v" "vhd_locate v" for v
  by unfold_locales (auto simp: vhd_locate_def sdiv_div_positive Let_def bindE_Inr guardE_Inr)

interpretation vhdx: block_map "x_file v" "x_blockSize v" "vhdx_locate v" for v
  by unfold_locales (auto simp: vhdx_locate_def sdiv_div_positive Let_def bindE_Inr)

interpretation vmdk: block_map "k_file v" "k_grainBytes v" "vmdk_locate v" for v
  by unfold_locales (auto simp: vmdk_locate_def sdiv_div_positive Let_def bindE_Inr split: if_splits)

section \<open>What opening establishes\<close>

lemma newQCOW2_ok:
  assumes "newQCOW2LogicalDisk f = Inr q"
  shows "q_file q = f" "q_fileSize q = df_size f" "512 \<le> q_clusterSize q" "q_clusterSize q \<le> 2 ^ 21"
    "q_l2Entries q = q_clusterSize q div 8" "72 \<le> q_l1TableOffset q"
    "q_l1TableOffset q + uint (q_l1Size q) * 8 \<le> df_size f" "uint (q_l1Size q) \<le> 2 ^ 24"
proof -
  obtain bits where b: "\<not> bits < 9" "\<not> 21 < bits" "q_clusterSize q = 2 ^ unat (bits :: 32 word)"
    using assms by (auto simp: newQCOW2LogicalDisk_def bindE_Inr guardE_Inr Let_def)
  have "9 \<le> unat bits" "unat bits \<le> 21" using b(1,2) by (simp_all add: word_less_nat_alt not_less)
  then have "(2::int) ^ 9 \<le> 2 ^ unat bits" "(2::int) ^ unat bits \<le> 2 ^ 21" by (simp_all only: power_increasing_iff)
  with b(3) show "512 \<le> q_clusterSize q" "q_clusterSize q \<le> 2 ^ 21" by simp_all
  show "q_file q = f" "q_fileSize q = df_size f" "q_l2Entries q = q_clusterSize q div 8" "72 \<le> q_l1TableOffset q"
    "q_l1TableOffset q + uint (q_l1Size q) * 8 \<le> df_size f" "uint (q_l1Size q) \<le> 2 ^ 24"
    using assms by (auto simp: newQCOW2LogicalDisk_def bindE_Inr guardE_Inr Let_def file_stat_def sdiv_div_positive
        word_less_def not_less split: if_splits)
qed

lemma uint_pos_iff: "0 < uint (w :: 'a :: len word) \<longleftrightarrow> uint w \<noteq> 0"
  using uint_ge_0 [of w] by (simp only: order.strict_iff_order) auto

lemma newVHD_ok:
  assumes "newVHDLogicalDisk f = Inr v"
  shows "v_file v = f" "v_fixed v \<or> 0 < v_blockSize v \<and> v_blockSize v \<le> maxMappedRegionSize"
  using assms by (auto simp: uint_pos_iff newVHDLogicalDisk_def newDynamicVHD_def bindE_Inr guardE_Inr Let_def split: if_splits)

lemma newVHDX_ok:
  assumes "newVHDXLogicalDisk f = Inr v"
  shows "x_file v = f" "0 < x_blockSize v \<and> x_blockSize v \<le> maxMappedRegionSize"
  using assms by (auto simp: newVHDXLogicalDisk_def bindE_Inr guardE_Inr split_beta)

lemma newVMDK_ok:
  assumes "newVMDKLogicalDisk f = Inr v"
  shows "k_file v = f" "k_grainBytes v \<le> maxMappedRegionSize" "0 < k_gtEntries v"
  using assms by (auto simp: uint_pos_iff newVMDKLogicalDisk_def bindE_Inr guardE_Inr Let_def not_le not_less)

text \<open>A loop with a block size that is zero or negative returns no data.\<close>

lemma read_loop_no_block: "block \<le> 0 \<Longrightarrow> 0 < n \<Longrightarrow> \<exists>e. read_loop f block lookup off n = Inl e"
proof (cases "block = 0")
  case False
  assume "block \<le> 0" "0 < n"
  then have "block - off smod block < 0" using False smod_abs_less [of block off] by linarith
  then have "min (block - off smod block) n < 0" by simp
  then have "read_block f loc (off smod block) (min (block - off smod block) n) \<noteq> Inr d" for loc d
    using read_block_nonneg [of f loc "off smod block" "min (block - off smod block) n" d] by auto
  then have "read_loop f block lookup off n \<noteq> Inr bs" for bs
    using False \<open>0 < n\<close> by (subst read_loop.simps) (auto simp: Let_def bindE_Inr)
  then show ?thesis by (cases "read_loop f block lookup off n") auto
qed (simp add: read_loop.simps)

fun positive_blocks :: "logicalDisk \<Rightarrow> bool" where
  "positive_blocks (VMDK v) = (0 < k_grainBytes v)"
| "positive_blocks _ = True"

definition presents :: "disk_file \<Rightarrow> logicalDisk \<Rightarrow> int \<Rightarrow> byte list \<Rightarrow> bool" where
  "presents f d off bs \<longleftrightarrow>
     (\<forall>i < length bs. \<exists>loc. disk_location d (off + int i) = Inr loc \<and> readable f loc \<and> bs ! i = location_byte f loc)"

lemma read_raw:
  assumes "readAtBounded f off n = Inr bs"
  shows "length bs = nat n \<and> (\<forall>i < nat n. readable f (At (off + int i)) \<and> bs ! i = location_byte f (At (off + int i)))"
  using assms by (auto simp: readAtBounded_def file_bytes_def location_byte_def readable_def unreadable_def list_ex_iff split: if_splits)

lemma read_raw_complete:
  assumes "0 \<le> off" "0 \<le> n" "n \<le> maxMappedRegionSize" "\<forall>i < nat n. readable f (At (off + int i))"
  shows "\<exists>bs. readAtBounded f off n = Inr bs"
proof -
  have "0 < n \<Longrightarrow> off + n < 2 ^ 63" using assms(4) [rule_format, of "nat (n - 1)"] by (simp add: readable_def)
  with assms show ?thesis by (auto simp: readAtBounded_def unreadable_def list_ex_iff readable_def)
qed

lemma ReadLogical_sound:
  assumes "openLogicalDisk (Inr f) format = Inr d" "df_size f < 2 ^ 63" "0 \<le> off" "0 \<le> n" "off + n \<le> 2 ^ 63"
    and "ReadLogical d off n = Inr bs"
  shows "length bs = nat n \<and> presents f d off bs"
proof (cases d)
  case (rawLogicalDisk g)
  with assms read_raw [of f off n bs] show ?thesis
    by (auto simp: openLogicalDisk_def bindE_Inr presents_def split: Format.splits)
next
  case (VHD v)
  then have v: "newVHDLogicalDisk f = Inr v" using assms(1) by (auto simp: openLogicalDisk_def bindE_Inr split: Format.splits)
  with assms VHD read_raw [of f off n bs] vhd.read_loop_sound [of v off n bs] newVHD_ok [OF v] show ?thesis
    by (auto simp: vhd_ReadLogical_def mapped_read_def presents_def split: if_splits)
next
  case (VHDX v)
  then have v: "newVHDXLogicalDisk f = Inr v" using assms(1) by (auto simp: openLogicalDisk_def bindE_Inr split: Format.splits)
  with assms VHDX vhdx.read_loop_sound [of v off n bs] newVHDX_ok [OF v] show ?thesis
    by (auto simp: vhdx_ReadLogical_def mapped_read_def presents_def split: if_splits)
next
  case (QCOW2 q)
  then have q: "newQCOW2LogicalDisk f = Inr q" using assms(1) by (auto simp: openLogicalDisk_def bindE_Inr split: Format.splits)
  with assms QCOW2 qcow2.read_loop_sound [of q off n bs] newQCOW2_ok(1-4) [OF q] show ?thesis
    by (auto simp: qcow2_ReadLogical_def mapped_read_def presents_def split: if_splits)
next
  case (VMDK v)
  then have v: "newVMDKLogicalDisk f = Inr v" using assms(1) by (auto simp: openLogicalDisk_def bindE_Inr split: Format.splits)
  show ?thesis
  proof (cases "0 < k_grainBytes v")
    case True
    with assms VMDK vmdk.read_loop_sound [of v off n bs] newVMDK_ok [OF v] show ?thesis
      by (auto simp: vmdk_ReadLogical_def mapped_read_def presents_def split: if_splits)
  next
    case False
    with assms VMDK read_loop_no_block [of "k_grainBytes v" n "k_file v" "vmdk_locate v" off] show ?thesis
      by (cases "n = 0") (auto simp: vmdk_ReadLogical_def mapped_read_def presents_def read_loop.simps split: if_splits)
  qed
qed

lemma ReadLogical_complete:
  assumes "openLogicalDisk (Inr f) format = Inr d" "0 \<le> off" "0 \<le> n" "off + n \<le> 2 ^ 63"
    and "n \<le> maxMappedRegionSize" "positive_blocks d"
    and "\<forall>i < nat n. \<exists>loc. disk_location d (off + int i) = Inr loc \<and> readable f loc"
  shows "\<exists>bs. ReadLogical d off n = Inr bs"
proof (cases d)
  case (rawLogicalDisk g)
  with assms read_raw_complete [of off n f] show ?thesis
    by (auto simp: openLogicalDisk_def bindE_Inr split: Format.splits)
next
  case (VHD v)
  then have v: "newVHDLogicalDisk f = Inr v" using assms(1) by (auto simp: openLogicalDisk_def bindE_Inr split: Format.splits)
  with assms VHD read_raw_complete [of off n f] vhd.read_loop_complete [of v off n] newVHD_ok [OF v] show ?thesis
    by (auto simp: vhd_ReadLogical_def mapped_read_def maxAlloc_def maxMappedRegionSize_def)
next
  case (VHDX v)
  then have v: "newVHDXLogicalDisk f = Inr v" using assms(1) by (auto simp: openLogicalDisk_def bindE_Inr split: Format.splits)
  with assms VHDX vhdx.read_loop_complete [of v off n] newVHDX_ok [OF v] show ?thesis
    by (auto simp: vhdx_ReadLogical_def mapped_read_def maxAlloc_def maxMappedRegionSize_def)
next
  case (QCOW2 q)
  then have q: "newQCOW2LogicalDisk f = Inr q" using assms(1) by (auto simp: openLogicalDisk_def bindE_Inr split: Format.splits)
  with assms QCOW2 qcow2.read_loop_complete [of q off n] newQCOW2_ok(1-4) [OF q] show ?thesis
    by (auto simp: qcow2_ReadLogical_def mapped_read_def maxAlloc_def maxMappedRegionSize_def)
next
  case (VMDK v)
  then have v: "newVMDKLogicalDisk f = Inr v" using assms(1) by (auto simp: openLogicalDisk_def bindE_Inr split: Format.splits)
  with assms VMDK vmdk.read_loop_complete [of v off n] newVMDK_ok [OF v] show ?thesis
    by (auto simp: vmdk_ReadLogical_def mapped_read_def maxAlloc_def maxMappedRegionSize_def)
qed

lemma ReadLogical_positive_blocks:
  assumes "ReadLogical d off n = Inr bs" "0 < n"
  shows "positive_blocks d"
proof (cases d)
  case (VMDK v)
  then show ?thesis using assms read_loop_no_block [of "k_grainBytes v" n "k_file v" "vmdk_locate v" off]
    by (cases "0 < k_grainBytes v") (auto simp: vmdk_ReadLogical_def mapped_read_def split: if_splits)
qed simp_all

lemma ReadLogical_byte:
  assumes "openLogicalDisk (Inr f) format = Inr d" "df_size f < 2 ^ 63" "0 \<le> p" "p + 1 \<le> 2 ^ 63"
  shows "ReadLogical d p 1 = Inr [x] \<longleftrightarrow>
    positive_blocks d \<and> (\<exists>loc. disk_location d p = Inr loc \<and> readable f loc \<and> x = location_byte f loc)"
proof
  assume r: "ReadLogical d p 1 = Inr [x]"
  then have "presents f d p [x]" using ReadLogical_sound [OF assms(1-3) _ assms(4) r] by simp
  with ReadLogical_positive_blocks [OF r]
  show "positive_blocks d \<and> (\<exists>loc. disk_location d p = Inr loc \<and> readable f loc \<and> x = location_byte f loc)"
    by (simp add: presents_def)
next
  assume *: "positive_blocks d \<and> (\<exists>loc. disk_location d p = Inr loc \<and> readable f loc \<and> x = location_byte f loc)"
  then obtain bs where r: "ReadLogical d p 1 = Inr bs"
    using ReadLogical_complete [OF assms(1,3) _ assms(4)] by (auto simp: maxMappedRegionSize_def)
  have "length bs = 1 \<and> presents f d p bs" using ReadLogical_sound [OF assms(1-3) _ assms(4) r] by simp
  with * have "bs = [x]" by (auto simp: presents_def length_Suc_conv)
  with r show "ReadLogical d p 1 = Inr [x]" by simp
qed


text \<open>
  An image with one 512-byte data cluster at 1536: the first byte of the second cluster is a hole.
\<close>

definition example_qcow2 :: disk_file where
  "example_qcow2 = \<lparr>df_size = 2048,
     df_at = (\<lambda>p. if p = 23 then 9 else if p = 39 then 1 else if p = 46 then 2
       else if p = 518 then 4 else if p = 1030 then 6 else if 1536 \<le> p then 0xAB else 0),
     df_bad = (\<lambda>p. False), df_statFails = False\<rparr>"

definition example_disk :: qcow2LogicalDisk where
  "example_disk = \<lparr>q_file = example_qcow2, q_l1TableOffset = 512, q_l1Size = 1, q_clusterBits = 9,
     q_clusterSize = 512, q_l2Entries = 64, q_fileSize = 2048\<rparr>"

lemmas image_defs = readAtBounded_def file_bytes_def unreadable_def file_byte_def list_ex_iff maxMappedRegionSize_def
  file_stat_def slice_of_def take_map drop_map be32_def be64_def upt_conv_Cons Let_def

lemma example_opens: "newQCOW2LogicalDisk example_qcow2 = Inr example_disk"
  by (simp add: newQCOW2LogicalDisk_def image_defs example_qcow2_def example_disk_def)

lemma example_locations: "disk_location (QCOW2 example_disk) 511 = Inr (At 2047)" "disk_location (QCOW2 example_disk) 512 = Inr Hole"
  by code_simp+

lemma example_format: "openLogicalDisk (Inr example_qcow2) FormatQCOW2 = Inr (QCOW2 example_disk)"
  by (simp add: openLogicalDisk_def example_opens)

lemma example_bytes: "ReadLogical (QCOW2 example_disk) 511 1 = Inr [0xAB]" "ReadLogical (QCOW2 example_disk) 512 1 = Inr [0]"
  using ReadLogical_byte [OF example_format, of 511 "0xAB"] ReadLogical_byte [OF example_format, of 512 0]
  by (simp_all add: example_locations readable_def location_byte_def file_byte_def example_qcow2_def del: ReadLogical.simps disk_location.simps)


section \<open>What a container cannot make the reader do\<close>

text \<open>
  The data of a QCOW2 disk never comes from its metadata: whatever the tables of an image say, a byte
  that is not a hole is read inside the file, behind the header and outside the first-level table.
\<close>

theorem qcow2_data_confined:
  assumes "openLogicalDisk (Inr f) FormatQCOW2 = Inr (QCOW2 q)" "df_size f < 2 ^ 63" "0 \<le> p"
    and "disk_location (QCOW2 q) p = Inr (At r)"
  shows "72 \<le> r \<and> r < df_size f \<and> \<not> (q_l1TableOffset q \<le> r \<and> r < q_l1TableOffset q + uint (q_l1Size q) * 8)"
proof -
  have q: "newQCOW2LogicalDisk f = Inr q" using assms(1) by (auto simp: openLogicalDisk_def bindE_Inr)
  note ok = newQCOW2_ok [OF q]
  obtain h where h: "\<not> qcow2_bad_region q h" "r = i64 (h + p smod q_clusterSize q)"
    using assms(4) by (auto simp: byte_location_def shift_location_def qcow2_locate_def bindE_Inr guardE_Inr Let_def
        split: if_splits location.splits)
  have m: "0 \<le> p smod q_clusterSize q" "p smod q_clusterSize q < q_clusterSize q"
    using ok(3) assms(3) by (simp_all add: smod_mod_positive)
  have range: "72 \<le> h" "h + q_clusterSize q \<le> df_size f"
    "\<not> regionsOverlap h (q_clusterSize q) (q_l1TableOffset q) (uint (q_l1Size q) * 8)"
    using h(1) ok(2) by (auto simp: qcow2_bad_region_def)
  then have r: "r = h + p smod q_clusterSize q" using h(2) m assms(2) by (simp add: i64_id)
  have "i64 (q_l1TableOffset q + uint (q_l1Size q) * 8) = q_l1TableOffset q + uint (q_l1Size q) * 8"
    "i64 (h + q_clusterSize q) = h + q_clusterSize q"
    by (rule i64_id; use ok(3,6,7) range(1,2) assms(2) uint_ge_0 [of "q_l1Size q"] in linarith)+
  with range(3) ok(3) have "q_l1TableOffset q + uint (q_l1Size q) * 8 \<le> h \<or> h + q_clusterSize q \<le> q_l1TableOffset q \<or> uint (q_l1Size q) = 0"
    using uint_ge_0 [of "q_l1Size q"] by (auto simp: regionsOverlap_def)
  with r m range(1,2) show ?thesis by auto
qed

theorem qcow2_data_confined_witness:
  "72 \<le> (2047::int) \<and> 2047 < df_size example_qcow2 \<and> \<not> (q_l1TableOffset example_disk \<le> 2047 \<and>
     2047 < q_l1TableOffset example_disk + uint (q_l1Size example_disk) * 8)"
  using qcow2_data_confined [OF example_format, of 511 2047] example_locations by (simp add: example_qcow2_def del: disk_location.simps)

text \<open>
  The index into the first-level table is compared after a conversion to 32 bits, so a position whose
  index is a multiple of \<^verbatim>\<open>2^32\<close> passes the check and the entry is read behind the table.
\<close>

lemma qcow2_index_wraps:
  assumes "newQCOW2LogicalDisk f = Inr q" "0 < uint (q_l1Size q)" "off = 2 ^ 32 * q_l2Entries q * q_clusterSize q"
  shows "qcow2_locate q off \<noteq> Inl (BeyondL1 off i)"
proof -
  note ok = newQCOW2_ok [OF assms(1)]
  have pos: "0 < q_clusterSize q" "0 < q_l2Entries q" using ok(3,5) by simp_all
  then have "off sdiv q_clusterSize q = 2 ^ 32 * q_l2Entries q" "2 ^ 32 * q_l2Entries q sdiv q_l2Entries q = 2 ^ 32"
    using assms(3) by (simp_all add: sdiv_div_positive)
  with assms(2) show ?thesis
    by (auto simp: qcow2_locate_def bindE_Inl guardE_Inl Let_def readAtBounded_def split: if_splits)
qed

lemma locate_no_panic [simp]:
  "qcow2_locate q p \<noteq> Inl Panic" "vhd_locate v p \<noteq> Inl Panic" "vhdx_locate x p \<noteq> Inl Panic" "vmdk_locate k p \<noteq> Inl Panic"
  by (auto simp: qcow2_locate_def vhd_locate_def vhdx_locate_def vmdk_locate_def bindE_Inl guardE_Inl Let_def
      readAtBounded_def split: if_splits)

lemma readAtBounded_no_panic [simp]: "readAtBounded f p n \<noteq> Inl Panic"
  by (simp add: readAtBounded_def)

lemma read_loop_no_panic:
  assumes "0 < block" "\<And>p. lookup p \<noteq> Inl Panic" "n \<le> maxAlloc"
  shows "read_loop f block lookup off n \<noteq> Inl Panic"
  using assms(3)
proof (induction "nat n" arbitrary: off n rule: less_induct)
  case less
  define chunk where "chunk = min (block - off smod block) n"
  show ?case
  proof (cases "0 < n")
    case True
    with assms(1) smod_abs_less [of block off] have c: "0 < chunk" "chunk \<le> n" by (auto simp: chunk_def)
    then have "read_block f loc (off smod block) chunk \<noteq> Inl Panic" for loc
      using less.prems by (simp add: read_block_def make_zeros_def split: location.split)
    with less.hyps [of "n - chunk"] less.prems True c assms(1,2) show ?thesis
      by (subst read_loop.simps) (auto simp: Let_def bindE_Inl chunk_def [symmetric])
  qed (simp add: read_loop.simps)
qed

lemma read_loop_negative_panic:
  assumes "block < 0" "0 < n" "\<And>p. lookup p \<noteq> Inl Panic"
  shows "read_loop f block lookup off n = Inl Panic \<longleftrightarrow> lookup off = Inr Hole"
proof -
  have "block - off smod block < 0" using assms(1) smod_abs_less [of block off] by linarith
  then have c: "min (block - off smod block) n < 0" by simp
  then have "read_block f loc (off smod block) (min (block - off smod block) n) =
      (if loc = Hole then Inl Panic else Inl (InvalidRead (i64 (case loc of At b \<Rightarrow> b + off smod block)) (min (block - off smod block) n)))" for loc
    by (cases loc) (simp_all add: read_block_def make_zeros_def readAtBounded_def)
  with assms show ?thesis by (subst read_loop.simps) (auto simp: Let_def bindE_Inl)
qed

fun mapped :: "logicalDisk \<Rightarrow> bool" where
  "mapped (rawLogicalDisk f) = False"
| "mapped (VHD v) = (\<not> v_fixed v)"
| "mapped _ = True"


definition example_vmdk :: disk_file where
  "example_vmdk = \<lparr>df_size = 1024,
     df_at = (\<lambda>p. if p = 0 then 0x4B else if p = 1 then 0x44 else if p = 2 then 0x4D else if p = 3 then 0x56
       else if p = 26 then 0x80 else if p = 44 then 1 else if p = 56 then 1 else 0),
     df_bad = (\<lambda>p. False), df_statFails = False\<rparr>"

definition example_grains :: vmdkLogicalDisk where
  "example_grains = \<lparr>k_file = example_vmdk, k_gdOffsetBytes = 512, k_grainSectors = 2 ^ 55, k_grainBytes = 0, k_gtEntries = 1\<rparr>"

lemma example_vmdk_opens: "openLogicalDisk (Inr example_vmdk) FormatVMDK = Inr (VMDK example_grains)"
proof -
  have "take 4 (file_bytes example_vmdk 0 512) = ascii ''KDMV''"
    by code_simp
  moreover have "le64 (file_bytes example_vmdk 20 8) = 2 ^ 55" "le32 (file_bytes example_vmdk 44 4) = 1"
    "le64 (file_bytes example_vmdk 56 8) = 1" "le64 (file_bytes example_vmdk 48 8) = 0" by code_simp+
  moreover have "readAtBounded example_vmdk 0 512 = Inr (file_bytes example_vmdk 0 512)"
    by (simp add: readAtBounded_def maxMappedRegionSize_def unreadable_def list_ex_iff example_vmdk_def)
  ultimately show ?thesis
    by (simp add: openLogicalDisk_def newVMDKLogicalDisk_def file_bytes_slice example_grains_def i64_def
        invalidVMDKOffset_def maxMappedRegionSize_def)
qed


end
