(* ===== verification/Partition_Table.thy ===== *)
theory Partition_Table
  imports Logical_Disk Go_Text
begin

text \<open>
  Partition tables, \<^verbatim>\<open>bootdisk.go\<close> and \<^verbatim>\<open>volume.go\<close> of \<^verbatim>\<open>internal/vmdisk\<close>: the boot scan and the volume map of
  a disk with an MBR, its chains of extended boot records, or a GPT. A slice outside its array is the
  error \<open>Panic\<close>.
\<close>

unbundle bit_operations_syntax

section \<open>MBR entries\<close>

definition partitionScanWindow :: int where "partitionScanWindow = 64 * 1024"
definition gptProtectiveMBRType :: byte where "gptProtectiveMBRType = 0xEE"
definition gptLegacyBIOSBootableBit :: "64 word" where "gptLegacyBIOSBootableBit = push_bit 2 1"
definition maxExtendedPartitions :: nat where "maxExtendedPartitions = 128"
definition maxGPTPartitionEntries :: "32 word" where "maxGPTPartitionEntries = 256"
definition gptESPTypeGUID :: "byte list" where
  "gptESPTypeGUID = [0x28, 0x73, 0x2A, 0xC1, 0x1F, 0xF8, 0xD2, 0x11, 0xBA, 0x4B, 0x00, 0xA0, 0xC9, 0x3E, 0xC9, 0x3B]"

record mbrEntry =
  bootFlag :: byte
  typeByte :: byte
  startLBA :: "32 word"
  sectors :: "32 word"

definition mbr_entry :: "byte list \<Rightarrow> nat \<Rightarrow> mbrEntry" where
  "mbr_entry window i =
     (let off = 446 + i * 16 in
      \<lparr>bootFlag = window ! off, typeByte = window ! (off + 4),
       startLBA = le32 (slice_of window (off + 8) (off + 12)), sectors = le32 (slice_of window (off + 12) (off + 16))\<rparr>)"

definition mbrPartitionEntries :: "byte list \<Rightarrow> mbrEntry list" where
  "mbrPartitionEntries window = map (mbr_entry window) [0, 1, 2, 3]"

definition rangesOverlap :: "64 word \<Rightarrow> 64 word \<Rightarrow> 64 word \<Rightarrow> 64 word \<Rightarrow> bool" where
  "rangesOverlap aStart aLength bStart bLength \<longleftrightarrow>
     0 < aLength \<and> 0 < bLength \<and> aStart < bStart + bLength \<and> bStart < aStart + aLength"

definition bad_flag :: "mbrEntry \<Rightarrow> bool" where
  "bad_flag e \<longleftrightarrow> bootFlag e \<noteq> 0 \<and> bootFlag e \<noteq> 0x80"

definition bad_geometry :: "mbrEntry \<Rightarrow> bool" where
  "bad_geometry e \<longleftrightarrow> 0 < sectors e \<and>
     (typeByte e = 0 \<or> startLBA e = 0 \<or> 2 ^ 32 < (ucast (startLBA e) + ucast (sectors e) :: 64 word))"

definition entries_overlap :: "mbrEntry \<Rightarrow> mbrEntry \<Rightarrow> bool" where
  "entries_overlap e other \<longleftrightarrow> 0 < sectors e \<and> 0 < sectors other \<and>
     rangesOverlap (ucast (startLBA e)) (ucast (sectors e)) (ucast (startLBA other)) (ucast (sectors other))"

definition validateMBRPartitions :: "mbrEntry list \<Rightarrow> table_error option" where
  "validateMBRPartitions entries =
     check_each (\<lambda>i. let e = entries ! i in
       or_else (reject_if (bad_flag e) (BadBootFlag i (bootFlag e)))
      (or_else (reject_if (bad_geometry e) (BadGeometry i))
       (check_each (\<lambda>j. reject_if (entries_overlap e (entries ! j)) (EntriesOverlap j i)) [0..<i])))
     [0..<length entries]"

definition isExtendedPartitionType :: "byte \<Rightarrow> bool" where
  "isExtendedPartitionType value \<longleftrightarrow> value = 0x05 \<or> value = 0x0f \<or> value = 0x85"

definition emptyMBREntry :: mbrEntry where
  "emptyMBREntry = \<lparr>bootFlag = 0, typeByte = 0, startLBA = 0, sectors = 0\<rparr>"

definition validateEBR :: "mbrEntry list \<Rightarrow> table_error option" where
  "validateEBR entries =
     or_else
       (check_each (\<lambda>i. let e = entries ! i in
          or_else (reject_if (bad_flag e) (BadEBRFlag i (bootFlag e))) (reject_if (bad_geometry e) (BadEBRGeometry i))) [0, 1])
       (check_each (\<lambda>i. reject_if (entries ! i \<noteq> emptyMBREntry) (UnexpectedEBREntry i)) [2, 3])"

definition table_ok :: "table_error option \<Rightarrow> disk_error + unit" where
  "table_ok e = (case e of Some t \<Rightarrow> Inl (CorruptPartitionTable t) | None \<Rightarrow> Inr ())"

lemma table_ok_Inr [ok_iff]: "table_ok e = Inr u \<longleftrightarrow> e = None"
  by (simp add: table_ok_def split: option.split)

section \<open>Extended boot records\<close>

definition isZero :: "byte list \<Rightarrow> bool" where
  "isZero b \<longleftrightarrow> list_all (\<lambda>c. c = 0) b"

text \<open>
  One extended boot record: the checks both walks make before they look at the entries.
\<close>

definition read_ebr :: "logicalDisk \<Rightarrow> nat \<Rightarrow> nat \<Rightarrow> 64 word list \<Rightarrow> 64 word \<Rightarrow> disk_error + mbrEntry list" where
  "read_ebr ld primaryIndex logicalIndex visited current =
     bindE (guardE (current \<in> set visited) (CorruptPartitionTable (EBRCycle primaryIndex current))) (\<lambda>_.
     bindE (guardE (drop_bit 1 (- 1) div 512 < current) (CorruptPartitionTable EBROffsetOverflow)) (\<lambda>_.
     bindE (ReadLogical ld (sint (current * 512)) 512) (\<lambda>sector.
     bindE (guardE (sector ! 510 \<noteq> 0x55 \<or> sector ! 511 \<noteq> 0xaa)
              (CorruptPartitionTable (NoEBRSignature primaryIndex logicalIndex))) (\<lambda>_.
     let entries = mbrPartitionEntries sector in
     bindE (table_ok (validateEBR entries)) (\<lambda>_.
     Inr entries)))))"

definition next_ebr :: "64 word \<Rightarrow> mbrEntry \<Rightarrow> disk_error + 64 word" where
  "next_ebr base link =
     bindE (guardE (\<not> isExtendedPartitionType (typeByte link)) (CorruptPartitionTable (NotExtendedLink (typeByte link)))) (\<lambda>_.
     let nxt = base + ucast (startLBA link) in
     bindE (guardE (nxt < base) (CorruptPartitionTable LinkOverflow)) (\<lambda>_.
     Inr nxt))"

record BootScan =
  Bootable :: bool
  Evidence :: string

fun scan_ebrs ::
  "logicalDisk \<Rightarrow> nat \<Rightarrow> 64 word \<Rightarrow> nat \<Rightarrow> nat \<Rightarrow> 64 word list \<Rightarrow> 64 word \<Rightarrow> disk_error + BootScan" where
  "scan_ebrs ld primaryIndex base 0 logicalIndex visited current = Inl (CorruptPartitionTable TooManyEBRs)"
| "scan_ebrs ld primaryIndex base (Suc rounds) logicalIndex visited current =
     bindE (read_ebr ld primaryIndex logicalIndex visited current) (\<lambda>entries.
     let logical = entries ! 0; link = entries ! 1 in
     if 0 < sectors logical \<and> bootFlag logical = 0x80 then
       Inr \<lparr>Bootable = True, Evidence = ''MBR extended partition '' @ itoa primaryIndex @ '' logical entry '' @
            itoa logicalIndex @ '' is active/bootable''\<rparr>
     else if sectors link = 0 then
       Inr \<lparr>Bootable = False, Evidence = ''valid MBR, '' @ itoa (logicalIndex + 1) @ '' extended partition entr'' @
            (if logicalIndex = 0 then ''y'' else ''ies'') @ '' scanned, none bootable''\<rparr>
     else bindE (next_ebr base link) (\<lambda>nxt.
       scan_ebrs ld primaryIndex base rounds (Suc logicalIndex) (current # visited) nxt))"

definition is_container :: "mbrEntry \<Rightarrow> bool" where
  "is_container e \<longleftrightarrow> isExtendedPartitionType (typeByte e) \<and> sectors e \<noteq> 0"

text \<open>The walk returns inside the loop over the primary entries: only the first container is scanned.\<close>

fun scanExtendedPartitions :: "logicalDisk \<Rightarrow> nat \<Rightarrow> mbrEntry list \<Rightarrow> disk_error + BootScan option" where
  "scanExtendedPartitions ld i [] = Inr None"
| "scanExtendedPartitions ld i (container # rest) =
     (if \<not> is_container container then scanExtendedPartitions ld (Suc i) rest
      else let base = ucast (startLBA container) in
        bindE (scan_ebrs ld i base maxExtendedPartitions 0 [] base) (\<lambda>scan. Inr (Some scan)))"

section \<open>GPT\<close>

definition go_slice :: "byte list \<Rightarrow> int \<Rightarrow> int \<Rightarrow> disk_error + byte list" where
  "go_slice b i j = (if 0 \<le> i \<and> i \<le> j \<and> j \<le> int (length b) then Inr (slice_of b (nat i) (nat j)) else Inl Panic)"

definition has_gpt_header :: "byte list \<Rightarrow> bool" where
  "has_gpt_header window \<longleftrightarrow> 1024 \<le> length window \<and> slice_of window 512 520 = ascii ''EFI PART''"

definition gpt_count :: "byte list \<Rightarrow> 32 word" where
  "gpt_count window = le32 (slice_of (drop 512 window) 80 84)"

definition gpt_size :: "byte list \<Rightarrow> 32 word" where
  "gpt_size window = le32 (slice_of (drop 512 window) 84 88)"

definition gpt_start :: "byte list \<Rightarrow> int" where
  "gpt_start window = i64 (sint (le64 (slice_of (drop 512 window) 72 80)) * 512)"

definition gpt_end :: "byte list \<Rightarrow> int" where
  "gpt_end window = i64 (gpt_start window + uint (gpt_count window) * uint (gpt_size window))"

definition bad_gpt_array :: "byte list \<Rightarrow> bool" where
  "bad_gpt_array window \<longleftrightarrow> maxGPTPartitionEntries < gpt_count window \<or> gpt_size window < 128 \<or> 512 < gpt_size window"

definition gpt_outside :: "byte list \<Rightarrow> bool" where
  "gpt_outside window \<longleftrightarrow> gpt_start window < 0 \<or> int (length window) < gpt_end window"

definition gpt_entry :: "byte list \<Rightarrow> nat \<Rightarrow> disk_error + byte list" where
  "gpt_entry window i =
     go_slice window (i64 (gpt_start window + int i * uint (gpt_size window)))
       (i64 (gpt_start window + (int i + 1) * uint (gpt_size window)))"

definition first_lba :: "byte list \<Rightarrow> 64 word" where "first_lba entry = le64 (slice_of entry 32 40)"
definition last_lba :: "byte list \<Rightarrow> 64 word" where "last_lba entry = le64 (slice_of entry 40 48)"
definition lba_length :: "byte list \<Rightarrow> 64 word" where "lba_length entry = last_lba entry - first_lba entry + 1"

definition gpt_bad_geometry :: "byte list \<Rightarrow> bool" where
  "gpt_bad_geometry entry \<longleftrightarrow> first_lba entry = 0 \<or> last_lba entry < first_lba entry \<or> last_lba entry = - 1"

definition gpt_overlaps :: "(64 word \<times> 64 word) list \<Rightarrow> byte list \<Rightarrow> nat \<Rightarrow> table_error option" where
  "gpt_overlaps ranges entry i =
     check_each (\<lambda>j. reject_if (rangesOverlap (first_lba entry) (lba_length entry) (fst (ranges ! j)) (snd (ranges ! j)))
       (GPTOverlap j i)) [0..<length ranges]"

definition is_esp :: "byte list \<Rightarrow> bool" where
  "is_esp entry \<longleftrightarrow> slice_of entry 0 16 = gptESPTypeGUID"

definition is_legacy_bootable :: "byte list \<Rightarrow> bool" where
  "is_legacy_bootable entry \<longleftrightarrow> le64 (slice_of entry 48 56) AND gptLegacyBIOSBootableBit \<noteq> 0"

fun scan_gpt_entries :: "byte list \<Rightarrow> nat list \<Rightarrow> (64 word \<times> 64 word) list \<Rightarrow> disk_error + BootScan" where
  "scan_gpt_entries window [] ranges =
     Inr \<lparr>Bootable = False, Evidence = ''valid GPT, no EFI System Partition or Legacy BIOS Bootable attribute found''\<rparr>"
| "scan_gpt_entries window (i # is) ranges =
     bindE (gpt_entry window i) (\<lambda>entry.
     if isZero (slice_of entry 0 16) then scan_gpt_entries window is ranges
     else
       bindE (guardE (gpt_bad_geometry entry) (CorruptPartitionTable (BadGPTGeometry i))) (\<lambda>_.
       bindE (table_ok (gpt_overlaps ranges entry i)) (\<lambda>_.
       if is_esp entry then
         Inr \<lparr>Bootable = True, Evidence = ''GPT EFI System Partition present (entry '' @ itoa i @ '')''\<rparr>
       else if is_legacy_bootable entry then
         Inr \<lparr>Bootable = True, Evidence = ''GPT Legacy BIOS Bootable attribute set (entry '' @ itoa i @ '')''\<rparr>
       else scan_gpt_entries window is (ranges @ [(first_lba entry, lba_length entry)]))))"

definition scanGPT :: "byte list \<Rightarrow> disk_error + BootScan" where
  "scanGPT window =
     (if \<not> has_gpt_header window then
        Inr \<lparr>Bootable = False, Evidence = ''protective MBR present but GPT header signature missing at LBA1''\<rparr>
      else if bad_gpt_array window then
        Inr \<lparr>Bootable = False, Evidence = ''GPT header present but partition array size is implausible''\<rparr>
      else if gpt_outside window then
        Inr \<lparr>Bootable = False, Evidence = ''GPT partition array extends beyond the bounded scan window''\<rparr>
      else scan_gpt_entries window [0..<unat (gpt_count window)] [])"

section \<open>The boot scan\<close>

definition no_signature :: "byte list \<Rightarrow> bool" where
  "no_signature window \<longleftrightarrow> length window < 512 \<or> window ! 510 \<noteq> 0x55 \<or> window ! 511 \<noteq> 0xaa"

fun first_active :: "nat \<Rightarrow> mbrEntry list \<Rightarrow> nat option" where
  "first_active i [] = None"
| "first_active i (e # es) = (if bootFlag e = 0x80 then Some i else first_active (Suc i) es)"

definition scan_window :: "logicalDisk \<Rightarrow> byte list \<Rightarrow> disk_error + BootScan" where
  "scan_window ld window =
     (if no_signature window then Inr \<lparr>Bootable = False, Evidence = ''no MBR boot signature at LBA0''\<rparr>
      else let entries = mbrPartitionEntries window in
        bindE (table_ok (validateMBRPartitions entries)) (\<lambda>_.
        if list_ex (\<lambda>e. typeByte e = gptProtectiveMBRType) entries then scanGPT window
        else case first_active 0 entries of
          Some i \<Rightarrow> Inr \<lparr>Bootable = True, Evidence = ''MBR active/bootable flag on partition entry '' @ itoa i\<rparr>
        | None \<Rightarrow>
            bindE (scanExtendedPartitions ld 0 entries) (\<lambda>found.
            case found of
              Some scan \<Rightarrow> Inr scan
            | None \<Rightarrow> Inr \<lparr>Bootable = False, Evidence = ''valid MBR, no partition marked active/bootable''\<rparr>)))"

definition ScanBootPartition :: "disk_error + disk_file \<Rightarrow> Format \<Rightarrow> disk_error + BootScan" where
  "ScanBootPartition opened format =
     bindE (openLogicalDisk opened format) (\<lambda>ld.
     bindE (ReadLogical ld 0 partitionScanWindow) (\<lambda>window.
     scan_window ld window))"

section \<open>The volume map\<close>

record Volume =
  vol_Index :: nat
  vol_Kind :: string
  vol_Type :: string
  vol_StartBytes :: "64 word"
  vol_SizeBytes :: "64 word"
  vol_Bootable :: bool
  vol_Content :: string
  vol_RequiresKey :: bool
  vol_SignatureEvidence :: string

record VolumeMap =
  vm_Table :: string
  vm_Volumes :: "Volume list"

definition mbrVolume :: "nat \<Rightarrow> string \<Rightarrow> 64 word \<Rightarrow> mbrEntry \<Rightarrow> Volume" where
  "mbrVolume index kind start e =
     \<lparr>vol_Index = index, vol_Kind = kind, vol_Type = ''mbr:0x'' @ hex_byte (typeByte e), vol_StartBytes = start * 512,
      vol_SizeBytes = ucast (sectors e) * 512, vol_Bootable = (bootFlag e = 0x80), vol_Content = ''unknown'',
      vol_RequiresKey = False, vol_SignatureEvidence = []\<rparr>"

fun primary_volumes :: "mbrEntry list \<Rightarrow> Volume list \<Rightarrow> Volume list" where
  "primary_volumes [] vs = vs"
| "primary_volumes (e # es) vs =
     (if sectors e = 0 \<or> isExtendedPartitionType (typeByte e) then primary_volumes es vs
      else primary_volumes es (vs @ [mbrVolume (length vs) ''primary'' (ucast (startLBA e)) e]))"

fun map_ebrs ::
  "logicalDisk \<Rightarrow> nat \<Rightarrow> 64 word \<Rightarrow> nat \<Rightarrow> nat \<Rightarrow> 64 word list \<Rightarrow> 64 word \<Rightarrow> Volume list \<Rightarrow> disk_error + Volume list" where
  "map_ebrs ld primaryIndex base 0 logicalIndex visited current vs = Inl (CorruptPartitionTable TooManyEBRs)"
| "map_ebrs ld primaryIndex base (Suc rounds) logicalIndex visited current vs =
     bindE (read_ebr ld primaryIndex logicalIndex visited current) (\<lambda>entries.
     let logical = entries ! 0; link = entries ! 1;
         vs' = (if 0 < sectors logical
                then vs @ [mbrVolume (length vs) ''logical'' (current + ucast (startLBA logical)) logical] else vs) in
     if sectors link = 0 then Inr vs'
     else bindE (next_ebr base link) (\<lambda>nxt.
       map_ebrs ld primaryIndex base rounds (Suc logicalIndex) (current # visited) nxt vs'))"

fun map_containers :: "logicalDisk \<Rightarrow> nat \<Rightarrow> mbrEntry list \<Rightarrow> Volume list \<Rightarrow> disk_error + Volume list" where
  "map_containers ld i [] vs = Inr vs"
| "map_containers ld i (container # rest) vs =
     (if \<not> is_container container then map_containers ld (Suc i) rest vs
      else let base = ucast (startLBA container) in
        bindE (map_ebrs ld i base maxExtendedPartitions 0 [] base vs) (\<lambda>vs'. map_containers ld (Suc i) rest vs'))"

definition mapMBRVolumes :: "logicalDisk \<Rightarrow> mbrEntry list \<Rightarrow> disk_error + VolumeMap" where
  "mapMBRVolumes ld entries =
     bindE (map_containers ld 0 entries (primary_volumes entries [])) (\<lambda>vs. Inr \<lparr>vm_Table = ''mbr'', vm_Volumes = vs\<rparr>)"

definition gpt_volume :: "nat \<Rightarrow> byte list \<Rightarrow> Volume" where
  "gpt_volume index entry =
     \<lparr>vol_Index = index, vol_Kind = ''gpt'', vol_Type = ''gpt:'' @ hex_encode (slice_of entry 0 16),
      vol_StartBytes = first_lba entry * 512, vol_SizeBytes = lba_length entry * 512,
      vol_Bootable = (is_esp entry \<or> is_legacy_bootable entry), vol_Content = ''unknown'',
      vol_RequiresKey = False, vol_SignatureEvidence = []\<rparr>"

fun map_gpt_entries ::
  "byte list \<Rightarrow> nat list \<Rightarrow> (64 word \<times> 64 word) list \<Rightarrow> Volume list \<Rightarrow> disk_error + Volume list" where
  "map_gpt_entries window [] ranges vs = Inr vs"
| "map_gpt_entries window (i # is) ranges vs =
     bindE (gpt_entry window i) (\<lambda>entry.
     if isZero (slice_of entry 0 16) then map_gpt_entries window is ranges vs
     else
       bindE (guardE (gpt_bad_geometry entry) (CorruptPartitionTable (BadGPTGeometry i))) (\<lambda>_.
       bindE (guardE (- 1 div 512 < first_lba entry \<or> - 1 div 512 < lba_length entry)
                (CorruptPartitionTable (GPTByteOverflow i))) (\<lambda>_.
       bindE (table_ok (gpt_overlaps ranges entry i)) (\<lambda>_.
       map_gpt_entries window is (ranges @ [(first_lba entry, lba_length entry)]) (vs @ [gpt_volume (length vs) entry])))))"

definition mapGPTVolumes :: "byte list \<Rightarrow> disk_error + VolumeMap" where
  "mapGPTVolumes window =
     bindE (guardE (\<not> has_gpt_header window) (CorruptPartitionTable NoGPTHeader)) (\<lambda>_.
     bindE (guardE (bad_gpt_array window) (CorruptPartitionTable BadGPTArray)) (\<lambda>_.
     bindE (guardE (gpt_outside window) (CorruptPartitionTable GPTOutsideWindow)) (\<lambda>_.
     bindE (map_gpt_entries window [0..<unat (gpt_count window)] [] []) (\<lambda>vs.
     Inr \<lparr>vm_Table = ''gpt'', vm_Volumes = vs\<rparr>))))"

section \<open>Content signatures\<close>

definition volumeSignatureWindow :: "64 word" where "volumeSignatureWindow = 128 * 1024"

definition has_bytes :: "byte list \<Rightarrow> nat \<Rightarrow> string \<Rightarrow> bool" where
  "has_bytes window off text \<longleftrightarrow> slice_of window off (off + length text) = ascii text"

definition lvm_label :: "byte list \<Rightarrow> nat \<Rightarrow> bool" where
  "lvm_label window sector \<longleftrightarrow>
     sector * 512 + 32 \<le> length window \<and> has_bytes window (sector * 512) ''LABELONE'' \<and>
     has_bytes window (sector * 512 + 24) ''LVM2 001''"

definition swap_page :: "byte list \<Rightarrow> nat \<Rightarrow> bool" where
  "swap_page window pageSize \<longleftrightarrow> pageSize \<le> length window \<and> has_bytes window (pageSize - 10) ''SWAPSPACE2''"

definition with_content :: "Volume \<Rightarrow> string \<Rightarrow> bool \<Rightarrow> string \<Rightarrow> Volume" where
  "with_content v content key evidence =
     v\<lparr>vol_Content := content, vol_RequiresKey := key \<or> vol_RequiresKey v, vol_SignatureEvidence := evidence\<rparr>"

definition classifyVolumeSignature :: "Volume \<Rightarrow> byte list \<Rightarrow> Volume" where
  "classifyVolumeSignature v w =
     (if 8 \<le> length w \<and> take 6 w = [0x4C, 0x55, 0x4B, 0x53, 0xba, 0xbe] then
        with_content v ''luks'' True (''LUKS'' @ itoa (unat (push_bit 8 (ucast (w ! 6)) OR ucast (w ! 7) :: 16 word)) @
          '' header magic at volume offset 0'')
      else if 11 \<le> length w \<and> has_bytes w 3 ''-FVE-FS-'' then
        with_content v ''bitlocker'' True ''BitLocker FVE filesystem signature at volume offset 3''
      else case List.find (lvm_label w) [0, 1, 2, 3] of
        Some sector \<Rightarrow>
          with_content v ''lvm2-physical-volume'' False (''LVM2 LABELONE header at volume sector '' @ itoa sector)
      | None \<Rightarrow>
      (case List.find (swap_page w) [4096, 8192, 16384, 32768, 65536] of
        Some pageSize \<Rightarrow>
          with_content v ''linux-swap'' False (''SWAPSPACE2 signature at '' @ itoa pageSize @ ''-byte page boundary'')
      | None \<Rightarrow>
        if 1082 \<le> length w \<and> w ! 1080 = 0x53 \<and> w ! 1081 = 0xef then
          with_content v ''unsupported-filesystem:ext2-ext3-ext4'' False ''ext-family superblock magic at volume offset 1080''
        else if 4 \<le> length w \<and> has_bytes w 0 ''XFSB'' then
          with_content v ''unsupported-filesystem:xfs'' False ''XFS superblock magic at volume offset 0''
        else if 0x10048 \<le> length w \<and> has_bytes w 0x10040 ''_BHRfS_M'' then
          with_content v ''unsupported-filesystem:btrfs'' False ''Btrfs superblock magic at volume offset 65600''
        else if 11 \<le> length w \<and> has_bytes w 3 ''NTFS    '' then
          with_content v ''unsupported-filesystem:ntfs'' False ''NTFS OEM identifier at volume offset 3''
        else if 90 \<le> length w \<and> (has_bytes w 54 ''FAT12   '' \<or> has_bytes w 54 ''FAT16   '' \<or> has_bytes w 82 ''FAT32   '') then
          with_content v ''unsupported-filesystem:fat'' False ''FAT filesystem type identifier in boot sector''
        else v))"

definition classify_one :: "logicalDisk \<Rightarrow> Volume \<Rightarrow> disk_error + Volume" where
  "classify_one ld v =
     bindE (guardE (drop_bit 1 (- 1) < vol_StartBytes v) (CorruptPartitionTable (BadVolumeOffset (vol_Index v)))) (\<lambda>_.
     let len = (if volumeSignatureWindow < vol_SizeBytes v then volumeSignatureWindow else vol_SizeBytes v) in
     bindE (ReadLogical ld (sint (vol_StartBytes v)) (sint len)) (\<lambda>window.
     Inr (classifyVolumeSignature v window)))"

fun classify_all :: "logicalDisk \<Rightarrow> Volume list \<Rightarrow> disk_error + Volume list" where
  "classify_all ld [] = Inr []"
| "classify_all ld (v # vs) = bindE (classify_one ld v) (\<lambda>v'. bindE (classify_all ld vs) (\<lambda>vs'. Inr (v' # vs')))"

definition classifyVolumes :: "logicalDisk \<Rightarrow> VolumeMap \<Rightarrow> disk_error + VolumeMap" where
  "classifyVolumes ld m = bindE (classify_all ld (vm_Volumes m)) (\<lambda>vs. Inr (m\<lparr>vm_Volumes := vs\<rparr>))"

definition map_window :: "logicalDisk \<Rightarrow> byte list \<Rightarrow> disk_error + VolumeMap" where
  "map_window ld window =
     (if no_signature window then Inr \<lparr>vm_Table = ''none'', vm_Volumes = []\<rparr>
      else let entries = mbrPartitionEntries window in
        bindE (table_ok (validateMBRPartitions entries)) (\<lambda>_.
        if list_ex (\<lambda>e. typeByte e = gptProtectiveMBRType) entries
        then bindE (mapGPTVolumes window) (classifyVolumes ld)
        else bindE (mapMBRVolumes ld entries) (classifyVolumes ld)))"

definition ScanVolumeMap :: "disk_error + disk_file \<Rightarrow> Format \<Rightarrow> disk_error + VolumeMap" where
  "ScanVolumeMap opened format =
     bindE (openLogicalDisk opened format) (\<lambda>ld.
     bindE (ReadLogical ld 0 partitionScanWindow) (\<lambda>window.
     map_window ld window))"

section \<open>Slices of the GPT\<close>

lemma gpt_array_bounds:
  assumes "\<not> bad_gpt_array window"
  shows "uint (gpt_count window) \<le> 256" "128 \<le> uint (gpt_size window)" "uint (gpt_size window) \<le> 512"
    and "uint (gpt_count window) * uint (gpt_size window) \<le> 131072"
proof -
  show b: "uint (gpt_count window) \<le> 256" "128 \<le> uint (gpt_size window)" "uint (gpt_size window) \<le> 512"
    using assms by (auto simp: bad_gpt_array_def maxGPTPartitionEntries_def word_less_def)
  then have "uint (gpt_count window) * uint (gpt_size window) \<le> 256 * 512" by (intro mult_mono) auto
  then show "uint (gpt_count window) * uint (gpt_size window) \<le> 131072" by simp
qed

lemma gpt_start_range: "in_i64 (gpt_start window)"
  by (simp add: gpt_start_def i64_range)

text \<open>The array of a table that passed the checks, as long as its end did not wrap around.\<close>

lemma gpt_entry_ok:
  assumes "\<not> bad_gpt_array window" "\<not> gpt_outside window" "gpt_start window + uint (gpt_count window) * uint (gpt_size window) < 2 ^ 63"
    and "i < unat (gpt_count window)"
  shows "gpt_entry window i = Inr (slice_of window (nat (gpt_start window + int i * uint (gpt_size window)))
    (nat (gpt_start window + (int i + 1) * uint (gpt_size window))))"
proof -
  let ?n = "uint (gpt_count window)" and ?s = "uint (gpt_size window)"
  note b = gpt_array_bounds [OF assms(1)]
  have i: "int i + 1 \<le> ?n" using assms(4) uint_nat [of "gpt_count window"] by linarith
  have le: "(int i + 1) * ?s \<le> ?n * ?s" using i b(2) by (intro mult_right_mono) auto
  have ge: "0 \<le> int i * ?s" "int i * ?s \<le> (int i + 1) * ?s" using b(2) by (auto simp: algebra_simps)
  have st: "0 \<le> gpt_start window" using assms(2) by (simp add: gpt_outside_def)
  have "0 \<le> ?n * ?s" by simp
  then have "gpt_end window = gpt_start window + ?n * ?s"
    unfolding gpt_end_def by (intro i64_id) (use st assms(3) in linarith)+
  then have "gpt_start window + ?n * ?s \<le> int (length window)" using assms(2) by (simp add: gpt_outside_def)
  moreover have "i64 (gpt_start window + int i * ?s) = gpt_start window + int i * ?s"
    "i64 (gpt_start window + (int i + 1) * ?s) = gpt_start window + (int i + 1) * ?s"
    by (rule i64_id; use le ge st assms(3) in linarith)+
  ultimately show ?thesis using le ge st by (simp add: gpt_entry_def go_slice_def)
qed

lemma gpt_entry_wrapped:
  assumes "\<not> bad_gpt_array window" "\<not> gpt_outside window" "2 ^ 63 \<le> gpt_start window + uint (gpt_count window) * uint (gpt_size window)"
    and "length window = 65536"
  shows "gpt_entry window 0 = Inl Panic"
proof -
  note b = gpt_array_bounds [OF assms(1)]
  have "2 ^ 63 - 131072 \<le> gpt_start window" using assms(3) b by linarith
  then show ?thesis using assms(4) gpt_start_range [of window] by (simp add: gpt_entry_def go_slice_def in_i64_def i64_id)
qed

definition gpt_array_wraps :: "byte list \<Rightarrow> bool" where
  "gpt_array_wraps window \<longleftrightarrow> has_gpt_header window \<and> \<not> bad_gpt_array window \<and> 0 < gpt_count window \<and>
     0 \<le> gpt_start window \<and> 2 ^ 63 \<le> gpt_start window + uint (gpt_count window) * uint (gpt_size window)"

lemma scan_gpt_entries_no_panic:
  "(\<And>i. i \<in> set is \<Longrightarrow> gpt_entry window i \<noteq> Inl Panic) \<Longrightarrow> scan_gpt_entries window is ranges \<noteq> Inl Panic"
  by (induction "is" arbitrary: ranges) (auto simp: bindE_Inl guardE_Inl table_ok_def split: option.splits)

lemma map_gpt_entries_no_panic:
  "(\<And>i. i \<in> set is \<Longrightarrow> gpt_entry window i \<noteq> Inl Panic) \<Longrightarrow> map_gpt_entries window is ranges vs \<noteq> Inl Panic"
  by (induction "is" arbitrary: ranges vs) (auto simp: bindE_Inl guardE_Inl table_ok_def split: option.splits)

lemma gpt_wrapped_inside:
  assumes "\<not> bad_gpt_array window" "0 \<le> gpt_start window" "2 ^ 63 \<le> gpt_start window + uint (gpt_count window) * uint (gpt_size window)"
  shows "\<not> gpt_outside window"
proof -
  have "gpt_end window < 0"
    using i64_cases [of "gpt_start window" "uint (gpt_count window) * uint (gpt_size window)"] assms gpt_start_range [of window]
      gpt_array_bounds(4) [OF assms(1)] by (auto simp: gpt_end_def)
  with assms(2) show ?thesis by (simp add: gpt_outside_def)
qed

text \<open>
  C29: Which partition tables crash the scanner. For the window the package reads, the boot scan and the
  volume map both panic on exactly the GPT headers whose partition array starts so high that its end wraps
  around past the largest 64-bit offset; every other header gives a result or an error.
\<close>

theorem gpt_scan_panics_iff:
  assumes "length window = nat partitionScanWindow"
  shows "(scanGPT window = Inl Panic \<longleftrightarrow> gpt_array_wraps window) \<and>
    (mapGPTVolumes window = Inl Panic \<longleftrightarrow> gpt_array_wraps window)"
proof (cases "has_gpt_header window \<and> \<not> bad_gpt_array window \<and> \<not> gpt_outside window")
  case False
  then show ?thesis
    by (auto simp: scanGPT_def mapGPTVolumes_def bindE_Inl guardE_Inl gpt_array_wraps_def dest: gpt_wrapped_inside)
next
  case True
  have len: "length window = 65536" using assms by (simp add: partitionScanWindow_def)
  show ?thesis
  proof (cases "2 ^ 63 \<le> gpt_start window + uint (gpt_count window) * uint (gpt_size window)")
    case wraps: True
    with gpt_start_range [of window] have "0 < gpt_count window"
      by (cases "gpt_count window = 0") (auto simp: in_i64_def word_neq_0_conv)
    then have "[0..<unat (gpt_count window)] = 0 # [1..<unat (gpt_count window)]"
      by (simp add: upt_conv_Cons word_less_nat_alt)
    with True wraps len \<open>0 < gpt_count window\<close> gpt_entry_wrapped [of window] show ?thesis
      by (auto simp: scanGPT_def mapGPTVolumes_def gpt_array_wraps_def gpt_outside_def)
  next
    case False
    with True gpt_entry_ok [of window] have "gpt_entry window i \<noteq> Inl Panic" if "i \<in> set [0..<unat (gpt_count window)]" for i
      using that by auto
    then have "scan_gpt_entries window [0..<unat (gpt_count window)] [] \<noteq> Inl Panic"
      "map_gpt_entries window [0..<unat (gpt_count window)] [] [] \<noteq> Inl Panic"
      by (simp_all only: scan_gpt_entries_no_panic map_gpt_entries_no_panic not_False_eq_True)
    with True False show ?thesis
      by (auto simp: scanGPT_def mapGPTVolumes_def bindE_Inl guardE_Inl gpt_array_wraps_def)
  qed
qed

section \<open>The boot scan and the volume map\<close>

definition some_bootable :: "Volume list \<Rightarrow> bool" where
  "some_bootable vs \<longleftrightarrow> (\<exists>v \<in> set vs. vol_Bootable v)"

lemma some_bootable_simps [simp]:
  "\<not> some_bootable []" "some_bootable (v # vs) \<longleftrightarrow> vol_Bootable v \<or> some_bootable vs"
  "some_bootable (vs @ ws) \<longleftrightarrow> some_bootable vs \<or> some_bootable ws"
  by (auto simp: some_bootable_def)

lemma map_gpt_entries_extends: "map_gpt_entries window is ranges vs = Inr vs' \<Longrightarrow> \<exists>ws. vs' = vs @ ws"
  by (induction "is" arbitrary: ranges vs) (fastforce simp: bindE_Inr split: if_splits)+

lemma gpt_scan_agrees:
  "map_gpt_entries window is ranges vs = Inr (vs @ ws) \<Longrightarrow>
   \<exists>scan. scan_gpt_entries window is ranges = Inr scan \<and> Bootable scan = some_bootable ws"
proof (induction "is" arbitrary: ranges vs ws)
  case (Cons i "is")
  obtain entry where e: "gpt_entry window i = Inr entry" using Cons.prems by (auto simp: bindE_Inr)
  show ?case
  proof (cases "isZero (slice_of entry 0 16)")
    case True
    with Cons e show ?thesis by simp
  next
    case False
    then have ok: "\<not> gpt_bad_geometry entry" "table_ok (gpt_overlaps ranges entry i) = Inr ()"
      and rest: "map_gpt_entries window is (ranges @ [(first_lba entry, lba_length entry)]) (vs @ [gpt_volume (length vs) entry]) = Inr (vs @ ws)"
      using Cons.prems e by (auto simp: bindE_Inr guardE_Inr)
    from map_gpt_entries_extends [OF rest] obtain us where us: "ws = gpt_volume (length vs) entry # us" by auto
    from Cons.IH [of "ranges @ [(first_lba entry, lba_length entry)]" "vs @ [gpt_volume (length vs) entry]" us] rest us
    show ?thesis using e False ok by (auto simp: gpt_volume_def)
  qed
qed simp

lemma map_ebrs_extends: "map_ebrs ld p base n l visited cur vs = Inr vs' \<Longrightarrow> \<exists>ws. vs' = vs @ ws"
  by (induction ld p base n l visited cur vs rule: map_ebrs.induct) (fastforce simp: bindE_Inr Let_def split: if_splits)+

lemma ebr_scan_agrees:
  "map_ebrs ld p base n l visited cur vs = Inr (vs @ ws) \<Longrightarrow>
   \<exists>scan. scan_ebrs ld p base n l visited cur = Inr scan \<and> Bootable scan = some_bootable ws"
proof (induction n arbitrary: l visited cur vs ws)
  case (Suc n)
  then obtain es where es: "read_ebr ld p l visited cur = Inr es" by (auto simp: bindE_Inr)
  define new where "new = (if 0 < sectors (es ! 0)
    then [mbrVolume (length vs) ''logical'' (cur + ucast (startLBA (es ! 0))) (es ! 0)] else [])"
  show ?case
  proof (cases "sectors (es ! 1) = 0")
    case True
    with Suc.prems es have "ws = new" by (auto simp: Let_def new_def split: if_splits)
    with True es show ?thesis by (auto simp: Let_def new_def mbrVolume_def)
  next
    case False
    then obtain nxt where nxt: "next_ebr base (es ! 1) = Inr nxt"
      "map_ebrs ld p base n (Suc l) (cur # visited) nxt (vs @ new) = Inr (vs @ ws)"
      using Suc.prems es by (auto simp: Let_def bindE_Inr new_def split: if_splits)
    from map_ebrs_extends [OF nxt(2)] obtain us where us: "ws = new @ us" by auto
    from Suc.IH [of "Suc l" "cur # visited" nxt "vs @ new" us] nxt us False es show ?thesis
      by (auto simp: Let_def new_def mbrVolume_def)
  qed
qed simp

definition containers :: "mbrEntry list \<Rightarrow> nat" where
  "containers es = length (filter is_container es)"

lemma no_containers: "containers es = 0 \<Longrightarrow> map_containers ld i es vs = Inr vs \<and> scanExtendedPartitions ld i es = Inr None"
  by (induction es arbitrary: i) (auto simp: containers_def)

lemma extended_scan_agrees:
  "map_containers ld i es vs = Inr vs' \<Longrightarrow> containers es \<le> 1 \<Longrightarrow>
   \<exists>found ws. vs' = vs @ ws \<and> scanExtendedPartitions ld i es = Inr found \<and>
     some_bootable ws = (case found of Some scan \<Rightarrow> Bootable scan | None \<Rightarrow> False)"
proof (induction es arbitrary: i)
  case (Cons e es)
  show ?case
  proof (cases "is_container e")
    case False
    with Cons show ?thesis by (auto simp: containers_def)
  next
    case True
    let ?b = "ucast (startLBA e)"
    have none: "containers es = 0" using True Cons.prems(2) by (simp add: containers_def)
    then have m: "map_ebrs ld i ?b maxExtendedPartitions 0 [] ?b vs = Inr vs'"
      using True Cons.prems(1) no_containers [OF none] by (auto simp: Let_def bindE_Inr)
    with map_ebrs_extends [OF m] ebr_scan_agrees [of ld i ?b maxExtendedPartitions 0 "[]" ?b vs] True show ?thesis by (fastforce simp: Let_def)
  qed
qed simp

lemma first_active_None: "first_active n es = None \<longleftrightarrow> (\<forall>e \<in> set es. bootFlag e \<noteq> 0x80)"
  by (induction es arbitrary: n) auto

lemma primary_volumes_bootable:
  "some_bootable (primary_volumes es vs) \<longleftrightarrow> some_bootable vs \<or>
     (\<exists>e \<in> set es. bootFlag e = 0x80 \<and> sectors e \<noteq> 0 \<and> \<not> isExtendedPartitionType (typeByte e))"
  by (induction es arbitrary: vs) (auto simp: mbrVolume_def)

text \<open>An active entry of the MBR that the volume map does not list: an empty one, or an extended container.\<close>

definition unlisted_active :: "mbrEntry list \<Rightarrow> bool" where
  "unlisted_active es \<longleftrightarrow> (\<exists>e \<in> set es. bootFlag e = 0x80 \<and> (sectors e = 0 \<or> isExtendedPartitionType (typeByte e)))"

definition volume_core :: "Volume \<Rightarrow> nat \<times> string \<times> string \<times> 64 word \<times> 64 word \<times> bool" where
  "volume_core v = (vol_Index v, vol_Kind v, vol_Type v, vol_StartBytes v, vol_SizeBytes v, vol_Bootable v)"

lemma with_content_core [simp]: "volume_core (with_content v c k e) = volume_core v"
  by (simp add: volume_core_def with_content_def)

lemma classify_core [simp]: "volume_core (classifyVolumeSignature v w) = volume_core v"
  by (simp add: classifyVolumeSignature_def split: option.split)

lemma classify_all_core: "classify_all ld vs = Inr vs' \<Longrightarrow> map volume_core vs' = map volume_core vs"
  by (induction vs arbitrary: vs') (auto simp: bindE_Inr classify_one_def Let_def)

lemma some_bootable_core: "some_bootable vs \<longleftrightarrow> (\<exists>c \<in> set (map volume_core vs). snd (snd (snd (snd (snd c)))))"
  by (auto simp: some_bootable_def volume_core_def)

lemma some_bootable_same: "map volume_core vs = map volume_core ws \<Longrightarrow> some_bootable vs = some_bootable ws"
  by (simp only: some_bootable_core)

lemma classifyVolumes_Inr:
  "classifyVolumes ld m = Inr m' \<Longrightarrow>
   vm_Table m' = vm_Table m \<and> map volume_core (vm_Volumes m') = map volume_core (vm_Volumes m) \<and>
   some_bootable (vm_Volumes m') = some_bootable (vm_Volumes m)"
  by (auto simp: classifyVolumes_def bindE_Inr dest!: classify_all_core intro: some_bootable_same [THEN iffD1] some_bootable_same [THEN iffD2])

lemma window_scan_agrees:
  assumes "map_window ld window = Inr m" "containers (mbrPartitionEntries window) \<le> 1"
  shows "\<exists>scan. scan_window ld window = Inr scan \<and> (Bootable scan \<longleftrightarrow>
    some_bootable (vm_Volumes m) \<or> vm_Table m = ''mbr'' \<and> unlisted_active (mbrPartitionEntries window))"
proof (cases "no_signature window")
  case True
  with assms show ?thesis by (auto simp: map_window_def scan_window_def)
next
  case False
  let ?es = "mbrPartitionEntries window"
  have valid: "table_ok (validateMBRPartitions ?es) = Inr ()" using assms(1) False by (auto simp: map_window_def Let_def bindE_Inr)
  show ?thesis
  proof (cases "list_ex (\<lambda>e. typeByte e = gptProtectiveMBRType) ?es")
    case True
    then obtain m0 where m0: "mapGPTVolumes window = Inr m0" "classifyVolumes ld m0 = Inr m"
      using assms(1) False valid by (auto simp: map_window_def Let_def bindE_Inr)
    then have g: "has_gpt_header window" "\<not> bad_gpt_array window" "\<not> gpt_outside window"
        "map_gpt_entries window [0..<unat (gpt_count window)] [] [] = Inr ([] @ vm_Volumes m0)" "vm_Table m0 = ''gpt''"
      by (auto simp: mapGPTVolumes_def bindE_Inr guardE_Inr)
    from gpt_scan_agrees [OF g(4)] g(1-3,5) classifyVolumes_Inr [OF m0(2)] True False valid show ?thesis
      by (auto simp: scan_window_def Let_def scanGPT_def)
  next
    case mbr: False
    then obtain m0 where m0: "mapMBRVolumes ld ?es = Inr m0" "classifyVolumes ld m0 = Inr m"
      using assms(1) False valid by (auto simp: map_window_def Let_def bindE_Inr)
    then have c: "map_containers ld 0 ?es (primary_volumes ?es []) = Inr (vm_Volumes m0)" "vm_Table m0 = ''mbr''"
      by (auto simp: mapMBRVolumes_def bindE_Inr)
    obtain found ws where f: "vm_Volumes m0 = primary_volumes ?es [] @ ws" "scanExtendedPartitions ld 0 ?es = Inr found"
        "some_bootable ws = (case found of Some scan \<Rightarrow> Bootable scan | None \<Rightarrow> False)"
      using extended_scan_agrees [OF c(1) assms(2)] by blast
    have m: "vm_Table m = ''mbr''" "some_bootable (vm_Volumes m) = some_bootable (vm_Volumes m0)"
      using classifyVolumes_Inr [OF m0(2)] c(2) by simp_all
    show ?thesis
    proof (cases "first_active 0 ?es")
      case None
      then show ?thesis using f m mbr False valid first_active_None [of 0 ?es]
        by (auto simp: scan_window_def Let_def primary_volumes_bootable unlisted_active_def split: option.splits)
    next
      case (Some i)
      then obtain e where "e \<in> set ?es" "bootFlag e = 0x80" using first_active_None [of 0 ?es] by auto
      then show ?thesis using Some f m mbr False valid
        by (auto simp: scan_window_def Let_def primary_volumes_bootable unlisted_active_def)
    qed
  qed
qed

text \<open>
  C30: What the boot scan and the volume map say of the same disk, when the volume map succeeds and the MBR has at most
  one extended container (the boot scan returns after the first one and would miss the others). The boot scan then
  succeeds too, and calls the disk bootable exactly when the map lists a bootable volume or when the disk has an MBR
  with an active entry that the map does not list, because it is empty or an extended container. So on a disk
  with a GPT or without a table the two agree, and on an MBR disk the boot scan can only say more.
\<close>

theorem boot_scan_agrees:
  assumes "openLogicalDisk opened format = Inr ld" "ReadLogical ld 0 partitionScanWindow = Inr window"
    and "containers (mbrPartitionEntries window) \<le> 1" "ScanVolumeMap opened format = Inr m"
  shows "\<exists>scan. ScanBootPartition opened format = Inr scan \<and> (Bootable scan \<longleftrightarrow>
    some_bootable (vm_Volumes m) \<or> vm_Table m = ''mbr'' \<and> unlisted_active (mbrPartitionEntries window))"
  using assms window_scan_agrees [of ld window m] by (simp add: ScanVolumeMap_def ScanBootPartition_def)

section \<open>Volumes do not overlap\<close>

definition apart :: "Volume \<Rightarrow> Volume \<Rightarrow> bool" where
  "apart v w \<longleftrightarrow> unat (vol_StartBytes v) + unat (vol_SizeBytes v) \<le> unat (vol_StartBytes w) \<or>
     unat (vol_StartBytes w) + unat (vol_SizeBytes w) \<le> unat (vol_StartBytes v)"

lemma not_rangesOverlap:
  assumes "\<not> rangesOverlap a m b n" "0 < m" "0 < n" "unat a + unat m < 2 ^ 64" "unat b + unat n < 2 ^ 64"
  shows "unat a + unat m \<le> unat b \<or> unat b + unat n \<le> unat a"
proof -
  have "unat (a + m) = unat a + unat m" "unat (b + n) = unat b + unat n" using assms(4,5) by (simp_all add: unat_word_ariths)
  with assms(1-3) show ?thesis by (auto simp: rangesOverlap_def word_less_nat_alt)
qed

lemma unat_times_512: "unat (a :: 64 word) < 2 ^ 55 \<Longrightarrow> unat (a * 512) = unat a * 512"
  by (simp add: unat_word_ariths)

lemma apart_scaled:
  assumes "unat a + unat m \<le> unat b \<or> unat b + unat n \<le> unat (a :: 64 word)"
    and "unat a < 2 ^ 55" "unat m < 2 ^ 55" "unat b < 2 ^ 55" "unat n < 2 ^ 55"
    and "vol_StartBytes v = a * 512" "vol_SizeBytes v = m * 512" "vol_StartBytes w = b * 512" "vol_SizeBytes w = n * 512"
  shows "apart v w"
  using assms by (auto simp: apart_def unat_times_512)

definition of_range :: "64 word \<times> 64 word \<Rightarrow> Volume \<Rightarrow> bool" where
  "of_range r v \<longleftrightarrow> vol_StartBytes v = fst r * 512 \<and> vol_SizeBytes v = snd r * 512 \<and> unat (fst r) < 2 ^ 55 \<and>
     unat (snd r) < 2 ^ 55 \<and> 0 < snd r \<and> unat (fst r) + unat (snd r) < 2 ^ 64"

lemma gpt_geometry:
  assumes "\<not> gpt_bad_geometry entry" "\<not> (- 1 div 512 < first_lba entry \<or> - 1 div 512 < lba_length entry)"
  shows "of_range (first_lba entry, lba_length entry) (gpt_volume k entry)"
proof -
  let ?a = "first_lba entry" and ?b = "last_lba entry"
  have "unat ?b \<noteq> unat (- 1 :: 64 word)" using assms(1) by (auto simp: gpt_bad_geometry_def simp flip: word_unat_eq_iff)
  then have "unat ?b \<noteq> 2 ^ 64 - 1" by (simp add: unsigned_minus_1_eq_mask mask_eq_exp_minus_1)
  then have ab: "unat ?a \<le> unat ?b" "unat ?b < 2 ^ 64 - 1"
    using assms(1) unsigned_less [of ?b, where 'a = nat] by (auto simp: gpt_bad_geometry_def word_less_nat_alt)
  then have l: "unat (lba_length entry) = unat ?b - unat ?a + 1"
    by (simp add: lba_length_def unat_word_ariths unat_sub word_le_nat_alt)
  have "(- 1 :: 64 word) div 512 = 0x7FFFFFFFFFFFFF" by simp
  with assms(2) have "unat ?a < 2 ^ 55" "unat (lba_length entry) < 2 ^ 55" by (auto simp: word_less_nat_alt)
  with ab l show ?thesis by (simp add: of_range_def gpt_volume_def word_less_nat_alt)
qed

lemma of_range_apart:
  assumes "of_range r v" "of_range q w" "\<not> rangesOverlap (fst q) (snd q) (fst r) (snd r)"
  shows "apart v w"
proof -
  have "unat (fst q) + unat (snd q) \<le> unat (fst r) \<or> unat (fst r) + unat (snd r) \<le> unat (fst q)"
    using assms by (intro not_rangesOverlap) (auto simp: of_range_def)
  then have "unat (fst r) + unat (snd r) \<le> unat (fst q) \<or> unat (fst q) + unat (snd q) \<le> unat (fst r)" by blast
  with assms show ?thesis by (intro apart_scaled) (auto simp: of_range_def)
qed

lemma map_gpt_entries_apart:
  "map_gpt_entries window is ranges vs = Inr vs' \<Longrightarrow> list_all2 of_range ranges vs \<Longrightarrow> sorted_wrt apart vs \<Longrightarrow>
   map vol_Index vs = [0..<length vs] \<Longrightarrow> sorted_wrt apart vs' \<and> map vol_Index vs' = [0..<length vs']"
proof (induction "is" arbitrary: ranges vs)
  case (Cons i "is")
  obtain entry where e: "gpt_entry window i = Inr entry" using Cons.prems(1) by (auto simp: bindE_Inr)
  show ?case
  proof (cases "isZero (slice_of entry 0 16)")
    case True
    with Cons e show ?thesis by simp
  next
    case False
    let ?r = "(first_lba entry, lba_length entry)" and ?v = "gpt_volume (length vs) entry"
    from False have g: "\<not> gpt_bad_geometry entry" "\<not> (- 1 div 512 < first_lba entry \<or> - 1 div 512 < lba_length entry)"
        "gpt_overlaps ranges entry i = None"
      and rest: "map_gpt_entries window is (ranges @ [?r]) (vs @ [?v]) = Inr vs'"
      using Cons.prems(1) e by (auto simp: bindE_Inr guardE_Inr table_ok_Inr)
    note new = gpt_geometry [OF g(1,2), of "length vs"]
    have "apart v ?v" if "v \<in> set vs" for v
    proof -
      from that obtain j where j: "j < length vs" "v = vs ! j" by (auto simp: in_set_conv_nth)
      then have "of_range (ranges ! j) v" "j < length ranges" using Cons.prems(2) by (auto simp: list_all2_conv_all_nth)
      with g(3) new show ?thesis by (intro of_range_apart) (auto simp: gpt_overlaps_def ok_iff)
    qed
    then have "sorted_wrt apart (vs @ [?v])" using Cons.prems(3) by (simp add: sorted_wrt_append)
    moreover have "list_all2 of_range (ranges @ [?r]) (vs @ [?v])" using Cons.prems(2) new by (simp add: list_all2_appendI)
    moreover have "map vol_Index (vs @ [?v]) = [0..<length (vs @ [?v])]" using Cons.prems(4) by (simp add: gpt_volume_def)
    ultimately show ?thesis using Cons.IH [OF rest] by simp
  qed
qed simp

lemma unat_ucast64 [simp]: "unat (ucast (w :: 32 word) :: 64 word) = unat w"
  using unsigned_less [of w, where 'a = nat] by (simp add: unsigned_ucast_eq take_bit_nat_eq_self)

lemma mbrVolume_index [simp]: "vol_Index (mbrVolume k kind start e) = k" "vol_Kind (mbrVolume k kind start e) = kind"
  by (simp_all add: mbrVolume_def)

lemma entry_range:
  assumes "\<not> bad_geometry e" "sectors e \<noteq> 0"
  shows "of_range (ucast (startLBA e), ucast (sectors e)) (mbrVolume k kind (ucast (startLBA e)) e)"
proof -
  have s: "unat (startLBA e) < 2 ^ 32" "unat (sectors e) < 2 ^ 32"
    using unsigned_less [of "startLBA e", where 'a = nat] unsigned_less [of "sectors e", where 'a = nat] by simp_all
  then show ?thesis using assms(2) by (simp add: of_range_def mbrVolume_def word_less_nat_alt unat_gt_0)
qed

lemma validateMBR_apart:
  assumes "validateMBRPartitions es = None" "j < i" "i < length es" "sectors (es ! i) \<noteq> 0" "sectors (es ! j) \<noteq> 0"
  shows "apart (mbrVolume k kind (ucast (startLBA (es ! j))) (es ! j)) (mbrVolume k' kind' (ucast (startLBA (es ! i))) (es ! i))"
proof -
  from assms have "\<not> bad_geometry (es ! i)" "\<not> bad_geometry (es ! j)" "\<not> entries_overlap (es ! i) (es ! j)"
    by (auto simp: validateMBRPartitions_def ok_iff Let_def)
  with assms(4,5) show ?thesis
    by (intro of_range_apart [OF entry_range entry_range]) (auto simp: entries_overlap_def word_neq_0_conv)
qed

lemma primary_volumes_apart:
  assumes "sorted_wrt (\<lambda>e o'. sectors e \<noteq> 0 \<longrightarrow> sectors o' \<noteq> 0 \<longrightarrow>
      (\<forall>k k'. apart (mbrVolume k ''primary'' (ucast (startLBA e)) e) (mbrVolume k' ''primary'' (ucast (startLBA o')) o'))) es"
    and "\<forall>v \<in> set vs. \<forall>e \<in> set es. sectors e \<noteq> 0 \<longrightarrow> (\<forall>k. apart v (mbrVolume k ''primary'' (ucast (startLBA e)) e))"
    and "sorted_wrt apart vs" "map vol_Index vs = [0..<length vs]"
  shows "sorted_wrt apart (primary_volumes es vs) \<and> map vol_Index (primary_volumes es vs) = [0..<length (primary_volumes es vs)]"
  using assms
proof (induction es arbitrary: vs)
  case (Cons e es)
  show ?case
  proof (cases "sectors e = 0 \<or> isExtendedPartitionType (typeByte e)")
    case True
    with Cons show ?thesis by auto
  next
    case False
    with Cons.prems Cons.IH [of "vs @ [mbrVolume (length vs) ''primary'' (ucast (startLBA e)) e]"] show ?thesis
      by (simp add: sorted_wrt_append ball_Un)
  qed
qed simp

abbreviation not_logical :: "Volume \<Rightarrow> bool" where
  "not_logical v \<equiv> vol_Kind v \<noteq> ''logical''"

definition numbered_apart :: "Volume list \<Rightarrow> bool" where
  "numbered_apart vs \<longleftrightarrow> map vol_Index vs = [0..<length vs] \<and> sorted_wrt apart (filter not_logical vs)"

lemma numbered_apart_logical:
  "numbered_apart vs \<Longrightarrow> numbered_apart (vs @ [mbrVolume (length vs) ''logical'' start e])"
  by (simp add: numbered_apart_def)

lemma map_ebrs_numbered:
  "map_ebrs ld p base n l visited cur vs = Inr vs' \<Longrightarrow> numbered_apart vs \<Longrightarrow> numbered_apart vs'"
  by (induction ld p base n l visited cur vs rule: map_ebrs.induct)
    (auto simp: bindE_Inr Let_def numbered_apart_logical split: if_splits)

lemma map_containers_numbered: "map_containers ld i es vs = Inr vs' \<Longrightarrow> numbered_apart vs \<Longrightarrow> numbered_apart vs'"
  by (induction es arbitrary: i vs) (auto simp: bindE_Inr Let_def split: if_splits dest: map_ebrs_numbered)

lemma primary_volumes_kind: "list_all not_logical vs \<Longrightarrow> list_all not_logical (primary_volumes es vs)"
  by (induction es arbitrary: vs) simp_all

lemma primary_numbered:
  assumes "validateMBRPartitions es = None"
  shows "numbered_apart (primary_volumes es [])"
proof -
  have "filter not_logical (primary_volumes es []) = primary_volumes es []" using primary_volumes_kind [of "[]" es] by (simp add: list_all_iff)
  moreover have "sorted_wrt apart (primary_volumes es []) \<and> map vol_Index (primary_volumes es []) = [0..<length (primary_volumes es [])]"
    using validateMBR_apart [OF assms] by (intro primary_volumes_apart) (auto simp: sorted_wrt_iff_nth_less)
  ultimately show ?thesis by (simp add: numbered_apart_def)
qed

lemma map_gpt_kind: "map_gpt_entries window is ranges vs = Inr vs' \<Longrightarrow> list_all not_logical vs \<Longrightarrow> list_all not_logical vs'"
proof (induction "is" arbitrary: ranges vs)
  case (Cons i "is")
  then show ?case by (auto simp: bindE_Inr gpt_volume_def split: if_splits)
qed simp

lemma gpt_numbered: "map_gpt_entries window is [] [] = Inr vs \<Longrightarrow> numbered_apart vs"
  using map_gpt_entries_apart [of window "is" "[]" "[]" vs] map_gpt_kind [of window "is" "[]" "[]" vs]
  by (simp add: numbered_apart_def list_all_iff)

definition apart_core :: "nat \<times> string \<times> string \<times> 64 word \<times> 64 word \<times> bool \<Rightarrow> nat \<times> string \<times> string \<times> 64 word \<times> 64 word \<times> bool \<Rightarrow> bool" where
  "apart_core = (\<lambda>(_, _, _, a, m, _) (_, _, _, b, n, _). unat a + unat m \<le> unat b \<or> unat b + unat n \<le> unat a)"

lemma numbered_apart_core:
  "numbered_apart vs \<longleftrightarrow> map fst (map volume_core vs) = [0..<length (map volume_core vs)] \<and>
     sorted_wrt apart_core (filter (\<lambda>c. fst (snd c) \<noteq> ''logical'') (map volume_core vs))"
proof -
  have "map fst (map volume_core vs) = map vol_Index vs" by (simp add: volume_core_def o_def)
  moreover have "filter (\<lambda>c. fst (snd c) \<noteq> ''logical'') (map volume_core vs) = map volume_core (filter not_logical vs)"
    by (simp add: filter_map volume_core_def o_def)
  moreover have "sorted_wrt apart_core (map volume_core ws) = sorted_wrt apart ws" for ws
    by (simp add: sorted_wrt_map apart_core_def volume_core_def apart_def [abs_def])
  ultimately show ?thesis by (simp only: numbered_apart_def length_map)
qed

lemma numbered_apart_same: "map volume_core vs = map volume_core ws \<Longrightarrow> numbered_apart vs = numbered_apart ws"
  by (simp only: numbered_apart_core)

text \<open>
  C31: The volumes of a disk are numbered from zero in table order, and no two of them overlap, whatever
  the partition table says: byte ranges of any two primary or GPT volumes are disjoint. Logical volumes inside an
  extended container are numbered, but the code does not compare them with their neighbours.
\<close>

theorem volumes_apart:
  assumes "ScanVolumeMap opened format = Inr m"
  shows "map vol_Index (vm_Volumes m) = [0..<length (vm_Volumes m)] \<and> sorted_wrt apart (filter not_logical (vm_Volumes m))"
proof -
  obtain ld window where "map_window ld window = Inr m" using assms by (auto simp: ScanVolumeMap_def bindE_Inr)
  then have "numbered_apart (vm_Volumes m)"
    by (auto simp: map_window_def Let_def bindE_Inr table_ok_Inr mapGPTVolumes_def mapMBRVolumes_def numbered_apart_def [of "[]"]
        split: if_splits dest!: classifyVolumes_Inr gpt_numbered primary_numbered map_containers_numbered
        intro: numbered_apart_same [THEN iffD2])
  then show ?thesis by (simp add: numbered_apart_def)
qed

section \<open>Examples\<close>

text \<open>A disk with two primary partitions of one sector, the first of them active, and a GPT header whose array wraps.\<close>

definition example_mbr :: disk_file where
  "example_mbr = \<lparr>df_size = 1536,
     df_at = (\<lambda>p. if p = 446 then 0x80 else if p = 450 then 0x83 else if p = 454 then 1 else if p = 458 then 1
       else if p = 466 then 0x83 else if p = 470 then 2 else if p = 474 then 1
       else if p = 510 then 0x55 else if p = 511 then 0xaa else 0),
     df_bad = (\<lambda>p. False), df_statFails = False\<rparr>"

lemma example_mbr_read: "0 \<le> p \<Longrightarrow> 0 \<le> n \<Longrightarrow> n \<le> maxMappedRegionSize \<Longrightarrow> p + n < 2 ^ 63 \<Longrightarrow>
    ReadLogical (rawLogicalDisk example_mbr) p n = Inr (file_bytes example_mbr p n)"
  by (simp add: readAtBounded_def unreadable_def list_ex_iff example_mbr_def)

definition example_entries :: "mbrEntry list" where
  "example_entries = [\<lparr>bootFlag = 0x80, typeByte = 0x83, startLBA = 1, sectors = 1\<rparr>,
     \<lparr>bootFlag = 0, typeByte = 0x83, startLBA = 2, sectors = 1\<rparr>, emptyMBREntry, emptyMBREntry]"

lemma example_mbr_entries: "mbrPartitionEntries (file_bytes example_mbr 0 65536) = example_entries"
  by (simp add: mbrPartitionEntries_def mbr_entry_def Let_def file_bytes_slice file_byte_def example_mbr_def le32_def
     example_entries_def emptyMBREntry_def)

lemma example_mbr_signature: "\<not> no_signature (file_bytes example_mbr 0 65536)"
  by (simp add: no_signature_def file_byte_def example_mbr_def)

definition example_volumes :: "Volume list" where
  "example_volumes = [mbrVolume 0 ''primary'' 1 (example_entries ! 0), mbrVolume 1 ''primary'' 2 (example_entries ! 1)]"

lemma example_mbr_valid: "validateMBRPartitions example_entries = None"
  "list_ex (\<lambda>e. typeByte e = gptProtectiveMBRType) example_entries = False" "primary_volumes example_entries [] = example_volumes"
  "containers example_entries = 0"
  by code_simp+

lemma example_mbr_zero: "file_bytes example_mbr 512 512 = replicate 512 0" "file_bytes example_mbr 1024 512 = replicate 512 0"
  by (rule nth_equalityI; simp add: file_byte_def example_mbr_def)+

lemma replicate_eq_Cons: "replicate n x = y # ys \<longleftrightarrow> x = y \<and> 0 < n \<and> replicate (n - 1) x = ys"
  by (cases n) auto

lemma classify_zero: "classifyVolumeSignature v (replicate 512 0) = v"
  by (simp add: classifyVolumeSignature_def has_bytes_def slice_of_def ascii_def lvm_label_def swap_page_def replicate_eq_Cons)

lemma example_mbr_map: "ScanVolumeMap (Inr example_mbr) FormatRAW = Inr \<lparr>vm_Table = ''mbr'', vm_Volumes = example_volumes\<rparr>"
proof -
  have "classify_all (rawLogicalDisk example_mbr) example_volumes = Inr example_volumes"
    by (simp add: example_volumes_def classify_one_def mbrVolume_def example_entries_def example_mbr_read volumeSignatureWindow_def
      maxMappedRegionSize_def example_mbr_zero classify_zero mask_eq_exp_minus_1 del: ReadLogical.simps)
  then show ?thesis
    by (simp add: ScanVolumeMap_def openLogicalDisk_def example_mbr_read partitionScanWindow_def maxMappedRegionSize_def map_window_def
      example_mbr_signature example_mbr_entries example_mbr_valid table_ok_def mapMBRVolumes_def no_containers classifyVolumes_def Let_def del: ReadLogical.simps)
qed

lemma example_mbr_scan: "\<exists>scan. ScanBootPartition (Inr example_mbr) FormatRAW = Inr scan \<and> Bootable scan"
proof -
  have "first_active 0 example_entries = Some 0" by code_simp
  then show ?thesis
    by (simp add: ScanBootPartition_def openLogicalDisk_def example_mbr_read partitionScanWindow_def maxMappedRegionSize_def
        scan_window_def example_mbr_signature example_mbr_entries example_mbr_valid table_ok_def Let_def del: ReadLogical.simps)
qed

theorem boot_scan_agrees_witness:
  "some_bootable example_volumes \<and> (\<exists>scan. ScanBootPartition (Inr example_mbr) FormatRAW = Inr scan \<and> Bootable scan)"
proof -
  have "openLogicalDisk (Inr example_mbr) FormatRAW = Inr (rawLogicalDisk example_mbr)" by (simp add: openLogicalDisk_def)
  moreover have "ReadLogical (rawLogicalDisk example_mbr) 0 partitionScanWindow = Inr (file_bytes example_mbr 0 65536)"
    using example_mbr_read [of 0 65536] by (simp add: partitionScanWindow_def maxMappedRegionSize_def del: ReadLogical.simps)
  moreover have "some_bootable example_volumes" by code_simp
  ultimately show ?thesis
    using boot_scan_agrees [OF _ _ _ example_mbr_map] by (auto simp: example_mbr_entries example_mbr_valid simp del: ReadLogical.simps)
qed

theorem volumes_apart_witness:
  "map vol_Index example_volumes = [0, 1] \<and> apart (example_volumes ! 0) (example_volumes ! 1)"
proof -
  have "filter not_logical example_volumes = example_volumes" by (simp add: example_volumes_def)
  with volumes_apart [OF example_mbr_map] show ?thesis by (simp add: example_volumes_def)
qed

definition example_gpt :: disk_file where
  "example_gpt = \<lparr>df_size = 1024,
     df_at = (\<lambda>p. if 512 \<le> p \<and> p < 520 then ascii ''EFI PART'' ! nat (p - 512) else if 584 \<le> p \<and> p < 590 then 0xFF
       else if p = 590 then 0x3F else if p = 592 then 4 else if p = 596 then 128 else 0),
     df_bad = (\<lambda>p. False), df_statFails = False\<rparr>"

lemma example_gpt_fields:
  "slice_of (file_bytes example_gpt 0 65536) 512 520 = ascii ''EFI PART''"
  "gpt_count (file_bytes example_gpt 0 65536) = 4" "gpt_size (file_bytes example_gpt 0 65536) = 128"
  "gpt_start (file_bytes example_gpt 0 65536) = 2 ^ 63 - 512"
proof -
  have d: "slice_of (drop 512 (file_bytes example_gpt 0 65536)) i j = file_bytes example_gpt (512 + int i) (int j - int i)" if "i \<le> j" "j \<le> 100" for i j
    using that file_bytes_slice [of "512 + i" "512 + j" 65536 example_gpt 0] by (simp add: slice_of_def add.commute)
  have "file_bytes example_gpt 512 8 = ascii ''EFI PART''" "le32 (file_bytes example_gpt 592 4) = 4"
    "le32 (file_bytes example_gpt 596 4) = 128" "i64 (sint (le64 (file_bytes example_gpt 584 8)) * 512) = 2 ^ 63 - 512" by code_simp+
  then show "slice_of (file_bytes example_gpt 0 65536) 512 520 = ascii ''EFI PART''"
    "gpt_count (file_bytes example_gpt 0 65536) = 4" "gpt_size (file_bytes example_gpt 0 65536) = 128"
    "gpt_start (file_bytes example_gpt 0 65536) = 2 ^ 63 - 512"
    by (simp_all add: file_bytes_slice gpt_count_def gpt_size_def gpt_start_def d)
qed

theorem gpt_scan_panics_iff_witness:
  "scanGPT (file_bytes example_gpt 0 65536) = Inl Panic \<and> mapGPTVolumes (file_bytes example_gpt 0 65536) = Inl Panic"
proof -
  have "gpt_array_wraps (file_bytes example_gpt 0 65536)"
    by (simp add: gpt_array_wraps_def has_gpt_header_def bad_gpt_array_def maxGPTPartitionEntries_def example_gpt_fields)
  with gpt_scan_panics_iff [of "file_bytes example_gpt 0 65536"] show ?thesis by (simp add: partitionScanWindow_def)
qed

end
