(* ===== verification/Boot_Disk.thy ===== *)
theory Boot_Disk
  imports Partition_Table
begin

text \<open>
  Format detection and the choice of the boot disk, \<^verbatim>\<open>vmdisk.go\<close> and \<^verbatim>\<open>selectboot.go\<close> of \<^verbatim>\<open>internal/vmdisk\<close>.
  A path is opened through a parameter that gives the file or an error.
\<close>

section \<open>Detection\<close>

definition headerWindow :: int where "headerWindow = 64 * 1024"
definition footerWindow :: int where "footerWindow = 512"
definition minDiskSize :: int where "minDiskSize = 512"

record Info =
  info_Format :: Format
  info_Path :: string
  info_SizeBytes :: int
  info_Evidence :: string

definition matched :: "Format \<Rightarrow> string \<Rightarrow> Info option" where
  "matched format evidence = Some \<lparr>info_Format = format, info_Path = [], info_SizeBytes = 0, info_Evidence = evidence\<rparr>"

definition detectQCOW2 :: "byte list \<Rightarrow> Info option" where
  "detectQCOW2 head =
     (if length head < 8 \<or> take 4 head \<noteq> [0x51, 0x46, 0x49, 0xfb] then None
      else let version = be32 (slice_of head 4 8) in
        if version \<noteq> 2 \<and> version \<noteq> 3 then None
        else matched FormatQCOW2 (''QFI'' @ [CHR 0x5C] @ ''xfb magic, version '' @ itoa (unat version)))"

definition detectVMDK :: "byte list \<Rightarrow> Info option" where
  "detectVMDK head =
     (if 4 \<le> length head \<and> has_bytes head 0 ''KDMV'' then matched FormatVMDK ''KDMV sparse-extent magic''
      else if take 21 head = ascii ''# Disk DescriptorFile'' then matched FormatVMDK ''text descriptor header''
      else None)"

definition detectVHDX :: "byte list \<Rightarrow> Info option" where
  "detectVHDX head =
     (if 8 \<le> length head \<and> has_bytes head 0 ''vhdxfile'' then matched FormatVHDX ''vhdxfile identifier'' else None)"

definition detectVHDHeader :: "byte list \<Rightarrow> Info option" where
  "detectVHDHeader head =
     (if 8 \<le> length head \<and> has_bytes head 0 ''conectix'' then matched FormatVHD ''conectix cookie at file start'' else None)"

definition detectVHDFooter :: "disk_file \<Rightarrow> int \<Rightarrow> disk_error + Info option" where
  "detectVHDFooter f fileSize =
     (if fileSize < footerWindow then Inr None
      else if unreadable f (fileSize - footerWindow) footerWindow then Inl ReadFailed
      else let footer = file_bytes f (fileSize - footerWindow) footerWindow in
        Inr (if take 8 footer = ascii ''conectix'' then matched FormatVHD ''conectix cookie at file end (footer)'' else None))"

definition detectISO :: "byte list \<Rightarrow> Info option" where
  "detectISO head =
     (if length head < 16 * 2048 + 1 + 5 then None
      else if has_bytes head (16 * 2048 + 1) ''CD001'' then matched FormatISO ''CD001 volume descriptor at sector 16''
      else None)"

definition detectRAW :: "byte list \<Rightarrow> Info option" where
  "detectRAW head =
     (if 512 \<le> length head \<and> head ! 510 = 0x55 \<and> head ! 511 = 0xaa
      then matched FormatRAW ''MBR boot signature 0x55AA at offset 510''
      else if 520 \<le> length head \<and> has_bytes head 512 ''EFI PART'' then matched FormatRAW ''GPT header at LBA 1''
      else None)"

definition finish :: "Info \<Rightarrow> string \<Rightarrow> int \<Rightarrow> Info" where
  "finish info path fileSize = info\<lparr>info_Path := path, info_SizeBytes := fileSize\<rparr>"

text \<open>The detectors that look at the header, in the order they are tried before the footer.\<close>

definition detect_header :: "byte list \<Rightarrow> Info option" where
  "detect_header head =
     or_else (detectVHDX head) (or_else (detectQCOW2 head) (or_else (detectVMDK head)
       (or_else (detectISO head) (detectVHDHeader head))))"

definition Detect :: "(string \<Rightarrow> disk_error + disk_file) \<Rightarrow> string \<Rightarrow> disk_error + Info" where
  "Detect opened path =
     bindE (opened path) (\<lambda>f.
     bindE (file_stat f) (\<lambda>fileSize.
     bindE (guardE (fileSize < minDiskSize) (DiskTooSmall fileSize)) (\<lambda>_.
     bindE (guardE (unreadable f 0 (min fileSize headerWindow)) ReadFailed) (\<lambda>_.
     let head = file_bytes f 0 (min fileSize headerWindow) in
     case detect_header head of
       Some info \<Rightarrow> Inr (finish info path fileSize)
     | None \<Rightarrow>
         bindE (detectVHDFooter f fileSize) (\<lambda>footer.
         case or_else footer (detectRAW head) of
           Some info \<Rightarrow> Inr (finish info path fileSize)
         | None \<Rightarrow> Inl UnsupportedFormat)))))"

section \<open>The boot disk\<close>

record DiskInfo =
  di_Info :: Info
  di_BootScan :: "BootScan option"
  di_ScanError :: "disk_error option"

datatype ambiguity =
    SeveralBootable "string list"
  | Unscannable "(string \<times> disk_error option) list"
  | NoneBootable

datatype select_error =
    NoDisks
  | DetectFailed nat string disk_error
  | NoOverrideMatch string
  | Ambiguous ambiguity
  | Panicked

definition inspect_disk :: "(string \<Rightarrow> disk_error + disk_file) \<Rightarrow> nat \<Rightarrow> string \<Rightarrow> select_error + DiskInfo" where
  "inspect_disk opened i path =
     (case Detect opened path of
        Inl e \<Rightarrow> Inl (DetectFailed i path e)
      | Inr info \<Rightarrow>
          (case ScanBootPartition (opened path) (info_Format info) of
             Inl Panic \<Rightarrow> Inl Panicked
           | Inl e \<Rightarrow> Inr \<lparr>di_Info = info, di_BootScan = None, di_ScanError = Some e\<rparr>
           | Inr scan \<Rightarrow> Inr \<lparr>di_Info = info, di_BootScan = Some scan, di_ScanError = None\<rparr>))"

fun inspect_disks :: "(string \<Rightarrow> disk_error + disk_file) \<Rightarrow> nat \<Rightarrow> string list \<Rightarrow> select_error + DiskInfo list" where
  "inspect_disks opened i [] = Inr []"
| "inspect_disks opened i (path # paths) =
     bindE (inspect_disk opened i path) (\<lambda>d. bindE (inspect_disks opened (Suc i) paths) (\<lambda>ds. Inr (d # ds)))"

definition has_evidence :: "DiskInfo \<Rightarrow> bool" where
  "has_evidence d = (case di_BootScan d of Some scan \<Rightarrow> Bootable scan | None \<Rightarrow> False)"

definition ambiguityReason :: "DiskInfo list \<Rightarrow> nat list \<Rightarrow> ambiguity" where
  "ambiguityReason disks bootable =
     (let unscannable = map (\<lambda>d. (info_Path (di_Info d), di_ScanError d)) (filter (\<lambda>d. di_BootScan d = None) disks) in
      if 1 < length bootable then SeveralBootable (map (\<lambda>i. info_Path (di_Info (disks ! i))) bootable)
      else if unscannable \<noteq> [] then Unscannable unscannable
      else NoneBootable)"

fun path_index :: "string \<Rightarrow> nat \<Rightarrow> string list \<Rightarrow> nat option" where
  "path_index p i [] = None"
| "path_index p i (q # qs) = (if q = p then Some i else path_index p (Suc i) qs)"

text \<open>The index, the disks and the error, as the function returns them.\<close>

definition SelectBootDisk ::
  "(string \<Rightarrow> disk_error + disk_file) \<Rightarrow> string list \<Rightarrow> string \<Rightarrow> nat \<times> DiskInfo list \<times> select_error option" where
  "SelectBootDisk opened paths bootDiskOverride =
     (if paths = [] then (0, [], Some NoDisks)
      else case inspect_disks opened 0 paths of
        Inl e \<Rightarrow> (0, [], Some e)
      | Inr disks \<Rightarrow>
          if bootDiskOverride \<noteq> [] then
            (case path_index bootDiskOverride 0 paths of
               Some i \<Rightarrow> (i, disks, None)
             | None \<Rightarrow> (0, disks, Some (NoOverrideMatch bootDiskOverride)))
          else if length paths = 1 then (0, disks, None)
          else let bootable = filter (\<lambda>i. has_evidence (disks ! i)) [0..<length disks] in
            if length bootable = 1 then (bootable ! 0, disks, None)
            else (0, disks, Some (Ambiguous (ambiguityReason disks bootable))))"

section \<open>A decision rests on evidence\<close>

definition boot_evidence :: "(string \<Rightarrow> disk_error + disk_file) \<Rightarrow> string \<Rightarrow> bool" where
  "boot_evidence opened path \<longleftrightarrow>
     (\<exists>info scan. Detect opened path = Inr info \<and> ScanBootPartition (opened path) (info_Format info) = Inr scan \<and> Bootable scan)"

lemma inspect_disk_evidence: "inspect_disk opened i path = Inr d \<Longrightarrow> has_evidence d = boot_evidence opened path"
  by (auto simp: inspect_disk_def has_evidence_def boot_evidence_def split: sum.splits disk_error.splits)

lemma inspect_disks_evidence:
  "inspect_disks opened i paths = Inr ds \<Longrightarrow>
   length ds = length paths \<and> (\<forall>k < length paths. has_evidence (ds ! k) = boot_evidence opened (paths ! k))"
proof (induction paths arbitrary: i ds)
  case (Cons p ps)
  then obtain d ds' where d: "inspect_disk opened i p = Inr d" "inspect_disks opened (Suc i) ps = Inr ds'" "ds = d # ds'"
    by (auto simp: bindE_Inr)
  with Cons.IH [OF d(2)] inspect_disk_evidence [OF d(1)] show ?case by (auto simp: nth_Cons split: nat.split)
qed simp

lemma singleton_filter: "length (filter P [0..<n]) = 1 \<longleftrightarrow> (\<exists>i. \<forall>j. j < n \<and> P j \<longleftrightarrow> j = i)"
proof -
  have s: "set (filter P [0..<n]) = {j. j < n \<and> P j}" and d: "distinct (filter P [0..<n])" by auto
  have "length (filter P [0..<n]) = card {j. j < n \<and> P j}" using distinct_card [OF d] s by simp
  then show ?thesis by (auto simp: card_1_singleton_iff set_eq_iff)
qed

lemma singleton_filter_nth:
  assumes "length (filter P [0..<n]) = 1" "i < n" "P i"
  shows "filter P [0..<n] ! 0 = i"
proof -
  from assms(1) obtain k where k: "filter P [0..<n] = [k]" by (auto simp: length_Suc_conv)
  moreover have "i \<in> set (filter P [0..<n])" using assms(2,3) by simp
  ultimately show ?thesis by simp
qed

text \<open>
  The boot disk is chosen on evidence. Given two or more disks that are recognised and scanned without a
  crash, and no override, disk \<^verbatim>\<open>i\<close> is returned exactly when it is the only one whose partition table marks it bootable.
  A disk that cannot be scanned counts as one without evidence.
\<close>

theorem boot_disk_by_evidence:
  assumes "2 \<le> length paths" "inspect_disks opened 0 paths = Inr disks"
  shows "SelectBootDisk opened paths [] = (i, disks, None) \<longleftrightarrow>
    (\<forall>j. j < length paths \<and> boot_evidence opened (paths ! j) \<longleftrightarrow> j = i)"
proof -
  have len: "length disks = length paths" and ev: "\<And>k. k < length paths \<Longrightarrow> has_evidence (disks ! k) = boot_evidence opened (paths ! k)"
    using inspect_disks_evidence [OF assms(2)] by auto
  let ?P = "\<lambda>i. has_evidence (disks ! i)"
  have "SelectBootDisk opened paths [] = (i, disks, None) \<longleftrightarrow>
      length (filter ?P [0..<length paths]) = 1 \<and> filter ?P [0..<length paths] ! 0 = i"
    using assms len by (auto simp: SelectBootDisk_def Let_def)
  also have "\<dots> \<longleftrightarrow> (\<forall>j. j < length paths \<and> ?P j \<longleftrightarrow> j = i)"
    using singleton_filter [of ?P "length paths"] singleton_filter_nth [of ?P "length paths"] by metis
  finally show ?thesis using ev by auto
qed

section \<open>Examples\<close>

text \<open>Comparing a text with bytes of a file, character by character.\<close>

fun bytes_are :: "disk_file \<Rightarrow> int \<Rightarrow> byte list \<Rightarrow> bool" where
  "bytes_are f p [] = True"
| "bytes_are f p (c # cs) = (file_byte f p = c \<and> bytes_are f (p + 1) cs)"

lemma bytes_are_iff: "bytes_are f p cs \<longleftrightarrow> (\<forall>i < length cs. file_byte f (p + int i) = cs ! i)"
  by (induction cs arbitrary: p) (auto simp: nth_Cons add.assoc less_Suc_eq_0_disj split: nat.splits)

lemma file_bytes_eq: "n = int (length cs) \<Longrightarrow> file_bytes f p n = cs \<longleftrightarrow> bytes_are f p cs"
  by (auto simp: list_eq_iff_nth_eq bytes_are_iff)

lemma take_file_bytes: "int k \<le> n \<Longrightarrow> int k = int (length cs) \<Longrightarrow> take k (file_bytes f p n) = cs \<longleftrightarrow> bytes_are f p cs"
  using file_bytes_slice [of 0 k n f p] by (simp add: slice_of_def file_bytes_eq)

lemma has_bytes_file: "int off + int (length t) \<le> n \<Longrightarrow> has_bytes (file_bytes f p n) off t \<longleftrightarrow> bytes_are f (p + int off) (ascii t)"
  by (simp add: has_bytes_def file_bytes_slice file_bytes_eq ascii_def)

definition example_text :: disk_file where
  "example_text = \<lparr>df_size = 512, df_at = (\<lambda>p. if p < 21 then ascii ''# Disk DescriptorFile'' ! nat p else 0),
     df_bad = (\<lambda>p. False), df_statFails = False\<rparr>"

definition example_paths :: "string \<Rightarrow> disk_error + disk_file" where
  "example_paths p = (if p = ''a'' then Inr example_mbr else if p = ''b'' then Inr example_text else Inl OpenFailed)"

lemmas detect_defs = detect_header_def detectVHDX_def detectQCOW2_def detectVMDK_def detectISO_def detectVHDHeader_def
  has_bytes_file take_file_bytes ascii_def or_else_def file_stat_def file_byte_def
  minDiskSize_def headerWindow_def footerWindow_def unreadable_def list_ex_iff matched_def finish_def Let_def

lemma example_detect_text: "Detect example_paths ''b'' = Inr \<lparr>info_Format = FormatVMDK, info_Path = ''b'', info_SizeBytes = 512,
    info_Evidence = ''text descriptor header''\<rparr>"
  by (simp add: Detect_def example_paths_def example_text_def detect_defs)

lemma example_detect_mbr: "Detect example_paths ''a'' = Inr \<lparr>info_Format = FormatRAW, info_Path = ''a'', info_SizeBytes = 1536,
    info_Evidence = ''MBR boot signature 0x55AA at offset 510''\<rparr>"
  by (simp add: Detect_def example_paths_def example_mbr_def detect_defs detectVHDFooter_def detectRAW_def)

lemma example_scan_text: "ScanBootPartition (example_paths ''b'') FormatVMDK = Inl TextDescriptor"
  by (simp add: ScanBootPartition_def openLogicalDisk_def newVMDKLogicalDisk_def readAtBounded_def example_paths_def
      example_text_def maxMappedRegionSize_def detect_defs)

text \<open>
  The second disk is a VMDK in text form, which cannot be scanned; the first is still chosen.
\<close>

theorem boot_disk_by_evidence_witness: "\<exists>disks. SelectBootDisk example_paths [''a'', ''b''] [] = (0, disks, None) \<and> di_BootScan (disks ! 1) = None"
proof -
  have p: "example_paths ''a'' = Inr example_mbr" by (simp add: example_paths_def)
  obtain scan where scan: "ScanBootPartition (example_paths ''a'') FormatRAW = Inr scan" "Bootable scan"
    using example_mbr_scan p by auto
  then obtain disks where d: "inspect_disks example_paths 0 [''a'', ''b''] = Inr disks" "di_BootScan (disks ! 1) = None"
    by (simp add: inspect_disk_def example_detect_mbr example_detect_text example_scan_text)
  have "boot_evidence example_paths ''a''" "\<not> boot_evidence example_paths ''b''"
    using scan by (simp_all add: boot_evidence_def example_detect_mbr example_detect_text example_scan_text)
  then have "\<forall>j. j < length [''a'', ''b''] \<and> boot_evidence example_paths ([''a'', ''b''] ! j) \<longleftrightarrow> j = 0"
    by (auto simp: less_Suc_eq)
  with boot_disk_by_evidence [OF _ d(1), of 0] d(2) show ?thesis by auto
qed

end
