(* ===== verification/Guest_Transport.thy ===== *)
theory Guest_Transport
  imports Go_Text Go_Int
begin

text \<open>
  The authenticated control protocol between host and guest, \<^verbatim>\<open>protocol.go\<close>, \<^verbatim>\<open>agent.go\<close> and \<^verbatim>\<open>heartbeat.go\<close> of
  \<^verbatim>\<open>internal/guesttransport\<close>. A connection is the bytes that will arrive, the bytes sent so far and how
  many more it accepts. JSON and HMAC-SHA256 are a record of functions; what a theorem needs of them
  is a hypothesis. A request handler acts on an arbitrary world.
\<close>

section \<open>Messages\<close>

definition Version :: int where "Version = 1"
definition MaxFrameSize :: nat where "MaxFrameSize = 1048576"
definition MaxArguments :: nat where "MaxArguments = 128"
definition MaxIOBytes :: nat where "MaxIOBytes = 768 * 1024"

record Request =
  rq_Operation :: string
  rq_Args :: "string list"
  rq_Signal :: string
  rq_Stdin :: "8 word list"

record Response =
  rs_ExitCode :: int
  rs_State :: string
  rs_Stdout :: "8 word list"
  rs_Stderr :: "8 word list"
  rs_Logs :: "8 word list"
  rs_Error :: string

record envelope =
  env_Version :: int
  env_Seq :: "64 word"
  env_Payload :: "8 word list"
  env_MAC :: string

definition no_response :: Response where
  "no_response = \<lparr>rs_ExitCode = 0, rs_State = [], rs_Stdout = [], rs_Stderr = [], rs_Logs = [], rs_Error = []\<rparr>"

text \<open>
  \<^verbatim>\<open>json.Marshal\<close> and \<^verbatim>\<open>json.Unmarshal\<close> for the three message types, and the digest of the keyed hash.
\<close>

record encodings =
  marshalRequest :: "Request \<Rightarrow> 8 word list"
  unmarshalRequest :: "8 word list \<Rightarrow> Request option"
  marshalResponse :: "Response \<Rightarrow> 8 word list"
  unmarshalResponse :: "8 word list \<Rightarrow> Response option"
  marshalEnvelope :: "envelope \<Rightarrow> 8 word list"
  unmarshalEnvelope :: "8 word list \<Rightarrow> envelope option"
  strconvQuote :: "string \<Rightarrow> string"
  hmacSHA256 :: "8 word list \<Rightarrow> 8 word list \<Rightarrow> 8 word list"

section \<open>Bytes\<close>

fun be_bytes :: "nat \<Rightarrow> nat \<Rightarrow> 8 word list" where
  "be_bytes 0 v = []"
| "be_bytes (Suc n) v = be_bytes n (v div 256) @ [of_nat v]"

definition be_value :: "8 word list \<Rightarrow> nat" where
  "be_value bs = foldl (\<lambda>n b. 256 * n + unat b) 0 bs"

lemma length_be_bytes [simp]: "length (be_bytes n v) = n"
  by (induction n arbitrary: v) auto

lemma be_value_be_bytes: "v < 256 ^ n \<Longrightarrow> be_value (be_bytes n v) = v"
proof (induction n arbitrary: v)
  case (Suc n)
  then have "v div 256 < 256 ^ n" by (simp add: less_mult_imp_div_less mult.commute)
  with Suc.IH [of "v div 256"] show ?case by (simp add: be_value_def unat_of_nat)
qed (simp add: be_value_def)

lemma be_bytes_inject: "v < 256 ^ n \<Longrightarrow> w < 256 ^ n \<Longrightarrow> be_bytes n v = be_bytes n w \<longleftrightarrow> v = w"
  by (metis be_value_be_bytes)

definition hex_value :: "char \<Rightarrow> nat option" where
  "hex_value c =
     (if CHR ''0'' \<le> c \<and> c \<le> CHR ''9'' then Some (of_char c - 48)
      else if CHR ''a'' \<le> c \<and> c \<le> CHR ''f'' then Some (of_char c - 87)
      else if CHR ''A'' \<le> c \<and> c \<le> CHR ''F'' then Some (of_char c - 55)
      else None)"

fun hex_decode :: "string \<Rightarrow> 8 word list option" where
  "hex_decode [] = Some []"
| "hex_decode [c] = None"
| "hex_decode (c # d # cs) =
     (case (hex_value c, hex_value d, hex_decode cs) of
        (Some x, Some y, Some bs) \<Rightarrow> Some (of_nat (16 * x + y) # bs)
      | _ \<Rightarrow> None)"

lemma hex_value_digit: "n < 16 \<Longrightarrow> hex_value (hex_digit n) = Some n"
proof -
  assume n: "n < 16"
  have "n < 10 \<or> 10 \<le> n" by auto
  with n byte_hex_digit [OF n] show ?thesis
    by (auto simp: hex_value_def less_eq_char_def)
qed

lemma hex_decode_encode: "hex_decode (hex_encode bs) = Some bs"
proof (induction bs)
  case (Cons b bs)
  have "unat b div 16 < 16" by (rule unat_div16)
  with Cons show ?case
    by (simp add: hex_encode_def hex_byte_def hex_value_digit mult.commute)
qed (simp add: hex_encode_def)

section \<open>The codec\<close>

datatype transport_error =
    NoConnection | WeakKey
  | ZeroSequence | FrameTooLarge | WriteHeader | WriteFrame
  | ReadHeader | InvalidFrameSize | ReadFrame | BadEnvelope | UnsupportedVersion int | Replayed | AuthFailed | BadPayload
  | SequenceMismatch | ResponseError string
  | ContextDone | DeadlineFailed | AgentClosed | ReconnectRequired transport_error
  | ReadStdin | StdinTooLarge | WriteStdout | WriteStderr | WriteLogs

record Codec =
  c_in :: "8 word list"
  c_out :: "8 word list"
  c_room :: "nat option"
  c_key :: "8 word list"
  c_recvSeq :: "64 word"

definition NewCodec :: "8 word list \<Rightarrow> nat option \<Rightarrow> 8 word list \<Rightarrow> transport_error + Codec" where
  "NewCodec incoming room key =
     (if length key < 32 then Inl WeakKey
      else Inr \<lparr>c_in = incoming, c_out = [], c_room = room, c_key = key, c_recvSeq = 0\<rparr>)"

text \<open>\<^verbatim>\<open>w.Write\<close>: a connection that takes no more bytes accepts a part of them and reports an error.\<close>

definition conn_write :: "Codec \<Rightarrow> 8 word list \<Rightarrow> bool \<times> Codec" where
  "conn_write c bs =
     (case c_room c of
        None \<Rightarrow> (True, c\<lparr>c_out := c_out c @ bs\<rparr>)
      | Some n \<Rightarrow> (length bs \<le> n, c\<lparr>c_out := c_out c @ take n bs, c_room := Some (n - length bs)\<rparr>))"

definition mac_input :: "int \<Rightarrow> 64 word \<Rightarrow> 8 word list \<Rightarrow> 8 word list" where
  "mac_input version seq payload = be_bytes 4 (nat (version mod 2 ^ 32)) @ be_bytes 8 (unat seq) @ payload"

definition mac :: "encodings \<Rightarrow> 8 word list \<Rightarrow> int \<Rightarrow> 64 word \<Rightarrow> 8 word list \<Rightarrow> string" where
  "mac enc key version seq payload = hex_encode (hmacSHA256 enc key (mac_input version seq payload))"

definition seal :: "encodings \<Rightarrow> 8 word list \<Rightarrow> 64 word \<Rightarrow> 8 word list \<Rightarrow> envelope" where
  "seal enc key seq payload =
     \<lparr>env_Version = Version, env_Seq = seq, env_Payload = payload, env_MAC = mac enc key Version seq payload\<rparr>"

definition Codec_Write :: "encodings \<Rightarrow> Codec \<Rightarrow> 64 word \<Rightarrow> 8 word list \<Rightarrow> transport_error option \<times> Codec" where
  "Codec_Write enc c seq payload =
     (if seq = 0 then (Some ZeroSequence, c)
      else let frame = marshalEnvelope enc (seal enc (c_key c) seq payload) in
        if MaxFrameSize < length frame then (Some FrameTooLarge, c)
        else case conn_write c (be_bytes 4 (length frame)) of
          (False, c1) \<Rightarrow> (Some WriteHeader, c1)
        | (True, c1) \<Rightarrow>
            (case conn_write c1 frame of
               (False, c2) \<Rightarrow> (Some WriteFrame, c2)
             | (True, c2) \<Rightarrow> (None, c2)))"

text \<open>The checks on a decoded envelope.\<close>

definition open_envelope :: "encodings \<Rightarrow> Codec \<Rightarrow> envelope \<Rightarrow> transport_error option" where
  "open_envelope enc c env =
     or_else (reject_if (env_Version env \<noteq> Version) (UnsupportedVersion (env_Version env)))
    (or_else (reject_if (env_Seq env = 0 \<or> env_Seq env \<le> c_recvSeq c) Replayed)
             (reject_if (hex_decode (env_MAC env) = None \<or>
                hex_decode (env_MAC env) \<noteq> hex_decode (mac enc (c_key c) (env_Version env) (env_Seq env) (env_Payload env))) AuthFailed))"

definition Codec_Read :: "encodings \<Rightarrow> (8 word list \<Rightarrow> 'v option) \<Rightarrow> Codec \<Rightarrow> (transport_error + 64 word \<times> 'v) \<times> Codec" where
  "Codec_Read enc unmarshal c =
     (if length (c_in c) < 4 then (Inl ReadHeader, c\<lparr>c_in := []\<rparr>)
      else let frameSize = be_value (take 4 (c_in c)); c1 = c\<lparr>c_in := drop 4 (c_in c)\<rparr> in
        if frameSize = 0 \<or> MaxFrameSize < frameSize then (Inl InvalidFrameSize, c1)
        else if length (c_in c1) < frameSize then (Inl ReadFrame, c1\<lparr>c_in := []\<rparr>)
        else let frame = take frameSize (c_in c1); c2 = c1\<lparr>c_in := drop frameSize (c_in c1)\<rparr> in
          case unmarshalEnvelope enc frame of
            None \<Rightarrow> (Inl BadEnvelope, c2)
          | Some env \<Rightarrow>
              (case open_envelope enc c env of
                 Some e \<Rightarrow> (Inl e, c2)
               | None \<Rightarrow>
                   (case unmarshal (env_Payload env) of
                      None \<Rightarrow> (Inl BadPayload, c2)
                    | Some v \<Rightarrow> (Inr (env_Seq env, v), c2\<lparr>c_recvSeq := env_Seq env\<rparr>))))"

section \<open>Server and client\<close>

definition validateRequest :: "encodings \<Rightarrow> Request \<Rightarrow> string option" where
  "validateRequest enc request =
     (if rq_Operation request = ''exec'' then
        or_else (reject_if (rq_Args request = []) ''exec requires an argument'')
                (reject_if (MaxArguments < length (rq_Args request)) ''exec has too many arguments'')
      else if rq_Operation request = ''signal'' then reject_if (rq_Signal request = []) ''signal is required''
      else if rq_Operation request \<in> {''shutdown'', ''state'', ''logs''} then None
      else Some (''unsupported operation '' @ strconvQuote enc (rq_Operation request)))"

definition ServeOne ::
  "encodings \<Rightarrow> (Request \<Rightarrow> 'w \<Rightarrow> Response \<times> 'w) \<Rightarrow> Codec \<Rightarrow> 'w \<Rightarrow> transport_error option \<times> Codec \<times> 'w" where
  "ServeOne enc handler c w =
     (case Codec_Read enc (unmarshalRequest enc) c of
        (Inl e, c1) \<Rightarrow> (Some e, c1, w)
      | (Inr (seq, request), c1) \<Rightarrow>
          (case validateRequest enc request of
             Some msg \<Rightarrow>
               (case Codec_Write enc c1 seq (marshalResponse enc (no_response\<lparr>rs_Error := msg\<rparr>)) of (e, c2) \<Rightarrow> (e, c2, w))
           | None \<Rightarrow>
               (case handler request w of
                  (response, w1) \<Rightarrow>
                    (case Codec_Write enc c1 seq (marshalResponse enc response) of (e, c2) \<Rightarrow> (e, c2, w1)))))"

record Client =
  cl_codec :: Codec
  cl_seq :: "64 word"

definition NewClient :: "Codec \<Rightarrow> Client" where
  "NewClient codec = \<lparr>cl_codec = codec, cl_seq = 0\<rparr>"

definition Client_Do :: "encodings \<Rightarrow> Client \<Rightarrow> bool \<Rightarrow> Request \<Rightarrow> (Response \<times> transport_error option) \<times> Client" where
  "Client_Do enc cl ctxDone request =
     (if ctxDone then ((no_response, Some ContextDone), cl)
      else let seq = cl_seq cl + 1 in
        case Codec_Write enc (cl_codec cl) seq (marshalRequest enc request) of
          (Some e, c1) \<Rightarrow> ((no_response, Some e), \<lparr>cl_codec = c1, cl_seq = seq\<rparr>)
        | (None, c1) \<Rightarrow>
            (case Codec_Read enc (unmarshalResponse enc) c1 of
               (Inl e, c2) \<Rightarrow> ((no_response, Some e), \<lparr>cl_codec = c2, cl_seq = seq\<rparr>)
             | (Inr (got, response), c2) \<Rightarrow>
                 ((if got \<noteq> seq then (no_response, Some SequenceMismatch)
                   else if rs_Error response \<noteq> [] then (response, Some (ResponseError (rs_Error response)))
                   else (response, None)),
                  \<lparr>cl_codec = c2, cl_seq = seq\<rparr>)))"

section \<open>The agent\<close>

text \<open>
  What happens to the context of a call: whether it ends while the call waits for its turn, before the
  exchange, at the start of the client's exchange or during it, and whether setting the deadline fails.
\<close>

record ctx =
  cx_gate :: bool
  cx_err :: bool
  cx_deadlineFails :: bool
  cx_doErr :: bool
  cx_fired :: bool

record Agent =
  a_client :: Client
  a_closed :: bool
  a_failure :: "transport_error option"

definition NewAgent :: "(8 word list \<times> nat option) option \<Rightarrow> 8 word list \<Rightarrow> transport_error + Agent" where
  "NewAgent conn sessionKey =
     (case conn of
        None \<Rightarrow> Inl NoConnection
      | Some (incoming, room) \<Rightarrow>
          bindE (NewCodec incoming room sessionKey) (\<lambda>codec.
          Inr \<lparr>a_client = NewClient codec, a_closed = False, a_failure = None\<rparr>))"

definition invalidate :: "transport_error \<Rightarrow> Agent \<Rightarrow> Agent" where
  "invalidate e a = a\<lparr>a_failure := (case a_failure a of None \<Rightarrow> Some e | Some e' \<Rightarrow> Some e'), a_closed := True\<rparr>"

definition Agent_do :: "encodings \<Rightarrow> Agent \<Rightarrow> ctx \<Rightarrow> Request \<Rightarrow> (Response \<times> transport_error option) \<times> Agent" where
  "Agent_do enc a cx request =
     (if cx_gate cx then ((no_response, Some ContextDone), a)
      else if a_closed a then
        ((no_response, Some (case a_failure a of Some failure \<Rightarrow> ReconnectRequired failure | None \<Rightarrow> AgentClosed)), a)
      else if cx_err cx then ((no_response, Some ContextDone), a)
      else if cx_deadlineFails cx then ((no_response, Some DeadlineFailed), a)
      else case Client_Do enc (a_client a) (cx_doErr cx) request of
        ((response, err), cl) \<Rightarrow>
          (let a1 = a\<lparr>a_client := cl\<rparr>; a2 = (if cx_fired cx then invalidate ContextDone a1 else a1) in
           case err of
             None \<Rightarrow> ((response, None), a2)
           | Some (ResponseError m) \<Rightarrow> ((response, Some (ResponseError m)), a2)
           | Some e \<Rightarrow> ((response, Some (ReconnectRequired e)), invalidate e a2)))"

definition op_request :: "string \<Rightarrow> Request" where
  "op_request op = \<lparr>rq_Operation = op, rq_Args = [], rq_Signal = [], rq_Stdin = []\<rparr>"

text \<open>
  The standard input is what reading at most \<^verbatim>\<open>MaxIOBytes+1\<close> bytes of it gives, or an error; the two flags say
  whether a writer is given and whether it fails.
\<close>

datatype sink = NoSink | Sink bool

definition Exec ::
  "encodings \<Rightarrow> Agent \<Rightarrow> ctx \<Rightarrow> string list \<Rightarrow> 8 word list option \<Rightarrow> sink \<Rightarrow> sink \<Rightarrow> (int \<times> transport_error option) \<times> Agent" where
  "Exec enc a cx args stdin stdout stderr =
     (case stdin of
        None \<Rightarrow> ((0, Some ReadStdin), a)
      | Some input \<Rightarrow>
          if MaxIOBytes < length input then ((0, Some StdinTooLarge), a)
          else case Agent_do enc a cx ((op_request ''exec'')\<lparr>rq_Args := args, rq_Stdin := input\<rparr>) of
            ((response, Some e), a1) \<Rightarrow> ((rs_ExitCode response, Some e), a1)
          | ((response, None), a1) \<Rightarrow>
              ((rs_ExitCode response,
                if stdout = Sink True then Some WriteStdout else if stderr = Sink True then Some WriteStderr else None), a1))"

definition Signal :: "encodings \<Rightarrow> Agent \<Rightarrow> ctx \<Rightarrow> string \<Rightarrow> transport_error option \<times> Agent" where
  "Signal enc a cx signal = (case Agent_do enc a cx ((op_request ''signal'')\<lparr>rq_Signal := signal\<rparr>) of ((_, e), a1) \<Rightarrow> (e, a1))"

definition Shutdown :: "encodings \<Rightarrow> Agent \<Rightarrow> ctx \<Rightarrow> transport_error option \<times> Agent" where
  "Shutdown enc a cx = (case Agent_do enc a cx (op_request ''shutdown'') of ((_, e), a1) \<Rightarrow> (e, a1))"

definition State :: "encodings \<Rightarrow> Agent \<Rightarrow> ctx \<Rightarrow> (string \<times> transport_error option) \<times> Agent" where
  "State enc a cx = (case Agent_do enc a cx (op_request ''state'') of ((r, e), a1) \<Rightarrow> ((rs_State r, e), a1))"

definition Logs :: "encodings \<Rightarrow> Agent \<Rightarrow> ctx \<Rightarrow> sink \<Rightarrow> transport_error option \<times> Agent" where
  "Logs enc a cx dst =
     (case Agent_do enc a cx (op_request ''logs'') of
        ((_, Some e), a1) \<Rightarrow> (Some e, a1)
      | ((_, None), a1) \<Rightarrow> (if dst = Sink True then Some WriteLogs else None, a1))"

definition Agent_Close :: "Agent \<Rightarrow> Agent" where
  "Agent_Close a = (if a_closed a then a else a\<lparr>a_closed := True\<rparr>)"

section \<open>Heartbeats\<close>

text \<open>One tick: the misses so far and whether the guest counts as stuck, and the notification if that changes.\<close>

definition beat :: "nat \<Rightarrow> nat \<times> bool \<Rightarrow> bool \<Rightarrow> (nat \<times> bool) \<times> (bool \<times> nat) list" where
  "beat missedThreshold st failed =
     (let misses = (if failed then fst st + 1 else 0); nowStuck = (missedThreshold \<le> misses) in
      ((misses, nowStuck), if nowStuck = snd st then [] else [(nowStuck, misses)]))"

fun runHeartbeat :: "encodings \<Rightarrow> nat \<Rightarrow> nat \<times> bool \<Rightarrow> Agent \<Rightarrow> ctx list \<Rightarrow> (bool \<times> nat) list \<times> Agent" where
  "runHeartbeat enc missedThreshold st a [] = ([], a)"
| "runHeartbeat enc missedThreshold st a (cx # cxs) =
     (case State enc a cx of
        ((_, err), a1) \<Rightarrow>
          (case beat missedThreshold st (err \<noteq> None) of
             (st1, notes) \<Rightarrow>
               (case runHeartbeat enc missedThreshold st1 a1 cxs of (rest, a2) \<Rightarrow> (notes @ rest, a2))))"

definition RunHeartbeat :: "encodings \<Rightarrow> int \<Rightarrow> int \<Rightarrow> Agent \<Rightarrow> ctx list \<Rightarrow> (bool \<times> nat) list \<times> Agent" where
  "RunHeartbeat enc interval missedThreshold a cxs =
     (if interval \<le> 0 \<or> missedThreshold \<le> 0 then ([], a) else runHeartbeat enc (nat missedThreshold) (0, False) a cxs)"

section \<open>Replay protection\<close>

text \<open>
  A frame is four bytes of length and as many bytes of data. An envelope is authentic under a key if it has the
  protocol's version and its own hash field is the keyed hash of its version, sequence number and payload.
\<close>

definition framed :: "8 word list \<Rightarrow> 8 word list \<Rightarrow> bool" where
  "framed bs frame \<longleftrightarrow> 4 \<le> length bs \<and> be_value (take 4 bs) = length frame \<and> drop 4 bs = frame"

definition authentic :: "encodings \<Rightarrow> 8 word list \<Rightarrow> envelope \<Rightarrow> bool" where
  "authentic enc key env \<longleftrightarrow> env_Version env = Version \<and>
     hex_decode (env_MAC env) = Some (hmacSHA256 enc key (mac_input Version (env_Seq env) (env_Payload env)))"

definition delivered :: "encodings \<Rightarrow> 8 word list \<Rightarrow> (8 word list \<Rightarrow> 'v option) \<Rightarrow> 8 word list \<Rightarrow> 64 word \<times> 'v \<Rightarrow> bool" where
  "delivered enc key u bs m \<longleftrightarrow> (\<exists>pre chunk rest frame env. bs = pre @ chunk @ rest \<and> framed chunk frame \<and>
     unmarshalEnvelope enc frame = Some env \<and> authentic enc key env \<and> env_Seq env = fst m \<and> u (env_Payload env) = Some (snd m))"

lemma delivered_append: "delivered enc key u bs m \<Longrightarrow> delivered enc key u (pre @ bs) m"
  unfolding delivered_def by (metis append.assoc)

lemma open_envelope_None:
  "open_envelope enc c env = None \<longleftrightarrow> c_recvSeq c < env_Seq env \<and> authentic enc (c_key c) env"
  by (auto simp: open_envelope_def ok_iff authentic_def mac_def hex_decode_encode)

lemma Codec_Read_Inl:
  assumes "Codec_Read enc u c = (Inl e, c')"
  shows "c_key c' = c_key c \<and> c_recvSeq c' = c_recvSeq c \<and> (\<exists>used. c_in c = used @ c_in c')"
  using assms by (auto simp: Codec_Read_def Let_def split: if_splits option.splits) (metis append_take_drop_id append.assoc)+

lemma Codec_Read_Inr:
  assumes "Codec_Read enc u c = (Inr m, c')"
  shows "c_key c' = c_key c" "c_recvSeq c < fst m" "c_recvSeq c' = fst m" "\<exists>used. c_in c = used @ c_in c'"
    "delivered enc (c_key c) u (c_in c) m"
proof -
  define size where "size = be_value (take 4 (c_in c))"
  define frame where "frame = take size (drop 4 (c_in c))"
  have long: "4 \<le> length (c_in c)" "size \<le> length (drop 4 (c_in c))"
    using assms by (auto simp: Codec_Read_def Let_def size_def split: if_splits)
  obtain env where env: "unmarshalEnvelope enc frame = Some env" "open_envelope enc c env = None" "u (env_Payload env) = Some (snd m)"
      "env_Seq env = fst m" "c' = c\<lparr>c_in := drop size (drop 4 (c_in c)), c_recvSeq := fst m\<rparr>"
    using assms by (auto simp: Codec_Read_def Let_def size_def frame_def split: if_splits option.splits)
  have split: "c_in c = (take 4 (c_in c) @ frame) @ c_in c'" using env(5)
    by (simp add: frame_def del: drop_drop)
  show "c_key c' = c_key c" "c_recvSeq c < fst m" "c_recvSeq c' = fst m" using env by (auto simp: open_envelope_None)
  show "\<exists>used. c_in c = used @ c_in c'" using split by blast
  have "framed (take 4 (c_in c) @ frame) frame" using long by (simp add: framed_def size_def frame_def)
  moreover have "authentic enc (c_key c) env" using env(2) by (simp add: open_envelope_None)
  moreover have "c_in c = [] @ (take 4 (c_in c) @ frame) @ c_in c'" using split by simp
  ultimately show "delivered enc (c_key c) u (c_in c) m" using env(1,3,4) unfolding delivered_def by blast
qed

fun reads :: "encodings \<Rightarrow> (8 word list \<Rightarrow> 'v option) \<Rightarrow> nat \<Rightarrow> Codec \<Rightarrow> (64 word \<times> 'v) list" where
  "reads enc u 0 c = []"
| "reads enc u (Suc n) c =
     (case Codec_Read enc u c of (Inl e, c1) \<Rightarrow> reads enc u n c1 | (Inr m, c1) \<Rightarrow> m # reads enc u n c1)"

lemma reads_increasing:
  "sorted_wrt (<) (c_recvSeq c # map fst (reads enc u n c)) \<and> (\<forall>m \<in> set (reads enc u n c). delivered enc (c_key c) u (c_in c) m)"
proof (induction n arbitrary: c)
  case (Suc n)
  obtain r c1 where r: "Codec_Read enc u c = (r, c1)" by (cases "Codec_Read enc u c")
  show ?case
  proof (cases r)
    case (Inl e)
    with Codec_Read_Inl [of enc u c e c1] r obtain used where "c_in c = used @ c_in c1" "c_key c1 = c_key c" "c_recvSeq c1 = c_recvSeq c" by auto
    with r Inl Suc.IH [of c1] delivered_append [of enc "c_key c" u "c_in c1"] show ?thesis by auto
  next
    case (Inr m)
    note read = Codec_Read_Inr [OF r [unfolded Inr]]
    then obtain used where "c_in c = used @ c_in c1" by auto
    with read r Inr Suc.IH [of c1] delivered_append [of enc "c_key c" u "c_in c1"] show ?thesis
      by (auto dest: order.strict_trans)
  qed
qed simp

text \<open>
  C32: A recorded, reordered or forged message is never accepted. Whatever bytes arrive on the connection, the
  messages a codec accepts carry strictly increasing sequence numbers above the last one, and each of them is the
  content of an actual frame among these bytes: an envelope of this protocol version with that sequence number, whose own
  hash field is the keyed hash, under the session key, of its version, sequence number and payload.
\<close>

theorem accepted_once_in_order:
  "sorted_wrt (<) (map fst (reads enc u n c)) \<and>
   list_all (\<lambda>m. c_recvSeq c < fst m \<and> delivered enc (c_key c) u (c_in c) m) (reads enc u n c)"
  using reads_increasing [of c enc u n] by (auto simp: list_all_iff)

section \<open>An exchange\<close>

definition frame_of :: "encodings \<Rightarrow> 8 word list \<Rightarrow> 64 word \<Rightarrow> 8 word list \<Rightarrow> 8 word list" where
  "frame_of enc key seq payload = marshalEnvelope enc (seal enc key seq payload)"

definition wire :: "encodings \<Rightarrow> 8 word list \<Rightarrow> 64 word \<Rightarrow> 8 word list \<Rightarrow> 8 word list" where
  "wire enc key seq payload = be_bytes 4 (length (frame_of enc key seq payload)) @ frame_of enc key seq payload"

text \<open>A frame of a legal size that decodes to what was sealed.\<close>

definition carries :: "encodings \<Rightarrow> 8 word list \<Rightarrow> 64 word \<Rightarrow> 8 word list \<Rightarrow> bool" where
  "carries enc key seq payload \<longleftrightarrow>
     frame_of enc key seq payload \<noteq> [] \<and> length (frame_of enc key seq payload) \<le> MaxFrameSize \<and>
     unmarshalEnvelope enc (frame_of enc key seq payload) = Some (seal enc key seq payload)"

lemma Codec_Write_wire:
  assumes "seq \<noteq> 0" "c_room c = None" "carries enc (c_key c) seq payload"
  shows "Codec_Write enc c seq payload = (None, c\<lparr>c_out := c_out c @ wire enc (c_key c) seq payload\<rparr>)"
  using assms by (simp add: Codec_Write_def conn_write_def wire_def carries_def frame_of_def Let_def)

lemma Codec_Read_wire:
  assumes "c_recvSeq c < seq" "c_in c = wire enc (c_key c) seq payload @ rest" "carries enc (c_key c) seq payload" "u payload = Some v"
  shows "Codec_Read enc u c = (Inr (seq, v), c\<lparr>c_in := rest, c_recvSeq := seq\<rparr>)"
proof -
  let ?f = "frame_of enc (c_key c) seq payload"
  have n: "be_value (be_bytes 4 (length ?f)) = length ?f"
    using assms(3) by (intro be_value_be_bytes) (simp add: carries_def MaxFrameSize_def)
  have ok: "open_envelope enc c (seal enc (c_key c) seq payload) = None"
    using assms(1) by (auto simp: open_envelope_def ok_iff seal_def mac_def hex_decode_encode)
  from assms n ok show ?thesis
    by (auto simp: Codec_Read_def wire_def carries_def Let_def seal_def)
qed

text \<open>Both ends of a connection after any number of complete exchanges.\<close>

definition in_step :: "Client \<Rightarrow> Codec \<Rightarrow> bool" where
  "in_step cl s \<longleftrightarrow> c_key s = c_key (cl_codec cl) \<and> c_recvSeq (cl_codec cl) = cl_seq cl \<and> c_recvSeq s = cl_seq cl \<and>
     c_room (cl_codec cl) = None \<and> c_room s = None"

lemma word_less_succ: "(n :: 64 word) + 1 \<noteq> 0 \<Longrightarrow> n < n + 1"
  using unatSuc [of n] by (simp add: word_less_nat_alt add.commute)

text \<open>
  C33: A request reaches the guest's handler once and its answer reaches the caller. When both ends are in step,
  the guest reads what the client writes, runs the handler on exactly that request and writes an answer, and the
  client, reading that answer, returns it; both ends are in step again for the next exchange. What is assumed of
  JSON is that the two messages of this exchange survive encoding and fit into a frame.
\<close>

theorem exchange_delivers:
  assumes "in_step cl s" "cl_seq cl + 1 = seq" "seq \<noteq> 0" "key = c_key s"
    and "carries enc key seq (marshalRequest enc request)" "unmarshalRequest enc (marshalRequest enc request) = Some request"
    and "validateRequest enc request = None" "handler request w = (response, w')"
    and "carries enc key seq (marshalResponse enc response)" "unmarshalResponse enc (marshalResponse enc response) = Some response"
    and "rs_Error response = []"
    and "c_in s = wire enc key seq (marshalRequest enc request) @ later"
    and "c_in (cl_codec cl) = wire enc key seq (marshalResponse enc response) @ answers"
  shows "\<exists>cl' s'.
    ServeOne enc handler s w = (None, s', w') \<and> c_out s' = c_out s @ wire enc key seq (marshalResponse enc response) \<and>
    Client_Do enc cl False request = ((response, None), cl') \<and>
    c_out (cl_codec cl') = c_out (cl_codec cl) @ wire enc key seq (marshalRequest enc request) \<and> in_step cl' s'"
proof -
  let ?c = "cl_codec cl" and ?wq = "wire enc key seq (marshalRequest enc request)" and ?wr = "wire enc key seq (marshalResponse enc response)"
  have "cl_seq cl < seq" using assms(2,3) word_less_succ by auto
  with assms(1) have lt: "c_recvSeq s < seq" "c_recvSeq ?c < seq" by (simp_all add: in_step_def)
  have key: "c_key ?c = key" "c_key s = key" "c_room ?c = None" "c_room s = None" using assms(1,4) by (simp_all add: in_step_def)
  have read: "Codec_Read enc (unmarshalRequest enc) s = (Inr (seq, request), s\<lparr>c_in := later, c_recvSeq := seq\<rparr>)"
    using Codec_Read_wire [of s seq enc "marshalRequest enc request" later] assms(5,6,12) lt(1) key by simp
  have serve: "ServeOne enc handler s w = (None, s\<lparr>c_in := later, c_recvSeq := seq, c_out := c_out s @ ?wr\<rparr>, w')"
    using Codec_Write_wire [of seq "s\<lparr>c_in := later, c_recvSeq := seq\<rparr>"] assms(3,7,8,9) key
    by (simp add: ServeOne_def read)
  have sent: "Codec_Write enc ?c seq (marshalRequest enc request) = (None, ?c\<lparr>c_out := c_out ?c @ ?wq\<rparr>)"
    using Codec_Write_wire [of seq ?c enc] assms(3,5) key by simp
  have "Codec_Read enc (unmarshalResponse enc) (?c\<lparr>c_out := c_out ?c @ ?wq\<rparr>) =
      (Inr (seq, response), ?c\<lparr>c_out := c_out ?c @ ?wq, c_in := answers, c_recvSeq := seq\<rparr>)"
    using Codec_Read_wire [of "?c\<lparr>c_out := c_out ?c @ ?wq\<rparr>" seq enc "marshalResponse enc response" answers] assms(9,10,13) lt(2) key by simp
  with sent assms(2,11) have "Client_Do enc cl False request =
      ((response, None), \<lparr>cl_codec = ?c\<lparr>c_out := c_out ?c @ ?wq, c_in := answers, c_recvSeq := seq\<rparr>, cl_seq = seq\<rparr>)"
    by (simp add: Client_Do_def)
  with serve key show ?thesis by (simp add: in_step_def)
qed

text \<open>
  A reflected request is taken for a successful answer. The keyed hash covers neither the direction nor the
  type of a message, both ends use one key, and decoding an answer ignores fields it does not know. So somebody on
  the connection who sends the client's own frame back, without knowing the key, makes the call return an
  empty response and no error: an exec appears to have succeeded with exit code 0.
\<close>

theorem reflected_request_accepted:
  assumes "cl_seq cl + 1 = seq" "seq \<noteq> 0" "c_recvSeq (cl_codec cl) = cl_seq cl" "c_room (cl_codec cl) = None"
    and "carries enc (c_key (cl_codec cl)) seq (marshalRequest enc request)"
    and "unmarshalResponse enc (marshalRequest enc request) = Some no_response"
    and "c_in (cl_codec cl) = wire enc (c_key (cl_codec cl)) seq (marshalRequest enc request)"
  shows "fst (Client_Do enc cl False request) = (no_response, None)"
proof -
  let ?c = "cl_codec cl" and ?w = "wire enc (c_key (cl_codec cl)) seq (marshalRequest enc request)"
  have "c_recvSeq ?c < seq" using assms(1-3) word_less_succ by auto
  then have "Codec_Read enc (unmarshalResponse enc) (?c\<lparr>c_out := c_out ?c @ ?w\<rparr>) =
      (Inr (seq, no_response), ?c\<lparr>c_out := c_out ?c @ ?w, c_in := [], c_recvSeq := seq\<rparr>)"
    using Codec_Read_wire [of "?c\<lparr>c_out := c_out ?c @ ?w\<rparr>" seq enc "marshalRequest enc request" "[]"] assms(5-7) by simp
  with Codec_Write_wire [of seq ?c enc] assms show ?thesis by (simp add: Client_Do_def no_response_def)
qed

section \<open>A failed exchange\<close>

lemma closed_agent_inert:
  "a_closed a \<Longrightarrow> \<exists>e. Agent_do enc a cx request = ((no_response, Some e), a)"
  by (simp add: Agent_do_def)

lemma transport_failure_closes:
  "Agent_do enc a cx request = ((r, Some (ReconnectRequired e)), a') \<Longrightarrow> a_closed a'"
  by (auto simp: Agent_do_def invalidate_def Let_def split: if_splits prod.splits option.splits transport_error.splits)

lemma beat_failed: "beat t (m, s) True = ((m + 1, t \<le> m + 1), if (t \<le> m + 1) = s then [] else [(t \<le> m + 1, m + 1)])"
  by (simp add: beat_def Let_def)

lemma closed_heartbeat:
  "a_closed a \<Longrightarrow> runHeartbeat enc t (m, t \<le> m) a cxs = (if t \<le> m \<or> m + length cxs < t then [] else [(True, t)], a)"
proof (induction cxs arbitrary: m)
  case (Cons cx cxs)
  obtain e where "Agent_do enc a cx (op_request ''state'') = ((no_response, Some e), a)" using closed_agent_inert [OF Cons.prems] by metis
  then have "State enc a cx = ((rs_State no_response, Some e), a)" by (simp add: State_def)
  with Cons.IH [of "m + 1"] Cons.prems show ?case by (auto simp: beat_failed)
qed auto

text \<open>
  One slow answer is final. If a single probe of a heartbeat fails in the transport, for example because its
  deadline passes, the agent is closed, every later probe fails without being sent, and as soon as the threshold of
  misses is reached the guest is reported stuck, once and without any later recovery, however it answers.
\<close>

theorem one_missed_probe_is_final:
  assumes "State enc a cx = ((st, Some (ReconnectRequired e)), a1)" "0 < threshold" "0 < interval" "nat threshold \<le> length cxs + 1"
  shows "fst (RunHeartbeat enc interval threshold a (cx # cxs)) = [(True, nat threshold)]"
proof -
  have "a_closed a1" using assms(1) transport_failure_closes [of enc a cx "op_request ''state''"]
    by (auto simp: State_def split: prod.splits)
  from closed_heartbeat [OF this, of enc "nat threshold" 1 cxs] assms show ?thesis
    by (auto simp: RunHeartbeat_def beat_failed)
qed

section \<open>Examples\<close>

text \<open>Encodings that know one request and one answer, and a keyed hash with a constant value.\<close>

definition example_answer :: Response where
  "example_answer = no_response\<lparr>rs_State := ''running''\<rparr>"

definition example_enc :: encodings where
  "example_enc =
     \<lparr>marshalRequest = (\<lambda>r. [1]),
      unmarshalRequest = (\<lambda>b. if b = [1] then Some (op_request ''state'') else None),
      marshalResponse = (\<lambda>r. [2]),
      unmarshalResponse = (\<lambda>b. if b = [2] then Some example_answer else if b = [1] then Some no_response else None),
      marshalEnvelope = (\<lambda>env. be_bytes 8 (unat (env_Seq env)) @ env_Payload env),
      unmarshalEnvelope = (\<lambda>f. Some \<lparr>env_Version = 1, env_Seq = of_nat (be_value (take 8 f)), env_Payload = drop 8 f, env_MAC = hex_encode [7]\<rparr>),
      strconvQuote = (\<lambda>t. t), hmacSHA256 = (\<lambda>k m. [7])\<rparr>"

definition example_key :: "8 word list" where "example_key = replicate 32 5"

definition example_codec :: "8 word list \<Rightarrow> Codec" where
  "example_codec incoming = \<lparr>c_in = incoming, c_out = [], c_room = None, c_key = example_key, c_recvSeq = 0\<rparr>"

abbreviation example_request_wire :: "8 word list" where
  "example_request_wire \<equiv> wire example_enc example_key 1 (marshalRequest example_enc (op_request ''state''))"

abbreviation example_answer_wire :: "8 word list" where
  "example_answer_wire \<equiv> wire example_enc example_key 1 (marshalResponse example_enc example_answer)"

lemma example_carries:
  "carries example_enc example_key 1 (marshalRequest example_enc r)" "carries example_enc example_key 1 (marshalResponse example_enc a)"
  by (simp_all add: carries_def frame_of_def seal_def example_enc_def Version_def MaxFrameSize_def mac_def be_value_be_bytes)

theorem exchange_delivers_witness:
  "\<exists>cl' s'.
    ServeOne example_enc (\<lambda>r n. (example_answer, n + 1)) (example_codec example_request_wire) (0::nat) = (None, s', 1) \<and>
    Client_Do example_enc (NewClient (example_codec example_answer_wire)) False (op_request ''state'') = ((example_answer, None), cl') \<and>
    in_step cl' s'"
proof -
  let ?cl = "NewClient (example_codec example_answer_wire)" and ?s = "example_codec example_request_wire"
  have "in_step ?cl ?s" "cl_seq ?cl + 1 = 1" "(1::64 word) \<noteq> 0" "example_key = c_key ?s"
    "c_in ?s = example_request_wire @ []" "c_in (cl_codec ?cl) = example_answer_wire @ []"
    by (simp_all add: in_step_def NewClient_def example_codec_def)
  moreover have "unmarshalRequest example_enc (marshalRequest example_enc (op_request ''state'')) = Some (op_request ''state'')"
    "unmarshalResponse example_enc (marshalResponse example_enc example_answer) = Some example_answer"
    by (simp_all add: example_enc_def)
  moreover have "validateRequest example_enc (op_request ''state'') = None" "rs_Error example_answer = []"
    by (simp_all add: validateRequest_def op_request_def example_answer_def no_response_def)
  ultimately show ?thesis
    using exchange_delivers [of ?cl ?s 1 example_key example_enc "op_request ''state''" "\<lambda>r n. (example_answer, n + 1)" "0::nat"
        example_answer 1 "[]" "[]"] example_carries by fastforce
qed

theorem reflected_request_accepted_witness:
  "fst (Client_Do example_enc (NewClient (example_codec example_request_wire)) False (op_request ''state'')) = (no_response, None)"
proof (rule reflected_request_accepted [of _ 1])
  show "unmarshalResponse example_enc (marshalRequest example_enc (op_request ''state'')) = Some no_response"
    by (simp add: example_enc_def)
qed (simp_all add: NewClient_def example_codec_def example_carries)

definition silent_agent :: Agent where
  "silent_agent = \<lparr>a_client = NewClient (example_codec []), a_closed = False, a_failure = None\<rparr>"

definition quiet :: ctx where
  "quiet = \<lparr>cx_gate = False, cx_err = False, cx_deadlineFails = False, cx_doErr = False, cx_fired = False\<rparr>"

theorem one_missed_probe_is_final_witness:
  "fst (RunHeartbeat example_enc 5 3 silent_agent [quiet, quiet, quiet, quiet]) = [(True, 3)]"
proof -
  have "\<exists>st a1. State example_enc silent_agent quiet = ((st, Some (ReconnectRequired ReadHeader)), a1)"
    using Codec_Write_wire [of 1 "example_codec []" example_enc] example_carries
    by (simp add: State_def Agent_do_def silent_agent_def quiet_def NewClient_def Client_Do_def example_codec_def Codec_Read_def)
  then obtain st a1 where "State example_enc silent_agent quiet = ((st, Some (ReconnectRequired ReadHeader)), a1)" by auto
  from one_missed_probe_is_final [OF this, of 3 5 "[quiet, quiet, quiet]"] show ?thesis by simp
qed

end
