(* ===== verification/Volume_Inventory.thy ===== *)
theory Volume_Inventory
  imports Partition_Table Pipeline_Types "HOL-Library.Monad_Syntax"
begin

text \<open>
  What the file system readers of \<^verbatim>\<open>internal/vmdisk\<close> share: the inventory they build (\<^verbatim>\<open>ext.go\<close>), reading from
  a volume within a budget of bytes, and the walk over a tree of directories. A walk is a loop over the entries
  of one directory that may call itself for a subdirectory; the body of the loop and the opening of a directory
  are parameters, and the locale \<^verbatim>\<open>tree_walk\<close> states what they owe so that a walk returns on every image.
\<close>

section \<open>Inventories\<close>

record InventoryFile =
  if_Path :: string
  if_Type :: string
  if_Mode :: "16 word"
  if_UID :: "32 word"
  if_GID :: "32 word"
  if_Size :: "64 word"
  if_ExtendedAttributes :: bool

record FilesystemInventory =
  fi_VolumeIndex :: nat
  fi_Filesystem :: string
  fi_Files :: "InventoryFile list"
  fi_FilesLimit :: nat
  fi_LogicalBytesRead :: "64 word"
  fi_LogicalBytesLimit :: "64 word"
  fi_Truncated :: bool
  fi_UnsupportedFeatures :: "string list"

definition maxInventoryFiles :: nat where "maxInventoryFiles = 10000"
definition maxInventoryLogicalBytes :: "64 word" where "maxInventoryLogicalBytes = 268435456"

text \<open>The part of a reader that changes during a walk: bytes read so far, directories entered, files listed.\<close>

record walk_state =
  ws_bytesRead :: "64 word"
  ws_visited :: "32 word list"
  ws_Files :: "InventoryFile list"
  ws_Truncated :: bool

section \<open>Names and paths\<close>

definition go_string :: "byte list \<Rightarrow> string" where
  "go_string bs = map (\<lambda>b. char_of (unat b)) bs"

definition path_Join :: "string list \<Rightarrow> string" where
  "path_Join xs = (case filter (\<lambda>x. x \<noteq> []) xs of [] \<Rightarrow> [] | ys \<Rightarrow> path_Clean (join_with ''/'' ys))"

definition inventory_dir :: "string \<Rightarrow> bool" where
  "inventory_dir dir \<longleftrightarrow> dir = ''/'' \<or> cleanAbsolutePath dir"

lemma join_with_snoc: "xs \<noteq> [] \<Longrightarrow> join_with sep (xs @ [x]) = join_with sep xs @ sep @ x"
  by (induction sep xs rule: join_with.induct) auto

lemma path_Join_below:
  assumes "inventory_dir dir" "proper_element name"
  shows "path_Join [dir, name] = (if dir = ''/'' then dir @ name else dir @ ''/'' @ name)" "cleanAbsolutePath (path_Join [dir, name])"
proof -
  have ne: "name \<noteq> []" "dir \<noteq> []" using assms by (auto simp: proper_element_def inventory_dir_def cleanAbsolutePath_def)
  have "path_Join [dir, name] = (if dir = ''/'' then dir @ name else dir @ ''/'' @ name) \<and> cleanAbsolutePath (path_Join [dir, name])"
  proof (cases "dir = ''/''")
    case True
    have s: "split_slash name = [name]" using split_join [of "[name]"] assms(2) by (simp add: proper_element_def)
    have c: "cleanAbsolutePath (''/'' @ name)" using assms(2) by (auto simp: cleanAbsolutePath_elements intro!: exI [of _ "[name]"])
    from True ne s assms(2) have "path_Join [dir, name] = ''/'' @ name"
      by (simp add: path_Join_def path_Clean_def clean_step_def proper_element_def)
    with True c show ?thesis by simp
  next
    case False
    then obtain cs where cs: "cs \<noteq> []" "list_all proper_element cs" "dir = CHR ''/'' # join_with ''/'' cs"
      using assms(1) by (auto simp: inventory_dir_def cleanAbsolutePath_elements)
    have "cleanAbsolutePath (dir @ ''/'' @ name)"
      using cs assms(2) join_with_snoc [of cs "''/''" name] by (auto simp: cleanAbsolutePath_elements intro!: exI [of _ "cs @ [name]"])
    then have "path_Clean (dir @ ''/'' @ name) = dir @ ''/'' @ name" and c: "cleanAbsolutePath (dir @ ''/'' @ name)"
      by (auto simp: cleanAbsolutePath_def)
    with False ne show ?thesis by (simp add: path_Join_def)
  qed
  then show "path_Join [dir, name] = (if dir = ''/'' then dir @ name else dir @ ''/'' @ name)" "cleanAbsolutePath (path_Join [dir, name])"
    by blast+
qed

section \<open>The walk\<close>

text \<open>
  One round of the loop over a directory ends the loop, goes on with what is left of the directory, or goes on after
  entering a subdirectory.
\<close>

datatype ('d, 'c, 's) round =
    Stop "disk_error + 's"
  | Continue 'd 's
  | Descend 'c string 'd 's

partial_function (option) walk ::
  "('d \<Rightarrow> string \<Rightarrow> 's \<Rightarrow> ('d, 'c, 's) round) \<Rightarrow> ('c \<Rightarrow> 's \<Rightarrow> disk_error + 'd \<times> 's) \<Rightarrow> 'd \<Rightarrow> string \<Rightarrow> 's \<Rightarrow> (disk_error + 's) option" where
  "walk body enter d dir s =
     (case body d dir s of
        Stop r \<Rightarrow> Some r
      | Continue d1 s1 \<Rightarrow> walk body enter d1 dir s1
      | Descend c sub d1 s1 \<Rightarrow>
          (case enter c s1 of
             Inl e \<Rightarrow> Some (Inl e)
           | Inr (ds, s2) \<Rightarrow>
               Option.bind (walk body enter ds sub s2) (\<lambda>r. case r of Inl e \<Rightarrow> Some (Inl e) | Inr s3 \<Rightarrow> walk body enter d1 dir s3)))"

lemma walk_stop: "body d dir s = Stop r \<Longrightarrow> walk body enter d dir s = Some r"
  by (subst walk.simps) simp

lemma walk_continue: "body d dir s = Continue d1 s1 \<Longrightarrow> walk body enter d dir s = walk body enter d1 dir s1"
  by (subst walk.simps) simp

lemma walk_descend: "body d dir s = Descend c sub d1 s1 \<Longrightarrow> enter c s1 = Inr (ds, s2) \<Longrightarrow> walk body enter ds sub s2 = Some (Inr s3) \<Longrightarrow>
    walk body enter d dir s = walk body enter d1 dir s3"
  by (subst walk.simps) simp

text \<open>
  The contract of a walk. Every round that goes on leaves less of the directory, entering a directory uses up one of
  finitely many, and the invariant of the state is kept for directories with a well-formed path.
\<close>

definition round_ok :: "('s \<Rightarrow> bool) \<Rightarrow> ('s \<Rightarrow> nat) \<Rightarrow> ('d \<Rightarrow> nat) \<Rightarrow> 'd \<Rightarrow> 's \<Rightarrow> ('d, 'c, 's) round \<Rightarrow> bool" where
  "round_ok ok unvisited weight d s r =
     (case r of
        Stop res \<Rightarrow> (case res of Inl e \<Rightarrow> True | Inr s1 \<Rightarrow> ok s1 \<and> unvisited s1 \<le> unvisited s)
      | Continue d1 s1 \<Rightarrow> ok s1 \<and> unvisited s1 \<le> unvisited s \<and> weight d1 < weight d
      | Descend c sub d1 s1 \<Rightarrow> ok s1 \<and> unvisited s1 \<le> unvisited s \<and> weight d1 < weight d \<and> inventory_dir sub)"

lemma round_ok_simps [simp]:
  "round_ok ok unvisited weight d s (Stop (Inl e))"
  "round_ok ok unvisited weight d s (Stop (Inr s1)) \<longleftrightarrow> ok s1 \<and> unvisited s1 \<le> unvisited s"
  "round_ok ok unvisited weight d s (Continue d1 s1) \<longleftrightarrow> ok s1 \<and> unvisited s1 \<le> unvisited s \<and> weight d1 < weight d"
  "round_ok ok unvisited weight d s (Descend c sub d1 s1) \<longleftrightarrow>
     ok s1 \<and> unvisited s1 \<le> unvisited s \<and> weight d1 < weight d \<and> inventory_dir sub"
  by (simp_all add: round_ok_def)

locale tree_walk =
  fixes body :: "'d \<Rightarrow> string \<Rightarrow> 's \<Rightarrow> ('d, 'c, 's) round"
    and enter :: "'c \<Rightarrow> 's \<Rightarrow> disk_error + 'd \<times> 's"
    and weight :: "'d \<Rightarrow> nat"
    and unvisited :: "'s \<Rightarrow> nat"
    and ok :: "'s \<Rightarrow> bool"
  assumes body: "ok s \<Longrightarrow> inventory_dir dir \<Longrightarrow> round_ok ok unvisited weight d s (body d dir s)"
    and enter: "ok s \<Longrightarrow> enter c s = Inr (ds, s1) \<Longrightarrow> ok s1 \<and> unvisited s1 < unvisited s"
begin

theorem walk_returns:
  "ok s \<Longrightarrow> inventory_dir dir \<Longrightarrow>
   \<exists>r. walk body enter d dir s = Some r \<and> (\<forall>s1. r = Inr s1 \<longrightarrow> ok s1 \<and> unvisited s1 \<le> unvisited s)"
proof (induction "(unvisited s, weight d)" arbitrary: s d dir rule: wf_induct_rule [OF wf_lex_prod [OF wf_less_than wf_less_than]])
  case 1
  note pre = 1(2,3)
  have IH: "\<exists>r. walk body enter d1 dir1 s1 = Some r \<and> (\<forall>s2. r = Inr s2 \<longrightarrow> ok s2 \<and> unvisited s2 \<le> unvisited s1)"
    if "unvisited s1 < unvisited s \<or> unvisited s1 \<le> unvisited s \<and> weight d1 < weight d" "ok s1" "inventory_dir dir1" for s1 d1 dir1
    using that 1(1) [of s1 d1 dir1] by (auto simp: le_less)
  show ?case
  proof (cases "body d dir s")
    case (Stop r)
    with body [OF pre, of d] show ?thesis by (subst walk.simps) auto
  next
    case (Continue d1 s1)
    with body [OF pre, of d] have c: "ok s1" "unvisited s1 \<le> unvisited s" "weight d1 < weight d" by auto
    with IH [of s1 d1 dir] pre obtain r where "walk body enter d1 dir s1 = Some r"
      "\<forall>s2. r = Inr s2 \<longrightarrow> ok s2 \<and> unvisited s2 \<le> unvisited s1" by blast
    with c Continue show ?thesis by (subst walk.simps) (auto intro: order_trans)
  next
    case (Descend c sub d1 s1)
    with body [OF pre, of d] have d: "ok s1" "unvisited s1 \<le> unvisited s" "weight d1 < weight d" "inventory_dir sub" by auto
    show ?thesis
    proof (cases "enter c s1")
      case (Inl e)
      with Descend show ?thesis by (subst walk.simps) simp
    next
      case (Inr p)
      obtain ds s2 where p: "p = (ds, s2)" by (cases p)
      with enter [OF d(1)] Inr d(2) have e: "ok s2" "unvisited s2 < unvisited s" by force+
      with IH [of s2 ds sub] d obtain r where r: "walk body enter ds sub s2 = Some r"
        "\<forall>s3. r = Inr s3 \<longrightarrow> ok s3 \<and> unvisited s3 \<le> unvisited s2" by auto
      show ?thesis
      proof (cases r)
        case (Inl e)
        with Descend Inr p r show ?thesis by (subst walk.simps) simp
      next
        case (Inr s3)
        with r e have t: "ok s3" "unvisited s3 < unvisited s" by auto
        with IH [of s3 d1 dir] pre obtain q where "walk body enter d1 dir s3 = Some q"
          "\<forall>s4. q = Inr s4 \<longrightarrow> ok s4 \<and> unvisited s4 \<le> unvisited s3" by auto
        with Descend \<open>enter c s1 = Inr p\<close> p r Inr t show ?thesis by (subst walk.simps) (auto intro: order_trans less_imp_le)
      qed
    qed
  qed
qed

end

section \<open>Reading within a budget\<close>

text \<open>
  The bytes a volume holds as the readers see them: a position relative to the start of the volume, a length and the
  number of bytes read before give the data and the new number.
\<close>

type_synonym volume_reader = "64 word \<Rightarrow> 64 word \<Rightarrow> 64 word \<Rightarrow> disk_error + byte list \<times> 64 word"

text \<open>The contract of such a reader: it returns what was asked for, counts it, and never exceeds the budget.\<close>

locale budget_reader =
  fixes rd :: volume_reader
  assumes read_counts: "rd p n b = Inr (ds, b1) \<Longrightarrow> b \<le> maxInventoryLogicalBytes \<Longrightarrow>
    length ds = unat n \<and> b1 = b + n \<and> b1 \<le> maxInventoryLogicalBytes \<and> b \<le> b1"

lemma budget_add:
  fixes b n m :: "64 word"
  assumes "n \<le> m" "b \<le> m - n"
  shows "b + n \<le> m" "b \<le> b + n"
proof -
  have "unat b + unat n \<le> unat m" using assms by (simp add: word_le_nat_alt unat_sub)
  moreover from this have "unat (b + n) = unat b + unat n" using unsigned_less [of m, where 'a = nat] by (intro unat_add_lem [THEN iffD1]) simp
  ultimately show "b + n \<le> m" "b \<le> b + n" by (simp_all add: word_le_nat_alt)
qed

lemma ReadLogical_length: "ReadLogical d p n = Inr bs \<Longrightarrow> 0 \<le> n \<Longrightarrow> length bs = nat n"
proof -
  have loop: "read_loop f block lookup off n = Inr bs \<Longrightarrow> 0 \<le> n \<Longrightarrow> length bs = nat n" for f block lookup off n bs
  proof (induction f block lookup off n arbitrary: bs rule: read_loop.induct)
    case (1 f block lookup off n)
    show ?case
    proof (cases "n \<le> 0")
      case False
      let ?in = "off smod block" let ?chunk = "min (block - ?in) n"
      from 1 False obtain loc ds rest where *: "block \<noteq> 0" "lookup off = Inr loc" "read_block f loc ?in ?chunk = Inr ds"
        "read_loop f block lookup (i64 (off + ?chunk)) (n - ?chunk) = Inr rest" "bs = ds @ rest"
        by (subst (asm) (2) read_loop.simps) (auto simp: Let_def bindE_Inr split: if_splits)
      from read_block_nonneg [OF *(3)] have "0 \<le> ?chunk" "length ds = nat ?chunk" by auto
      moreover have "length rest = nat (n - ?chunk)" using 1(1) * False by auto
      ultimately show ?thesis using * by auto
    qed (use 1 in \<open>auto simp: read_loop.simps\<close>)
  qed
  show "ReadLogical d p n = Inr bs \<Longrightarrow> 0 \<le> n \<Longrightarrow> length bs = nat n"
    by (cases d) (auto simp: mapped_read_def vhd_ReadLogical_def vhdx_ReadLogical_def qcow2_ReadLogical_def vmdk_ReadLogical_def
        readAtBounded_def dest: loop split: if_splits)
qed

text \<open>Two disks that hold the same data inside a volume.\<close>

definition same_inside :: "Volume \<Rightarrow> logicalDisk \<Rightarrow> logicalDisk \<Rightarrow> bool" where
  "same_inside v ld ld' \<longleftrightarrow> (\<forall>p n. uint (vol_StartBytes v) \<le> p \<longrightarrow> 0 \<le> n \<longrightarrow>
     p + n \<le> uint (vol_StartBytes v) + uint (vol_SizeBytes v) \<longrightarrow> ReadLogical ld p n = ReadLogical ld' p n)"

lemma same_inside_read:
  assumes "same_inside v ld ld'" "\<not> (vol_SizeBytes v < relative \<or> vol_SizeBytes v - relative < len \<or> vol_StartBytes v + relative < vol_StartBytes v)"
  shows "ReadLogical ld (uint (vol_StartBytes v + relative)) (uint len) = ReadLogical ld' (uint (vol_StartBytes v + relative)) (uint len)"
proof -
  have "uint (vol_StartBytes v + relative) = uint (vol_StartBytes v) + uint relative" "uint len \<le> uint (vol_SizeBytes v) - uint relative"
    using assms(2) unsigned_less [of relative, where 'a = int]
    by (auto simp: not_less word_le_def uint_sub_lem [symmetric] uint_plus_if' uint_sub_if' split: if_splits)
  then show ?thesis using assms(1) by (auto simp: same_inside_def)
qed

section \<open>Numbers of a volume\<close>

abbreviation le16 :: "byte list \<Rightarrow> 16 word" where "le16 \<equiv> be16LE"
abbreviation uint64 :: "'a :: len word \<Rightarrow> 64 word" where "uint64 \<equiv> ucast"

lemma unat_widen:
  "unat (uint64 (w :: 32 word)) = unat w" "unat (uint64 (x :: 16 word)) = unat x" "unat (ucast x :: 32 word) = unat x"
  using unsigned_less [of w, where 'a = nat] unsigned_less [of x, where 'a = nat]
  by (simp_all add: unsigned_ucast_eq take_bit_nat_eq_self)

lemma unat_mult_small: "unat a * unat b < 2 ^ 64 \<Longrightarrow> unat (a * b :: 64 word) = unat a * unat b"
  by (simp add: unat_word_ariths)

lemma unat_add_small: "unat a + unat b < 2 ^ 64 \<Longrightarrow> unat (a + b :: 64 word) = unat a + unat b"
  by (simp add: unat_word_ariths)

lemma product_less: "a \<le> m \<Longrightarrow> b \<le> n \<Longrightarrow> m * n < k \<Longrightarrow> a * b < (k :: nat)"
  by (meson le_less_trans mult_le_mono)

lemma times_step: "m < n \<Longrightarrow> m * k + k \<le> n * (k :: nat)"
  using mult_le_mono1 [of "Suc m" n k] by simp

lemma scaled_step: "a + s \<le> c \<Longrightarrow> (x + a) * b + s * b \<le> (x + c) * (b :: nat)"
  using mult_le_mono1 [of "x + (a + s)" "x + c" b] by (simp add: add_mult_distrib)

section \<open>Keeping within the limits\<close>

text \<open>
  The invariant of a walk: the budget of bytes and of files is kept and every path is absolute and clean. Directories that
  were not entered yet are counted, so entering one makes progress.
\<close>

lemma unvisited_less: "c \<notin> set vs \<Longrightarrow> card (- set (c # vs)) < card (- set (vs :: 'a :: finite list))"
  by (rule psubset_card_mono) auto

definition walk_ok :: "walk_state \<Rightarrow> bool" where
  "walk_ok s \<longleftrightarrow> ws_bytesRead s \<le> maxInventoryLogicalBytes \<and> length (ws_Files s) \<le> maxInventoryFiles \<and>
     list_all (\<lambda>f. cleanAbsolutePath (if_Path f)) (ws_Files s)"

definition unvisited :: "walk_state \<Rightarrow> nat" where
  "unvisited s = card (- set (ws_visited s))"

text \<open>Listing a file with a proper name keeps the invariant.\<close>

lemma inventory_dir_Join: "inventory_dir dir \<Longrightarrow> proper_element name \<Longrightarrow> inventory_dir (path_Join [dir, name])"
  using path_Join_below(2) by (auto simp: inventory_dir_def [of "path_Join _"])

lemma list_file_ok:
  assumes "walk_ok s" "inventory_dir dir" "proper_element name" "if_Path fl = path_Join [dir, name]" "length (ws_Files s) < maxInventoryFiles"
  shows "walk_ok (s\<lparr>ws_Files := ws_Files s @ [fl]\<rparr>)" "unvisited (s\<lparr>ws_Files := ws_Files s @ [fl]\<rparr>) = unvisited s"
  using assms path_Join_below(2) by (auto simp: walk_ok_def unvisited_def)

lemma truncated_ok: "walk_ok s \<Longrightarrow> walk_ok (s\<lparr>ws_Truncated := True\<rparr>)" "unvisited (s\<lparr>ws_Truncated := True\<rparr>) = unvisited s"
  by (simp_all add: walk_ok_def unvisited_def)

lemma bytes_ok: "walk_ok s \<Longrightarrow> b \<le> maxInventoryLogicalBytes \<Longrightarrow> walk_ok (s\<lparr>ws_bytesRead := b\<rparr>)"
  "unvisited (s\<lparr>ws_bytesRead := b\<rparr>) = unvisited s"
  by (simp_all add: walk_ok_def unvisited_def)

lemma visit_ok: "walk_ok s \<Longrightarrow> c \<notin> set (ws_visited s) \<Longrightarrow>
    walk_ok (s\<lparr>ws_visited := c # ws_visited s\<rparr>) \<and> unvisited (s\<lparr>ws_visited := c # ws_visited s\<rparr>) < unvisited s"
  using unvisited_less [of c "ws_visited s"] by (simp add: walk_ok_def unvisited_def)

section \<open>Images for examples\<close>

text \<open>A raw image with the given bytes and length, all of it readable.\<close>

definition image_of :: "(int \<Rightarrow> byte) \<Rightarrow> int \<Rightarrow> disk_file" where
  "image_of bytes len = \<lparr>df_size = len, df_at = bytes, df_bad = (\<lambda>p. False), df_statFails = False\<rparr>"

lemma image_of_open: "openLogicalDisk (Inr (image_of bytes len)) FormatRAW = Inr (rawLogicalDisk (image_of bytes len))"
  by (simp add: openLogicalDisk_def)

lemma image_of_read:
  "0 \<le> p \<Longrightarrow> 0 \<le> n \<Longrightarrow> n \<le> maxMappedRegionSize \<Longrightarrow> p + n < 2 ^ 63 \<Longrightarrow> ReadLogical (rawLogicalDisk (image_of bytes len)) p n = Inr (file_bytes (image_of bytes len) p n)"
  by (simp add: readAtBounded_def unreadable_def list_ex_iff image_of_def)

lemma image_of_byte: "0 \<le> p \<Longrightarrow> p < len \<Longrightarrow> file_byte (image_of bytes len) p = bytes p"
  by (simp add: file_byte_def image_of_def)

lemma image_of_same_inside:
  assumes "uint (vol_StartBytes v) + uint (vol_SizeBytes v) \<le> min len len'"
  shows "same_inside v (rawLogicalDisk (image_of bytes len)) (rawLogicalDisk (image_of bytes len'))"
  using assms by (auto simp: same_inside_def readAtBounded_def unreadable_def list_ex_iff file_bytes_def file_byte_def image_of_def)

lemma file_bytes_prefix: "int k \<le> n \<Longrightarrow> take k (file_bytes f p n) = file_bytes f p (int k)"
  using file_bytes_slice [of 0 k n f p] by (simp add: slice_of_def)

lemma file_bytes_drop: "int k \<le> n \<Longrightarrow> drop k (file_bytes f p n) = file_bytes f (p + int k) (n - int k)"
  by (rule nth_equalityI) (auto simp: nat_diff_distrib add.assoc)

end
