(* ===== verification/Fat_Reader.thy ===== *)
theory Fat_Reader
  imports Volume_Inventory Go_Text
begin

text \<open>
  The FAT reader of \<^verbatim>\<open>internal/vmdisk/fat.go\<close>: the boot sector, cluster chains, long and short names, and the walk
  that lists the files of a volume without mounting it. The reader is the record of its geometry; the bytes it has
  read, the directories it has entered and the inventory are the state of the walk. Reading from the volume is
  passed as a function, so what an operation depends on is visible in its type. Errors carry the constant part
  of their message.
\<close>

record fatReader =
  fr_bytesPerSector :: "64 word"
  fr_sectorsPerCluster :: "64 word"
  fr_reservedSectors :: "64 word"
  fr_fatStart :: "64 word"
  fr_fatSectors :: "64 word"
  fr_rootEntryCount :: "32 word"
  fr_rootDirStart :: "64 word"
  fr_rootDirSectors :: "64 word"
  fr_firstDataSector :: "64 word"
  fr_clusterCount :: "32 word"
  fr_rootCluster :: "32 word"
  fr_fatBits :: nat

section \<open>Reading\<close>

definition fat_read :: "logicalDisk \<Rightarrow> Volume \<Rightarrow> volume_reader" where
  "fat_read ld v relative len bytesRead =
     bindE (guardE (vol_SizeBytes v < relative \<or> vol_SizeBytes v - relative < len \<or> maxMappedRegionSize < uint len \<or>
       maxInventoryLogicalBytes < len \<or> maxInventoryLogicalBytes - len < bytesRead)
       (CorruptFilesystem ''FAT read is outside volume or analysis budget'')) (\<lambda>_.
     let absolute = vol_StartBytes v + relative in
     bindE (guardE (absolute < vol_StartBytes v \<or> 2 ^ 63 \<le> uint absolute) (CorruptFilesystem ''FAT offset overflows'')) (\<lambda>_.
     bindE (ReadLogical ld (uint absolute) (uint len)) (\<lambda>data.
     Inr (data, bytesRead + len))))"

definition total_sectors :: "byte list \<Rightarrow> 64 word" where
  "total_sectors boot = (let t = le16 (slice_of boot 19 21) in if t = 0 then uint64 (le32 (slice_of boot 32 36)) else uint64 t)"

definition fat_sectors :: "byte list \<Rightarrow> 64 word" where
  "fat_sectors boot = (let t = le16 (slice_of boot 22 24) in if t = 0 then uint64 (le32 (slice_of boot 36 40)) else uint64 t)"

definition bad_bpb :: "64 word \<Rightarrow> 64 word \<Rightarrow> 64 word \<Rightarrow> 64 word \<Rightarrow> 64 word \<Rightarrow> 64 word \<Rightarrow> bool" where
  "bad_bpb bytesPerSector sectorsPerCluster reservedSectors fats totalSectors fatSectors \<longleftrightarrow>
     bytesPerSector < 512 \<or> 4096 < bytesPerSector \<or> bytesPerSector AND (bytesPerSector - 1) \<noteq> 0 \<or>
     sectorsPerCluster = 0 \<or> 128 < sectorsPerCluster \<or> sectorsPerCluster AND (sectorsPerCluster - 1) \<noteq> 0 \<or>
     reservedSectors = 0 \<or> fats = 0 \<or> 2 < fats \<or> totalSectors = 0 \<or> fatSectors = 0"

definition fat_bits :: "64 word \<Rightarrow> nat" where
  "fat_bits clusters = (if clusters < 4085 then 12 else if clusters < 65525 then 16 else 32)"

definition loadBootSector :: "volume_reader \<Rightarrow> Volume \<Rightarrow> disk_error + fatReader \<times> 64 word" where
  "loadBootSector rd v =
     bindE (rd 0 512 0) (\<lambda>(boot, bytesRead).
     bindE (guardE (boot ! 510 \<noteq> 0x55 \<or> boot ! 511 \<noteq> 0xaa) (CorruptFilesystem ''FAT boot signature missing'')) (\<lambda>_.
     let bytesPerSector = uint64 (le16 (slice_of boot 11 13));
         sectorsPerCluster = uint64 (boot ! 13);
         reservedSectors = uint64 (le16 (slice_of boot 14 16));
         fats = uint64 (boot ! 16);
         rootEntryCount = ucast (le16 (slice_of boot 17 19)) :: 32 word;
         totalSectors = total_sectors boot;
         fatSectors = fat_sectors boot in
     bindE (guardE (bad_bpb bytesPerSector sectorsPerCluster reservedSectors fats totalSectors fatSectors)
       (CorruptFilesystem ''inconsistent FAT BIOS parameter block'')) (\<lambda>_.
     let rootDirSectors = (uint64 rootEntryCount * 32 + bytesPerSector - 1) div bytesPerSector;
         firstDataSector = reservedSectors + fats * fatSectors + rootDirSectors in
     bindE (guardE (totalSectors \<le> firstDataSector \<or> vol_SizeBytes v div bytesPerSector < totalSectors)
       (CorruptFilesystem ''FAT geometry exceeds volume'')) (\<lambda>_.
     let clusters = (totalSectors - firstDataSector) div sectorsPerCluster in
     bindE (guardE (clusters = 0 \<or> 0xFFFFFFFD < clusters) (CorruptFilesystem ''FAT cluster count is invalid'')) (\<lambda>_.
     let clusterCount = ucast clusters :: 32 word;
         fatBits = fat_bits clusters;
         rootCluster = (if fatBits = 32 then le32 (slice_of boot 44 48) AND 0x0fffffff else 0) in
     bindE (guardE (fatBits = 32 \<and> (rootEntryCount \<noteq> 0 \<or> rootCluster < 2 \<or> clusterCount + 2 \<le> rootCluster))
       (CorruptFilesystem ''FAT32 root geometry is invalid'')) (\<lambda>_.
     bindE (guardE (fatSectors * bytesPerSector < (uint64 (clusterCount + 2) * of_nat fatBits + 7) div 8)
       (CorruptFilesystem ''FAT table is too short for cluster count'')) (\<lambda>_.
     Inr (\<lparr>fr_bytesPerSector = bytesPerSector, fr_sectorsPerCluster = sectorsPerCluster, fr_reservedSectors = reservedSectors,
        fr_fatStart = reservedSectors * bytesPerSector, fr_fatSectors = fatSectors, fr_rootEntryCount = rootEntryCount,
        fr_rootDirStart = (reservedSectors + fats * fatSectors) * bytesPerSector, fr_rootDirSectors = rootDirSectors,
        fr_firstDataSector = firstDataSector, fr_clusterCount = clusterCount, fr_rootCluster = rootCluster,
        fr_fatBits = fatBits\<rparr>, bytesRead))))))))"

definition clusterData :: "volume_reader \<Rightarrow> fatReader \<Rightarrow> 32 word \<Rightarrow> 64 word \<Rightarrow> disk_error + byte list \<times> 64 word" where
  "clusterData rd r cluster bytesRead =
     bindE (guardE (cluster < 2 \<or> fr_clusterCount r + 2 \<le> cluster) (CorruptFilesystem ''FAT cluster is outside data area'')) (\<lambda>_.
     let sector = fr_firstDataSector r + uint64 (cluster - 2) * fr_sectorsPerCluster r in
     rd (sector * fr_bytesPerSector r) (fr_sectorsPerCluster r * fr_bytesPerSector r) bytesRead)"

definition link_offset :: "nat \<Rightarrow> 32 word \<Rightarrow> 64 word" where
  "link_offset bits cluster =
     (if bits = 12 then uint64 cluster + uint64 cluster div 2 else if bits = 16 then uint64 cluster * 2 else uint64 cluster * 4)"

definition link_length :: "nat \<Rightarrow> 64 word" where
  "link_length bits = (if bits = 32 then 4 else 2)"

definition link_value :: "nat \<Rightarrow> 32 word \<Rightarrow> byte list \<Rightarrow> 32 word" where
  "link_value bits cluster raw =
     (if bits = 12 then (if cluster AND 1 = 0 then ucast (le16 raw) AND 0x0fff else drop_bit 4 (ucast (le16 raw)))
      else if bits = 16 then ucast (le16 raw)
      else le32 raw AND 0x0fffffff)"

definition end_of_chain :: "nat \<Rightarrow> 32 word" where
  "end_of_chain bits = (if bits = 12 then 0x0ff8 else if bits = 16 then 0xfff8 else 0x0ffffff8)"

definition bad_cluster :: "nat \<Rightarrow> 32 word" where
  "bad_cluster bits = (if bits = 12 then 0x0ff7 else if bits = 16 then 0xfff7 else 0x0ffffff7)"

text \<open>The next cluster, or \<^verbatim>\<open>None\<close> at the end of the chain.\<close>

definition nextCluster :: "volume_reader \<Rightarrow> fatReader \<Rightarrow> 32 word \<Rightarrow> 64 word \<Rightarrow> disk_error + 32 word option \<times> 64 word" where
  "nextCluster rd r cluster bytesRead =
     (let bits = fr_fatBits r in
      bindE (rd (fr_fatStart r + link_offset bits cluster) (link_length bits) bytesRead) (\<lambda>(raw, bytesRead).
      let value = link_value bits cluster raw in
      if end_of_chain bits \<le> value then Inr (None, bytesRead)
      else if value = bad_cluster bits \<or> value < 2 \<or> fr_clusterCount r + 2 \<le> value
        then Inl (CorruptFilesystem ''FAT chain references reserved/bad cluster'')
      else Inr (Some value, bytesRead)))"

function clusterChain ::
  "volume_reader \<Rightarrow> fatReader \<Rightarrow> 32 word list \<Rightarrow> 32 word \<Rightarrow> 64 word \<Rightarrow> disk_error + byte list \<times> 64 word" where
  "clusterChain rd r visited cluster bytesRead =
     (if cluster \<in> set visited then Inl (CorruptFilesystem ''FAT cluster chain cycle'')
      else
        bindE (clusterData rd r cluster bytesRead) (\<lambda>(data, b1).
        bindE (nextCluster rd r cluster b1) (\<lambda>(next, b2).
        case next of
          None \<Rightarrow> Inr (data, b2)
        | Some c \<Rightarrow> bindE (clusterChain rd r (cluster # visited) c b2) (\<lambda>(rest, b3). Inr (data @ rest, b3)))))"
  by pat_completeness auto

termination
  by (relation "measure (\<lambda>(rd, r, visited, cluster, b). card (- set visited))")
    (auto simp del: set_simps intro: unvisited_less)

declare clusterChain.simps [simp del]

section \<open>Names\<close>

definition fatShortNameChecksum :: "byte list \<Rightarrow> byte" where
  "fatShortNameChecksum name = foldl (\<lambda>sum value. push_bit 7 (sum AND 1) + drop_bit 1 sum + value) 0 name"

definition long_units :: "byte list \<Rightarrow> 16 word list" where
  "long_units entry = map (\<lambda>i. le16 (slice_of entry i (i + 2))) [1, 3, 5, 7, 9, 14, 16, 18, 20, 22, 24, 28, 30]"

fun place_units :: "byte \<Rightarrow> byte list list \<Rightarrow> 16 word list \<Rightarrow> bool list \<Rightarrow> disk_error + 16 word list" where
  "place_units checksum [] units seen = Inr units"
| "place_units checksum (entry # entries) units seen =
     (let sequence = unat (entry ! 0 AND 0x1f); index = (sequence - 1) * 13 in
      bindE (guardE (sequence < 1 \<or> length seen < sequence \<or> seen ! (sequence - 1) \<or> entry ! 13 \<noteq> checksum)
        (CorruptFilesystem ''invalid VFAT long-name sequence'')) (\<lambda>_.
      place_units checksum entries (take index units @ long_units entry @ drop (index + 13) units) (seen[sequence - 1 := True])))"

fun clean_units :: "bool \<Rightarrow> 16 word list \<Rightarrow> disk_error + 16 word list" where
  "clean_units terminated [] = Inr []"
| "clean_units terminated (unit # units) =
     (if unit = 0 \<or> unit = 0xffff then clean_units True units
      else if terminated then Inl (CorruptFilesystem ''invalid VFAT name padding'')
      else bindE (clean_units False units) (\<lambda>us. Inr (unit # us)))"

text \<open>\<^verbatim>\<open>utf16.Decode\<close> and the conversion of runes to a string.\<close>

fun utf16_Decode :: "nat list \<Rightarrow> nat list" where
  "utf16_Decode [] = []"
| "utf16_Decode [u] = [if 0xd800 \<le> u \<and> u < 0xe000 then 0xfffd else u]"
| "utf16_Decode (u # w # us) =
     (if u < 0xd800 \<or> 0xe000 \<le> u then u # utf16_Decode (w # us)
      else if u < 0xdc00 \<and> 0xdc00 \<le> w \<and> w < 0xe000 then ((u - 0xd800) * 1024 + (w - 0xdc00) + 0x10000) # utf16_Decode us
      else 0xfffd # utf16_Decode (w # us))"

definition encode_rune :: "nat \<Rightarrow> string" where
  "encode_rune n = map char_of
     (if n < 0x80 then [n]
      else if n < 0x800 then [0xC0 + n div 64, 0x80 + n mod 64]
      else if n < 0x10000 then [0xE0 + n div 4096, 0x80 + n div 64 mod 64, 0x80 + n mod 64]
      else [0xF0 + n div 262144, 0x80 + n div 4096 mod 64, 0x80 + n div 64 mod 64, 0x80 + n mod 64])"

definition fatEntryName :: "byte list \<Rightarrow> byte list list \<Rightarrow> disk_error + string" where
  "fatEntryName short longEntries =
     (if longEntries = [] then
        let base = (if short ! 0 = 0x05 then go_string (0xe5 # slice_of short 1 8) else TrimSpace (go_string (slice_of short 0 8)));
            ext = TrimSpace (go_string (slice_of short 8 11)) in
        Inr (if ext \<noteq> [] then base @ ''.'' @ ext else base)
      else
        let count = length longEntries in
        bindE (place_units (fatShortNameChecksum (take 11 short)) longEntries (replicate (count * 13) 0) (replicate count False)) (\<lambda>units.
        bindE (clean_units False units) (\<lambda>clean.
        Inr (concat (map encode_rune (utf16_Decode (map unat clean)))))))"

section \<open>Directories\<close>

definition unsafe_name :: "string \<Rightarrow> bool" where
  "unsafe_name name \<longleftrightarrow> name = [] \<or> list_ex (\<lambda>c. c = CHR ''/'' \<or> c = CHR 0x5C \<or> c = NUL) name"

definition entry_cluster :: "byte list \<Rightarrow> 32 word" where
  "entry_cluster entry = ucast (le16 (slice_of entry 26 28)) OR push_bit 16 (ucast (le16 (slice_of entry 20 22)))"

text \<open>Listing an entry with a safe name, and descending into a directory.\<close>

definition list_entry ::
  "fatReader \<Rightarrow> byte list \<Rightarrow> byte list \<Rightarrow> string \<Rightarrow> string \<Rightarrow> walk_state \<Rightarrow> (byte list list \<times> byte list, 32 word, walk_state) round" where
  "list_entry r entry rest directoryPath name s =
     (let cluster = entry_cluster entry; len = uint64 (le32 (slice_of entry 28 32)); isDirectory = (entry ! 11 AND 0x10 \<noteq> 0);
          pathname = path_Join [directoryPath, name] in
      if isDirectory \<and> cluster < 2 then Stop (Inl (CorruptFilesystem ''FAT directory has invalid start cluster''))
      else if \<not> isDirectory \<and> 0 < len \<and> (cluster < 2 \<or> fr_clusterCount r + 2 \<le> cluster)
        then Stop (Inl (CorruptFilesystem ''FAT file has invalid start cluster''))
      else if maxInventoryFiles \<le> length (ws_Files s) then Stop (Inr (s\<lparr>ws_Truncated := True\<rparr>))
      else if isDirectory then
        Descend cluster pathname ([], rest) (s\<lparr>ws_Files := ws_Files s @ [\<lparr>if_Path = pathname, if_Type = ''directory'', if_Mode = 0x16D,
          if_UID = 0, if_GID = 0, if_Size = 0, if_ExtendedAttributes = False\<rparr>]\<rparr>)
      else
        Continue ([], rest) (s\<lparr>ws_Files := ws_Files s @ [\<lparr>if_Path = pathname, if_Type = ''file'', if_Mode = 0x124,
          if_UID = 0, if_GID = 0, if_Size = len, if_ExtendedAttributes = False\<rparr>]\<rparr>))"

text \<open>One round of the loop of \<^verbatim>\<open>walkDirectoryData\<close>: the long-name entries collected so far and the data from the current offset on.\<close>

definition fat_round ::
  "fatReader \<Rightarrow> byte list list \<times> byte list \<Rightarrow> string \<Rightarrow> walk_state \<Rightarrow> (byte list list \<times> byte list, 32 word, walk_state) round" where
  "fat_round r d directoryPath s =
     (let longEntries = fst d; data = snd d; entry = take 32 data; rest = drop 32 data; attributes = entry ! 11 in
      if length data < 32 then Stop (if data \<noteq> [] then Inl (CorruptFilesystem ''truncated FAT directory'') else Inr s)
      else if entry ! 0 = 0 then Stop (Inr s)
      else if entry ! 0 = 0xe5 then Continue ([], rest) s
      else if attributes = 0x0f then Continue (longEntries @ [entry], rest) s
      else if attributes AND 8 \<noteq> 0 then Continue ([], rest) s
      else case fatEntryName entry longEntries of
        Inl e \<Rightarrow> Stop (Inl e)
      | Inr name \<Rightarrow>
          if name = ''.'' \<or> name = ''..'' then Continue ([], rest) s
          else if unsafe_name name then Stop (Inl (CorruptFilesystem ''unsafe FAT filename''))
          else list_entry r entry rest directoryPath name s)"

definition enter_directory :: "volume_reader \<Rightarrow> fatReader \<Rightarrow> 32 word \<Rightarrow> walk_state \<Rightarrow> disk_error + (byte list list \<times> byte list) \<times> walk_state" where
  "enter_directory rd r cluster s =
     bindE (guardE (cluster \<in> set (ws_visited s)) (CorruptFilesystem ''FAT directory cluster cycle'')) (\<lambda>_.
     bindE (clusterChain rd r [] cluster (ws_bytesRead s)) (\<lambda>(data, b).
     Inr (([], data), s\<lparr>ws_visited := cluster # ws_visited s, ws_bytesRead := b\<rparr>)))"

definition walkDirectoryData :: "volume_reader \<Rightarrow> fatReader \<Rightarrow> byte list \<Rightarrow> string \<Rightarrow> walk_state \<Rightarrow> (disk_error + walk_state) option" where
  "walkDirectoryData rd r data directoryPath s = walk (fat_round r) (enter_directory rd r) ([], data) directoryPath s"

definition walkClusterDirectory :: "volume_reader \<Rightarrow> fatReader \<Rightarrow> 32 word \<Rightarrow> string \<Rightarrow> walk_state \<Rightarrow> (disk_error + walk_state) option" where
  "walkClusterDirectory rd r cluster directoryPath s =
     (case enter_directory rd r cluster s of
        Inl e \<Rightarrow> Some (Inl e)
      | Inr (d, s1) \<Rightarrow> walkDirectoryData rd r (snd d) directoryPath s1)"

definition walk_root :: "volume_reader \<Rightarrow> fatReader \<Rightarrow> walk_state \<Rightarrow> (disk_error + walk_state) option" where
  "walk_root rd r s =
     (if fr_fatBits r = 32 then walkClusterDirectory rd r (fr_rootCluster r) ''/'' s
      else case rd (fr_rootDirStart r) (fr_rootDirSectors r * fr_bytesPerSector r) (ws_bytesRead s) of
        Inl e \<Rightarrow> Some (Inl e)
      | Inr (data, b) \<Rightarrow> walkDirectoryData rd r data ''/'' (s\<lparr>ws_bytesRead := b\<rparr>))"

definition fat_inventory :: "fatReader \<Rightarrow> Volume \<Rightarrow> walk_state \<Rightarrow> FilesystemInventory" where
  "fat_inventory r v s =
     \<lparr>fi_VolumeIndex = vol_Index v,
      fi_Filesystem = (if fr_fatBits r = 12 then ''fat12'' else if fr_fatBits r = 16 then ''fat16'' else ''fat32''),
      fi_Files = sort_key if_Path (ws_Files s), fi_FilesLimit = maxInventoryFiles, fi_LogicalBytesRead = ws_bytesRead s,
      fi_LogicalBytesLimit = maxInventoryLogicalBytes, fi_Truncated = ws_Truncated s, fi_UnsupportedFeatures = []\<rparr>"

definition InspectFATFilesystem :: "disk_error + disk_file \<Rightarrow> Format \<Rightarrow> Volume \<Rightarrow> (disk_error + FilesystemInventory) option" where
  "InspectFATFilesystem opened format v =
     (case openLogicalDisk opened format of
        Inl e \<Rightarrow> Some (Inl e)
      | Inr ld \<Rightarrow>
          let rd = fat_read ld v in
          case loadBootSector rd v of
            Inl e \<Rightarrow> Some (Inl e)
          | Inr (r, b) \<Rightarrow>
              map_option (\<lambda>res. bindE res (\<lambda>s. Inr (fat_inventory r v s)))
                (walk_root rd r \<lparr>ws_bytesRead = b, ws_visited = [], ws_Files = [], ws_Truncated = False\<rparr>))"

section \<open>Every walk returns within its limits\<close>

lemma safe_name: "name \<noteq> ''.'' \<Longrightarrow> name \<noteq> ''..'' \<Longrightarrow> \<not> unsafe_name name \<Longrightarrow> proper_element name"
  by (auto simp: unsafe_name_def proper_element_def list_ex_iff)

abbreviation fat_weight :: "byte list list \<times> byte list \<Rightarrow> nat" where "fat_weight d \<equiv> length (snd d)"

lemma list_entry_ok:
  assumes "walk_ok s" "inventory_dir dir" "proper_element name" "length rest < fat_weight d"
  shows "round_ok walk_ok unvisited fat_weight d s (list_entry r entry rest dir name s)"
  using assms(1,4) list_file_ok [OF assms(1-3)] truncated_ok inventory_dir_Join [OF assms(2,3)]
  by (auto simp: list_entry_def Let_def)

lemma fat_round_ok:
  assumes "walk_ok s" "inventory_dir dir"
  shows "round_ok walk_ok unvisited fat_weight d s (fat_round r d dir s)"
proof (cases "length (snd d) < 32")
  case False
  then have less: "length (drop 32 (snd d)) < length (snd d)" by simp
  then have "round_ok walk_ok unvisited fat_weight d s (list_entry r (take 32 (snd d)) (drop 32 (snd d)) dir name s)"
    if "\<not> (name = ''.'' \<or> name = ''..'')" "\<not> unsafe_name name" for name
    using that by (intro list_entry_ok assms safe_name less) auto
  moreover have "round_ok walk_ok unvisited fat_weight d s (Continue (l, drop 32 (snd d)) s)"
    "round_ok walk_ok unvisited fat_weight d s (Stop (Inr s))" "round_ok walk_ok unvisited fat_weight d s (Stop (Inl e))" for l e
    using less assms(1) by simp_all
  ultimately show ?thesis using False unfolding fat_round_def Let_def
    by (simp only: if_False split: sum.split if_split) blast
qed (use assms(1) in \<open>simp add: fat_round_def Let_def\<close>)

context budget_reader begin

lemma clusterData_budget: "clusterData rd r c b = Inr (ds, b1) \<Longrightarrow> b \<le> maxInventoryLogicalBytes \<Longrightarrow> b1 \<le> maxInventoryLogicalBytes"
  using read_counts by (auto simp: clusterData_def bindE_Inr Let_def)

lemma nextCluster_budget: "nextCluster rd r c b = Inr (nx, b1) \<Longrightarrow> b \<le> maxInventoryLogicalBytes \<Longrightarrow> b1 \<le> maxInventoryLogicalBytes"
  using read_counts by (auto simp: nextCluster_def bindE_Inr Let_def split: if_splits)

lemma clusterChain_budget: "clusterChain rd r vs c b = Inr (ds, b1) \<Longrightarrow> b \<le> maxInventoryLogicalBytes \<Longrightarrow> b1 \<le> maxInventoryLogicalBytes"
proof (induction vs arbitrary: c b ds b1 rule: measure_induct_rule [where f = "\<lambda>vs. card (- set vs)"])
  case (less vs)
  from less.prems(1) obtain data b2 nx b3 where *: "c \<notin> set vs" "clusterData rd r c b = Inr (data, b2)" "nextCluster rd r c b2 = Inr (nx, b3)"
    and rest: "case nx of None \<Rightarrow> (ds, b1) = (data, b3) | Some c1 \<Rightarrow> (\<exists>tail. clusterChain rd r (c # vs) c1 b3 = Inr (tail, b1))"
    by (subst (asm) clusterChain.simps) (auto simp: bindE_Inr split: if_splits option.splits)
  then have "b3 \<le> maxInventoryLogicalBytes" using less.prems(2) clusterData_budget nextCluster_budget by blast
  with rest less.IH [OF unvisited_less [OF *(1)]] show ?case by (auto split: option.splits)
qed

lemma enter_directory_ok:
  assumes "walk_ok s" "enter_directory rd r c s = Inr (d, s1)"
  shows "walk_ok s1 \<and> unvisited s1 < unvisited s"
  using assms visit_ok [OF assms(1), of c]
  by (auto simp: enter_directory_def bindE_Inr guardE_Inr walk_ok_def unvisited_def dest: clusterChain_budget)

end

sublocale budget_reader \<subseteq> fat: tree_walk "fat_round r" "enter_directory rd r" fat_weight unvisited walk_ok for r
  by unfold_locales (auto intro: fat_round_ok dest: enter_directory_ok)

context budget_reader begin

lemma walk_root_returns:
  assumes "walk_ok s"
  shows "\<exists>res. walk_root rd r s = Some res \<and> (\<forall>s1. res = Inr s1 \<longrightarrow> walk_ok s1)"
proof -
  have data: "\<exists>res. walkDirectoryData rd r ds ''/'' s = Some res \<and> (\<forall>s1. res = Inr s1 \<longrightarrow> walk_ok s1)" if "walk_ok s" for ds s
    using fat.walk_returns [OF that, of "''/''"] by (fastforce simp: walkDirectoryData_def inventory_dir_def)
  show ?thesis
  proof (cases "fr_fatBits r = 32")
    case True
    show ?thesis
    proof (cases "enter_directory rd r (fr_rootCluster r) s")
      case (Inr p)
      with True data enter_directory_ok [OF assms, of r "fr_rootCluster r" "fst p" "snd p"] show ?thesis
        by (simp add: walk_root_def walkClusterDirectory_def split_def)
    qed (use True in \<open>simp add: walk_root_def walkClusterDirectory_def\<close>)
  next
    case False
    show ?thesis
    proof (cases "rd (fr_rootDirStart r) (fr_rootDirSectors r * fr_bytesPerSector r) (ws_bytesRead s)")
      case (Inr p)
      with read_counts [of "fr_rootDirStart r" "fr_rootDirSectors r * fr_bytesPerSector r" "ws_bytesRead s" "fst p" "snd p"] assms
      have "walk_ok (s\<lparr>ws_bytesRead := snd p\<rparr>)" by (auto simp: walk_ok_def)
      with False Inr data show ?thesis by (simp add: walk_root_def split_def)
    qed (use False in \<open>simp add: walk_root_def\<close>)
  qed
qed

end

interpretation fatr: budget_reader "fat_read ld v" for ld v
proof
  fix p n b ds b1
  assume r: "fat_read ld v p n b = Inr (ds, b1)" and "b \<le> maxInventoryLogicalBytes"
  then have "ReadLogical ld (uint (vol_StartBytes v + p)) (uint n) = Inr ds" "b1 = b + n" "n \<le> maxInventoryLogicalBytes"
    "b \<le> maxInventoryLogicalBytes - n"
    by (auto simp: fat_read_def bindE_Inr guardE_Inr Let_def not_less)
  moreover note budget_add [OF this(3,4)]
  ultimately show "length ds = unat n \<and> b1 = b + n \<and> b1 \<le> maxInventoryLogicalBytes \<and> b \<le> b1"
    using ReadLogical_length [of ld "uint (vol_StartBytes v + p)" "uint n" ds] by simp
qed

lemma loadBootSector_budget: "loadBootSector (fat_read ld v) v = Inr (r, b) \<Longrightarrow> b \<le> maxInventoryLogicalBytes"
  using fatr.read_counts by (auto simp: loadBootSector_def bindE_Inr Let_def maxInventoryLogicalBytes_def)

text \<open>
  Listing a FAT volume ends on every image, with an error or with an inventory. At most 256 MiB were
  read for it, it has at most 10000 files in the order of their paths, and every path is absolute and made of
  names that are neither empty, \<^verbatim>\<open>.\<close> nor \<^verbatim>\<open>..\<close> and hold no slash.
\<close>

theorem fat_listing_bounded:
  "\<exists>res. InspectFATFilesystem opened format v = Some res \<and>
     (case res of Inl e \<Rightarrow> True
      | Inr found \<Rightarrow> fi_LogicalBytesRead found \<le> maxInventoryLogicalBytes \<and> length (fi_Files found) \<le> maxInventoryFiles \<and>
          sorted (map if_Path (fi_Files found)) \<and> list_all (\<lambda>f. cleanAbsolutePath (if_Path f)) (fi_Files found))"
proof (cases "openLogicalDisk opened format")
  case (Inr ld)
  show ?thesis
  proof (cases "loadBootSector (fat_read ld v) v")
    case (Inr p)
    let ?s = "\<lparr>ws_bytesRead = snd p, ws_visited = [], ws_Files = [], ws_Truncated = False\<rparr>"
    have "walk_ok ?s" using loadBootSector_budget [of ld v "fst p" "snd p"] Inr by (simp add: walk_ok_def)
    from fatr.walk_root_returns [OF this, of ld v "fst p"] obtain res where
      "walk_root (fat_read ld v) (fst p) ?s = Some res" "\<forall>s1. res = Inr s1 \<longrightarrow> walk_ok s1" by blast
    with Inr \<open>openLogicalDisk opened format = Inr ld\<close> show ?thesis
      by (cases res) (auto simp: InspectFATFilesystem_def fat_inventory_def walk_ok_def split_def list_all_iff)
  qed (use Inr in \<open>simp add: InspectFATFilesystem_def\<close>)
qed (simp add: InspectFATFilesystem_def)

section \<open>The volume is all that is read\<close>

lemma fat_read_same_inside:
  assumes "same_inside v ld ld'"
  shows "fat_read ld v = fat_read ld' v"
proof (intro ext)
  fix relative len b
  show "fat_read ld v relative len b = fat_read ld' v relative len b"
  proof (cases "vol_SizeBytes v < relative \<or> vol_SizeBytes v - relative < len \<or> vol_StartBytes v + relative < vol_StartBytes v")
    case False
    with same_inside_read [OF assms, of relative len] show ?thesis by (simp add: fat_read_def Let_def)
  qed (auto simp: fat_read_def Let_def)
qed

text \<open>
  C37: Nothing outside the volume matters. Two disks, in whatever formats, that hold the same data inside
  the volume give the same inventory or the same error, whatever the boot sector, the allocation table and the
  directories on it say.
\<close>

theorem fat_listing_confined:
  assumes "openLogicalDisk opened format = Inr ld" "openLogicalDisk opened' format' = Inr ld'" "same_inside v ld ld'"
  shows "InspectFATFilesystem opened format v = InspectFATFilesystem opened' format' v"
  using assms(1,2) fat_read_same_inside [OF assms(3)] by (simp add: InspectFATFilesystem_def)

section \<open>The geometry of a volume\<close>

definition cluster_start :: "fatReader \<Rightarrow> 32 word \<Rightarrow> 64 word" where
  "cluster_start r c = (fr_firstDataSector r + uint64 (c - 2) * fr_sectorsPerCluster r) * fr_bytesPerSector r"

text \<open>What an accepted boot sector guarantees, as words.\<close>

lemma loadBootSector_facts:
  assumes "loadBootSector rd v = Inr (r, b)"
  obtains fats total :: "64 word" where "fats \<noteq> 0" "fats \<le> 2" "unat total < 2 ^ 32" "unat (fr_fatSectors r) < 2 ^ 32" "unat (fr_reservedSectors r) < 2 ^ 16"
    "unat (fr_rootEntryCount r) < 2 ^ 16" "512 \<le> fr_bytesPerSector r" "fr_bytesPerSector r \<le> 4096" "fr_sectorsPerCluster r \<noteq> 0"
    "fr_sectorsPerCluster r \<le> 128"
    "fr_fatStart r = fr_reservedSectors r * fr_bytesPerSector r"
    "fr_rootDirStart r = (fr_reservedSectors r + fats * fr_fatSectors r) * fr_bytesPerSector r"
    "fr_rootDirSectors r = (uint64 (fr_rootEntryCount r) * 32 + fr_bytesPerSector r - 1) div fr_bytesPerSector r"
    "fr_firstDataSector r = fr_reservedSectors r + fats * fr_fatSectors r + fr_rootDirSectors r"
    "fr_firstDataSector r < total" "total \<le> vol_SizeBytes v div fr_bytesPerSector r"
    "(total - fr_firstDataSector r) div fr_sectorsPerCluster r \<le> 0xFFFFFFFD"
    "fr_clusterCount r = ucast ((total - fr_firstDataSector r) div fr_sectorsPerCluster r)"
    "fr_fatBits r = fat_bits ((total - fr_firstDataSector r) div fr_sectorsPerCluster r)"
    "(uint64 (fr_clusterCount r + 2) * of_nat (fr_fatBits r) + 7) div 8 \<le> fr_fatSectors r * fr_bytesPerSector r"
proof -
  have lt: "unat (w :: 32 word) < 2 ^ 32" "unat (x :: 16 word) < 2 ^ 16" "unat (x :: 16 word) < 2 ^ 32" for w x
    using unsigned_less [of w, where 'a = nat] unsigned_less [of x, where 'a = nat] by simp_all
  have small: "unat (total_sectors x) < 2 ^ 32" "unat (fat_sectors x) < 2 ^ 32" for x
    by (simp_all only: total_sectors_def fat_sectors_def Let_def unat_widen lt split: if_split) simp_all
  let ?bps = "\<lambda>boot. uint64 (le16 (slice_of boot 11 13))" and ?spc = "\<lambda>boot. uint64 (boot ! 13)"
  let ?res = "\<lambda>boot. uint64 (le16 (slice_of boot 14 16))" and ?fats = "\<lambda>boot. uint64 (boot ! 16)"
  let ?root = "\<lambda>boot. ucast (le16 (slice_of boot 17 19)) :: 32 word"
  let ?dir = "\<lambda>boot. (uint64 (?root boot) * 32 + ?bps boot - 1) div ?bps boot"
  let ?first = "\<lambda>boot. ?res boot + ?fats boot * fat_sectors boot + ?dir boot"
  let ?clusters = "\<lambda>boot. (total_sectors boot - ?first boot) div ?spc boot"
  from assms obtain boot where boot: "\<not> bad_bpb (?bps boot) (?spc boot) (?res boot) (?fats boot) (total_sectors boot) (fat_sectors boot)"
    "\<not> total_sectors boot \<le> ?first boot" "\<not> vol_SizeBytes v div ?bps boot < total_sectors boot" "\<not> 0xFFFFFFFD < ?clusters boot"
    "\<not> fat_sectors boot * ?bps boot < (uint64 (ucast (?clusters boot) + 2 :: 32 word) * of_nat (fat_bits (?clusters boot)) + 7) div 8"
    "fr_bytesPerSector r = ?bps boot" "fr_sectorsPerCluster r = ?spc boot" "fr_reservedSectors r = ?res boot"
    "fr_fatStart r = ?res boot * ?bps boot" "fr_fatSectors r = fat_sectors boot" "fr_rootEntryCount r = ?root boot"
    "fr_rootDirStart r = (?res boot + ?fats boot * fat_sectors boot) * ?bps boot" "fr_rootDirSectors r = ?dir boot"
    "fr_firstDataSector r = ?first boot" "fr_clusterCount r = ucast (?clusters boot)" "fr_fatBits r = fat_bits (?clusters boot)"
    by (auto simp: loadBootSector_def Let_def bindE_Inr guardE_Inr)
  show ?thesis
    by (rule that [of "?fats boot" "total_sectors boot"]; (simp only: boot small unat_widen lt)?)
      (use boot(1-5) in \<open>auto simp: bad_bpb_def not_less not_le\<close>)
qed


text \<open>The same facts as numbers: no computation of the geometry wraps around.\<close>

definition fat_geometry :: "fatReader \<Rightarrow> Volume \<Rightarrow> nat \<Rightarrow> nat \<Rightarrow> bool" where
  "fat_geometry r v F T \<longleftrightarrow>
     1 \<le> F \<and> F \<le> 2 \<and> 1 \<le> unat (fr_sectorsPerCluster r) \<and> unat (fr_sectorsPerCluster r) \<le> 128 \<and>
     512 \<le> unat (fr_bytesPerSector r) \<and> unat (fr_bytesPerSector r) \<le> 4096 \<and>
     unat (fr_firstDataSector r) < T \<and> T < 2 ^ 32 \<and> T * unat (fr_bytesPerSector r) \<le> unat (vol_SizeBytes v) \<and>
     unat (fr_fatStart r) = unat (fr_reservedSectors r) * unat (fr_bytesPerSector r) \<and>
     unat (fr_rootDirStart r) = (unat (fr_reservedSectors r) + F * unat (fr_fatSectors r)) * unat (fr_bytesPerSector r) \<and>
     unat (fr_firstDataSector r) = unat (fr_reservedSectors r) + F * unat (fr_fatSectors r) + unat (fr_rootDirSectors r) \<and>
     unat (fr_clusterCount r) * unat (fr_sectorsPerCluster r) \<le> T - unat (fr_firstDataSector r) \<and> unat (fr_clusterCount r) \<le> 0xFFFFFFFD \<and>
     fr_fatBits r \<in> {12, 16, 32} \<and>
     ((unat (fr_clusterCount r) + 2) * fr_fatBits r + 7) div 8 \<le> unat (fr_fatSectors r) * unat (fr_bytesPerSector r)"

lemma loadBootSector_geometry:
  assumes "loadBootSector rd v = Inr (r, b)"
  shows "\<exists>F T. fat_geometry r v F T"
proof -
  obtain fats total where f: "fats \<noteq> 0" "fats \<le> 2" "unat total < 2 ^ 32" "unat (fr_fatSectors r) < 2 ^ 32" "unat (fr_reservedSectors r) < 2 ^ 16"
    "unat (fr_rootEntryCount r) < 2 ^ 16" "512 \<le> fr_bytesPerSector r" "fr_bytesPerSector r \<le> 4096" "fr_sectorsPerCluster r \<noteq> 0"
    "fr_sectorsPerCluster r \<le> 128"
    "fr_fatStart r = fr_reservedSectors r * fr_bytesPerSector r"
    "fr_rootDirStart r = (fr_reservedSectors r + fats * fr_fatSectors r) * fr_bytesPerSector r"
    "fr_rootDirSectors r = (uint64 (fr_rootEntryCount r) * 32 + fr_bytesPerSector r - 1) div fr_bytesPerSector r"
    "fr_firstDataSector r = fr_reservedSectors r + fats * fr_fatSectors r + fr_rootDirSectors r"
    "fr_firstDataSector r < total" "total \<le> vol_SizeBytes v div fr_bytesPerSector r"
    "(total - fr_firstDataSector r) div fr_sectorsPerCluster r \<le> 0xFFFFFFFD"
    "fr_clusterCount r = ucast ((total - fr_firstDataSector r) div fr_sectorsPerCluster r)"
    "fr_fatBits r = fat_bits ((total - fr_firstDataSector r) div fr_sectorsPerCluster r)"
    "(uint64 (fr_clusterCount r + 2) * of_nat (fr_fatBits r) + 7) div 8 \<le> fr_fatSectors r * fr_bytesPerSector r"
    using loadBootSector_facts [OF assms] .
  let ?B = "unat (fr_bytesPerSector r)" and ?S = "unat (fr_sectorsPerCluster r)" and ?R = "unat (fr_reservedSectors r)"
    and ?Z = "unat (fr_fatSectors r)" and ?F = "unat fats" and ?T = "unat total" and ?D = "unat (fr_rootDirSectors r)" and ?K = "unat (fr_clusterCount r)"
    and ?X = "unat (fr_firstDataSector r)"
  have b: "1 \<le> ?F" "?F \<le> 2" "512 \<le> ?B" "?B \<le> 4096" "1 \<le> ?S" "?S \<le> 128"
    using f(1,2,7-10) by (auto simp: word_le_nat_alt unat_gt_0 Suc_le_eq)
  have "unat (uint64 (fr_rootEntryCount r) * 32 + fr_bytesPerSector r - 1) \<le> unat (fr_rootEntryCount r) * 32 + ?B"
    using f(6) b(3,4) by (simp add: unat_word_ariths unat_widen unat_sub_if')
  with f(6) b(4) have "unat (uint64 (fr_rootEntryCount r) * 32 + fr_bytesPerSector r - 1) < 2 ^ 22" by simp
  then have d: "?D < 2 ^ 22" unfolding f(13) unat_div by (rule le_less_trans [OF div_le_dividend])
  have fz: "unat (fats * fr_fatSectors r) = ?F * ?Z" "?F * ?Z < 2 ^ 34"
    using product_less [of ?F 2 ?Z "2 ^ 32" "2 ^ 34"] b(2) f(4) by (auto intro!: unat_mult_small)
  have rz: "unat (fr_reservedSectors r + fats * fr_fatSectors r) = ?R + ?F * ?Z"
    using fz f(5) by (subst unat_add_small) simp_all
  have x: "?X = ?R + ?F * ?Z + ?D" unfolding f(14) using rz fz f(5) d by (subst unat_add_small) simp_all
  have rb: "?R * ?B < 2 ^ 64" "(?R + ?F * ?Z) * ?B < 2 ^ 64" "?Z * ?B < 2 ^ 64"
    using product_less [of ?R "2 ^ 16" ?B 4096 "2 ^ 64"] product_less [of "?R + ?F * ?Z" "2 ^ 35" ?B 4096 "2 ^ 64"]
      product_less [of ?Z "2 ^ 32" ?B 4096 "2 ^ 64"] f(4,5) fz(2) b(4) by auto
  have t: "?X < ?T" "?T \<le> unat (vol_SizeBytes v) div ?B" using f(15,16) by (simp_all add: word_less_nat_alt word_le_nat_alt unat_div)
  have tb: "?T * ?B \<le> unat (vol_SizeBytes v)"
    using mult_le_mono1 [OF t(2), of ?B] div_times_less_eq_dividend [of "unat (vol_SizeBytes v)" ?B] by linarith
  have c: "unat ((total - fr_firstDataSector r) div fr_sectorsPerCluster r) = (?T - ?X) div ?S"
    using f(15) by (simp add: unat_div unat_sub)
  then have k: "?K = (?T - ?X) div ?S" "?K \<le> 0xFFFFFFFD"
    using f(17) unfolding f(18) by (simp_all add: word_le_nat_alt unsigned_ucast_eq take_bit_nat_eq_self)
  have ks: "?K * ?S \<le> ?T - ?X" unfolding k(1) by (rule div_times_less_eq_dividend)
  have k2: "unat (fr_clusterCount r + 2) = ?K + 2" using k(2) by (simp add: unat_word_ariths)
  have bits: "fr_fatBits r \<in> {12, 16, 32}" by (simp add: f(19) fat_bits_def)
  then have kb: "(?K + 2) * fr_fatBits r + 7 < 2 ^ 64" "unat (of_nat (fr_fatBits r) :: 64 word) = fr_fatBits r"
    using k(2) by auto
  then have "unat (uint64 (fr_clusterCount r + 2) * of_nat (fr_fatBits r)) = (?K + 2) * fr_fatBits r"
    by (subst unat_mult_small) (simp_all add: unat_widen k2)
  then have "unat ((uint64 (fr_clusterCount r + 2) * of_nat (fr_fatBits r) + 7) div 8) = ((?K + 2) * fr_fatBits r + 7) div 8"
    using kb(1) unfolding unat_div by (subst unat_add_small) simp_all
  with f(20) rb(3) have "((?K + 2) * fr_fatBits r + 7) div 8 \<le> ?Z * ?B" by (simp add: word_le_nat_alt unat_mult_small)
  then have "fat_geometry r v ?F ?T"
    unfolding fat_geometry_def f(11,12) unat_mult_small [OF rb(1)] rz [symmetric]
    using b x rb rz t(1) tb f(3) ks k(2) bits by (simp add: unat_mult_small)
  then show ?thesis by blast
qed

lemma link_inside:
  assumes "bits \<in> {12, 16, 32}" "unat (c :: 32 word) < K + 2"
  shows "unat (link_offset bits c) + unat (link_length bits) \<le> ((K + 2) * bits + 7) div 8"
proof -
  have c: "unat c < 2 ^ 32" using unsigned_less [of c, where 'a = nat] by simp
  then have "unat (uint64 c + uint64 c div 2) = unat c + unat c div 2"
    by (subst unat_add_small) (simp_all add: unat_widen unat_div)
  moreover have "unat (uint64 c * 2) = unat c * 2" "unat (uint64 c * 4) = unat c * 4"
    using c by (simp_all add: unat_widen unat_word_ariths)
  ultimately show ?thesis using assms by (auto simp: link_offset_def link_length_def)
qed

lemma cluster_start_nat:
  assumes "fat_geometry r v F T" "2 \<le> c" "c < fr_clusterCount r + 2"
  shows "unat (cluster_start r c) = (unat (fr_firstDataSector r) + (unat c - 2) * unat (fr_sectorsPerCluster r)) * unat (fr_bytesPerSector r)"
    "unat c < unat (fr_clusterCount r) + 2"
    "unat (fr_sectorsPerCluster r * fr_bytesPerSector r) = unat (fr_sectorsPerCluster r) * unat (fr_bytesPerSector r)"
proof -
  let ?B = "unat (fr_bytesPerSector r)" and ?S = "unat (fr_sectorsPerCluster r)" and ?K = "unat (fr_clusterCount r)" and ?X = "unat (fr_firstDataSector r)"
  note g = assms(1) [unfolded fat_geometry_def]
  have "unat (fr_clusterCount r + 2) = ?K + 2" using g by (simp add: unat_word_ariths)
  with assms(2,3) show c: "unat c < ?K + 2" by (simp add: word_less_nat_alt)
  have c2: "2 \<le> unat c" using assms(2) by (simp add: word_le_nat_alt)
  have w: "unat (c - 2) = unat c - 2" using assms(2) by (simp add: unat_sub)
  have "(unat c - 2) * ?S \<le> ?K * ?S" using c by (intro mult_le_mono1) simp
  then have s: "?X + (unat c - 2) * ?S < 2 ^ 32" using g by linarith
  then have "unat (fr_firstDataSector r + uint64 (c - 2) * fr_sectorsPerCluster r) = ?X + (unat c - 2) * ?S"
    by (subst unat_add_small; subst unat_mult_small) (simp_all add: w unat_widen)
  moreover have "(?X + (unat c - 2) * ?S) * ?B < 2 ^ 64" "?S * ?B < 2 ^ 64"
    using product_less [of "?X + (unat c - 2) * ?S" "2 ^ 32" ?B 4096] product_less [of ?S 128 ?B 4096] s g by auto
  ultimately show "unat (cluster_start r c) = (?X + (unat c - 2) * ?S) * ?B"
    "unat (fr_sectorsPerCluster r * fr_bytesPerSector r) = ?S * ?B"
    by (simp_all add: cluster_start_def unat_mult_small)
qed

text \<open>
  C38: The geometry of an accepted boot sector is sound. For any two clusters \<^verbatim>\<open>c < d\<close> of the volume, the link of
  \<^verbatim>\<open>d\<close> lies inside the first allocation table, the tables lie before the root directory, the root directory before
  every cluster, \<^verbatim>\<open>c\<close> before \<^verbatim>\<open>d\<close>, and \<^verbatim>\<open>d\<close> inside the volume; none of the products and sums of the code wraps around.
\<close>

theorem fat_regions_apart:
  assumes "loadBootSector rd v = Inr (r, b)" "2 \<le> c" "c < d" "d < fr_clusterCount r + 2"
  shows "unat (fr_fatStart r) \<le> unat (fr_fatStart r + link_offset (fr_fatBits r) d) \<and>
    unat (fr_fatStart r + link_offset (fr_fatBits r) d) + unat (link_length (fr_fatBits r)) \<le> unat (fr_rootDirStart r) \<and>
    unat (fr_rootDirStart r) + unat (fr_rootDirSectors r * fr_bytesPerSector r) \<le> unat (cluster_start r c) \<and>
    unat (cluster_start r c) + unat (fr_sectorsPerCluster r * fr_bytesPerSector r) \<le> unat (cluster_start r d) \<and>
    unat (cluster_start r d) + unat (fr_sectorsPerCluster r * fr_bytesPerSector r) \<le> unat (vol_SizeBytes v)"
proof -
  obtain F T where geo: "fat_geometry r v F T" using loadBootSector_geometry [OF assms(1)] by blast
  let ?B = "unat (fr_bytesPerSector r)" and ?S = "unat (fr_sectorsPerCluster r)" and ?K = "unat (fr_clusterCount r)"
    and ?X = "unat (fr_firstDataSector r)" and ?R = "unat (fr_reservedSectors r)" and ?Z = "unat (fr_fatSectors r)" and ?D = "unat (fr_rootDirSectors r)"
  note g = geo [unfolded fat_geometry_def]
  have le: "c < fr_clusterCount r + 2" "2 \<le> d" using assms(2-4) by (auto intro: order.strict_trans less_imp_le order.trans)
  note cs = cluster_start_nat [OF geo assms(2) le(1)] and ds = cluster_start_nat [OF geo le(2) assms(4)]
  have "unat (link_offset (fr_fatBits r) d) + unat (link_length (fr_fatBits r)) \<le> ?Z * ?B"
    using link_inside [of "fr_fatBits r" d ?K] ds(2) g by linarith
  moreover have "?R * ?B + ?Z * ?B \<le> (?R + F * ?Z) * ?B" using g by (simp add: add_mult_distrib)
  moreover have "(?R + F * ?Z) * ?B < 2 ^ 64" using product_less [of "?R + F * ?Z" "2 ^ 32" ?B 4096] g by auto
  ultimately have link: "unat (fr_fatStart r + link_offset (fr_fatBits r) d) = ?R * ?B + unat (link_offset (fr_fatBits r) d)"
    "?R * ?B + unat (link_offset (fr_fatBits r) d) + unat (link_length (fr_fatBits r)) \<le> (?R + F * ?Z) * ?B"
    using g by (simp_all add: unat_add_small)
  have root: "unat (fr_rootDirSectors r * fr_bytesPerSector r) = ?D * ?B"
    using product_less [of ?D "2 ^ 32" ?B 4096] g by (intro unat_mult_small) auto
  have cd: "unat c < unat d" "2 \<le> unat c" using assms(2,3) by (simp_all add: word_less_nat_alt word_le_nat_alt)
  have "(unat c - 2) * ?S + ?S \<le> (unat d - 2) * ?S" using cd by (intro times_step) simp
  then have "(?X + (unat c - 2) * ?S) * ?B + ?S * ?B \<le> (?X + (unat d - 2) * ?S) * ?B"
    by (rule scaled_step)
  moreover have "(?X + (unat d - 2) * ?S) * ?B + ?S * ?B \<le> T * ?B"
  proof -
    have "(unat d - 2) * ?S + ?S \<le> ?K * ?S" using ds(2) cd by (intro times_step) simp
    with g have "(unat d - 2) * ?S + ?S \<le> T - ?X" "?X < T" by auto
    then show ?thesis using scaled_step [of "(unat d - 2) * ?S" ?S "T - ?X" ?X ?B] by simp
  qed
  moreover have "(?R + F * ?Z) * ?B + ?D * ?B \<le> (?X + (unat c - 2) * ?S) * ?B"
    using g by (simp add: add_mult_distrib)
  ultimately show ?thesis using g link root cs ds by auto
qed

section \<open>Examples\<close>

text \<open>A volume of six sectors with a directory \<^verbatim>\<open>/D\<close> that holds an empty file \<^verbatim>\<open>/D/A\<close>; the second image goes on behind it.\<close>

definition example_bytes :: "int \<Rightarrow> byte" where
  "example_bytes p =
     (case map_of [(12, 2), (13, 1), (14, 1), (16, 1), (17, 16), (19, 6), (22, 1), (510, 0x55), (511, 0xaa), (515, 0xff), (516, 0x0f),
        (1024, 0x44), (1035, 0x10), (1050, 2), (1536, 0x41), (1547, 0x20)] p of
        Some b \<Rightarrow> b
      | None \<Rightarrow> if 1024 < p \<and> p < 1035 \<or> 1536 < p \<and> p < 1547 then 0x20 else if 3072 \<le> p then 0xee else 0)"

abbreviation example_image :: "int \<Rightarrow> disk_file" where
  "example_image \<equiv> image_of example_bytes"

definition example_volume :: Volume where
  "example_volume = mbrVolume 0 ''primary'' 0 \<lparr>bootFlag = 0, typeByte = 1, startLBA = 0, sectors = 6\<rparr>"

lemma example_fat_reads:
  "fat_read (rawLogicalDisk (example_image 3072)) example_volume 0 512 0 = Inr (file_bytes (example_image 3072) 0 512, 512)"
  "fat_read (rawLogicalDisk (example_image 3072)) example_volume 1024 512 512 = Inr (file_bytes (example_image 3072) 1024 512, 1024)"
  "fat_read (rawLogicalDisk (example_image 3072)) example_volume 1536 512 1024 = Inr (file_bytes (example_image 3072) 1536 512, 1536)"
  "fat_read (rawLogicalDisk (example_image 3072)) example_volume 515 2 1536 = Inr (file_bytes (example_image 3072) 515 2, 1538)"
  by (simp_all add: fat_read_def example_volume_def mbrVolume_def image_of_read maxInventoryLogicalBytes_def maxMappedRegionSize_def del: ReadLogical.simps)

definition example_reader :: fatReader where
  "example_reader = \<lparr>fr_bytesPerSector = 512, fr_sectorsPerCluster = 1, fr_reservedSectors = 1, fr_fatStart = 512, fr_fatSectors = 1,
     fr_rootEntryCount = 16, fr_rootDirStart = 1024, fr_rootDirSectors = 1, fr_firstDataSector = 3, fr_clusterCount = 3, fr_rootCluster = 0, fr_fatBits = 12\<rparr>"

lemma example_volume_simps: "vol_SizeBytes example_volume = 3072" "vol_StartBytes example_volume = 0"
  by (simp_all add: example_volume_def mbrVolume_def)

lemma example_boot: "loadBootSector (fat_read (rawLogicalDisk (example_image 3072)) example_volume) example_volume = Inr (example_reader, 512)"
  by (simp add: loadBootSector_def example_fat_reads Let_def file_bytes_slice image_of_byte example_volume_simps example_bytes_def
     be16LE_def le32_def total_sectors_def fat_sectors_def bad_bpb_def fat_bits_def example_reader_def)

lemma example_names:
  "fatEntryName (file_bytes (example_image 3072) 1024 32) [] = Inr ''D''" "fatEntryName (file_bytes (example_image 3072) 1536 32) [] = Inr ''A''"
proof -
  have "file_bytes (example_image 3072) 1024 8 = [0x44, 0x20, 0x20, 0x20, 0x20, 0x20, 0x20, 0x20]"
    "file_bytes (example_image 3072) 1536 8 = [0x41, 0x20, 0x20, 0x20, 0x20, 0x20, 0x20, 0x20]"
    "file_bytes (example_image 3072) 1032 3 = [0x20, 0x20, 0x20]" "file_bytes (example_image 3072) 1544 3 = [0x20, 0x20, 0x20]"
    by (simp_all add: file_bytes_def upt_conv_Cons image_of_byte example_bytes_def)
  moreover have "go_string [0x44, 0x20, 0x20, 0x20, 0x20, 0x20, 0x20, 0x20] = ''D       ''" "go_string [0x20, 0x20, 0x20] = ''   ''"
    "go_string [0x41, 0x20, 0x20, 0x20, 0x20, 0x20, 0x20, 0x20] = ''A       ''"
    by code_simp+
  moreover have "TrimSpace ''D       '' = ''D''" "TrimSpace ''A       '' = ''A''" "TrimSpace ''   '' = []"
    by (simp_all add: TrimSpace_def spaces_def has_suffix_def has_prefix_def)
  ultimately show "fatEntryName (file_bytes (example_image 3072) 1024 32) [] = Inr ''D''"
    "fatEntryName (file_bytes (example_image 3072) 1536 32) [] = Inr ''A''"
    by (simp_all add: fatEntryName_def file_bytes_slice image_of_byte example_bytes_def)
qed

lemma example_joins: "path_Join [''/'', ''D''] = ''/D''" "path_Join [''/D'', ''A''] = ''/D/A''"
  by (simp_all add: path_Join_def path_Clean_def clean_step_def)

lemmas example_defs = Let_def file_bytes_prefix file_bytes_drop file_bytes_slice example_names example_joins image_of_byte example_bytes_def be16LE_def le32_def
  example_reader_def entry_cluster_def unsafe_name_def maxInventoryFiles_def

definition example_file :: "string \<Rightarrow> bool \<Rightarrow> InventoryFile" where
  "example_file pathname isDirectory = \<lparr>if_Path = pathname, if_Type = (if isDirectory then ''directory'' else ''file''),
     if_Mode = (if isDirectory then 0x16D else 0x124), if_UID = 0, if_GID = 0, if_Size = 0, if_ExtendedAttributes = False\<rparr>"

lemma example_rounds:
  "length (ws_Files s) < 2 \<Longrightarrow> fat_round example_reader ([], file_bytes (example_image 3072) 1024 512) ''/'' s =
     Descend 2 ''/D'' ([], file_bytes (example_image 3072) 1056 480) (s\<lparr>ws_Files := ws_Files s @ [example_file ''/D'' True]\<rparr>)"
  "length (ws_Files s) < 2 \<Longrightarrow> fat_round example_reader ([], file_bytes (example_image 3072) 1536 512) ''/D'' s =
     Continue ([], file_bytes (example_image 3072) 1568 480) (s\<lparr>ws_Files := ws_Files s @ [example_file ''/D/A'' False]\<rparr>)"
  "fat_round example_reader ([], file_bytes (example_image 3072) 1056 480) ''/'' s = Stop (Inr s)"
  "fat_round example_reader ([], file_bytes (example_image 3072) 1568 480) ''/D'' s = Stop (Inr s)"
  by (simp_all add: fat_round_def list_entry_def example_file_def example_defs)

lemma example_chain: "clusterChain (fat_read (rawLogicalDisk (example_image 3072)) example_volume) example_reader [] 2 1024 =
    Inr (file_bytes (example_image 3072) 1536 512, 1538)"
proof -
  have "clusterData (fat_read (rawLogicalDisk (example_image 3072)) example_volume) example_reader 2 1024 = Inr (file_bytes (example_image 3072) 1536 512, 1536)"
    "nextCluster (fat_read (rawLogicalDisk (example_image 3072)) example_volume) example_reader 2 1536 = Inr (None, 1538)"
    by (simp_all add: clusterData_def nextCluster_def link_offset_def link_length_def link_value_def end_of_chain_def example_fat_reads example_defs)
  then show ?thesis by (subst clusterChain.simps) simp
qed

text \<open>Both files are found, in 1538 bytes read.\<close>

lemma example_fat_listing:
  "\<exists>found. InspectFATFilesystem (Inr (example_image 3072)) FormatRAW example_volume = Some (Inr found) \<and>
     map if_Path (fi_Files found) = [''/D'', ''/D/A''] \<and> fi_LogicalBytesRead found = 1538"
proof -
  let ?rd = "fat_read (rawLogicalDisk (example_image 3072)) example_volume"
  let ?s = "\<lparr>ws_bytesRead = 1024, ws_visited = [], ws_Files = [], ws_Truncated = False\<rparr>"
  let ?d = "?s\<lparr>ws_Files := [example_file ''/D'' True]\<rparr>" and ?dir = "[example_file ''/D'' True, example_file ''/D/A'' False]"
  let ?walk = "walk (fat_round example_reader) (enter_directory ?rd example_reader)"
  have enter: "enter_directory ?rd example_reader 2 ?d =
      Inr (([], file_bytes (example_image 3072) 1536 512), ?d\<lparr>ws_visited := [2], ws_bytesRead := 1538\<rparr>)"
    by (simp add: enter_directory_def example_chain)
  have "?walk ([], file_bytes (example_image 3072) 1536 512) ''/D'' (?d\<lparr>ws_visited := [2], ws_bytesRead := 1538\<rparr>) =
      Some (Inr (?d\<lparr>ws_visited := [2], ws_bytesRead := 1538, ws_Files := ?dir\<rparr>))"
    by (subst walk_continue [of "fat_round example_reader", OF example_rounds(2)]) (simp_all add: walk_stop [of "fat_round example_reader", OF example_rounds(4)])
  with enter have "?walk ([], file_bytes (example_image 3072) 1024 512) ''/'' ?s = Some (Inr (?d\<lparr>ws_visited := [2], ws_bytesRead := 1538, ws_Files := ?dir\<rparr>))"
    by (subst walk_descend [of "fat_round example_reader", OF example_rounds(1)]) (simp_all add: walk_stop [of "fat_round example_reader", OF example_rounds(3)])
  moreover have "fr_fatBits example_reader = 12" "fr_rootDirStart example_reader = 1024" "fr_rootDirSectors example_reader * fr_bytesPerSector example_reader = 512"
    by (simp_all add: example_reader_def)
  ultimately have "walk_root ?rd example_reader \<lparr>ws_bytesRead = 512, ws_visited = [], ws_Files = [], ws_Truncated = False\<rparr> =
      Some (Inr (?d\<lparr>ws_visited := [2], ws_bytesRead := 1538, ws_Files := ?dir\<rparr>))"
    by (simp add: walk_root_def example_fat_reads walkDirectoryData_def)
  then show ?thesis
    by (simp add: InspectFATFilesystem_def image_of_open example_boot fat_inventory_def example_file_def)
qed

theorem fat_regions_apart_witness:
  "unat (512 + link_offset 12 3) + 2 \<le> 1024 \<and> unat (cluster_start example_reader 3) + 512 \<le> 3072"
  using fat_regions_apart [OF example_boot, of 2 3] by (simp add: example_reader_def example_volume_simps link_length_def)

theorem fat_listing_confined_witness:
  "InspectFATFilesystem (Inr (example_image 4096)) FormatRAW example_volume = InspectFATFilesystem (Inr (example_image 3072)) FormatRAW example_volume \<and>
   file_byte (example_image 4096) 3072 \<noteq> file_byte (example_image 3072) 3072"
  using fat_listing_confined [OF image_of_open image_of_open image_of_same_inside, of example_volume 4096 3072 example_bytes]
  by (simp add: example_volume_simps file_byte_def image_of_def example_bytes_def)

end
