(* ===== verification/Ext_Reader.thy ===== *)
theory Ext_Reader
  imports Volume_Inventory
begin

text \<open>
  The reader for ext2, ext3 and ext4 of \<^verbatim>\<open>internal/vmdisk/ext.go\<close>: the superblock, inodes, block maps by indirect blocks
  and by extent trees, listing a volume and reading one file by its path. As in the FAT reader the geometry is a record,
  reading is a function that is passed along and the state of a walk is the state of \<^verbatim>\<open>Volume_Inventory\<close>.
\<close>

record extReader =
  er_blockSize :: "64 word"
  er_inodesCount :: "32 word"
  er_blocksCount :: "64 word"
  er_blocksPerGroup :: "32 word"
  er_inodesPerGroup :: "32 word"
  er_inodeSize :: "16 word"
  er_firstDataBlock :: "32 word"
  er_featureCompat :: "32 word"
  er_featureIncompat :: "32 word"
  er_descriptorSize :: "16 word"
  er_filesystem :: string

record extInode =
  ei_number :: "32 word"
  ei_mode :: "16 word"
  ei_uid :: "32 word"
  ei_gid :: "32 word"
  ei_size :: "64 word"
  ei_flags :: "32 word"
  ei_blocks :: "byte list"
  ei_xattrs :: bool

definition extentFlag :: "32 word" where "extentFlag = 0x00080000"
definition extentMagic :: "16 word" where "extentMagic = 0xf30a"
definition maxSemanticFileBytes :: "64 word" where "maxSemanticFileBytes = 1048576"

section \<open>Reading and the superblock\<close>

definition ext_read :: "logicalDisk \<Rightarrow> Volume \<Rightarrow> volume_reader" where
  "ext_read ld v relative len bytesRead =
     bindE (guardE (vol_SizeBytes v < relative \<or> vol_SizeBytes v - relative < len) (CorruptFilesystem ''read escapes volume'')) (\<lambda>_.
     bindE (guardE (maxMappedRegionSize < uint len \<or> maxInventoryLogicalBytes < len \<or> maxInventoryLogicalBytes - len < bytesRead)
       (CorruptFilesystem ''logical analysis exceeds limit'')) (\<lambda>_.
     let absolute = vol_StartBytes v + relative in
     bindE (guardE (absolute < vol_StartBytes v \<or> 2 ^ 63 \<le> uint absolute) (CorruptFilesystem ''volume offset overflows'')) (\<lambda>_.
     bindE (ReadLogical ld (uint absolute) (uint len)) (\<lambda>data.
     Inr (data, bytesRead + len)))))"

abbreviation has_64bit :: "32 word \<Rightarrow> bool" where "has_64bit incompat \<equiv> incompat AND 0x80 \<noteq> 0"

definition ext_flavour :: "32 word \<Rightarrow> 32 word \<Rightarrow> string" where
  "ext_flavour featureCompat incompat =
     (if incompat AND 0x40 \<noteq> 0 \<or> incompat AND 0x80 \<noteq> 0 then ''ext4'' else if featureCompat AND 4 \<noteq> 0 then ''ext3'' else ''ext2'')"

definition loadSuperblock :: "volume_reader \<Rightarrow> Volume \<Rightarrow> disk_error + extReader \<times> 64 word" where
  "loadSuperblock rd v =
     bindE (rd 1024 1024 0) (\<lambda>(sb, bytesRead).
     bindE (guardE (le16 (slice_of sb 56 58) \<noteq> 0xef53) (CorruptFilesystem ''ext magic missing'')) (\<lambda>_.
     let logBlock = le32 (slice_of sb 24 28) in
     bindE (guardE (6 < logBlock) (CorruptFilesystem ''ext block size exponent is invalid'')) (\<lambda>_.
     let blockSize = push_bit (unat logBlock) 1024;
         incompat = le32 (slice_of sb 96 100);
         blocksCount = (if has_64bit incompat then uint64 (le32 (slice_of sb 4 8)) OR push_bit 32 (uint64 (le32 (slice_of sb 0x150 0x154)))
           else uint64 (le32 (slice_of sb 4 8)));
         descriptorSize = (if has_64bit incompat then le16 (slice_of sb 254 256) else 32);
         inodesCount = le32 (slice_of sb 0 4); blocksPerGroup = le32 (slice_of sb 32 36);
         inodesPerGroup = le32 (slice_of sb 40 44); inodeSize = le16 (slice_of sb 88 90); featureCompat = le32 (slice_of sb 92 96) in
     bindE (guardE (has_64bit incompat \<and> (descriptorSize < 64 \<or> 1024 < descriptorSize))
       (CorruptFilesystem ''ext group descriptor size is invalid'')) (\<lambda>_.
     bindE (guardE (inodesCount < 2 \<or> blocksCount = 0 \<or> blocksPerGroup = 0 \<or> inodesPerGroup = 0 \<or> inodeSize < 128 \<or> blockSize < uint64 inodeSize)
       (CorruptFilesystem ''inconsistent ext superblock geometry'')) (\<lambda>_.
     bindE (guardE (vol_SizeBytes v div blockSize + 1 < blocksCount) (CorruptFilesystem ''ext block count exceeds partition'')) (\<lambda>_.
     Inr (\<lparr>er_blockSize = blockSize, er_inodesCount = inodesCount, er_blocksCount = blocksCount, er_blocksPerGroup = blocksPerGroup,
        er_inodesPerGroup = inodesPerGroup, er_inodeSize = inodeSize, er_firstDataBlock = le32 (slice_of sb 20 24), er_featureCompat = featureCompat,
        er_featureIncompat = incompat, er_descriptorSize = descriptorSize, er_filesystem = ext_flavour featureCompat incompat\<rparr>, bytesRead)))))))"

section \<open>Inodes\<close>

definition descriptor_offset :: "extReader \<Rightarrow> 32 word \<Rightarrow> 64 word" where
  "descriptor_offset r groupIndex =
     (if er_blockSize r = 1024 then 2 else 1) * er_blockSize r + uint64 groupIndex * uint64 (er_descriptorSize r)"

definition inode_table :: "extReader \<Rightarrow> byte list \<Rightarrow> 64 word" where
  "inode_table r descriptor =
     (if has_64bit (er_featureIncompat r)
      then uint64 (le32 (slice_of descriptor 8 12)) OR push_bit 32 (uint64 (le32 (slice_of descriptor 40 44)))
      else uint64 (le32 (slice_of descriptor 8 12)))"

definition mode_type :: "16 word \<Rightarrow> 16 word" where
  "mode_type mode = mode AND 0xf000"

definition decode_inode :: "32 word \<Rightarrow> byte list \<Rightarrow> extInode" where
  "decode_inode number raw =
     (let mode = le16 (slice_of raw 0 2);
          high = (\<lambda>i. if 124 \<le> length raw then push_bit 16 (ucast (le16 (slice_of raw i (i + 2)))) else 0);
          low = uint64 (le32 (slice_of raw 4 8)) in
      \<lparr>ei_number = number, ei_mode = mode, ei_uid = ucast (le16 (slice_of raw 2 4)) OR high 120,
       ei_gid = ucast (le16 (slice_of raw 24 26)) OR high 122,
       ei_size = (if mode_type mode = 0x8000 \<and> 112 \<le> length raw then low OR push_bit 32 (uint64 (le32 (slice_of raw 108 112))) else low),
       ei_flags = le32 (slice_of raw 32 36), ei_blocks = slice_of raw 40 100, ei_xattrs = (le32 (slice_of raw 104 108) \<noteq> 0)\<rparr>)"

definition read_inode :: "volume_reader \<Rightarrow> extReader \<Rightarrow> 32 word \<Rightarrow> 64 word \<Rightarrow> disk_error + extInode \<times> 64 word" where
  "read_inode rd r number bytesRead =
     bindE (guardE (number = 0 \<or> er_inodesCount r < number) (CorruptFilesystem ''inode is outside inode table'')) (\<lambda>_.
     let index = number - 1; groupIndex = index div er_inodesPerGroup r; within = index mod er_inodesPerGroup r in
     bindE (rd (descriptor_offset r groupIndex) (uint64 (er_descriptorSize r)) bytesRead) (\<lambda>(descriptor, b1).
     let table = inode_table r descriptor in
     bindE (guardE (table = 0 \<or> er_blocksCount r \<le> table) (CorruptFilesystem ''inode table block is invalid'')) (\<lambda>_.
     bindE (rd (table * er_blockSize r + uint64 within * uint64 (er_inodeSize r)) (uint64 (er_inodeSize r)) b1) (\<lambda>(raw, b2).
     let ino = decode_inode number raw in
     bindE (guardE (ei_mode ino = 0) (CorruptFilesystem ''referenced inode is unallocated'')) (\<lambda>_.
     Inr (ino, b2))))))"

section \<open>Block maps\<close>

fun capacity_loop :: "nat \<Rightarrow> 64 word \<Rightarrow> 64 word \<Rightarrow> 64 word" where
  "capacity_loop 0 perBlock capacity = capacity"
| "capacity_loop (Suc n) perBlock capacity = (if - 1 div perBlock < capacity then - 1 else capacity_loop n perBlock (capacity * perBlock))"

text \<open>The loop over the pointers of an indirect block; \<^verbatim>\<open>child\<close> maps a pointer and the number of blocks wanted below it.\<close>

fun pointer_loop ::
  "(64 word \<Rightarrow> 64 word \<Rightarrow> 64 word \<Rightarrow> disk_error + 64 word list \<times> 64 word) \<Rightarrow> 64 word \<Rightarrow> 64 word \<Rightarrow> 64 word list \<Rightarrow> 64 word list \<Rightarrow> 64 word \<Rightarrow>
   disk_error + 64 word list \<times> 64 word" where
  "pointer_loop child perPointer wanted [] result b = Inr (result, b)"
| "pointer_loop child perPointer wanted (p # ps) result b =
     (if wanted \<le> of_nat (length result) then Inr (result, b)
      else
        bindE (child p (min (wanted - of_nat (length result)) perPointer) b) (\<lambda>(children, b1).
        pointer_loop child perPointer wanted ps (result @ children) b1))"

definition pointers :: "byte list \<Rightarrow> 64 word \<Rightarrow> 64 word list" where
  "pointers raw n = map (\<lambda>i. uint64 (le32 (slice_of raw (i * 4) (i * 4 + 4)))) [0..<unat n]"

primrec indirectBlocks ::
  "nat \<Rightarrow> volume_reader \<Rightarrow> extReader \<Rightarrow> 64 word \<Rightarrow> 64 word \<Rightarrow> 64 word \<Rightarrow> disk_error + 64 word list \<times> 64 word" where
  "indirectBlocks 0 rd r block wanted b =
     (if wanted = 0 then Inr ([], b)
      else if block = 0 then Inr (replicate (unat (min wanted 1)) 0, b)
      else Inl (CorruptFilesystem ''invalid indirect block tree''))"
| "indirectBlocks (Suc depth) rd r block wanted b =
     (let perBlock = er_blockSize r div 4; capacity = capacity_loop (Suc depth) perBlock 1 in
      if wanted = 0 then Inr ([], b)
      else if block = 0 then Inr (replicate (unat (min wanted capacity)) 0, b)
      else if er_blocksCount r \<le> block \<or> 3 < Suc depth then Inl (CorruptFilesystem ''invalid indirect block tree'')
      else
        bindE (rd (block * er_blockSize r) (er_blockSize r) b) (\<lambda>(raw, b1).
        pointer_loop (if depth = 0 then \<lambda>p n b. Inr ([p], b) else indirectBlocks depth rd r) (capacity div perBlock) wanted
          (pointers raw perBlock) [] b1))"

record extent_state =
  es_blocks :: "64 word list"
  es_visited :: "64 word list"
  es_bytesRead :: "64 word"

fun fill_blocks :: "64 word list \<Rightarrow> nat \<Rightarrow> 64 word \<Rightarrow> nat \<Rightarrow> disk_error + 64 word list" where
  "fill_blocks blocks i physical 0 = Inr blocks"
| "fill_blocks blocks i physical (Suc n) =
     (if blocks ! i \<noteq> 0 then Inl (CorruptFilesystem ''inode has overlapping extents'')
      else fill_blocks (blocks[i := physical]) (Suc i) (physical + 1) n)"

definition leaf_extent :: "extReader \<Rightarrow> byte list \<Rightarrow> extent_state \<Rightarrow> disk_error + extent_state" where
  "leaf_extent r entry st =
     (let logical = uint64 (le32 (slice_of entry 0 4)); rawLength = le16 (slice_of entry 4 6); len = uint64 (rawLength AND 0x7fff);
          physical = push_bit 32 (uint64 (le16 (slice_of entry 6 8))) OR uint64 (le32 (slice_of entry 8 12));
          total = of_nat (length (es_blocks st)) in
      if len = 0 \<or> total < logical \<or> total - logical < len \<or> er_blocksCount r < physical \<or> er_blocksCount r - physical < len
        then Inl (CorruptFilesystem ''inode extent geometry is invalid'')
      else if rawLength AND 0x8000 \<noteq> 0 then Inr st
      else bindE (fill_blocks (es_blocks st) (unat logical) physical (unat len)) (\<lambda>blocks. Inr (st\<lparr>es_blocks := blocks\<rparr>)))"

definition index_extent ::
  "volume_reader \<Rightarrow> extReader \<Rightarrow> (byte list \<Rightarrow> extent_state \<Rightarrow> disk_error + extent_state) \<Rightarrow> byte list \<Rightarrow> extent_state \<Rightarrow> disk_error + extent_state" where
  "index_extent rd r parse entry st =
     (let child = push_bit 32 (uint64 (le16 (slice_of entry 8 10))) OR uint64 (le32 (slice_of entry 4 8)) in
      if child = 0 \<or> er_blocksCount r \<le> child \<or> child \<in> set (es_visited st)
        then Inl (CorruptFilesystem ''inode extent index is invalid or cyclic'')
      else
        bindE (rd (child * er_blockSize r) (er_blockSize r) (es_bytesRead st)) (\<lambda>(raw, b).
        parse raw (st\<lparr>es_visited := child # es_visited st, es_bytesRead := b\<rparr>)))"

fun each_entry :: "(byte list \<Rightarrow> extent_state \<Rightarrow> disk_error + extent_state) \<Rightarrow> byte list list \<Rightarrow> extent_state \<Rightarrow> disk_error + extent_state" where
  "each_entry f [] st = Inr st"
| "each_entry f (e # es) st = bindE (f e st) (each_entry f es)"

definition node_depth :: "byte list \<Rightarrow> nat" where
  "node_depth node = unat (le16 (slice_of node 6 8))"

definition node_entries :: "byte list \<Rightarrow> byte list list" where
  "node_entries node = map (\<lambda>i. slice_of node (12 + i * 12) (24 + i * 12)) [0..<unat (le16 (slice_of node 2 4))]"

definition check_node :: "nat \<Rightarrow> byte list \<Rightarrow> disk_error + unit" where
  "check_node expectedDepth node =
     bindE (guardE (length node < 12 \<or> le16 (slice_of node 0 2) \<noteq> extentMagic) (CorruptFilesystem ''inode has invalid extent header'')) (\<lambda>_.
     guardE (node_depth node \<noteq> expectedDepth \<or> le16 (slice_of node 4 6) < le16 (slice_of node 2 4) \<or> 5 < node_depth node \<or>
       length node < 12 + unat (le16 (slice_of node 2 4)) * 12) (CorruptFilesystem ''inode has invalid extent tree''))"

text \<open>
  \<^verbatim>\<open>parseExtentNode\<close> for a node that has to be at the given depth. The root may have any depth, so it is parsed as a node
  of the depth its own header names.
\<close>

primrec parseExtentNode :: "nat \<Rightarrow> volume_reader \<Rightarrow> extReader \<Rightarrow> byte list \<Rightarrow> extent_state \<Rightarrow> disk_error + extent_state" where
  "parseExtentNode 0 rd r node st =
     bindE (check_node 0 node) (\<lambda>_. each_entry (leaf_extent r) (node_entries node) st)"
| "parseExtentNode (Suc depth) rd r node st =
     bindE (check_node (Suc depth) node) (\<lambda>_.
     each_entry (index_extent rd r (parseExtentNode depth rd r)) (node_entries node) st)"

definition blocks_needed :: "extReader \<Rightarrow> 64 word \<Rightarrow> 64 word" where
  "blocks_needed r len = (len + er_blockSize r - 1) div er_blockSize r"

definition extentBlocks :: "volume_reader \<Rightarrow> extReader \<Rightarrow> byte list \<Rightarrow> 64 word \<Rightarrow> 64 word \<Rightarrow> disk_error + 64 word list \<times> 64 word" where
  "extentBlocks rd r root len b =
     bindE (parseExtentNode (node_depth root) rd r root
       \<lparr>es_blocks = replicate (unat (blocks_needed r len)) 0, es_visited = [], es_bytesRead = b\<rparr>) (\<lambda>st.
     Inr (es_blocks st, es_bytesRead st))"

fun indirect_levels ::
  "volume_reader \<Rightarrow> extReader \<Rightarrow> byte list \<Rightarrow> 64 word \<Rightarrow> (nat \<times> nat) list \<Rightarrow> 64 word list \<Rightarrow> 64 word \<Rightarrow> disk_error + 64 word list \<times> 64 word" where
  "indirect_levels rd r slots needed [] blocks b = Inr (blocks, b)"
| "indirect_levels rd r slots needed ((depth, offset) # levels) blocks b =
     (if needed \<le> of_nat (length blocks) then Inr (blocks, b)
      else
        bindE (indirectBlocks depth rd r (uint64 (le32 (slice_of slots offset (offset + 4)))) (needed - of_nat (length blocks)) b) (\<lambda>(indirect, b1).
        indirect_levels rd r slots needed levels (blocks @ indirect) b1))"

definition inodeBlocks :: "volume_reader \<Rightarrow> extReader \<Rightarrow> extInode \<Rightarrow> 64 word \<Rightarrow> disk_error + 64 word list \<times> 64 word" where
  "inodeBlocks rd r ino b =
     (if ei_flags ino AND extentFlag \<noteq> 0 then extentBlocks rd r (ei_blocks ino) (ei_size ino) b
      else
        let needed = blocks_needed r (ei_size ino) in
        bindE (indirect_levels rd r (ei_blocks ino) needed [(1, 48), (2, 52), (3, 56)] (pointers (ei_blocks ino) (min needed 12)) b) (\<lambda>(blocks, b1).
        bindE (guardE (of_nat (length blocks) < needed) (CorruptFilesystem ''inode block map is too short'')) (\<lambda>_.
        Inr (blocks, b1))))"

fun data_loop :: "volume_reader \<Rightarrow> extReader \<Rightarrow> 64 word list \<Rightarrow> 64 word \<Rightarrow> 64 word \<Rightarrow> disk_error + (byte list \<times> 64 word) \<times> 64 word" where
  "data_loop rd r [] remaining b = Inr (([], remaining), b)"
| "data_loop rd r (block # blocks) remaining b =
     (if remaining = 0 then Inr (([], remaining), b)
      else
        let len = min remaining (er_blockSize r) in
        bindE (if block = 0 then Inr (replicate (unat len) 0, b)
               else if er_blocksCount r \<le> block then Inl (CorruptFilesystem ''inode references block outside filesystem'')
               else rd (block * er_blockSize r) len b) (\<lambda>(chunk, b1).
        bindE (data_loop rd r blocks (remaining - len) b1) (\<lambda>((data, left), b2).
        Inr ((chunk @ data, left), b2))))"

definition inodeData :: "volume_reader \<Rightarrow> extReader \<Rightarrow> extInode \<Rightarrow> 64 word \<Rightarrow> disk_error + byte list \<times> 64 word" where
  "inodeData rd r ino b =
     bindE (guardE (maxInventoryLogicalBytes < ei_size ino) (CorruptFilesystem ''inode size exceeds logical analysis limit'')) (\<lambda>_.
     bindE (inodeBlocks rd r ino b) (\<lambda>(blocks, b1).
     bindE (data_loop rd r blocks (ei_size ino) b1) (\<lambda>((data, left), b2).
     bindE (guardE (left \<noteq> 0) (CorruptFilesystem ''inode block map is shorter than file size'')) (\<lambda>_.
     Inr (data, b2)))))"

section \<open>Directories\<close>

definition inodeKind :: "16 word \<Rightarrow> string" where
  "inodeKind mode =
     (case map_of [(0x4000, ''directory''), (0x8000, ''file''), (0xa000, ''symlink''), (0x2000, ''character_device''), (0x6000, ''block_device''),
        (0x1000, ''fifo''), (0xc000, ''socket'')] (mode_type mode) of Some k \<Rightarrow> k | None \<Rightarrow> ''unknown'')"

definition bad_record :: "byte list \<Rightarrow> bool" where
  "bad_record data \<longleftrightarrow>
     (let recordLength = unat (le16 (slice_of data 4 6)) in
      recordLength < 8 \<or> recordLength mod 4 \<noteq> 0 \<or> length data < recordLength \<or> recordLength - 8 < unat (data ! 6))"

definition record_name :: "byte list \<Rightarrow> string" where
  "record_name data = go_string (slice_of data 8 (8 + unat (data ! 6)))"

definition record_rest :: "byte list \<Rightarrow> byte list" where
  "record_rest data = drop (unat (le16 (slice_of data 4 6))) data"

definition unsafe_directory_name :: "string \<Rightarrow> bool" where
  "unsafe_directory_name name \<longleftrightarrow> name = [] \<or> CHR ''/'' \<in> set name \<or> name = ''.'' \<or> name = ''..''"

text \<open>Listing the inode of an entry, and descending when it is a directory.\<close>

definition list_inode ::
  "extInode \<Rightarrow> 32 word \<Rightarrow> byte list \<Rightarrow> string \<Rightarrow> walk_state \<Rightarrow> (byte list, 32 word, walk_state) round" where
  "list_inode ino child rest childPath s =
     (if \<not> has_prefix childPath ''/'' then Stop (Inl (CorruptFilesystem ''inventory path escaped root''))
      else if maxInventoryFiles \<le> length (ws_Files s) then Stop (Inr (s\<lparr>ws_Truncated := True\<rparr>))
      else
        let s1 = s\<lparr>ws_Files := ws_Files s @ [\<lparr>if_Path = childPath, if_Type = inodeKind (ei_mode ino), if_Mode = ei_mode ino AND 0x0fff,
              if_UID = ei_uid ino, if_GID = ei_gid ino, if_Size = ei_size ino, if_ExtendedAttributes = ei_xattrs ino\<rparr>]\<rparr> in
        if inodeKind (ei_mode ino) = ''directory'' then Descend child childPath rest s1 else Continue rest s1)"

text \<open>One round of the loop of \<^verbatim>\<open>walkDirectory\<close> over the data from the current offset on.\<close>

definition ext_round ::
  "volume_reader \<Rightarrow> extReader \<Rightarrow> byte list \<Rightarrow> string \<Rightarrow> walk_state \<Rightarrow> (byte list, 32 word, walk_state) round" where
  "ext_round rd r data directoryPath s =
     (let child = le32 (slice_of data 0 4); name = record_name data in
      if data = [] then Stop (Inr s)
      else if length data < 8 then Stop (Inl (CorruptFilesystem ''truncated directory entry''))
      else if bad_record data then Stop (Inl (CorruptFilesystem ''invalid directory record geometry''))
      else if child = 0 \<or> name = ''.'' \<or> name = ''..'' then Continue (record_rest data) s
      else if unsafe_directory_name name then Stop (Inl (CorruptFilesystem ''unsafe directory name''))
      else case read_inode rd r child (ws_bytesRead s) of
        Inl e \<Rightarrow> Stop (Inl e)
      | Inr (ino, b) \<Rightarrow> list_inode ino child (record_rest data) (path_Join [directoryPath, name]) (s\<lparr>ws_bytesRead := b\<rparr>))"

text \<open>The data of a directory, with the bytes read so far.\<close>

definition directory_data :: "volume_reader \<Rightarrow> extReader \<Rightarrow> 32 word \<Rightarrow> 64 word \<Rightarrow> disk_error + byte list \<times> 64 word" where
  "directory_data rd r number b =
     bindE (read_inode rd r number b) (\<lambda>(ino, b1).
     bindE (guardE (mode_type (ei_mode ino) \<noteq> 0x4000) (CorruptFilesystem ''inode is not a directory'')) (\<lambda>_.
     inodeData rd r ino b1))"

definition ext_enter :: "volume_reader \<Rightarrow> extReader \<Rightarrow> 32 word \<Rightarrow> walk_state \<Rightarrow> disk_error + byte list \<times> walk_state" where
  "ext_enter rd r number s =
     bindE (guardE (number \<in> set (ws_visited s)) (CorruptFilesystem ''directory inode cycle'')) (\<lambda>_.
     bindE (directory_data rd r number (ws_bytesRead s)) (\<lambda>(data, b).
     Inr (data, s\<lparr>ws_visited := number # ws_visited s, ws_bytesRead := b\<rparr>)))"

definition walkDirectory :: "volume_reader \<Rightarrow> extReader \<Rightarrow> 32 word \<Rightarrow> string \<Rightarrow> walk_state \<Rightarrow> (disk_error + walk_state) option" where
  "walkDirectory rd r number directoryPath s =
     (case ext_enter rd r number s of
        Inl e \<Rightarrow> Some (Inl e)
      | Inr (data, s1) \<Rightarrow> walk (ext_round rd r) (ext_enter rd r) data directoryPath s1)"

definition ext_inventory :: "extReader \<Rightarrow> Volume \<Rightarrow> walk_state \<Rightarrow> FilesystemInventory" where
  "ext_inventory r v s =
     \<lparr>fi_VolumeIndex = vol_Index v, fi_Filesystem = er_filesystem r, fi_Files = sort_key if_Path (ws_Files s), fi_FilesLimit = maxInventoryFiles,
      fi_LogicalBytesRead = ws_bytesRead s, fi_LogicalBytesLimit = maxInventoryLogicalBytes, fi_Truncated = ws_Truncated s, fi_UnsupportedFeatures = []\<rparr>"

definition InspectExtFilesystem :: "disk_error + disk_file \<Rightarrow> Format \<Rightarrow> Volume \<Rightarrow> (disk_error + FilesystemInventory) option" where
  "InspectExtFilesystem opened format v =
     (case openLogicalDisk opened format of
        Inl e \<Rightarrow> Some (Inl e)
      | Inr ld \<Rightarrow>
          let rd = ext_read ld v in
          case loadSuperblock rd v of
            Inl e \<Rightarrow> Some (Inl e)
          | Inr (r, b) \<Rightarrow>
              map_option (\<lambda>res. bindE res (\<lambda>s. Inr (ext_inventory r v s)))
                (walkDirectory rd r 2 ''/'' \<lparr>ws_bytesRead = b, ws_visited = [], ws_Files = [], ws_Truncated = False\<rparr>))"

section \<open>Reading one file\<close>

datatype file_error = InvalidPath | UnsafeComponent | NotExist | NotRegular | TooLarge | NotDirectory | Disk disk_error

abbreviation disk_step :: "disk_error + 'a \<Rightarrow> file_error + 'a" where
  "disk_step m \<equiv> map_sum Disk id m"

function lookup_records :: "byte list \<Rightarrow> string \<Rightarrow> file_error + 32 word" where
  "lookup_records data name =
     (if data = [] then Inl NotExist
      else if length data < 8 then Inl (Disk (CorruptFilesystem ''truncated directory entry''))
      else if bad_record data then Inl (Disk (CorruptFilesystem ''invalid directory record geometry''))
      else if le32 (slice_of data 0 4) \<noteq> 0 \<and> record_name data = name then Inr (le32 (slice_of data 0 4))
      else lookup_records (record_rest data) name)"
  by pat_completeness auto
termination
  by (relation "measure (\<lambda>(data, name). length data)") (auto simp: bad_record_def record_rest_def Let_def)

declare lookup_records.simps [simp del]

definition lookupDirectoryEntry :: "volume_reader \<Rightarrow> extReader \<Rightarrow> 32 word \<Rightarrow> string \<Rightarrow> 64 word \<Rightarrow> file_error + 32 word \<times> 64 word" where
  "lookupDirectoryEntry rd r directory name b =
     bindE (guardE (unsafe_directory_name name) UnsafeComponent) (\<lambda>_.
     bindE (disk_step (directory_data rd r directory b)) (\<lambda>(data, b1).
     bindE (lookup_records data name) (\<lambda>child.
     Inr (child, b1))))"

fun read_parts :: "volume_reader \<Rightarrow> extReader \<Rightarrow> 64 word \<Rightarrow> 32 word \<Rightarrow> string list \<Rightarrow> 64 word \<Rightarrow> file_error + byte list" where
  "read_parts rd r limit current [] b = Inl NotExist"
| "read_parts rd r limit current (part # parts) b =
     bindE (lookupDirectoryEntry rd r current part b) (\<lambda>(number, b1).
     bindE (disk_step (read_inode rd r number b1)) (\<lambda>(ino, b2).
     if parts \<noteq> [] then
       bindE (guardE (mode_type (ei_mode ino) \<noteq> 0x4000) NotDirectory) (\<lambda>_. read_parts rd r limit number parts b2)
     else
       bindE (guardE (mode_type (ei_mode ino) \<noteq> 0x8000) NotRegular) (\<lambda>_.
       bindE (guardE (limit < ei_size ino) TooLarge) (\<lambda>_.
       bindE (disk_step (inodeData rd r ino b2)) (\<lambda>(data, b3). Inr data)))))"

definition readExtFileWithLimit :: "disk_error + disk_file \<Rightarrow> Format \<Rightarrow> Volume \<Rightarrow> string \<Rightarrow> 64 word \<Rightarrow> file_error + byte list" where
  "readExtFileWithLimit opened format v target limit =
     (let clean = path_Clean target in
      bindE (guardE (target = [] \<or> clean \<noteq> target \<or> \<not> has_prefix clean ''/'' \<or> clean = ''/'') InvalidPath) (\<lambda>_.
      bindE (disk_step (openLogicalDisk opened format)) (\<lambda>ld.
      bindE (disk_step (loadSuperblock (ext_read ld v) v)) (\<lambda>(r, b).
      read_parts (ext_read ld v) r limit 2 (split_slash (tl clean)) b))))"

definition ReadExtFile :: "disk_error + disk_file \<Rightarrow> Format \<Rightarrow> Volume \<Rightarrow> string \<Rightarrow> file_error + byte list" where
  "ReadExtFile opened format v target = readExtFileWithLimit opened format v target maxSemanticFileBytes"

context budget_reader begin

lemma read_inode_budget: "read_inode rd r number b = Inr (ino, b1) \<Longrightarrow> b \<le> maxInventoryLogicalBytes \<Longrightarrow> b1 \<le> maxInventoryLogicalBytes"
  by (auto simp: read_inode_def bindE_Inr guardE_Inr Let_def dest!: read_counts)

lemma pointer_loop_budget:
  assumes "\<And>p n b xs b1. child p n b = Inr (xs, b1) \<Longrightarrow> b \<le> maxInventoryLogicalBytes \<Longrightarrow> b1 \<le> maxInventoryLogicalBytes"
  shows "pointer_loop child perPointer wanted ps result b = Inr (xs, b1) \<Longrightarrow> b \<le> maxInventoryLogicalBytes \<Longrightarrow> b1 \<le> maxInventoryLogicalBytes"
  by (induction ps arbitrary: result b) (auto simp: bindE_Inr split: if_splits dest: assms)

lemma indirectBlocks_budget:
  "indirectBlocks depth rd r block wanted b = Inr (xs, b1) \<Longrightarrow> b \<le> maxInventoryLogicalBytes \<Longrightarrow> b1 \<le> maxInventoryLogicalBytes"
proof (induction depth arbitrary: block wanted b xs b1)
  case (Suc depth)
  then show ?case
    by (auto simp: Let_def bindE_Inr split: if_splits dest!: read_counts elim!: pointer_loop_budget [rotated])
qed (auto split: if_splits)

lemma each_entry_budget:
  assumes "\<And>e st st1. f e st = Inr st1 \<Longrightarrow> es_bytesRead st \<le> maxInventoryLogicalBytes \<Longrightarrow> es_bytesRead st1 \<le> maxInventoryLogicalBytes"
  shows "each_entry f es st = Inr st1 \<Longrightarrow> es_bytesRead st \<le> maxInventoryLogicalBytes \<Longrightarrow> es_bytesRead st1 \<le> maxInventoryLogicalBytes"
  by (induction es arbitrary: st) (auto simp: bindE_Inr dest: assms)

lemma parseExtentNode_budget:
  "parseExtentNode depth rd r node st = Inr st1 \<Longrightarrow> es_bytesRead st \<le> maxInventoryLogicalBytes \<Longrightarrow> es_bytesRead st1 \<le> maxInventoryLogicalBytes"
proof (induction depth arbitrary: node st st1)
  case 0
  then show ?case by (auto simp: bindE_Inr leaf_extent_def Let_def split: if_splits elim!: each_entry_budget [rotated])
next
  case (Suc depth)
  have "es_bytesRead st1 \<le> maxInventoryLogicalBytes"
    if "index_extent rd r (parseExtentNode depth rd r) e st = Inr st1" "es_bytesRead st \<le> maxInventoryLogicalBytes" for e st st1
    using that Suc.IH by (auto simp: index_extent_def Let_def bindE_Inr split: if_splits dest!: read_counts)
  with Suc.prems show ?case by (auto simp: bindE_Inr elim!: each_entry_budget [rotated])
qed

lemma indirect_levels_budget:
  "indirect_levels rd r slots needed levels blocks b = Inr (xs, b1) \<Longrightarrow> b \<le> maxInventoryLogicalBytes \<Longrightarrow> b1 \<le> maxInventoryLogicalBytes"
  by (induction levels arbitrary: blocks b) (auto simp: bindE_Inr split: if_splits dest!: indirectBlocks_budget)

lemma inodeBlocks_budget: "inodeBlocks rd r ino b = Inr (xs, b1) \<Longrightarrow> b \<le> maxInventoryLogicalBytes \<Longrightarrow> b1 \<le> maxInventoryLogicalBytes"
  by (auto simp: inodeBlocks_def extentBlocks_def Let_def bindE_Inr simp del: indirect_levels.simps
      split: if_splits dest: parseExtentNode_budget indirect_levels_budget)

lemma data_loop_counts:
  "data_loop rd r blocks remaining b = Inr ((ds, left), b1) \<Longrightarrow> b \<le> maxInventoryLogicalBytes \<Longrightarrow>
   b1 \<le> maxInventoryLogicalBytes \<and> left \<le> remaining \<and> length ds = unat (remaining - left)"
proof (induction blocks arbitrary: remaining b ds)
  case (Cons block blocks)
  show ?case
  proof (cases "remaining = 0")
    case False
    let ?len = "min remaining (er_blockSize r)"
    from Cons.prems(1) False obtain chunk b2 data where *:
      "(if block = 0 then Inr (replicate (unat ?len) 0, b)
        else if er_blocksCount r \<le> block then Inl (CorruptFilesystem ''inode references block outside filesystem'')
        else rd (block * er_blockSize r) ?len b) = Inr (chunk, b2)"
      "data_loop rd r blocks (remaining - ?len) b2 = Inr ((data, left), b1)" "ds = chunk @ data"
      by (auto simp: Let_def bindE_Inr)
    then have c: "b2 \<le> maxInventoryLogicalBytes" "length chunk = unat ?len"
      using Cons.prems(2) by (auto split: if_splits dest!: read_counts)
    from Cons.IH [OF *(2) c(1)] have "b1 \<le> maxInventoryLogicalBytes" "left \<le> remaining - ?len" "length data = unat (remaining - ?len - left)" by auto
    moreover have "?len \<le> remaining" by simp
    ultimately show ?thesis using c * by (auto simp: word_le_nat_alt unat_sub)
  qed (use Cons in auto)
qed simp

lemma inodeData_counts:
  assumes "inodeData rd r ino b = Inr (ds, b1)" "b \<le> maxInventoryLogicalBytes"
  shows "b1 \<le> maxInventoryLogicalBytes" "length ds = unat (ei_size ino)"
  using assms inodeBlocks_budget by (auto simp: inodeData_def bindE_Inr guardE_Inr dest!: data_loop_counts)

lemma directory_data_budget:
  "directory_data rd r number b = Inr (ds, b1) \<Longrightarrow> b \<le> maxInventoryLogicalBytes \<Longrightarrow> b1 \<le> maxInventoryLogicalBytes"
  by (auto simp: directory_data_def bindE_Inr dest!: read_inode_budget inodeData_counts(1))

lemma ext_enter_ok:
  assumes "walk_ok s" "ext_enter rd r c s = Inr (d, s1)"
  shows "walk_ok s1 \<and> unvisited s1 < unvisited s"
  using assms visit_ok [OF assms(1), of c]
  by (auto simp: ext_enter_def bindE_Inr guardE_Inr walk_ok_def unvisited_def dest: directory_data_budget)

lemma list_inode_ok:
  assumes "walk_ok s" "inventory_dir dir" "proper_element name" "length rest < length d"
  shows "round_ok walk_ok unvisited length d s (list_inode ino child rest (path_Join [dir, name]) s)"
  using assms(1,4) list_file_ok [OF assms(1-3)] truncated_ok inventory_dir_Join [OF assms(2,3)]
  by (auto simp: list_inode_def Let_def)

lemma ext_round_ok:
  assumes "walk_ok s" "inventory_dir dir"
  shows "round_ok walk_ok unvisited length d s (ext_round rd r d dir s)"
proof (cases "d = [] \<or> length d < 8 \<or> bad_record d")
  case False
  then have less: "length (record_rest d) < length d" by (auto simp: record_rest_def bad_record_def Let_def)
  have "round_ok walk_ok unvisited length d s (list_inode ino child (record_rest d) (path_Join [dir, record_name d]) (s\<lparr>ws_bytesRead := b\<rparr>))"
    if "\<not> unsafe_directory_name (record_name d)" "read_inode rd r child (ws_bytesRead s) = Inr (ino, b)" for child ino b
  proof -
    have "walk_ok (s\<lparr>ws_bytesRead := b\<rparr>)" using bytes_ok(1) [OF assms(1)] read_inode_budget [OF that(2)] assms(1) by (simp add: walk_ok_def)
    moreover have "proper_element (record_name d)" using that(1) by (auto simp: unsafe_directory_name_def proper_element_def)
    ultimately show ?thesis
      using list_inode_ok [OF _ assms(2) _ less, of "s\<lparr>ws_bytesRead := b\<rparr>" "record_name d" ino child]
      by (simp add: bytes_ok(2) round_ok_def split: round.splits sum.splits)
  qed
  moreover have "round_ok walk_ok unvisited length d s (Continue (record_rest d) s)" "round_ok walk_ok unvisited length d s (Stop (Inl e))" for e
    using less assms(1) by simp_all
  ultimately show ?thesis using False unfolding ext_round_def Let_def
    by (simp only: de_Morgan_disj if_False split: sum.split prod.split if_split) blast
qed (use assms(1) in \<open>auto simp: ext_round_def Let_def\<close>)

end

sublocale budget_reader \<subseteq> ext: tree_walk "ext_round rd r" "ext_enter rd r" length unvisited walk_ok for r
  by unfold_locales (auto intro: ext_round_ok dest: ext_enter_ok)

context budget_reader begin

lemma walkDirectory_returns:
  assumes "walk_ok s"
  shows "\<exists>res. walkDirectory rd r number ''/'' s = Some res \<and> (\<forall>s1. res = Inr s1 \<longrightarrow> walk_ok s1)"
proof (cases "ext_enter rd r number s")
  case (Inr p)
  with ext_enter_ok [OF assms, of r number "fst p" "snd p"] have "walk_ok (snd p)" by simp
  from ext.walk_returns [OF this, of "''/''" r "fst p"] Inr show ?thesis
    by (fastforce simp: walkDirectory_def inventory_dir_def split_def)
qed (simp add: walkDirectory_def)

end

interpretation extr: budget_reader "ext_read ld v" for ld v
proof
  fix p n b ds b1
  assume r: "ext_read ld v p n b = Inr (ds, b1)" and "b \<le> maxInventoryLogicalBytes"
  then have "ReadLogical ld (uint (vol_StartBytes v + p)) (uint n) = Inr ds" "b1 = b + n" "n \<le> maxInventoryLogicalBytes"
    "b \<le> maxInventoryLogicalBytes - n"
    by (auto simp: ext_read_def bindE_Inr guardE_Inr Let_def not_less)
  moreover note budget_add [OF this(3,4)]
  ultimately show "length ds = unat n \<and> b1 = b + n \<and> b1 \<le> maxInventoryLogicalBytes \<and> b \<le> b1"
    using ReadLogical_length [of ld "uint (vol_StartBytes v + p)" "uint n" ds] by simp
qed

lemma loadSuperblock_budget: "loadSuperblock (ext_read ld v) v = Inr (r, b) \<Longrightarrow> b \<le> maxInventoryLogicalBytes"
  using extr.read_counts by (auto simp: loadSuperblock_def bindE_Inr Let_def maxInventoryLogicalBytes_def)

text \<open>
  C36: Listing an ext volume ends on every image, with an error or with an inventory. At most 256 MiB were read
  for it, it has at most 10000 files in the order of their paths, and every path is absolute and made of names that are
  neither empty, \<^verbatim>\<open>.\<close> nor \<^verbatim>\<open>..\<close> and hold no slash.
\<close>

theorem ext_listing_bounded:
  "\<exists>res. InspectExtFilesystem opened format v = Some res \<and>
     (case res of Inl e \<Rightarrow> True
      | Inr found \<Rightarrow> fi_LogicalBytesRead found \<le> maxInventoryLogicalBytes \<and> length (fi_Files found) \<le> maxInventoryFiles \<and>
          sorted (map if_Path (fi_Files found)) \<and> list_all (\<lambda>f. cleanAbsolutePath (if_Path f)) (fi_Files found))"
proof (cases "openLogicalDisk opened format")
  case (Inr ld)
  show ?thesis
  proof (cases "loadSuperblock (ext_read ld v) v")
    case (Inr p)
    let ?s = "\<lparr>ws_bytesRead = snd p, ws_visited = [], ws_Files = [], ws_Truncated = False\<rparr>"
    have "walk_ok ?s" using loadSuperblock_budget [of ld v "fst p" "snd p"] Inr by (simp add: walk_ok_def)
    from extr.walkDirectory_returns [OF this, of ld v "fst p" 2] obtain res where
      "walkDirectory (ext_read ld v) (fst p) 2 ''/'' ?s = Some res" "\<forall>s1. res = Inr s1 \<longrightarrow> walk_ok s1" by blast
    with Inr \<open>openLogicalDisk opened format = Inr ld\<close> show ?thesis
      by (cases res) (auto simp: InspectExtFilesystem_def ext_inventory_def walk_ok_def split_def list_all_iff)
  qed (use Inr in \<open>simp add: InspectExtFilesystem_def\<close>)
qed (simp add: InspectExtFilesystem_def)

section \<open>The volume is all that is read\<close>

lemma ext_read_same_inside:
  assumes "same_inside v ld ld'"
  shows "ext_read ld v = ext_read ld' v"
proof (intro ext)
  fix relative len b
  show "ext_read ld v relative len b = ext_read ld' v relative len b"
  proof (cases "vol_SizeBytes v < relative \<or> vol_SizeBytes v - relative < len \<or> vol_StartBytes v + relative < vol_StartBytes v")
    case False
    with same_inside_read [OF assms, of relative len] show ?thesis by (simp add: ext_read_def Let_def)
  qed (auto simp: ext_read_def Let_def)
qed

text \<open>
  Nothing outside the volume matters for ext either: two disks that hold the same data inside the volume give the same
  inventory, and the same content or error for every file that is read by its path.
\<close>

theorem ext_confined:
  assumes "openLogicalDisk opened format = Inr ld" "openLogicalDisk opened' format' = Inr ld'" "same_inside v ld ld'"
  shows "InspectExtFilesystem opened format v = InspectExtFilesystem opened' format' v \<and>
    ReadExtFile opened format v target = ReadExtFile opened' format' v target"
  using assms(1,2) ext_read_same_inside [OF assms(3)] by (simp add: InspectExtFilesystem_def ReadExtFile_def readExtFileWithLimit_def)

section \<open>Files and block maps\<close>

lemma map_sum_Inr: "map_sum f id m = Inr x \<longleftrightarrow> m = Inr x"
  by (cases m) auto

lemma read_parts_length:
  "read_parts (ext_read ld v) r limit current parts b = Inr data \<Longrightarrow> b \<le> maxInventoryLogicalBytes \<Longrightarrow> length data \<le> unat limit"
proof (induction parts arbitrary: current b)
  case (Cons part parts)
  from Cons.prems obtain number b1 ino b2 where *: "lookupDirectoryEntry (ext_read ld v) r current part b = Inr (number, b1)"
    "read_inode (ext_read ld v) r number b1 = Inr (ino, b2)"
    by (auto simp: bindE_Inr map_sum_Inr)
  have b: "b2 \<le> maxInventoryLogicalBytes"
    using * Cons.prems(2) by (auto simp: lookupDirectoryEntry_def bindE_Inr map_sum_Inr dest!: extr.directory_data_budget extr.read_inode_budget)
  show ?case
  proof (cases "parts = []")
    case True
    with Cons.prems(1) * obtain b3 where "\<not> limit < ei_size ino" "inodeData (ext_read ld v) r ino b2 = Inr (data, b3)"
      by (auto simp: bindE_Inr guardE_Inr map_sum_Inr)
    with extr.inodeData_counts(2) [OF this(2) b] show ?thesis by (simp add: word_less_nat_alt)
  next
    case False
    with Cons.prems(1) * b show ?thesis by (auto simp: bindE_Inr map_sum_Inr intro: Cons.IH)
  qed
qed simp

text \<open>What an extent tree may put into a block map.\<close>

definition mapped_blocks :: "extReader \<Rightarrow> nat \<Rightarrow> 64 word list \<Rightarrow> bool" where
  "mapped_blocks r n blocks \<longleftrightarrow> length blocks = n \<and> list_all (\<lambda>b. b = 0 \<or> b < er_blocksCount r) blocks"

lemma fill_blocks_mapped:
  "fill_blocks blocks i p k = Inr blocks1 \<Longrightarrow> mapped_blocks r n blocks \<Longrightarrow> unat p + k \<le> unat (er_blocksCount r) \<Longrightarrow> mapped_blocks r n blocks1"
proof (induction blocks i p k rule: fill_blocks.induct)
  case (2 blocks i p k)
  then have p: "p < er_blocksCount r" by (simp add: word_less_nat_alt)
  then have "unat (p + 1) = unat p + 1" using unsigned_less [of "er_blocksCount r", where 'a = nat] by (subst unat_add_small) (simp_all add: word_less_nat_alt)
  moreover have "mapped_blocks r n (blocks[i := p])"
    using "2.prems"(2) p by (auto simp: mapped_blocks_def list_all_iff dest: set_update_subset_insert [THEN subsetD])
  ultimately show ?case using 2 by (simp split: if_splits)
qed simp

lemma leaf_extent_mapped:
  assumes "leaf_extent r entry st = Inr st1" "mapped_blocks r n (es_blocks st)"
  shows "mapped_blocks r n (es_blocks st1)"
proof -
  let ?p = "push_bit 32 (uint64 (le16 (slice_of entry 6 8))) OR uint64 (le32 (slice_of entry 8 12)) :: 64 word" and ?len = "uint64 (le16 (slice_of entry 4 6) AND 0x7fff)"
  from assms(1) have "\<not> er_blocksCount r < ?p" "\<not> er_blocksCount r - ?p < ?len"
    and st1: "st1 = st \<or> (\<exists>i bs. fill_blocks (es_blocks st) i ?p (unat ?len) = Inr bs \<and> st1 = st\<lparr>es_blocks := bs\<rparr>)"
    by (auto simp: leaf_extent_def Let_def bindE_Inr split: if_splits)
  then have "unat ?p + unat ?len \<le> unat (er_blocksCount r)" by (simp add: not_less word_le_nat_alt unat_sub)
  with st1 assms(2) fill_blocks_mapped show ?thesis by fastforce
qed

lemma each_entry_mapped:
  assumes "\<And>e st st1. f e st = Inr st1 \<Longrightarrow> mapped_blocks r n (es_blocks st) \<Longrightarrow> mapped_blocks r n (es_blocks st1)"
  shows "each_entry f es st = Inr st1 \<Longrightarrow> mapped_blocks r n (es_blocks st) \<Longrightarrow> mapped_blocks r n (es_blocks st1)"
  by (induction es arbitrary: st) (auto simp: bindE_Inr dest: assms)

lemma parseExtentNode_mapped:
  "parseExtentNode depth rd r node st = Inr st1 \<Longrightarrow> mapped_blocks r n (es_blocks st) \<Longrightarrow> mapped_blocks r n (es_blocks st1)"
proof (induction depth arbitrary: node st st1)
  case 0
  then show ?case by (auto simp: bindE_Inr elim!: each_entry_mapped [rotated] leaf_extent_mapped)
next
  case (Suc depth)
  have "mapped_blocks r n (es_blocks st1)"
    if "index_extent rd r (parseExtentNode depth rd r) e st = Inr st1" "mapped_blocks r n (es_blocks st)" for e st st1
    using that Suc.IH by (fastforce simp: index_extent_def Let_def bindE_Inr split: if_splits)
  with Suc.prems show ?case by (auto simp: bindE_Inr elim!: each_entry_mapped [rotated])
qed

lemma extent_map_sound:
  "inodeBlocks rd r ino b = Inr (blocks, b1) \<Longrightarrow> ei_flags ino AND extentFlag \<noteq> 0 \<Longrightarrow>
   mapped_blocks r (unat (blocks_needed r (ei_size ino))) blocks"
  by (auto simp: inodeBlocks_def extentBlocks_def bindE_Inr mapped_blocks_def list_all_iff dest!: parseExtentNode_mapped)

lemma ReadExtFile_bounded:
  assumes "ReadExtFile opened format v target = Inr data"
  shows "cleanAbsolutePath target \<and> length data \<le> 1048576"
proof -
  from assms obtain ld r b where "cleanAbsolutePath target" "loadSuperblock (ext_read ld v) v = Inr (r, b)"
    "read_parts (ext_read ld v) r maxSemanticFileBytes 2 (split_slash (tl (path_Clean target))) b = Inr data"
    by (auto simp: ReadExtFile_def readExtFileWithLimit_def Let_def bindE_Inr guardE_Inr map_sum_Inr cleanAbsolutePath_def)
  with read_parts_length loadSuperblock_budget show ?thesis by (fastforce simp: maxSemanticFileBytes_def)
qed

section \<open>What a file holds\<close>

text \<open>
  The content a block map stands for: block number 0 is a hole, which reads as zeros; any other block is one of the file
  system's, and its bytes are those the disk presents at the block's place in the volume.
\<close>

definition volume_holds :: "disk_file \<Rightarrow> logicalDisk \<Rightarrow> Volume \<Rightarrow> nat \<Rightarrow> byte \<Rightarrow> bool" where
  "volume_holds f ld v p x \<longleftrightarrow> (\<exists>loc. disk_location ld (uint (vol_StartBytes v) + int p) = Inr loc \<and> x = location_byte f loc)"

definition block_holds :: "disk_file \<Rightarrow> logicalDisk \<Rightarrow> Volume \<Rightarrow> extReader \<Rightarrow> 64 word \<Rightarrow> nat \<Rightarrow> byte \<Rightarrow> bool" where
  "block_holds f ld v r block i x \<longleftrightarrow>
     (if block = 0 then x = 0 else block < er_blocksCount r \<and> volume_holds f ld v (unat block * unat (er_blockSize r) + i) x)"

definition map_holds :: "disk_file \<Rightarrow> logicalDisk \<Rightarrow> Volume \<Rightarrow> extReader \<Rightarrow> 64 word list \<Rightarrow> byte list \<Rightarrow> bool" where
  "map_holds f ld v r blocks data \<longleftrightarrow>
     (\<forall>i < length data. i div unat (er_blockSize r) < length blocks \<and>
        block_holds f ld v r (blocks ! (i div unat (er_blockSize r))) (i mod unat (er_blockSize r)) (data ! i))"

lemma map_holds_Cons:
  assumes "0 < unat (er_blockSize r)" "\<forall>i < length chunk. block_holds f ld v r block i (chunk ! i)" "length chunk \<le> unat (er_blockSize r)"
    and "data = [] \<or> length chunk = unat (er_blockSize r)" "map_holds f ld v r blocks data"
  shows "map_holds f ld v r (block # blocks) (chunk @ data)"
  unfolding map_holds_def
proof (intro allI impI)
  fix i assume i: "i < length (chunk @ data)"
  let ?bs = "unat (er_blockSize r)"
  show "i div ?bs < length (block # blocks) \<and> block_holds f ld v r ((block # blocks) ! (i div ?bs)) (i mod ?bs) ((chunk @ data) ! i)"
  proof (cases "i < length chunk")
    case True
    with assms(1-3) show ?thesis by (simp add: nth_append)
  next
    case False
    with i assms(4) have len: "length chunk = ?bs" and j: "i - ?bs < length data" "?bs \<le> i" by auto
    with assms(1) have "i div ?bs = Suc ((i - ?bs) div ?bs)" "i mod ?bs = (i - ?bs) mod ?bs"
      by (auto simp: le_div_geq le_mod_geq)
    with j len False assms(5) show ?thesis by (simp add: map_holds_def nth_append)
  qed
qed

lemma ext_read_holds:
  assumes "openLogicalDisk (Inr f) format = Inr ld" "df_size f < 2 ^ 63" "uint (vol_StartBytes v) + uint (vol_SizeBytes v) \<le> 2 ^ 63"
    and "ext_read ld v p n b = Inr (data, b1)" "i < length data"
  shows "volume_holds f ld v (unat p + i) (data ! i)"
proof -
  from assms(4) have in_vol: "\<not> vol_SizeBytes v < p" "\<not> vol_SizeBytes v - p < n" and up: "\<not> vol_StartBytes v + p < vol_StartBytes v"
    and rd: "ReadLogical ld (uint (vol_StartBytes v + p)) (uint n) = Inr data"
    by (auto simp: ext_read_def bindE_Inr guardE_Inr Let_def)
  have "uint p + uint n \<le> uint (vol_SizeBytes v)" using in_vol by (simp add: word_less_def uint_sub_if' split: if_splits)
  moreover have start: "uint (vol_StartBytes v + p) = uint (vol_StartBytes v) + uint p"
    using up uint_lt2p [of p] by (simp add: word_less_def uint_plus_if' split: if_splits)
  ultimately have "presents f ld (uint (vol_StartBytes v + p)) data"
    using ReadLogical_sound [OF assms(1,2) _ _ _ rd] assms(3) by simp
  with assms(5) start show ?thesis by (auto simp: presents_def volume_holds_def add.assoc)
qed

text \<open>The geometry a superblock is accepted with.\<close>

lemma superblock_geometry:
  assumes "loadSuperblock rd v = Inr (r, b)"
  shows "0 < unat (er_blockSize r) \<and> (unat (er_blocksCount r) - 1) * unat (er_blockSize r) \<le> unat (vol_SizeBytes v)"
proof -
  from assms obtain logBlock :: "32 word" where log: "\<not> 6 < logBlock" "er_blockSize r = push_bit (unat logBlock) 1024"
    and count: "er_blocksCount r \<le> vol_SizeBytes v div er_blockSize r + 1"
    by (auto simp: loadSuperblock_def bindE_Inr guardE_Inr Let_def not_less)
  then have "unat logBlock \<in> {0, 1, 2, 3, 4, 5, 6}" by (auto simp: not_less word_le_nat_alt)
  with log(2) have size: "0 < unat (er_blockSize r)" by (auto simp: push_bit_eq_mult)
  have "unat (er_blocksCount r) \<le> unat (vol_SizeBytes v) div unat (er_blockSize r) + 1"
    using count mod_less_eq_dividend le_trans by (fastforce simp: word_le_nat_alt unat_word_ariths unat_div)
  then have "(unat (er_blocksCount r) - 1) * unat (er_blockSize r) \<le> unat (vol_SizeBytes v) div unat (er_blockSize r) * unat (er_blockSize r)"
    by (intro mult_le_mono1) simp
  with size show ?thesis using div_times_less_eq_dividend le_trans by blast
qed

lemma data_loop_holds:
  assumes disk: "openLogicalDisk (Inr f) format = Inr ld" "df_size f < 2 ^ 63" "uint (vol_StartBytes v) + uint (vol_SizeBytes v) \<le> 2 ^ 63"
    and geometry: "0 < unat (er_blockSize r)" "(unat (er_blocksCount r) - 1) * unat (er_blockSize r) \<le> unat (vol_SizeBytes v)"
  shows "data_loop (ext_read ld v) r blocks remaining b = Inr ((data, left), b1) \<Longrightarrow> b \<le> maxInventoryLogicalBytes \<Longrightarrow> map_holds f ld v r blocks data"
proof (induction blocks arbitrary: remaining b data)
  case (Cons block blocks)
  show ?case
  proof (cases "remaining = 0")
    case False
    let ?len = "min remaining (er_blockSize r)"
    from Cons.prems(1) False obtain chunk b2 rest where *:
      "(if block = 0 then Inr (replicate (unat ?len) 0, b)
        else if er_blocksCount r \<le> block then Inl (CorruptFilesystem ''inode references block outside filesystem'')
        else ext_read ld v (block * er_blockSize r) ?len b) = Inr (chunk, b2)"
      "data_loop (ext_read ld v) r blocks (remaining - ?len) b2 = Inr ((rest, left), b1)" "data = chunk @ rest"
      by (auto simp: Let_def bindE_Inr)
    then have b2: "b2 \<le> maxInventoryLogicalBytes" "length chunk = unat ?len"
      using Cons.prems(2) by (auto split: if_splits dest!: extr.read_counts)
    have "block_holds f ld v r block i (chunk ! i)" if i: "i < length chunk" for i
    proof (cases "block = 0")
      case False
      with * have inside: "block < er_blocksCount r" and rd: "ext_read ld v (block * er_blockSize r) ?len b = Inr (chunk, b2)" by (auto split: if_splits)
      from inside have "unat block \<le> unat (er_blocksCount r) - 1" by (simp add: word_less_nat_alt)
      then have "unat block * unat (er_blockSize r) \<le> unat (vol_SizeBytes v)" using geometry(2) mult_le_mono1 le_trans by blast
      then have "unat (block * er_blockSize r) = unat block * unat (er_blockSize r)"
        using unsigned_less [of "vol_SizeBytes v", where 'a = nat] by (intro unat_mult_small) simp
      with ext_read_holds [OF disk rd i] False inside show ?thesis by (simp add: block_holds_def)
    qed (use * i in \<open>auto simp: block_holds_def\<close>)
    moreover have "rest = [] \<or> length chunk = unat (er_blockSize r)"
      using extr.data_loop_counts [OF *(2) b2(1)] b2(2) by (auto simp: min_def split: if_splits)
    moreover have "length chunk \<le> unat (er_blockSize r)" using b2(2) by (simp add: min_def word_le_nat_alt)
    ultimately show ?thesis using map_holds_Cons [OF geometry(1)] Cons.IH [OF *(2) b2(1)] *(3) by blast
  qed (use Cons in \<open>auto simp: map_holds_def\<close>)
qed (simp add: map_holds_def)

text \<open>
  C35: A file of an ext volume is read as the disk presents it: when the data of an inode is read, it has the length the
  inode states, and every byte is the one the block map places there, zero in a hole and otherwise the byte the disk
  presents at that place of a block inside the file system.
\<close>

theorem ext_file_content:
  assumes "openLogicalDisk (Inr f) format = Inr ld" "df_size f < 2 ^ 63" "uint (vol_StartBytes v) + uint (vol_SizeBytes v) \<le> 2 ^ 63"
    and "loadSuperblock (ext_read ld v) v = Inr (r, b0)"
    and "inodeData (ext_read ld v) r ino b = Inr (data, b2)" "b \<le> maxInventoryLogicalBytes"
  shows "\<exists>blocks b1. inodeBlocks (ext_read ld v) r ino b = Inr (blocks, b1) \<and> length data = unat (ei_size ino) \<and> map_holds f ld v r blocks data"
proof -
  from assms(5) obtain blocks b1 left where blocks: "inodeBlocks (ext_read ld v) r ino b = Inr (blocks, b1)"
    and loop: "data_loop (ext_read ld v) r blocks (ei_size ino) b1 = Inr ((data, left), b2)"
    by (auto simp: inodeData_def bindE_Inr)
  have "b1 \<le> maxInventoryLogicalBytes" using extr.inodeBlocks_budget [OF blocks assms(6)] .
  with blocks extr.inodeData_counts(2) [OF assms(5,6)] data_loop_holds [OF assms(1-3) _ _ loop] superblock_geometry [OF assms(4)]
  show ?thesis by auto
qed

section \<open>Examples\<close>

text \<open>
  A volume of six blocks with one file \<^verbatim>\<open>/a\<close> of two bytes that an extent maps; the second image goes on behind the volume.
\<close>

definition ext_bytes :: "int \<Rightarrow> byte" where
  "ext_bytes p =
     (case map_of [(1024, 16), (1028, 6), (1044, 1), (1056, 8), (1064, 16), (1080, 0x53), (1081, 0xef), (1112, 128), (1120, 0x40),
        (2056, 3), (3200, 0xed), (3201, 0x41), (3204, 24), (3240, 4), (3328, 0xa4), (3329, 0x81), (3332, 2), (3362, 8),
        (3368, 0x0a), (3369, 0xf3), (3370, 1), (3372, 4), (3384, 1), (3388, 5),
        (4096, 3), (4100, 24), (4102, 1), (4104, 0x61), (5120, 0x68), (5121, 0x69)] p of
        Some b \<Rightarrow> b | None \<Rightarrow> if 6144 \<le> p then 0xee else 0)"

abbreviation ext_image :: "int \<Rightarrow> disk_file" where
  "ext_image \<equiv> image_of ext_bytes"

definition ext_volume :: Volume where
  "ext_volume = mbrVolume 0 ''primary'' 0 \<lparr>bootFlag = 0, typeByte = 0x83, startLBA = 0, sectors = 12\<rparr>"

lemma ext_volume_simps [simp]: "vol_SizeBytes ext_volume = 6144" "vol_StartBytes ext_volume = 0"
  by (simp_all add: ext_volume_def mbrVolume_def)

abbreviation ext_rd :: volume_reader where
  "ext_rd \<equiv> ext_read (rawLogicalDisk (ext_image 6144)) ext_volume"

lemma example_ext_read:
  assumes "p + n \<le> 6144" "n \<le> 6144" "p \<le> 6144" "b \<le> 1000000"
  shows "ext_rd p n b = Inr (file_bytes (ext_image 6144) (uint p) (uint n), b + n)"
proof -
  have *: "unat p \<le> 6144" "unat n \<le> 6144" "unat b \<le> 1000000" using assms by (simp_all add: word_le_nat_alt)
  then have "unat p + unat n \<le> 6144" using assms(1) by (simp add: word_le_nat_alt unat_add_small)
  with * have "\<not> 6144 < p" "\<not> 6144 - p < n" "\<not> maxInventoryLogicalBytes < n" "\<not> maxInventoryLogicalBytes - n < b"
    by (simp_all add: word_less_nat_alt unat_sub word_le_nat_alt maxInventoryLogicalBytes_def)
  moreover have "uint n \<le> maxMappedRegionSize" "uint p < 2 ^ 63" "uint p + uint n < 2 ^ 63"
    using assms(2,3) by (simp_all add: word_le_def maxMappedRegionSize_def)
  ultimately show ?thesis by (simp add: ext_read_def Let_def guardE_def image_of_read del: ReadLogical.simps)
qed

lemmas ext_example_simps = Let_def file_bytes_slice file_bytes_drop image_of_byte ext_bytes_def be16LE_def le32_def example_ext_read

definition ext_geometry :: extReader where
  "ext_geometry = \<lparr>er_blockSize = 1024, er_inodesCount = 16, er_blocksCount = 6, er_blocksPerGroup = 8, er_inodesPerGroup = 16,
     er_inodeSize = 128, er_firstDataBlock = 1, er_featureCompat = 0, er_featureIncompat = 0x40, er_descriptorSize = 32, er_filesystem = ''ext4''\<rparr>"

lemma example_superblock: "loadSuperblock ext_rd ext_volume = Inr (ext_geometry, 1024)"
  by (simp add: loadSuperblock_def ext_example_simps ext_flavour_def ext_geometry_def)

definition directory_inode :: extInode where
  "directory_inode = \<lparr>ei_number = 2, ei_mode = 0x41ed, ei_uid = 0, ei_gid = 0, ei_size = 24, ei_flags = 0, ei_blocks = file_bytes (ext_image 6144) 3240 60, ei_xattrs = False\<rparr>"

definition file_inode :: extInode where
  "file_inode = \<lparr>ei_number = 3, ei_mode = 0x81a4, ei_uid = 0, ei_gid = 0, ei_size = 2, ei_flags = extentFlag, ei_blocks = file_bytes (ext_image 6144) 3368 60, ei_xattrs = False\<rparr>"

lemma example_inodes:
  "read_inode ext_rd ext_geometry 2 1024 = Inr (directory_inode, 1184)"
  "read_inode ext_rd ext_geometry 3 1208 = Inr (file_inode, 1368)"
  by (simp_all add: read_inode_def descriptor_offset_def inode_table_def decode_inode_def mode_type_def ext_geometry_def ext_example_simps
      directory_inode_def file_inode_def extentFlag_def)

lemma example_directory_data: "directory_data ext_rd ext_geometry 2 1024 = Inr (file_bytes (ext_image 6144) 4096 24, 1208)"
  by (simp add: directory_data_def example_inodes)
    (simp add: mode_type_def inodeData_def inodeBlocks_def blocks_needed_def pointers_def
      directory_inode_def extentFlag_def ext_geometry_def ext_example_simps maxInventoryLogicalBytes_def)

lemma example_file_blocks: "inodeBlocks ext_rd ext_geometry file_inode 1368 = Inr ([5], 1368)"
  by (simp add: inodeBlocks_def extentBlocks_def blocks_needed_def file_inode_def extentFlag_def ext_geometry_def ext_example_simps
      node_depth_def check_node_def extentMagic_def node_entries_def leaf_extent_def)

lemma example_file_data: "inodeData ext_rd ext_geometry file_inode 1368 = Inr ([0x68, 0x69], 1370)"
proof -
  have "file_bytes (ext_image 6144) 5120 2 = [0x68, 0x69]"
    by (simp add: file_bytes_def upt_conv_Cons image_of_byte ext_bytes_def)
  then show ?thesis
    by (simp add: inodeData_def example_file_blocks) (simp add: file_inode_def ext_geometry_def ext_example_simps maxInventoryLogicalBytes_def)
qed

text \<open>Reading the file by its path; listing the volume.\<close>

lemma example_record:
  "\<not> bad_record (file_bytes (ext_image 6144) 4096 24)" "record_name (file_bytes (ext_image 6144) 4096 24) = ''a''"
  "record_rest (file_bytes (ext_image 6144) 4096 24) = []" "le32 (slice_of (file_bytes (ext_image 6144) 4096 24) 0 4) = 3"
proof -
  have "file_bytes (ext_image 6144) 4104 1 = [0x61]" by (simp add: file_bytes_def image_of_byte ext_bytes_def)
  moreover have "go_string [0x61] = ''a''" by code_simp
  ultimately show "record_name (file_bytes (ext_image 6144) 4096 24) = ''a''"
    by (simp add: record_name_def ext_example_simps)
qed (simp_all add: bad_record_def record_rest_def ext_example_simps)

lemma example_ReadExtFile: "ReadExtFile (Inr (ext_image 6144)) FormatRAW ext_volume ''/a'' = Inr [0x68, 0x69]"
proof -
  have "path_Clean ''/a'' = ''/a''" "split_slash ''a'' = [''a'']" by code_simp+
  moreover have "lookupDirectoryEntry ext_rd ext_geometry 2 ''a'' 1024 = Inr (3, 1208)"
    by (simp add: lookupDirectoryEntry_def example_directory_data unsafe_directory_name_def lookup_records.simps [of "file_bytes _ _ _"] example_record)
      (simp add: file_bytes_def)
  moreover have "mode_type (ei_mode file_inode) = 0x8000" "ei_size file_inode = 2" by (simp_all add: file_inode_def mode_type_def)
  ultimately show ?thesis
    by (simp add: ReadExtFile_def readExtFileWithLimit_def image_of_open example_superblock has_prefix_def example_inodes example_file_data maxSemanticFileBytes_def)
qed

theorem ext_file_content_witness:
  "length [0x68, 0x69 :: byte] = unat (ei_size file_inode) \<and> map_holds (ext_image 6144) (rawLogicalDisk (ext_image 6144)) ext_volume ext_geometry [5] [0x68, 0x69]"
  using ext_file_content [OF image_of_open _ _ example_superblock example_file_data] example_file_blocks
  by (simp add: image_of_def maxInventoryLogicalBytes_def)

theorem ext_confined_witness:
  "InspectExtFilesystem (Inr (ext_image 7000)) FormatRAW ext_volume = InspectExtFilesystem (Inr (ext_image 6144)) FormatRAW ext_volume \<and>
   ReadExtFile (Inr (ext_image 7000)) FormatRAW ext_volume ''/a'' = Inr [0x68, 0x69] \<and>
   file_byte (ext_image 7000) 6144 \<noteq> file_byte (ext_image 6144) 6144"
proof -
  have "file_byte (ext_image 7000) 6144 \<noteq> file_byte (ext_image 6144) 6144" by (simp add: file_byte_def image_of_def ext_bytes_def)
  then show ?thesis
    using ext_confined [OF image_of_open image_of_open image_of_same_inside, of ext_volume 7000 6144 ext_bytes "''/a''"] by (simp add: example_ReadExtFile)
qed

end
