(* ===== verification/Run_Budget.thy ===== *)
theory Run_Budget
  imports Go_Int
begin

text \<open>
  Resource budgets of \<^verbatim>\<open>internal/budget\<close>: a tracker compares the wall clock, the CPU time and the memory of the process
  with limits, a manager adds up trackers and finished stages, and \<^verbatim>\<open>WaitWithBudget\<close> runs a function beside a
  goroutine that checks the tracker on every tick and cancels the function's context. Methods of a tracker hold its
  mutex, so each is one step; \<^verbatim>\<open>WaitWithBudget\<close> is a step relation over their interleavings. What the clocks show is an
  argument of the operation that reads them.
\<close>

section \<open>Trackers\<close>

text \<open>\<open>ResourceNone\<close> is the empty string of \<^verbatim>\<open>ResourceType\<close>.\<close>

datatype ResourceType = ResourceNone | ResourceTypeWallClock | ResourceTypeCPU | ResourceTypeMemory

record Budget =
  bu_WallClock :: int
  bu_CPU :: int
  bu_Memory :: int

definition IsZero :: "Budget \<Rightarrow> bool" where
  "IsZero b \<longleftrightarrow> bu_WallClock b = 0 \<and> bu_CPU b = 0 \<and> bu_Memory b = 0"

record Tracker =
  tr_budget :: Budget
  tr_startTime :: int
  tr_wallClockExceeded :: bool
  tr_startCPU :: int
  tr_cpuExceeded :: bool
  tr_peakMemory :: int
  tr_memoryExceeded :: bool
  tr_active :: bool
  tr_canceled :: bool
  tr_canceledBy :: ResourceType
  tr_cancelFunc :: bool

text \<open>
  A reading of the clocks and of the heap: \<^verbatim>\<open>time.Now\<close> in nanoseconds, \<^verbatim>\<open>cpuTime\<close> and \<^verbatim>\<open>currentMemory\<close>. The difference of
  two times saturates, that of two durations wraps around.
\<close>

record reading =
  rd_now :: int
  rd_cpu :: int
  rd_memory :: int

definition Since :: "reading \<Rightarrow> int \<Rightarrow> int" where
  "Since rd start = max (- (2 ^ 63)) (min MaxInt64 (rd_now rd - start))"

definition NewTracker :: "Budget \<Rightarrow> reading \<Rightarrow> Tracker" where
  "NewTracker b rd =
     \<lparr>tr_budget = b, tr_startTime = rd_now rd, tr_wallClockExceeded = False, tr_startCPU = rd_cpu rd, tr_cpuExceeded = False,
      tr_peakMemory = rd_memory rd, tr_memoryExceeded = False, tr_active = True, tr_canceled = False, tr_canceledBy = ResourceNone,
      tr_cancelFunc = False\<rparr>"

definition Start :: "reading \<Rightarrow> Tracker \<Rightarrow> Tracker" where
  "Start rd t =
     t\<lparr>tr_active := True, tr_startTime := rd_now rd, tr_startCPU := rd_cpu rd, tr_peakMemory := rd_memory rd,
       tr_wallClockExceeded := False, tr_cpuExceeded := False, tr_memoryExceeded := False, tr_canceled := False\<rparr>"

definition Stop :: "Tracker \<Rightarrow> Tracker" where
  "Stop t = t\<lparr>tr_active := False\<rparr>"

definition Check :: "reading \<Rightarrow> Tracker \<Rightarrow> (ResourceType \<times> bool) \<times> Tracker" where
  "Check rd t =
     (if tr_canceled t \<or> \<not> tr_active t then ((ResourceNone, False), t)
      else if 0 < bu_WallClock (tr_budget t) \<and> \<not> tr_wallClockExceeded t \<and> bu_WallClock (tr_budget t) \<le> Since rd (tr_startTime t)
        then ((ResourceTypeWallClock, True), t\<lparr>tr_wallClockExceeded := True\<rparr>)
      else if 0 < bu_CPU (tr_budget t) \<and> \<not> tr_cpuExceeded t \<and> bu_CPU (tr_budget t) \<le> i64 (rd_cpu rd - tr_startCPU t)
        then ((ResourceTypeCPU, True), t\<lparr>tr_cpuExceeded := True\<rparr>)
      else if 0 < bu_Memory (tr_budget t) \<and> \<not> tr_memoryExceeded t then
        let t1 = t\<lparr>tr_peakMemory := max (tr_peakMemory t) (rd_memory rd)\<rparr> in
        if bu_Memory (tr_budget t) < rd_memory rd then ((ResourceTypeMemory, True), t1\<lparr>tr_memoryExceeded := True\<rparr>)
        else ((ResourceNone, False), t1)
      else ((ResourceNone, False), t))"

text \<open>
  \<^verbatim>\<open>CheckAndCancel\<close> takes the lock again after \<^verbatim>\<open>Check\<close>. The second part says whether it starts a goroutine that calls the
  cancel function.
\<close>

definition mark_canceled :: "ResourceType \<Rightarrow> Tracker \<Rightarrow> bool \<times> Tracker" where
  "mark_canceled resource t =
     (if \<not> tr_canceled t \<and> tr_cancelFunc t then (True, t\<lparr>tr_canceled := True, tr_canceledBy := resource\<rparr>)
      else if \<not> tr_canceled t then (False, t\<lparr>tr_canceled := True, tr_canceledBy := resource\<rparr>)
      else (False, t))"

definition CheckAndCancel :: "reading \<Rightarrow> Tracker \<Rightarrow> (ResourceType \<times> bool) \<times> bool \<times> Tracker" where
  "CheckAndCancel rd t =
     (case Check rd t of ((resource, exceeded), t1) \<Rightarrow>
        if exceeded then ((resource, exceeded), mark_canceled resource t1) else ((resource, exceeded), False, t1))"

definition Cancel :: "Tracker \<Rightarrow> Tracker" where
  "Cancel t = t\<lparr>tr_canceled := True, tr_active := False\<rparr>"

definition WallClockElapsed :: "reading \<Rightarrow> Tracker \<Rightarrow> int" where
  "WallClockElapsed rd t = (if tr_active t then Since rd (tr_startTime t) else 0)"

definition CPUElapsed :: "reading \<Rightarrow> Tracker \<Rightarrow> int" where
  "CPUElapsed rd t = (if tr_active t then i64 (rd_cpu rd - tr_startCPU t) else 0)"

definition UpdateMemory :: "reading \<Rightarrow> Tracker \<Rightarrow> Tracker" where
  "UpdateMemory rd t = t\<lparr>tr_peakMemory := max (tr_peakMemory t) (rd_memory rd)\<rparr>"

record BudgetExceededError =
  be_Resource :: ResourceType
  be_Budget :: Budget
  be_Actual :: int
  be_Memory :: int

section \<open>The usage of a process and of a stage\<close>

record Rusage =
  ru_utime_sec :: int
  ru_utime_usec :: int
  ru_stime_sec :: int
  ru_stime_usec :: int
  ru_maxrss :: int

record StageUsage =
  su_CPU :: int
  su_PeakRSS :: int

definition cpuTime :: "Rusage option \<Rightarrow> int" where
  "cpuTime usage =
     (case usage of None \<Rightarrow> 0 | Some r \<Rightarrow> i64 (i64 (ru_utime_sec r * 1000000000) + i64 (ru_utime_usec r * 1000)))"

definition FromProcessState :: "Rusage option \<Rightarrow> StageUsage" where
  "FromProcessState usage =
     (case usage of
        None \<Rightarrow> \<lparr>su_CPU = 0, su_PeakRSS = 0\<rparr>
      | Some r \<Rightarrow>
          \<lparr>su_CPU = i64 (i64 (i64 (ru_utime_sec r + ru_stime_sec r) * 1000000000) + i64 (i64 (ru_utime_usec r + ru_stime_usec r) * 1000)),
           su_PeakRSS = i64 (ru_maxrss r * 1024)\<rparr>)"

section \<open>The manager\<close>

text \<open>
  The trackers of a manager in the order they were created. Each is locked and read on its own, so a total takes one reading
  per tracker.
\<close>

record Manager =
  ma_trackers :: "Tracker list"
  ma_stageCPU :: int
  ma_stagePeakRSS :: int

definition NewManager :: Manager where
  "NewManager = \<lparr>ma_trackers = [], ma_stageCPU = 0, ma_stagePeakRSS = 0\<rparr>"

definition CreateTracker :: "Budget \<Rightarrow> reading \<Rightarrow> Manager \<Rightarrow> Manager" where
  "CreateTracker b rd m = m\<lparr>ma_trackers := ma_trackers m @ [NewTracker b rd]\<rparr>"

definition AddStageUsage :: "StageUsage \<Rightarrow> Manager \<Rightarrow> Manager" where
  "AddStageUsage u m =
     m\<lparr>ma_stageCPU := i64 (ma_stageCPU m + su_CPU u), ma_stagePeakRSS := max (ma_stagePeakRSS m) (su_PeakRSS u)\<rparr>"

definition TotalWallClock :: "reading list \<Rightarrow> Manager \<Rightarrow> int" where
  "TotalWallClock rds m = foldl (\<lambda>total (rd, t). i64 (total + WallClockElapsed rd t)) 0 (zip rds (ma_trackers m))"

definition TotalCPU :: "reading list \<Rightarrow> Manager \<Rightarrow> int" where
  "TotalCPU rds m = foldl (\<lambda>total (rd, t). i64 (total + CPUElapsed rd t)) (ma_stageCPU m) (zip rds (ma_trackers m))"

definition PeakMemory :: "Manager \<Rightarrow> int" where
  "PeakMemory m = foldl (\<lambda>peak t. if peak < tr_peakMemory t then tr_peakMemory t else peak) (ma_stagePeakRSS m) (ma_trackers m)"

fun check_trackers :: "reading list \<Rightarrow> Tracker list \<Rightarrow> (ResourceType \<times> bool) \<times> Tracker list" where
  "check_trackers (rd # rds) (t # ts) =
     (case Check rd t of ((resource, exceeded), t1) \<Rightarrow>
        if exceeded then ((resource, True), t1 # ts)
        else case check_trackers rds ts of (answer, ts1) \<Rightarrow> (answer, t1 # ts1))"
| "check_trackers _ ts = ((ResourceNone, False), ts)"

definition CheckAll :: "reading list \<Rightarrow> Manager \<Rightarrow> (ResourceType \<times> bool) \<times> Manager" where
  "CheckAll rds m = (case check_trackers rds (ma_trackers m) of (answer, ts) \<Rightarrow> (answer, m\<lparr>ma_trackers := ts\<rparr>))"

definition CancelAll :: "Manager \<Rightarrow> Manager" where
  "CancelAll m = m\<lparr>ma_trackers := map Cancel (ma_trackers m)\<rparr>"

section \<open>Running a function with a budget\<close>

text \<open>
  The goroutine of \<^verbatim>\<open>ContextWithBudget\<close>: waiting for the next tick or the end of the context; having found a resource exceeded
  and about to mark the tracker; about to sample the memory; or ended.
\<close>

datatype watcher = Waiting | Found ResourceType | Sampling | Ended

text \<open>
  \<^verbatim>\<open>WaitWithBudget\<close> itself: the context exists; the function runs; it returned and the tracker is looked at; the second look;
  the error is being built; returned; the deferred cancel has run. \<open>Own\<close> is the function's own result.
\<close>

datatype 'e outcome = Own 'e | Exceeded BudgetExceededError

datatype 'e caller = Created | Running | Returning 'e | Suspecting 'e | Reporting | Returned "'e outcome" | Exited "'e outcome"

record 'e wait_state =
  wa_tracker :: Tracker
  wa_done :: bool
  wa_cancelling :: bool
  wa_watcher :: watcher
  wa_caller :: "'e caller"

text \<open>\<^verbatim>\<open>ContextWithBudget\<close> returns with the tracker created, the cancel function set and the goroutine started.\<close>

definition ContextWithBudget :: "Budget \<Rightarrow> bool \<Rightarrow> reading \<Rightarrow> 'e wait_state" where
  "ContextWithBudget b parentDone rd =
     \<lparr>wa_tracker = (NewTracker b rd)\<lparr>tr_cancelFunc := True\<rparr>, wa_done = parentDone, wa_cancelling = False, wa_watcher = Waiting, wa_caller = Created\<rparr>"

datatype 'e event =
  Tick reading | Mark | Sample reading | WatcherDone | CancelRuns | ParentDone
| Begin reading | Returns 'e | FirstLook | SecondLook | Report reading | Deferred

inductive wait_step :: "Budget \<Rightarrow> 'e wait_state \<Rightarrow> 'e event \<Rightarrow> 'e wait_state \<Rightarrow> bool" for b where
  tick: "wa_watcher s = Waiting \<Longrightarrow> Check rd (wa_tracker s) = ((resource, exceeded), t) \<Longrightarrow>
    wait_step b s (Tick rd) (s\<lparr>wa_tracker := t, wa_watcher := (if exceeded then Found resource else Sampling)\<rparr>)"
| mark: "wa_watcher s = Found resource \<Longrightarrow> mark_canceled resource (wa_tracker s) = (start, t) \<Longrightarrow>
    wait_step b s Mark (s\<lparr>wa_tracker := t, wa_cancelling := wa_cancelling s \<or> start, wa_watcher := Ended\<rparr>)"
| sample: "wa_watcher s = Sampling \<Longrightarrow>
    wait_step b s (Sample rd) (s\<lparr>wa_tracker := UpdateMemory rd (wa_tracker s), wa_watcher := Waiting\<rparr>)"
| watcher_done: "wa_watcher s = Waiting \<Longrightarrow> wa_done s \<Longrightarrow> wait_step b s WatcherDone (s\<lparr>wa_watcher := Ended\<rparr>)"
| cancel_runs: "wa_cancelling s \<Longrightarrow> wait_step b s CancelRuns (s\<lparr>wa_done := True, wa_cancelling := False\<rparr>)"
| parent_done: "wait_step b s ParentDone (s\<lparr>wa_done := True\<rparr>)"
| begins: "wa_caller s = Created \<Longrightarrow> wait_step b s (Begin rd) (s\<lparr>wa_tracker := Start rd (wa_tracker s), wa_caller := Running\<rparr>)"
| returns: "wa_caller s = Running \<Longrightarrow> wait_step b s (Returns e) (s\<lparr>wa_caller := Returning e\<rparr>)"
| first_look: "wa_caller s = Returning e \<Longrightarrow>
    wait_step b s FirstLook (s\<lparr>wa_caller := (if tr_canceled (wa_tracker s) \<or> wa_done s then Suspecting e else Returned (Own e))\<rparr>)"
| second_look: "wa_caller s = Suspecting e \<Longrightarrow>
    wait_step b s SecondLook (s\<lparr>wa_caller := (if tr_canceled (wa_tracker s) then Reporting else Returned (Own e))\<rparr>)"
| report: "wa_caller s = Reporting \<Longrightarrow>
    wait_step b s (Report rd) (s\<lparr>wa_caller := Returned (Exceeded \<lparr>be_Resource = tr_canceledBy (wa_tracker s), be_Budget = b,
      be_Actual = WallClockElapsed rd (wa_tracker s), be_Memory = tr_peakMemory (wa_tracker s)\<rparr>)\<rparr>)"
| deferred: "wa_caller s = Returned out \<Longrightarrow>
    wait_step b s Deferred (s\<lparr>wa_done := True, wa_tracker := Stop (wa_tracker s), wa_caller := Exited out\<rparr>)"

text \<open>The runs of \<^verbatim>\<open>WaitWithBudget\<close>, with what happened in order.\<close>

inductive WaitWithBudget :: "Budget \<Rightarrow> bool \<Rightarrow> 'e event list \<Rightarrow> 'e wait_state \<Rightarrow> bool" for b parentDone where
  created: "WaitWithBudget b parentDone [] (ContextWithBudget b parentDone rd)"
| stepped: "WaitWithBudget b parentDone evs s \<Longrightarrow> wait_step b s ev s1 \<Longrightarrow> WaitWithBudget b parentDone (evs @ [ev]) s1"

definition outcome_of :: "'e wait_state \<Rightarrow> 'e outcome option" where
  "outcome_of s = (case wa_caller s of Returned out \<Rightarrow> Some out | Exited out \<Rightarrow> Some out | _ \<Rightarrow> None)"

section \<open>What a check reports\<close>

text \<open>The limits as the documentation of \<^verbatim>\<open>Budget\<close> states them, and which resources were reported before.\<close>

fun exceeds :: "reading \<Rightarrow> Tracker \<Rightarrow> ResourceType \<Rightarrow> bool" where
  "exceeds rd t ResourceNone = False"
| "exceeds rd t ResourceTypeWallClock = (0 < bu_WallClock (tr_budget t) \<and> bu_WallClock (tr_budget t) \<le> Since rd (tr_startTime t))"
| "exceeds rd t ResourceTypeCPU = (0 < bu_CPU (tr_budget t) \<and> bu_CPU (tr_budget t) \<le> i64 (rd_cpu rd - tr_startCPU t))"
| "exceeds rd t ResourceTypeMemory = (0 < bu_Memory (tr_budget t) \<and> bu_Memory (tr_budget t) < rd_memory rd)"

fun reported :: "Tracker \<Rightarrow> ResourceType \<Rightarrow> bool" where
  "reported t ResourceNone = False"
| "reported t ResourceTypeWallClock = tr_wallClockExceeded t"
| "reported t ResourceTypeCPU = tr_cpuExceeded t"
| "reported t ResourceTypeMemory = tr_memoryExceeded t"

definition all_resources :: "ResourceType list" where
  "all_resources = [ResourceTypeWallClock, ResourceTypeCPU, ResourceTypeMemory]"

definition first_exceeded :: "reading \<Rightarrow> Tracker \<Rightarrow> ResourceType option" where
  "first_exceeded rd t =
     (if tr_canceled t \<or> \<not> tr_active t then None else find (\<lambda>r. exceeds rd t r \<and> \<not> reported t r) all_resources)"

lemma Check_first_exceeded:
  "fst (Check rd t) = (case first_exceeded rd t of None \<Rightarrow> (ResourceNone, False) | Some r \<Rightarrow> (r, True))"
  by (auto simp: Check_def first_exceeded_def all_resources_def Let_def)

lemma Check_reported:
  "reported (snd (Check rd t)) r \<longleftrightarrow> reported t r \<or> fst (Check rd t) = (r, True)"
  by (cases r) (auto simp: Check_def Let_def)

lemma Check_found:
  "Check rd t = ((r, True), t1) \<Longrightarrow> exceeds rd t r \<and> \<not> reported t r \<and> r \<in> set all_resources"
  by (auto simp: Check_def Let_def all_resources_def split: if_splits)

lemma Check_keeps:
  "tr_budget (snd (Check rd t)) = tr_budget t" "tr_canceled (snd (Check rd t)) = tr_canceled t" "tr_active (snd (Check rd t)) = tr_active t"
  "tr_canceledBy (snd (Check rd t)) = tr_canceledBy t" "tr_cancelFunc (snd (Check rd t)) = tr_cancelFunc t"
  "tr_peakMemory t \<le> tr_peakMemory (snd (Check rd t))"
  by (simp_all add: Check_def Let_def)

text \<open>What a series of checks reports.\<close>

fun reports :: "reading list \<Rightarrow> Tracker \<Rightarrow> ResourceType list" where
  "reports [] t = []"
| "reports (rd # rds) t =
     (case Check rd t of ((r, exceeded), t1) \<Rightarrow> if exceeded then r # reports rds t1 else reports rds t1)"

lemma reports_fresh: "r \<in> set (reports rds t) \<Longrightarrow> \<not> reported t r \<and> r \<in> set all_resources"
proof (induction rds arbitrary: t)
  case (Cons rd rds)
  obtain q x t1 where c: "Check rd t = ((q, x), t1)" by (metis surj_pair)
  from Cons c have "r = q \<and> x \<or> r \<in> set (reports rds t1)" by (auto split: if_splits)
  with Cons.IH [of t1] Check_found [of rd t q t1] Check_reported [of rd t r] c show ?case by auto
qed simp

text \<open>
  A check reports the first resource, in the order wall clock, CPU and memory, whose limit is set, reached and was not
  reported before, unless the tracker is stopped or canceled. So a series of checks names every resource at most once, and
  a resource that one caller was told about is never reported to another.
\<close>

theorem budget_check_reports:
  "fst (Check rd t) = (case first_exceeded rd t of None \<Rightarrow> (ResourceNone, False) | Some r \<Rightarrow> (r, True)) \<and>
   distinct (reports rds t) \<and> length (reports rds t) \<le> 3"
proof -
  have d: "distinct (reports rds t)"
  proof (induction rds arbitrary: t)
    case (Cons rd rds)
    obtain q x t1 where c: "Check rd t = ((q, x), t1)" by (metis surj_pair)
    with Check_reported [of rd t q] Cons.IH [of t1] reports_fresh [of q rds t1] show ?case by auto
  qed simp
  have "set (reports rds t) \<subseteq> set all_resources" using reports_fresh by blast
  then have "card (set (reports rds t)) \<le> card (set all_resources)" by (intro card_mono) auto
  with d show ?thesis by (simp add: Check_first_exceeded distinct_card) (simp add: all_resources_def)
qed

text \<open>So a context is never canceled for a limit that a plain check reported first.\<close>

lemma reported_never_cancels:
  assumes "Check rd t = ((r, True), t1)" "\<And>q. q \<noteq> r \<Longrightarrow> \<not> exceeds rd' t1 q"
  shows "CheckAndCancel rd' t1 = ((ResourceNone, False), False, snd (Check rd' t1))"
proof -
  have "reported t1 r" using Check_reported [of rd t r] assms(1) by simp
  then have "exceeds rd' t1 q \<Longrightarrow> reported t1 q" for q using assms(2) by metis
  then have "first_exceeded rd' t1 = None" by (auto simp: first_exceeded_def find_None_iff)
  with Check_first_exceeded [of rd' t1] show ?thesis by (auto simp: CheckAndCancel_def split: prod.splits)
qed

section \<open>Runs of \<^verbatim>\<open>WaitWithBudget\<close>\<close>

text \<open>A tick that found the resource over its limit, at the place where it stands in the run.\<close>

definition found_at :: "Budget \<Rightarrow> bool \<Rightarrow> 'e event list \<Rightarrow> ResourceType \<Rightarrow> bool" where
  "found_at b parentDone evs r \<longleftrightarrow>
     (\<exists>pre rd post s. evs = pre @ Tick rd # post \<and> WaitWithBudget b parentDone pre s \<and> tr_budget (wa_tracker s) = b \<and> exceeds rd (wa_tracker s) r)"

lemma found_at_append: "found_at b p evs r \<Longrightarrow> found_at b p (evs @ more_evs) r"
  unfolding found_at_def by fastforce

lemma budget_kept: "WaitWithBudget b p evs s \<Longrightarrow> tr_budget (wa_tracker s) = b \<and> tr_cancelFunc (wa_tracker s)"
proof (induction rule: WaitWithBudget.induct)
  case (stepped evs s ev s1)
  from stepped(2) show ?case
  proof (cases rule: wait_step.cases)
    case (tick rd resource exceeded t)
    with stepped.IH Check_keeps(1,5) [of rd "wa_tracker s"] show ?thesis by simp
  qed (use stepped.IH in \<open>auto simp: mark_canceled_def UpdateMemory_def Start_def Stop_def split: if_splits\<close>)
qed (simp add: ContextWithBudget_def NewTracker_def)

text \<open>What is known of a state: a cancellation is on its way or done, and was caused by a tick.\<close>

definition wait_inv :: "Budget \<Rightarrow> bool \<Rightarrow> 'e event list \<Rightarrow> 'e wait_state \<Rightarrow> bool" where
  "wait_inv b p evs s \<longleftrightarrow>
     (\<forall>r. wa_watcher s = Found r \<longrightarrow> found_at b p evs r) \<and>
     (tr_canceled (wa_tracker s) \<longrightarrow> found_at b p evs (tr_canceledBy (wa_tracker s)) \<and> (wa_cancelling s \<or> wa_done s)) \<and>
     (case wa_caller s of
        Returning e \<Rightarrow> Returns e \<in> set evs
      | Suspecting e \<Rightarrow> Returns e \<in> set evs
      | Reporting \<Rightarrow> tr_canceled (wa_tracker s)
      | Returned (Own e) \<Rightarrow> Returns e \<in> set evs
      | Exited (Own e) \<Rightarrow> Returns e \<in> set evs
      | Returned (Exceeded x) \<Rightarrow> be_Budget x = b \<and> found_at b p evs (be_Resource x)
      | Exited (Exceeded x) \<Rightarrow> be_Budget x = b \<and> found_at b p evs (be_Resource x)
      | _ \<Rightarrow> True)"

lemma wait_inv_step:
  assumes "WaitWithBudget b p evs s" "wait_inv b p evs s" "wait_step b s ev s1"
  shows "wait_inv b p (evs @ [ev]) s1"
  using assms(3)
proof (cases rule: wait_step.cases)
  case (tick rd r x t)
  have "found_at b p (evs @ [ev]) r" if x
    using that tick assms(1) budget_kept [OF assms(1)] Check_found [of rd "wa_tracker s" r t] by (fastforce simp: found_at_def)
  with tick assms(2) Check_keeps(2,4) [of rd "wa_tracker s"] show ?thesis
    by (auto simp: wait_inv_def found_at_append split: caller.splits outcome.splits)
qed (use assms(2) budget_kept [OF assms(1)] in
  \<open>auto simp: wait_inv_def found_at_append mark_canceled_def UpdateMemory_def Start_def Stop_def split: caller.splits outcome.splits if_splits\<close>)

lemma wait_inv_run: "WaitWithBudget b p evs s \<Longrightarrow> wait_inv b p evs s"
proof (induction rule: WaitWithBudget.induct)
  case (stepped evs s ev s1)
  then show ?case by (blast intro: wait_inv_step)
qed (simp add: wait_inv_def ContextWithBudget_def NewTracker_def)

text \<open>The watcher marked the tracker while the function was running, or before its result was looked at.\<close>

definition marked_in_time :: "'e event list \<Rightarrow> bool" where
  "marked_in_time evs \<longleftrightarrow> (\<exists>pre post rd. evs = pre @ Mark # post \<and> Begin rd \<in> set pre \<and> FirstLook \<notin> set pre)"

lemma marked_in_time_snoc:
  "marked_in_time (evs @ [ev]) \<longleftrightarrow> marked_in_time evs \<or> ev = Mark \<and> (\<exists>rd. Begin rd \<in> set evs) \<and> FirstLook \<notin> set evs"
  unfolding marked_in_time_def by (auto simp: append_eq_append_conv2 append_eq_Cons_conv Cons_eq_append_conv) (metis append_Nil2)+

definition wait_progress :: "'e event list \<Rightarrow> 'e wait_state \<Rightarrow> bool" where
  "wait_progress evs s \<longleftrightarrow>
     ((\<exists>rd. Begin rd \<in> set evs) \<longleftrightarrow> wa_caller s \<noteq> Created) \<and>
     (FirstLook \<notin> set evs \<longrightarrow> (case wa_caller s of Created \<Rightarrow> True | Running \<Rightarrow> True | Returning e \<Rightarrow> True | _ \<Rightarrow> False)) \<and>
     (marked_in_time evs \<longrightarrow> tr_canceled (wa_tracker s) \<and>
        (case wa_caller s of Returned (Own e) \<Rightarrow> False | Exited (Own e) \<Rightarrow> False | _ \<Rightarrow> True))"

lemma wait_progress_run: "WaitWithBudget b p evs s \<Longrightarrow> wait_progress evs s"
proof (induction rule: WaitWithBudget.induct)
  case (created rd)
  then show ?case by (simp add: wait_progress_def ContextWithBudget_def marked_in_time_def)
next
  case (stepped evs s ev s1)
  have began: "marked_in_time evs \<Longrightarrow> \<exists>rd. Begin rd \<in> set evs" by (auto simp: marked_in_time_def)
  from stepped(2) show ?case
  proof (cases rule: wait_step.cases)
    case (tick rd r x t)
    with stepped.IH Check_keeps(2) [of rd "wa_tracker s"] show ?thesis by (auto simp: wait_progress_def marked_in_time_snoc)
  next
    case (begins rd)
    with stepped.IH began show ?thesis by (auto simp: wait_progress_def marked_in_time_snoc)
  qed (use stepped.IH in \<open>auto simp: wait_progress_def marked_in_time_snoc mark_canceled_def UpdateMemory_def Stop_def split: caller.splits outcome.splits if_splits\<close>)
qed

text \<open>
  C39: Whatever the interleaving of the function, the watcher, the cancellation and the parent context, \<^verbatim>\<open>WaitWithBudget\<close> returns
  the function's own result, and then the watcher had not marked the tracker before the result was looked at, or it
  returns an error for its budget that names a resource some tick of the run found over its limit. A tracker is
  marked only if the cancellation of the context is on its way.
\<close>

theorem budget_outcome:
  assumes "WaitWithBudget b parentDone evs s"
  shows "(case outcome_of s of
       None \<Rightarrow> True
     | Some (Own e) \<Rightarrow> Returns e \<in> set evs \<and> \<not> marked_in_time evs
     | Some (Exceeded x) \<Rightarrow> be_Budget x = b \<and> found_at b parentDone evs (be_Resource x)) \<and>
    (tr_canceled (wa_tracker s) \<longrightarrow> wa_cancelling s \<or> wa_done s)"
  using wait_inv_run [OF assms] wait_progress_run [OF assms]
  by (auto simp: wait_inv_def wait_progress_def outcome_of_def split: caller.splits outcome.splits)

section \<open>Examples\<close>

text \<open>The step relation is deterministic in the event, so runs can be evaluated.\<close>

fun next_state :: "Budget \<Rightarrow> 'e wait_state \<Rightarrow> 'e event \<Rightarrow> 'e wait_state option" where
  "next_state b s (Tick rd) = (if wa_watcher s = Waiting then case Check rd (wa_tracker s) of ((r, x), t) \<Rightarrow>
     Some (s\<lparr>wa_tracker := t, wa_watcher := (if x then Found r else Sampling)\<rparr>) else None)"
| "next_state b s Mark = (case wa_watcher s of Found r \<Rightarrow> (case mark_canceled r (wa_tracker s) of (start, t) \<Rightarrow>
     Some (s\<lparr>wa_tracker := t, wa_cancelling := wa_cancelling s \<or> start, wa_watcher := Ended\<rparr>)) | _ \<Rightarrow> None)"
| "next_state b s (Sample rd) =
     (if wa_watcher s = Sampling then Some (s\<lparr>wa_tracker := UpdateMemory rd (wa_tracker s), wa_watcher := Waiting\<rparr>) else None)"
| "next_state b s WatcherDone = (if wa_watcher s = Waiting \<and> wa_done s then Some (s\<lparr>wa_watcher := Ended\<rparr>) else None)"
| "next_state b s CancelRuns = (if wa_cancelling s then Some (s\<lparr>wa_done := True, wa_cancelling := False\<rparr>) else None)"
| "next_state b s ParentDone = Some (s\<lparr>wa_done := True\<rparr>)"
| "next_state b s (Begin rd) =
     (case wa_caller s of Created \<Rightarrow> Some (s\<lparr>wa_tracker := Start rd (wa_tracker s), wa_caller := Running\<rparr>) | _ \<Rightarrow> None)"
| "next_state b s (Returns e) = (case wa_caller s of Running \<Rightarrow> Some (s\<lparr>wa_caller := Returning e\<rparr>) | _ \<Rightarrow> None)"
| "next_state b s FirstLook = (case wa_caller s of Returning e \<Rightarrow>
     Some (s\<lparr>wa_caller := (if tr_canceled (wa_tracker s) \<or> wa_done s then Suspecting e else Returned (Own e))\<rparr>) | _ \<Rightarrow> None)"
| "next_state b s SecondLook = (case wa_caller s of Suspecting e \<Rightarrow>
     Some (s\<lparr>wa_caller := (if tr_canceled (wa_tracker s) then Reporting else Returned (Own e))\<rparr>) | _ \<Rightarrow> None)"
| "next_state b s (Report rd) = (case wa_caller s of Reporting \<Rightarrow>
     Some (s\<lparr>wa_caller := Returned (Exceeded \<lparr>be_Resource = tr_canceledBy (wa_tracker s), be_Budget = b,
      be_Actual = WallClockElapsed rd (wa_tracker s), be_Memory = tr_peakMemory (wa_tracker s)\<rparr>)\<rparr>) | _ \<Rightarrow> None)"
| "next_state b s Deferred = (case wa_caller s of Returned out \<Rightarrow>
     Some (s\<lparr>wa_done := True, wa_tracker := Stop (wa_tracker s), wa_caller := Exited out\<rparr>) | _ \<Rightarrow> None)"

lemma wait_step_iff: "wait_step b s ev s1 \<longleftrightarrow> next_state b s ev = Some s1"
proof
  show "wait_step b s ev s1 \<Longrightarrow> next_state b s ev = Some s1" by (induction rule: wait_step.induct) auto
  show "next_state b s ev = Some s1 \<Longrightarrow> wait_step b s ev s1"
    by (cases ev) (auto simp: wait_step.simps split: if_splits prod.splits watcher.splits caller.splits)
qed

fun after :: "Budget \<Rightarrow> 'e wait_state \<Rightarrow> 'e event list \<Rightarrow> 'e wait_state option" where
  "after b s [] = Some s"
| "after b s (ev # evs) = (case next_state b s ev of None \<Rightarrow> None | Some s1 \<Rightarrow> after b s1 evs)"

lemma after_run: "after b s evs = Some s1 \<Longrightarrow> WaitWithBudget b p pre s \<Longrightarrow> WaitWithBudget b p (pre @ evs) s1"
proof (induction evs arbitrary: s pre)
  case (Cons ev evs)
  then obtain s2 where "next_state b s ev = Some s2" "after b s2 evs = Some s1" by (auto split: option.splits)
  with Cons.IH [of s2 "pre @ [ev]"] Cons.prems(2) stepped [of b p pre s ev s2] show ?case by (simp add: wait_step_iff)
qed simp

lemmas budget_evaluation = after_run [OF _ created, simplified]

abbreviation at_time :: "int \<Rightarrow> reading" where
  "at_time n \<equiv> \<lparr>rd_now = n, rd_cpu = n div 2, rd_memory = 100\<rparr>"

definition example_budget :: Budget where
  "example_budget = \<lparr>bu_WallClock = 10, bu_CPU = 0, bu_Memory = 0\<rparr>"

definition example_run :: "string event list" where
  "example_run = [Begin (at_time 1), Tick (at_time 12), Mark, CancelRuns, Returns ''canceled'', FirstLook, SecondLook, Report (at_time 13)]"

definition example_state :: "string wait_state" where
  "example_state = the (after example_budget (ContextWithBudget example_budget False (at_time 0)) example_run)"

lemma example_run_ok: "WaitWithBudget example_budget False example_run example_state"
proof -
  have "after example_budget (ContextWithBudget example_budget False (at_time 0)) example_run = Some example_state" by code_simp
  then show ?thesis by (rule budget_evaluation)
qed

theorem budget_outcome_witness:
  "\<exists>x. outcome_of example_state = Some (Exceeded x) \<and> be_Resource x = ResourceTypeWallClock \<and>
     found_at example_budget False example_run ResourceTypeWallClock"
proof -
  have "map_option (\<lambda>out. case out of Own e \<Rightarrow> ResourceNone | Exceeded x \<Rightarrow> be_Resource x) (outcome_of example_state) = Some ResourceTypeWallClock" by code_simp
  with budget_outcome [OF example_run_ok] show ?thesis by (auto split: outcome.splits)
qed

text \<open>
  The watcher starts before the caller's \<^verbatim>\<open>Start\<close>. When it marks the tracker in between, \<^verbatim>\<open>Start\<close> forgets the cancellation while
  the context stays canceled and the watcher has ended: the function runs with a canceled context and its own error is returned.
\<close>

lemma mark_before_start_forgotten:
  "\<exists>evs s. WaitWithBudget example_budget False evs s \<and> Mark \<in> set evs \<and> wa_watcher s = Ended \<and> wa_done s \<and>
     outcome_of s = Some (Own ''context canceled'')"
proof -
  let ?evs = "[Tick (at_time 12), Mark, Begin (at_time 13), CancelRuns, Returns ''context canceled'', FirstLook, SecondLook]"
  let ?s0 = "ContextWithBudget example_budget False (at_time 0) :: string wait_state"
  have "(case after example_budget ?s0 ?evs of Some s \<Rightarrow> wa_watcher s = Ended \<and> wa_done s \<and> outcome_of s = Some (Own ''context canceled'') | None \<Rightarrow> False)"
    by code_simp
  then obtain s where "after example_budget ?s0 ?evs = Some s" "wa_watcher s = Ended" "wa_done s" "outcome_of s = Some (Own ''context canceled'')"
    by (auto split: option.splits)
  then show ?thesis by (intro exI [of _ ?evs] exI [of _ s]) (auto intro: budget_evaluation)
qed

text \<open>A limit on CPU time is reported with the wall clock time as the actual usage.\<close>

lemma cpu_error_reports_wall_clock:
  "\<exists>evs s x. WaitWithBudget \<lparr>bu_WallClock = 0, bu_CPU = 5, bu_Memory = 0\<rparr> False evs (s :: string wait_state) \<and> outcome_of s = Some (Exceeded x) \<and>
     be_Resource x = ResourceTypeCPU \<and> be_Actual x = 12 \<and> CPUElapsed (at_time 13) (wa_tracker s) = 6"
proof -
  let ?b = "\<lparr>bu_WallClock = 0, bu_CPU = 5, bu_Memory = 0\<rparr>"
  let ?s0 = "ContextWithBudget ?b False (at_time 0) :: string wait_state"
  have "(case after ?b ?s0 example_run of Some s \<Rightarrow> CPUElapsed (at_time 13) (wa_tracker s) = 6 \<and>
      (case outcome_of s of Some (Exceeded x) \<Rightarrow> be_Resource x = ResourceTypeCPU \<and> be_Actual x = 12 | _ \<Rightarrow> False) | None \<Rightarrow> False)" by code_simp
  then obtain s x where "after ?b ?s0 example_run = Some s" "outcome_of s = Some (Exceeded x)" "be_Resource x = ResourceTypeCPU" "be_Actual x = 12"
    "CPUElapsed (at_time 13) (wa_tracker s) = 6"
    by (auto split: option.splits outcome.splits)
  then show ?thesis by (intro exI [of _ example_run] exI [of _ s] exI [of _ x]) (auto intro: budget_evaluation)
qed

end
