(* ===== verification/Content_Cache.thy ===== *)
theory Content_Cache
  imports Durable_Files Runs Go_Int
begin

text \<open>
  The build cache of \<^verbatim>\<open>internal/cache/store.go\<close>: blobs named by their digest, records of stage results and chunk sessions,
  leases that protect blobs, and the garbage collection. The three directories are the state; \<^verbatim>\<open>H\<close> is SHA-256 with hexadecimal
  output. A blob knows its bytes and its modification time. The methods change the store under its mutex, so for the one process
  that uses it each of them is one step; \<^verbatim>\<open>RebuildIndex\<close>, which only reads, is modelled on a store that does not change
  meanwhile. The temporary file of \<^verbatim>\<open>Put\<close> is gone when it returns, so only its effect on the final name is kept. Which
  calls of the operating system fail is an argument.
\<close>

section \<open>Names\<close>

definition digestPattern :: "string \<Rightarrow> bool" where
  "digestPattern s \<longleftrightarrow> length s = 64 \<and> list_all is_hex_lower s"

definition buildIDPattern :: "string \<Rightarrow> bool" where
  "buildIDPattern = label_match (\<lambda>c. is_lower c \<or> is_digit c) (\<lambda>c. is_lower c \<or> is_digit c \<or> c = CHR ''-'') 62"

record Descriptor =
  de_Digest :: string
  de_Size :: int

datatype cache_error =
  InvalidRoot | InvalidDigest string | InvalidBuildID string | DigestMismatch string | CorruptRecord string | InvalidSize string
| NegativeAge | CacheIO

definition parseDigest :: "string \<Rightarrow> cache_error + string" where
  "parseDigest digest =
     (if has_prefix digest ''sha256:'' \<and> digestPattern (drop 7 digest) then Inr (drop 7 digest) else Inl (InvalidDigest digest))"

section \<open>The store\<close>

datatype blob = Blob string int | NotRegular

text \<open>
  A record is the result of a stage, artifact names with their descriptors, or the state of a chunk session, told
  apart by the version in it.
\<close>

record chunkSessionRecord =
  se_APIVersion :: string
  se_ID :: string
  se_ChunkSize :: int
  se_Size :: int
  se_Chunks :: "Descriptor list"

datatype document = StageRecord "(string, Descriptor) gomap" | SessionRecord chunkSessionRecord

record cache_store =
  cs_blobs :: "(string, blob) gomap"
  cs_records :: "document dir"
  cs_leases :: "string list dir"

definition Open :: "string \<Rightarrow> bool \<Rightarrow> cache_store \<Rightarrow> cache_error + cache_store" where
  "Open root mkdirFails s =
     (if root = [] \<or> char_of (0 :: nat) \<in> set root then Inl InvalidRoot else if mkdirFails then Inl CacheIO else Inr s)"

definition verifyFile :: "(string \<Rightarrow> string) \<Rightarrow> bool \<Rightarrow> cache_store \<Rightarrow> string \<Rightarrow> cache_error option" where
  "verifyFile H readFails s hexDigest =
     (case gm_get (cs_blobs s) hexDigest of
        Some (Blob data t) \<Rightarrow> if readFails then Some CacheIO else if hexDigest = H data then None else Some (DigestMismatch hexDigest)
      | _ \<Rightarrow> Some CacheIO)"

text \<open>What goes wrong during a \<^verbatim>\<open>Put\<close>: writing the temporary file, the first check of the final file, its removal, the rename.\<close>

record put_faults =
  pf_temporary :: bool
  pf_stat :: bool
  pf_verify :: bool
  pf_remove :: bool
  pf_rename :: bool

definition install_blob :: "(string \<Rightarrow> string) \<Rightarrow> put_faults \<Rightarrow> int \<Rightarrow> string \<Rightarrow> cache_store \<Rightarrow> (cache_error + Descriptor) \<times> cache_store" where
  "install_blob H f now data s =
     (let digest = H data; descriptor = \<lparr>de_Digest = ''sha256:'' @ digest, de_Size = int (length data)\<rparr> in
      if pf_rename f then (if verifyFile H False s digest \<noteq> None then Inl CacheIO else Inr descriptor, s)
      else (Inr descriptor, s\<lparr>cs_blobs := gm_put digest (Blob data now) (cs_blobs s)\<rparr>))"

definition Put :: "(string \<Rightarrow> string) \<Rightarrow> put_faults \<Rightarrow> int \<Rightarrow> string \<Rightarrow> cache_store \<Rightarrow> (cache_error + Descriptor) \<times> cache_store" where
  "Put H f now data s =
     (let digest = H data in
      if pf_temporary f then (Inl CacheIO, s)
      else if pf_stat f then (Inl CacheIO, s)
      else case gm_get (cs_blobs s) digest of
        None \<Rightarrow> install_blob H f now data s
      | Some _ \<Rightarrow>
          if verifyFile H (pf_verify f) s digest = None
            then (Inr \<lparr>de_Digest = ''sha256:'' @ digest, de_Size = int (length data)\<rparr>, s)
          else if pf_remove f then (Inl CacheIO, s)
          else install_blob H f now data (s\<lparr>cs_blobs := gm_del digest (cs_blobs s)\<rparr>))"

definition Get :: "cache_store \<Rightarrow> string \<Rightarrow> cache_error + string" where
  "Get s digest =
     bindE (parseDigest digest) (\<lambda>hexDigest.
     case gm_get (cs_blobs s) hexDigest of Some (Blob data t) \<Rightarrow> Inr data | _ \<Rightarrow> Inl CacheIO)"

definition Exists :: "bool \<Rightarrow> cache_store \<Rightarrow> string \<Rightarrow> cache_error + bool" where
  "Exists statFails s digest =
     bindE (parseDigest digest) (\<lambda>hexDigest.
     if statFails then Inl CacheIO
     else case gm_get (cs_blobs s) hexDigest of None \<Rightarrow> Inr False | Some b \<Rightarrow> Inr (b \<noteq> NotRegular))"

definition Verify :: "(string \<Rightarrow> string) \<Rightarrow> cache_store \<Rightarrow> string \<Rightarrow> cache_error option" where
  "Verify H s digest = (case parseDigest digest of Inl e \<Rightarrow> Some e | Inr hexDigest \<Rightarrow> verifyFile H False s hexDigest)"

section \<open>Records\<close>

definition io_result :: "io_error option \<Rightarrow> cache_error option" where
  "io_result e = map_option (\<lambda>_. CacheIO) e"

definition PutRecord :: "write_fault \<Rightarrow> string \<Rightarrow> document \<Rightarrow> cache_store \<Rightarrow> cache_error option \<times> cache_store" where
  "PutRecord f key doc s =
     (case parseDigest key of
        Inl e \<Rightarrow> (Some e, s)
      | Inr name \<Rightarrow> (case Write (cs_records s) (name @ ''.json'') doc f of (e, d) \<Rightarrow> (io_result e, s\<lparr>cs_records := d\<rparr>)))"

definition GetRecord :: "cache_store \<Rightarrow> string \<Rightarrow> cache_error + document option" where
  "GetRecord s key =
     bindE (parseDigest key) (\<lambda>name.
     case gm_get (cs_records s) (name @ ''.json'') of
       None \<Rightarrow> Inr None
     | Some (File (Some doc)) \<Rightarrow> Inr (Some doc)
     | Some _ \<Rightarrow> Inl (CorruptRecord key))"

definition DeleteRecord :: "bool \<Rightarrow> string \<Rightarrow> cache_store \<Rightarrow> cache_error option \<times> cache_store" where
  "DeleteRecord removeFails key s =
     (case parseDigest key of
        Inl e \<Rightarrow> (Some e, s)
      | Inr name \<Rightarrow>
          if gm_get (cs_records s) (name @ ''.json'') = None then (None, s)
          else if removeFails then (Some CacheIO, s)
          else (None, s\<lparr>cs_records := gm_del (name @ ''.json'') (cs_records s)\<rparr>))"

definition trim_json :: "string \<Rightarrow> string option" where
  "trim_json name = (if 5 \<le> length name \<and> drop (length name - 5) name = ''.json'' then Some (take (length name - 5) name) else None)"

fun verify_artifacts :: "(string \<Rightarrow> string) \<Rightarrow> cache_store \<Rightarrow> (string, Descriptor) gomap \<Rightarrow> cache_error option" where
  "verify_artifacts H s [] = None"
| "verify_artifacts H s ((artifact, d) # rest) =
     (if de_Size d < 0 then Some (InvalidSize artifact)
      else or_else (Verify H s (de_Digest d)) (verify_artifacts H s rest))"

fun rebuild_loop ::
  "(string \<Rightarrow> string) \<Rightarrow> cache_store \<Rightarrow> document dir \<Rightarrow> (string, (string, Descriptor) gomap) gomap \<Rightarrow>
   cache_error + (string, (string, Descriptor) gomap) gomap" where
  "rebuild_loop H s [] index = Inr index"
| "rebuild_loop H s ((file, entry) # entries) index =
     (case trim_json file of
        None \<Rightarrow> rebuild_loop H s entries index
      | Some name \<Rightarrow>
          let key = ''sha256:'' @ name in
          if entry = Directory \<or> \<not> digestPattern name then rebuild_loop H s entries index
          else case entry of
            File (Some (StageRecord record)) \<Rightarrow>
              (case verify_artifacts H s record of
                 Some e \<Rightarrow> Inl e
               | None \<Rightarrow> rebuild_loop H s entries (gm_put key record index))
          | File (Some (SessionRecord r)) \<Rightarrow>
              if se_APIVersion r \<noteq> [] then rebuild_loop H s entries index else Inl (CorruptRecord key)
          | File None \<Rightarrow> Inl (CorruptRecord key)
          | _ \<Rightarrow> Inl CacheIO)"

definition RebuildIndex :: "(string \<Rightarrow> string) \<Rightarrow> cache_store \<Rightarrow> cache_error + (string, (string, Descriptor) gomap) gomap" where
  "RebuildIndex H s = rebuild_loop H s (sort_key fst (cs_records s)) []"

section \<open>Leases and the garbage collection\<close>

fun parse_digests :: "string list \<Rightarrow> cache_error option" where
  "parse_digests [] = None"
| "parse_digests (d # ds) = (case parseDigest d of Inl e \<Rightarrow> Some e | Inr _ \<Rightarrow> parse_digests ds)"

definition Acquire :: "write_fault \<Rightarrow> string \<Rightarrow> string list \<Rightarrow> cache_store \<Rightarrow> cache_error option \<times> cache_store" where
  "Acquire f buildID digests s =
     (if \<not> buildIDPattern buildID then (Some (InvalidBuildID buildID), s)
      else case parse_digests digests of
        Some e \<Rightarrow> (Some e, s)
      | None \<Rightarrow>
          (case Write (cs_leases s) (buildID @ ''.json'') (sort (remdups digests)) f of (e, d) \<Rightarrow> (io_result e, s\<lparr>cs_leases := d\<rparr>)))"

definition Release :: "bool \<Rightarrow> string \<Rightarrow> cache_store \<Rightarrow> cache_error option \<times> cache_store" where
  "Release removeFails buildID s =
     (if \<not> buildIDPattern buildID then (Some (InvalidBuildID buildID), s)
      else if gm_get (cs_leases s) (buildID @ ''.json'') = None then (None, s)
      else if removeFails then (Some CacheIO, s)
      else (None, s\<lparr>cs_leases := gm_del (buildID @ ''.json'') (cs_leases s)\<rparr>))"

fun referencedDigests :: "(string \<Rightarrow> bool) \<Rightarrow> string list dir \<Rightarrow> cache_error + string list" where
  "referencedDigests readFails [] = Inr []"
| "referencedDigests readFails ((name, entry) # entries) =
     (case entry of
        File content \<Rightarrow>
          if trim_json name = None then referencedDigests readFails entries
          else if readFails name then Inl CacheIO
          else (case content of
            None \<Rightarrow> Inl CacheIO
          | Some digests \<Rightarrow>
              bindE (referencedDigests readFails entries) (\<lambda>rest.
              Inr (map (drop 7) (filter (\<lambda>d. parseDigest d = Inr (drop 7 d)) digests) @ rest)))
      | _ \<Rightarrow> referencedDigests readFails entries)"

record GCResult =
  gc_Removed :: "string list"
  gc_Bytes :: int

record gc_faults =
  gf_read :: "string \<Rightarrow> bool"
  gf_info :: "string \<Rightarrow> bool"
  gf_remove :: "string \<Rightarrow> bool"

fun sweep ::
  "gc_faults \<Rightarrow> string list \<Rightarrow> int \<Rightarrow> (string, blob) gomap \<Rightarrow> (string, blob) gomap \<Rightarrow> GCResult \<Rightarrow> (cache_error + GCResult) \<times> (string, blob) gomap" where
  "sweep f referenced cutoff [] blobs result = (Inr result, blobs)"
| "sweep f referenced cutoff ((name, NotRegular) # entries) blobs result = sweep f referenced cutoff entries blobs result"
| "sweep f referenced cutoff ((name, Blob data t) # entries) blobs result =
     (if \<not> digestPattern name \<or> name \<in> set referenced then sweep f referenced cutoff entries blobs result
      else if gf_info f name then (Inl CacheIO, blobs)
      else if cutoff < t then sweep f referenced cutoff entries blobs result
      else if gf_remove f name then (Inl CacheIO, blobs)
      else
        sweep f referenced cutoff entries (gm_del name blobs)
          \<lparr>gc_Removed = gc_Removed result @ [''sha256:'' @ name], gc_Bytes = i64 (gc_Bytes result + int (length data))\<rparr>)"

definition GC :: "gc_faults \<Rightarrow> int \<Rightarrow> int \<Rightarrow> cache_store \<Rightarrow> (cache_error + GCResult) \<times> cache_store" where
  "GC f now minAge s =
     (if minAge < 0 then (Inl NegativeAge, s)
      else case referencedDigests (gf_read f) (sort_key fst (cs_leases s)) of
        Inl e \<Rightarrow> (Inl e, s)
      | Inr referenced \<Rightarrow>
          (case sweep f referenced (now - minAge) (sort_key fst (cs_blobs s)) (cs_blobs s) \<lparr>gc_Removed = [], gc_Bytes = 0\<rparr> of
             (res, blobs) \<Rightarrow>
               (map_sum id (\<lambda>r. r\<lparr>gc_Removed := sort (gc_Removed r)\<rparr>) res, s\<lparr>cs_blobs := blobs\<rparr>)))"

section \<open>What the garbage collection removes\<close>

text \<open>The names in a directory are distinct.\<close>

definition wf_store :: "cache_store \<Rightarrow> bool" where
  "wf_store s \<longleftrightarrow> distinct (gm_keys (cs_blobs s)) \<and> distinct (gm_keys (cs_leases s))"

definition leased :: "cache_store \<Rightarrow> string \<Rightarrow> bool" where
  "leased s n \<longleftrightarrow>
     (\<exists>file ds. gm_get (cs_leases s) file = Some (File (Some ds)) \<and> trim_json file \<noteq> None \<and> ''sha256:'' @ n \<in> set ds)"

definition collectable :: "cache_store \<Rightarrow> int \<Rightarrow> string \<Rightarrow> bool" where
  "collectable s cutoff n \<longleftrightarrow>
     digestPattern n \<and> \<not> leased s n \<and> (case gm_get (cs_blobs s) n of Some (Blob data t) \<Rightarrow> t \<le> cutoff | _ \<Rightarrow> False)"

lemma parseDigest_Inr: "parseDigest d = Inr n \<longleftrightarrow> d = ''sha256:'' @ n \<and> digestPattern n"
  by (auto simp: parseDigest_def has_prefix_iff split: if_splits)

lemma referencedDigests_set:
  "referencedDigests rf entries = Inr ns \<Longrightarrow>
   n \<in> set ns \<longleftrightarrow> digestPattern n \<and> (\<exists>file ds. (file, File (Some ds)) \<in> set entries \<and> trim_json file \<noteq> None \<and> ''sha256:'' @ n \<in> set ds)"
proof (induction entries arbitrary: ns)
  case (Cons e entries)
  obtain name entry where e: "e = (name, entry)" by fastforce
  show ?case
  proof (cases "\<exists>content. entry = File content \<and> trim_json name \<noteq> None")
    case True
    with Cons.prems e obtain ds rest where *: "entry = File (Some ds)" "referencedDigests rf entries = Inr rest"
      "ns = map (drop 7) (filter (\<lambda>d. parseDigest d = Inr (drop 7 d)) ds) @ rest"
      by (auto simp: bindE_Inr split: if_splits option.splits)
    have "n \<in> drop 7 ` {d \<in> set ds. parseDigest d = Inr (drop 7 d)} \<longleftrightarrow> digestPattern n \<and> ''sha256:'' @ n \<in> set ds"
      by (force simp: parseDigest_Inr image_iff)
    with Cons.IH [OF *(2)] * e True show ?thesis by auto
  next
    case False
    with Cons.prems e have "referencedDigests rf entries = Inr ns" by (auto split: entry.splits)
    with Cons.IH e False show ?thesis by auto
  qed
qed simp

lemma leased_referenced:
  assumes "wf_store s" "referencedDigests rf (sort_key fst (cs_leases s)) = Inr ns" "digestPattern n"
  shows "n \<in> set ns \<longleftrightarrow> leased s n"
proof -
  have "(k, e) \<in> set (sort_key fst (cs_leases s)) \<longleftrightarrow> gm_get (cs_leases s) k = Some e" for k e
    using assms(1) gm_get_mem [of "cs_leases s"] by (simp add: wf_store_def)
  with referencedDigests_set [OF assms(2), of n] assms(3) show ?thesis by (simp add: leased_def)
qed

fun victim :: "string list \<Rightarrow> int \<Rightarrow> string \<times> blob \<Rightarrow> bool" where
  "victim referenced cutoff (n, NotRegular) = False"
| "victim referenced cutoff (n, Blob data t) = (digestPattern n \<and> n \<notin> set referenced \<and> t \<le> cutoff)"

fun blob_size :: "blob \<Rightarrow> int" where
  "blob_size NotRegular = 0"
| "blob_size (Blob data t) = int (length data)"

lemma sweep_effect:
  "sweep f referenced cutoff entries blobs result = (out, blobs1) \<Longrightarrow>
   gm_get blobs1 n = gm_get blobs n \<or> gm_get blobs1 n = None \<and> (\<exists>b. (n, b) \<in> set entries \<and> victim referenced cutoff (n, b))"
proof (induction entries arbitrary: blobs result)
  case (Cons e entries)
  obtain name b where e: "e = (name, b)" by fastforce
  show ?case
  proof (cases "out \<noteq> Inl CacheIO \<or> blobs1 \<noteq> blobs")
    case True
    then obtain blobs2 result2 where run: "sweep f referenced cutoff entries blobs2 result2 = (out, blobs1)"
      and step: "blobs2 = blobs \<or> victim referenced cutoff (name, b) \<and> blobs2 = gm_del name blobs"
      using Cons.prems e by (cases b) (auto split: if_splits)
    from Cons.IH [OF run] step e show ?thesis by (cases "n = name") auto
  qed simp
qed simp

lemma sweep_result:
  "sweep f referenced cutoff entries blobs result = (Inr r, blobs1) \<Longrightarrow>
   gc_Removed r = gc_Removed result @ map (\<lambda>e. ''sha256:'' @ fst e) (filter (victim referenced cutoff) entries) \<and>
   (\<forall>e \<in> set entries. victim referenced cutoff e \<longrightarrow> gm_get blobs1 (fst e) = None) \<and>
   (in_i64 (gc_Bytes result) \<longrightarrow> gc_Bytes r = i64 (gc_Bytes result + (\<Sum>e\<leftarrow>filter (victim referenced cutoff) entries. blob_size (snd e))))"
proof (induction entries arbitrary: blobs result)
  case Nil
  then show ?case by (auto simp: in_i64_def i64_id)
next
  case (Cons e entries)
  obtain name b where e: "e = (name, b)" by fastforce
  show ?case
  proof (cases "victim referenced cutoff e")
    case True
    then obtain data t where b: "b = Blob data t" using e by (cases b) auto
    let ?r = "\<lparr>gc_Removed = gc_Removed result @ [''sha256:'' @ name], gc_Bytes = i64 (gc_Bytes result + int (length data))\<rparr>"
    have run: "sweep f referenced cutoff entries (gm_del name blobs) ?r = (Inr r, blobs1)" using Cons.prems True e b by (auto split: if_splits)
    have "gm_get blobs1 name = None" using sweep_effect [OF run, of name] by auto
    with Cons.IH [OF run] True e b show ?thesis by (simp add: i64_add i64_range add.assoc)
  next
    case False
    then have "sweep f referenced cutoff entries blobs result = (Inr r, blobs1)" using Cons.prems e by (cases b) (auto split: if_splits)
    from Cons.IH [OF this] False show ?thesis by simp
  qed
qed

text \<open>The entries a sweep goes through, and which of them it may remove.\<close>

lemma GC_cases:
  assumes "wf_store s" "GC f now minAge s = (res, s1)"
  obtains (refused) e where "s1 = s" "res = Inl e"
  | (swept) ns out blobs where "sweep f ns (now - minAge) (sort_key fst (cs_blobs s)) (cs_blobs s) \<lparr>gc_Removed = [], gc_Bytes = 0\<rparr> = (out, blobs)"
      "s1 = s\<lparr>cs_blobs := blobs\<rparr>" "res = map_sum id (\<lambda>r. r\<lparr>gc_Removed := sort (gc_Removed r)\<rparr>) out"
      "\<And>n b. (n, b) \<in> set (sort_key fst (cs_blobs s)) \<Longrightarrow> victim ns (now - minAge) (n, b) \<longleftrightarrow> collectable s (now - minAge) n"
proof (cases "minAge < 0 \<or> (\<exists>e. referencedDigests (gf_read f) (sort_key fst (cs_leases s)) = Inl e)")
  case True
  with assms(2) have "s1 = s" "\<exists>e. res = Inl e" by (auto simp: GC_def split: if_splits)
  then show ?thesis using refused by blast
next
  case False
  let ?c = "now - minAge" and ?es = "sort_key fst (cs_blobs s)"
  from False obtain ns where ns: "referencedDigests (gf_read f) (sort_key fst (cs_leases s)) = Inr ns" by (metis sum.exhaust_sel)
  obtain out blobs where run: "sweep f ns ?c ?es (cs_blobs s) \<lparr>gc_Removed = [], gc_Bytes = 0\<rparr> = (out, blobs)" by fastforce
  have "victim ns ?c (n, b) \<longleftrightarrow> collectable s ?c n" if "(n, b) \<in> set ?es" for n b
    using that assms(1) gm_get_mem [of "cs_blobs s" n b] leased_referenced [OF assms(1) ns, of n]
    by (cases b) (auto simp: collectable_def wf_store_def)
  with run assms(2) False ns show ?thesis by (intro swept [of ns out blobs]) (auto simp: GC_def)
qed

lemma GC_effect:
  assumes "wf_store s" "GC f now minAge s = (res, s1)"
  shows "cs_records s1 = cs_records s" "cs_leases s1 = cs_leases s"
    and "gm_get (cs_blobs s1) n = gm_get (cs_blobs s) n \<or> gm_get (cs_blobs s1) n = None \<and> collectable s (now - minAge) n"
proof -
  have "cs_records s1 = cs_records s \<and> cs_leases s1 = cs_leases s \<and>
    (gm_get (cs_blobs s1) n = gm_get (cs_blobs s) n \<or> gm_get (cs_blobs s1) n = None \<and> collectable s (now - minAge) n)"
    using assms
  proof (cases rule: GC_cases)
    case (swept ns out blobs)
    with sweep_effect [OF swept(1), of n] show ?thesis by auto
  qed simp
  then show "cs_records s1 = cs_records s" "cs_leases s1 = cs_leases s"
    "gm_get (cs_blobs s1) n = gm_get (cs_blobs s) n \<or> gm_get (cs_blobs s1) n = None \<and> collectable s (now - minAge) n" by auto
qed

text \<open>
  A garbage collection touches no record and no lease, and a blob it removes is old enough and referenced by no
  lease, whatever fails on the way. When it succeeds it removed every such blob and reports exactly these, sorted and once
  each, with the sum of their sizes.
\<close>

theorem gc_exact:
  assumes "wf_store s" "GC f now minAge s = (res, s1)"
  shows "cs_records s1 = cs_records s \<and> cs_leases s1 = cs_leases s \<and>
    (\<forall>n. gm_get (cs_blobs s1) n = gm_get (cs_blobs s) n \<or> gm_get (cs_blobs s1) n = None \<and> collectable s (now - minAge) n) \<and>
    (\<forall>r. res = Inr r \<longrightarrow>
       sorted (gc_Removed r) \<and> distinct (gc_Removed r) \<and> set (gc_Removed r) = (\<lambda>n. ''sha256:'' @ n) ` {n. collectable s (now - minAge) n} \<and>
       (\<forall>n. collectable s (now - minAge) n \<longrightarrow> gm_get (cs_blobs s1) n = None) \<and>
       gc_Bytes r = i64 (\<Sum>e\<leftarrow>filter (\<lambda>e. collectable s (now - minAge) (fst e)) (sort_key fst (cs_blobs s)). blob_size (snd e)))"
proof -
  let ?c = "now - minAge" and ?es = "sort_key fst (cs_blobs s)"
  have "sorted (gc_Removed r) \<and> distinct (gc_Removed r) \<and> set (gc_Removed r) = (\<lambda>n. ''sha256:'' @ n) ` {n. collectable s ?c n} \<and>
       (\<forall>n. collectable s ?c n \<longrightarrow> gm_get (cs_blobs s1) n = None) \<and>
       gc_Bytes r = i64 (\<Sum>e\<leftarrow>filter (\<lambda>e. collectable s ?c (fst e)) ?es. blob_size (snd e))" if r: "res = Inr r" for r
    using assms
  proof (cases rule: GC_cases)
    case (swept ns out blobs)
    from r swept(3) obtain r0 where r0: "out = Inr r0" "r = r0\<lparr>gc_Removed := sort (gc_Removed r0)\<rparr>" by (cases out) auto
    have filter: "filter (victim ns ?c) ?es = filter (\<lambda>e. collectable s ?c (fst e)) ?es"
      using swept(4) by (intro filter_cong) auto
    from sweep_result [OF swept(1) [unfolded r0(1)]] filter have removed: "gc_Removed r0 = map (\<lambda>e. ''sha256:'' @ fst e) (filter (\<lambda>e. collectable s ?c (fst e)) ?es)"
      and gone: "\<forall>e \<in> set ?es. victim ns ?c e \<longrightarrow> gm_get blobs (fst e) = None"
      and bytes: "gc_Bytes r0 = i64 (\<Sum>e\<leftarrow>filter (\<lambda>e. collectable s ?c (fst e)) ?es. blob_size (snd e))"
      by (auto simp: in_i64_def)
    have some: "\<exists>b. (n, b) \<in> set ?es" if "collectable s ?c n" for n
      using that by (auto simp: collectable_def split: option.splits dest: map_of_SomeD)
    have "set (gc_Removed r0) = (\<lambda>n. ''sha256:'' @ n) ` {n. collectable s ?c n}" using removed some by force
    moreover have "distinct (map fst ?es)" using assms(1) by (simp add: wf_store_def distinct_map inj_on_def)
    then have "distinct (gc_Removed r0)" using removed by (auto simp: distinct_map inj_on_def distinct_filter)
    moreover have "gm_get blobs n = None" if "collectable s ?c n" for n
      using some [OF that] swept(4) that gone by fastforce
    ultimately show ?thesis using r0 bytes swept(2) by simp
  qed (use r in simp)
  with GC_effect [OF assms] show ?thesis by blast
qed

section \<open>Histories\<close>

text \<open>The name of a blob is the digest of its content.\<close>

definition holds :: "(string \<Rightarrow> string) \<Rightarrow> cache_store \<Rightarrow> string \<Rightarrow> bool" where
  "holds H s n \<longleftrightarrow> (\<exists>x t. gm_get (cs_blobs s) n = Some (Blob x t) \<and> H x = n)"

definition intact :: "(string \<Rightarrow> string) \<Rightarrow> cache_store \<Rightarrow> bool" where
  "intact H s \<longleftrightarrow> wf_store s \<and> (\<forall>n x t. gm_get (cs_blobs s) n = Some (Blob x t) \<longrightarrow> H x = n)"

lemma verifyFile_None: "verifyFile H rf s n = None \<longleftrightarrow> \<not> rf \<and> holds H s n"
  by (auto simp: verifyFile_def holds_def split: option.splits blob.splits if_splits)

lemma Put_ok:
  assumes "Put H f now data s = (Inr d, s1)"
  shows "d = \<lparr>de_Digest = ''sha256:'' @ H data, de_Size = int (length data)\<rparr>" "holds H s1 (H data)"
  using assms by (auto simp: Put_def install_blob_def Let_def verifyFile_None split: if_splits option.splits) (auto simp: holds_def)

text \<open>A good blob is lost only when its check cannot read it and then the rename of the new file fails.\<close>

definition loses_blob :: "put_faults \<Rightarrow> bool" where
  "loses_blob f \<longleftrightarrow> \<not> pf_temporary f \<and> \<not> pf_stat f \<and> pf_verify f \<and> \<not> pf_remove f \<and> pf_rename f"

lemma Put_blobs:
  "gm_get (cs_blobs (snd (Put H f now data s))) n = gm_get (cs_blobs s) n \<or>
   n = H data \<and> (gm_get (cs_blobs (snd (Put H f now data s))) n = Some (Blob data now) \<or>
     gm_get (cs_blobs (snd (Put H f now data s))) n = None \<and> (loses_blob f \<or> \<not> holds H s n))"
  by (cases "n = H data"; cases "gm_get (cs_blobs s) (H data)")
    (auto simp: Put_def install_blob_def Let_def verifyFile_None loses_blob_def)

lemma Put_keeps: "holds H s n \<Longrightarrow> \<not> loses_blob f \<Longrightarrow> holds H (snd (Put H f now data s)) n"
  using Put_blobs [of H f now data s n] by (auto simp: holds_def)

lemma Put_frame:
  "cs_leases (snd (Put H f now data s)) = cs_leases s" "cs_records (snd (Put H f now data s)) = cs_records s"
  "wf_store s \<Longrightarrow> wf_store (snd (Put H f now data s))"
  by (auto simp: Put_def install_blob_def Let_def wf_store_def split: option.splits)

lemma Put_intact:
  assumes "intact H s"
  shows "intact H (snd (Put H f now data s))"
proof -
  have "H x = n" if "gm_get (cs_blobs (snd (Put H f now data s))) n = Some (Blob x t)" for n x t
    using that Put_blobs [of H f now data s n] assms unfolding intact_def by (metis blob.inject option.distinct(1) option.inject)
  then show ?thesis using assms Put_frame(3) by (simp add: intact_def)
qed

datatype cache_op =
  OpPut put_faults int string | OpPutRecord write_fault string document | OpDeleteRecord bool string
| OpAcquire write_fault string "string list" | OpRelease bool string | OpGC gc_faults int int

fun cache_step :: "(string \<Rightarrow> string) \<Rightarrow> cache_op \<Rightarrow> cache_store \<Rightarrow> cache_store" where
  "cache_step H (OpPut f now data) s = snd (Put H f now data s)"
| "cache_step H (OpPutRecord f key doc) s = snd (PutRecord f key doc s)"
| "cache_step H (OpDeleteRecord fails key) s = snd (DeleteRecord fails key s)"
| "cache_step H (OpAcquire f b ds) s = snd (Acquire f b ds s)"
| "cache_step H (OpRelease fails b) s = snd (Release fails b s)"
| "cache_step H (OpGC f now minAge) s = snd (GC f now minAge s)"

lemma Write_distinct: "distinct (gm_keys d) \<Longrightarrow> distinct (gm_keys (snd (Write d name data f)))"
  by (simp add: Write_def)

lemma lease_files_frame:
  "cs_blobs (snd (Acquire f b ds s)) = cs_blobs s" "cs_blobs (snd (Release fails b s)) = cs_blobs s"
  "b \<noteq> c \<Longrightarrow> gm_get (cs_leases (snd (Acquire f b ds s))) (c @ ''.json'') = gm_get (cs_leases s) (c @ ''.json'')"
  "b \<noteq> c \<Longrightarrow> gm_get (cs_leases (snd (Release fails b s))) (c @ ''.json'') = gm_get (cs_leases s) (c @ ''.json'')"
  "wf_store s \<Longrightarrow> wf_store (snd (Acquire f b ds s))" "wf_store s \<Longrightarrow> wf_store (snd (Release fails b s))"
  by (auto simp: Acquire_def Release_def Write_def wf_store_def split: option.splits)

lemma record_files_frame:
  "cs_blobs (snd (PutRecord f key doc s)) = cs_blobs s" "cs_blobs (snd (DeleteRecord fails key s)) = cs_blobs s"
  "cs_leases (snd (PutRecord f key doc s)) = cs_leases s" "cs_leases (snd (DeleteRecord fails key s)) = cs_leases s"
  by (auto simp: PutRecord_def DeleteRecord_def split: sum.splits prod.splits)

lemma wf_store_frame: "cs_blobs t = cs_blobs s \<Longrightarrow> cs_leases t = cs_leases s \<Longrightarrow> wf_store t = wf_store s"
  by (simp add: wf_store_def)

lemma sweep_distinct:
  "sweep f referenced cutoff entries blobs result = (out, blobs1) \<Longrightarrow> distinct (gm_keys blobs) \<Longrightarrow> distinct (gm_keys blobs1)"
  by (induction f referenced cutoff entries blobs result rule: sweep.induct) (auto split: if_splits)

lemma GC_wf: "wf_store s \<Longrightarrow> wf_store (snd (GC f now minAge s))"
  by (auto simp: GC_def wf_store_def split: sum.splits prod.splits dest: sweep_distinct)

lemma GC_intact: "intact H s \<Longrightarrow> intact H (snd (GC f now minAge s))"
proof -
  assume i: "intact H s"
  obtain res s1 where g: "GC f now minAge s = (res, s1)" by fastforce
  with i GC_effect(3) [of s f now minAge res s1] GC_wf [of s f now minAge] show ?thesis
    by (simp add: intact_def) (metis option.distinct(1))
qed

lemma intact_frame: "intact H s \<Longrightarrow> cs_blobs t = cs_blobs s \<Longrightarrow> wf_store t \<Longrightarrow> intact H t"
  by (simp add: intact_def)

lemmas frames = lease_files_frame record_files_frame wf_store_frame [OF record_files_frame(1,3)] wf_store_frame [OF record_files_frame(2,4)]

interpretation history: invariant_system "cache_step H" "intact H" for H
proof
  show "intact H (cache_step H op s)" if "intact H s" for s op
  proof (cases op)
    case (OpPut f now data)
    with that show ?thesis by (simp add: Put_intact)
  next
    case (OpGC f now minAge)
    with that show ?thesis by (simp add: GC_intact)
  qed (use that in \<open>auto intro!: intact_frame [OF that] simp: frames intact_def\<close>)
qed

text \<open>A blob under the lease of a build, in histories in which nobody touches that lease.\<close>

definition protected :: "(string \<Rightarrow> string) \<Rightarrow> string \<Rightarrow> string \<Rightarrow> cache_store \<Rightarrow> bool" where
  "protected H b n s \<longleftrightarrow> wf_store s \<and> holds H s n \<and>
     (\<exists>ds. gm_get (cs_leases s) (b @ ''.json'') = Some (File (Some ds)) \<and> ''sha256:'' @ n \<in> set ds)"

fun leaves_lease :: "string \<Rightarrow> cache_op \<Rightarrow> bool" where
  "leaves_lease b (OpPut f now data) = (\<not> loses_blob f)"
| "leaves_lease b (OpAcquire f c ds) = (c \<noteq> b)"
| "leaves_lease b (OpRelease fails c) = (c \<noteq> b)"
| "leaves_lease b _ = True"

lemma GC_protected:
  assumes "protected H b n s"
  shows "protected H b n (snd (GC f now minAge s))"
proof -
  obtain res s1 where g: "GC f now minAge s = (res, s1)" by fastforce
  have "leased s n" using assms by (auto simp: protected_def leased_def trim_json_def)
  then have "\<not> collectable s (now - minAge) n" by (simp add: collectable_def)
  then have "gm_get (cs_blobs s1) n = gm_get (cs_blobs s) n" using assms GC_effect(3) [OF _ g, of n] by (auto simp: protected_def)
  with assms g GC_effect(2) [of s f now minAge res s1] GC_wf [of s f now minAge] show ?thesis
    by (simp add: protected_def holds_def)
qed

lemma protected_frame:
  "protected H b n s \<Longrightarrow> cs_blobs t = cs_blobs s \<Longrightarrow> gm_get (cs_leases t) (b @ ''.json'') = gm_get (cs_leases s) (b @ ''.json'') \<Longrightarrow> wf_store t \<Longrightarrow>
   protected H b n t"
  by (simp add: protected_def holds_def)

interpretation lease: guarded_system "cache_step H" "protected H b n" "leaves_lease b" for H b n
proof
  show "protected H b n (cache_step H op s)" if "protected H b n s" "leaves_lease b op" for s op
  proof (cases op)
    case (OpPut f now data)
    with that show ?thesis by (simp add: protected_def Put_keeps Put_frame)
  next
    case (OpGC f now minAge)
    with that show ?thesis by (simp add: GC_protected)
  next
    case (OpAcquire f c ds)
    with that show ?thesis by (intro protected_frame [OF that(1)]) (auto simp: frames protected_def)
  next
    case (OpRelease fails c)
    with that show ?thesis by (intro protected_frame [OF that(1)]) (auto simp: frames protected_def)
  qed (use that in \<open>auto simp: frames protected_def holds_def\<close>)
qed

text \<open>
  C40: In every history of calls of the process that uses the cache: whatever is put, recorded, leased by other builds,
  released and collected, with any failures of the operating system, a blob that is good and
  under the lease of a build stays in the cache and hashes to its name, as long as that build keeps its lease and no
  \<^verbatim>\<open>Put\<close> both fails to read the blob and to rename its replacement. And every blob of a store that starts out good
  always hashes to its name.
\<close>

theorem leased_blob_survives:
  assumes "protected H b n s" "list_all (leaves_lease b) ops"
  shows "holds H (run (cache_step H) ops s) n \<and> (intact H s \<longrightarrow> intact H (run (cache_step H) ops s))"
  using lease.run_inv [OF assms(2,1)] history.run_inv [of H s ops] by (simp add: protected_def)

text \<open>The loss that the last condition excludes: one unreadable moment and a failing rename remove a good, leased blob.\<close>

lemma Put_loses_leased_blob:
  assumes "protected H b (H data) s" "loses_blob f"
  shows "gm_get (cs_blobs (snd (Put H f now data s))) (H data) = None"
  using assms by (auto simp: protected_def holds_def Put_def install_blob_def loses_blob_def Let_def verifyFile_None)

section \<open>The index of results\<close>

lemma verify_artifacts_None:
  "verify_artifacts H s artifacts = None \<longleftrightarrow>
   (\<forall>(artifact, d) \<in> set artifacts. 0 \<le> de_Size d \<and> (\<exists>n. parseDigest (de_Digest d) = Inr n \<and> holds H s n))"
  by (induction H s artifacts rule: verify_artifacts.induct)
    (auto simp: Verify_def verifyFile_None or_else_ok not_less split: sum.splits)

lemma rebuild_loop_sound:
  "rebuild_loop H s entries index = Inr index1 \<Longrightarrow> gm_get index1 key = Some artifacts \<Longrightarrow>
   gm_get index key = Some artifacts \<or> verify_artifacts H s artifacts = None \<and> (\<exists>name. key = ''sha256:'' @ name \<and> digestPattern name)"
proof (induction entries arbitrary: index)
  case (Cons e entries)
  obtain name entry where e: "e = (name, entry)" by fastforce
  from Cons.prems(1) e obtain index2 where step: "rebuild_loop H s entries index2 = Inr index1"
    and "index2 = index \<or> (\<exists>n r. digestPattern n \<and> verify_artifacts H s r = None \<and> index2 = gm_put (''sha256:'' @ n) r index)"
    by (auto simp: Let_def split: option.splits if_splits entry.splits document.splits)
  with Cons.IH [OF step Cons.prems(2)] show ?case by (auto split: if_splits)
qed simp

text \<open>
  Every result that the rebuilt index lists is usable: its key is a digest and each of its artifacts is in the cache with
  the content its digest names.
\<close>

lemma RebuildIndex_sound:
  assumes "RebuildIndex H s = Inr index" "gm_get index key = Some artifacts" "(artifact, d) \<in> set artifacts"
  shows "\<exists>n. de_Digest d = ''sha256:'' @ n \<and> holds H s n"
  using rebuild_loop_sound [OF assms(1) [unfolded RebuildIndex_def] assms(2)] assms(3)
  by (auto simp: verify_artifacts_None parseDigest_Inr)

text \<open>One result whose blob was collected makes the whole rebuild fail: leases do not follow the records.\<close>

lemma RebuildIndex_fails:
  assumes "(file_name, File (Some (StageRecord artifacts))) \<in> set (cs_records s)" "trim_json file_name = Some name" "digestPattern name"
    and "(artifact, d) \<in> set artifacts" "\<And>n. de_Digest d = ''sha256:'' @ n \<Longrightarrow> \<not> holds H s n"
  shows "\<exists>e. RebuildIndex H s = Inl e"
proof -
  obtain e where bad: "verify_artifacts H s artifacts = Some e"
    using verify_artifacts_None [of H s artifacts] assms(4,5) by (cases "verify_artifacts H s artifacts") (fastforce simp: parseDigest_Inr)+
  have "\<exists>e. rebuild_loop H s entries index = Inl e" if "(file_name, File (Some (StageRecord artifacts))) \<in> set entries" for entries index
    using that
  proof (induction entries arbitrary: index)
    case (Cons x entries)
    obtain n en where x: "x = (n, en)" by fastforce
    show ?case
    proof (cases "x = (file_name, File (Some (StageRecord artifacts)))")
      case True
      with assms(2,3) bad show ?thesis by simp
    next
      case False
      with Cons have "\<And>index. \<exists>e. rebuild_loop H s entries index = Inl e" by auto
      then show ?thesis by (auto simp: x Let_def split: option.splits entry.splits document.splits)
    qed
  qed simp
  with assms(1) show ?thesis by (simp add: RebuildIndex_def)
qed

section \<open>Examples\<close>

text \<open>A stand-in for the digest that tells apart texts by their length, and a store with a leased, an old and a new blob.\<close>

definition toy_digest :: "string \<Rightarrow> string" where
  "toy_digest x = replicate 63 (CHR ''0'') @ [if length x < 2 then CHR ''1'' else if length x < 4 then CHR ''2'' else CHR ''3'']"

definition example_cache :: cache_store where
  "example_cache =
     \<lparr>cs_blobs = [(toy_digest ''a'', Blob ''a'' 10), (toy_digest ''abc'', Blob ''abc'' 10), (toy_digest ''abcde'', Blob ''abcde'' 90)],
      cs_records = [], cs_leases = [(''b1.json'', File (Some [''sha256:'' @ toy_digest ''a'']))]\<rparr>"

definition no_gc_faults :: gc_faults where
  "no_gc_faults = \<lparr>gf_read = (\<lambda>_. False), gf_info = (\<lambda>_. False), gf_remove = (\<lambda>_. False)\<rparr>"

lemma example_wf: "wf_store example_cache"
  by code_simp

theorem gc_exact_witness:
  "\<exists>r s1. GC no_gc_faults 100 50 example_cache = (Inr r, s1) \<and> gc_Removed r = [''sha256:'' @ toy_digest ''abc''] \<and> gc_Bytes r = 3 \<and>
     {n. collectable example_cache 50 n} = {toy_digest ''abc''}"
proof -
  obtain res s1 where gc: "GC no_gc_faults 100 50 example_cache = (res, s1)" by fastforce
  have "map_sum id (\<lambda>r. (gc_Removed r, gc_Bytes r)) (fst (GC no_gc_faults 100 50 example_cache)) = Inr ([''sha256:'' @ toy_digest ''abc''], 3)"
    by code_simp
  then obtain r where r: "res = Inr r" "gc_Removed r = [''sha256:'' @ toy_digest ''abc'']" "gc_Bytes r = 3" using gc by (cases res) auto
  with gc_exact [OF example_wf gc] have "(\<lambda>n. ''sha256:'' @ n) ` {n. collectable example_cache 50 n} = (\<lambda>n. ''sha256:'' @ n) ` {toy_digest ''abc''}" by simp
  then have "{n. collectable example_cache 50 n} = {toy_digest ''abc''}" by (subst (asm) inj_image_eq_iff) (simp_all add: inj_def)
  with gc r show ?thesis by blast
qed

theorem leased_blob_survives_witness:
  "holds toy_digest (run (cache_step toy_digest) [OpGC no_gc_faults 100 50, OpRelease False ''b2'', OpGC no_gc_faults 1000 0] example_cache) (toy_digest ''a'') \<and>
   \<not> holds toy_digest (run (cache_step toy_digest) [OpGC no_gc_faults 100 50, OpRelease False ''b1'', OpGC no_gc_faults 1000 0] example_cache) (toy_digest ''a'')"
proof -
  have "gm_get (cs_blobs example_cache) (toy_digest ''a'') = Some (Blob ''a'' 10)" by code_simp
  then have "protected toy_digest ''b1'' (toy_digest ''a'') example_cache"
    using example_wf by (simp add: protected_def holds_def) (simp add: example_cache_def)
  moreover have "gm_get (cs_blobs (run (cache_step toy_digest) [OpGC no_gc_faults 100 50, OpRelease False ''b1'', OpGC no_gc_faults 1000 0] example_cache)) (toy_digest ''a'') = None"
    by code_simp
  ultimately show ?thesis
    using leased_blob_survives [of toy_digest "''b1''" "toy_digest ''a''" example_cache "[OpGC no_gc_faults 100 50, OpRelease False ''b2'', OpGC no_gc_faults 1000 0]"]
    by (simp add: holds_def)
qed

end
