(* ===== verification/Chunk_Store.thy ===== *)
theory Chunk_Store
  imports Content_Cache Go_Text
begin

text \<open>
  Large objects in a content store: \<^verbatim>\<open>internal/cache/content.go\<close> cuts an input into chunks that are stored and verified one by one,
  at once or in a session that survives crashes, and \<^verbatim>\<open>replicate.go\<close> copies a blob between stores. They use the interface
  \<^verbatim>\<open>ContentStore\<close>, so their operations take the store's as arguments and their laws are a locale, interpreted on the
  cache at the end. A reader is the bytes it delivers and whether it then fails instead of ending; what the
  store meets in each call is an argument, indexed by the number of the call.
\<close>

section \<open>Objects in chunks\<close>

definition DefaultChunkSize :: int where "DefaultChunkSize = 4194304"

definition sessionIDPattern :: "string \<Rightarrow> bool" where
  "sessionIDPattern = label_match (\<lambda>c. is_lower c \<or> is_digit c) (\<lambda>c. is_lower c \<or> is_digit c \<or> c = CHR ''-'') 62"

record ChunkManifest =
  cm_APIVersion :: string
  cm_Size :: int
  cm_ChunkSize :: int
  cm_Chunks :: "Descriptor list"

record source =
  so_data :: string
  so_fails :: bool

datatype chunk_error = Store cache_error | Canceled | ReadFailed | InvalidManifest | InvalidSession | MissingChunk string | SizeMismatch | DescriptorMismatch | InvalidDescriptor

type_synonym ('e, 's) put_op = "'e \<Rightarrow> string \<Rightarrow> 's \<Rightarrow> (cache_error + Descriptor) \<times> 's"

definition chunk_size :: "int \<Rightarrow> int" where
  "chunk_size chunkSize = (if chunkSize \<le> 0 then DefaultChunkSize else chunkSize)"

text \<open>
  The loop of \<^verbatim>\<open>PutChunked\<close>: \<^verbatim>\<open>io.ReadFull\<close> delivers a full chunk, or less at the end or before an error; what it delivered is
  stored in each of these cases. The context is canceled in the rounds \<^verbatim>\<open>ctx\<close> says.
\<close>

function put_chunks ::
  "('e, 's) put_op \<Rightarrow> (nat \<Rightarrow> 'e) \<Rightarrow> (nat \<Rightarrow> bool) \<Rightarrow> nat \<Rightarrow> nat \<Rightarrow> source \<Rightarrow> Descriptor list \<Rightarrow> int \<Rightarrow> 's \<Rightarrow>
   (chunk_error + Descriptor list \<times> int) \<times> 's" where
  "put_chunks put env ctx n i src chunks stored s =
     (if ctx i then (Inl Canceled, s)
      else
        let chunk = take n (so_data src) in
        case (if chunk = [] then (Inr (chunks, stored), s)
              else case put (env i) chunk s of
                (Inl e, s1) \<Rightarrow> (Inl (Store e), s1)
              | (Inr d, s1) \<Rightarrow> (Inr (chunks @ [d], i64 (stored + int (length chunk))), s1)) of
          (Inl e, s1) \<Rightarrow> (Inl e, s1)
        | (Inr (chunks1, stored1), s1) \<Rightarrow>
            if 0 < n \<and> n \<le> length (so_data src)
              then put_chunks put env ctx n (Suc i) (src\<lparr>so_data := drop n (so_data src)\<rparr>) chunks1 stored1 s1
            else if so_fails src then (Inl ReadFailed, s1)
            else (Inr (chunks1, stored1), s1))"
  by pat_completeness auto
termination
  by (relation "measure (\<lambda>(put, env, ctx, n, i, src, chunks, stored, s). length (so_data src))") auto

declare put_chunks.simps [simp del]

definition manifest_of :: "int \<Rightarrow> Descriptor list \<Rightarrow> int \<Rightarrow> ChunkManifest" where
  "manifest_of chunkSize chunks stored =
     \<lparr>cm_APIVersion = ''platform-factory.dev/chunks/v1'', cm_Size = stored, cm_ChunkSize = chunkSize, cm_Chunks = chunks\<rparr>"

definition PutChunked ::
  "('e, 's) put_op \<Rightarrow> (ChunkManifest \<Rightarrow> string) \<Rightarrow> (nat \<Rightarrow> 'e) \<Rightarrow> (nat \<Rightarrow> bool) \<Rightarrow> source \<Rightarrow> int \<Rightarrow> 's \<Rightarrow>
   (chunk_error + Descriptor \<times> ChunkManifest) \<times> 's" where
  "PutChunked put enc env ctx src chunkSize s =
     (case put_chunks put env ctx (nat (chunk_size chunkSize)) 0 src [] 0 s of
        (Inl e, s1) \<Rightarrow> (Inl e, s1)
      | (Inr (chunks, stored), s1) \<Rightarrow>
          let manifest = manifest_of (chunk_size chunkSize) chunks stored in
          (case put (env (Suc (length chunks))) (enc manifest) s1 of
             (Inl e, s2) \<Rightarrow> (Inl (Store e), s2)
           | (Inr root, s2) \<Rightarrow> (Inr (root, manifest), s2)))"

definition OpenChunked ::
  "('s \<Rightarrow> string \<Rightarrow> cache_error option) \<Rightarrow> ('s \<Rightarrow> string \<Rightarrow> cache_error + string) \<Rightarrow> (string \<Rightarrow> ChunkManifest option) \<Rightarrow> 's \<Rightarrow> Descriptor \<Rightarrow>
   chunk_error + ChunkManifest" where
  "OpenChunked verify get dec s root =
     (case verify s (de_Digest root) of
        Some e \<Rightarrow> Inl (Store e)
      | None \<Rightarrow>
          (case get s (de_Digest root) of
             Inl e \<Rightarrow> Inl (Store e)
           | Inr file_data \<Rightarrow>
               (case dec (take 16777216 file_data) of
                  None \<Rightarrow> Inl InvalidManifest
                | Some m \<Rightarrow>
                    if cm_APIVersion m \<noteq> ''platform-factory.dev/chunks/v1'' \<and> cm_APIVersion m \<noteq> ''secure-oci.dev/chunks/v1'' \<or> cm_ChunkSize m \<le> 0
                      then Inl InvalidManifest
                    else Inr m)))"

text \<open>Reading an opened object to its end: the bytes delivered and the error that ended it.\<close>

fun read_chunks ::
  "('s \<Rightarrow> string \<Rightarrow> cache_error option) \<Rightarrow> ('s \<Rightarrow> string \<Rightarrow> cache_error + string) \<Rightarrow> 's \<Rightarrow> Descriptor list \<Rightarrow> string \<times> cache_error option" where
  "read_chunks verify get s [] = ([], None)"
| "read_chunks verify get s (d # ds) =
     (case verify s (de_Digest d) of
        Some e \<Rightarrow> ([], Some e)
      | None \<Rightarrow>
          (case get s (de_Digest d) of
             Inl e \<Rightarrow> ([], Some e)
           | Inr x \<Rightarrow> (case read_chunks verify get s ds of (rest, e) \<Rightarrow> (x @ rest, e))))"

section \<open>Replication\<close>

definition verifyStoredDescriptor ::
  "('s \<Rightarrow> string \<Rightarrow> cache_error option) \<Rightarrow> ('s \<Rightarrow> string \<Rightarrow> cache_error + string) \<Rightarrow> 's \<Rightarrow> Descriptor \<Rightarrow> chunk_error option" where
  "verifyStoredDescriptor verify get s d =
     (case verify s (de_Digest d) of
        Some e \<Rightarrow> Some (Store e)
      | None \<Rightarrow>
          (case get s (de_Digest d) of
             Inl e \<Rightarrow> Some (Store e)
           | Inr x \<Rightarrow> if int (length (take (nat (i64 (de_Size d + 1))) x)) \<noteq> de_Size d then Some SizeMismatch else None))"

text \<open>\<^verbatim>\<open>Replicate\<close> to a destination with its own state; the context is canceled before the start, or during the copy, which then fails.\<close>

definition Replicate ::
  "('t \<Rightarrow> string \<Rightarrow> cache_error option) \<Rightarrow> ('t \<Rightarrow> string \<Rightarrow> cache_error + string) \<Rightarrow>
   ('s \<Rightarrow> string \<Rightarrow> cache_error + bool) \<Rightarrow> ('s \<Rightarrow> string \<Rightarrow> cache_error option) \<Rightarrow> ('s \<Rightarrow> string \<Rightarrow> cache_error + string) \<Rightarrow> ('e, 's) put_op \<Rightarrow>
   bool \<Rightarrow> 'e \<Rightarrow> Descriptor \<Rightarrow> 't \<Rightarrow> 's \<Rightarrow> chunk_error option \<times> 's" where
  "Replicate src_verify src_get exists verify get put canceled env d t s =
     (if de_Size d < 0 then (Some InvalidDescriptor, s)
      else case parseDigest (de_Digest d) of
        Inl e \<Rightarrow> (Some InvalidDescriptor, s)
      | Inr _ \<Rightarrow>
          if canceled then (Some Canceled, s)
          else (case exists s (de_Digest d) of
            Inl e \<Rightarrow> (Some (Store e), s)
          | Inr True \<Rightarrow> (verifyStoredDescriptor verify get s d, s)
          | Inr False \<Rightarrow>
              (case src_verify t (de_Digest d) of
                 Some e \<Rightarrow> (Some (Store e), s)
               | None \<Rightarrow>
                   (case src_get t (de_Digest d) of
                      Inl e \<Rightarrow> (Some (Store e), s)
                    | Inr x \<Rightarrow>
                        let stream = take (nat (i64 (de_Size d + 1))) x in
                        (case put env stream s of
                           (Inl e, s1) \<Rightarrow> (Some (Store e), s1)
                         | (Inr installed, s1) \<Rightarrow>
                             if int (length stream) \<noteq> de_Size d then (Some SizeMismatch, s1)
                             else if installed \<noteq> d then (Some DescriptorMismatch, s1)
                             else (map_option Store (verify s1 (de_Digest d)), s1))))))"

section \<open>Sessions that survive crashes\<close>

record ChunkSession =
  sn_record :: chunkSessionRecord
  sn_key :: string

fun missing_chunk :: "cache_store \<Rightarrow> Descriptor list \<Rightarrow> string option" where
  "missing_chunk s [] = None"
| "missing_chunk s (d # ds) = (if Exists False s (de_Digest d) = Inr True then missing_chunk s ds else Some (de_Digest d))"

definition OpenChunkSession ::
  "(string \<Rightarrow> string) \<Rightarrow> write_fault \<Rightarrow> string \<Rightarrow> int \<Rightarrow> cache_store \<Rightarrow> (chunk_error + ChunkSession) \<times> cache_store" where
  "OpenChunkSession H f sessionID chunkSize s =
     (if \<not> sessionIDPattern sessionID then (Inl InvalidSession, s)
      else
        let key = ''sha256:'' @ H (''chunk-session:'' @ sessionID) in
        case GetRecord s key of
          Inl e \<Rightarrow> (Inl (Store e), s)
        | Inr (Some (SessionRecord r)) \<Rightarrow>
            if se_APIVersion r \<noteq> ''platform-factory.dev/chunk-session/v1'' \<or> se_ID r \<noteq> sessionID \<or> se_ChunkSize r \<noteq> chunk_size chunkSize
              then (Inl InvalidSession, s)
            else (case missing_chunk s (se_Chunks r) of
              Some d \<Rightarrow> (Inl (MissingChunk d), s)
            | None \<Rightarrow> (Inr \<lparr>sn_record = r, sn_key = key\<rparr>, s))
        | Inr (Some (StageRecord _)) \<Rightarrow> (Inl InvalidSession, s)
        | Inr None \<Rightarrow>
            let r = \<lparr>se_APIVersion = ''platform-factory.dev/chunk-session/v1'', se_ID = sessionID, se_ChunkSize = chunk_size chunkSize, se_Size = 0, se_Chunks = []\<rparr> in
            (case PutRecord f key (SessionRecord r) s of
               (Some e, s1) \<Rightarrow> (Inl (Store e), s1)
             | (None, s1) \<Rightarrow> (Inr \<lparr>sn_record = r, sn_key = key\<rparr>, s1)))"

definition Offset :: "ChunkSession \<Rightarrow> int" where
  "Offset c = se_Size (sn_record c)"

text \<open>What the store meets in one checkpoint: the blob and the record are written.\<close>

record checkpoint_env =
  ce_put :: put_faults
  ce_now :: int
  ce_record :: write_fault

definition checkpoint ::
  "(string \<Rightarrow> string) \<Rightarrow> checkpoint_env \<Rightarrow> string \<Rightarrow> ChunkSession \<Rightarrow> cache_store \<Rightarrow> chunk_error option \<times> ChunkSession \<times> cache_store" where
  "checkpoint H e payload c s =
     (case Put H (ce_put e) (ce_now e) payload s of
        (Inl err, s1) \<Rightarrow> (Some (Store err), c, s1)
      | (Inr d, s1) \<Rightarrow>
          let r = (sn_record c)\<lparr>se_Chunks := se_Chunks (sn_record c) @ [d], se_Size := i64 (se_Size (sn_record c) + int (length payload))\<rparr> in
          (case PutRecord (ce_record e) (sn_key c) (SessionRecord r) s1 of
             (Some err, s2) \<Rightarrow> (Some (Store err), c, s2)
           | (None, s2) \<Rightarrow> (None, c\<lparr>sn_record := r\<rparr>, s2)))"

function Session_Append ::
  "(string \<Rightarrow> string) \<Rightarrow> (nat \<Rightarrow> checkpoint_env) \<Rightarrow> (nat \<Rightarrow> bool) \<Rightarrow> nat \<Rightarrow> source \<Rightarrow> ChunkSession \<Rightarrow> cache_store \<Rightarrow>
   chunk_error option \<times> ChunkSession \<times> cache_store" where
  "Session_Append H env ctx i src c s =
     (let n = nat (se_ChunkSize (sn_record c)); payload = take n (so_data src) in
      if ctx i then (Some Canceled, c, s)
      else if 0 < n \<and> n \<le> length (so_data src) then
        (case checkpoint H (env i) payload c s of
           (Some e, c1, s1) \<Rightarrow> (Some e, c1, s1)
         | (None, c1, s1) \<Rightarrow> Session_Append H env ctx (Suc i) (src\<lparr>so_data := drop n (so_data src)\<rparr>) c1 s1)
      else if so_fails src then (Some ReadFailed, c, s)
      else if payload = [] then (None, c, s)
      else checkpoint H (env i) payload c s)"
  by pat_completeness auto
termination
  by (relation "measure (\<lambda>(H, env, ctx, i, src, c, s). length (so_data src))") auto

declare Session_Append.simps [simp del]

definition Finalize ::
  "(string \<Rightarrow> string) \<Rightarrow> (ChunkManifest \<Rightarrow> string) \<Rightarrow> put_faults \<Rightarrow> int \<Rightarrow> bool \<Rightarrow> ChunkSession \<Rightarrow> cache_store \<Rightarrow>
   (chunk_error + Descriptor \<times> ChunkManifest) \<times> cache_store" where
  "Finalize H enc f now removeFails c s =
     (let manifest = manifest_of (se_ChunkSize (sn_record c)) (se_Chunks (sn_record c)) (se_Size (sn_record c)) in
      case Put H f now (enc manifest) s of
        (Inl e, s1) \<Rightarrow> (Inl (Store e), s1)
      | (Inr root, s1) \<Rightarrow>
          (case DeleteRecord removeFails (sn_key c) s1 of
             (Some e, s2) \<Rightarrow> (Inl (Store e), s2)
           | (None, s2) \<Rightarrow> (Inr (root, manifest), s2)))"

section \<open>The contract of a content store\<close>

definition descriptor_of :: "(string \<Rightarrow> string) \<Rightarrow> string \<Rightarrow> Descriptor" where
  "descriptor_of addr x = \<lparr>de_Digest = addr x, de_Size = int (length x)\<rparr>"

text \<open>The blob under the digest of a text is that text, not another one with the same digest.\<close>

definition no_collision :: "('s \<Rightarrow> string \<Rightarrow> cache_error + string) \<Rightarrow> (string \<Rightarrow> string) \<Rightarrow> 's \<Rightarrow> string \<Rightarrow> bool" where
  "no_collision get addr s x \<longleftrightarrow> (case get s (addr x) of Inr y \<Rightarrow> addr y = addr x \<longrightarrow> y = x | Inl e \<Rightarrow> True)"

function pieces :: "nat \<Rightarrow> string \<Rightarrow> string list" where
  "pieces n xs = (if n = 0 \<or> xs = [] then [] else take n xs # pieces n (drop n xs))"
  by pat_completeness auto
termination
  by (relation "measure (\<lambda>(n, xs). length xs)") auto

declare pieces.simps [simp del]

lemma concat_pieces: "0 < n \<Longrightarrow> concat (pieces n xs) = xs"
  by (induction n xs rule: pieces.induct) (subst pieces.simps, auto)

locale content_store =
  fixes put :: "('e, 's) put_op"
    and get :: "'s \<Rightarrow> string \<Rightarrow> cache_error + string"
    and verify :: "'s \<Rightarrow> string \<Rightarrow> cache_error option"
    and addr :: "string \<Rightarrow> string"
    and good :: "'e \<Rightarrow> bool"
  assumes put_ok: "put e x s = (Inr d, s1) \<Longrightarrow> d = descriptor_of addr x \<and> verify s1 (addr x) = None"
    and put_keeps: "good e \<Longrightarrow> verify s a = None \<Longrightarrow> verify (snd (put e x s)) a = None"
    and verified_content: "verify s a = None \<Longrightarrow> \<exists>x. get s a = Inr x \<and> addr x = a"
begin

lemma stored_content: "verify s (addr x) = None \<Longrightarrow> no_collision get addr s x \<Longrightarrow> get s (addr x) = Inr x"
  using verified_content [of s "addr x"] by (auto simp: no_collision_def)

lemma read_chunks_ok:
  "(\<forall>x \<in> set xs. verify s (addr x) = None \<and> no_collision get addr s x) \<Longrightarrow>
   read_chunks verify get s (map (descriptor_of addr) xs) = (concat xs, None)"
  by (induction xs) (auto simp: descriptor_of_def stored_content)

lemma put_chunks_ok:
  assumes "0 < n" "\<forall>i. good (env i)"
  shows "put_chunks put env ctx n i src chunks stored s = (Inr (chunks1, stored1), s1) \<Longrightarrow>
    chunks1 = chunks @ map (descriptor_of addr) (pieces n (so_data src)) \<and> \<not> so_fails src \<and>
    (\<forall>x \<in> set (pieces n (so_data src)). verify s1 (addr x) = None) \<and> (\<forall>a. verify s a = None \<longrightarrow> verify s1 a = None)"
proof (induction "length (so_data src)" arbitrary: src i chunks stored s rule: less_induct)
  case less
  let ?chunk = "take n (so_data src)"
  show ?case
  proof (cases "so_data src = []")
    case True
    with less.prems assms(1) show ?thesis
      by (subst (asm) put_chunks.simps) (auto simp: Let_def pieces.simps [of n "[]"] split: if_splits)
  next
    case False
    with assms(1) have ne: "?chunk \<noteq> []" by simp
    with less.prems obtain d s2 where p: "put (env i) ?chunk s = (Inr d, s2)" and
      rest: "(if n \<le> length (so_data src)
          then put_chunks put env ctx n (Suc i) (src\<lparr>so_data := drop n (so_data src)\<rparr>) (chunks @ [d]) (i64 (stored + int (length ?chunk))) s2
          else if so_fails src then (Inl ReadFailed, s2) else (Inr (chunks @ [d], i64 (stored + int (length ?chunk))), s2)) = (Inr (chunks1, stored1), s1)"
      using assms(1) by (subst (asm) put_chunks.simps) (auto simp: Let_def split: if_splits prod.splits sum.splits)
    from put_ok [OF p] have d: "d = descriptor_of addr ?chunk" "verify s2 (addr ?chunk) = None" by auto
    have keep: "verify s a = None \<Longrightarrow> verify s2 a = None" for a using put_keeps [of "env i" s a ?chunk] assms(2) p by simp
    have ps: "pieces n (so_data src) = ?chunk # pieces n (drop n (so_data src))" using False assms(1) by (subst pieces.simps) simp
    show ?thesis
    proof (cases "n \<le> length (so_data src)")
      case True
      with rest have run: "put_chunks put env ctx n (Suc i) (src\<lparr>so_data := drop n (so_data src)\<rparr>) (chunks @ [d]) (i64 (stored + int (length ?chunk))) s2 =
        (Inr (chunks1, stored1), s1)" by simp
      from less.hyps [OF _ run] True False assms(1) d keep ps show ?thesis by simp
    next
      case notfull: False
      then have "pieces n (drop n (so_data src)) = []" by (subst pieces.simps) simp
      with rest notfull d keep ps show ?thesis by (auto split: if_splits)
    qed
  qed
qed

lemma chunked_object:
  assumes "PutChunked put enc env ctx src chunkSize s = (Inr (root, m), s1)" "\<forall>i. good (env i)"
    and "dec (take 16777216 (enc m)) = Some m" "no_collision get addr s1 (enc m)"
    and "\<forall>x \<in> set (pieces (nat (chunk_size chunkSize)) (so_data src)). no_collision get addr s1 x"
  shows "OpenChunked verify get dec s1 root = Inr m \<and> read_chunks verify get s1 (cm_Chunks m) = (so_data src, None) \<and> \<not> so_fails src"
proof -
  let ?n = "nat (chunk_size chunkSize)"
  have n: "0 < ?n" by (simp add: chunk_size_def DefaultChunkSize_def)
  from assms(1) obtain chunks stored s2 where run: "put_chunks put env ctx ?n 0 src [] 0 s = (Inr (chunks, stored), s2)"
    and m: "m = manifest_of (chunk_size chunkSize) chunks stored" and p: "put (env (Suc (length chunks))) (enc m) s2 = (Inr root, s1)"
    by (auto simp: PutChunked_def Let_def split: prod.splits sum.splits)
  have chunks: "chunks = map (descriptor_of addr) (pieces ?n (so_data src))" "\<not> so_fails src"
    "\<forall>x \<in> set (pieces ?n (so_data src)). verify s2 (addr x) = None"
    using put_chunks_ok [OF n assms(2) run] by auto
  then have "\<forall>x \<in> set (pieces ?n (so_data src)). verify s1 (addr x) = None"
    using put_keeps [of "env (Suc (length chunks))" s2] assms(2) p by (metis snd_conv)
  with chunks(1) assms(5) m have "read_chunks verify get s1 (cm_Chunks m) = (concat (pieces ?n (so_data src)), None)"
    by (simp add: manifest_of_def read_chunks_ok)
  moreover have "root = descriptor_of addr (enc m)" "verify s1 (addr (enc m)) = None" using put_ok [OF p] by auto
  moreover have "0 < chunk_size chunkSize" by (simp add: chunk_size_def DefaultChunkSize_def)
  ultimately show ?thesis using chunks(2) assms(3) stored_content [OF _ assms(4)] m concat_pieces [OF n]
    by (simp add: OpenChunked_def descriptor_of_def manifest_of_def)
qed

text \<open>
  A replica has the stated digest and size, its content is the source's when it was copied, and good blobs of the destination
  are kept whatever happens.
\<close>

lemma take_shorter: "int (length (take (nat (i64 (m + 1))) x)) = m \<Longrightarrow> take (nat (i64 (m + 1))) x = x"
proof -
  assume a: "int (length (take (nat (i64 (m + 1))) x)) = m"
  show ?thesis
  proof (cases "m + 1 < 2 ^ 63")
    case True
    with a have "i64 (m + 1) = m + 1" by (intro i64_id) auto
    with a show ?thesis by (auto simp: min_def split: if_splits)
  next
    case False
    have "i64 (m + 1) < 2 ^ 63" using i64_range [of "m + 1"] by (simp add: in_i64_def)
    moreover have "m = MaxInt64 \<Longrightarrow> i64 (m + 1) = - (2 ^ 63)" by (simp add: i64_def)
    ultimately show ?thesis using a False by (cases "m = MaxInt64") (auto simp: min_def split: if_splits)
  qed
qed

lemma replica:
  assumes "Replicate src_verify src_get exists verify get put canceled env d t s = (res, s1)" "good env"
  shows "\<forall>a. verify s a = None \<longrightarrow> verify s1 a = None"
    and "res = None \<Longrightarrow> \<exists>y. addr y = de_Digest d \<and> int (length y) = de_Size d \<and> (no_collision get addr s1 y \<longrightarrow> get s1 (de_Digest d) = Inr y) \<and>
      (exists s (de_Digest d) = Inr False \<longrightarrow> src_get t (de_Digest d) = Inr y)"
proof -
  have keep: "put env x s = (r, s1) \<Longrightarrow> \<forall>a. verify s a = None \<longrightarrow> verify s1 a = None" for x r
    using put_keeps [OF assms(2), of s _ x] by simp
  then show "\<forall>a. verify s a = None \<longrightarrow> verify s1 a = None"
    using assms(1) by (auto simp: Replicate_def Let_def split: if_splits sum.splits option.splits prod.splits bool.splits)
  assume "res = None"
  then consider
    (present) "exists s (de_Digest d) = Inr True" "verifyStoredDescriptor verify get s d = None" "s1 = s"
  | (copied) x where "exists s (de_Digest d) = Inr False" "src_get t (de_Digest d) = Inr x" "put env (take (nat (i64 (de_Size d + 1))) x) s = (Inr d, s1)"
      "int (length (take (nat (i64 (de_Size d + 1))) x)) = de_Size d"
  proof (cases "exists s (de_Digest d)")
    case (Inr found)
    show ?thesis
    proof (cases found)
      case True
      with \<open>res = None\<close> assms(1) Inr have "verifyStoredDescriptor verify get s d = None \<and> s1 = s" by (auto simp: Replicate_def split: if_splits sum.splits)
      with Inr True present show ?thesis by simp
    next
      case False
      with \<open>res = None\<close> assms(1) Inr obtain x where x: "src_get t (de_Digest d) = Inr x"
        by (simp add: Replicate_def split: if_splits sum.splits option.splits)
      obtain r s2 where p: "put env (take (nat (i64 (de_Size d + 1))) x) s = (r, s2)" by fastforce
      from \<open>res = None\<close> assms(1) Inr False x p have "r = Inr d \<and> s2 = s1 \<and> int (length (take (nat (i64 (de_Size d + 1))) x)) = de_Size d"
        by (simp add: Replicate_def Let_def split: if_splits sum.splits option.splits)
      with Inr False x p copied show ?thesis by simp
    qed
  qed (use assms(1) in \<open>auto simp: Replicate_def split: if_splits sum.splits\<close>)
  then show "\<exists>y. addr y = de_Digest d \<and> int (length y) = de_Size d \<and> (no_collision get addr s1 y \<longrightarrow> get s1 (de_Digest d) = Inr y) \<and>
      (exists s (de_Digest d) = Inr False \<longrightarrow> src_get t (de_Digest d) = Inr y)"
  proof cases
    case present
    then obtain x where x: "verify s (de_Digest d) = None" "get s (de_Digest d) = Inr x" "int (length (take (nat (i64 (de_Size d + 1))) x)) = de_Size d"
      by (auto simp: verifyStoredDescriptor_def split: option.splits sum.splits if_splits)
    with verified_content [OF x(1)] take_shorter [OF x(3)] present show ?thesis by (intro exI [of _ x]) auto
  next
    case copied
    note x = take_shorter [OF copied(4)]
    from put_ok [OF copied(3)] x have "d = descriptor_of addr x" "verify s1 (addr x) = None" by auto
    with copied(1,2) stored_content show ?thesis by (intro exI [of _ x]) (auto simp: descriptor_of_def)
  qed
qed

end

section \<open>The cache as a content store\<close>

text \<open>SHA-256 is any function into 256 bits; its hexadecimal text always is a digest.\<close>

definition hex_digest :: "(string \<Rightarrow> 256 word) \<Rightarrow> string \<Rightarrow> string" where
  "hex_digest sha x = hex_encode (map (\<lambda>i. ucast (drop_bit (8 * (31 - i)) (sha x))) [0..<32])"

lemma hex_digit_lower: "n < 16 \<Longrightarrow> is_hex_lower (hex_digit n)"
proof -
  have "list_all (\<lambda>n. is_hex_lower (hex_digit n)) [0..<16]" by code_simp
  then show "n < 16 \<Longrightarrow> ?thesis" by (simp add: list_all_iff)
qed

lemma hex_digest_pattern: "digestPattern (hex_digest sha x)"
proof -
  have len: "length (hex_encode ws) = 2 * length ws" for ws by (induction ws) (simp_all add: hex_encode_def hex_byte_def)
  have "list_all is_hex_lower (hex_encode ws)" for ws
    by (auto simp: hex_encode_def hex_byte_def list_all_iff hex_digit_lower unat_div16)
  then show ?thesis by (simp add: digestPattern_def hex_digest_def len)
qed

definition blob_address :: "(string \<Rightarrow> 256 word) \<Rightarrow> string \<Rightarrow> string" where
  "blob_address sha x = ''sha256:'' @ hex_digest sha x"

definition cache_put :: "(string \<Rightarrow> 256 word) \<Rightarrow> (put_faults \<times> int, cache_store) put_op" where
  "cache_put sha e = Put (hex_digest sha) (fst e) (snd e)"

lemma Verify_address: "Verify (hex_digest sha) s a = None \<longleftrightarrow> (\<exists>n. a = ''sha256:'' @ n \<and> digestPattern n \<and> holds (hex_digest sha) s n)"
  by (auto simp: Verify_def verifyFile_None parseDigest_Inr split: sum.splits)
    (metis Inl_Inr_False parseDigest_Inr Cons_eq_appendI append.simps(1))+

interpretation cache: content_store "cache_put sha" Get "Verify (hex_digest sha)" "blob_address sha" "\<lambda>e. \<not> loses_blob (fst e)" for sha
proof
  fix e x s d s1
  assume "cache_put sha e x s = (Inr d, s1)"
  then show "d = descriptor_of (blob_address sha) x \<and> Verify (hex_digest sha) s1 (blob_address sha x) = None"
    using Put_ok [of "hex_digest sha" "fst e" "snd e" x s d s1]
    by (simp add: cache_put_def descriptor_of_def blob_address_def Verify_address hex_digest_pattern)
next
  fix e s a x
  assume "\<not> loses_blob (fst (e :: put_faults \<times> int))" "Verify (hex_digest sha) s a = None"
  then show "Verify (hex_digest sha) (snd (cache_put sha e x s)) a = None"
    by (auto simp: Verify_address cache_put_def Put_keeps)
next
  fix s a
  assume "Verify (hex_digest sha) s a = None"
  then obtain n x t where "a = ''sha256:'' @ n" "digestPattern n" "gm_get (cs_blobs s) n = Some (Blob x t)" "hex_digest sha x = n"
    by (auto simp: Verify_address holds_def)
  then show "\<exists>x. Get s a = Inr x \<and> blob_address sha x = a"
    using parseDigest_Inr [of a n] by (auto simp: Get_def blob_address_def)
qed

text \<open>
  An input that was stored in chunks is read back from the descriptor of its manifest, byte for byte: the manifest
  is accepted and its chunks verify and join to the input. This holds for every chunk size and every fault that the
  calls survived, when the manifest is decoded from the 16 MiB that are read of it and the digests of its parts do not collide
  in the store.
\<close>

theorem chunk_round_trip:
  assumes "PutChunked (cache_put sha) enc env ctx src chunkSize s = (Inr (root, m), s1)" "\<forall>i. \<not> loses_blob (fst (env i))"
    and "dec (take 16777216 (enc m)) = Some m" "no_collision Get (blob_address sha) s1 (enc m)"
    and "\<forall>x \<in> set (pieces (nat (chunk_size chunkSize)) (so_data src)). no_collision Get (blob_address sha) s1 x"
  shows "OpenChunked (Verify (hex_digest sha)) Get dec s1 root = Inr m \<and>
    read_chunks (Verify (hex_digest sha)) Get s1 (cm_Chunks m) = (so_data src, None)"
  using cache.chunked_object [where dec = dec and enc = enc and m = m, OF assms] by simp

text \<open>Replicating a blob from one cache to another.\<close>

lemma replicated_blob:
  assumes "Replicate (Verify (hex_digest sha)) Get (Exists sf) (Verify (hex_digest sha)) Get (cache_put sha) canceled env d t s = (None, s1)"
    and "\<not> loses_blob (fst env)"
  shows "\<exists>y. blob_address sha y = de_Digest d \<and> int (length y) = de_Size d \<and> (no_collision Get (blob_address sha) s1 y \<longrightarrow> Get s1 (de_Digest d) = Inr y)"
  using cache.replica(2) [OF assms refl] by blast

section \<open>Resuming a session\<close>

text \<open>The chunks of a record are in the store and join to the content.\<close>

definition session_holds :: "(string \<Rightarrow> 256 word) \<Rightarrow> cache_store \<Rightarrow> chunkSessionRecord \<Rightarrow> string \<Rightarrow> bool" where
  "session_holds sha s r content \<longleftrightarrow>
     (\<exists>xs. se_Chunks r = map (descriptor_of (blob_address sha)) xs \<and> concat xs = content \<and> (\<forall>x \<in> set xs. holds (hex_digest sha) s (hex_digest sha x))) \<and>
     se_Size r = int (length content)"

definition same_session :: "chunkSessionRecord \<Rightarrow> chunkSessionRecord \<Rightarrow> bool" where
  "same_session r q \<longleftrightarrow> se_APIVersion r = se_APIVersion q \<and> se_ID r = se_ID q \<and> se_ChunkSize r = se_ChunkSize q"

text \<open>The record on disk.\<close>

definition durable :: "(string \<Rightarrow> 256 word) \<Rightarrow> cache_store \<Rightarrow> ChunkSession \<Rightarrow> string \<Rightarrow> bool" where
  "durable sha s c content \<longleftrightarrow>
     (\<exists>r. GetRecord s (sn_key c) = Inr (Some (SessionRecord r)) \<and> same_session r (sn_record c) \<and> session_holds sha s r content)"

lemma session_holds_mono:
  "session_holds sha s r content \<Longrightarrow> (\<And>n. holds (hex_digest sha) s n \<Longrightarrow> holds (hex_digest sha) t n) \<Longrightarrow> session_holds sha t r content"
  unfolding session_holds_def by blast

lemma session_holds_snoc:
  assumes "session_holds sha s r acc" "holds (hex_digest sha) s (hex_digest sha x)" "int (length acc) + int (length x) < 2 ^ 63"
  shows "session_holds sha s (r\<lparr>se_Chunks := se_Chunks r @ [descriptor_of (blob_address sha) x], se_Size := i64 (se_Size r + int (length x))\<rparr>) (acc @ x)"
proof -
  from assms(1) obtain xs where "se_Chunks r = map (descriptor_of (blob_address sha)) xs" "concat xs = acc"
    "\<forall>x \<in> set xs. holds (hex_digest sha) s (hex_digest sha x)" "se_Size r = int (length acc)" by (auto simp: session_holds_def)
  then show ?thesis using assms(2,3) unfolding session_holds_def
    by (intro conjI exI [of _ "xs @ [x]"]) (simp_all add: i64_id)
qed

lemma PutRecord_stored:
  assumes "PutRecord f (''sha256:'' @ k) doc s = (e, s1)" "digestPattern k"
  shows "GetRecord s1 (''sha256:'' @ k) = Inr (Some doc) \<or> e \<noteq> None \<and> s1 = s"
proof -
  have p: "parseDigest (''sha256:'' @ k) = Inr k" using assms(2) by (simp add: parseDigest_Inr)
  show ?thesis using assms(1) unfolding PutRecord_def GetRecord_def p
    by (auto simp: Write_def io_result_def split: if_splits)
qed

lemma checkpoint_ok:
  assumes "checkpoint (hex_digest sha) e x c s = (err, c1, s1)" "\<not> loses_blob (ce_put e)" "sn_key c = ''sha256:'' @ k" "digestPattern k"
    and "session_holds sha s (sn_record c) acc" "durable sha s c acc" "int (length acc) + int (length x) < 2 ^ 63"
  shows "sn_key c1 = sn_key c \<and> same_session (sn_record c1) (sn_record c) \<and>
    (if err = None then session_holds sha s1 (sn_record c1) (acc @ x) \<and> durable sha s1 c1 (acc @ x)
     else session_holds sha s1 (sn_record c1) acc \<and> (durable sha s1 c1 acc \<or> durable sha s1 c1 (acc @ x)))"
proof -
  let ?H = "hex_digest sha"
  obtain res s2 where put: "Put ?H (ce_put e) (ce_now e) x s = (res, s2)" by fastforce
  have keep: "holds ?H s n \<Longrightarrow> holds ?H s2 n" for n using Put_keeps [of ?H s n "ce_put e" "ce_now e" x] assms(2) put by simp
  have records: "cs_records s2 = cs_records s" using Put_frame(2) [of ?H "ce_put e" "ce_now e" x s] put by simp
  then have same: "GetRecord s2 key = GetRecord s key" for key by (simp add: GetRecord_def)
  have acc: "session_holds sha s2 (sn_record c) acc" using assms(5) keep by (rule session_holds_mono)
  have dur: "durable sha s2 c acc" using assms(6) same keep session_holds_mono unfolding durable_def by fastforce
  show ?thesis
  proof (cases res)
    case (Inl err1)
    with assms(1) put acc dur show ?thesis by (auto simp: checkpoint_def same_session_def)
  next
    case (Inr d)
    have d: "d = descriptor_of (blob_address sha) x" "holds ?H s2 (?H x)"
      using Put_ok [OF put [unfolded Inr]] by (simp_all add: descriptor_of_def blob_address_def)
    define r where "r = (sn_record c)\<lparr>se_Chunks := se_Chunks (sn_record c) @ [d], se_Size := i64 (se_Size (sn_record c) + int (length x))\<rparr>"
    have new: "session_holds sha s2 r (acc @ x)" using session_holds_snoc [OF acc d(2) assms(7)] d(1) by (simp add: r_def)
    obtain e2 s3 where rec: "PutRecord (ce_record e) (sn_key c) (SessionRecord r) s2 = (e2, s3)" by fastforce
    have blobs: "holds ?H s3 n = holds ?H s2 n" for n
      using record_files_frame(1) [of "ce_record e" "sn_key c" "SessionRecord r" s2] rec by (simp add: holds_def)
    have new3: "session_holds sha s3 r (acc @ x)" "session_holds sha s3 (sn_record c) acc"
      using new acc blobs by (auto simp: session_holds_def)
    have "same_session r (sn_record c)" by (simp add: r_def same_session_def)
    with PutRecord_stored [OF rec [unfolded assms(3)] assms(4)] assms(3) new3 dur
    have stored: "durable sha s3 c (acc @ x) \<or> e2 \<noteq> None \<and> durable sha s3 c acc" by (auto simp: durable_def)
    show ?thesis
    proof (cases e2)
      case None
      with assms(1) put Inr rec have "err = None" "c1 = c\<lparr>sn_record := r\<rparr>" "s1 = s3" by (simp_all add: checkpoint_def r_def)
      with stored None new3 \<open>same_session r (sn_record c)\<close> show ?thesis by (auto simp: durable_def same_session_def)
    next
      case (Some err1)
      with assms(1) put Inr rec have "err \<noteq> None" "c1 = c" "s1 = s3" by (auto simp: checkpoint_def r_def)
      with stored new3 show ?thesis by (auto simp: same_session_def)
    qed
  qed
qed

lemma Append_ok:
  assumes "\<forall>i. \<not> loses_blob (ce_put (env i))" "sn_key c = ''sha256:'' @ k" "digestPattern k" "0 < se_ChunkSize (sn_record c)"
    and "session_holds sha s (sn_record c) acc" "durable sha s c acc" "int (length acc) + int (length (so_data src)) < 2 ^ 63"
    and "Session_Append (hex_digest sha) env ctx i src c s = (err, c1, s1)"
  shows "sn_key c1 = sn_key c \<and> same_session (sn_record c1) (sn_record c) \<and>
    (\<exists>j m. j \<le> m \<and> m \<le> length (so_data src) \<and> session_holds sha s1 (sn_record c1) (acc @ take j (so_data src)) \<and>
       durable sha s1 c1 (acc @ take m (so_data src)) \<and> (err = None \<longrightarrow> j = length (so_data src)))"
  using assms(2-)
proof (induction "length (so_data src)" arbitrary: src i c s acc rule: less_induct)
  case less
  let ?n = "nat (se_ChunkSize (sn_record c))" and ?data = "so_data src"
  let ?x = "take ?n ?data"
  have bound: "int (length acc) + int (length ?x) < 2 ^ 63" using less.prems(6) by simp
  note ck = checkpoint_ok [OF _ assms(1) [rule_format] less.prems(1,2,4,5) bound]
  have failed: "\<exists>j m. j \<le> m \<and> m \<le> length ?data \<and> session_holds sha s1 (sn_record c1) (acc @ take j ?data) \<and> durable sha s1 c1 (acc @ take m ?data)"
    if "session_holds sha s1 (sn_record c1) acc" "durable sha s1 c1 (acc @ take m ?data)" "m \<le> length ?data" for m
    using that by (intro exI [of _ 0] exI [of _ m]) simp
  consider (stopped) "ctx i \<or> ?n > length ?data \<and> (so_fails src \<or> ?x = [])"
    | (full) "\<not> ctx i" "?n \<le> length ?data" | (last) "\<not> ctx i" "length ?data < ?n" "\<not> so_fails src" "?x \<noteq> []" by linarith
  then show ?case
  proof cases
    case stopped
    with less.prems(3,7) have "c1 = c" "s1 = s" "err = None \<longrightarrow> ?data = []" by (auto simp: Session_Append.simps [of _ _ _ i] Let_def split: if_splits)
    with less.prems(4,5) show ?thesis by (auto simp: same_session_def intro!: exI [of _ 0])
  next
    case last
    with less.prems(7) have run: "checkpoint (hex_digest sha) (env i) ?data c s = (err, c1, s1)"
      by (auto simp: Session_Append.simps [of _ _ _ i] Let_def)
    then have run': "checkpoint (hex_digest sha) (env i) ?x c s = (err, c1, s1)" using last(2) by simp
    show ?thesis
    proof (cases err)
      case None
      with ck [OF run'] last(2) show ?thesis by (intro conjI exI [of _ "length ?data"]) auto
    next
      case (Some e)
      with ck [OF run'] last(2) have "sn_key c1 = sn_key c" "same_session (sn_record c1) (sn_record c)" "session_holds sha s1 (sn_record c1) acc"
        "durable sha s1 c1 acc \<or> durable sha s1 c1 (acc @ ?data)" by auto
      then show ?thesis using Some failed [of 0] failed [of "length ?data"] by auto
    qed
  next
    case full
    obtain err2 c2 s2 where run: "checkpoint (hex_digest sha) (env i) ?x c s = (err2, c2, s2)" by (metis prod_cases3)
    from ck [OF run] have keep: "sn_key c2 = sn_key c" "same_session (sn_record c2) (sn_record c)" by auto
    show ?thesis
    proof (cases err2)
      case (Some e)
      with full less.prems(3,7) run have "err = Some e" "c1 = c2" "s1 = s2" by (auto simp: Session_Append.simps [of _ _ _ i] Let_def)
      with ck [OF run] Some full(2) failed [of 0] failed [of ?n] show ?thesis by auto
    next
      case None
      with ck [OF run] have held: "session_holds sha s2 (sn_record c2) (acc @ ?x)" "durable sha s2 c2 (acc @ ?x)" by auto
      from None full less.prems(3,7) run have rest: "Session_Append (hex_digest sha) env ctx (Suc i) (src\<lparr>so_data := drop ?n ?data\<rparr>) c2 s2 = (err, c1, s1)"
        by (auto simp: Session_Append.simps [of _ _ _ i] Let_def)
      have size: "0 < se_ChunkSize (sn_record c2)" using keep(2) less.prems(3) by (simp add: same_session_def)
      have len: "int (length (acc @ ?x)) + int (length (so_data (src\<lparr>so_data := drop ?n ?data\<rparr>))) < 2 ^ 63" using less.prems(6) full(2) by simp
      have shorter: "length (so_data (src\<lparr>so_data := drop ?n ?data\<rparr>)) < length ?data" using less.prems(3) full(2) by auto
      from less.hyps [OF shorter keep(1) [unfolded less.prems(1)] less.prems(2) size held len rest]
      obtain j m where "j \<le> m" "m \<le> length (drop ?n ?data)" "session_holds sha s1 (sn_record c1) ((acc @ ?x) @ take j (drop ?n ?data))"
        "durable sha s1 c1 ((acc @ ?x) @ take m (drop ?n ?data))" "err = None \<longrightarrow> j = length (drop ?n ?data)"
        "sn_key c1 = sn_key c2" "same_session (sn_record c1) (sn_record c2)" by auto
      with keep full(2) show ?thesis
        by (intro conjI exI [of _ "?n + j"] exI [of _ "?n + m"]) (auto simp: take_add same_session_def)
    qed
  qed
qed

definition session_key :: "(string \<Rightarrow> 256 word) \<Rightarrow> string \<Rightarrow> string" where
  "session_key sha sessionID = ''sha256:'' @ hex_digest sha (''chunk-session:'' @ sessionID)"

lemma session_key_digest: "\<exists>k. session_key sha sessionID = ''sha256:'' @ k \<and> digestPattern k"
  using hex_digest_pattern by (auto simp: session_key_def)

lemma chunk_size_positive: "0 < chunk_size n"
  by (simp add: chunk_size_def DefaultChunkSize_def)

lemma fresh_session:
  assumes "OpenChunkSession (hex_digest sha) f sessionID chunkSize s = (Inr c, s1)" "GetRecord s (session_key sha sessionID) = Inr None"
  shows "sn_key c = session_key sha sessionID \<and> se_ChunkSize (sn_record c) = chunk_size chunkSize \<and>
    session_holds sha s1 (sn_record c) [] \<and> durable sha s1 c []"
proof -
  let ?r = "\<lparr>se_APIVersion = ''platform-factory.dev/chunk-session/v1'', se_ID = sessionID, se_ChunkSize = chunk_size chunkSize, se_Size = 0, se_Chunks = []\<rparr>"
  from assms have c: "c = \<lparr>sn_record = ?r, sn_key = session_key sha sessionID\<rparr>"
    and rec: "PutRecord f (session_key sha sessionID) (SessionRecord ?r) s = (None, s1)"
    by (auto simp: OpenChunkSession_def Let_def session_key_def split: if_splits prod.splits option.splits)
  have "GetRecord s1 (session_key sha sessionID) = Inr (Some (SessionRecord ?r))"
    using PutRecord_stored [OF rec [unfolded session_key_def] hex_digest_pattern] by (simp add: session_key_def)
  moreover have "session_holds sha s1 ?r []" by (simp add: session_holds_def)
  ultimately show ?thesis using c by (simp add: durable_def same_session_def)
qed

lemma reopened_session:
  assumes "OpenChunkSession (hex_digest sha) f sessionID chunkSize s = (Inr c, s1)" "durable sha s c0 content" "sn_key c0 = session_key sha sessionID"
  shows "s1 = s \<and> sn_key c = session_key sha sessionID \<and> se_ChunkSize (sn_record c) = chunk_size chunkSize \<and>
    session_holds sha s1 (sn_record c) content \<and> durable sha s1 c content \<and> Offset c = int (length content)"
proof -
  from assms(2,3) obtain r where r: "GetRecord s (session_key sha sessionID) = Inr (Some (SessionRecord r))" "session_holds sha s r content"
    by (auto simp: durable_def)
  with assms(1) have "s1 = s" "c = \<lparr>sn_record = r, sn_key = session_key sha sessionID\<rparr>" "se_ChunkSize r = chunk_size chunkSize"
    by (auto simp: OpenChunkSession_def Let_def session_key_def split: if_splits option.splits)
  with r show ?thesis by (simp add: durable_def same_session_def Offset_def session_holds_def)
qed

lemma finalized_session:
  assumes "Finalize (hex_digest sha) enc f now removeFails c s = (Inr (root, m), s1)" "\<not> loses_blob f" "session_holds sha s (sn_record c) content"
  shows "\<exists>xs. concat xs = content \<and> cm_Chunks m = map (descriptor_of (blob_address sha)) xs \<and>
    ((\<forall>x \<in> set xs. no_collision Get (blob_address sha) s1 x) \<longrightarrow> read_chunks (Verify (hex_digest sha)) Get s1 (cm_Chunks m) = (content, None))"
proof -
  let ?H = "hex_digest sha"
  from assms(1) obtain s2 where put: "Put ?H f now (enc m) s = (Inr root, s2)" and del: "DeleteRecord removeFails (sn_key c) s2 = (None, s1)"
    and m: "cm_Chunks m = se_Chunks (sn_record c)"
    by (auto simp: Finalize_def manifest_of_def Let_def split: prod.splits sum.splits option.splits)
  have keep: "holds ?H s n \<Longrightarrow> holds ?H s1 n" for n
    using Put_keeps [of ?H s n f now "enc m"] assms(2) put record_files_frame(2) [of removeFails "sn_key c" s2] del by (simp add: holds_def)
  from assms(3) obtain xs where xs: "se_Chunks (sn_record c) = map (descriptor_of (blob_address sha)) xs" "concat xs = content"
    "\<forall>x \<in> set xs. holds ?H s (?H x)" by (auto simp: session_holds_def)
  then have "\<forall>x \<in> set xs. Verify ?H s1 (blob_address sha x) = None"
    using keep by (auto simp: Verify_address blob_address_def hex_digest_pattern)
  with xs m cache.read_chunks_ok [of xs sha s1] show ?thesis by (intro exI [of _ xs]) auto
qed

text \<open>
  A session survives a crash. A new session takes in part of an input, ending with whatever error; it is opened
  again from what is on disk and takes in the input from its offset on; the finished object then is the whole input, in
  chunks that are read back and verified. No byte is lost or taken twice, even when a record was written although its
  write reported an error. Nobody else changes the store in between, no blob is lost by a \<^verbatim>\<open>Put\<close> that can neither read nor
  replace it, the input is below \<^verbatim>\<open>2^63\<close> bytes, and the digests of the chunks do not collide in the store.
\<close>

theorem chunk_session_resumes:
  assumes "GetRecord s0 (session_key sha sessionID) = Inr None" "OpenChunkSession (hex_digest sha) f sessionID chunkSize s0 = (Inr c, s)"
    and "Session_Append (hex_digest sha) env ctx 0 src c s = (err, c1, s1)"
    and "OpenChunkSession (hex_digest sha) f2 sessionID chunkSize s1 = (Inr c2, s2)"
    and "Session_Append (hex_digest sha) env2 ctx2 0 \<lparr>so_data = drop (nat (Offset c2)) (so_data src), so_fails = False\<rparr> c2 s2 = (None, c3, s3)"
    and "Finalize (hex_digest sha) enc f3 now removeFails c3 s3 = (Inr (root, m), s4)"
    and "\<forall>i. \<not> loses_blob (ce_put (env i))" "\<forall>i. \<not> loses_blob (ce_put (env2 i))" "\<not> loses_blob f3" "int (length (so_data src)) < 2 ^ 63"
  shows "\<exists>xs. concat xs = so_data src \<and> cm_Chunks m = map (descriptor_of (blob_address sha)) xs \<and>
    ((\<forall>x \<in> set xs. no_collision Get (blob_address sha) s4 x) \<longrightarrow> read_chunks (Verify (hex_digest sha)) Get s4 (cm_Chunks m) = (so_data src, None))"
proof -
  obtain k where k: "session_key sha sessionID = ''sha256:'' @ k" "digestPattern k" using session_key_digest by blast
  from fresh_session [OF assms(2,1)] have c: "sn_key c = session_key sha sessionID" "0 < se_ChunkSize (sn_record c)"
    "session_holds sha s (sn_record c) []" "durable sha s c []" by (simp_all add: chunk_size_positive)
  from Append_ok [OF assms(7) c(1) [unfolded k(1)] k(2) c(2-4) _ assms(3)] assms(10)
  obtain n where n: "n \<le> length (so_data src)" "durable sha s1 c1 (take n (so_data src))" and key: "sn_key c1 = session_key sha sessionID"
    using c(1) by auto
  from reopened_session [OF assms(4) n(2) key] n(1) have c2: "sn_key c2 = session_key sha sessionID" "0 < se_ChunkSize (sn_record c2)"
    "session_holds sha s2 (sn_record c2) (take n (so_data src))" "durable sha s2 c2 (take n (so_data src))" "nat (Offset c2) = n"
    by (auto simp: chunk_size_positive)
  from Append_ok [OF assms(8) c2(1) [unfolded k(1)] k(2) c2(2-4) _ assms(5)] assms(10) c2(5) n(1)
  have "session_holds sha s3 (sn_record c3) (so_data src)" by auto
  from finalized_session [OF assms(6,9) this] show ?thesis .
qed

section \<open>Examples\<close>

lemma hex_digest_inject: "hex_digest sha x = hex_digest sha y \<longleftrightarrow> sha x = sha y"
proof
  assume "hex_digest sha x = hex_digest sha y"
  then have bytes: "ucast (drop_bit (8 * (31 - i)) (sha x)) = (ucast (drop_bit (8 * (31 - i)) (sha y)) :: 8 word)" if "i < 32" for i
    using that by (simp add: hex_digest_def)
  show "sha x = sha y"
  proof (rule bit_word_eqI)
    fix n assume "n < LENGTH(256)"
    then have i: "31 - n div 8 < 32" "31 - (31 - n div 8) = n div 8" by auto
    have low: "bit (ucast w :: 8 word) (n mod 8) \<longleftrightarrow> bit w (n mod 8)" for w :: "256 word"
      using mod_less_divisor [of 8 n] by (simp add: bit_ucast_iff)
    from bytes [OF i(1)] have "bit (drop_bit (8 * (n div 8)) (sha x)) (n mod 8) = bit (drop_bit (8 * (n div 8)) (sha y)) (n mod 8)"
      unfolding i(2) using low by metis
    then show "bit (sha x) n = bit (sha y) n" by (simp add: bit_drop_bit_eq)
  qed
qed (simp add: hex_digest_def)

definition toy_sha :: "string \<Rightarrow> 256 word" where
  "toy_sha x = (case x of [] \<Rightarrow> 0 | c # cs \<Rightarrow> of_nat (of_char c))"

definition empty_cache :: cache_store where
  "empty_cache = \<lparr>cs_blobs = [], cs_records = [], cs_leases = []\<rparr>"

definition no_put_faults :: put_faults where
  "no_put_faults = \<lparr>pf_temporary = False, pf_stat = False, pf_verify = False, pf_remove = False, pf_rename = False\<rparr>"

definition toy_encode :: "ChunkManifest \<Rightarrow> string" where
  "toy_encode m = ''manifest''"

definition example_parts :: "string list" where
  "example_parts = [''ab'', ''cd'', ''e'']"

definition example_manifest :: ChunkManifest where
  "example_manifest = manifest_of 2 (map (descriptor_of (blob_address toy_sha)) example_parts) 5"

definition "example_put = PutChunked (cache_put toy_sha) toy_encode (\<lambda>i. (no_put_faults, 0)) (\<lambda>i. False) \<lparr>so_data = ''abcde'', so_fails = False\<rparr> 2 empty_cache"

definition "example_root = descriptor_of (blob_address toy_sha) ''manifest''"

lemmas toy_simps = hex_digest_inject toy_sha_def hex_digest_pattern blob_address_def descriptor_of_def Let_def
  Put_def install_blob_def no_put_faults_def empty_cache_def cache_put_def verifyFile_def parseDigest_def

lemma example_stored:
  "fst example_put = Inr (example_root, example_manifest)"
  "list_all (no_collision Get (blob_address toy_sha) (snd example_put)) (''manifest'' # pieces 2 ''abcde'')"
  by (simp_all add: toy_simps example_put_def PutChunked_def put_chunks.simps chunk_size_def manifest_of_def example_root_def example_manifest_def
      example_parts_def toy_encode_def pieces.simps no_collision_def Get_def i64_def)

lemma no_losses: "\<not> loses_blob no_put_faults"
  by (simp add: loses_blob_def no_put_faults_def)

theorem chunk_round_trip_witness:
  "OpenChunked (Verify (hex_digest toy_sha)) Get (\<lambda>t. Some example_manifest) (snd example_put) example_root = Inr example_manifest \<and>
   read_chunks (Verify (hex_digest toy_sha)) Get (snd example_put) (cm_Chunks example_manifest) = (''abcde'', None)"
proof -
  have run: "example_put = (Inr (example_root, example_manifest), snd example_put)"
    using example_stored(1) by (simp add: prod_eq_iff)
  have "nat (chunk_size 2) = 2" by (simp add: chunk_size_def)
  with chunk_round_trip [OF trans [OF example_put_def [symmetric] run], of "\<lambda>t. Some example_manifest"] example_stored(2) no_losses show ?thesis
    by (simp add: toy_encode_def list_all_iff)
qed

text \<open>A session of which the second record is written although its write reports an error.\<close>

definition toy_env :: "write_fault \<Rightarrow> nat \<Rightarrow> checkpoint_env" where
  "toy_env f i = \<lparr>ce_put = no_put_faults, ce_now = 0, ce_record = (if i = 1 then f else WriteOk)\<rparr>"

lemma digest_file: "digestPattern k \<Longrightarrow> filepath_Base (k @ ''.json'') = k @ ''.json''"
proof (rule filepath_Base_flat)
  have "\<not> is_hex_lower (CHR ''/'')" by code_simp
  then show "digestPattern k \<Longrightarrow> CHR ''/'' \<notin> set (k @ ''.json'')" by (auto simp: digestPattern_def list_all_iff)
qed simp

lemma toy_PutRecord:
  "digestPattern k \<Longrightarrow> gm_get (cs_records s) (k @ ''.json'') \<noteq> Some Directory \<Longrightarrow>
   PutRecord f (''sha256:'' @ k) doc s =
     (case f of FailsBeforeRename \<Rightarrow> (Some CacheIO, s)
      | WriteOk \<Rightarrow> (None, s\<lparr>cs_records := gm_put (k @ ''.json'') (File (Some doc)) (cs_records s)\<rparr>)
      | FailsAfterRename \<Rightarrow> (Some CacheIO, s\<lparr>cs_records := gm_put (k @ ''.json'') (File (Some doc)) (cs_records s)\<rparr>))"
  using digest_file [of k] digestPattern_def [of k]
  by (cases f) (auto simp: PutRecord_def parseDigest_def has_prefix_def Write_def lstat_def io_result_def)

lemmas session_simps = toy_simps OpenChunkSession_def checkpoint_def GetRecord_def toy_PutRecord [simplified] has_prefix_def
  sessionIDPattern_def is_lower_def is_digit_def chunk_size_def toy_env_def Offset_def Exists_def i64_def
  Session_Append.simps [of _ _ _ 0] Session_Append.simps [of _ _ _ "Suc 0"] Session_Append.simps [of _ _ _ "Suc (Suc 0)"]

abbreviation toy_key :: string where
  "toy_key \<equiv> hex_digest toy_sha ''chunk-session:s1''"

definition toy_record :: "string list \<Rightarrow> chunkSessionRecord" where
  "toy_record xs = \<lparr>se_APIVersion = ''platform-factory.dev/chunk-session/v1'', se_ID = ''s1'', se_ChunkSize = 2,
     se_Size = int (length (concat xs)), se_Chunks = map (descriptor_of (blob_address toy_sha)) xs\<rparr>"

definition toy_session :: "string list \<Rightarrow> ChunkSession" where
  "toy_session xs = \<lparr>sn_record = toy_record xs, sn_key = ''sha256:'' @ toy_key\<rparr>"

definition toy_store :: "string list \<Rightarrow> cache_store" where
  "toy_store xs = \<lparr>cs_blobs = map (\<lambda>x. (hex_digest toy_sha x, Blob x 0)) xs, cs_records = [(toy_key @ ''.json'', File (Some (SessionRecord (toy_record xs))))], cs_leases = []\<rparr>"

lemmas toy_states = toy_record_def toy_session_def toy_store_def

lemma example_session:
  "OpenChunkSession (hex_digest toy_sha) WriteOk ''s1'' 2 empty_cache = (Inr (toy_session []), toy_store [])"
  "Session_Append (hex_digest toy_sha) (toy_env FailsAfterRename) (\<lambda>i. False) 0 \<lparr>so_data = ''abcde'', so_fails = False\<rparr> (toy_session []) (toy_store []) =
     (Some (Store CacheIO), toy_session [''ab''], toy_store [''ab'', ''cd''])"
  "OpenChunkSession (hex_digest toy_sha) WriteOk ''s1'' 2 (toy_store [''ab'', ''cd'']) = (Inr (toy_session [''ab'', ''cd'']), toy_store [''ab'', ''cd''])"
  "Session_Append (hex_digest toy_sha) (toy_env WriteOk) (\<lambda>i. False) 0 \<lparr>so_data = ''e'', so_fails = False\<rparr> (toy_session [''ab'', ''cd'']) (toy_store [''ab'', ''cd'']) =
     (None, toy_session example_parts, toy_store example_parts)"
  by (simp_all add: session_simps toy_states example_parts_def)

theorem chunk_session_resumes_witness:
  "\<exists>xs root m s. Finalize (hex_digest toy_sha) toy_encode no_put_faults 0 False (toy_session example_parts) (toy_store example_parts) = (Inr (root, m), s) \<and>
     concat xs = ''abcde'' \<and> cm_Chunks m = map (descriptor_of (blob_address toy_sha)) xs"
proof -
  have fresh: "GetRecord empty_cache (session_key toy_sha ''s1'') = Inr None"
    by (simp add: session_key_def GetRecord_def parseDigest_def has_prefix_def hex_digest_pattern empty_cache_def)
  obtain root m s where final: "Finalize (hex_digest toy_sha) toy_encode no_put_faults 0 False (toy_session example_parts) (toy_store example_parts) = (Inr (root, m), s)"
    by (simp add: Finalize_def toy_states example_parts_def toy_simps toy_encode_def DeleteRecord_def has_prefix_def)
  have rest: "Session_Append (hex_digest toy_sha) (toy_env WriteOk) (\<lambda>i. False) 0
    \<lparr>so_data = drop (nat (Offset (toy_session [''ab'', ''cd'']))) (so_data \<lparr>so_data = ''abcde'', so_fails = False\<rparr>), so_fails = False\<rparr>
    (toy_session [''ab'', ''cd'']) (toy_store [''ab'', ''cd'']) = (None, toy_session example_parts, toy_store example_parts)"
    using example_session(4) by (simp add: Offset_def toy_session_def toy_record_def)
  show ?thesis
    using chunk_session_resumes [OF fresh example_session(1,2,3) rest final] final no_losses by (fastforce simp: toy_env_def)
qed

text \<open>
  Chunk boundaries depend on how the input arrives: the last, shorter chunk of every append is recorded too, so two appends
  of three bytes and one of six bytes give different objects.
\<close>

lemma partial_chunks_recorded:
  "Session_Append (hex_digest toy_sha) (toy_env WriteOk) (\<lambda>i. False) 0 \<lparr>so_data = ''abc'', so_fails = False\<rparr> (toy_session []) (toy_store []) =
     (None, toy_session [''ab'', ''c''], toy_store [''ab'', ''c''])"
  "Session_Append (hex_digest toy_sha) (toy_env WriteOk) (\<lambda>i. False) 0 \<lparr>so_data = ''def'', so_fails = False\<rparr> (toy_session [''ab'', ''c'']) (toy_store [''ab'', ''c'']) =
     (None, toy_session [''ab'', ''c'', ''de'', ''f''], toy_store [''ab'', ''c'', ''de'', ''f''])"
  by (simp_all add: session_simps toy_states)

end
