(* ===== verification/Spec2Isabelle.thy ===== *)
theory Spec2Isabelle
  imports Lifecycle Plugin_Calls Workload_State Stage_Scheduler
    Control_Persistence Audit_Chain Quota Policy Migration_Executor Virtio_MMIO
    Boot_Disk Guest_Transport Fat_Reader Ext_Reader Run_Budget Chunk_Store
begin

text \<open>
  A verification library for Platform Factory, a Go program that builds, publishes and runs
  workloads. This theory imports the whole library; the properties stand in the theories of the
  components they are about, each after a text that names it \<^verbatim>\<open>C1\<close> to \<^verbatim>\<open>C40\<close>.

  \<^bold>\<open>The parts of the program and how they meet.\<close> A pipeline (\<^verbatim>\<open>internal/core/pipeline.go\<close>) is checked and
  ordered by \<^verbatim>\<open>internal/scheduler/graph.go\<close> and its stages are run by \<^verbatim>\<open>internal/scheduler/scheduler.go\<close>.
  The lifecycle of a workload is the state machine of \<^verbatim>\<open>internal/core/statemachine.go\<close>;
  \<^verbatim>\<open>internal/app/publish/publish.go\<close> moves a workload along it and stores its phase with
  \<^verbatim>\<open>internal/workloadstate\<close>, which writes with \<^verbatim>\<open>internal/atomicfile\<close>. Plugins change the world through
  \<^verbatim>\<open>internal/plugin/client.go\<close>, which claims every mutation in the journal of \<^verbatim>\<open>internal/idempotency\<close> first.
  The coordinator \<^verbatim>\<open>internal/control/control.go\<close> hands leases to workers by the ranking of
  \<^verbatim>\<open>internal/placement\<close>, saves itself with \<^verbatim>\<open>persistence.go\<close> and logs with \<^verbatim>\<open>audit.go\<close>;
  \<^verbatim>\<open>internal/quota\<close> bounds what a tenant reserves and \<^verbatim>\<open>internal/policy\<close> decides on publication. A migration
  is validated and planned by \<^verbatim>\<open>internal/migration\<close> and carried out by \<^verbatim>\<open>internal/app/migration\<close>. A workload
  in a microVM drives its devices through the registers of \<^verbatim>\<open>linux_virtio_mmio.go\<close> and reads and writes its disk
  through \<^verbatim>\<open>linux_virtqueue.go\<close> and \<^verbatim>\<open>linux_virtio_blk.go\<close> of \<^verbatim>\<open>internal/hypervisor/kvm\<close>, whose input is memory that
  the guest controls; \<^verbatim>\<open>internal/guesttransport\<close> carries commands to an agent in the guest and watches whether it
  answers. An imported virtual machine is a set of disk images: \<^verbatim>\<open>internal/vmdisk\<close> recognises their formats, maps
  logical offsets to the file, reads partition tables, chooses the disk to boot from, and
  lists and reads the file systems of its volumes (\<^verbatim>\<open>fat.go\<close>, \<^verbatim>\<open>ext.go\<close>) without trusting their metadata. Results of builds
  and large objects are kept in the content-addressed store of \<^verbatim>\<open>internal/cache\<close>.

  \<^bold>\<open>The theories.\<close>
  \<^item> \<^verbatim>\<open>Prelude\<close>, \<^verbatim>\<open>Go_Text\<close>, \<^verbatim>\<open>Go_Int\<close>, \<^verbatim>\<open>Runs\<close>: Go strings as byte lists with UTF-8, decimal and hexadecimal text,
    maps as association lists whose order is one iteration order, checks that return the first error,
    64-bit integers, and sequences of operations.
  \<^item> \<^verbatim>\<open>Lifecycle\<close>: phases and the transition table. A workload runs only after publication (C1); lemma
    \<^verbatim>\<open>transition_table_sound\<close> describes the table, lemma \<^verbatim>\<open>no_dead_end\<close> says which phases reach which.
  \<^item> \<^verbatim>\<open>Durable_Files\<close>, \<^verbatim>\<open>Journal\<close>: a directory with the failure points of each write, and the operation journal
    with its memory and file versions, each method one step; reopening after a crash (C4).
  \<^item> \<^verbatim>\<open>Shared_Journal\<close>: the same methods as sequences of system calls, interleaved by the processes that share a directory, with
    failures and crashes between any two calls. One claim wins (C2) and a settled terminal record stays (C3);
    \<^verbatim>\<open>finish_race\<close> shows that Complete and Fail of two processes can both succeed. Run alone, the steps are the methods of \<^verbatim>\<open>Journal\<close>.
  \<^item> \<^verbatim>\<open>Plugin_Client\<close>, \<^verbatim>\<open>Plugin_Calls\<close>: a mutating call, whose success is durable (C6), with the journal as a locale
    interpreted on the file journal and the memory journal; and calls of many clients and processes as interleaved steps over
    the system calls of their journals, in which a mutation is sent at most once (C5).
  \<^item> \<^verbatim>\<open>Workload_State\<close>: the stores behind one interface and \<^verbatim>\<open>transitionWorkload\<close>; each call changes
    what is stored by at most one move of the table (C7), and what is reported is what is stored.
  \<^item> \<^verbatim>\<open>Pipeline_Types\<close>, \<^verbatim>\<open>Pipeline_Validation\<close>, \<^verbatim>\<open>Kahn\<close>, \<^verbatim>\<open>Pipeline_Graph\<close>: the pipeline, every message of
    validation, and the levels of the topological sort (C8, C9); it does not depend on the iteration order of a map.
  \<^item> \<^verbatim>\<open>Stage_Scheduler\<close>: coordinator, queue and worker pool as a step relation over explicit
    interleavings (C10 to C12).
  \<^item> \<^verbatim>\<open>Run_Budget\<close>: limits on time and memory; what a call under a budget returns in every interleaving (C39).
  \<^item> \<^verbatim>\<open>Placement\<close>, \<^verbatim>\<open>Control_Plane\<close>, \<^verbatim>\<open>Control_Persistence\<close>: selection of a lease, all operations of the
    coordinator with their invariant (C13, lemma \<^verbatim>\<open>terminal_lease_final\<close>), and snapshots (C14).
  \<^item> \<^verbatim>\<open>Audit_Chain\<close>: appending to and verifying the hash chain (C15, C16), with lemmas on what it does not detect.
  \<^item> \<^verbatim>\<open>Quota\<close>: reservations with wrap-around (C17). \<^verbatim>\<open>Policy\<close>: evaluation of a publication (C18).
  \<^item> \<^verbatim>\<open>Edge_Order\<close>, \<^verbatim>\<open>Migration_Model\<close>, \<^verbatim>\<open>Migration_Plan\<close>: validation, canonical form and planning of a
    migration (C19, C20); the order of the input does not matter.
  \<^item> \<^verbatim>\<open>Target_Ports\<close>, \<^verbatim>\<open>Capability_Resolver\<close>, \<^verbatim>\<open>Migration_Executor\<close>: the ports of a migration as functions on an
    arbitrary world, the choice of an implementation (C21), execution and reconciliation (C22 to C24).
  \<^item> \<^verbatim>\<open>Virtqueue\<close>, \<^verbatim>\<open>Virtio_Blk\<close>: guest memory with 64-bit addresses, descriptor chains, the two rings, and block
    requests. A request touches only what the guest offered (C25) and a queue is drained (C26).
  \<^item> \<^verbatim>\<open>Virtio_MMIO\<close>: the register file of a device and its dispatch. A reset restores the device whatever the guest
    wrote (C34); lemma \<^verbatim>\<open>mmio_panics_iff\<close> says which access crashes the monitor.
  \<^item> \<^verbatim>\<open>Logical_Disk\<close>: five container formats as one interface, a locale of block maps interpreted on each of them.
    How a read is cut into blocks does not show (C27); which reads panic (C28).
  \<^item> \<^verbatim>\<open>Partition_Table\<close>, \<^verbatim>\<open>Boot_Disk\<close>: MBR, extended and GPT tables, volumes, format detection and the choice of the boot
    disk. Which headers panic (C29), how the two scans relate (C30), volumes do not overlap (C31).
  \<^item> \<^verbatim>\<open>Guest_Transport\<close>: frames, sequence numbers, both ends of an exchange, the agent and the heartbeat. No message
    is accepted twice or unauthenticated (C32) and an exchange delivers request and answer (C33).
  \<^item> \<^verbatim>\<open>Volume_Inventory\<close>, \<^verbatim>\<open>Fat_Reader\<close>, \<^verbatim>\<open>Ext_Reader\<close>: the walk over a tree of directories as a locale that both readers
    interpret, and the two file systems. Reading an ext file gives what the disk presents (C35), listing a volume
    ends within its limits whatever the image holds (C36, lemma \<^verbatim>\<open>fat_listing_bounded\<close>), nothing outside the volume
    is used (C37, lemma \<^verbatim>\<open>ext_confined\<close>) and the regions of a FAT volume are disjoint (C38).
  \<^item> \<^verbatim>\<open>Content_Cache\<close>, \<^verbatim>\<open>Chunk_Store\<close>: blobs, records, leases and garbage collection of the cache, and large objects in chunks over
    the interface of a content store, a locale interpreted on the cache. A leased blob survives (C40); \<^verbatim>\<open>gc_exact\<close>,
    \<^verbatim>\<open>chunk_round_trip\<close> and \<^verbatim>\<open>chunk_session_resumes\<close> say what is collected, read back and resumed.

  \<^bold>\<open>Conventions.\<close> A struct is a record whose fields carry a short prefix, an operation is a definition
  with the name it has in Go, an error is a value, a method under a mutex is one step for the process that holds it; where several
  processes share files (\<^verbatim>\<open>Shared_Journal\<close>, \<^verbatim>\<open>Plugin_Calls\<close>) a step is one system call. File operations
  take the point at which they fail as an argument. Hash functions, JSON encoding, signatures, clocks
  and everything a plugin or target answers are parameters; what is assumed of them is a hypothesis of
  the theorem that needs it, and every such theorem has a witness. A nil and an empty slice are the same list.

  \<^bold>\<open>Bounds and fuel.\<close> No modelled loop runs out of fuel: the topological orders recurse on a measure,
  the reference order \<^verbatim>\<open>least_first\<close> takes one round more than there are resources, trimming takes as many
  rounds as the text has bytes, and reconciliation counts down the iterations the caller allows.
  \<^verbatim>\<open>processQueue\<close> re-reads an index the guest can change, so it is a partial function into option; C26 proves
  that it ends when the rings are separate from the buffers.
  The walk over directories is a partial function too; C36 and \<^verbatim>\<open>fat_listing_bounded\<close> prove that it returns, since
  every directory is entered at most once.
  The limits of the source (stages, resources, field sizes, file sizes) are constants of the model.

  \<^bold>\<open>Not modelled.\<close> The command line programs, the MCP server, the TUI, the SDK, the plugins and the
  registry client are input and output around the parts above. Of the virtual machine monitor the network
  device, the boot code and the KVM loop are not covered. The readers of NTFS, XFS and Btrfs,
  guest networking and checkpoint packages have logic of their own that the library
  does not cover yet. Image and layer construction, signing and provenance depend on archive,
  compression and cryptographic libraries.
\<close>

end
